(* ===== verification/Prelude.thy ===== *)
theory Prelude
  imports
    Main
    "HOL-Library.Word"
    "HOL-Library.List_Lexorder"
    "HOL-Library.Char_ord"
    "HOL-Library.Multiset"
    "HOL-Library.Sublist"
begin

text \<open>
  Shared vocabulary of the development: machine integers and byte strings, the big-endian
  encodings that every key of the database is built from, the lexicographic order of keys,
  UTF-8 validity, the error type of \<^verbatim>\<open>mmdb-core\<close> with its result type, and the stable
  sort of the Rust standard library.
\<close>

unbundle bit_operations_syntax

named_theorems be_simps \<open>big-endian encodings: lengths, injectivity and order\<close>
named_theorems result_simps \<open>sequencing of fallible steps\<close>

section \<open>Machine integers and bytes\<close>

type_synonym byte = "8 word"
type_synonym bytes = "8 word list"
type_synonym u32 = "32 word"
type_synonym u64 = "64 word"
type_synonym u128 = "128 word"
type_synonym ulid = "128 word"

text \<open>An \<^verbatim>\<open>i64\<close> is kept as its 64-bit pattern; its value is read with \<^term>\<open>sint\<close>.\<close>

type_synonym i64 = "64 word"

definition usize_max :: nat where
  "usize_max = 2 ^ 64 - 1"

definition saturating_add_u64 :: "u64 \<Rightarrow> u64 \<Rightarrow> u64" where
  "saturating_add_u64 a b = (if unat a + unat b < 2 ^ 64 then a + b else - 1)"

definition saturating_sub_u64 :: "u64 \<Rightarrow> u64 \<Rightarrow> u64" where
  "saturating_sub_u64 a b = (if b \<le> a then a - b else 0)"

text \<open>The \<open>n\<close> bytes of \<open>x mod 256 ^ n\<close>, most significant first (\<^verbatim>\<open>to_be_bytes\<close>).\<close>

fun be_nat :: "nat \<Rightarrow> nat \<Rightarrow> bytes" where
  "be_nat 0 x = []"
| "be_nat (Suc n) x = word_of_nat (x div 256 ^ n mod 256) # be_nat n x"

definition from_be :: "bytes \<Rightarrow> nat" where
  "from_be bs = foldl (\<lambda>acc b. acc * 256 + unat b) 0 bs"

definition u16_be :: "16 word \<Rightarrow> bytes" where
  "u16_be w = be_nat 2 (unat w)"

definition u32_be :: "u32 \<Rightarrow> bytes" where
  "u32_be w = be_nat 4 (unat w)"

definition u64_be :: "u64 \<Rightarrow> bytes" where
  "u64_be w = be_nat 8 (unat w)"

definition u128_be :: "u128 \<Rightarrow> bytes" where
  "u128_be w = be_nat 16 (unat w)"

definition u32_from_be :: "bytes \<Rightarrow> u32" where
  "u32_from_be bs = word_of_nat (from_be bs)"

definition u64_from_be :: "bytes \<Rightarrow> u64" where
  "u64_from_be bs = word_of_nat (from_be bs)"

definition u128_from_be :: "bytes \<Rightarrow> u128" where
  "u128_from_be bs = word_of_nat (from_be bs)"

section \<open>Strings\<close>

text \<open>
  A Rust \<^verbatim>\<open>String\<close> is its UTF-8 byte sequence, one \<^typ>\<open>char\<close> per byte. The strings of a
  Rust program satisfy \<open>utf8_valid\<close>; where the code decides it at run time
  (\<^verbatim>\<open>String::from_utf8\<close>) the model does so too.
\<close>

definition as_bytes :: "string \<Rightarrow> bytes" where
  "as_bytes s = map of_char s"

definition bytes_to_string :: "bytes \<Rightarrow> string" where
  "bytes_to_string bs = map (\<lambda>b. char_of (unat b)) bs"

definition utf8_cont :: "nat \<Rightarrow> bool" where
  "utf8_cont b \<longleftrightarrow> 128 \<le> b \<and> b \<le> 191"

fun utf8_codes :: "nat list \<Rightarrow> bool" where
  "utf8_codes [] = True"
| "utf8_codes (a # xs) =
     (if a < 128 then utf8_codes xs
      else if 194 \<le> a \<and> a \<le> 223 then
        (case xs of b # ys \<Rightarrow> utf8_cont b \<and> utf8_codes ys | [] \<Rightarrow> False)
      else if 224 \<le> a \<and> a \<le> 239 then
        (case xs of b # c # ys \<Rightarrow>
           utf8_cont b \<and> (a = 224 \<longrightarrow> 160 \<le> b) \<and> (a = 237 \<longrightarrow> b \<le> 159) \<and>
           utf8_cont c \<and> utf8_codes ys
         | _ \<Rightarrow> False)
      else if 240 \<le> a \<and> a \<le> 244 then
        (case xs of b # c # d # ys \<Rightarrow>
           utf8_cont b \<and> (a = 240 \<longrightarrow> 144 \<le> b) \<and> (a = 244 \<longrightarrow> b \<le> 143) \<and>
           utf8_cont c \<and> utf8_cont d \<and> utf8_codes ys
         | _ \<Rightarrow> False)
      else False)"

definition utf8_valid :: "bytes \<Rightarrow> bool" where
  "utf8_valid bs = utf8_codes (map unat bs)"

definition from_utf8 :: "bytes \<Rightarrow> string option" where
  "from_utf8 bs = (if utf8_valid bs then Some (bytes_to_string bs) else None)"

text \<open>Decimal numerals, as \<^verbatim>\<open>Display\<close> prints unsigned integers.\<close>

fun show_nat :: "nat \<Rightarrow> string" where
  "show_nat n =
     (if n < 10 then [char_of (48 + n)] else show_nat (n div 10) @ [char_of (48 + n mod 10)])"

section \<open>Errors and results\<close>

text \<open>\<^verbatim>\<open>mmdb_core::Error\<close>; the payload of the last two is the wrapped error's text.\<close>

datatype error =
    Storage string
  | Codec string
  | NotFound
  | InvalidArgument string
  | Io string
  | Json string

type_synonym 'a result = "error + 'a"

text \<open>\<^verbatim>\<open>map_err\<close> on a foreign result, and the two shapes of the \<^verbatim>\<open>?\<close> operator.\<close>

definition map_err :: "('e \<Rightarrow> 'f) \<Rightarrow> 'e + 'a \<Rightarrow> 'f + 'a" where
  "map_err f r = (case r of Inl e \<Rightarrow> Inl (f e) | Inr x \<Rightarrow> Inr x)"

definition bind_res :: "'e + 'a \<Rightarrow> ('a \<Rightarrow> 'e + 'b) \<Rightarrow> 'e + 'b" where
  "bind_res r f = (case r of Inl e \<Rightarrow> Inl e | Inr x \<Rightarrow> f x)"

definition ok_or :: "'e \<Rightarrow> 'a option \<Rightarrow> 'e + 'a" where
  "ok_or e x = (case x of None \<Rightarrow> Inl e | Some v \<Rightarrow> Inr v)"

fun collect_res :: "('e + 'a) list \<Rightarrow> 'e + 'a list" where
  "collect_res [] = Inr []"
| "collect_res (r # rs) = bind_res r (\<lambda>x. bind_res (collect_res rs) (\<lambda>xs. Inr (x # xs)))"

fun collect_opt :: "'a option list \<Rightarrow> 'a list option" where
  "collect_opt [] = Some []"
| "collect_opt (None # xs) = None"
| "collect_opt (Some x # xs) = map_option (Cons x) (collect_opt xs)"

section \<open>Comparison and the stable sort\<close>

datatype ordering = Less | Equal | Greater

definition cmp_of :: "'a::linorder \<Rightarrow> 'a \<Rightarrow> ordering" where
  "cmp_of a b = (if a < b then Less else if a = b then Equal else Greater)"

text \<open>
  \<^verbatim>\<open>slice::sort_by\<close> is a stable sort. For a comparison that is a total preorder its result
  is determined; the insertion sort below computes it.
\<close>

fun insert_by :: "('a \<Rightarrow> 'a \<Rightarrow> ordering) \<Rightarrow> 'a \<Rightarrow> 'a list \<Rightarrow> 'a list" where
  "insert_by c x [] = [x]"
| "insert_by c x (y # ys) = (if c x y = Greater then y # insert_by c x ys else x # y # ys)"

fun sort_by :: "('a \<Rightarrow> 'a \<Rightarrow> ordering) \<Rightarrow> 'a list \<Rightarrow> 'a list" where
  "sort_by c [] = []"
| "sort_by c (x # xs) = insert_by c x (sort_by c xs)"

section \<open>Ordered maps\<close>

text \<open>
  A \<^verbatim>\<open>BTreeMap\<close> is the list of its entries in ascending key order, each key once.
\<close>

type_synonym ('k, 'v) btree = "('k \<times> 'v) list"

definition btree_ok :: "('k::linorder, 'v) btree \<Rightarrow> bool" where
  "btree_ok m = sorted_wrt (<) (map fst m)"

fun btree_insert :: "'k::linorder \<Rightarrow> 'v \<Rightarrow> ('k, 'v) btree \<Rightarrow> ('k, 'v) btree" where
  "btree_insert k v [] = [(k, v)]"
| "btree_insert k v ((a, b) # m) =
     (if k < a then (k, v) # (a, b) # m
      else if k = a then (k, v) # m
      else (a, b) # btree_insert k v m)"

definition btree_remove :: "'k \<Rightarrow> ('k, 'v) btree \<Rightarrow> ('k, 'v) btree" where
  "btree_remove k m = filter (\<lambda>e. fst e \<noteq> k) m"

abbreviation (input) btree_get :: "('k, 'v) btree \<Rightarrow> 'k \<Rightarrow> 'v option" where
  "btree_get m k \<equiv> map_of m k"

section \<open>Lemmas: byte strings\<close>

declare show_nat.simps [simp del]

lemma length_be_nat [simp]: "length (be_nat n x) = n"
  by (induction n) auto

lemma unat_byte_mod: "unat (word_of_nat (x mod 256) :: byte) = x mod 256"
  by (simp add: unat_of_nat)

lemma from_be_Nil [simp]: "from_be [] = 0"
  by (simp add: from_be_def)

lemma foldl_be_shift:
  "foldl (\<lambda>acc b. acc * 256 + unat (b :: byte)) a bs =
     a * 256 ^ length bs + foldl (\<lambda>acc b. acc * 256 + unat b) 0 bs"
proof (induction bs arbitrary: a)
  case Nil
  then show ?case by simp
next
  case (Cons b bs)
  show ?case
    by (simp only: foldl_Cons, subst (1 2) Cons.IH) (simp add: algebra_simps)
qed

lemma from_be_Cons: "from_be (b # bs) = unat b * 256 ^ length bs + from_be bs"
  unfolding from_be_def by (simp add: foldl_be_shift [of "unat b"])

lemma from_be_be_nat [be_simps]: "from_be (be_nat n x) = x mod 256 ^ n"
proof (induction n)
  case 0
  then show ?case by simp
next
  case (Suc n)
  have "from_be (be_nat (Suc n) x) = (x div 256 ^ n mod 256) * 256 ^ n + x mod 256 ^ n"
    using Suc by (simp only: be_nat.simps from_be_Cons length_be_nat unat_byte_mod)
  also have "\<dots> = x mod 256 ^ Suc n"
    by (metis add.commute mod_mult2_eq mult.commute power_Suc)
  finally show ?case .
qed

lemma from_be_less: "from_be bs < 256 ^ length bs"
proof (induction bs)
  case Nil
  then show ?case by simp
next
  case (Cons b bs)
  have "unat b < 256" using unsigned_less [of b] by simp
  then have "Suc (unat b) * 256 ^ length bs \<le> 256 * 256 ^ length bs"
    by (intro mult_right_mono) auto
  moreover have "from_be (b # bs) < Suc (unat b) * 256 ^ length bs"
    using Cons by (simp add: from_be_Cons)
  ultimately have "from_be (b # bs) < 256 * 256 ^ length bs" by linarith
  then show ?case by simp
qed

lemma be_nat_from_be: "length bs = n \<Longrightarrow> be_nat n (from_be bs + k * 256 ^ n) = bs"
proof (induction bs arbitrary: n k)
  case Nil
  then show ?case by simp
next
  case (Cons b bs)
  then obtain m where m: "n = Suc m" and len: "length bs = m" by (cases n) auto
  have b: "unat b < 256" using unsigned_less [of b] by simp
  have eq: "from_be (b # bs) + k * 256 ^ n = from_be bs + (unat b + k * 256) * 256 ^ m"
    using m len by (simp add: from_be_Cons algebra_simps)
  have "from_be bs < 256 ^ m" using from_be_less [of bs] len by simp
  then have "(from_be bs + (unat b + k * 256) * 256 ^ m) div 256 ^ m mod 256 = unat b"
    using b by simp
  then have "word_of_nat ((from_be bs + (unat b + k * 256) * 256 ^ m) div 256 ^ m mod 256) = b"
    by simp
  then show ?case
    unfolding m eq [unfolded m] using Cons.IH [OF len] by simp
qed

lemma be_nat_from_be_id [be_simps]: "length bs = n \<Longrightarrow> be_nat n (from_be bs) = bs"
  using be_nat_from_be [of bs n 0] by simp

lemma be_nat_inject:
  assumes "x < 256 ^ n" and "y < 256 ^ n"
  shows "be_nat n x = be_nat n y \<longleftrightarrow> x = y"
  by (metis assms from_be_be_nat mod_less)

lemma append_less_append [be_simps]:
  fixes xs ys us vs :: "'a::linorder list"
  assumes "length xs = length ys"
  shows "xs @ us < ys @ vs \<longleftrightarrow> xs < ys \<or> xs = ys \<and> us < vs"
  using assms by (induction xs ys rule: list_induct2) auto

lemma append_le_append [be_simps]:
  fixes xs ys us vs :: "'a::linorder list"
  assumes "length xs = length ys"
  shows "xs @ us \<le> ys @ vs \<longleftrightarrow> xs < ys \<or> xs = ys \<and> us \<le> vs"
  using append_less_append [OF assms] assms by (auto simp: list_le_def)

lemma less_append_same [simp]: "(xs :: 'a::linorder list) < xs @ ys \<longleftrightarrow> ys \<noteq> []"
  by (induction xs) (cases ys; simp)+

lemma le_append_same: "(xs :: 'a::linorder list) \<le> xs @ ys"
  by (cases "ys = []") (auto simp: less_imp_le)

lemma be_nat_mod: "be_nat n (x mod 256 ^ n) = be_nat n x"
  by (metis from_be_be_nat be_nat_from_be_id length_be_nat)

lemma less_iff_div_mod:
  "(x :: nat) < y \<longleftrightarrow> x div b < y div b \<or> x div b = y div b \<and> x mod b < y mod b"
proof (cases "x div b = y div b")
  case True
  then show ?thesis
    using div_mult_mod_eq [of x b] div_mult_mod_eq [of y b] by (metis less_irrefl add_less_cancel_left)
next
  case False
  then show ?thesis
    by (metis div_le_mono nat_less_le linorder_le_cases leD)
qed

lemma be_nat_less_iff:
  assumes "x < 256 ^ n" and "y < 256 ^ n"
  shows "be_nat n x < be_nat n y \<longleftrightarrow> x < y"
  using assms
proof (induction n arbitrary: x y)
  case 0
  then show ?case by simp
next
  case (Suc n)
  let ?B = "256 ^ n :: nat"
  have hd: "word_of_nat (z div ?B mod 256) < (word_of_nat (w div ?B mod 256) :: byte)
      \<longleftrightarrow> z div ?B < w div ?B" if "z < 256 ^ Suc n" "w < 256 ^ Suc n" for z w
    using that by (simp add: word_less_nat_alt unat_of_nat less_mult_imp_div_less)
  have tl: "be_nat n x < be_nat n y \<longleftrightarrow> x mod ?B < y mod ?B"
    using Suc.IH [of "x mod ?B" "y mod ?B"] by (simp add: be_nat_mod)
  have eq: "word_of_nat (x div ?B mod 256) = (word_of_nat (y div ?B mod 256) :: byte)
      \<longleftrightarrow> x div ?B = y div ?B"
    using hd [OF Suc.prems] hd [OF Suc.prems(2,1)] by (metis linorder_neq_iff)
  have "x < y \<longleftrightarrow> x div ?B < y div ?B \<or> x div ?B = y div ?B \<and> x mod ?B < y mod ?B"
    by (rule less_iff_div_mod)
  then show ?case using hd [OF Suc.prems] tl eq by simp
qed

lemma length_word_be [simp]:
  "length (u16_be w) = 2" "length (u32_be x) = 4" "length (u64_be y) = 8" "length (u128_be z) = 16"
  by (simp_all add: u16_be_def u32_be_def u64_be_def u128_be_def)

lemma unat_less_256:
  assumes "LENGTH('a) \<le> 8 * n"
  shows "unat (w :: 'a::len word) < 256 ^ n"
proof -
  have "unat w < 2 ^ LENGTH('a)" by (rule unsigned_less)
  also have "\<dots> \<le> 2 ^ (8 * n)" using assms by (rule power_increasing) simp
  finally show ?thesis by (simp add: power_mult)
qed

lemma be_unat:
  assumes "LENGTH('a) \<le> 8 * n"
  shows "be_nat n (unat w) = be_nat n (unat w') \<longleftrightarrow> (w :: 'a::len word) = w'"
    and "be_nat n (unat w) < be_nat n (unat w') \<longleftrightarrow> w < w'"
    and "(word_of_nat (from_be (be_nat n (unat w))) :: 'a word) = w"
  using unat_less_256 [OF assms, of w] unat_less_256 [OF assms, of w']
  by (simp_all add: be_nat_inject be_nat_less_iff word_less_nat_alt from_be_be_nat
      word_unat_eq_iff)

lemma word_be_inject [simp]:
  "u16_be w = u16_be w' \<longleftrightarrow> w = w'" "u32_be x = u32_be x' \<longleftrightarrow> x = x'"
  "u64_be y = u64_be y' \<longleftrightarrow> y = y'" "u128_be z = u128_be z' \<longleftrightarrow> z = z'"
  unfolding u16_be_def u32_be_def u64_be_def u128_be_def by (simp_all add: be_unat(1))

lemma word_be_less [simp]:
  "u16_be w < u16_be w' \<longleftrightarrow> w < w'" "u32_be x < u32_be x' \<longleftrightarrow> x < x'"
  "u64_be y < u64_be y' \<longleftrightarrow> y < y'" "u128_be z < u128_be z' \<longleftrightarrow> z < z'"
  unfolding u16_be_def u32_be_def u64_be_def u128_be_def by (simp_all add: be_unat(2))

lemma word_from_be [simp]:
  "u32_from_be (u32_be x) = x" "u64_from_be (u64_be y) = y" "u128_from_be (u128_be z) = z"
  unfolding u32_from_be_def u32_be_def u64_from_be_def u64_be_def u128_from_be_def u128_be_def
  by (simp_all add: be_unat(3))

lemma word_be_from_be:
  "length bs = 4 \<Longrightarrow> u32_be (u32_from_be bs) = bs"
  "length cs = 8 \<Longrightarrow> u64_be (u64_from_be cs) = cs"
  "length ds = 16 \<Longrightarrow> u128_be (u128_from_be ds) = ds"
  using from_be_less [of bs] from_be_less [of cs] from_be_less [of ds]
  by (auto simp: u32_be_def u32_from_be_def u64_be_def u64_from_be_def u128_be_def
      u128_from_be_def unat_of_nat be_simps)

lemma byte_le_max: "(b :: byte) \<le> 255"
proof -
  have "unat b < 256" using unsigned_less [of b] by simp
  then show ?thesis by (simp add: word_le_nat_alt)
qed

lemma le_replicate_max: "length (bs :: bytes) \<le> n \<Longrightarrow> bs \<le> replicate n 255"
proof (induction n arbitrary: bs)
  case 0
  then show ?case by simp
next
  case (Suc n)
  show ?case
  proof (cases bs)
    case Nil
    then show ?thesis by simp
  next
    case (Cons b cs)
    then have "cs \<le> replicate n 255" using Suc by simp
    moreover have "b < 255 \<or> b = 255" using byte_le_max [of b] by (simp add: order_le_less)
    ultimately show ?thesis using Cons by auto
  qed
qed

lemma less_replicate_max:
  "length (bs :: bytes) \<le> n \<Longrightarrow> bs < replicate n 255 \<longleftrightarrow> bs \<noteq> replicate n 255"
  using le_replicate_max by (auto simp: order_le_less)

lemma be_nat_max: "be_nat n (256 ^ n - 1) = replicate n 255"
proof (induction n)
  case 0
  then show ?case by simp
next
  case (Suc n)
  have pos: "(0 :: nat) < 256 ^ n" by simp
  have split: "256 ^ Suc n - 1 = 255 * 256 ^ n + (256 ^ n - 1 :: nat)" using pos by simp
  have last: "(B - 1 + 255 * B) div B = 255" "(B - 1 + 255 * B) mod B = B - 1" if "0 < B" for B :: nat
  proof -
    have "B - 1 < B" using that by simp
    then show "(B - 1 + 255 * B) div B = 255" "(B - 1 + 255 * B) mod B = B - 1"
      using that by (simp_all only: div_mult_self1 mod_mult_self1 div_less mod_less)
  qed
  have "(256 ^ Suc n - 1) div 256 ^ n = (255 :: nat)"
    using last(1) [OF pos] by (simp only: split add.commute)
  then have "(256 ^ Suc n - 1) div 256 ^ n mod 256 = (255 :: nat)" by simp
  moreover have "be_nat n (256 ^ Suc n - 1) = be_nat n (256 ^ n - 1)"
  proof -
    have "(256 ^ Suc n - 1 :: nat) mod 256 ^ n = 256 ^ n - 1"
      using last(2) [OF pos] by (simp only: split add.commute)
    then show ?thesis by (metis be_nat_mod)
  qed
  ultimately show ?case using Suc by simp
qed

lemma u32_be_max: "u32_be (- 1) = replicate 4 0xff"
  using be_nat_max [of 4] by (simp add: u32_be_def unsigned_minus_1_eq_mask mask_eq_exp_minus_1)

lemma u128_be_max: "u128_be (- 1) = replicate 16 0xff"
  using be_nat_max [of 16] by (simp add: u128_be_def unsigned_minus_1_eq_mask mask_eq_exp_minus_1)

text \<open>
  The half-open key interval between a prefix and the prefix followed by a bound holds exactly
  the keys that extend the prefix by something below the bound.
\<close>

lemma prefix_interval:
  fixes p k s :: "'a::linorder list"
  shows "p \<le> k \<and> k < p @ s \<longleftrightarrow> (\<exists>r. k = p @ r \<and> r < s)"
proof (induction p arbitrary: k)
  case Nil
  then show ?case by simp
next
  case (Cons a p)
  show ?case
  proof (cases k)
    case Nil
    then show ?thesis by simp
  next
    case (Cons b l)
    then show ?thesis using Cons.IH [of l] by auto
  qed
qed

lemma length_as_bytes [simp]: "length (as_bytes s) = length s"
  by (simp add: as_bytes_def)

lemma unat_of_char: "unat (of_char c :: byte) = of_char c mod 256"
proof -
  have "(of_char c :: byte) = word_of_nat (of_char c)" by (simp add: of_nat_of_char)
  then show ?thesis by (simp add: unat_of_nat)
qed

lemma as_bytes_bytes_to_string [simp]: "bytes_to_string (as_bytes s) = s"
  by (simp add: as_bytes_def bytes_to_string_def o_def unat_of_char)

lemma as_bytes_inject [simp]: "as_bytes s = as_bytes t \<longleftrightarrow> s = t"
  by (metis as_bytes_bytes_to_string)

lemma as_bytes_append [simp]: "as_bytes (s @ t) = as_bytes s @ as_bytes t"
  by (simp add: as_bytes_def)

lemma from_utf8_as_bytes [simp]: "utf8_valid (as_bytes s) \<Longrightarrow> from_utf8 (as_bytes s) = Some s"
  by (simp add: from_utf8_def)

section \<open>Lemmas: results, sorting and ordered maps\<close>

lemma bind_res_simps [simp, result_simps]:
  "bind_res (Inl e) f = Inl e" "bind_res (Inr x) f = f x"
  by (simp_all add: bind_res_def)

lemma map_err_simps [simp, result_simps]:
  "map_err f (Inl e) = Inl (f e)" "map_err f (Inr x) = Inr x"
  by (simp_all add: map_err_def)

lemma bind_res_eq_Inr: "bind_res r f = Inr y \<longleftrightarrow> (\<exists>x. r = Inr x \<and> f x = Inr y)"
  by (cases r) auto

lemma ok_or_simps [simp, result_simps]: "ok_or e None = Inl e" "ok_or e (Some v) = Inr v"
  by (simp_all add: ok_or_def)

lemma collect_res_Inr: "collect_res (map Inr xs) = Inr xs"
  by (induction xs) auto

lemma collect_res_map_Inr:
  "(\<And>x. x \<in> set xs \<Longrightarrow> f x = Inr (g x)) \<Longrightarrow> collect_res (map f xs) = Inr (map g xs)"
  by (induction xs) auto

lemma collect_opt_eq_Some: "collect_opt xs = Some ys \<longleftrightarrow> xs = map Some ys"
  by (induction xs arbitrary: ys rule: collect_opt.induct) (auto simp: map_eq_Cons_conv Cons_eq_map_conv)

lemma mset_insert_by [simp]: "mset (insert_by c x xs) = add_mset x (mset xs)"
  by (induction xs) auto

lemma mset_sort_by [simp]: "mset (sort_by c xs) = mset xs"
  by (induction xs) auto

lemma set_insert_by [simp]: "set (insert_by c x xs) = insert x (set xs)"
  by (induction xs) auto

lemma set_sort_by [simp]: "set (sort_by c xs) = set xs"
  by (induction xs) auto

lemma length_sort_by [simp]: "length (sort_by c xs) = length xs"
  by (metis mset_sort_by size_mset)

text \<open>
  On a set of elements where the comparison is a total preorder, the sort returns a sorted
  list. \<open>cmp_preorder\<close> is what \<^verbatim>\<open>sort_by\<close> asks of its argument.
\<close>

definition cmp_preorder :: "'a set \<Rightarrow> ('a \<Rightarrow> 'a \<Rightarrow> ordering) \<Rightarrow> bool" where
  "cmp_preorder A c \<longleftrightarrow>
     (\<forall>x\<in>A. \<forall>y\<in>A. (c x y = Greater \<longrightarrow> c y x = Less) \<and> (c x y = Less \<longrightarrow> c y x = Greater)) \<and>
     (\<forall>x\<in>A. \<forall>y\<in>A. \<forall>z\<in>A. c x y \<noteq> Greater \<longrightarrow> c y z \<noteq> Greater \<longrightarrow> c x z \<noteq> Greater)"

lemma insert_by_sorted:
  assumes "cmp_preorder A c" "insert x (set xs) \<subseteq> A"
    and "sorted_wrt (\<lambda>a b. c a b \<noteq> Greater) xs"
  shows "sorted_wrt (\<lambda>a b. c a b \<noteq> Greater) (insert_by c x xs)"
  using assms(2,3)
proof (induction xs)
  case Nil
  then show ?case by simp
next
  case (Cons y ys)
  have A: "x \<in> A" "y \<in> A" "set ys \<subseteq> A" using Cons.prems by auto
  show ?case
  proof (cases "c x y = Greater")
    case True
    then have "c y x \<noteq> Greater"
      using assms(1) A unfolding cmp_preorder_def by (metis ordering.distinct(3))
    then show ?thesis using True Cons by auto
  next
    case False
    have trans: "c u w \<noteq> Greater" if "u \<in> A" "v \<in> A" "w \<in> A" "c u v \<noteq> Greater" "c v w \<noteq> Greater"
      for u v w using assms(1) that unfolding cmp_preorder_def by blast
    have "\<forall>z\<in>set ys. c y z \<noteq> Greater" using Cons.prems(2) by simp
    then have "\<forall>z\<in>set ys. c x z \<noteq> Greater"
      using trans [of x y] False A by blast
    then show ?thesis using False Cons by auto
  qed
qed

lemma sort_by_sorted:
  assumes "cmp_preorder A c" "set xs \<subseteq> A"
  shows "sorted_wrt (\<lambda>a b. c a b \<noteq> Greater) (sort_by c xs)"
  using assms(2) by (induction xs) (auto intro!: insert_by_sorted [OF assms(1)])

text \<open>Stability: elements that compare equal keep their order.\<close>

lemma insert_by_filter:
  assumes "\<And>y. y \<in> set xs \<Longrightarrow> P y \<Longrightarrow> P x \<Longrightarrow> c x y \<noteq> Greater"
  shows "filter P (insert_by c x xs) = (if P x then x # filter P xs else filter P xs)"
  using assms
proof (induction xs)
  case Nil
  then show ?case by simp
next
  case (Cons y ys)
  have IH: "filter P (insert_by c x ys) = (if P x then x # filter P ys else filter P ys)"
    using Cons by auto
  have "P y \<Longrightarrow> P x \<Longrightarrow> c x y \<noteq> Greater" using Cons.prems by simp
  then show ?case using IH by auto
qed

lemma sort_by_stable:
  assumes "\<And>x y. x \<in> set xs \<Longrightarrow> y \<in> set xs \<Longrightarrow> P x \<Longrightarrow> P y \<Longrightarrow> c x y \<noteq> Greater"
  shows "filter P (sort_by c xs) = filter P xs"
  using assms
proof (induction xs)
  case Nil
  then show ?case by simp
next
  case (Cons x xs)
  have "filter P (insert_by c x (sort_by c xs)) =
      (if P x then x # filter P (sort_by c xs) else filter P (sort_by c xs))"
    using Cons.prems by (intro insert_by_filter) auto
  then show ?case using Cons by auto
qed

text \<open>Sorting commutes with filtering.\<close>

lemma filter_insert_by:
  assumes "cmp_preorder A c" "insert x (set ys) \<subseteq> A" "sorted_wrt (\<lambda>a b. c a b \<noteq> Greater) ys"
  shows "filter P (insert_by c x ys) = (if P x then insert_by c x (filter P ys) else filter P ys)"
  using assms(2,3)
proof (induction ys)
  case Nil
  then show ?case by simp
next
  case (Cons y ys)
  show ?case
  proof (cases "c x y = Greater")
    case True
    then show ?thesis using Cons by auto
  next
    case False
    have trans: "c u w \<noteq> Greater" if "u \<in> A" "v \<in> A" "w \<in> A" "c u v \<noteq> Greater" "c v w \<noteq> Greater"
      for u v w using assms(1) that unfolding cmp_preorder_def by blast
    have "c x z \<noteq> Greater" if "z \<in> set ys" for z
      using Cons.prems False that by (intro trans [of x y z]) auto
    then have "\<forall>z\<in>set (filter P ys). c x z \<noteq> Greater" by simp
    then have "insert_by c x (filter P ys) = x # filter P ys"
      by (cases "filter P ys") simp_all
    then show ?thesis using False by auto
  qed
qed

lemma sort_by_filter:
  assumes "cmp_preorder A c" "set xs \<subseteq> A"
  shows "sort_by c (filter P xs) = filter P (sort_by c xs)"
  using assms(2)
proof (induction xs)
  case Nil
  then show ?case by simp
next
  case (Cons x xs)
  have "sorted_wrt (\<lambda>a b. c a b \<noteq> Greater) (sort_by c xs)"
    using Cons.prems by (intro sort_by_sorted [OF assms(1)]) simp
  then show ?case using Cons filter_insert_by [OF assms(1), of x "sort_by c xs" P] by auto
qed

lemma cmp_preorder_key:
  "(\<And>x y. x \<in> A \<Longrightarrow> y \<in> A \<Longrightarrow> c x y = cmp_of (k x) (k y :: 'b::linorder)) \<Longrightarrow> cmp_preorder A c"
proof -
  assume c: "\<And>x y. x \<in> A \<Longrightarrow> y \<in> A \<Longrightarrow> c x y = cmp_of (k x) (k y)"
  have "cmp_of a b = Greater \<longleftrightarrow> b < a" "cmp_of a b = Less \<longleftrightarrow> a < b" for a b :: 'b
    by (auto simp: cmp_of_def)
  then show ?thesis by (auto simp: cmp_preorder_def c not_less)
qed

lemma set_btree_insert: "btree_ok m \<Longrightarrow>
    set (btree_insert k v m) = insert (k, v) {e \<in> set m. fst e \<noteq> k}"
proof (induction k v m rule: btree_insert.induct)
  case (1 k v)
  then show ?case by simp
next
  case (2 k v a b m)
  then have lt: "\<forall>e\<in>set m. a < fst e" and m: "btree_ok m" by (auto simp: btree_ok_def)
  show ?case
  proof (cases "k < a")
    case True
    then have "{e \<in> set ((a, b) # m). fst e \<noteq> k} = set ((a, b) # m)"
      using lt by (auto dest: less_trans)
    then show ?thesis using True by simp
  next
    case False
    show ?thesis
    proof (cases "k = a")
      case True
      then have "{e \<in> set ((a, b) # m). fst e \<noteq> k} = set m" using lt by force
      then show ?thesis using True by simp
    next
      case neq: False
      then have "set (btree_insert k v m) = insert (k, v) {e \<in> set m. fst e \<noteq> k}"
        using 2 False m by simp
      then show ?thesis using False neq by auto
    qed
  qed
qed

lemma btree_ok_insert: "btree_ok m \<Longrightarrow> btree_ok (btree_insert k v m)"
proof (induction k v m rule: btree_insert.induct)
  case (1 k v)
  then show ?case by (simp add: btree_ok_def)
next
  case (2 k v a b m)
  then have m: "btree_ok m" by (simp add: btree_ok_def)
  have "a < fst e" if "e \<in> set (btree_insert k v m)" "\<not> k < a" "k \<noteq> a" for e
    using that 2 by (auto simp: set_btree_insert [OF m] btree_ok_def)
  then show ?case using 2 m by (auto simp: btree_ok_def)
qed

lemma btree_get_insert: "btree_ok m \<Longrightarrow>
    btree_get (btree_insert k v m) = (btree_get m)(k \<mapsto> v)"
proof (induction k v m rule: btree_insert.induct)
  case (1 k v)
  then show ?case by simp
next
  case (2 k v a b m)
  then show ?case by (auto simp: btree_ok_def fun_upd_twist)
qed

lemma btree_ok_remove: "btree_ok m \<Longrightarrow> btree_ok (btree_remove k m)"
  unfolding btree_ok_def btree_remove_def
  by (induction m) auto

lemma btree_get_remove: "btree_get (btree_remove k m) = (btree_get m)(k := None)"
  unfolding btree_remove_def by (induction m) (auto simp: fun_eq_iff)

lemma btree_keys: "btree_ok m \<Longrightarrow> map fst m = sorted_list_of_set (fst ` set m)"
  unfolding btree_ok_def
  by (metis list.set_map sorted_list_of_set.idem_if_sorted_distinct strict_sorted_iff)

lemma sorted_singleton:
  assumes "set xs = {a}" "sorted_wrt R xs" "\<not> R a a"
  shows "xs = [a]"
  using assms by (cases xs; cases "tl xs") auto

lemma distinct_singleton: "distinct xs \<Longrightarrow> set xs = {a} \<Longrightarrow> xs = [a]"
  by (cases xs; cases "tl xs") auto

lemma in_set_map_filter: "y \<in> set (List.map_filter g xs) \<longleftrightarrow> (\<exists>x\<in>set xs. g x = Some y)"
  by (induction xs) (auto simp: List.map_filter_simps split: option.splits)

section \<open>Lemmas: signed words\<close>

lemma map_filter_filter:
  "(\<And>x y. x \<in> set xs \<Longrightarrow> f x = Some y \<Longrightarrow> P x \<longleftrightarrow> Q y) \<Longrightarrow>
     List.map_filter f (filter P xs) = filter Q (List.map_filter f xs)"
  by (induction xs) (auto split: option.splits)

lemma sorted_wrt_map_filter:
  assumes "sorted_wrt R xs"
    "\<And>a b c d. a \<in> set xs \<Longrightarrow> b \<in> set xs \<Longrightarrow> R a b \<Longrightarrow> f a = Some c \<Longrightarrow> f b = Some d \<Longrightarrow> Q c d"
  shows "sorted_wrt Q (List.map_filter f xs)"
  using assms
proof (induction xs)
  case Nil
  then show ?case by simp
next
  case (Cons x xs)
  have IH: "sorted_wrt Q (List.map_filter f xs)"
    by (rule Cons.IH) (use Cons.prems in auto)
  show ?case
  proof (cases "f x")
    case None
    then show ?thesis using IH by simp
  next
    case (Some y)
    have "Q y z" if z: "z \<in> set (List.map_filter f xs)" for z
    proof -
      obtain x' where "x' \<in> set xs" "f x' = Some z" using z by (auto simp: in_set_map_filter)
      then show ?thesis using Cons.prems(2) [of x x' y z] Cons.prems(1) Some by simp
    qed
    then show ?thesis using IH Some by simp
  qed
qed

lemma unat_u64_less: "unat (w :: u64) < 2 ^ 64"
  by (rule order.strict_trans2 [OF unsigned_less]) simp

lemma uint_of_sint: "uint (w :: i64) = (if 0 \<le> sint w then sint w else sint w + 2 ^ 64)"
proof -
  have u: "uint w = sint w mod 2 ^ 64" by (simp add: uint_sint take_bit_eq_mod)
  have b: "- (2 ^ 63) \<le> sint w" "sint w < 2 ^ 63" using sint_ge [of w] sint_lt [of w] by simp_all
  show ?thesis
  proof (cases "0 \<le> sint w")
    case True
    then show ?thesis using u b by simp
  next
    case False
    then have "(sint w + 2 ^ 64) mod 2 ^ 64 = sint w + 2 ^ 64"
      using b by (intro mod_pos_pos_trivial) simp_all
    moreover have "(sint w + 2 ^ 64) mod 2 ^ 64 = sint w mod 2 ^ 64" by (rule mod_add_self2)
    ultimately show ?thesis using u False by simp
  qed
qed

text \<open>Below a non-negative bound, the unsigned order of the bit patterns is the signed order.\<close>

lemma i64_nonneg_order:
  fixes a b :: i64
  assumes "0 \<le> sint b"
  shows "a \<le> b \<longleftrightarrow> 0 \<le> sint a \<and> sint a \<le> sint b" and "a < b \<longleftrightarrow> 0 \<le> sint a \<and> sint a < sint b"
  using assms uint_of_sint [of a] uint_of_sint [of b] sint_ge [of a] sint_lt [of b]
  by (auto simp: word_le_def word_less_def split: if_splits)

lemma i64_nonneg_le:
  fixes a b :: i64
  assumes "0 \<le> sint a" "0 \<le> sint b"
  shows "a \<le> b \<longleftrightarrow> sint a \<le> sint b" and "a < b \<longleftrightarrow> sint a < sint b"
  using assms i64_nonneg_order [of b a] by auto

end
