(* ===== verification/Core_Types.thy ===== *)
theory Core_Types
  imports Prelude
begin

text \<open>
  The data model of \<^verbatim>\<open>mmdb-core\<close> (\<^verbatim>\<open>crates/mmdb-core/src/types.rs\<close>): node kinds, the lifecycle
  states, node content, embeddings, memory nodes and edges, with the two validity tests. A
  \<^verbatim>\<open>serde_json::Value\<close> is the documented enumeration of that crate; an \<^verbatim>\<open>f32\<close> is its bit pattern.
\<close>

type_synonym f32 = "32 word"

section \<open>JSON values\<close>

datatype json_number = PosInt u64 | NegInt i64 | Float u64

datatype json =
    JNull
  | JBool bool
  | JNumber json_number
  | JString string
  | JArray "json list"
  | JObject "(string \<times> json) list"

section \<open>Nodes and edges\<close>

datatype node_kind = Episode | Fact | Entity | Artifact

datatype memory_state = Pending | Active | Superseded | Retracted

primrec as_u8 :: "node_kind \<Rightarrow> byte" where
  "as_u8 Episode = 1"
| "as_u8 Fact = 2"
| "as_u8 Entity = 3"
| "as_u8 Artifact = 4"

definition from_u8 :: "byte \<Rightarrow> node_kind option" where
  "from_u8 v =
     (if v = 1 then Some Episode
      else if v = 2 then Some Fact
      else if v = 3 then Some Entity
      else if v = 4 then Some Artifact
      else None)"

datatype content =
    Text string
  | Blob bytes u64 string "bytes option"
  | Structured json

record embedding =
  em_model :: string
  em_dim :: u32
  em_vector :: "f32 list"

record memory_node =
  mn_id :: ulid
  mn_tenant :: u32
  mn_kind :: node_kind
  mn_created_at_ms :: i64
  mn_updated_at_ms :: i64
  mn_content :: content
  mn_embeddings :: "embedding list"
  mn_metadata :: "(string, json) btree"
  mn_revision :: u64
  mn_state :: memory_state
  mn_valid_from_ms :: "i64 option"
  mn_valid_to_ms :: "i64 option"

record edge =
  e_src :: ulid
  e_dst :: ulid
  e_label :: string
  e_weight :: f32
  e_created_at_ms :: i64
  e_metadata :: "(string, json) btree"
  e_revision :: u64
  e_valid_from_ms :: "i64 option"
  e_valid_to_ms :: "i64 option"
  e_evidence :: "ulid list"

definition in_window :: "i64 \<Rightarrow> i64 option \<Rightarrow> i64 option \<Rightarrow> i64 \<Rightarrow> bool" where
  "in_window created from to as_of_ms =
     (sint (case from of None \<Rightarrow> created | Some f \<Rightarrow> f) \<le> sint as_of_ms \<and>
      (case to of None \<Rightarrow> True | Some t \<Rightarrow> sint as_of_ms < sint t))"

definition node_is_valid_at :: "memory_node \<Rightarrow> i64 \<Rightarrow> bool" where
  "node_is_valid_at n as_of_ms =
     (let w = in_window (mn_created_at_ms n) (mn_valid_from_ms n) (mn_valid_to_ms n) as_of_ms
      in case mn_state n of
           Pending \<Rightarrow> False
         | Active \<Rightarrow> w
         | Superseded \<Rightarrow> mn_valid_to_ms n \<noteq> None \<and> w
         | Retracted \<Rightarrow> mn_valid_to_ms n \<noteq> None \<and> w)"

definition edge_is_valid_at :: "edge \<Rightarrow> i64 \<Rightarrow> bool" where
  "edge_is_valid_at e as_of_ms =
     in_window (e_created_at_ms e) (e_valid_from_ms e) (e_valid_to_ms e) as_of_ms"

lemma from_u8_as_u8 [simp]: "from_u8 (as_u8 k) = Some k"
  by (cases k) (simp_all add: from_u8_def)

lemma as_u8_inject [simp]: "as_u8 k = as_u8 k' \<longleftrightarrow> k = k'"
  by (metis from_u8_as_u8 option.inject)

text \<open>Node kinds are ordered as they are declared.\<close>

instantiation node_kind :: linorder
begin

definition less_eq_node_kind :: "node_kind \<Rightarrow> node_kind \<Rightarrow> bool" where
  "less_eq_node_kind a b \<longleftrightarrow> as_u8 a \<le> as_u8 b"

definition less_node_kind :: "node_kind \<Rightarrow> node_kind \<Rightarrow> bool" where
  "less_node_kind a b \<longleftrightarrow> as_u8 a < as_u8 b"

instance
proof
  fix x y z :: node_kind
  show "x < y \<longleftrightarrow> x \<le> y \<and> \<not> y \<le> x"
    unfolding less_eq_node_kind_def less_node_kind_def by (rule less_le_not_le)
  show "x \<le> x" "x \<le> y \<Longrightarrow> y \<le> z \<Longrightarrow> x \<le> z" "x \<le> y \<or> y \<le> x"
    by (auto simp: less_eq_node_kind_def less_node_kind_def)
  show "x \<le> y \<Longrightarrow> y \<le> x \<Longrightarrow> x = y"
    unfolding less_eq_node_kind_def by (metis antisym as_u8_inject)
qed

end

section \<open>Lemmas\<close>

lemma from_u8_Some: "from_u8 v = Some k \<longleftrightarrow> v = as_u8 k"
  by (cases k) (auto simp: from_u8_def)

lemma node_is_valid_at_window:
  "node_is_valid_at n t \<Longrightarrow>
     in_window (mn_created_at_ms n) (mn_valid_from_ms n) (mn_valid_to_ms n) t"
  by (auto simp: node_is_valid_at_def Let_def split: memory_state.splits)

text \<open>
  The validity of a memory is an interval of time that starts at its \<open>valid_from\<close> (or its
  creation) and, when it has an end, excludes it; a pending memory is never valid, and a
  superseded or retracted one is valid only when its end has been recorded.
\<close>

lemma node_validity_interval:
  "node_is_valid_at n t \<longleftrightarrow>
     mn_state n \<noteq> Pending \<and>
     (mn_state n \<in> {Superseded, Retracted} \<longrightarrow> mn_valid_to_ms n \<noteq> None) \<and>
     sint (case mn_valid_from_ms n of None \<Rightarrow> mn_created_at_ms n | Some f \<Rightarrow> f) \<le> sint t \<and>
     (\<forall>e. mn_valid_to_ms n = Some e \<longrightarrow> sint t < sint e)"
  by (cases "mn_state n") (auto simp: node_is_valid_at_def Let_def in_window_def split: option.splits)

end
