(* ===== verification/Catalog.thy ===== *)
theory Catalog
  imports Core_Types
begin

text \<open>
  The in-memory catalog of \<^verbatim>\<open>crates/mmdb-catalog/src/lib.rs\<close>: registered embedding models, node
  counts per tenant and kind, and named snapshots, behind one read-write lock. A poisoned lock is
  a flag of the state; the system clock is an argument. Counters are 64-bit words.
\<close>

datatype distance_metric = Cosine | Dot | L2

record embedding_model =
  md_name :: string
  md_dim :: u32
  md_distance :: distance_metric

record tenant_stats =
  ts_total_nodes :: u64
  ts_nodes_by_kind :: "(node_kind, u64) btree"
  ts_edge_count :: u64
  ts_blob_count :: u64

record named_snapshot =
  sn_name :: string
  sn_seq_no :: u64
  sn_created_at_ms :: i64

record catalog =
  ca_models :: "(string, embedding_model) btree"
  ca_tenant_stats :: "(u32, tenant_stats) btree"
  ca_snapshots :: "(string, named_snapshot) btree"
  ca_poisoned :: bool

definition stats_default :: tenant_stats where
  "stats_default = \<lparr>ts_total_nodes = 0, ts_nodes_by_kind = [], ts_edge_count = 0, ts_blob_count = 0\<rparr>"

definition catalog_default :: catalog where
  "catalog_default = \<lparr>ca_models = [], ca_tenant_stats = [], ca_snapshots = [], ca_poisoned = False\<rparr>"

definition catalog_read :: "catalog \<Rightarrow> unit result" where
  "catalog_read c = (if ca_poisoned c then Inl (Storage ''catalog read lock poisoned'') else Inr ())"

definition catalog_write :: "catalog \<Rightarrow> unit result" where
  "catalog_write c = (if ca_poisoned c then Inl (Storage ''catalog write lock poisoned'') else Inr ())"

section \<open>Models\<close>

definition register_model :: "embedding_model \<Rightarrow> catalog \<Rightarrow> unit result \<times> catalog" where
  "register_model model c =
     (case catalog_write c of
        Inl e \<Rightarrow> (Inl e, c)
      | Inr _ \<Rightarrow>
          (case btree_get (ca_models c) (md_name model) of
             Some existing \<Rightarrow>
               (if existing \<noteq> model
                then (Inl (InvalidArgument (''embedding model `'' @ md_name model @
                        ''` already registered with dim '' @ show_nat (unat (md_dim existing)))), c)
                else (Inr (), c))
           | None \<Rightarrow> (Inr (), c\<lparr>ca_models := btree_insert (md_name model) model (ca_models c)\<rparr>)))"

definition catalog_model :: "catalog \<Rightarrow> string \<Rightarrow> embedding_model option result" where
  "catalog_model c name = bind_res (catalog_read c) (\<lambda>_. Inr (btree_get (ca_models c) name))"

section \<open>Tenant statistics\<close>

definition stats_or_default :: "catalog \<Rightarrow> u32 \<Rightarrow> tenant_stats" where
  "stats_or_default c tenant =
     (case btree_get (ca_tenant_stats c) tenant of None \<Rightarrow> stats_default | Some s \<Rightarrow> s)"

definition record_node_insert :: "u32 \<Rightarrow> node_kind \<Rightarrow> catalog \<Rightarrow> catalog" where
  "record_node_insert tenant kind c =
     (if ca_poisoned c then c
      else
        let stats = stats_or_default c tenant;
            cnt = (case btree_get (ts_nodes_by_kind stats) kind of None \<Rightarrow> 0 | Some n \<Rightarrow> n);
            stats' = stats\<lparr>ts_total_nodes := ts_total_nodes stats + 1,
                           ts_nodes_by_kind := btree_insert kind (cnt + 1) (ts_nodes_by_kind stats)\<rparr>
        in c\<lparr>ca_tenant_stats := btree_insert tenant stats' (ca_tenant_stats c)\<rparr>)"

definition record_node_delete :: "u32 \<Rightarrow> node_kind \<Rightarrow> catalog \<Rightarrow> catalog" where
  "record_node_delete tenant kind c =
     (if ca_poisoned c then c
      else
        let stats = stats_or_default c tenant;
            by_kind = (case btree_get (ts_nodes_by_kind stats) kind of
                None \<Rightarrow> ts_nodes_by_kind stats
              | Some cnt \<Rightarrow>
                  (let cnt' = saturating_sub_u64 cnt 1;
                       m = btree_insert kind cnt' (ts_nodes_by_kind stats)
                   in if cnt' = 0 then btree_remove kind m else m));
            stats' = stats\<lparr>ts_total_nodes := saturating_sub_u64 (ts_total_nodes stats) 1,
                           ts_nodes_by_kind := by_kind\<rparr>
        in c\<lparr>ca_tenant_stats := btree_insert tenant stats' (ca_tenant_stats c)\<rparr>)"

definition tenant_stats_of :: "catalog \<Rightarrow> u32 \<Rightarrow> tenant_stats" where
  "tenant_stats_of c tenant =
     (case catalog_read c of Inl _ \<Rightarrow> stats_default | Inr _ \<Rightarrow> stats_or_default c tenant)"

section \<open>Snapshots\<close>

text \<open>\<^verbatim>\<open>now_ms\<close>: milliseconds since the epoch, 0 when the clock is before it.\<close>

definition now_ms :: "nat option \<Rightarrow> i64" where
  "now_ms clock = (case clock of None \<Rightarrow> 0 | Some ms \<Rightarrow> word_of_nat ms)"

definition create_snapshot ::
    "nat option \<Rightarrow> string \<Rightarrow> u64 \<Rightarrow> catalog \<Rightarrow> named_snapshot result \<times> catalog" where
  "create_snapshot clock name seq_no c =
     (case catalog_write c of
        Inl e \<Rightarrow> (Inl e, c)
      | Inr _ \<Rightarrow>
          (if btree_get (ca_snapshots c) name \<noteq> None
           then (Inl (InvalidArgument (''snapshot `'' @ name @ ''` already exists'')), c)
           else
             let snapshot = \<lparr>sn_name = name, sn_seq_no = seq_no, sn_created_at_ms = now_ms clock\<rparr>
             in (Inr snapshot, c\<lparr>ca_snapshots := btree_insert name snapshot (ca_snapshots c)\<rparr>)))"

definition snapshot :: "catalog \<Rightarrow> string \<Rightarrow> named_snapshot result" where
  "snapshot c name =
     bind_res (catalog_read c) (\<lambda>_. ok_or NotFound (btree_get (ca_snapshots c) name))"

definition snapshot_names :: "catalog \<Rightarrow> string list" where
  "snapshot_names c = (case catalog_read c of Inl _ \<Rightarrow> [] | Inr _ \<Rightarrow> map fst (ca_snapshots c))"

section \<open>What the statistics count\<close>

text \<open>
  The catalog is told of every node insertion and deletion. Its statistics refine a plain count of
  live nodes per tenant and kind, as long as no counter overflows and only counted nodes are
  deleted.
\<close>

datatype node_event = Inserted u32 node_kind | Deleted u32 node_kind

type_synonym node_counts = "u32 \<Rightarrow> node_kind \<Rightarrow> nat"

fun record_event :: "node_event \<Rightarrow> catalog \<Rightarrow> catalog" where
  "record_event (Inserted t k) c = record_node_insert t k c"
| "record_event (Deleted t k) c = record_node_delete t k c"

fun count_event :: "node_event \<Rightarrow> node_counts \<Rightarrow> node_counts" where
  "count_event (Inserted t k) f = f(t := (f t)(k := f t k + 1))"
| "count_event (Deleted t k) f = f(t := (f t)(k := f t k - 1))"

definition tenant_total :: "(node_kind \<Rightarrow> nat) \<Rightarrow> nat" where
  "tenant_total f = f Episode + f Fact + f Entity + f Artifact"

fun events_ok :: "node_counts \<Rightarrow> node_event list \<Rightarrow> bool" where
  "events_ok f [] = True"
| "events_ok f (Inserted t k # es) =
     (tenant_total (f t) + 1 < 2 ^ 64 \<and> events_ok (count_event (Inserted t k) f) es)"
| "events_ok f (Deleted t k # es) = (0 < f t k \<and> events_ok (count_event (Deleted t k) f) es)"

definition kind_counts :: "(node_kind \<Rightarrow> nat) \<Rightarrow> node_kind \<Rightarrow> u64 option" where
  "kind_counts f k = (if f k = 0 then None else Some (word_of_nat (f k)))"

definition stats_refine :: "tenant_stats \<Rightarrow> (node_kind \<Rightarrow> nat) \<Rightarrow> bool" where
  "stats_refine s f \<longleftrightarrow>
     tenant_total f < 2 ^ 64 \<and> unat (ts_total_nodes s) = tenant_total f \<and>
     btree_ok (ts_nodes_by_kind s) \<and> btree_get (ts_nodes_by_kind s) = kind_counts f"

definition catalog_inv :: "catalog \<Rightarrow> bool" where
  "catalog_inv c \<longleftrightarrow>
     btree_ok (ca_models c) \<and> btree_ok (ca_tenant_stats c) \<and> btree_ok (ca_snapshots c) \<and>
     (\<forall>n m. btree_get (ca_models c) n = Some m \<longrightarrow> md_name m = n) \<and>
     (\<forall>n s. btree_get (ca_snapshots c) n = Some s \<longrightarrow> sn_name s = n)"

section \<open>Lemmas\<close>

lemma tenant_total_upd:
  "tenant_total (f(k := Suc (f k))) = Suc (tenant_total f)"
  "0 < f k \<Longrightarrow> tenant_total (f(k := f k - 1)) = tenant_total f - 1"
  by (cases k; simp add: tenant_total_def)+

lemma kind_le_total: "f k \<le> tenant_total f"
  by (cases k) (simp_all add: tenant_total_def)

lemma unat_word_of_nat_64: "n < 2 ^ 64 \<Longrightarrow> unat (word_of_nat n :: u64) = n"
  by (simp add: unat_of_nat)

lemma stats_refine_default: "stats_refine stats_default (\<lambda>_. 0)"
  by (auto simp: stats_refine_def stats_default_def tenant_total_def btree_ok_def kind_counts_def)

lemma stats_refine_insert:
  assumes s: "stats_refine s f" and small: "tenant_total f + 1 < 2 ^ 64"
  shows "stats_refine (s\<lparr>ts_total_nodes := ts_total_nodes s + 1,
      ts_nodes_by_kind := btree_insert k
        ((case btree_get (ts_nodes_by_kind s) k of None \<Rightarrow> 0 | Some n \<Rightarrow> n) + 1) (ts_nodes_by_kind s)\<rparr>)
    (f(k := f k + 1))"
proof -
  have ok: "btree_ok (ts_nodes_by_kind s)" and get: "btree_get (ts_nodes_by_kind s) = kind_counts f"
    and tot: "unat (ts_total_nodes s) = tenant_total f"
    using s by (auto simp: stats_refine_def)
  have "unat (ts_total_nodes s + 1) = tenant_total f + 1"
    using tot small by (simp add: unat_word_ariths)
  moreover have "(case kind_counts f k of None \<Rightarrow> 0 | Some n \<Rightarrow> n) + 1 = word_of_nat (f k + 1)"
    by (simp add: kind_counts_def)
  moreover have "f k + 1 < 2 ^ 64" using small kind_le_total [of f k] by simp
  ultimately show ?thesis
    using ok get small by (auto simp: stats_refine_def tenant_total_upd btree_ok_insert btree_get_insert
        kind_counts_def fun_eq_iff)
qed

lemma stats_refine_delete:
  assumes s: "stats_refine s f" and pos: "0 < f k"
  shows "stats_refine (s\<lparr>ts_total_nodes := saturating_sub_u64 (ts_total_nodes s) 1,
      ts_nodes_by_kind := (case btree_get (ts_nodes_by_kind s) k of
                None \<Rightarrow> ts_nodes_by_kind s
              | Some cnt \<Rightarrow>
                  (let cnt' = saturating_sub_u64 cnt 1;
                       m = btree_insert k cnt' (ts_nodes_by_kind s)
                   in if cnt' = 0 then btree_remove k m else m))\<rparr>)
    (f(k := f k - 1))"
proof -
  have ok: "btree_ok (ts_nodes_by_kind s)" and get: "btree_get (ts_nodes_by_kind s) = kind_counts f"
    and tot: "unat (ts_total_nodes s) = tenant_total f" and small: "tenant_total f < 2 ^ 64"
    using s by (auto simp: stats_refine_def)
  have small_k: "f k < 2 ^ 64" using small kind_le_total [of f k] by simp
  have sub: "saturating_sub_u64 (word_of_nat n) 1 = word_of_nat (n - 1)" if "0 < n" "n < 2 ^ 64" for n
  proof -
    have "(1 :: u64) \<le> word_of_nat n"
      using that unat_word_of_nat_64 [of n] by (simp add: word_le_nat_alt)
    then show ?thesis using that by (simp add: saturating_sub_u64_def of_nat_diff)
  qed
  have "ts_total_nodes s = word_of_nat (tenant_total f)" unfolding tot [symmetric] by simp
  then have "unat (saturating_sub_u64 (ts_total_nodes s) 1) = tenant_total f - 1"
    using sub [of "tenant_total f"] pos small kind_le_total [of f k] unat_word_of_nat_64 [of "tenant_total f - 1"]
    by (simp only:)
  moreover have "word_of_nat (f k - 1) = (0 :: u64) \<longleftrightarrow> f k - 1 = 0"
  proof
    assume "word_of_nat (f k - 1) = (0 :: u64)"
    then have "unat (word_of_nat (f k - 1) :: u64) = 0" by (simp only: unat_0)
    then show "f k - 1 = 0" using small_k unat_word_of_nat_64 [of "f k - 1"] by (simp only: less_imp_diff_less)
  qed simp
  moreover have "kind_counts f k = Some (word_of_nat (f k))" using pos by (simp add: kind_counts_def)
  moreover have "tenant_total (f(k := f k - 1)) = tenant_total f - 1" using pos by (rule tenant_total_upd)
  ultimately show ?thesis
    unfolding stats_refine_def using ok get small pos small_k
    by (auto simp del: One_nat_def simp: btree_ok_insert btree_get_insert btree_ok_remove
        btree_get_remove kind_counts_def sub Let_def fun_eq_iff)
qed

lemma catalog_inv_default: "catalog_inv catalog_default"
  by (simp add: catalog_inv_def catalog_default_def btree_ok_def)

lemma catalog_inv_event: "catalog_inv c \<Longrightarrow> catalog_inv (record_event ev c)"
  by (cases ev) (auto simp: catalog_inv_def record_node_insert_def record_node_delete_def Let_def btree_ok_insert)

lemma record_event_poisoned [simp]: "ca_poisoned (record_event ev c) = ca_poisoned c"
  by (cases ev) (simp_all add: record_node_insert_def record_node_delete_def Let_def)

lemma stats_or_default_insert:
  "catalog_inv c \<Longrightarrow>
     stats_or_default (c\<lparr>ca_tenant_stats := btree_insert t s (ca_tenant_stats c)\<rparr>) t' =
       (if t' = t then s else stats_or_default c t')"
  by (simp add: stats_or_default_def btree_get_insert catalog_inv_def)

lemma stats_event:
  assumes "catalog_inv c" "\<not> ca_poisoned c" "\<And>t. stats_refine (stats_or_default c t) (f t)" "events_ok f (ev # es)"
  shows "stats_refine (stats_or_default (record_event ev c) t) (count_event ev f t)"
proof (cases ev)
  case (Inserted t' k)
  then show ?thesis
    using assms(1,2) assms(3) [of t] stats_refine_insert [OF assms(3), of t' k] assms(4)
    by (auto simp: record_node_insert_def stats_or_default_insert Let_def)
next
  case (Deleted t' k)
  then show ?thesis
    using assms(1,2) assms(3) [of t] stats_refine_delete [OF assms(3), of t' k] assms(4)
    by (auto simp: record_node_delete_def stats_or_default_insert Let_def)
qed

lemma stats_events:
  assumes "catalog_inv c" "\<not> ca_poisoned c" "\<And>t. stats_refine (stats_or_default c t) (f t)" "events_ok f es"
  shows "stats_refine (stats_or_default (fold record_event es c) t) (fold count_event es f t)"
  using assms
proof (induction es arbitrary: c f)
  case Nil
  then show ?case by simp
next
  case (Cons ev es)
  have "events_ok (count_event ev f) es" using Cons.prems(4) by (cases ev) auto
  then show ?case
    using Cons.IH [of "record_event ev c" "count_event ev f"] Cons.prems stats_event [OF Cons.prems(1-4)]
    by (simp add: catalog_inv_event)
qed

lemma fold_poisoned: "ca_poisoned (fold record_event es c) = ca_poisoned c"
  by (induction es arbitrary: c) simp_all

section \<open>Properties\<close>

text \<open>
  C40. The statistics are exact: after any sequence of insertions and deletions in which only
  counted nodes are deleted and no tenant reaches \<open>2 ^ 64\<close> nodes, the statistics of every tenant
  give the number of its live nodes, in total and for every kind, and list no kind with count 0.
\<close>

theorem catalog_stats_exact:
  assumes "events_ok (\<lambda>_ _. 0) es"
  shows "let s = tenant_stats_of (fold record_event es catalog_default) t;
             f = fold count_event es (\<lambda>_ _. 0) t
         in unat (ts_total_nodes s) = tenant_total f \<and>
            (\<forall>k. btree_get (ts_nodes_by_kind s) k = (if f k = 0 then None else Some (word_of_nat (f k))))"
proof -
  have "stats_refine (stats_or_default (fold record_event es catalog_default) t) (fold count_event es (\<lambda>_ _. 0) t)"
    using assms stats_refine_default
    by (intro stats_events catalog_inv_default) (auto simp: catalog_default_def stats_or_default_def)
  then show ?thesis
    using fold_poisoned [of es catalog_default]
    by (simp add: tenant_stats_of_def catalog_read_def catalog_default_def stats_refine_def kind_counts_def)
qed

theorem catalog_stats_exact_witness:
  "let s = tenant_stats_of (fold record_event [Inserted 1 Fact, Inserted 1 Entity, Deleted 1 Fact] catalog_default) 1
   in unat (ts_total_nodes s) = 1 \<and> btree_get (ts_nodes_by_kind s) Fact = None"
  using catalog_stats_exact [of "[Inserted 1 Fact, Inserted 1 Entity, Deleted 1 Fact]" 1]
  by (simp add: tenant_total_def Let_def)

text \<open>
  Named snapshots are write-once: creating one under a fresh name succeeds and a later lookup
  returns it, with every other name unchanged and the names still sorted and distinct; creating
  one under a used name fails and changes nothing.
\<close>

theorem create_snapshot_write_once:
  assumes "catalog_inv c" and "\<not> ca_poisoned c"
  shows "case create_snapshot clock name seq_no c of (r, c') \<Rightarrow>
    catalog_inv c' \<and> sorted_wrt (<) (snapshot_names c') \<and>
    (if snapshot c name = Inl NotFound
     then (\<exists>s. r = Inr s \<and> snapshot c' name = Inr s \<and> sn_seq_no s = seq_no) \<and>
       (\<forall>n. n \<noteq> name \<longrightarrow> snapshot c' n = snapshot c n) \<and>
       set (snapshot_names c') = insert name (set (snapshot_names c))
     else r = Inl (InvalidArgument (''snapshot `'' @ name @ ''` already exists'')) \<and> c' = c)"
proof (cases "btree_get (ca_snapshots c) name")
  case None
  have ok: "btree_ok (ca_snapshots c)" using assms(1) by (simp add: catalog_inv_def)
  define s where "s = \<lparr>sn_name = name, sn_seq_no = seq_no, sn_created_at_ms = now_ms clock\<rparr>"
  define c' where "c' = c\<lparr>ca_snapshots := btree_insert name s (ca_snapshots c)\<rparr>"
  have "create_snapshot clock name seq_no c = (Inr s, c')"
    using None assms(2) by (simp add: create_snapshot_def catalog_write_def s_def c'_def Let_def)
  moreover have "catalog_inv c'"
    using assms(1) by (auto simp: catalog_inv_def c'_def s_def btree_ok_insert btree_get_insert)
  moreover have "snapshot_names c' = map fst (btree_insert name s (ca_snapshots c))"
    using assms(2) by (simp add: snapshot_names_def catalog_read_def c'_def)
  moreover have "sorted_wrt (<) (map fst (btree_insert name s (ca_snapshots c)))"
    using btree_ok_insert [OF ok] by (simp add: btree_ok_def)
  moreover have "set (map fst (btree_insert name s (ca_snapshots c))) = insert name (set (map fst (ca_snapshots c)))"
    by (auto simp: set_btree_insert [OF ok])
  moreover have "snapshot c' n = (if n = name then Inr s else snapshot c n)" for n
    using assms(2) ok by (simp add: snapshot_def catalog_read_def c'_def btree_get_insert)
  moreover have "snapshot c name = Inl NotFound" "snapshot_names c = map fst (ca_snapshots c)"
    using None assms(2) by (simp_all add: snapshot_def catalog_read_def snapshot_names_def)
  ultimately show ?thesis by (simp add: s_def)
next
  case (Some s)
  then show ?thesis
    using assms by (auto simp: create_snapshot_def snapshot_def catalog_write_def catalog_read_def
        snapshot_names_def catalog_inv_def btree_ok_def)
qed

theorem create_snapshot_write_once_witness:
  "\<exists>s c'. create_snapshot (Some 5) ''a'' 3 catalog_default = (Inr s, c') \<and> snapshot c' ''a'' = Inr s"
proof -
  have "\<not> ca_poisoned catalog_default" "snapshot catalog_default ''a'' = Inl NotFound"
    by (simp_all add: catalog_default_def snapshot_def catalog_read_def)
  then show ?thesis
    using create_snapshot_write_once [OF catalog_inv_default, where clock = "Some 5" and name = "''a''" and seq_no = 3]
    by (auto split: prod.splits)
qed

text \<open>
  A model name keeps its first definition: registering a model under a fresh name makes it the
  result of a lookup, registering the same model again is a no-op, and registering a different
  model under the name fails and changes nothing.
\<close>

theorem register_model_consistent:
  assumes "catalog_inv c" and "\<not> ca_poisoned c"
  shows "case register_model m c of (r, c') \<Rightarrow>
    catalog_inv c' \<and> \<not> ca_poisoned c' \<and>
    (\<forall>n. n \<noteq> md_name m \<longrightarrow> catalog_model c' n = catalog_model c n) \<and>
    (case catalog_model c (md_name m) of
       Inr None \<Rightarrow> r = Inr () \<and> catalog_model c' (md_name m) = Inr (Some m)
     | Inr (Some m') \<Rightarrow> c' = c \<and> (r = Inr () \<longleftrightarrow> m' = m) \<and> (r = Inr () \<or> (\<exists>e. r = Inl (InvalidArgument e)))
     | Inl _ \<Rightarrow> False)"
proof (cases "btree_get (ca_models c) (md_name m)")
  case None
  then show ?thesis
    using assms by (auto simp: register_model_def catalog_model_def catalog_write_def catalog_read_def
        catalog_inv_def btree_ok_insert btree_get_insert)
next
  case (Some m')
  then show ?thesis
    using assms by (auto simp: register_model_def catalog_model_def catalog_write_def catalog_read_def)
qed

theorem register_model_consistent_witness:
  "\<exists>c'. register_model \<lparr>md_name = ''m'', md_dim = 3, md_distance = Dot\<rparr> catalog_default = (Inr (), c') \<and>
     catalog_model c' ''m'' = Inr (Some \<lparr>md_name = ''m'', md_dim = 3, md_distance = Dot\<rparr>)"
  using register_model_consistent [OF catalog_inv_default, of "\<lparr>md_name = ''m'', md_dim = 3, md_distance = Dot\<rparr>"]
  by (auto simp: catalog_default_def catalog_model_def catalog_read_def split: prod.splits)

end
