(* ===== verification/Kv.thy ===== *)
theory Kv
  imports Prelude
begin

text \<open>
  The key-value engine the crates are written against. The engine (the \<^verbatim>\<open>fjall\<close> keyspace with
  its named partitions) is third-party code: it is a parameter here, a record of the operations
  the sources call on an opaque keyspace state. Every operation can fail with the text of an
  engine error; a scan yields one result per item. What the sources rely on is the contract
  \<open>kv_engine\<close>: a partition is an ordered map from byte keys to byte values, a batch is applied
  whole and in order, and scans visit the keys in ascending order. A small in-memory engine
  shows that the contract can be met.
\<close>

datatype batch_op =
    BInsert string bytes bytes
  | BRemove string bytes

type_synonym kv_item = "string + bytes \<times> bytes"

record 'ks kv =
  kv_get :: "'ks \<Rightarrow> string \<Rightarrow> bytes \<Rightarrow> string + bytes option"
  kv_range :: "'ks \<Rightarrow> string \<Rightarrow> bytes \<Rightarrow> bytes \<Rightarrow> kv_item list"
  kv_range_from :: "'ks \<Rightarrow> string \<Rightarrow> bytes \<Rightarrow> kv_item list"
  kv_prefix :: "'ks \<Rightarrow> string \<Rightarrow> bytes \<Rightarrow> kv_item list"
  kv_iter :: "'ks \<Rightarrow> string \<Rightarrow> kv_item list"
  kv_insert :: "'ks \<Rightarrow> string \<Rightarrow> bytes \<Rightarrow> bytes \<Rightarrow> (string + unit) \<times> 'ks"
  kv_remove :: "'ks \<Rightarrow> string \<Rightarrow> bytes \<Rightarrow> (string + unit) \<times> 'ks"
  kv_commit :: "'ks \<Rightarrow> batch_op list \<Rightarrow> (string + unit) \<times> 'ks"
  kv_persist :: "'ks \<Rightarrow> (string + unit) \<times> 'ks"

text \<open>The map a keyspace stands for, and the effect of one batch entry on it.\<close>

type_synonym kv_view = "string \<Rightarrow> bytes \<Rightarrow> bytes option"

fun apply_op :: "batch_op \<Rightarrow> kv_view \<Rightarrow> kv_view" where
  "apply_op (BInsert p k v) m = m(p := (m p)(k \<mapsto> v))"
| "apply_op (BRemove p k) m = m(p := (m p)(k := None))"

fun apply_ops :: "batch_op list \<Rightarrow> kv_view \<Rightarrow> kv_view" where
  "apply_ops [] m = m"
| "apply_ops (b # bs) m = apply_ops bs (apply_op b m)"

definition entries :: "(bytes \<Rightarrow> bytes option) \<Rightarrow> bytes set \<Rightarrow> (bytes \<times> bytes) list" where
  "entries m K = map (\<lambda>k. (k, the (m k))) (sorted_list_of_set (dom m \<inter> K))"

text \<open>
  Sequencing on a keyspace: a step returns its result together with the state it leaves, so an
  error after a commit keeps the committed state. \<open>commit_persist\<close> is the sequence
  \<^verbatim>\<open>batch.commit()?; keyspace.persist(SyncAll)?\<close> that the stores share.
\<close>

definition bind_st :: "('e + 'a) \<times> 's \<Rightarrow> ('a \<Rightarrow> 's \<Rightarrow> ('e + 'b) \<times> 's) \<Rightarrow> ('e + 'b) \<times> 's" where
  "bind_st r f = (case r of (Inl e, s) \<Rightarrow> (Inl e, s) | (Inr x, s) \<Rightarrow> f x s)"

definition lift_err :: "(string \<Rightarrow> 'e) \<Rightarrow> (string + 'a) \<times> 's \<Rightarrow> ('e + 'a) \<times> 's" where
  "lift_err f r = (map_err f (fst r), snd r)"

definition commit_persist :: "'ks kv \<Rightarrow> batch_op list \<Rightarrow> 'ks \<Rightarrow> unit result \<times> 'ks" where
  "commit_persist kv bs ks =
     bind_st (lift_err Storage (kv_commit kv ks bs)) (\<lambda>_ ks.
     bind_st (lift_err Storage (kv_persist kv ks)) (\<lambda>_ ks. (Inr (), ks)))"

section \<open>The contract of the engine\<close>

locale kv_engine =
  fixes kv :: "'ks kv"
    and view :: "'ks \<Rightarrow> kv_view"
  assumes finite_view: "finite (dom (view ks p))"
    and get_view: "kv_get kv ks p k = Inr (view ks p k)"
    and range_view: "lo \<le> hi \<Longrightarrow>
      kv_range kv ks p lo hi = map Inr (entries (view ks p) {k. lo \<le> k \<and> k < hi})"
    and range_from_view:
      "kv_range_from kv ks p lo = map Inr (entries (view ks p) {k. lo \<le> k})"
    and prefix_view: "kv_prefix kv ks p pre = map Inr (entries (view ks p) {k. prefix pre k})"
    and iter_view: "kv_iter kv ks p = map Inr (entries (view ks p) UNIV)"
    and insert_ok: "fst (kv_insert kv ks p k v) = Inr ()"
    and insert_view: "view (snd (kv_insert kv ks p k v)) = apply_op (BInsert p k v) (view ks)"
    and remove_ok: "fst (kv_remove kv ks p k) = Inr ()"
    and remove_view: "view (snd (kv_remove kv ks p k)) = apply_op (BRemove p k) (view ks)"
    and commit_ok: "fst (kv_commit kv ks bs) = Inr ()"
    and commit_view: "view (snd (kv_commit kv ks bs)) = apply_ops bs (view ks)"
    and persist_ok: "fst (kv_persist kv ks) = Inr ()"
    and persist_view: "view (snd (kv_persist kv ks)) = view ks"
begin

lemma commit_persist_ok: "fst (commit_persist kv bs ks) = Inr ()"
  by (simp add: commit_persist_def bind_st_def lift_err_def commit_ok persist_ok split_def)

lemma commit_persist_view: "view (snd (commit_persist kv bs ks)) = apply_ops bs (view ks)"
  by (simp add: commit_persist_def bind_st_def lift_err_def commit_ok persist_ok commit_view
      persist_view split_def)

lemma commit_persist_cases:
  obtains ks' where "commit_persist kv bs ks = (Inr (), ks')" "view ks' = apply_ops bs (view ks)"
  using commit_persist_ok commit_persist_view by (metis prod.collapse)

end

section \<open>Codecs\<close>

text \<open>
  The stores keep values as JSON bytes. The codec is third-party code and a parameter; what a
  theorem needs of it is that the values at hand survive a round trip (\<open>codec_ok\<close>). A codec with
  finitely many values, which encodes a value as its index, shows that this can hold.
\<close>

record 'a codec =
  ser :: "'a \<Rightarrow> string + bytes"
  de :: "bytes \<Rightarrow> string + 'a"


fun index_of :: "'a \<Rightarrow> 'a list \<Rightarrow> nat option" where
  "index_of x [] = None"
| "index_of x (y # ys) = (if x = y then Some 0 else map_option Suc (index_of x ys))"

definition table_codec :: "'a list \<Rightarrow> 'a codec" where
  "table_codec xs = \<lparr>
     ser = (\<lambda>x. case index_of x xs of None \<Rightarrow> Inl ''unknown value'' | Some i \<Rightarrow> Inr [word_of_nat i]),
     de = (\<lambda>b. if length b = 1 \<and> unat (b ! 0) < length xs then Inr (xs ! unat (b ! 0))
               else Inl ''unknown bytes'')\<rparr>"

definition codec_ok :: "'a codec \<Rightarrow> 'a \<Rightarrow> bool" where
  "codec_ok c x \<longleftrightarrow> (case ser c x of Inl _ \<Rightarrow> False | Inr b \<Rightarrow> de c b = Inr x)"

lemma index_of_Some: "index_of x xs = Some i \<Longrightarrow> i < length xs \<and> xs ! i = x"
  by (induction xs arbitrary: i) (auto split: if_splits)

lemma index_of_mem: "x \<in> set xs \<Longrightarrow> \<exists>i. index_of x xs = Some i"
  by (induction xs) auto

lemma table_codec_ok:
  assumes "length xs \<le> 256" "x \<in> set xs"
  shows "codec_ok (table_codec xs) x"
proof -
  obtain i where i: "index_of x xs = Some i" using index_of_mem [OF assms(2)] by blast
  then have "i < length xs" "xs ! i = x" by (auto dest: index_of_Some)
  moreover have "unat (word_of_nat i :: byte) = i" using calculation assms(1) by (simp add: unat_of_nat)
  ultimately show ?thesis using i by (simp add: codec_ok_def table_codec_def)
qed

lemma codec_okE:
  assumes "codec_ok c x" obtains b where "ser c x = Inr b" "de c b = Inr x"
  using assms by (auto simp: codec_ok_def split: sum.splits)

section \<open>An engine in memory\<close>

text \<open>
  A keyspace as a log per partition: an insertion is put in front, a removal drops every entry
  of its key, and a scan sorts the live keys.
\<close>

type_synonym mem = "string \<Rightarrow> (bytes \<times> bytes) list"

definition mem_view :: "mem \<Rightarrow> kv_view" where
  "mem_view m p = map_of (m p)"

definition mem_scan :: "mem \<Rightarrow> string \<Rightarrow> (bytes \<Rightarrow> bool) \<Rightarrow> kv_item list" where
  "mem_scan m p P =
     map (\<lambda>k. Inr (k, the (map_of (m p) k))) (sort (remdups (filter P (map fst (m p)))))"

fun mem_apply :: "batch_op \<Rightarrow> mem \<Rightarrow> mem" where
  "mem_apply (BInsert p k v) m = m(p := (k, v) # m p)"
| "mem_apply (BRemove p k) m = m(p := filter (\<lambda>e. fst e \<noteq> k) (m p))"

definition mem_kv :: "mem kv" where
  "mem_kv = \<lparr>
     kv_get = (\<lambda>m p k. Inr (map_of (m p) k)),
     kv_range = (\<lambda>m p lo hi. mem_scan m p (\<lambda>k. lo \<le> k \<and> k < hi)),
     kv_range_from = (\<lambda>m p lo. mem_scan m p (\<lambda>k. lo \<le> k)),
     kv_prefix = (\<lambda>m p pre. mem_scan m p (prefix pre)),
     kv_iter = (\<lambda>m p. mem_scan m p (\<lambda>_. True)),
     kv_insert = (\<lambda>m p k v. (Inr (), mem_apply (BInsert p k v) m)),
     kv_remove = (\<lambda>m p k. (Inr (), mem_apply (BRemove p k) m)),
     kv_commit = (\<lambda>m bs. (Inr (), fold mem_apply bs m)),
     kv_persist = (\<lambda>m. (Inr (), m))\<rparr>"

definition mem_empty :: mem where
  "mem_empty = (\<lambda>_. [])"

section \<open>Lemmas\<close>

lemma bind_st_simps [simp, result_simps]:
  "bind_st (Inl e, s) f = (Inl e, s)" "bind_st (Inr x, s) f = f x s"
  by (simp_all add: bind_st_def)

lemma set_entries: "finite (dom m) \<Longrightarrow> set (entries m K) = {(k, v). m k = Some v \<and> k \<in> K}"
  by (auto simp: entries_def dom_def)

lemma map_fst_entries [simp]: "map fst (entries m K) = sorted_list_of_set (dom m \<inter> K)"
  by (simp add: entries_def o_def)

lemma sorted_entries: "sorted_wrt (<) (map fst (entries m K))"
  by simp

lemma distinct_entries: "distinct (map fst (entries m K))"
  by simp

lemma entries_eqI:
  assumes "finite (dom m)" "sorted_wrt (<) (map fst xs)" "set xs = {(k, v). m k = Some v \<and> k \<in> K}"
  shows "entries m K = xs"
proof -
  have "set (map fst xs) = dom m \<inter> K" using assms(3) by force
  then have keys: "map fst xs = sorted_list_of_set (dom m \<inter> K)"
    using assms(2) by (metis List.finite_set sorted_list_of_set.idem_if_sorted_distinct
        strict_sorted_iff)
  have "map (\<lambda>e. (fst e, the (m (fst e)))) xs = xs"
    using assms(3) by (intro map_idI) auto
  then have "xs = map (\<lambda>k. (k, the (m k))) (map fst xs)" by (simp add: o_def)
  then show ?thesis using keys by (simp add: entries_def)
qed

lemma filter_entries:
  assumes "finite (dom m)"
  shows "filter (\<lambda>e. P (fst e)) (entries m K) = entries m {k \<in> K. P k}"
proof (rule sym, rule entries_eqI [OF assms])
  show "sorted_wrt (<) (map fst (filter (\<lambda>e. P (fst e)) (entries m K)))"
    using sorted_entries [of m K] unfolding sorted_wrt_map by (rule sorted_wrt_filter)
  show "set (filter (\<lambda>e. P (fst e)) (entries m K)) = {(k, v). m k = Some v \<and> k \<in> {k \<in> K. P k}}"
    by (auto simp: set_entries [OF assms])
qed

lemma apply_ops_append [simp]: "apply_ops (as @ bs) m = apply_ops bs (apply_ops as m)"
  by (induction as arbitrary: m) auto

lemma apply_ops_removes:
  "apply_ops (map (BRemove p) ks) m = m(p := (\<lambda>k. if k \<in> set ks then None else m p k))"
  by (induction ks arbitrary: m) (auto simp: fun_eq_iff)

lemma apply_ops_inserts:
  "apply_ops (map (\<lambda>(k, v). BInsert p k v) es) m = m(p := m p ++ map_of (rev es))"
proof (induction es arbitrary: m)
  case Nil
  then show ?case by (simp add: fun_eq_iff)
next
  case (Cons e es)
  then show ?case
    by (cases e) (auto simp: fun_eq_iff map_add_def split: option.splits)
qed

lemma mem_view_apply: "mem_view (mem_apply b m) = apply_op b (mem_view m)"
proof (cases b)
  case (BInsert p k v)
  then show ?thesis by (auto simp: mem_view_def fun_eq_iff)
next
  case (BRemove p k)
  have "map_of (filter (\<lambda>e. fst e \<noteq> k) xs) = (map_of xs)(k := None)" for xs :: "(bytes \<times> bytes) list"
    by (induction xs) auto
  then show ?thesis using BRemove by (auto simp: mem_view_def fun_eq_iff)
qed

lemma mem_view_fold: "mem_view (fold mem_apply bs m) = apply_ops bs (mem_view m)"
  by (induction bs arbitrary: m) (auto simp: mem_view_apply)

lemma mem_scan_entries: "mem_scan m p P = map Inr (entries (mem_view m p) {k. P k})"
proof -
  have "sort (remdups (filter P (map fst (m p)))) = sorted_list_of_set (dom (map_of (m p)) \<inter> {k. P k})"
    by (simp add: sorted_list_of_set_sort_remdups [symmetric] dom_map_of_conv_image_fst Int_def)
  then show ?thesis by (simp add: mem_scan_def entries_def mem_view_def)
qed

interpretation mem: kv_engine mem_kv mem_view
proof (unfold_locales, goal_cases)
  case (1 ks p)
  show ?case by (simp add: mem_view_def finite_dom_map_of)
next
  case (6 ks p)
  then show ?case using mem_scan_entries [of ks p "\<lambda>_. True"] by (simp add: mem_kv_def)
next
  case (8 ks p k v)
  then show ?case using mem_view_apply [of "BInsert p k v"] by (simp add: mem_kv_def)
next
  case (10 ks p k)
  then show ?case using mem_view_apply [of "BRemove p k"] by (simp add: mem_kv_def)
next
  case (2 ks p k)
  then show ?case by (simp add: mem_kv_def mem_view_def)
qed (simp_all add: mem_kv_def mem_scan_entries mem_view_fold)

end
