(* ===== verification/State_Store.thy ===== *)
theory State_Store
  imports Kv Core_Types
begin

text \<open>
  The operational state store of \<^verbatim>\<open>crates/mmdb/src/state.rs\<close>: JSON values under namespaced byte keys,
  each with a revision that compare-and-swap batches test. A deletion leaves a tombstone that
  keeps the revision. The value codec is a parameter, the clock an argument; the write lock makes
  each operation one step. Opening a store on disk is left out.
\<close>

definition PART_STATE :: string where "PART_STATE = ''app_state_v1''"

record state_entry =
  se_key :: bytes
  se_value :: json
  se_revision :: u64
  se_updated_at_ms :: i64

datatype state_mutation =
    Put bytes json "u64 option"
  | Delete bytes "u64 option"

record namespaced_state_mutation =
  ns_namespace :: string
  ns_mutation :: state_mutation

record stored_value =
  sv_value :: json
  sv_revision :: u64
  sv_updated_at_ms :: i64
  sv_deleted :: bool

record 'ks state_store =
  ss_tenant :: u32
  ss_kv :: "'ks kv"
  ss_codec :: "stored_value codec"

section \<open>Keys\<close>

definition namespace_prefix :: "u32 \<Rightarrow> string \<Rightarrow> bytes result" where
  "namespace_prefix tenant namespace =
     (if 2 ^ 16 \<le> length (as_bytes namespace) then Inl (InvalidArgument ''state namespace is too long'')
      else Inr (u32_be tenant @ u16_be (word_of_nat (length (as_bytes namespace))) @ as_bytes namespace))"

definition state_key :: "u32 \<Rightarrow> string \<Rightarrow> bytes \<Rightarrow> bytes result" where
  "state_key tenant namespace key =
     bind_res (namespace_prefix tenant namespace) (\<lambda>out.
     if usize_max < length out + length key then Inl (InvalidArgument ''state key is too long'')
     else if 65535 < length out + length key
     then Inl (InvalidArgument ''encoded state key exceeds 65535 bytes'')
     else Inr (out @ key))"

section \<open>Reads\<close>

definition get_stored :: "'ks state_store \<Rightarrow> 'ks \<Rightarrow> bytes \<Rightarrow> stored_value option result" where
  "get_stored st ks key =
     bind_res (map_err Storage (kv_get (ss_kv st) ks PART_STATE key)) (\<lambda>r.
     case r of
       Some v \<Rightarrow> bind_res (map_err Json (de (ss_codec st) v)) (\<lambda>s. Inr (Some s))
     | None \<Rightarrow> Inr None)"

definition entry_of :: "bytes \<Rightarrow> stored_value \<Rightarrow> state_entry" where
  "entry_of key s = \<lparr>se_key = key, se_value = sv_value s, se_revision = sv_revision s,
     se_updated_at_ms = sv_updated_at_ms s\<rparr>"

definition state_get :: "'ks state_store \<Rightarrow> 'ks \<Rightarrow> string \<Rightarrow> bytes \<Rightarrow> state_entry option result" where
  "state_get st ks namespace key =
     bind_res (state_key (ss_tenant st) namespace key) (\<lambda>storage_key.
     bind_res (get_stored st ks storage_key) (\<lambda>entry.
     Inr (case entry of
            None \<Rightarrow> None
          | Some s \<Rightarrow> if sv_deleted s then None else Some (entry_of key s))))"

fun scan_items :: "'ks state_store \<Rightarrow> nat \<Rightarrow> nat \<Rightarrow> kv_item list \<Rightarrow> state_entry list \<Rightarrow> state_entry list result" where
  "scan_items st skip limit [] out = Inr out"
| "scan_items st skip limit (Inl e # items) out = Inl (Storage e)"
| "scan_items st skip limit (Inr (k, v) # items) out =
     bind_res (map_err Json (de (ss_codec st) v)) (\<lambda>s.
     if sv_deleted s then scan_items st skip limit items out
     else
       let out' = out @ [entry_of (drop skip k) s]
       in if limit \<le> length out' then Inr out' else scan_items st skip limit items out')"

definition scan_prefix :: "'ks state_store \<Rightarrow> 'ks \<Rightarrow> string \<Rightarrow> bytes \<Rightarrow> nat \<Rightarrow> state_entry list result" where
  "scan_prefix st ks namespace pre limit =
     (if limit = 0 then Inr []
      else
        bind_res (namespace_prefix (ss_tenant st) namespace) (\<lambda>np.
        bind_res (state_key (ss_tenant st) namespace pre) (\<lambda>storage_prefix.
        scan_items st (length np) limit (kv_prefix (ss_kv st) ks PART_STATE storage_prefix) [])))"

fun scan_items_after ::
    "'ks state_store \<Rightarrow> nat \<Rightarrow> bytes \<Rightarrow> bytes option \<Rightarrow> nat \<Rightarrow> kv_item list \<Rightarrow> state_entry list \<Rightarrow>
     state_entry list result" where
  "scan_items_after st skip storage_prefix after_storage limit [] out = Inr out"
| "scan_items_after st skip storage_prefix after_storage limit (Inl e # items) out = Inl (Storage e)"
| "scan_items_after st skip storage_prefix after_storage limit (Inr (k, v) # items) out =
     (if \<not> prefix storage_prefix k then Inr out
      else if (case after_storage of None \<Rightarrow> False | Some cursor \<Rightarrow> k \<le> cursor)
      then scan_items_after st skip storage_prefix after_storage limit items out
      else
        bind_res (map_err Json (de (ss_codec st) v)) (\<lambda>s.
        if sv_deleted s then scan_items_after st skip storage_prefix after_storage limit items out
        else
          let out' = out @ [entry_of (drop skip k) s]
          in if limit \<le> length out' then Inr out'
             else scan_items_after st skip storage_prefix after_storage limit items out'))"

definition scan_prefix_after ::
    "'ks state_store \<Rightarrow> 'ks \<Rightarrow> string \<Rightarrow> bytes \<Rightarrow> bytes option \<Rightarrow> nat \<Rightarrow> state_entry list result" where
  "scan_prefix_after st ks namespace pre after_exclusive limit =
     (if limit = 0 then Inr []
      else if (case after_exclusive of None \<Rightarrow> False | Some cursor \<Rightarrow> \<not> prefix pre cursor)
      then Inl (InvalidArgument ''state scan cursor is outside the requested prefix'')
      else
        bind_res (namespace_prefix (ss_tenant st) namespace) (\<lambda>np.
        bind_res (state_key (ss_tenant st) namespace pre) (\<lambda>storage_prefix.
        bind_res (case after_exclusive of
                    None \<Rightarrow> Inr None
                  | Some cursor \<Rightarrow>
                      bind_res (state_key (ss_tenant st) namespace cursor) (\<lambda>k. Inr (Some k)))
          (\<lambda>after_storage.
        let start = (case after_storage of None \<Rightarrow> storage_prefix | Some k \<Rightarrow> k)
        in scan_items_after st (length np) storage_prefix after_storage limit
             (kv_range_from (ss_kv st) ks PART_STATE start) []))))"

section \<open>Writes\<close>

definition next_revision :: "stored_value option \<Rightarrow> u64" where
  "next_revision current = (case current of None \<Rightarrow> 1 | Some s \<Rightarrow> saturating_add_u64 (sv_revision s) 1)"

definition state_put ::
    "'ks state_store \<Rightarrow> i64 \<Rightarrow> string \<Rightarrow> bytes \<Rightarrow> json \<Rightarrow> 'ks \<Rightarrow> u64 result \<times> 'ks" where
  "state_put st now namespace key v ks =
     bind_st (state_key (ss_tenant st) namespace key, ks) (\<lambda>storage_key ks.
     bind_st (get_stored st ks storage_key, ks) (\<lambda>current ks.
     let revision = next_revision current
     in bind_st (map_err Json (ser (ss_codec st)
                   \<lparr>sv_value = v, sv_revision = revision, sv_updated_at_ms = now, sv_deleted = False\<rparr>), ks)
          (\<lambda>b ks.
        bind_st (lift_err Storage (kv_commit (ss_kv st) ks [BInsert PART_STATE storage_key b]))
          (\<lambda>_ ks. (Inr revision, ks)))))"

fun mutation_key :: "state_mutation \<Rightarrow> bytes" where
  "mutation_key (Put key v expected) = key"
| "mutation_key (Delete key expected) = key"

fun mutation_expected :: "state_mutation \<Rightarrow> u64 option" where
  "mutation_expected (Put key v expected) = expected"
| "mutation_expected (Delete key expected) = expected"

definition actual_revision :: "stored_value option \<Rightarrow> u64" where
  "actual_revision current = (case current of None \<Rightarrow> 0 | Some s \<Rightarrow> sv_revision s)"

fun prepare ::
    "'ks state_store \<Rightarrow> 'ks \<Rightarrow> namespaced_state_mutation list \<Rightarrow> bytes set \<Rightarrow>
     (bytes \<times> stored_value option \<times> state_mutation) list \<Rightarrow>
     (bytes \<times> stored_value option \<times> state_mutation) list result" where
  "prepare st ks [] seen prepared = Inr prepared"
| "prepare st ks (m # ms) seen prepared =
     bind_res (state_key (ss_tenant st) (ns_namespace m) (mutation_key (ns_mutation m))) (\<lambda>storage_key.
     if storage_key \<in> seen then Inl (InvalidArgument ''duplicate state key in batch'')
     else
       bind_res (get_stored st ks storage_key) (\<lambda>current.
       case mutation_expected (ns_mutation m) of
         Some expected \<Rightarrow>
           (if actual_revision current \<noteq> expected
            then Inl (InvalidArgument (''state revision conflict: expected '' @ show_nat (unat expected) @
                   '', found '' @ show_nat (unat (actual_revision current))))
            else prepare st ks ms (insert storage_key seen) (prepared @ [(storage_key, current, ns_mutation m)]))
       | None \<Rightarrow> prepare st ks ms (insert storage_key seen) (prepared @ [(storage_key, current, ns_mutation m)])))"

fun mutated :: "i64 \<Rightarrow> stored_value option \<Rightarrow> state_mutation \<Rightarrow> stored_value" where
  "mutated now current (Put key v expected) =
     \<lparr>sv_value = v, sv_revision = next_revision current, sv_updated_at_ms = now, sv_deleted = False\<rparr>"
| "mutated now current (Delete key expected) =
     \<lparr>sv_value = JNull, sv_revision = next_revision current, sv_updated_at_ms = now, sv_deleted = True\<rparr>"

definition build_batch ::
    "'ks state_store \<Rightarrow> i64 \<Rightarrow> (bytes \<times> stored_value option \<times> state_mutation) list \<Rightarrow> batch_op list result" where
  "build_batch st now prepared =
     collect_res (map (\<lambda>(storage_key, current, mutation).
       bind_res (map_err Json (ser (ss_codec st) (mutated now current mutation))) (\<lambda>b.
       Inr (BInsert PART_STATE storage_key b))) prepared)"

definition apply_namespaced ::
    "'ks state_store \<Rightarrow> i64 \<Rightarrow> namespaced_state_mutation list \<Rightarrow> 'ks \<Rightarrow> unit result \<times> 'ks" where
  "apply_namespaced st now mutations ks =
     bind_st (prepare st ks mutations {} [], ks) (\<lambda>prepared ks.
     bind_st (build_batch st now prepared, ks) (\<lambda>batch ks.
     lift_err Storage (kv_commit (ss_kv st) ks batch)))"

definition in_namespace :: "string \<Rightarrow> state_mutation \<Rightarrow> namespaced_state_mutation" where
  "in_namespace namespace mutation = \<lparr>ns_namespace = namespace, ns_mutation = mutation\<rparr>"

definition state_apply ::
    "'ks state_store \<Rightarrow> i64 \<Rightarrow> string \<Rightarrow> state_mutation list \<Rightarrow> 'ks \<Rightarrow> unit result \<times> 'ks" where
  "state_apply st now namespace mutations ks =
     apply_namespaced st now (map (in_namespace namespace) mutations) ks"

fun check_replacements :: "bytes \<Rightarrow> (bytes \<times> json) list \<Rightarrow> bytes set \<Rightarrow> bytes set result" where
  "check_replacements pre [] keys = Inr keys"
| "check_replacements pre ((key, v) # repl) keys =
     (if \<not> prefix pre key
      then Inl (InvalidArgument ''replacement state key is outside the requested prefix'')
      else if key \<in> keys then Inl (InvalidArgument ''duplicate replacement state key'')
      else check_replacements pre repl (insert key keys))"

definition replace_prefix ::
    "'ks state_store \<Rightarrow> i64 \<Rightarrow> string \<Rightarrow> bytes \<Rightarrow> (bytes \<times> json) list \<Rightarrow> 'ks \<Rightarrow> unit result \<times> 'ks" where
  "replace_prefix st now namespace pre repl ks =
     bind_st (check_replacements pre repl {}, ks) (\<lambda>replacement_keys ks.
     bind_st (scan_prefix st ks namespace pre usize_max, ks) (\<lambda>existing ks.
     let mutations =
           map (\<lambda>e. Delete (se_key e) None) (filter (\<lambda>e. se_key e \<notin> replacement_keys) existing) @
           map (\<lambda>(key, v). Put key v None) repl
     in apply_namespaced st now (map (in_namespace namespace) mutations) ks))"

section \<open>The abstract store\<close>

text \<open>
  The content of the store is a map from namespace and key to stored values, tombstones included.
  A batch is acceptable when its keys can be encoded and are distinct and every expected revision
  is the current one (0 for a key never written).
\<close>

definition stored_at :: "'ks state_store \<Rightarrow> kv_view \<Rightarrow> string \<Rightarrow> bytes \<Rightarrow> stored_value option" where
  "stored_at st m ns k =
     (case state_key (ss_tenant st) ns k of
        Inl _ \<Rightarrow> None
      | Inr x \<Rightarrow>
          (case m PART_STATE x of
             None \<Rightarrow> None
           | Some b \<Rightarrow> (case de (ss_codec st) b of Inl _ \<Rightarrow> None | Inr s \<Rightarrow> Some s)))"

definition state_inv :: "'ks state_store \<Rightarrow> kv_view \<Rightarrow> bool" where
  "state_inv st m \<longleftrightarrow>
     (\<forall>x b. m PART_STATE x = Some b \<longrightarrow>
        (\<exists>t ns k s. state_key t ns k = Inr x \<and> de (ss_codec st) b = Inr s))"

definition mut_key :: "'ks state_store \<Rightarrow> namespaced_state_mutation \<Rightarrow> bytes result" where
  "mut_key st m = state_key (ss_tenant st) (ns_namespace m) (mutation_key (ns_mutation m))"

definition mut_current :: "'ks state_store \<Rightarrow> kv_view \<Rightarrow> namespaced_state_mutation \<Rightarrow> stored_value option" where
  "mut_current st v m = stored_at st v (ns_namespace m) (mutation_key (ns_mutation m))"

definition cas_ok :: "'ks state_store \<Rightarrow> kv_view \<Rightarrow> namespaced_state_mutation \<Rightarrow> bool" where
  "cas_ok st v m =
     (case mutation_expected (ns_mutation m) of
        None \<Rightarrow> True
      | Some r \<Rightarrow> actual_revision (mut_current st v m) = r)"

definition batch_ok :: "'ks state_store \<Rightarrow> kv_view \<Rightarrow> namespaced_state_mutation list \<Rightarrow> bool" where
  "batch_ok st v ms =
     (list_all (\<lambda>m. \<not> isl (mut_key st m) \<and> cas_ok st v m) ms \<and> distinct (map (mut_key st) ms))"

text \<open>What a write relies on: the values it stores survive the codec, at every revision.\<close>

definition value_ok :: "'ks state_store \<Rightarrow> i64 \<Rightarrow> json \<Rightarrow> bool \<Rightarrow> bool" where
  "value_ok st now v d \<longleftrightarrow>
     (\<forall>r. codec_ok (ss_codec st) \<lparr>sv_value = v, sv_revision = r, sv_updated_at_ms = now, sv_deleted = d\<rparr>)"

fun mutation_value_ok :: "'ks state_store \<Rightarrow> i64 \<Rightarrow> state_mutation \<Rightarrow> bool" where
  "mutation_value_ok st now (Put key v expected) = value_ok st now v False"
| "mutation_value_ok st now (Delete key expected) = value_ok st now JNull True"

section \<open>Lemmas: keys and revisions\<close>

definition ns_bytes :: "u32 \<Rightarrow> string \<Rightarrow> bytes" where
  "ns_bytes t ns = u32_be t @ u16_be (word_of_nat (length ns)) @ as_bytes ns"

lemma namespace_prefix_Inr:
  "namespace_prefix t ns = Inr p \<longleftrightarrow> length ns < 2 ^ 16 \<and> p = ns_bytes t ns"
  by (auto simp: namespace_prefix_def ns_bytes_def)

lemma state_key_Inr:
  "state_key t ns k = Inr x \<longleftrightarrow>
     length ns < 2 ^ 16 \<and> length (ns_bytes t ns) + length k \<le> 65535 \<and> x = ns_bytes t ns @ k"
  by (auto simp: state_key_def bind_res_eq_Inr namespace_prefix_Inr usize_max_def)

lemma ns_bytes_inject:
  assumes "length ns < 2 ^ 16" "length ns' < 2 ^ 16" "ns_bytes t ns @ r = ns_bytes t' ns' @ r'"
  shows "t = t' \<and> ns = ns' \<and> r = r'"
proof -
  have eq: "t = t'" "word_of_nat (length ns) = (word_of_nat (length ns') :: 16 word)"
    "as_bytes ns @ r = as_bytes ns' @ r'"
    using assms(3) by (auto simp: ns_bytes_def)
  have "length ns = length ns'"
    using arg_cong [OF eq(2), of unat] assms(1,2) by (simp add: unat_of_nat)
  then show ?thesis using eq by (simp add: append_eq_append_conv)
qed

lemma state_key_inject:
  "state_key t ns k = Inr x \<Longrightarrow> state_key t' ns' k' = Inr x \<Longrightarrow> t = t' \<and> ns = ns' \<and> k = k'"
  using ns_bytes_inject by (simp add: state_key_Inr) blast

lemma next_revision_mono:
  "actual_revision c \<le> next_revision c"
  "actual_revision c < next_revision c \<longleftrightarrow> actual_revision c \<noteq> - 1"
proof -
  have "r \<le> saturating_add_u64 r 1 \<and> (r < saturating_add_u64 r 1 \<longleftrightarrow> r \<noteq> - 1)" for r
  proof (cases "r = - 1")
    case True
    then show ?thesis
      by (simp add: saturating_add_u64_def unsigned_minus_1_eq_mask mask_eq_exp_minus_1)
  next
    case False
    then have "unat r \<noteq> unat (- 1 :: u64)" by (simp add: word_unat_eq_iff)
    then have small: "unat r + 1 < 2 ^ 64"
      using unat_u64_less [of r] by (simp add: unsigned_minus_1_eq_mask mask_eq_exp_minus_1)
    then have "r < r + 1" by (simp add: word_less_nat_alt unat_word_ariths)
    then show ?thesis using False small by (simp add: saturating_add_u64_def)
  qed
  then show "actual_revision c \<le> next_revision c" "actual_revision c < next_revision c \<longleftrightarrow> actual_revision c \<noteq> - 1"
    by (auto simp: actual_revision_def next_revision_def split: option.splits)
qed

lemma sv_revision_mutated [simp]: "sv_revision (mutated now c mu) = next_revision c"
  by (cases mu) simp_all

lemma mutated_codec: "mutation_value_ok st now mu \<Longrightarrow> codec_ok (ss_codec st) (mutated now c mu)"
  by (cases mu) (simp_all add: value_ok_def)

lemma stored_at_key:
  "state_key (ss_tenant st) ns k = Inr x \<Longrightarrow> m PART_STATE x = Some b \<Longrightarrow> de (ss_codec st) b = Inr s \<Longrightarrow>
     stored_at st m ns k = Some s"
  "state_key (ss_tenant st) ns k = Inr x \<Longrightarrow> m PART_STATE x = None \<Longrightarrow> stored_at st m ns k = None"
  by (simp_all add: stored_at_def)

text \<open>A single put is a batch of one unconditional put.\<close>

lemma state_put_apply:
  "state_put st now ns k v ks =
     (case apply_namespaced st now [in_namespace ns (Put k v None)] ks of
        (Inl e, ks') \<Rightarrow> (Inl e, ks')
      | (Inr _, ks') \<Rightarrow>
          (Inr (next_revision (projr (get_stored st ks (projr (state_key (ss_tenant st) ns k))))), ks'))"
proof (cases "state_key (ss_tenant st) ns k")
  case (Inl e)
  then show ?thesis by (simp add: state_put_def apply_namespaced_def in_namespace_def)
next
  case (Inr x)
  show ?thesis
  proof (cases "get_stored st ks x")
    case (Inl e)
    then show ?thesis using Inr by (simp add: state_put_def apply_namespaced_def in_namespace_def)
  next
    case get: (Inr c)
    let ?sv = "\<lparr>sv_value = v, sv_revision = next_revision c, sv_updated_at_ms = now, sv_deleted = False\<rparr>"
    show ?thesis
    proof (cases "ser (ss_codec st) ?sv")
      case (Inl e)
      then show ?thesis using Inr get
        by (simp add: state_put_def apply_namespaced_def in_namespace_def build_batch_def Let_def)
    next
      case ser: (Inr b)
      obtain r ks' where r: "kv_commit (ss_kv st) ks [BInsert PART_STATE x b] = (r, ks')" by fastforce
      then show ?thesis using Inr get ser
        by (cases r) (simp_all add: state_put_def apply_namespaced_def in_namespace_def build_batch_def Let_def lift_err_def)
    qed
  qed
qed

section \<open>Lemmas: scans\<close>

definition live :: "'ks state_store \<Rightarrow> nat \<Rightarrow> bytes \<times> bytes \<Rightarrow> state_entry option" where
  "live st skip e =
     (case de (ss_codec st) (snd e) of
        Inl _ \<Rightarrow> None
      | Inr s \<Rightarrow> if sv_deleted s then None else Some (entry_of (drop skip (fst e)) s))"

lemma scan_items_eq:
  "(\<And>x b. (x, b) \<in> set es \<Longrightarrow> \<exists>s. de (ss_codec st) b = Inr s) \<Longrightarrow> length out < limit \<Longrightarrow>
     scan_items st skip limit (map Inr es) out = Inr (take limit (out @ List.map_filter (live st skip) es))"
proof (induction es arbitrary: out)
  case Nil
  then show ?case by simp
next
  case (Cons e es)
  obtain x b where e: "e = (x, b)" by fastforce
  obtain s where s: "de (ss_codec st) b = Inr s" using Cons.prems(1) [of x b] e by auto
  have IH: "length out < limit \<Longrightarrow>
      scan_items st skip limit (map Inr es) out = Inr (take limit (out @ List.map_filter (live st skip) es))" for out
    by (rule Cons.IH) (use Cons.prems(1) in auto)
  have lv: "live st skip e = (if sv_deleted s then None else Some (entry_of (drop skip x) s))"
    using e s by (simp add: live_def)
  show ?case using IH e s lv Cons.prems(2) by (auto simp: take_Cons' Let_def)
qed

lemma prefix_between:
  "(p :: 'a::linorder list) \<le> k \<Longrightarrow> k \<le> p @ r \<Longrightarrow> prefix p k"
proof (induction p arbitrary: k)
  case Nil
  then show ?case by simp
next
  case (Cons a p)
  then show ?case by (cases k) auto
qed

lemma scan_items_after_eq:
  assumes "\<And>x b. (x, b) \<in> set es \<Longrightarrow> \<exists>s. de (ss_codec st) b = Inr s" "length out < limit"
    "sorted_wrt (<) (map fst es)" "\<And>e. e \<in> set es \<Longrightarrow> sp \<le> fst e"
  shows "scan_items_after st skip sp after limit (map Inr es) out =
    Inr (take limit (out @ List.map_filter (live st skip)
      (filter (\<lambda>e. prefix sp (fst e) \<and> (\<forall>c. after = Some c \<longrightarrow> c < fst e)) es)))"
  using assms
proof (induction es arbitrary: out)
  case Nil
  then show ?case by simp
next
  case (Cons e es)
  obtain x b where e: "e = (x, b)" by fastforce
  obtain s where s: "de (ss_codec st) b = Inr s" using Cons.prems(1) [of x b] e by auto
  have IH: "length out < limit \<Longrightarrow> scan_items_after st skip sp after limit (map Inr es) out =
      Inr (take limit (out @ List.map_filter (live st skip)
        (filter (\<lambda>e. prefix sp (fst e) \<and> (\<forall>c. after = Some c \<longrightarrow> c < fst e)) es)))" for out
    by (rule Cons.IH) (use Cons.prems in auto)
  have lv: "live st skip e = (if sv_deleted s then None else Some (entry_of (drop skip x) s))"
    using e s by (simp add: live_def)
  show ?case
  proof (cases "prefix sp x")
    case False
    have "\<not> prefix sp (fst e')" if "e' \<in> set es" for e'
    proof
      assume "prefix sp (fst e')"
      then obtain r where "fst e' = sp @ r" by (auto simp: prefix_def)
      moreover have "x \<le> fst e'" "sp \<le> x" using Cons.prems(3,4) that e by force+
      ultimately show False using prefix_between [of sp x r] False by simp
    qed
    then have "filter (\<lambda>e. prefix sp (fst e) \<and> (\<forall>c. after = Some c \<longrightarrow> c < fst e)) es = []"
      by (simp add: filter_empty_conv)
    then show ?thesis using False e Cons.prems(2) by simp
  next
    case True
    then show ?thesis using IH e s lv Cons.prems(2) by (auto simp: take_Cons' Let_def split: option.splits)
  qed
qed

lemma check_replacements_eq:
  "check_replacements pre repl keys = Inr K \<longleftrightarrow>
     (\<forall>k\<in>fst ` set repl. prefix pre k) \<and> distinct (map fst repl) \<and> fst ` set repl \<inter> keys = {} \<and>
     K = keys \<union> fst ` set repl"
proof (induction repl arbitrary: keys)
  case Nil
  then show ?case by auto
next
  case (Cons e repl)
  show ?case
  proof (cases "prefix pre (fst e) \<and> fst e \<notin> keys")
    case True
    then have step: "check_replacements pre (e # repl) keys = check_replacements pre repl (insert (fst e) keys)"
      by (cases e) simp
    show ?thesis unfolding step Cons.IH using True by auto
  next
    case False
    then show ?thesis by (cases e) auto
  qed
qed

text \<open>The live entries under a key prefix, in key order.\<close>

definition is_listing :: "'ks state_store \<Rightarrow> kv_view \<Rightarrow> string \<Rightarrow> bytes \<Rightarrow> state_entry list \<Rightarrow> bool" where
  "is_listing st m ns pre L \<longleftrightarrow>
     sorted_wrt (<) (map se_key L) \<and>
     set L = {entry_of k s |k s. stored_at st m ns k = Some s \<and> \<not> sv_deleted s \<and> prefix pre k}"

section \<open>Runs\<close>

text \<open>
  The write lock serialises the writers, so what several clients do to a store is a sequence of
  these steps, successful or not.
\<close>

inductive state_step :: "'ks state_store \<Rightarrow> 'ks \<Rightarrow> 'ks \<Rightarrow> bool" for st where
  step_apply:
    "list_all (\<lambda>m. mutation_value_ok st now (ns_mutation m)) ms \<Longrightarrow>
     state_step st ks (snd (apply_namespaced st now ms ks))"
| step_put:
    "value_ok st now v False \<Longrightarrow> state_step st ks (snd (state_put st now ns k v ks))"
| step_replace:
    "\<forall>v\<in>snd ` set repl. value_ok st now v False \<Longrightarrow> value_ok st now JNull True \<Longrightarrow>
     state_step st ks (snd (replace_prefix st now ns pre repl ks))"

inductive_cases state_stepE: "state_step st ks ks'"

lemma replace_prefix_apply:
  assumes "\<forall>v\<in>snd ` set repl. value_ok st now v False" "value_ok st now JNull True"
  shows "snd (replace_prefix st now ns pre repl ks) = ks \<or>
    (\<exists>ms. list_all (\<lambda>m. mutation_value_ok st now (ns_mutation m)) ms \<and>
       replace_prefix st now ns pre repl ks = apply_namespaced st now ms ks)"
proof (cases "check_replacements pre repl {}")
  case (Inl e)
  then show ?thesis by (simp add: replace_prefix_def)
next
  case chk: (Inr K)
  show ?thesis
  proof (cases "scan_prefix st ks ns pre usize_max")
    case (Inl e)
    then show ?thesis using chk by (simp add: replace_prefix_def)
  next
    case (Inr L)
    then show ?thesis using chk assms
      by (intro disjI2 exI [of _ "map (in_namespace ns)
          (map (\<lambda>e. Delete (se_key e) None) (filter (\<lambda>e. se_key e \<notin> K) L) @ map (\<lambda>(k, v). Put k v None) repl)"])
        (auto simp: replace_prefix_def Let_def list_all_iff in_namespace_def)
  qed
qed

text \<open>Every step is a batch, or leaves the keyspace alone.\<close>

lemma state_step_apply:
  assumes "state_step st ks ks'"
  shows "ks' = ks \<or> (\<exists>now ms. list_all (\<lambda>m. mutation_value_ok st now (ns_mutation m)) ms \<and>
    ks' = snd (apply_namespaced st now ms ks))"
  using assms
proof cases
  case (step_apply now ms)
  then show ?thesis by blast
next
  case (step_put now v ns k)
  have "snd (state_put st now ns k v ks) = snd (apply_namespaced st now [in_namespace ns (Put k v None)] ks)"
    unfolding state_put_apply by (auto split: prod.splits sum.splits)
  then show ?thesis using step_put
    by (intro disjI2 exI [of _ now] exI [of _ "[in_namespace ns (Put k v None)]"]) (simp add: in_namespace_def)
next
  case (step_replace repl now ns pre)
  then show ?thesis using replace_prefix_apply [of repl st now ns pre ks] by metis
qed

section \<open>The store over a lawful engine\<close>

locale state_api = kv_engine "ss_kv st" view
  for st :: "'ks state_store" and view :: "'ks \<Rightarrow> kv_view"
begin

lemma get_stored_view:
  assumes "state_inv st (view ks)" "state_key (ss_tenant st) ns k = Inr x"
  shows "get_stored st ks x = Inr (stored_at st (view ks) ns k)"
proof (cases "view ks PART_STATE x")
  case None
  then show ?thesis using assms by (simp add: get_stored_def get_view stored_at_def)
next
  case (Some b)
  then obtain s where "de (ss_codec st) b = Inr s" using assms(1) unfolding state_inv_def by blast
  then show ?thesis using assms(2) Some by (simp add: get_stored_def get_view stored_at_def)
qed

lemma prepare_eq:
  assumes inv: "state_inv st (view ks)"
  shows "prepare st ks ms seen prepared = Inr r \<longleftrightarrow>
    list_all (\<lambda>m. \<not> isl (mut_key st m) \<and> cas_ok st (view ks) m) ms \<and> distinct (map (mut_key st) ms) \<and>
    projr ` mut_key st ` set ms \<inter> seen = {} \<and>
    r = prepared @ map (\<lambda>m. (projr (mut_key st m), mut_current st (view ks) m, ns_mutation m)) ms"
proof (induction ms arbitrary: seen prepared)
  case Nil
  then show ?case by auto
next
  case (Cons m ms)
  show ?case
  proof (cases "mut_key st m")
    case (Inl e)
    then show ?thesis by (simp add: mut_key_def)
  next
    case (Inr x)
    then have key: "state_key (ss_tenant st) (ns_namespace m) (mutation_key (ns_mutation m)) = Inr x"
      by (simp add: mut_key_def)
    have cur: "get_stored st ks x = Inr (mut_current st (view ks) m)"
      using get_stored_view [OF inv key] by (simp add: mut_current_def)
    have new: "mut_key st m \<notin> mut_key st ` set ms \<longleftrightarrow> x \<notin> projr ` mut_key st ` set ms"
      if "list_all (\<lambda>m. \<not> isl (mut_key st m) \<and> cas_ok st (view ks) m) ms"
    proof -
      have ninl: "\<not> isl (mut_key st m')" if "m' \<in> set ms" for m'
        using \<open>list_all _ ms\<close> that by (simp add: list_all_iff)
      have "projr (mut_key st m') = x \<longleftrightarrow> mut_key st m' = Inr x" if "m' \<in> set ms" for m'
        using ninl [OF that] by (cases "mut_key st m'") auto
      then show ?thesis unfolding Inr image_image image_iff by (metis (no_types))
    qed
    show ?thesis
    proof (cases "x \<in> seen \<or> \<not> cas_ok st (view ks) m")
      case True
      then show ?thesis using key cur Inr
        by (auto simp: cas_ok_def split: option.splits)
    next
      case False
      then have step: "prepare st ks (m # ms) seen prepared =
          prepare st ks ms (insert x seen) (prepared @ [(x, mut_current st (view ks) m, ns_mutation m)])"
        using key cur by (auto simp: cas_ok_def split: option.splits)
      show ?thesis unfolding step Cons.IH using False Inr new by auto
    qed
  qed
qed

lemma build_batch_eq:
  assumes "\<And>x c mu. (x, c, mu) \<in> set prep \<Longrightarrow> mutation_value_ok st now mu"
  shows "build_batch st now prep =
    Inr (map (\<lambda>(x, c, mu). BInsert PART_STATE x (projr (ser (ss_codec st) (mutated now c mu)))) prep)"
  unfolding build_batch_def
proof (rule collect_res_map_Inr, clarify)
  fix x c mu assume "(x, c, mu) \<in> set prep"
  then have "codec_ok (ss_codec st) (mutated now c mu)" by (rule mutated_codec [OF assms])
  then obtain b where "ser (ss_codec st) (mutated now c mu) = Inr b" by (rule codec_okE)
  then show "bind_res (map_err Json (ser (ss_codec st) (mutated now c mu))) (\<lambda>b. Inr (BInsert PART_STATE x b)) =
      Inr (BInsert PART_STATE x (projr (ser (ss_codec st) (mutated now c mu))))" by simp
qed

text \<open>A conflicting batch changes nothing; an acceptable one changes exactly its keys.\<close>

lemma apply_rejected:
  assumes "state_inv st (view ks)" "\<not> batch_ok st (view ks) ms"
  shows "\<exists>e. apply_namespaced st now ms ks = (Inl e, ks)"
proof -
  have "prepare st ks ms {} [] \<noteq> Inr r" for r
    using assms(2) prepare_eq [OF assms(1), of ms "{}" "[]" r] by (auto simp: batch_ok_def)
  then obtain e where "prepare st ks ms {} [] = Inl e" by (cases "prepare st ks ms {} []") auto
  then show ?thesis by (simp add: apply_namespaced_def)
qed

lemma apply_accepted:
  assumes inv: "state_inv st (view ks)" and ok: "batch_ok st (view ks) ms"
    and val: "list_all (\<lambda>m. mutation_value_ok st now (ns_mutation m)) ms"
  obtains ks' where "apply_namespaced st now ms ks = (Inr (), ks')" "state_inv st (view ks')"
    "\<And>m. m \<in> set ms \<Longrightarrow> stored_at st (view ks') (ns_namespace m) (mutation_key (ns_mutation m)) =
       Some (mutated now (mut_current st (view ks) m) (ns_mutation m))"
    "\<And>ns k. (\<And>m. m \<in> set ms \<Longrightarrow> (ns_namespace m, mutation_key (ns_mutation m)) \<noteq> (ns, k)) \<Longrightarrow>
       stored_at st (view ks') ns k = stored_at st (view ks) ns k"
proof -
  let ?v = "view ks"
  define es where "es = map (\<lambda>m. (projr (mut_key st m),
    projr (ser (ss_codec st) (mutated now (mut_current st ?v m) (ns_mutation m))))) ms"
  define prep where "prep = map (\<lambda>m. (projr (mut_key st m), mut_current st ?v m, ns_mutation m)) ms"
  have keys: "mut_key st m = Inr (projr (mut_key st m))" if "m \<in> set ms" for m
    using ok that by (auto simp: batch_ok_def list_all_iff isl_def)
  have cod: "de (ss_codec st) (projr (ser (ss_codec st) (mutated now c (ns_mutation m)))) =
      Inr (mutated now c (ns_mutation m))" if "m \<in> set ms" for m c
  proof -
    have "mutation_value_ok st now (ns_mutation m)" using val that by (simp add: list_all_iff)
    then obtain b where "ser (ss_codec st) (mutated now c (ns_mutation m)) = Inr b"
      "de (ss_codec st) b = Inr (mutated now c (ns_mutation m))" by (rule codec_okE [OF mutated_codec])
    then show ?thesis by simp
  qed
  have "prepare st ks ms {} [] = Inr prep"
    unfolding prepare_eq [OF inv] using ok by (simp add: batch_ok_def prep_def)
  moreover have "build_batch st now prep = Inr (map (\<lambda>(k, v). BInsert PART_STATE k v) es)"
    using build_batch_eq [of prep now] val by (auto simp: prep_def es_def list_all_iff o_def)
  moreover obtain ks' where ks': "kv_commit (ss_kv st) ks (map (\<lambda>(k, v). BInsert PART_STATE k v) es) = (Inr (), ks')"
    using commit_ok [of ks "map (\<lambda>(k, v). BInsert PART_STATE k v) es"] by (metis prod.collapse)
  ultimately have res: "apply_namespaced st now ms ks = (Inr (), ks')"
    by (simp add: apply_namespaced_def lift_err_def)
  have view': "view ks' PART_STATE = ?v PART_STATE ++ map_of (rev es)"
    using commit_view [of ks "map (\<lambda>(k, v). BInsert PART_STATE k v) es"] ks' by (simp add: apply_ops_inserts)
  have dist: "distinct (map fst es)"
  proof -
    have "distinct (map (\<lambda>m. projr (mut_key st m)) ms)"
      unfolding distinct_map
    proof (rule conjI)
      show "distinct ms" using ok by (auto simp: batch_ok_def distinct_map)
      have "inj_on (mut_key st) (set ms)" using ok by (simp add: batch_ok_def distinct_map)
      then show "inj_on (\<lambda>m. projr (mut_key st m)) (set ms)" using keys unfolding inj_on_def by metis
    qed
    then show ?thesis by (simp add: es_def o_def)
  qed
  have hit: "view ks' PART_STATE x = Some b" if "(x, b) \<in> set es" for x b
  proof -
    have "distinct (map fst (rev es))" using dist by (simp flip: rev_map)
    then have "map_of (rev es) x = Some b" by (rule map_of_is_SomeI) (simp add: that)
    then show ?thesis unfolding view' by (simp add: map_add_def)
  qed
  have miss: "view ks' PART_STATE x = ?v PART_STATE x" if "x \<notin> fst ` set es" for x
  proof -
    have "map_of (rev es) x = None" using that by (simp add: map_of_eq_None_iff)
    then show ?thesis unfolding view' by (simp add: map_add_def)
  qed
  have own: "(projr (mut_key st m), projr (ser (ss_codec st) (mutated now (mut_current st ?v m) (ns_mutation m)))) \<in> set es"
    if "m \<in> set ms" for m using that by (simp add: es_def)
  show ?thesis
  proof (rule that [OF res])
    show "state_inv st (view ks')"
      unfolding state_inv_def
    proof (intro allI impI)
      fix x b assume b: "view ks' PART_STATE x = Some b"
      show "\<exists>t ns k s. state_key t ns k = Inr x \<and> de (ss_codec st) b = Inr s"
      proof (cases "x \<in> fst ` set es")
        case True
        then obtain m where m: "m \<in> set ms" "x = projr (mut_key st m)" by (auto simp: es_def)
        then have "b = projr (ser (ss_codec st) (mutated now (mut_current st ?v m) (ns_mutation m)))"
          using hit [OF own [OF m(1)]] b by simp
        moreover have "state_key (ss_tenant st) (ns_namespace m) (mutation_key (ns_mutation m)) = Inr x"
          using keys [OF m(1)] m(2) by (simp add: mut_key_def)
        ultimately show ?thesis using cod [OF m(1)] by blast
      next
        case False
        then show ?thesis using b miss inv unfolding state_inv_def by metis
      qed
    qed
    show "stored_at st (view ks') (ns_namespace m) (mutation_key (ns_mutation m)) =
        Some (mutated now (mut_current st ?v m) (ns_mutation m))" if m: "m \<in> set ms" for m
      using keys [OF m] hit [OF own [OF m]] cod [OF m] by (intro stored_at_key(1)) (simp_all add: mut_key_def)
    show "stored_at st (view ks') ns k = stored_at st ?v ns k"
      if other: "\<And>m. m \<in> set ms \<Longrightarrow> (ns_namespace m, mutation_key (ns_mutation m)) \<noteq> (ns, k)" for ns k
    proof (cases "state_key (ss_tenant st) ns k")
      case (Inl e)
      then show ?thesis by (simp add: stored_at_def)
    next
      case (Inr x)
      have ne: "x \<noteq> projr (mut_key st m)" if "m \<in> set ms" for m
        using other [OF that] keys [OF that] state_key_inject [OF Inr] by (metis mut_key_def)
      have "x \<notin> fst ` set es"
      proof
        assume "x \<in> fst ` set es"
        then obtain m where "m \<in> set ms" "x = projr (mut_key st m)" by (auto simp: es_def)
        then show False using ne by blast
      qed
      then show ?thesis using Inr miss by (simp add: stored_at_def)
    qed
  qed
qed

lemma apply_step:
  assumes inv: "state_inv st (view ks)"
    and val: "list_all (\<lambda>m. mutation_value_ok st now (ns_mutation m)) ms"
    and res: "apply_namespaced st now ms ks = (r, ks')"
  shows "state_inv st (view ks')"
    and "stored_at st (view ks) ns k \<noteq> None \<Longrightarrow> stored_at st (view ks') ns k \<noteq> None"
    and "actual_revision (stored_at st (view ks) ns k) \<le> actual_revision (stored_at st (view ks') ns k)"
proof -
  have "state_inv st (view ks') \<and>
      (stored_at st (view ks') ns k = stored_at st (view ks) ns k \<or>
       (\<exists>mu. stored_at st (view ks') ns k = Some (mutated now (stored_at st (view ks) ns k) mu)))"
  proof (cases "batch_ok st (view ks) ms")
    case False
    then show ?thesis using apply_rejected [OF inv False, of now] res inv by auto
  next
    case True
    show ?thesis
    proof (rule apply_accepted [OF inv True val])
      fix k' assume a: "apply_namespaced st now ms ks = (Inr (), k')" "state_inv st (view k')"
        "\<And>m. m \<in> set ms \<Longrightarrow> stored_at st (view k') (ns_namespace m) (mutation_key (ns_mutation m)) =
           Some (mutated now (mut_current st (view ks) m) (ns_mutation m))"
        "\<And>ns k. (\<And>m. m \<in> set ms \<Longrightarrow> (ns_namespace m, mutation_key (ns_mutation m)) \<noteq> (ns, k)) \<Longrightarrow>
           stored_at st (view k') ns k = stored_at st (view ks) ns k"
      show ?thesis
      proof (cases "\<exists>m\<in>set ms. (ns_namespace m, mutation_key (ns_mutation m)) = (ns, k)")
        case True
        then show ?thesis using a(1-3) res by (auto simp: mut_current_def)
      next
        case False
        then have "stored_at st (view k') ns k = stored_at st (view ks) ns k" by (intro a(4)) blast
        then show ?thesis using a(1,2) res by simp
      qed
    qed
  qed
  then show "state_inv st (view ks')"
    "stored_at st (view ks) ns k \<noteq> None \<Longrightarrow> stored_at st (view ks') ns k \<noteq> None"
    "actual_revision (stored_at st (view ks) ns k) \<le> actual_revision (stored_at st (view ks') ns k)"
    using next_revision_mono(1) [of "stored_at st (view ks) ns k"]
    by (auto simp: actual_revision_def [of "Some _"])
qed

lemma listing_exists:
  assumes inv: "state_inv st (view ks)" and sp: "state_key (ss_tenant st) ns pre = Inr sp"
  defines "L \<equiv> List.map_filter (live st (length (ns_bytes (ss_tenant st) ns)))
    (entries (view ks PART_STATE) {x. prefix sp x})"
  shows "is_listing st (view ks) ns pre L"
proof -
  let ?np = "ns_bytes (ss_tenant st) ns" and ?m = "view ks PART_STATE"
  define es where "es = entries ?m {x. prefix sp x}"
  have L: "L = List.map_filter (live st (length ?np)) es" by (simp add: L_def es_def)
  have spk: "sp = ?np @ pre" "length ns < 2 ^ 16" using sp by (auto simp: state_key_Inr)
  have es: "(x, b) \<in> set es \<longleftrightarrow> ?m x = Some b \<and> prefix sp x" for x b
    by (simp add: es_def set_entries finite_view)
  have own: "\<exists>k s. x = ?np @ k \<and> prefix pre k \<and> state_key (ss_tenant st) ns k = Inr x \<and>
      de (ss_codec st) b = Inr s \<and> stored_at st (view ks) ns k = Some s" if xb: "(x, b) \<in> set es" for x b
  proof -
    have x: "?m x = Some b" "prefix sp x" using xb es by auto
    then obtain r where r: "x = ?np @ pre @ r" using spk by (auto simp: prefix_def)
    obtain t' ns' k' s where k': "state_key t' ns' k' = Inr x" "de (ss_codec st) b = Inr s"
      using inv x(1) unfolding state_inv_def by blast
    have "ss_tenant st = t' \<and> ns = ns' \<and> pre @ r = k'"
      using ns_bytes_inject [of ns ns' "ss_tenant st" "pre @ r" t' k'] k'(1) r spk(2) by (simp add: state_key_Inr)
    then show ?thesis using k' x(1) r stored_at_key(1) [of st ns "pre @ r" x "view ks" b s]
      by (intro exI [of _ "pre @ r"] exI [of _ s]) auto
  qed
  have "sorted_wrt (\<lambda>a c. fst a < fst c) es"
    using sorted_entries [of ?m "{x. prefix sp x}"] unfolding es_def sorted_wrt_map .
  then have "sorted_wrt (\<lambda>a c. se_key a < se_key c) L"
    unfolding L
  proof (rule sorted_wrt_map_filter)
    fix a b c d assume *: "a \<in> set es" "b \<in> set es" "fst a < fst b"
      "live st (length ?np) a = Some c" "live st (length ?np) b = Some d"
    obtain k l where "fst a = ?np @ k" "fst b = ?np @ l"
      using own [of "fst a" "snd a"] own [of "fst b" "snd b"] * by auto
    then show "se_key c < se_key d"
      using * by (auto simp: live_def entry_of_def append_less_append split: sum.splits if_splits)
  qed
  moreover have "e \<in> set L \<longleftrightarrow> (\<exists>k s. e = entry_of k s \<and> stored_at st (view ks) ns k = Some s \<and>
      \<not> sv_deleted s \<and> prefix pre k)" for e
  proof
    assume "e \<in> set L"
    then obtain x b where xb: "(x, b) \<in> set es" "live st (length ?np) (x, b) = Some e"
      by (auto simp: L in_set_map_filter)
    obtain k s where "x = ?np @ k" "prefix pre k" "de (ss_codec st) b = Inr s" "stored_at st (view ks) ns k = Some s"
      using own [OF xb(1)] by blast
    then show "\<exists>k s. e = entry_of k s \<and> stored_at st (view ks) ns k = Some s \<and> \<not> sv_deleted s \<and> prefix pre k"
      using xb(2) by (intro exI [of _ k] exI [of _ s]) (auto simp: live_def split: if_splits)
  next
    assume "\<exists>k s. e = entry_of k s \<and> stored_at st (view ks) ns k = Some s \<and> \<not> sv_deleted s \<and> prefix pre k"
    then obtain k s where k: "e = entry_of k s" "stored_at st (view ks) ns k = Some s" "\<not> sv_deleted s" "prefix pre k"
      by blast
    then obtain x b where x: "state_key (ss_tenant st) ns k = Inr x" "?m x = Some b" "de (ss_codec st) b = Inr s"
      by (auto simp: stored_at_def split: sum.splits option.splits)
    then have "x = ?np @ k" by (simp add: state_key_Inr)
    then have "(x, b) \<in> set es" "live st (length ?np) (x, b) = Some e"
      using es x k spk by (auto simp: live_def prefix_def)
    then show "e \<in> set L" by (auto simp: L in_set_map_filter)
  qed
  ultimately show ?thesis unfolding is_listing_def sorted_wrt_map by blast
qed

lemma scan_prefix_spec:
  assumes inv: "state_inv st (view ks)" and sp: "state_key (ss_tenant st) ns pre = Inr sp"
  shows "\<exists>L. is_listing st (view ks) ns pre L \<and>
    (\<forall>limit. scan_prefix st ks ns pre limit = Inr (take limit L)) \<and>
    (\<forall>limit. scan_prefix_after st ks ns pre None limit = Inr (take limit L)) \<and>
    (\<forall>limit c. prefix pre c \<longrightarrow> \<not> isl (state_key (ss_tenant st) ns c) \<longrightarrow>
       scan_prefix_after st ks ns pre (Some c) limit = Inr (take limit (filter (\<lambda>e. c < se_key e) L)))"
proof -
  let ?np = "ns_bytes (ss_tenant st) ns" and ?m = "view ks PART_STATE"
  define es where "es = entries ?m {x. prefix sp x}"
  define L where "L = List.map_filter (live st (length ?np)) es"
  have np: "namespace_prefix (ss_tenant st) ns = Inr ?np" "sp = ?np @ pre"
    using sp by (auto simp: state_key_Inr namespace_prefix_Inr)
  have dec: "\<exists>s. de (ss_codec st) b = Inr s" if "?m x = Some b" for x b
    using inv that unfolding state_inv_def by blast
  have full: "scan_prefix st ks ns pre limit = Inr (take limit L)" for limit
  proof (cases "limit = 0")
    case False
    have "scan_items st (length ?np) limit (map Inr es) [] = Inr (take limit ([] @ L))"
      unfolding L_def by (rule scan_items_eq) (use False dec in \<open>auto simp: es_def set_entries finite_view\<close>)
    then show ?thesis using False sp np by (simp add: scan_prefix_def prefix_view es_def)
  qed (simp add: scan_prefix_def)
  have part: "scan_items_after st (length ?np) sp after limit (map Inr (entries ?m {x. start \<le> x})) [] =
      Inr (take limit (List.map_filter (live st (length ?np))
        (filter (\<lambda>e. \<forall>c. after = Some c \<longrightarrow> c < fst e) es)))"
    if "0 < limit" "start = (case after of None \<Rightarrow> sp | Some k \<Rightarrow> k)" "sp \<le> start" for after limit start
  proof -
    have "filter (\<lambda>e. \<forall>c. after = Some c \<longrightarrow> c < fst e) es =
        filter (\<lambda>e. prefix sp (fst e) \<and> (\<forall>c. after = Some c \<longrightarrow> c < fst e)) (entries ?m {x. start \<le> x})"
    proof -
      have "{k \<in> {x. prefix sp x}. \<forall>c. after = Some c \<longrightarrow> c < k} =
          {k \<in> {x. start \<le> x}. prefix sp k \<and> (\<forall>c. after = Some c \<longrightarrow> c < k)}"
        using that(2) by (auto simp: prefix_def le_append_same less_imp_le split: option.splits)
      then show ?thesis
        unfolding es_def
        using filter_entries [OF finite_view, where P = "\<lambda>k. \<forall>c. after = Some c \<longrightarrow> c < k" and K = "{x. prefix sp x}"]
          filter_entries [OF finite_view, where P = "\<lambda>k. prefix sp k \<and> (\<forall>c. after = Some c \<longrightarrow> c < k)"
            and K = "{x. start \<le> x}"]
        by (simp only:)
    qed
    moreover have "scan_items_after st (length ?np) sp after limit (map Inr (entries ?m {x. start \<le> x})) [] =
      Inr (take limit ([] @ List.map_filter (live st (length ?np))
        (filter (\<lambda>e. prefix sp (fst e) \<and> (\<forall>c. after = Some c \<longrightarrow> c < fst e)) (entries ?m {x. start \<le> x}))))"
      by (rule scan_items_after_eq)
        (use that dec sorted_entries in \<open>auto simp: set_entries finite_view intro: order_trans\<close>)
    ultimately show ?thesis by simp
  qed
  have start: "scan_prefix_after st ks ns pre None limit = Inr (take limit L)" for limit
  proof (cases "limit = 0")
    case False
    then show ?thesis using part [of limit sp None] sp np
      by (simp add: scan_prefix_after_def range_from_view Let_def L_def)
  qed (simp add: scan_prefix_after_def)
  have after: "scan_prefix_after st ks ns pre (Some c) limit = Inr (take limit (filter (\<lambda>e. c < se_key e) L))"
    if c: "prefix pre c" "\<not> isl (state_key (ss_tenant st) ns c)" for c limit
  proof (cases "limit = 0")
    case False
    obtain y where y: "state_key (ss_tenant st) ns c = Inr y" using c(2) by (auto simp: isl_def split: sum.splits) (metis sum.exhaust)
    then have yc: "y = ?np @ c" by (simp add: state_key_Inr)
    have le: "sp \<le> y" using c(1) np(2) yc by (auto simp: prefix_def simp flip: append_assoc intro: le_append_same)
    have "List.map_filter (live st (length ?np)) (filter (\<lambda>e. y < fst e) es) = filter (\<lambda>e. c < se_key e) L"
      unfolding L_def
    proof (rule map_filter_filter)
      fix e e' assume e: "e \<in> set es" "live st (length ?np) e = Some e'"
      then obtain r where "fst e = ?np @ r"
        using np(2) set_entries [OF finite_view [of ks PART_STATE]] by (auto simp: es_def prefix_def)
      then show "y < fst e \<longleftrightarrow> c < se_key e'"
        using e(2) yc by (auto simp: live_def entry_of_def append_less_append split: sum.splits if_splits)
    qed
    then show ?thesis using part [of limit y "Some y"] False sp np y c(1) le
      by (simp add: scan_prefix_after_def range_from_view Let_def)
  qed (simp add: scan_prefix_after_def)
  have "is_listing st (view ks) ns pre L"
    unfolding L_def es_def by (rule listing_exists [OF inv sp])
  then show ?thesis using full start after by blast
qed

lemma listing_length:
  assumes "is_listing st (view ks) ns pre L"
  shows "length L \<le> card (dom (view ks PART_STATE))"
proof -
  let ?np = "ns_bytes (ss_tenant st) ns"
  have "distinct (map se_key L)" using assms unfolding is_listing_def by (auto dest: strict_sorted_iff [THEN iffD1])
  then have "length L = card (set (map se_key L))" by (metis distinct_card length_map)
  also have "\<dots> = card ((\<lambda>k. ?np @ k) ` set (map se_key L))"
    by (rule card_image [symmetric]) (simp add: inj_on_def)
  also have "\<dots> \<le> card (dom (view ks PART_STATE))"
  proof (rule card_mono [OF finite_view], clarsimp)
    fix e assume "e \<in> set L"
    then obtain k s where "e = entry_of k s" "stored_at st (view ks) ns k = Some s"
      using assms unfolding is_listing_def by blast
    then show "\<exists>y. view ks PART_STATE (?np @ se_key e) = Some y"
      by (auto simp: stored_at_def entry_of_def state_key_Inr split: sum.splits option.splits)
  qed
  finally show ?thesis .
qed

lemma replace_accepted:
  assumes inv: "state_inv st (view ks)" and pre: "state_key (ss_tenant st) ns pre = Inr sp"
    and small: "card (dom (view ks PART_STATE)) \<le> usize_max"
    and keys: "\<forall>k\<in>fst ` set repl. prefix pre k \<and> \<not> isl (state_key (ss_tenant st) ns k)" "distinct (map fst repl)"
    and vals: "\<forall>v\<in>snd ` set repl. value_ok st now v False" "value_ok st now JNull True"
  shows "\<exists>ks'. replace_prefix st now ns pre repl ks = (Inr (), ks') \<and> state_inv st (view ks') \<and>
    (\<forall>k v. (k, v) \<in> set repl \<longrightarrow>
       stored_at st (view ks') ns k = Some (mutated now (stored_at st (view ks) ns k) (Put k v None))) \<and>
    (\<forall>k s. prefix pre k \<longrightarrow> k \<notin> fst ` set repl \<longrightarrow> stored_at st (view ks') ns k = Some s \<longrightarrow> sv_deleted s) \<and>
    (\<forall>ns' k. ns' \<noteq> ns \<or> \<not> prefix pre k \<longrightarrow> stored_at st (view ks') ns' k = stored_at st (view ks) ns' k)"
proof -
  let ?v = "view ks" and ?K = "fst ` set repl"
  obtain L where L: "is_listing st ?v ns pre L" "scan_prefix st ks ns pre usize_max = Inr (take usize_max L)"
    using scan_prefix_spec [OF inv pre] by blast
  have "take usize_max L = L" using listing_length [OF L(1)] small by simp
  then have scan: "scan_prefix st ks ns pre usize_max = Inr L" using L(2) by simp
  define muts where "muts = map (\<lambda>e. Delete (se_key e) None) (filter (\<lambda>e. se_key e \<notin> ?K) L) @
    map (\<lambda>(k, v). Put k v None) repl"
  define ms where "ms = map (in_namespace ns) muts"
  have "check_replacements pre repl {} = Inr ?K" unfolding check_replacements_eq using keys by auto
  then have res: "replace_prefix st now ns pre repl ks = apply_namespaced st now ms ks"
    using scan by (simp add: replace_prefix_def muts_def ms_def Let_def)
  have listed: "e \<in> set L \<Longrightarrow> prefix pre (se_key e) \<and> (\<exists>s. stored_at st ?v ns (se_key e) = Some s)" for e
    using L(1) by (auto simp: is_listing_def entry_of_def)
  have dist: "distinct (map mutation_key muts)"
  proof -
    have "distinct (map se_key L)" using L(1) unfolding is_listing_def by (auto dest: strict_sorted_iff [THEN iffD1])
    then have "distinct (map se_key (filter (\<lambda>e. se_key e \<notin> ?K) L))" by (rule distinct_map_filter)
    moreover have "map mutation_key muts = map se_key (filter (\<lambda>e. se_key e \<notin> ?K) L) @ map fst repl"
      by (simp add: muts_def o_def split_def)
    ultimately show ?thesis using keys(2) by auto
  qed
  have enc: "\<exists>x. state_key (ss_tenant st) ns (mutation_key mu) = Inr x" if mu: "mu \<in> set muts" for mu
  proof -
    consider e where "e \<in> set L" "mu = Delete (se_key e) None" | k v where "(k, v) \<in> set repl" "mu = Put k v None"
      using mu by (auto simp: muts_def)
    then show ?thesis
    proof cases
      case 1
      then obtain s where "stored_at st ?v ns (se_key e) = Some s" using listed by blast
      then show ?thesis using 1(2) by (auto simp: stored_at_def split: sum.splits)
    next
      case 2
      then have "\<not> isl (state_key (ss_tenant st) ns k)" using keys(1) by force
      then show ?thesis using 2(2) by (cases "state_key (ss_tenant st) ns k") auto
    qed
  qed
  have mk: "mut_key st (in_namespace ns mu) = state_key (ss_tenant st) ns (mutation_key mu)" for mu
    by (simp add: mut_key_def in_namespace_def)
  have ok: "batch_ok st ?v ms"
    unfolding batch_ok_def
  proof
    show "list_all (\<lambda>m. \<not> isl (mut_key st m) \<and> cas_ok st ?v m) ms"
    proof -
      have "mutation_expected mu = None" if "mu \<in> set muts" for mu using that by (auto simp: muts_def)
      moreover have "\<not> isl (mut_key st (in_namespace ns mu))" if "mu \<in> set muts" for mu
        using enc [OF that] by (auto simp: mk)
      ultimately show ?thesis by (simp add: ms_def list_all_iff cas_ok_def in_namespace_def)
    qed
    have "inj_on (\<lambda>mu. state_key (ss_tenant st) ns (mutation_key mu)) (set muts)"
      using enc dist state_key_inject unfolding inj_on_def distinct_map by metis
    then show "distinct (map (mut_key st) ms)"
      using dist by (simp add: ms_def o_def mk distinct_map)
  qed
  have val: "list_all (\<lambda>m. mutation_value_ok st now (ns_mutation m)) ms"
    using vals by (auto simp: ms_def muts_def list_all_iff in_namespace_def)
  show ?thesis
  proof (rule apply_accepted [OF inv ok val], rule exI, intro conjI allI impI)
    fix ks' assume a: "apply_namespaced st now ms ks = (Inr (), ks')" "state_inv st (view ks')"
      "\<And>m. m \<in> set ms \<Longrightarrow> stored_at st (view ks') (ns_namespace m) (mutation_key (ns_mutation m)) =
         Some (mutated now (mut_current st ?v m) (ns_mutation m))"
      "\<And>ns k. (\<And>m. m \<in> set ms \<Longrightarrow> (ns_namespace m, mutation_key (ns_mutation m)) \<noteq> (ns, k)) \<Longrightarrow>
         stored_at st (view ks') ns k = stored_at st ?v ns k"
    show "replace_prefix st now ns pre repl ks = (Inr (), ks')" using a(1) res by simp
    show "state_inv st (view ks')" by (rule a(2))
    have hit: "stored_at st (view ks') ns (mutation_key mu) =
        Some (mutated now (stored_at st ?v ns (mutation_key mu)) mu)" if "mu \<in> set muts" for mu
      using a(3) [of "in_namespace ns mu"] that by (simp add: ms_def in_namespace_def mut_current_def)
    show "stored_at st (view ks') ns k = Some (mutated now (stored_at st ?v ns k) (Put k v None))"
      if "(k, v) \<in> set repl" for k v
    proof -
      have "Put k v None \<in> set muts" using that by (force simp: muts_def)
      then show ?thesis using hit by fastforce
    qed
    have miss: "stored_at st (view ks') ns' k = stored_at st ?v ns' k"
      if "ns' \<noteq> ns \<or> k \<notin> mutation_key ` set muts" for ns' k
      by (rule a(4)) (use that in \<open>auto simp: ms_def in_namespace_def\<close>)
    show "sv_deleted s" if k: "prefix pre k" "k \<notin> ?K" "stored_at st (view ks') ns k = Some s" for k s
    proof (rule ccontr)
      assume live: "\<not> sv_deleted s"
      show False
      proof (cases "k \<in> mutation_key ` set muts")
        case True
        then obtain e where "e \<in> set L" "se_key e = k" "Delete k None \<in> set muts"
          using k(2) by (force simp: muts_def)
        then show False using hit [of "Delete k None"] k(3) live by simp
      next
        case False
        then have "stored_at st ?v ns k = Some s" using miss k(3) by simp
        then have "entry_of k s \<in> set L" using L(1) k(1) live unfolding is_listing_def by blast
        then have "Delete k None \<in> set muts" using k(2) by (force simp: muts_def entry_of_def)
        then show False using False by force
      qed
    qed
    show "stored_at st (view ks') ns' k = stored_at st ?v ns' k" if o: "ns' \<noteq> ns \<or> \<not> prefix pre k" for ns' k
    proof (rule miss)
      show "ns' \<noteq> ns \<or> k \<notin> mutation_key ` set muts"
        using o listed keys(1) by (auto simp: muts_def)
    qed
  qed
qed

lemma step_mono:
  assumes inv: "state_inv st (view ks)" and step: "state_step st ks ks'"
  shows "state_inv st (view ks') \<and>
    (stored_at st (view ks) ns k \<noteq> None \<longrightarrow> stored_at st (view ks') ns k \<noteq> None) \<and>
    actual_revision (stored_at st (view ks) ns k) \<le> actual_revision (stored_at st (view ks') ns k)"
proof -
  consider "ks' = ks" | now ms where "list_all (\<lambda>m. mutation_value_ok st now (ns_mutation m)) ms"
      "ks' = snd (apply_namespaced st now ms ks)"
    using state_step_apply [OF step] by blast
  then show ?thesis
  proof cases
    case 1
    then show ?thesis using inv by simp
  next
    case 2
    obtain r where r: "apply_namespaced st now ms ks = (r, ks')" using 2(2) by (metis prod.collapse)
    show ?thesis using apply_step [OF inv 2(1) r] by blast
  qed
qed

lemma run_mono:
  assumes "(state_step st)\<^sup>*\<^sup>* ks ks'" and inv: "state_inv st (view ks)"
  shows "state_inv st (view ks') \<and>
    (stored_at st (view ks) ns k \<noteq> None \<longrightarrow> stored_at st (view ks') ns k \<noteq> None) \<and>
    actual_revision (stored_at st (view ks) ns k) \<le> actual_revision (stored_at st (view ks') ns k)"
  using assms(1)
proof (induction rule: rtranclp_induct)
  case base
  then show ?case using inv by simp
next
  case (step y z)
  then show ?case using step_mono [of y z ns k] by (meson order_trans)
qed

end

interpretation mem_state: state_api "\<lparr>ss_tenant = t, ss_kv = mem_kv, ss_codec = c\<rparr>" mem_view
  for t :: u32 and c :: "stored_value codec"
  by (intro state_api.intro) (simp add: mem.kv_engine_axioms)

section \<open>Properties\<close>

text \<open>Sample data for the witnesses: a codec for two JSON values at every revision.\<close>

definition sample_codec :: "stored_value codec" where
  "sample_codec = \<lparr>
     ser = (\<lambda>s. case index_of (sv_value s) [JNull, JBool True] of
        None \<Rightarrow> Inl ''unknown value''
      | Some i \<Rightarrow> Inr (word_of_nat i # (if sv_deleted s then 1 else 0) #
                  u64_be (sv_revision s) @ u64_be (sv_updated_at_ms s))),
     de = (\<lambda>b. if length b = 18 \<and> unat (b ! 0) < 2
        then Inr \<lparr>sv_value = [JNull, JBool True] ! unat (b ! 0), sv_revision = u64_from_be (take 8 (drop 2 b)),
                  sv_updated_at_ms = u64_from_be (take 8 (drop 10 b)), sv_deleted = (b ! 1 = 1)\<rparr>
        else Inl ''unknown bytes'')\<rparr>"

definition sample_state :: "mem state_store" where
  "sample_state = \<lparr>ss_tenant = 1, ss_kv = mem_kv, ss_codec = sample_codec\<rparr>"

lemma sample_state_engine: "kv_engine (ss_kv sample_state) mem_view"
  by (simp add: sample_state_def mem.kv_engine_axioms)

lemma sample_value_ok: "v = JNull \<or> v = JBool True \<Longrightarrow> value_ok sample_state now v d"
  by (auto simp: value_ok_def codec_ok_def sample_state_def sample_codec_def)

lemma sample_state_empty: "state_inv sample_state (mem_view mem_empty)"
  by (simp add: state_inv_def mem_view_def mem_empty_def)

text \<open>
  C6. Batches are atomic compare-and-swap transactions. A batch whose keys cannot be encoded, or
  repeat, or with one expected revision that is not the current one, is rejected and leaves the
  keyspace as it was. Any other batch succeeds: each of its keys holds its new value or tombstone
  with the next revision, and every other key of every namespace is untouched.
\<close>

theorem apply_namespaced_atomic:
  assumes "kv_engine (ss_kv st) view" and "state_inv st (view ks)"
    and "list_all (\<lambda>m. mutation_value_ok st now (ns_mutation m)) ms"
  shows "if batch_ok st (view ks) ms
    then \<exists>ks'. apply_namespaced st now ms ks = (Inr (), ks') \<and> state_inv st (view ks') \<and>
      (\<forall>m\<in>set ms. stored_at st (view ks') (ns_namespace m) (mutation_key (ns_mutation m)) =
         Some (mutated now (mut_current st (view ks) m) (ns_mutation m))) \<and>
      (\<forall>ns k. (\<forall>m\<in>set ms. (ns_namespace m, mutation_key (ns_mutation m)) \<noteq> (ns, k)) \<longrightarrow>
         stored_at st (view ks') ns k = stored_at st (view ks) ns k)
    else \<exists>e. apply_namespaced st now ms ks = (Inl e, ks)"
proof -
  have A: "state_api st view" using assms(1) by (rule state_api.intro)
  show ?thesis
  proof (cases "batch_ok st (view ks) ms")
    case True
    have "\<exists>ks'. apply_namespaced st now ms ks = (Inr (), ks') \<and> state_inv st (view ks') \<and>
      (\<forall>m\<in>set ms. stored_at st (view ks') (ns_namespace m) (mutation_key (ns_mutation m)) =
         Some (mutated now (mut_current st (view ks) m) (ns_mutation m))) \<and>
      (\<forall>ns k. (\<forall>m\<in>set ms. (ns_namespace m, mutation_key (ns_mutation m)) \<noteq> (ns, k)) \<longrightarrow>
         stored_at st (view ks') ns k = stored_at st (view ks) ns k)"
      by (rule state_api.apply_accepted [OF A assms(2) True assms(3)], rule exI, intro conjI ballI allI impI, assumption+)
        blast+
    then show ?thesis using True by simp
  next
    case False
    then show ?thesis using state_api.apply_rejected [OF A assms(2) False] by simp
  qed
qed

theorem apply_namespaced_atomic_witness:
  "\<exists>ks'. apply_namespaced sample_state 9 [in_namespace ''a'' (Put [1] (JBool True) (Some 0))] mem_empty = (Inr (), ks') \<and>
     stored_at sample_state (mem_view ks') ''a'' [1] =
       Some \<lparr>sv_value = JBool True, sv_revision = 1, sv_updated_at_ms = 9, sv_deleted = False\<rparr>"
proof -
  have "batch_ok sample_state (mem_view mem_empty) [in_namespace ''a'' (Put [1] (JBool True) (Some 0))]"
    by (simp add: batch_ok_def mut_key_def in_namespace_def cas_ok_def mut_current_def stored_at_def
        mem_view_def mem_empty_def actual_revision_def state_key_def namespace_prefix_def usize_max_def split: sum.splits)
  moreover have "mut_current sample_state (mem_view mem_empty) (in_namespace ''a'' (Put [1] (JBool True) (Some 0))) = None"
    by (simp add: mut_current_def stored_at_def mem_view_def mem_empty_def split: sum.splits)
  ultimately show ?thesis
    using apply_namespaced_atomic [OF sample_state_engine sample_state_empty, of 9
        "[in_namespace ''a'' (Put [1] (JBool True) (Some 0))]"]
    by (auto simp: sample_value_ok in_namespace_def next_revision_def)
qed

text \<open>
  C21. No lost update: once a client's compare-and-swap on a key at revision \<open>r\<close> has succeeded, a
  batch that still expects revision \<open>r\<close> of that key is rejected without effect, whatever other
  clients did in between (the largest revision excepted, where the counter saturates).
\<close>

theorem cas_no_lost_update:
  assumes "kv_engine (ss_kv st) view" and "state_inv st (view ks)"
    and "list_all (\<lambda>m. mutation_value_ok st now (ns_mutation m)) ms"
    and "m \<in> set ms" and "mutation_expected (ns_mutation m) = Some r" and "r \<noteq> - 1"
    and "apply_namespaced st now ms ks = (Inr (), ks')" and "(state_step st)\<^sup>*\<^sup>* ks' ks''"
    and "m' \<in> set ms'" and "ns_namespace m' = ns_namespace m"
    and "mutation_key (ns_mutation m') = mutation_key (ns_mutation m)"
    and "mutation_expected (ns_mutation m') = Some r"
  shows "\<exists>e. apply_namespaced st now' ms' ks'' = (Inl e, ks'')"
proof -
  have A: "state_api st view" using assms(1) by (rule state_api.intro)
  let ?at = "\<lambda>s. stored_at st (view s) (ns_namespace m) (mutation_key (ns_mutation m))"
  have ok: "batch_ok st (view ks) ms"
  proof (rule ccontr)
    assume "\<not> batch_ok st (view ks) ms"
    then show False using state_api.apply_rejected [OF A assms(2), of ms now] assms(7) by simp
  qed
  then have "actual_revision (?at ks) = r"
    using assms(4,5) by (auto simp: batch_ok_def list_all_iff cas_ok_def mut_current_def)
  moreover have "?at ks' = Some (mutated now (?at ks) (ns_mutation m))" "state_inv st (view ks')"
    using assms(4,7) by (rule_tac [!] state_api.apply_accepted [OF A assms(2) ok assms(3)])
      (auto simp: mut_current_def)
  ultimately have "r < actual_revision (?at ks')"
    using next_revision_mono(2) [of "?at ks"] assms(6) by (simp add: actual_revision_def [of "Some _"])
  also have "\<dots> \<le> actual_revision (?at ks'')"
    using state_api.run_mono [OF A assms(8) \<open>state_inv st (view ks')\<close>] by blast
  finally have "\<not> cas_ok st (view ks'') m'"
    using assms(10-12) by (simp add: cas_ok_def mut_current_def)
  then have "\<not> batch_ok st (view ks'') ms'" using assms(9) by (auto simp: batch_ok_def list_all_iff)
  moreover have "state_inv st (view ks'')"
    using state_api.run_mono [OF A assms(8) \<open>state_inv st (view ks')\<close>] by blast
  ultimately show ?thesis using state_api.apply_rejected [OF A] by blast
qed

theorem cas_no_lost_update_witness:
  "\<exists>ks' e. apply_namespaced sample_state 9 [in_namespace ''a'' (Put [1] (JBool True) (Some 0))] mem_empty = (Inr (), ks') \<and>
     apply_namespaced sample_state 9 [in_namespace ''a'' (Put [1] (JBool True) (Some 0))] ks' = (Inl e, ks')"
proof -
  let ?ms = "[in_namespace ''a'' (Put [1] (JBool True) (Some 0))]"
  have ok: "batch_ok sample_state (mem_view mem_empty) ?ms"
    by (simp add: batch_ok_def mut_key_def in_namespace_def cas_ok_def mut_current_def stored_at_def
        mem_view_def mem_empty_def actual_revision_def state_key_def namespace_prefix_def usize_max_def split: sum.splits)
  have val: "list_all (\<lambda>m. mutation_value_ok sample_state 9 (ns_mutation m)) ?ms"
    by (simp add: sample_value_ok in_namespace_def)
  obtain ks' where ks': "apply_namespaced sample_state 9 ?ms mem_empty = (Inr (), ks')"
    by (rule state_api.apply_accepted [OF state_api.intro [OF sample_state_engine] sample_state_empty ok val])
  have "\<exists>e. apply_namespaced sample_state 9 ?ms ks' = (Inl e, ks')"
    by (rule cas_no_lost_update [OF sample_state_engine sample_state_empty val _ _ _ ks' rtranclp.rtrancl_refl,
          where m = "hd ?ms" and r = 0 and m' = "hd ?ms"]) (simp_all add: in_namespace_def)
  then show ?thesis using ks' by blast
qed

text \<open>
  C37. Revisions never decrease and stored keys never vanish, over any run of batches, puts and
  prefix replacements: a deletion leaves a tombstone that keeps the revision.
\<close>

theorem state_revisions_monotone:
  assumes "kv_engine (ss_kv st) view" and "state_inv st (view ks)" and "(state_step st)\<^sup>*\<^sup>* ks ks'"
  shows "state_inv st (view ks') \<and>
    (stored_at st (view ks) ns k \<noteq> None \<longrightarrow> stored_at st (view ks') ns k \<noteq> None) \<and>
    actual_revision (stored_at st (view ks) ns k) \<le> actual_revision (stored_at st (view ks') ns k)"
  using state_api.run_mono [OF state_api.intro [OF assms(1)] assms(3,2)] by blast

theorem state_revisions_monotone_witness:
  "actual_revision (stored_at sample_state (mem_view mem_empty) ''a'' [1]) \<le>
   actual_revision (stored_at sample_state
     (mem_view (snd (state_put sample_state 9 ''a'' [1] (JBool True) mem_empty))) ''a'' [1])"
  using state_revisions_monotone [OF sample_state_engine sample_state_empty
      r_into_rtranclp [of "state_step sample_state", OF step_put [where now = 9 and v = "JBool True" and ns = "''a''" and k = "[1]" and ks = mem_empty]]]
  by (simp add: sample_value_ok)

text \<open>
  A prefix scan lists exactly the live entries of the namespace under the prefix, in key order
  and cut off at the limit; a scan after a cursor lists exactly those whose key is beyond it, so
  that following the last key of each page visits every entry once.
\<close>

theorem scan_prefix_correct:
  assumes "kv_engine (ss_kv st) view" and "state_inv st (view ks)"
    and "state_key (ss_tenant st) ns pre = Inr sp"
  shows "\<exists>L. is_listing st (view ks) ns pre L \<and>
    (\<forall>limit. scan_prefix st ks ns pre limit = Inr (take limit L) \<and>
       scan_prefix_after st ks ns pre None limit = Inr (take limit L)) \<and>
    (\<forall>limit c. prefix pre c \<longrightarrow> \<not> isl (state_key (ss_tenant st) ns c) \<longrightarrow>
       scan_prefix_after st ks ns pre (Some c) limit = Inr (take limit (filter (\<lambda>e. c < se_key e) L)))"
  using state_api.scan_prefix_spec [OF state_api.intro [OF assms(1)] assms(2,3)] by blast

theorem scan_prefix_correct_witness:
  "\<exists>L. is_listing sample_state (mem_view mem_empty) ''a'' [] L \<and> scan_prefix sample_state mem_empty ''a'' [] 5 = Inr (take 5 L)"
proof -
  obtain sp where "state_key (ss_tenant sample_state) ''a'' [] = Inr sp"
    by (simp add: state_key_def namespace_prefix_def usize_max_def)
  then show ?thesis using scan_prefix_correct [OF sample_state_engine sample_state_empty, of "''a''" "[]" sp] by blast
qed

text \<open>
  C38. Replacing a prefix leaves under it exactly the given entries, each at its next revision: any
  other key under the prefix is deleted, and no key outside the prefix or the namespace changes.
\<close>

theorem replace_prefix_correct:
  assumes "kv_engine (ss_kv st) view" and "state_inv st (view ks)"
    and "state_key (ss_tenant st) ns pre = Inr sp" and "card (dom (view ks PART_STATE)) \<le> usize_max"
    and "\<forall>k\<in>fst ` set repl. prefix pre k \<and> \<not> isl (state_key (ss_tenant st) ns k)" and "distinct (map fst repl)"
    and "\<forall>v\<in>snd ` set repl. value_ok st now v False" and "value_ok st now JNull True"
  shows "\<exists>ks'. replace_prefix st now ns pre repl ks = (Inr (), ks') \<and> state_inv st (view ks') \<and>
    (\<forall>k v. (k, v) \<in> set repl \<longrightarrow>
       stored_at st (view ks') ns k = Some (mutated now (stored_at st (view ks) ns k) (Put k v None))) \<and>
    (\<forall>k s. prefix pre k \<longrightarrow> k \<notin> fst ` set repl \<longrightarrow> stored_at st (view ks') ns k = Some s \<longrightarrow> sv_deleted s) \<and>
    (\<forall>ns' k. ns' \<noteq> ns \<or> \<not> prefix pre k \<longrightarrow> stored_at st (view ks') ns' k = stored_at st (view ks) ns' k)"
  by (rule state_api.replace_accepted [OF state_api.intro [OF assms(1)] assms(2-8)])

theorem replace_prefix_correct_witness:
  "\<exists>ks'. replace_prefix sample_state 9 ''a'' [] [([1], JBool True)] mem_empty = (Inr (), ks') \<and>
     stored_at sample_state (mem_view ks') ''a'' [1] \<noteq> None"
proof -
  have key: "\<exists>sp. state_key (ss_tenant sample_state) ''a'' k = Inr sp" if "length k < 9" for k
    using that by (simp add: state_key_def namespace_prefix_def usize_max_def)
  obtain sp where sp: "state_key (ss_tenant sample_state) ''a'' [] = Inr sp" using key [of "[]"] by auto
  have k1: "\<not> isl (state_key (ss_tenant sample_state) ''a'' [1])" using key [of "[1]"] by auto
  have "card (dom (mem_view mem_empty PART_STATE)) \<le> usize_max" by (simp add: mem_view_def mem_empty_def)
  then show ?thesis
    using replace_prefix_correct [OF sample_state_engine sample_state_empty sp, of "[([1], JBool True)]" 9] k1
    by (auto simp: sample_value_ok)
qed

end
