(* ===== verification/Fs.thy ===== *)
theory Fs
  imports Prelude
begin

text \<open>
  The part of \<^verbatim>\<open>std::fs\<close> the sources use. A path is its list of components from the root of the
  file system; the file system is a finite table from paths to directories and files. An operation
  fails, with \<^verbatim>\<open>Error::Io\<close> after the \<^verbatim>\<open>?\<close> conversion, when a path is missing or of the wrong kind;
  device failures are not modelled.
\<close>

datatype fs_node = Dir | File bytes

type_synonym path = "string list"
type_synonym fs = "(path \<times> fs_node) list"

definition fs_lookup :: "fs \<Rightarrow> path \<Rightarrow> fs_node option" where
  "fs_lookup fs p = (if p = [] then Some Dir else map_of fs p)"

definition fs_set :: "path \<Rightarrow> fs_node \<Rightarrow> fs \<Rightarrow> fs" where
  "fs_set p n fs = (p, n) # filter (\<lambda>e. fst e \<noteq> p) fs"

definition fs_exists :: "fs \<Rightarrow> path \<Rightarrow> bool" where
  "fs_exists fs p = (fs_lookup fs p \<noteq> None)"

definition fs_is_dir :: "fs \<Rightarrow> path \<Rightarrow> bool" where
  "fs_is_dir fs p = (fs_lookup fs p = Some Dir)"

fun fs_create_dirs :: "path \<Rightarrow> path \<Rightarrow> fs \<Rightarrow> unit result \<times> fs" where
  "fs_create_dirs done [] fs = (Inr (), fs)"
| "fs_create_dirs done (c # cs) fs =
     (case fs_lookup fs (done @ [c]) of
        Some (File _) \<Rightarrow> (Inl (Io ''not a directory''), fs)
      | Some Dir \<Rightarrow> fs_create_dirs (done @ [c]) cs fs
      | None \<Rightarrow> fs_create_dirs (done @ [c]) cs (fs_set (done @ [c]) Dir fs))"

definition fs_create_dir_all :: "path \<Rightarrow> fs \<Rightarrow> unit result \<times> fs" where
  "fs_create_dir_all p fs = fs_create_dirs [] p fs"

definition fs_write :: "path \<Rightarrow> bytes \<Rightarrow> fs \<Rightarrow> unit result \<times> fs" where
  "fs_write p data fs =
     (if p = [] \<or> fs_lookup fs (butlast p) \<noteq> Some Dir then (Inl (Io ''no such directory''), fs)
      else if fs_lookup fs p = Some Dir then (Inl (Io ''is a directory''), fs)
      else (Inr (), fs_set p (File data) fs))"

definition fs_read :: "fs \<Rightarrow> path \<Rightarrow> bytes result" where
  "fs_read fs p =
     (case fs_lookup fs p of
        None \<Rightarrow> Inl (Io ''not found'')
      | Some Dir \<Rightarrow> Inl (Io ''is a directory'')
      | Some (File data) \<Rightarrow> Inr data)"

definition fs_remove_file :: "path \<Rightarrow> fs \<Rightarrow> unit result \<times> fs" where
  "fs_remove_file p fs =
     (case fs_lookup fs p of
        Some (File _) \<Rightarrow> (Inr (), filter (\<lambda>e. fst e \<noteq> p) fs)
      | _ \<Rightarrow> (Inl (Io ''not a file''), fs))"

definition fs_remove_dir_all :: "path \<Rightarrow> fs \<Rightarrow> unit result \<times> fs" where
  "fs_remove_dir_all p fs =
     (if p \<noteq> [] \<and> fs_lookup fs p = Some Dir then (Inr (), filter (\<lambda>e. \<not> prefix p (fst e)) fs)
      else (Inl (Io ''not a directory''), fs))"

text \<open>The names in a directory, in the order of the table (the order is up to the system).\<close>

definition fs_read_dir :: "fs \<Rightarrow> path \<Rightarrow> string list result" where
  "fs_read_dir fs p =
     (if fs_lookup fs p = Some Dir
      then Inr (remdups (map (last \<circ> fst) (filter (\<lambda>e. fst e \<noteq> [] \<and> butlast (fst e) = p) fs)))
      else Inl (Io ''not a directory''))"

section \<open>Lemmas\<close>

lemma fs_lookup_Nil [simp]: "fs_lookup fs [] = Some Dir"
  by (simp add: fs_lookup_def)

lemma map_of_filter_key: "map_of (filter (\<lambda>e. P (fst e)) xs) k = (if P k then map_of xs k else None)"
  by (induction xs) auto

lemma fs_lookup_set [simp]:
  "p \<noteq> [] \<Longrightarrow> fs_lookup (fs_set p n fs) q = (if q = p then Some n else fs_lookup fs q)"
  using map_of_filter_key [of "\<lambda>k. k \<noteq> p" fs q] by (auto simp: fs_lookup_def fs_set_def)

lemma fs_lookup_filter:
  "fs_lookup (filter (\<lambda>e. P (fst e)) fs) q = (if q = [] then Some Dir else if P q then fs_lookup fs q else None)"
  by (simp add: fs_lookup_def map_of_filter_key)

lemma prefix_snoc_cases: "prefix p (xs @ [c]) \<longleftrightarrow> p = xs @ [c] \<or> prefix p xs"
  by (auto simp: prefix_snoc)

lemma fs_create_dirs_ok:
  "(\<And>q. prefix q p \<Longrightarrow> q \<noteq> [] \<Longrightarrow> \<forall>d. fs_lookup fs (dn @ q) \<noteq> Some (File d)) \<Longrightarrow>
     \<exists>fs'. fs_create_dirs dn p fs = (Inr (), fs') \<and>
       (\<forall>q. fs_lookup fs' q =
          (if (\<exists>r. q = dn @ r \<and> r \<noteq> [] \<and> prefix r p) then Some Dir else fs_lookup fs q))"
proof (induction p arbitrary: dn fs)
  case Nil
  then show ?case by auto
next
  case (Cons c p)
  have here: "\<forall>d. fs_lookup fs (dn @ [c]) \<noteq> Some (File d)" using Cons.prems [of "[c]"] by simp
  define fs1 where "fs1 = (if fs_lookup fs (dn @ [c]) = None then fs_set (dn @ [c]) Dir fs else fs)"
  have fs1: "fs_lookup fs1 q = (if q = dn @ [c] then Some Dir else fs_lookup fs q)" for q
    using here by (cases "fs_lookup fs (dn @ [c])") (auto simp: fs1_def split: fs_node.splits intro: fs_node.exhaust)
  have step: "fs_create_dirs dn (c # p) fs = fs_create_dirs (dn @ [c]) p fs1"
    using here by (auto simp: fs1_def split: option.splits fs_node.splits)
  have "\<exists>fs'. fs_create_dirs (dn @ [c]) p fs1 = (Inr (), fs') \<and>
       (\<forall>q. fs_lookup fs' q =
          (if (\<exists>r. q = (dn @ [c]) @ r \<and> r \<noteq> [] \<and> prefix r p) then Some Dir else fs_lookup fs1 q))"
  proof (rule Cons.IH, rule allI)
    fix q d assume "prefix q p" "q \<noteq> []"
    then show "fs_lookup fs1 ((dn @ [c]) @ q) \<noteq> Some (File d)"
      using Cons.prems [of "c # q"] by (simp add: fs1)
  qed
  then obtain fs' where fs': "fs_create_dirs (dn @ [c]) p fs1 = (Inr (), fs')"
    "\<And>q. fs_lookup fs' q =
       (if (\<exists>r. q = (dn @ [c]) @ r \<and> r \<noteq> [] \<and> prefix r p) then Some Dir else fs_lookup fs1 q)" by blast
  have "(\<exists>r. q = dn @ r \<and> r \<noteq> [] \<and> prefix r (c # p)) \<longleftrightarrow>
      q = dn @ [c] \<or> (\<exists>r. q = (dn @ [c]) @ r \<and> r \<noteq> [] \<and> prefix r p)" for q
    by (auto simp: prefix_Cons)
  then show ?case using step fs' fs1 by auto
qed

lemma fs_create_dir_all_ok:
  assumes "\<And>q. prefix q p \<Longrightarrow> \<forall>d. fs_lookup fs q \<noteq> Some (File d)"
  shows "\<exists>fs'. fs_create_dir_all p fs = (Inr (), fs') \<and>
    (\<forall>q. fs_lookup fs' q = (if prefix q p then Some Dir else fs_lookup fs q))"
proof -
  obtain fs' where "fs_create_dirs [] p fs = (Inr (), fs')"
    "\<And>q. fs_lookup fs' q = (if (\<exists>r. q = [] @ r \<and> r \<noteq> [] \<and> prefix r p) then Some Dir else fs_lookup fs q)"
    using fs_create_dirs_ok [of p fs "[]"] assms by auto
  then show ?thesis by (intro exI [of _ fs']) (auto simp: fs_create_dir_all_def)
qed

lemma fs_write_ok:
  assumes "p \<noteq> []" "fs_lookup fs (butlast p) = Some Dir" "fs_lookup fs p \<noteq> Some Dir"
  shows "\<exists>fs'. fs_write p data fs = (Inr (), fs') \<and>
    (\<forall>q. fs_lookup fs' q = (if q = p then Some (File data) else fs_lookup fs q))"
  using assms by (simp add: fs_write_def)

end
