(* ===== verification/Blob.thy ===== *)
theory Blob
  imports Kv Fs
begin

text \<open>
  The content-addressed blob store of \<^verbatim>\<open>crates/mmdb-blob\<close>: \<^verbatim>\<open>fs.rs\<close> keeps the bytes of a blob in one
  file or in a directory of chunks named by the hash, \<^verbatim>\<open>metadata.rs\<close> keeps the reference count, size
  and layout of every hash in a key-value partition, and \<^verbatim>\<open>lib.rs\<close> combines the two. The hash
  function (BLAKE3) and the key-value engine are parameters.
\<close>

definition CHUNK_SIZE :: nat where "CHUNK_SIZE = 4 * 1024 * 1024"
definition INLINE_THRESHOLD :: nat where "INLINE_THRESHOLD = 64 * 1024"

record blob_ref =
  br_hash :: bytes
  br_size :: u64

datatype put_outcome = InlinedSmall blob_ref bytes | OnDisk blob_ref

section \<open>Hexadecimal names\<close>

definition HEX :: string where "HEX = ''0123456789abcdef''"

fun hex_hash :: "bytes \<Rightarrow> string" where
  "hex_hash [] = []"
| "hex_hash (b # bs) = HEX ! unat (drop_bit 4 b) # HEX ! unat (b AND 0x0f) # hex_hash bs"

definition hex_nibble :: "byte \<Rightarrow> byte option" where
  "hex_nibble b =
     (if 48 \<le> b \<and> b \<le> 57 then Some (b - 48)
      else if 97 \<le> b \<and> b \<le> 102 then Some (b - 97 + 10)
      else if 65 \<le> b \<and> b \<le> 70 then Some (b - 65 + 10)
      else None)"

fun parse_hex_pairs :: "bytes \<Rightarrow> bytes option" where
  "parse_hex_pairs (c # d # cs) =
     (case hex_nibble c of
        None \<Rightarrow> None
      | Some hi \<Rightarrow>
          (case hex_nibble d of
             None \<Rightarrow> None
           | Some lo \<Rightarrow> map_option (\<lambda>out. (push_bit 4 hi OR lo) # out) (parse_hex_pairs cs)))"
| "parse_hex_pairs _ = Some []"

definition parse_hex_hash :: "string \<Rightarrow> bytes option" where
  "parse_hex_hash s = (if length s \<noteq> 64 then None else parse_hex_pairs (as_bytes s))"

section \<open>Bytes on disk\<close>

definition blob_path :: "path \<Rightarrow> bytes \<Rightarrow> path" where
  "blob_path root hash = root @ [''blobs'', take 2 (hex_hash hash), hex_hash hash]"

definition chunk_name :: "nat \<Rightarrow> string" where
  "chunk_name idx = (let s = show_nat idx in replicate (8 - length s) (CHR ''0'') @ s @ ''.chunk'')"

function chunks :: "nat \<Rightarrow> 'a list \<Rightarrow> 'a list list" where
  "chunks n xs = (if xs = [] \<or> n = 0 then [] else take n xs # chunks n (drop n xs))"
  by pat_completeness auto
termination
  by (relation "measure (\<lambda>(n, xs). length xs)") auto

fun write_chunks :: "path \<Rightarrow> nat \<Rightarrow> bytes list \<Rightarrow> fs \<Rightarrow> unit result \<times> fs" where
  "write_chunks p idx [] fs = (Inr (), fs)"
| "write_chunks p idx (c # cs) fs =
     bind_st (fs_write (p @ [chunk_name idx]) c fs) (\<lambda>_ fs. write_chunks p (idx + 1) cs fs)"

definition write_blob_bytes :: "path \<Rightarrow> bytes \<Rightarrow> bytes \<Rightarrow> fs \<Rightarrow> bool result \<times> fs" where
  "write_blob_bytes root hash data fs =
     (let p = blob_path root hash;
          chunked = INLINE_THRESHOLD < length data
      in bind_st (fs_create_dir_all (butlast p) fs) (\<lambda>_ fs.
         if chunked
         then bind_st (fs_create_dir_all p fs) (\<lambda>_ fs.
              bind_st (write_chunks p 0 (chunks CHUNK_SIZE data) fs) (\<lambda>_ fs. (Inr chunked, fs)))
         else bind_st (fs_write p data fs) (\<lambda>_ fs. (Inr chunked, fs))))"

definition div_ceil :: "nat \<Rightarrow> nat \<Rightarrow> nat" where
  "div_ceil a b = (if a mod b = 0 then a div b else a div b + 1)"

definition read_chunks :: "path \<Rightarrow> nat \<Rightarrow> fs \<Rightarrow> bytes result" where
  "read_chunks p n fs =
     bind_res (collect_res (map (\<lambda>idx. fs_read fs (p @ [chunk_name idx])) [0..<n])) (\<lambda>cs. Inr (concat cs))"

definition read_blob_bytes :: "path \<Rightarrow> bytes \<Rightarrow> bool \<Rightarrow> u64 \<Rightarrow> fs \<Rightarrow> bytes result" where
  "read_blob_bytes root hash chunked size' fs =
     (let p = blob_path root hash
      in if chunked then read_chunks p (div_ceil (unat size') CHUNK_SIZE) fs else fs_read fs p)"

definition hash_and_read :: "(bytes \<Rightarrow> bytes) \<Rightarrow> string + bytes \<Rightarrow> (bytes \<times> bytes) result" where
  "hash_and_read blake3 reader = bind_res (map_err Io reader) (\<lambda>data. Inr (blake3 data, data))"

definition remove_blob_bytes :: "path \<Rightarrow> bytes \<Rightarrow> fs \<Rightarrow> unit result \<times> fs" where
  "remove_blob_bytes root hash fs =
     (let p = blob_path root hash
      in if fs_is_dir fs p then fs_remove_dir_all p fs
         else if fs_exists fs p then fs_remove_file p fs
         else (Inr (), fs))"

definition blob_exists_on_disk :: "path \<Rightarrow> bytes \<Rightarrow> fs \<Rightarrow> bool" where
  "blob_exists_on_disk root hash fs = fs_exists fs (blob_path root hash)"

fun list_split_dirs :: "path \<Rightarrow> string list \<Rightarrow> fs \<Rightarrow> bytes list result" where
  "list_split_dirs blobs [] fs = Inr []"
| "list_split_dirs blobs (d # ds) fs =
     (if \<not> fs_is_dir fs (blobs @ [d]) then list_split_dirs blobs ds fs
      else
        bind_res (fs_read_dir fs (blobs @ [d])) (\<lambda>names.
        bind_res (list_split_dirs blobs ds fs) (\<lambda>rest.
        Inr (List.map_filter (\<lambda>name. if utf8_valid (as_bytes name) then parse_hex_hash name else None) names @ rest))))"

definition list_all_blobs_on_disk :: "path \<Rightarrow> fs \<Rightarrow> bytes list result" where
  "list_all_blobs_on_disk root fs =
     (let blobs = root @ [''blobs'']
      in if \<not> fs_exists fs blobs then Inr []
         else bind_res (fs_read_dir fs blobs) (\<lambda>ds. list_split_dirs blobs ds fs))"

definition ensure_layout :: "path \<Rightarrow> fs \<Rightarrow> unit result \<times> fs" where
  "ensure_layout root fs = fs_create_dir_all (root @ [''blobs'']) fs"

definition metadata_dir :: "path \<Rightarrow> path" where
  "metadata_dir root = root @ [''blob-meta'']"

section \<open>Metadata\<close>

definition PARTITION_META :: string where "PARTITION_META = ''m''"
definition VALUE_SIZE :: nat where "VALUE_SIZE = 8 + 8 + 1"

record blob_meta =
  bm_refcount :: u64
  bm_size :: u64
  bm_chunked :: bool

definition blob_meta_encode :: "blob_meta \<Rightarrow> bytes" where
  "blob_meta_encode m = u64_be (bm_refcount m) @ u64_be (bm_size m) @ [if bm_chunked m then 1 else 0]"

definition blob_meta_decode :: "bytes \<Rightarrow> blob_meta option" where
  "blob_meta_decode b =
     (if length b \<noteq> VALUE_SIZE then None
      else Some \<lparr>bm_refcount = u64_from_be (take 8 b), bm_size = u64_from_be (take 8 (drop 8 b)),
                 bm_chunked = (b ! 16 \<noteq> 0)\<rparr>)"

text \<open>Opening the metadata store creates its directory; the keyspace itself is the engine's.\<close>

definition meta_open :: "path \<Rightarrow> fs \<Rightarrow> unit result \<times> fs" where
  "meta_open root fs =
     (case fs_create_dir_all (metadata_dir root) fs of
        (Inl (Io e), fs) \<Rightarrow> (Inl (Storage (''create blob-meta dir: '' @ e)), fs)
      | r \<Rightarrow> r)"

definition meta_persist :: "'ks kv \<Rightarrow> 'ks \<Rightarrow> unit result \<times> 'ks" where
  "meta_persist kv ks = lift_err (\<lambda>e. Storage (''persist meta: '' @ e)) (kv_persist kv ks)"

definition meta_insert_new :: "'ks kv \<Rightarrow> bytes \<Rightarrow> u64 \<Rightarrow> bool \<Rightarrow> 'ks \<Rightarrow> unit result \<times> 'ks" where
  "meta_insert_new kv hash size' chunked ks =
     bind_st (lift_err (\<lambda>e. Storage (''insert meta: '' @ e))
       (kv_insert kv ks PARTITION_META (as_bytes (hex_hash hash))
          (blob_meta_encode \<lparr>bm_refcount = 1, bm_size = size', bm_chunked = chunked\<rparr>)))
       (\<lambda>_ ks. meta_persist kv ks)"

definition meta_get :: "'ks kv \<Rightarrow> 'ks \<Rightarrow> bytes \<Rightarrow> blob_meta option result" where
  "meta_get kv ks hash =
     bind_res (map_err (\<lambda>e. Storage (''get meta: '' @ e)) (kv_get kv ks PARTITION_META (as_bytes (hex_hash hash))))
       (\<lambda>r. Inr (case r of None \<Rightarrow> None | Some v \<Rightarrow> blob_meta_decode v))"

text \<open>\<^verbatim>\<open>inc_ref\<close> and \<^verbatim>\<open>dec_ref\<close> differ in the arithmetic and the error texts only.\<close>

definition meta_update_ref :: "string \<Rightarrow> (u64 \<Rightarrow> u64) \<Rightarrow> 'ks kv \<Rightarrow> bytes \<Rightarrow> 'ks \<Rightarrow> unit result \<times> 'ks" where
  "meta_update_ref what f kv hash ks =
     (let key = hex_hash hash
      in bind_st (map_err (\<lambda>e. Storage (what @ '' get: '' @ e)) (kv_get kv ks PARTITION_META (as_bytes key)), ks)
        (\<lambda>r ks.
      bind_st (ok_or NotFound r, ks) (\<lambda>existing ks.
      bind_st (ok_or (Storage (''corrupt metadata for '' @ key)) (blob_meta_decode existing), ks) (\<lambda>m ks.
      bind_st (lift_err (\<lambda>e. Storage (what @ '' insert: '' @ e))
        (kv_insert kv ks PARTITION_META (as_bytes key) (blob_meta_encode (m\<lparr>bm_refcount := f (bm_refcount m)\<rparr>))))
        (\<lambda>_ ks. meta_persist kv ks)))))"

definition meta_inc_ref :: "'ks kv \<Rightarrow> bytes \<Rightarrow> 'ks \<Rightarrow> unit result \<times> 'ks" where
  "meta_inc_ref = meta_update_ref ''inc_ref'' (\<lambda>r. saturating_add_u64 r 1)"

definition meta_dec_ref :: "'ks kv \<Rightarrow> bytes \<Rightarrow> 'ks \<Rightarrow> unit result \<times> 'ks" where
  "meta_dec_ref = meta_update_ref ''dec_ref'' (\<lambda>r. saturating_sub_u64 r 1)"

fun meta_collect :: "kv_item list \<Rightarrow> (bytes \<times> blob_meta) list result" where
  "meta_collect [] = Inr []"
| "meta_collect (Inl e # items) = Inl (Storage (''iter meta: '' @ e))"
| "meta_collect (Inr (k, v) # items) =
     bind_res (meta_collect items) (\<lambda>rest.
     Inr (case from_utf8 k of
            None \<Rightarrow> rest
          | Some key_str \<Rightarrow>
              (case parse_hex_hash key_str of
                 None \<Rightarrow> rest
               | Some hash \<Rightarrow>
                   (case blob_meta_decode v of
                      None \<Rightarrow> rest
                    | Some m \<Rightarrow> (hash, m) # rest))))"

definition meta_iter_all :: "'ks kv \<Rightarrow> 'ks \<Rightarrow> (bytes \<times> blob_meta) list result" where
  "meta_iter_all kv ks = meta_collect (kv_iter kv ks PARTITION_META)"

definition meta_remove :: "'ks kv \<Rightarrow> bytes \<Rightarrow> 'ks \<Rightarrow> unit result \<times> 'ks" where
  "meta_remove kv hash ks =
     bind_st (lift_err (\<lambda>e. Storage (''remove meta: '' @ e)) (kv_remove kv ks PARTITION_META (as_bytes (hex_hash hash))))
       (\<lambda>_ ks. meta_persist kv ks)"

section \<open>The store\<close>

record 'ks blob_store =
  bl_root :: path
  bl_kv :: "'ks kv"
  bl_blake3 :: "bytes \<Rightarrow> bytes"

record 'ks blob_state =
  bs_fs :: fs
  bs_ks :: 'ks

definition on_fs :: "(fs \<Rightarrow> 'a result \<times> fs) \<Rightarrow> 'ks blob_state \<Rightarrow> 'a result \<times> 'ks blob_state" where
  "on_fs f s = (case f (bs_fs s) of (r, fs') \<Rightarrow> (r, s\<lparr>bs_fs := fs'\<rparr>))"

definition on_ks :: "('ks \<Rightarrow> 'a result \<times> 'ks) \<Rightarrow> 'ks blob_state \<Rightarrow> 'a result \<times> 'ks blob_state" where
  "on_ks f s = (case f (bs_ks s) of (r, ks') \<Rightarrow> (r, s\<lparr>bs_ks := ks'\<rparr>))"

definition mk_outcome :: "blob_ref \<Rightarrow> bytes \<Rightarrow> put_outcome" where
  "mk_outcome r bs = (if length bs \<le> INLINE_THRESHOLD then InlinedSmall r bs else OnDisk r)"

fun into_ref :: "put_outcome \<Rightarrow> blob_ref" where
  "into_ref (InlinedSmall r bs) = r"
| "into_ref (OnDisk r) = r"

fun outcome_hash :: "put_outcome \<Rightarrow> bytes" where
  "outcome_hash (InlinedSmall r bs) = br_hash r"
| "outcome_hash (OnDisk r) = br_hash r"

fun outcome_size :: "put_outcome \<Rightarrow> u64" where
  "outcome_size (InlinedSmall r bs) = br_size r"
| "outcome_size (OnDisk r) = br_size r"

definition put_stream ::
    "'ks blob_store \<Rightarrow> string + bytes \<Rightarrow> 'ks blob_state \<Rightarrow> put_outcome result \<times> 'ks blob_state" where
  "put_stream bl reader s =
     bind_st (hash_and_read (bl_blake3 bl) reader, s) (\<lambda>(hash, bs) s.
     let size' = word_of_nat (length bs)
     in bind_st (meta_get (bl_kv bl) (bs_ks s) hash, s) (\<lambda>r s.
        case r of
          Some existing \<Rightarrow>
            bind_st (on_ks (meta_inc_ref (bl_kv bl) hash) s) (\<lambda>_ s.
            (Inr (mk_outcome \<lparr>br_hash = hash, br_size = bm_size existing\<rparr> bs), s))
        | None \<Rightarrow>
            bind_st (on_fs (write_blob_bytes (bl_root bl) hash bs) s) (\<lambda>chunked s.
            bind_st (on_ks (meta_insert_new (bl_kv bl) hash size' chunked) s) (\<lambda>_ s.
            (Inr (mk_outcome \<lparr>br_hash = hash, br_size = size'\<rparr> bs), s)))))"

definition get_stream :: "'ks blob_store \<Rightarrow> 'ks blob_state \<Rightarrow> bytes \<Rightarrow> bytes result" where
  "get_stream bl s hash =
     bind_res (meta_get (bl_kv bl) (bs_ks s) hash) (\<lambda>r.
     bind_res (ok_or NotFound r) (\<lambda>m.
     read_blob_bytes (bl_root bl) hash (bm_chunked m) (bm_size m) (bs_fs s)))"

definition blob_inc_ref :: "'ks blob_store \<Rightarrow> bytes \<Rightarrow> 'ks blob_state \<Rightarrow> unit result \<times> 'ks blob_state" where
  "blob_inc_ref bl hash s = on_ks (meta_inc_ref (bl_kv bl) hash) s"

definition blob_dec_ref :: "'ks blob_store \<Rightarrow> bytes \<Rightarrow> 'ks blob_state \<Rightarrow> unit result \<times> 'ks blob_state" where
  "blob_dec_ref bl hash s = on_ks (meta_dec_ref (bl_kv bl) hash) s"

fun gc_loop :: "'ks blob_store \<Rightarrow> bytes list \<Rightarrow> 'ks blob_state \<Rightarrow> unit result \<times> 'ks blob_state" where
  "gc_loop bl [] s = (Inr (), s)"
| "gc_loop bl (hash # hashes) s =
     bind_st (on_fs (remove_blob_bytes (bl_root bl) hash) s) (\<lambda>_ s.
     bind_st (on_ks (meta_remove (bl_kv bl) hash) s) (\<lambda>_ s. gc_loop bl hashes s))"

definition gc :: "'ks blob_store \<Rightarrow> 'ks blob_state \<Rightarrow> nat result \<times> 'ks blob_state" where
  "gc bl s =
     bind_st (meta_iter_all (bl_kv bl) (bs_ks s), s) (\<lambda>all s.
     let garbage = map fst (filter (\<lambda>(_, m). bm_refcount m = 0) all)
     in bind_st (gc_loop bl garbage s) (\<lambda>_ s. (Inr (length garbage), s)))"

definition refcount :: "'ks blob_store \<Rightarrow> 'ks blob_state \<Rightarrow> bytes \<Rightarrow> u64 option result" where
  "refcount bl s hash = bind_res (meta_get (bl_kv bl) (bs_ks s) hash) (\<lambda>r. Inr (map_option bm_refcount r))"

definition is_chunked :: "'ks blob_store \<Rightarrow> 'ks blob_state \<Rightarrow> bytes \<Rightarrow> bool result" where
  "is_chunked bl s hash =
     bind_res (meta_get (bl_kv bl) (bs_ks s) hash) (\<lambda>r. ok_or NotFound (map_option bm_chunked r))"

definition total_tracked :: "'ks blob_store \<Rightarrow> 'ks blob_state \<Rightarrow> nat result" where
  "total_tracked bl s = bind_res (meta_iter_all (bl_kv bl) (bs_ks s)) (\<lambda>all. Inr (length all))"

text \<open>Removing an orphan may fail; the failure is logged and the loop goes on.\<close>

fun repair_loop :: "'ks blob_store \<Rightarrow> bool \<Rightarrow> bytes set \<Rightarrow> bytes list \<Rightarrow> 'ks blob_state \<Rightarrow> 'ks blob_state" where
  "repair_loop bl repair in_meta [] s = s"
| "repair_loop bl repair in_meta (hash # hashes) s =
     (if hash \<in> in_meta then repair_loop bl repair in_meta hashes s
      else if repair
      then repair_loop bl repair in_meta hashes (snd (on_fs (remove_blob_bytes (bl_root bl) hash) s))
      else repair_loop bl repair in_meta hashes s)"

definition reconcile_on_open :: "'ks blob_store \<Rightarrow> bool \<Rightarrow> 'ks blob_state \<Rightarrow> unit result \<times> 'ks blob_state" where
  "reconcile_on_open bl repair s =
     bind_st (list_all_blobs_on_disk (bl_root bl) (bs_fs s), s) (\<lambda>on_disk s.
     bind_st (meta_iter_all (bl_kv bl) (bs_ks s), s) (\<lambda>all_meta s.
     (Inr (), repair_loop bl repair (set (map fst all_meta)) on_disk s)))"

definition blob_open_with :: "'ks blob_store \<Rightarrow> bool \<Rightarrow> 'ks blob_state \<Rightarrow> unit result \<times> 'ks blob_state" where
  "blob_open_with bl repair s =
     bind_st (on_fs (ensure_layout (bl_root bl)) s) (\<lambda>_ s.
     bind_st (on_fs (meta_open (bl_root bl)) s) (\<lambda>_ s.
     reconcile_on_open bl repair s))"

section \<open>Lemmas: names\<close>

declare chunks.simps [simp del]

lemma length_hex_hash [simp]: "length (hex_hash bs) = 2 * length bs"
  by (induction bs) auto

lemma hex_nibble_HEX: "n < 16 \<Longrightarrow> hex_nibble (of_char (HEX ! n)) = Some (word_of_nat n)"
proof -
  assume "n < 16"
  then have "n \<in> set [0..<16]" by simp
  moreover have "\<forall>n\<in>set [0..<16]. hex_nibble (of_char (HEX ! n)) = Some (word_of_nat n)"
    by (simp add: upt_rec HEX_def hex_nibble_def)
  ultimately show ?thesis by blast
qed

lemma nibbles: "push_bit 4 (drop_bit 4 b) OR (b AND 15) = (b :: byte)"
proof -
  have m: "(15 :: byte) = mask 4" by (simp add: mask_eq_exp_minus_1)
  show ?thesis unfolding m by (rule bit_word_eqI) (auto simp: bit_simps)
qed

lemma nibble_less: "unat (drop_bit 4 (b :: byte)) < 16" "unat (b AND 15) < 16"
proof -
  have "unat b < 256" using unsigned_less [of b] by simp
  then show "unat (drop_bit 4 b) < 16" by (simp only: unsigned_drop_bit_eq) (simp add: drop_bit_eq_div take_bit_eq_mod)
  have m: "(15 :: byte) = mask 4" by (simp add: mask_eq_exp_minus_1)
  show "unat (b AND 15) < 16" unfolding m take_bit_eq_mask [symmetric] unsigned_take_bit_eq
    by (simp add: take_bit_eq_mod)
qed

lemma parse_hex_pairs_hex: "parse_hex_pairs (as_bytes (hex_hash bs)) = Some bs"
  by (induction bs) (simp_all add: as_bytes_def hex_nibble_HEX nibble_less nibbles)

lemma parse_hex_hash [simp]: "length h = 32 \<Longrightarrow> parse_hex_hash (hex_hash h) = Some h"
  by (simp add: parse_hex_hash_def parse_hex_pairs_hex)

lemma hex_hash_inject [simp]: "hex_hash h = hex_hash h' \<longleftrightarrow> h = h'"
  by (metis option.inject parse_hex_pairs_hex)

lemma hex_chars: "c \<in> set (hex_hash bs) \<Longrightarrow> of_char c < (128 :: nat)"
proof (induction bs)
  case (Cons b bs)
  have "of_char (HEX ! n) < (128 :: nat)" if "n < 16" for n
  proof -
    have "\<forall>c\<in>set HEX. of_char c < (128 :: nat)" by (simp add: HEX_def)
    moreover have "HEX ! n \<in> set HEX" using that by (intro nth_mem) (simp add: HEX_def)
    ultimately show ?thesis by blast
  qed
  then show ?case using Cons nibble_less by auto
qed simp

lemma utf8_ascii: "(\<And>c. c \<in> set s \<Longrightarrow> of_char c < (128 :: nat)) \<Longrightarrow> utf8_valid (as_bytes s)"
proof -
  assume a: "\<And>c. c \<in> set s \<Longrightarrow> of_char c < (128 :: nat)"
  have "unat (of_char c :: byte) = of_char c" if "c \<in> set s" for c
    using a [OF that] by (simp add: unat_of_char)
  then show ?thesis using a unfolding utf8_valid_def as_bytes_def
    by (induction s) auto
qed

lemma utf8_hex [simp]: "utf8_valid (as_bytes (hex_hash h))"
  by (rule utf8_ascii) (rule hex_chars)

text \<open>Decimal chunk names are distinct.\<close>

definition digits_value :: "string \<Rightarrow> nat" where
  "digits_value s = foldl (\<lambda>a c. a * 10 + (of_char c - 48)) 0 s"

lemma digits_value_snoc: "digits_value (s @ [c]) = digits_value s * 10 + (of_char c - 48)"
  by (simp add: digits_value_def)

lemma of_char_digit: "d < 10 \<Longrightarrow> of_char (char_of (48 + d) :: char) - 48 = (d :: nat)"
  by (simp add: of_char_of)

lemma digits_value_show_nat: "digits_value (show_nat n) = n"
proof (induction n rule: show_nat.induct)
  case (1 n)
  show ?case
  proof (cases "n < 10")
    case True
    then show ?thesis by (simp add: show_nat.simps [of n] digits_value_def of_char_digit)
  next
    case False
    then show ?thesis using 1
      by (subst show_nat.simps) (simp add: digits_value_snoc of_char_digit)
  qed
qed

lemma digits_value_zeros: "digits_value (replicate k (CHR ''0'') @ s) = digits_value s"
  by (induction k) (simp_all add: digits_value_def)

lemma chunk_name_inject [simp]: "chunk_name i = chunk_name j \<longleftrightarrow> i = j"
proof
  assume "chunk_name i = chunk_name j"
  then have "digits_value (replicate (8 - length (show_nat i)) (CHR ''0'') @ show_nat i) =
      digits_value (replicate (8 - length (show_nat j)) (CHR ''0'') @ show_nat j)"
    by (simp add: chunk_name_def Let_def flip: append_assoc)
  then show "i = j" by (simp add: digits_value_zeros digits_value_show_nat)
qed simp

section \<open>Lemmas: chunks\<close>

lemma concat_chunks: "0 < n \<Longrightarrow> concat (chunks n xs) = xs"
  by (induction n xs rule: chunks.induct) (subst chunks.simps, simp)

lemma div_ceil_step: "0 < n \<Longrightarrow> n < a \<Longrightarrow> div_ceil a n = Suc (div_ceil (a - n) n)"
  by (simp add: div_ceil_def le_div_geq le_mod_geq)

lemma length_chunks: "0 < n \<Longrightarrow> length (chunks n xs) = div_ceil (length xs) n"
proof (induction n xs rule: chunks.induct)
  case (1 n xs)
  show ?case
  proof (cases "xs = []")
    case True
    then show ?thesis by (simp add: chunks.simps div_ceil_def)
  next
    case False
    then have "length (chunks n xs) = Suc (div_ceil (length xs - n) n)"
      using 1 by (subst chunks.simps) simp
    also have "\<dots> = div_ceil (length xs) n"
    proof (cases "n < length xs")
      case True
      then show ?thesis using div_ceil_step [of n "length xs"] 1(2) by simp
    next
      case False
      then show ?thesis using \<open>xs \<noteq> []\<close> 1(2) by (cases "length xs = n") (auto simp: div_ceil_def)
    qed
    finally show ?thesis .
  qed
qed

section \<open>Lemmas: the disk\<close>

text \<open>
  A blob is on disk when its file, or every chunk of its directory, holds its bytes. What the
  store expects of the disk: the directories above blobs are not files, a blob path in use belongs
  to some content with that hash and the matching layout, and nothing below it is a directory.
\<close>

definition on_disk :: "path \<Rightarrow> fs \<Rightarrow> bytes \<Rightarrow> bytes \<Rightarrow> bool" where
  "on_disk root fs h d \<longleftrightarrow>
     (if length d \<le> INLINE_THRESHOLD then fs_lookup fs (blob_path root h) = Some (File d)
      else fs_lookup fs (blob_path root h) = Some Dir \<and>
        (\<forall>i < length (chunks CHUNK_SIZE d).
           fs_lookup fs (blob_path root h @ [chunk_name i]) = Some (File (chunks CHUNK_SIZE d ! i))))"

definition disk_ok :: "(bytes \<Rightarrow> bytes) \<Rightarrow> path \<Rightarrow> fs \<Rightarrow> bool" where
  "disk_ok blake3 root fs \<longleftrightarrow>
     (\<forall>h q d. length h = 32 \<longrightarrow> prefix q (butlast (blob_path root h)) \<longrightarrow> fs_lookup fs q \<noteq> Some (File d)) \<and>
     (\<forall>h. length h = 32 \<longrightarrow> fs_lookup fs (blob_path root h) \<noteq> None \<longrightarrow>
        (\<exists>d. blake3 d = h \<and> (fs_lookup fs (blob_path root h) = Some Dir \<longleftrightarrow> INLINE_THRESHOLD < length d))) \<and>
     (\<forall>h n. length h = 32 \<longrightarrow> fs_lookup fs (blob_path root h @ [n]) \<noteq> Some Dir)"

lemma blob_path_append [simp]: "blob_path root h @ r = blob_path root h' @ r' \<longleftrightarrow> h = h' \<and> r = r'"
  by (auto simp: blob_path_def)

lemma blob_path_inject [simp]: "blob_path root h = blob_path root h' \<longleftrightarrow> h = h'"
  using blob_path_append [of root h "[]" h' "[]"] by simp

lemma blob_path_ext [simp]:
  "blob_path root h @ r = blob_path root h' \<longleftrightarrow> h = h' \<and> r = []"
  "blob_path root h' = blob_path root h @ r \<longleftrightarrow> h' = h \<and> r = []"
  using blob_path_append [of root h r h' "[]"] blob_path_append [of root h' "[]" h r] by auto

lemma length_blob_path [simp]: "length (blob_path root h) = length root + 3"
  by (simp add: blob_path_def)

lemma blob_path_not_Nil [simp]: "blob_path root h \<noteq> []"
  by (simp add: blob_path_def)

lemma prefix_parent: "\<not> prefix (blob_path root h @ r) (butlast (blob_path root h'))"
  by (auto dest: prefix_length_le)

lemma read_on_disk:
  assumes "on_disk root fs h d" "length d < 2 ^ 64"
  shows "read_blob_bytes root h (INLINE_THRESHOLD < length d) (word_of_nat (length d)) fs = Inr d"
proof (cases "INLINE_THRESHOLD < length d")
  case False
  then show ?thesis using assms by (simp add: read_blob_bytes_def fs_read_def on_disk_def)
next
  case True
  have pos: "0 < CHUNK_SIZE" by (simp add: CHUNK_SIZE_def)
  let ?cs = "chunks CHUNK_SIZE d" and ?p = "blob_path root h"
  have "unat (word_of_nat (length d) :: u64) = length d" using assms(2) by (simp add: unat_of_nat)
  then have n: "div_ceil (unat (word_of_nat (length d) :: u64)) CHUNK_SIZE = length ?cs"
    using length_chunks [OF pos, of d] by simp
  have "collect_res (map (\<lambda>idx. fs_read fs (?p @ [chunk_name idx])) [0..<length ?cs]) = Inr (map ((!) ?cs) [0..<length ?cs])"
    by (rule collect_res_map_Inr) (use assms(1) True in \<open>simp add: on_disk_def fs_read_def\<close>)
  also have "\<dots> = Inr ?cs" by (simp add: map_nth)
  finally show ?thesis using True n concat_chunks [OF pos, of d]
    by (simp add: read_blob_bytes_def read_chunks_def)
qed

lemma write_chunks_ok:
  assumes "fs_lookup fs p = Some Dir" "\<And>n. fs_lookup fs (p @ [n]) \<noteq> Some Dir"
  shows "\<exists>fs'. write_chunks p idx cs fs = (Inr (), fs') \<and>
    (\<forall>i < length cs. fs_lookup fs' (p @ [chunk_name (idx + i)]) = Some (File (cs ! i))) \<and>
    (\<forall>q. (\<forall>i < length cs. q \<noteq> p @ [chunk_name (idx + i)]) \<longrightarrow> fs_lookup fs' q = fs_lookup fs q)"
  using assms
proof (induction cs arbitrary: idx fs)
  case Nil
  then show ?case by simp
next
  case (Cons c cs)
  obtain fs1 where fs1: "fs_write (p @ [chunk_name idx]) c fs = (Inr (), fs1)"
    "\<And>q. fs_lookup fs1 q = (if q = p @ [chunk_name idx] then Some (File c) else fs_lookup fs q)"
    using fs_write_ok [of "p @ [chunk_name idx]" fs c] Cons.prems by auto
  obtain fs2 where fs2: "write_chunks p (idx + 1) cs fs1 = (Inr (), fs2)"
    "\<And>i. i < length cs \<Longrightarrow> fs_lookup fs2 (p @ [chunk_name (idx + 1 + i)]) = Some (File (cs ! i))"
    "\<And>q. (\<forall>i < length cs. q \<noteq> p @ [chunk_name (idx + 1 + i)]) \<Longrightarrow> fs_lookup fs2 q = fs_lookup fs1 q"
  proof -
    have d1: "fs_lookup fs1 p = Some Dir" "\<And>n. fs_lookup fs1 (p @ [n]) \<noteq> Some Dir"
      using Cons.prems by (simp_all add: fs1(2))
    show ?thesis using Cons.IH [OF d1, of "idx + 1"] that by blast
  qed
  have "fs_lookup fs2 (p @ [chunk_name (idx + i)]) = Some (File ((c # cs) ! i))" if "i < length (c # cs)" for i
  proof (cases i)
    case 0
    then show ?thesis using fs2(3) [of "p @ [chunk_name idx]"] fs1(2) by simp
  next
    case (Suc j)
    then show ?thesis using fs2(2) [of j] that by simp
  qed
  moreover have "fs_lookup fs2 q = fs_lookup fs q" if q: "\<forall>i < length (c # cs). q \<noteq> p @ [chunk_name (idx + i)]" for q
  proof -
    have "q \<noteq> p @ [chunk_name idx]" using q [rule_format, of 0] by simp
    moreover have "\<forall>i < length cs. q \<noteq> p @ [chunk_name (idx + 1 + i)]" using q [rule_format, of "Suc _"] by simp
    ultimately show ?thesis using fs2(3) fs1(2) by simp
  qed
  ultimately show ?case using fs1(1) fs2(1) by (intro exI [of _ fs2]) simp
qed

text \<open>Where two file systems agree at and below the path of a hash.\<close>

definition same_blob :: "path \<Rightarrow> fs \<Rightarrow> fs \<Rightarrow> bytes \<Rightarrow> bool" where
  "same_blob root fs fs' h \<longleftrightarrow> (\<forall>r. fs_lookup fs' (blob_path root h @ r) = fs_lookup fs (blob_path root h @ r))"

lemma same_blob_lookup:
  "same_blob root fs fs' h \<Longrightarrow> fs_lookup fs' (blob_path root h) = fs_lookup fs (blob_path root h)"
  unfolding same_blob_def by (metis append_Nil2)

lemma same_blob_on_disk: "same_blob root fs fs' h \<Longrightarrow> on_disk root fs' h d \<longleftrightarrow> on_disk root fs h d"
  using same_blob_lookup [of root fs fs' h] unfolding same_blob_def on_disk_def by presburger

lemma disk_okD:
  assumes "disk_ok blake3 root fs"
  shows "length h = 32 \<Longrightarrow> prefix q (butlast (blob_path root h)) \<Longrightarrow> fs_lookup fs q \<noteq> Some (File d)"
    "length h = 32 \<Longrightarrow> fs_lookup fs (blob_path root h) \<noteq> None \<Longrightarrow>
       \<exists>d. blake3 d = h \<and> (fs_lookup fs (blob_path root h) = Some Dir \<longleftrightarrow> INLINE_THRESHOLD < length d)"
    "length h = 32 \<Longrightarrow> fs_lookup fs (blob_path root h @ [n]) \<noteq> Some Dir"
  using assms unfolding disk_ok_def by blast+

lemma write_blob_ok:
  assumes ok: "disk_ok blake3 root fs" and len: "length (blake3 d) = 32"
    and coll: "\<And>d'. blake3 d' = blake3 d \<Longrightarrow> d' = d"
  shows "\<exists>fs'. write_blob_bytes root (blake3 d) d fs = (Inr (INLINE_THRESHOLD < length d), fs') \<and>
    on_disk root fs' (blake3 d) d \<and> disk_ok blake3 root fs' \<and>
    (\<forall>h. length h = 32 \<longrightarrow> h \<noteq> blake3 d \<longrightarrow> same_blob root fs fs' h)"
proof -
  let ?h = "blake3 d" and ?p = "blob_path root (blake3 d)"
  obtain fs1 where fs1: "fs_create_dir_all (butlast ?p) fs = (Inr (), fs1)"
    "\<And>q. fs_lookup fs1 q = (if prefix q (butlast ?p) then Some Dir else fs_lookup fs q)"
    using fs_create_dir_all_ok [of "butlast ?p" fs] disk_okD(1) [OF ok len] by blast
  have keep1: "fs_lookup fs1 (blob_path root h @ r) = fs_lookup fs (blob_path root h @ r)" for h r
    using prefix_parent by (simp add: fs1(2))
  have at: "fs_lookup fs1 ?p = fs_lookup fs ?p" using keep1 [of ?h "[]"] by simp
  have layout: "fs_lookup fs ?p = Some Dir \<longleftrightarrow> INLINE_THRESHOLD < length d" if "fs_lookup fs ?p \<noteq> None"
    using disk_okD(2) [OF ok len that] coll by metis
  have final: "on_disk root fs' ?h d \<and> disk_ok blake3 root fs' \<and>
      (\<forall>h. length h = 32 \<longrightarrow> h \<noteq> ?h \<longrightarrow> same_blob root fs fs' h)"
    if disk: "on_disk root fs' ?h d"
      and below: "\<And>n. fs_lookup fs' (?p @ [n]) \<noteq> Some Dir"
      and rest: "\<And>q. \<not> prefix ?p q \<Longrightarrow> fs_lookup fs' q = fs_lookup fs1 q" for fs'
  proof -
    have same: "same_blob root fs fs' h" if "h \<noteq> ?h" for h
      unfolding same_blob_def
    proof
      fix r
      have "\<not> prefix ?p (blob_path root h @ r)"
      proof
        assume "prefix ?p (blob_path root h @ r)"
        then obtain r' where "blob_path root h @ r = ?p @ r'" by (auto simp: prefix_def)
        then show False using that by simp
      qed
      then show "fs_lookup fs' (blob_path root h @ r) = fs_lookup fs (blob_path root h @ r)"
        using rest keep1 by simp
    qed
    have "disk_ok blake3 root fs'"
      unfolding disk_ok_def
    proof (intro conjI allI impI)
      fix h q e assume h: "length h = 32" "prefix q (butlast (blob_path root h))"
      then have "\<not> prefix ?p q" by (metis (no_types) append_Nil2 prefix_order.trans prefix_parent)
      then show "fs_lookup fs' q \<noteq> Some (File e)"
        using disk_okD(1) [OF ok h] rest by (simp add: fs1(2))
    next
      fix h assume h: "length h = 32" "fs_lookup fs' (blob_path root h) \<noteq> None"
      show "\<exists>d. blake3 d = h \<and> (fs_lookup fs' (blob_path root h) = Some Dir \<longleftrightarrow> INLINE_THRESHOLD < length d)"
      proof (cases "h = ?h")
        case True
        then show ?thesis using disk by (intro exI [of _ d]) (auto simp: on_disk_def split: if_splits)
      next
        case False
        then show ?thesis using disk_okD(2) [OF ok h(1)] h(2) same_blob_lookup [OF same [OF False]] by simp
      qed
    next
      fix h n assume h: "length (h :: bytes) = 32"
      show "fs_lookup fs' (blob_path root h @ [n]) \<noteq> Some Dir"
        using below disk_okD(3) [OF ok h] same unfolding same_blob_def by (cases "h = ?h") auto
    qed
    then show ?thesis using disk same by blast
  qed
  have below: "fs_lookup fs1 (?p @ [n]) \<noteq> Some Dir" for n
    using keep1 disk_okD(3) [OF ok len] by simp
  show ?thesis
  proof (cases "INLINE_THRESHOLD < length d")
    case False
    have parent: "fs_lookup fs1 (butlast ?p) = Some Dir" by (simp add: fs1(2))
    have "fs_lookup fs1 ?p \<noteq> Some Dir" using at layout False by auto
    then obtain fs' where fs': "fs_write ?p d fs1 = (Inr (), fs')"
      "\<And>q. fs_lookup fs' q = (if q = ?p then Some (File d) else fs_lookup fs1 q)"
      using fs_write_ok [OF _ parent] by auto
    have "on_disk root fs' ?h d \<and> disk_ok blake3 root fs' \<and>
        (\<forall>h. length h = 32 \<longrightarrow> h \<noteq> ?h \<longrightarrow> same_blob root fs fs' h)"
      by (rule final) (use fs'(2) below False in \<open>auto simp: on_disk_def\<close>)
    then show ?thesis using fs1(1) fs'(1) False by (simp add: write_blob_bytes_def Let_def)
  next
    case True
    have nofile: "fs_lookup fs1 ?p \<noteq> Some (File e)" for e using at layout True by auto
    have "fs_lookup fs1 q \<noteq> Some (File e)" if "prefix q ?p" for q e
    proof -
      have "?p = butlast ?p @ [last ?p]" by simp
      then have "q = ?p \<or> prefix q (butlast ?p)" using that by (metis prefix_snoc_cases)
      then show ?thesis using nofile [of e] fs1(2) [of q] by auto
    qed
    then obtain fs2 where fs2: "fs_create_dir_all ?p fs1 = (Inr (), fs2)"
      "\<And>q. fs_lookup fs2 q = (if prefix q ?p then Some Dir else fs_lookup fs1 q)"
      using fs_create_dir_all_ok [of ?p fs1] by blast
    have d2: "fs_lookup fs2 ?p = Some Dir" "\<And>n. fs_lookup fs2 (?p @ [n]) \<noteq> Some Dir"
      using below by (auto simp: fs2(2) dest: prefix_length_le)
    obtain fs' where fs': "write_chunks ?p 0 (chunks CHUNK_SIZE d) fs2 = (Inr (), fs')"
      "\<And>i. i < length (chunks CHUNK_SIZE d) \<Longrightarrow>
         fs_lookup fs' (?p @ [chunk_name i]) = Some (File (chunks CHUNK_SIZE d ! i))"
      "\<And>q. (\<forall>i < length (chunks CHUNK_SIZE d). q \<noteq> ?p @ [chunk_name i]) \<Longrightarrow> fs_lookup fs' q = fs_lookup fs2 q"
      using write_chunks_ok [OF d2, of 0 "chunks CHUNK_SIZE d"] by auto
    have "on_disk root fs' ?h d \<and> disk_ok blake3 root fs' \<and>
        (\<forall>h. length h = 32 \<longrightarrow> h \<noteq> ?h \<longrightarrow> same_blob root fs fs' h)"
    proof (rule final)
      show "on_disk root fs' ?h d" using True fs'(2) fs'(3) [of ?p] d2(1) by (simp add: on_disk_def)
      show "fs_lookup fs' (?p @ [n]) \<noteq> Some Dir" for n
        using fs'(2) fs'(3) [of "?p @ [n]"] d2(2) [of n]
        by (cases "\<exists>i < length (chunks CHUNK_SIZE d). n = chunk_name i") auto
      show "fs_lookup fs' q = fs_lookup fs1 q" if "\<not> prefix ?p q" for q
      proof -
        have "fs_lookup fs' q = fs_lookup fs2 q" by (rule fs'(3)) (use that in auto)
        also have "\<dots> = fs_lookup fs1 q"
        proof (cases "prefix q ?p")
          case pq: True
          have "?p = butlast ?p @ [last ?p]" by simp
          then have "q = ?p \<or> prefix q (butlast ?p)" using pq by (metis prefix_snoc_cases)
          then show ?thesis using that pq by (auto simp: fs2(2) fs1(2))
        qed (simp add: fs2(2))
        finally show ?thesis .
      qed
    qed
    then show ?thesis using fs1(1) fs2(1) fs'(1) True by (simp add: write_blob_bytes_def Let_def)
  qed
qed

lemma remove_blob_ok:
  assumes ok: "disk_ok blake3 root fs" and len: "length h = 32"
  shows "\<exists>fs'. remove_blob_bytes root h fs = (Inr (), fs') \<and> disk_ok blake3 root fs' \<and>
    fs_lookup fs' (blob_path root h) = None \<and>
    (\<forall>h'. length h' = 32 \<longrightarrow> h' \<noteq> h \<longrightarrow> same_blob root fs fs' h')"
proof -
  let ?p = "blob_path root h"
  have final: "disk_ok blake3 root fs' \<and> fs_lookup fs' ?p = None \<and>
      (\<forall>h'. length h' = 32 \<longrightarrow> h' \<noteq> h \<longrightarrow> same_blob root fs fs' h')"
    if gone: "fs_lookup fs' ?p = None"
      and below: "\<And>n. fs_lookup fs' (?p @ [n]) \<noteq> Some Dir"
      and rest: "\<And>q. \<not> prefix ?p q \<Longrightarrow> fs_lookup fs' q = fs_lookup fs q" for fs'
  proof -
    have away: "\<not> prefix ?p (blob_path root h' @ r)" if "h' \<noteq> h" for h' r
    proof
      assume "prefix ?p (blob_path root h' @ r)"
      then obtain r' where "blob_path root h' @ r = ?p @ r'" by (auto simp: prefix_def)
      then show False using that by simp
    qed
    then have same: "same_blob root fs fs' h'" if "h' \<noteq> h" for h'
      using that rest by (simp add: same_blob_def)
    have "disk_ok blake3 root fs'"
      unfolding disk_ok_def
    proof (intro conjI allI impI)
      fix h' q e assume h': "length h' = 32" "prefix q (butlast (blob_path root h'))"
      then have "\<not> prefix ?p q" by (metis (no_types) append_Nil2 prefix_order.trans prefix_parent)
      then show "fs_lookup fs' q \<noteq> Some (File e)" using disk_okD(1) [OF ok h'] rest by simp
    next
      fix h' assume h': "length h' = 32" "fs_lookup fs' (blob_path root h') \<noteq> None"
      then have ne: "h' \<noteq> h" using gone by auto
      show "\<exists>d. blake3 d = h' \<and> (fs_lookup fs' (blob_path root h') = Some Dir \<longleftrightarrow> INLINE_THRESHOLD < length d)"
        using disk_okD(2) [OF ok h'(1)] h'(2) same_blob_lookup [OF same [OF ne]] by simp
    next
      fix h' n assume h': "length (h' :: bytes) = 32"
      show "fs_lookup fs' (blob_path root h' @ [n]) \<noteq> Some Dir"
        using below disk_okD(3) [OF ok h'] same unfolding same_blob_def by (cases "h' = h") auto
    qed
    then show ?thesis using gone same by blast
  qed
  have below: "fs_lookup fs (?p @ [n]) \<noteq> Some Dir" for n using disk_okD(3) [OF ok len] .
  show ?thesis
  proof (cases "fs_lookup fs ?p")
    case None
    then show ?thesis using final [of fs] below by (simp add: remove_blob_bytes_def fs_is_dir_def fs_exists_def Let_def)
  next
    case (Some n)
    show ?thesis
    proof (cases n)
      case Dir
      let ?fs = "filter (\<lambda>e. \<not> prefix ?p (fst e)) fs"
      have lk: "fs_lookup ?fs q = (if q \<noteq> [] \<and> prefix ?p q then None else fs_lookup fs q)" for q
        using fs_lookup_filter [of "\<lambda>q. \<not> prefix ?p q" fs q] by (auto simp: fs_lookup_def)
      have "disk_ok blake3 root ?fs \<and> fs_lookup ?fs ?p = None \<and>
          (\<forall>h'. length h' = 32 \<longrightarrow> h' \<noteq> h \<longrightarrow> same_blob root fs ?fs h')"
        by (rule final) (simp_all add: lk)
      then show ?thesis using Some Dir by (simp add: remove_blob_bytes_def fs_is_dir_def fs_remove_dir_all_def Let_def)
    next
      case (File d)
      let ?fs = "filter (\<lambda>e. fst e \<noteq> ?p) fs"
      have lk: "fs_lookup ?fs q = (if q = ?p then None else fs_lookup fs q)" for q
        using fs_lookup_filter [of "\<lambda>q. q \<noteq> ?p" fs q] by (auto simp: fs_lookup_def)
      have "disk_ok blake3 root ?fs \<and> fs_lookup ?fs ?p = None \<and>
          (\<forall>h'. length h' = 32 \<longrightarrow> h' \<noteq> h \<longrightarrow> same_blob root fs ?fs h')"
        by (rule final) (use below in \<open>auto simp: lk\<close>)
      then show ?thesis using Some File
        by (simp add: remove_blob_bytes_def fs_is_dir_def fs_exists_def fs_remove_file_def Let_def)
    qed
  qed
qed

lemma read_same_blob: "same_blob root fs fs' h \<Longrightarrow> read_blob_bytes root h c n fs' = read_blob_bytes root h c n fs"
  using same_blob_lookup [of root fs fs' h]
  by (simp add: read_blob_bytes_def read_chunks_def fs_read_def same_blob_def Let_def)

lemma blob_meta_roundtrip [simp]: "blob_meta_decode (blob_meta_encode m) = Some m"
  by (simp add: blob_meta_decode_def blob_meta_encode_def VALUE_SIZE_def nth_append)

section \<open>The store over a lawful engine\<close>

text \<open>
  The invariant of the store: every metadata entry is that of a content whose hash is the key,
  with its size and layout, and the bytes of that content are on disk.
\<close>

definition tracked :: "'ks blob_store \<Rightarrow> kv_view \<Rightarrow> bytes \<Rightarrow> blob_meta option" where
  "tracked bl v h =
     (case v PARTITION_META (as_bytes (hex_hash h)) of None \<Rightarrow> None | Some b \<Rightarrow> blob_meta_decode b)"

definition entry_ok :: "'ks blob_store \<Rightarrow> fs \<Rightarrow> bytes \<Rightarrow> blob_meta \<Rightarrow> bytes \<Rightarrow> bool" where
  "entry_ok bl fs h m d \<longleftrightarrow>
     bl_blake3 bl d = h \<and> length d < 2 ^ 64 \<and> bm_size m = word_of_nat (length d) \<and>
     bm_chunked m = (INLINE_THRESHOLD < length d) \<and> on_disk (bl_root bl) fs h d"

definition blob_inv :: "'ks blob_store \<Rightarrow> ('ks \<Rightarrow> kv_view) \<Rightarrow> 'ks blob_state \<Rightarrow> bool" where
  "blob_inv bl view s \<longleftrightarrow>
     disk_ok (bl_blake3 bl) (bl_root bl) (bs_fs s) \<and>
     (\<forall>k v. view (bs_ks s) PARTITION_META k = Some v \<longrightarrow>
        (\<exists>h m d. length h = 32 \<and> k = as_bytes (hex_hash h) \<and> v = blob_meta_encode m \<and>
           entry_ok bl (bs_fs s) h m d))"

locale blob_api = kv_engine "bl_kv bl" view
  for bl :: "'ks blob_store" and view :: "'ks \<Rightarrow> kv_view" +
  assumes hash_length: "length (bl_blake3 bl d) = 32"
begin

lemma meta_get_tracked: "meta_get (bl_kv bl) ks h = Inr (tracked bl (view ks) h)"
  by (simp add: meta_get_def get_view tracked_def)

lemma meta_persist_ok: "\<exists>ks'. meta_persist (bl_kv bl) ks = (Inr (), ks') \<and> view ks' = view ks"
  using persist_ok [of ks] persist_view [of ks]
  by (intro exI [of _ "snd (kv_persist (bl_kv bl) ks)"]) (simp add: meta_persist_def lift_err_def)

lemma insert_persist:
  "\<exists>ks'. bind_st (lift_err E (kv_insert (bl_kv bl) ks p k v)) (\<lambda>_ ks. meta_persist (bl_kv bl) ks) = (Inr (), ks') \<and>
     view ks' = (view ks)(p := (view ks p)(k \<mapsto> v))"
proof -
  obtain ks1 where ks1: "kv_insert (bl_kv bl) ks p k v = (Inr (), ks1)" "view ks1 = (view ks)(p := (view ks p)(k \<mapsto> v))"
    using insert_ok [of ks p k v] insert_view [of ks p k v] by (metis apply_op.simps(1) prod.collapse)
  then show ?thesis using meta_persist_ok [of ks1] by (simp add: lift_err_def)
qed

lemma meta_remove_ok:
  "\<exists>ks'. meta_remove (bl_kv bl) h ks = (Inr (), ks') \<and>
     view ks' = (view ks)(PARTITION_META := (view ks PARTITION_META)(as_bytes (hex_hash h) := None))"
proof -
  let ?k = "as_bytes (hex_hash h)"
  obtain ks1 where ks1: "kv_remove (bl_kv bl) ks PARTITION_META ?k = (Inr (), ks1)"
    "view ks1 = (view ks)(PARTITION_META := (view ks PARTITION_META)(?k := None))"
    using remove_ok [of ks PARTITION_META ?k] remove_view [of ks PARTITION_META ?k]
    by (metis apply_op.simps(2) prod.collapse)
  then show ?thesis using meta_persist_ok [of ks1] by (simp add: meta_remove_def lift_err_def)
qed

lemma inv_tracked:
  assumes "blob_inv bl view s" "tracked bl (view (bs_ks s)) h = Some m"
  shows "length h = 32" "view (bs_ks s) PARTITION_META (as_bytes (hex_hash h)) = Some (blob_meta_encode m)"
    "\<exists>d. entry_ok bl (bs_fs s) h m d"
proof -
  obtain v where v: "view (bs_ks s) PARTITION_META (as_bytes (hex_hash h)) = Some v" "blob_meta_decode v = Some m"
    using assms(2) by (auto simp: tracked_def split: option.splits)
  then obtain h' m' d where e: "length h' = 32" "as_bytes (hex_hash h) = as_bytes (hex_hash h')" "v = blob_meta_encode m'"
    "entry_ok bl (bs_fs s) h' m' d"
    using assms(1) unfolding blob_inv_def by blast
  then have "h' = h" "m' = m" using v by auto
  then show "length h = 32" "view (bs_ks s) PARTITION_META (as_bytes (hex_hash h)) = Some (blob_meta_encode m)"
    "\<exists>d. entry_ok bl (bs_fs s) h m d" using e v by auto
qed

lemma inv_disk: "blob_inv bl view s \<Longrightarrow> disk_ok (bl_blake3 bl) (bl_root bl) (bs_fs s)"
  by (simp add: blob_inv_def)

text \<open>How an update of one hash preserves the invariant.\<close>

lemma inv_update:
  assumes inv: "blob_inv bl view s" and disk: "disk_ok (bl_blake3 bl) (bl_root bl) (bs_fs s')" and len: "length h = 32"
    and v': "view (bs_ks s') PARTITION_META = (view (bs_ks s) PARTITION_META)(as_bytes (hex_hash h) := e)"
    and e: "\<And>v. e = Some v \<Longrightarrow> \<exists>m d. v = blob_meta_encode m \<and> entry_ok bl (bs_fs s') h m d"
    and same: "\<And>h'. length h' = 32 \<Longrightarrow> h' \<noteq> h \<Longrightarrow> same_blob (bl_root bl) (bs_fs s) (bs_fs s') h'"
  shows "blob_inv bl view s'"
  unfolding blob_inv_def
proof (intro conjI allI impI)
  show "disk_ok (bl_blake3 bl) (bl_root bl) (bs_fs s')" by (rule disk)
  fix k v assume "view (bs_ks s') PARTITION_META k = Some v"
  then have kv: "((view (bs_ks s) PARTITION_META)(as_bytes (hex_hash h) := e)) k = Some v" by (simp add: v')
  show "\<exists>h m d. length h = 32 \<and> k = as_bytes (hex_hash h) \<and> v = blob_meta_encode m \<and>
      entry_ok bl (bs_fs s') h m d"
  proof (cases "k = as_bytes (hex_hash h)")
    case True
    then show ?thesis using kv e len by auto
  next
    case False
    then obtain h' m d where o: "length h' = 32" "k = as_bytes (hex_hash h')" "v = blob_meta_encode m"
      "entry_ok bl (bs_fs s) h' m d"
      using kv inv unfolding blob_inv_def by (auto split: if_splits) blast
    then have "entry_ok bl (bs_fs s') h' m d"
      using same [of h'] False same_blob_on_disk [of "bl_root bl" "bs_fs s" "bs_fs s'" h' d] by (auto simp: entry_ok_def)
    then show ?thesis using o by auto
  qed
qed

lemma tracked_update:
  assumes "view ks' PARTITION_META = (view ks PARTITION_META)(as_bytes (hex_hash h) := e)"
  shows "tracked bl (view ks') h' =
    (if h' = h then (case e of None \<Rightarrow> None | Some b \<Rightarrow> blob_meta_decode b) else tracked bl (view ks) h')"
  using assms by (auto simp: tracked_def)

lemma get_stream_eq:
  assumes "blob_inv bl view s" "tracked bl (view (bs_ks s)) h = Some m" "entry_ok bl (bs_fs s) h m d"
  shows "get_stream bl s h = Inr d"
  using assms read_on_disk [of "bl_root bl" "bs_fs s" h d]
  by (simp add: get_stream_def meta_get_tracked entry_ok_def)

lemma update_ref_ok:
  assumes inv: "blob_inv bl view s" and m: "tracked bl (view (bs_ks s)) h = Some m"
  shows "\<exists>ks'. meta_update_ref w f (bl_kv bl) h (bs_ks s) = (Inr (), ks') \<and>
    view ks' PARTITION_META = (view (bs_ks s) PARTITION_META)
      (as_bytes (hex_hash h) \<mapsto> blob_meta_encode (m\<lparr>bm_refcount := f (bm_refcount m)\<rparr>)) \<and>
    blob_inv bl view (s\<lparr>bs_ks := ks'\<rparr>)"
proof -
  let ?k = "as_bytes (hex_hash h)" and ?m = "m\<lparr>bm_refcount := f (bm_refcount m)\<rparr>"
  obtain d where d: "entry_ok bl (bs_fs s) h m d" using inv_tracked(3) [OF inv m] by blast
  obtain ks' where ks': "bind_st (lift_err (\<lambda>e. Storage (w @ '' insert: '' @ e))
      (kv_insert (bl_kv bl) (bs_ks s) PARTITION_META ?k (blob_meta_encode ?m))) (\<lambda>_ ks. meta_persist (bl_kv bl) ks) = (Inr (), ks')"
    "view ks' = (view (bs_ks s))(PARTITION_META := (view (bs_ks s) PARTITION_META)(?k \<mapsto> blob_meta_encode ?m))"
    using insert_persist by blast
  have "meta_update_ref w f (bl_kv bl) h (bs_ks s) = (Inr (), ks')"
    using ks'(1) by (simp add: meta_update_ref_def get_view inv_tracked(2) [OF inv m] Let_def)
  moreover have "blob_inv bl view (s\<lparr>bs_ks := ks'\<rparr>)"
  proof (rule inv_update [OF inv _ inv_tracked(1) [OF inv m]])
    have "entry_ok bl (bs_fs s) h ?m d" using d by (simp add: entry_ok_def)
    then show "\<exists>m d. v = blob_meta_encode m \<and> entry_ok bl (bs_fs (s\<lparr>bs_ks := ks'\<rparr>)) h m d" if "Some (blob_meta_encode ?m) = Some v" for v
      using that by auto
  qed (use ks'(2) inv_disk [OF inv] in \<open>simp_all add: same_blob_def\<close>)
  ultimately show ?thesis using ks'(2) by simp
qed

lemma put_stream_spec:
  assumes inv: "blob_inv bl view s" and small: "length d < 2 ^ 64"
    and coll: "\<And>d'. bl_blake3 bl d' = bl_blake3 bl d \<Longrightarrow> d' = d"
  defines "h \<equiv> bl_blake3 bl d"
  shows "\<exists>s' m. put_stream bl (Inr d) s =
      (Inr (mk_outcome \<lparr>br_hash = h, br_size = word_of_nat (length d)\<rparr> d), s') \<and> blob_inv bl view s' \<and>
    tracked bl (view (bs_ks s')) h = Some m \<and> entry_ok bl (bs_fs s') h m d \<and>
    bm_refcount m = (case tracked bl (view (bs_ks s)) h of None \<Rightarrow> 1 | Some m0 \<Rightarrow> saturating_add_u64 (bm_refcount m0) 1) \<and>
    (\<forall>h'. length h' = 32 \<longrightarrow> h' \<noteq> h \<longrightarrow>
       tracked bl (view (bs_ks s')) h' = tracked bl (view (bs_ks s)) h' \<and>
       same_blob (bl_root bl) (bs_fs s) (bs_fs s') h')"
proof (cases "tracked bl (view (bs_ks s)) h")
  case (Some m0)
  let ?m = "m0\<lparr>bm_refcount := saturating_add_u64 (bm_refcount m0) 1\<rparr>"
  obtain ks' where ks': "meta_update_ref ''inc_ref'' (\<lambda>r. saturating_add_u64 r 1) (bl_kv bl) h (bs_ks s) = (Inr (), ks')"
    "view ks' PARTITION_META = (view (bs_ks s) PARTITION_META)(as_bytes (hex_hash h) \<mapsto> blob_meta_encode ?m)"
    "blob_inv bl view (s\<lparr>bs_ks := ks'\<rparr>)"
    using update_ref_ok [OF inv Some] by blast
  obtain d' where "entry_ok bl (bs_fs s) h m0 d'" using inv_tracked(3) [OF inv Some] by blast
  moreover have "d' = d" using calculation coll by (simp add: entry_ok_def h_def)
  ultimately have e: "entry_ok bl (bs_fs s) h m0 d" by simp
  have "put_stream bl (Inr d) s =
      (Inr (mk_outcome \<lparr>br_hash = h, br_size = word_of_nat (length d)\<rparr> d), s\<lparr>bs_ks := ks'\<rparr>)"
    using Some ks'(1) e
    by (simp add: put_stream_def hash_and_read_def meta_get_tracked h_def on_ks_def meta_inc_ref_def entry_ok_def Let_def)
  moreover have "entry_ok bl (bs_fs s) h ?m d" using e by (simp add: entry_ok_def)
  ultimately show ?thesis using ks'(3) tracked_update [OF ks'(2)] Some
    by (intro exI [of _ "s\<lparr>bs_ks := ks'\<rparr>"] exI [of _ ?m]) (simp add: same_blob_def)
next
  case None
  let ?m = "\<lparr>bm_refcount = 1, bm_size = word_of_nat (length d), bm_chunked = (INLINE_THRESHOLD < length d)\<rparr>"
  have len: "length h = 32" by (simp add: h_def hash_length)
  obtain fs' where fs': "write_blob_bytes (bl_root bl) h d (bs_fs s) = (Inr (INLINE_THRESHOLD < length d), fs')"
    "on_disk (bl_root bl) fs' h d" "disk_ok (bl_blake3 bl) (bl_root bl) fs'"
    "\<And>h'. length h' = 32 \<Longrightarrow> h' \<noteq> h \<Longrightarrow> same_blob (bl_root bl) (bs_fs s) fs' h'"
    using write_blob_ok [OF inv_disk [OF inv] hash_length coll] unfolding h_def by blast
  obtain ks' where ks': "meta_insert_new (bl_kv bl) h (word_of_nat (length d)) (INLINE_THRESHOLD < length d) (bs_ks s) = (Inr (), ks')"
    "view ks' = (view (bs_ks s))(PARTITION_META := (view (bs_ks s) PARTITION_META)(as_bytes (hex_hash h) \<mapsto> blob_meta_encode ?m))"
    using insert_persist unfolding meta_insert_new_def by blast
  have v': "view ks' PARTITION_META = (view (bs_ks s) PARTITION_META)(as_bytes (hex_hash h) \<mapsto> blob_meta_encode ?m)"
    by (simp add: ks'(2))
  have e: "entry_ok bl fs' h ?m d" using fs'(2) small by (simp add: entry_ok_def h_def)
  have "blob_inv bl view (s\<lparr>bs_fs := fs', bs_ks := ks'\<rparr>)"
  proof (rule inv_update [OF inv _ len])
    show "\<exists>m d. v = blob_meta_encode m \<and> entry_ok bl (bs_fs (s\<lparr>bs_fs := fs', bs_ks := ks'\<rparr>)) h m d"
      if "Some (blob_meta_encode ?m) = Some v" for v using that e by auto
  qed (use fs'(3,4) v' in simp_all)
  moreover have "put_stream bl (Inr d) s =
      (Inr (mk_outcome \<lparr>br_hash = h, br_size = word_of_nat (length d)\<rparr> d), s\<lparr>bs_fs := fs', bs_ks := ks'\<rparr>)"
    using None fs'(1) ks'(1)
    by (simp add: put_stream_def hash_and_read_def meta_get_tracked h_def on_ks_def on_fs_def Let_def)
  ultimately show ?thesis using e tracked_update [OF v'] None fs'(4)
    by (intro exI [of _ "s\<lparr>bs_fs := fs', bs_ks := ks'\<rparr>"] exI [of _ ?m]) simp
qed

text \<open>Listing the metadata, and removing what nothing refers to.\<close>

lemma meta_collect_eq:
  "(\<And>k v. (k, v) \<in> set es \<Longrightarrow> \<exists>h m. length h = 32 \<and> k = as_bytes (hex_hash h) \<and> v = blob_meta_encode m) \<Longrightarrow>
     meta_collect (map Inr es) =
       Inr (map (\<lambda>(k, v). (the (parse_hex_hash (bytes_to_string k)), the (blob_meta_decode v))) es)"
proof (induction es)
  case (Cons e es)
  have "\<exists>h m. length h = 32 \<and> fst e = as_bytes (hex_hash h) \<and> snd e = blob_meta_encode m"
    using Cons.prems [of "fst e" "snd e"] by simp
  then show ?case using Cons.IH Cons.prems by (cases e) force
qed simp

lemma iter_all_spec:
  assumes inv: "blob_inv bl view s"
  shows "\<exists>xs. meta_iter_all (bl_kv bl) (bs_ks s) = Inr xs \<and> distinct (map fst xs) \<and>
    set xs = {(h, m). tracked bl (view (bs_ks s)) h = Some m}"
proof -
  let ?v = "view (bs_ks s) PARTITION_META"
  define es where "es = entries ?v UNIV"
  define g where "g e = (the (parse_hex_hash (bytes_to_string (fst e))), the (blob_meta_decode (snd e)))" for e
  have es: "(k, v) \<in> set es \<longleftrightarrow> ?v k = Some v" for k v by (simp add: es_def set_entries finite_view)
  have own: "\<exists>h m. length h = 32 \<and> k = as_bytes (hex_hash h) \<and> v = blob_meta_encode m \<and> g (k, v) = (h, m) \<and>
      tracked bl (view (bs_ks s)) h = Some m" if kv: "(k, v) \<in> set es" for k v
  proof -
    obtain h m where "length h = 32" "k = as_bytes (hex_hash h)" "v = blob_meta_encode m"
      using kv es inv unfolding blob_inv_def by blast
    then show ?thesis using kv es by (intro exI [of _ h] exI [of _ m]) (simp add: g_def tracked_def)
  qed
  have "meta_iter_all (bl_kv bl) (bs_ks s) = Inr (map g es)"
  proof -
    have "meta_collect (map Inr es) = Inr (map (\<lambda>(k, v). (the (parse_hex_hash (bytes_to_string k)), the (blob_meta_decode v))) es)"
      by (rule meta_collect_eq) (use own in blast)
    also have "map (\<lambda>(k, v). (the (parse_hex_hash (bytes_to_string k)), the (blob_meta_decode v))) es = map g es"
      by (simp add: g_def split_def)
    finally show ?thesis by (simp add: meta_iter_all_def iter_view es_def)
  qed
  moreover have "distinct (map fst (map g es))"
  proof -
    have "inj_on (fst \<circ> g) (set es)"
    proof (rule inj_onI)
      fix a b assume ab: "a \<in> set es" "b \<in> set es" "(fst \<circ> g) a = (fst \<circ> g) b"
      then have "fst a = fst b" using own [of "fst a" "snd a"] own [of "fst b" "snd b"] by auto
      then show "a = b" using ab(1,2) es by (metis option.inject prod.collapse)
    qed
    moreover have "distinct es" using distinct_entries [of ?v UNIV] unfolding es_def distinct_map by blast
    ultimately show ?thesis by (simp add: distinct_map)
  qed
  moreover have "(h, m) \<in> set (map g es) \<longleftrightarrow> tracked bl (view (bs_ks s)) h = Some m" for h m
  proof
    assume "(h, m) \<in> set (map g es)"
    then show "tracked bl (view (bs_ks s)) h = Some m" using own by force
  next
    assume t: "tracked bl (view (bs_ks s)) h = Some m"
    then have "(as_bytes (hex_hash h), blob_meta_encode m) \<in> set es" using inv_tracked(2) [OF inv] es by blast
    moreover have "g (as_bytes (hex_hash h), blob_meta_encode m) = (h, m)"
      using inv_tracked(1) [OF inv t] by (simp add: g_def)
    ultimately show "(h, m) \<in> set (map g es)" by force
  qed
  ultimately show ?thesis by (intro exI [of _ "map g es"]) auto
qed

lemma gc_loop_spec:
  assumes "blob_inv bl view s" "distinct hs" "\<And>h. h \<in> set hs \<Longrightarrow> length h = 32"
  shows "\<exists>s'. gc_loop bl hs s = (Inr (), s') \<and> blob_inv bl view s' \<and>
    (\<forall>h. tracked bl (view (bs_ks s')) h = (if h \<in> set hs then None else tracked bl (view (bs_ks s)) h)) \<and>
    (\<forall>h\<in>set hs. \<not> blob_exists_on_disk (bl_root bl) h (bs_fs s')) \<and>
    (\<forall>h. length h = 32 \<longrightarrow> h \<notin> set hs \<longrightarrow> same_blob (bl_root bl) (bs_fs s) (bs_fs s') h)"
  using assms
proof (induction hs arbitrary: s)
  case Nil
  then show ?case by (simp add: same_blob_def)
next
  case (Cons h hs)
  have len: "length h = 32" using Cons.prems(3) by simp
  obtain fs1 where fs1: "remove_blob_bytes (bl_root bl) h (bs_fs s) = (Inr (), fs1)"
    "disk_ok (bl_blake3 bl) (bl_root bl) fs1" "fs_lookup fs1 (blob_path (bl_root bl) h) = None"
    "\<And>h'. length h' = 32 \<Longrightarrow> h' \<noteq> h \<Longrightarrow> same_blob (bl_root bl) (bs_fs s) fs1 h'"
    using remove_blob_ok [OF inv_disk [OF Cons.prems(1)] len] by blast
  obtain ks1 where ks1: "meta_remove (bl_kv bl) h (bs_ks s) = (Inr (), ks1)"
    "view ks1 PARTITION_META = (view (bs_ks s) PARTITION_META)(as_bytes (hex_hash h) := None)"
    using meta_remove_ok [of h "bs_ks s"] by auto
  define s1 where "s1 = s\<lparr>bs_fs := fs1, bs_ks := ks1\<rparr>"
  have inv1: "blob_inv bl view s1"
    by (rule inv_update [OF Cons.prems(1) _ len, where e = None]) (use fs1 ks1 in \<open>simp_all add: s1_def\<close>)
  obtain s' where s': "gc_loop bl hs s1 = (Inr (), s')" "blob_inv bl view s'"
    "\<And>h. tracked bl (view (bs_ks s')) h = (if h \<in> set hs then None else tracked bl (view (bs_ks s1)) h)"
    "\<forall>h\<in>set hs. \<not> blob_exists_on_disk (bl_root bl) h (bs_fs s')"
    "\<And>h. length h = 32 \<Longrightarrow> h \<notin> set hs \<Longrightarrow> same_blob (bl_root bl) (bs_fs s1) (bs_fs s') h"
    using Cons.IH [OF inv1] Cons.prems by auto
  have t1: "tracked bl (view (bs_ks s1)) h' = (if h' = h then None else tracked bl (view (bs_ks s)) h')" for h'
    using tracked_update [OF ks1(2)] by (simp add: s1_def)
  have gone: "\<not> blob_exists_on_disk (bl_root bl) h (bs_fs s')"
    using same_blob_lookup [OF s'(5) [OF len]] Cons.prems(2) fs1(3)
    by (simp add: blob_exists_on_disk_def fs_exists_def s1_def)
  have same: "same_blob (bl_root bl) (bs_fs s) (bs_fs s') h'" if "length h' = 32" "h' \<notin> set (h # hs)" for h'
    using s'(5) [of h'] fs1(4) [of h'] that by (simp add: same_blob_def s1_def)
  have "gc_loop bl (h # hs) s = (Inr (), s')"
    using fs1(1) ks1(1) s'(1) by (simp add: on_fs_def on_ks_def s1_def)
  then show ?case using s'(2,3,4) t1 gone same by (intro exI [of _ s']) auto
qed

lemma gc_spec:
  assumes inv: "blob_inv bl view s"
  shows "\<exists>s' n. gc bl s = (Inr n, s') \<and> blob_inv bl view s' \<and>
    n = card {h. \<exists>m. tracked bl (view (bs_ks s)) h = Some m \<and> bm_refcount m = 0} \<and>
    (\<forall>h. case tracked bl (view (bs_ks s)) h of
       None \<Rightarrow> tracked bl (view (bs_ks s')) h = None
     | Some m \<Rightarrow>
         if bm_refcount m = 0
         then tracked bl (view (bs_ks s')) h = None \<and> \<not> blob_exists_on_disk (bl_root bl) h (bs_fs s')
         else tracked bl (view (bs_ks s')) h = Some m \<and> same_blob (bl_root bl) (bs_fs s) (bs_fs s') h)"
proof -
  obtain xs where xs: "meta_iter_all (bl_kv bl) (bs_ks s) = Inr xs" "distinct (map fst xs)"
    "set xs = {(h, m). tracked bl (view (bs_ks s)) h = Some m}"
    using iter_all_spec [OF inv] by blast
  define hs where "hs = map fst (filter (\<lambda>(_, m). bm_refcount m = 0) xs)"
  have set_hs: "set hs = {h. \<exists>m. tracked bl (view (bs_ks s)) h = Some m \<and> bm_refcount m = 0}"
    using xs(3) by (force simp: hs_def)
  have dist: "distinct hs" unfolding hs_def using xs(2) by (rule distinct_map_filter)
  have len: "length h = 32" if "h \<in> set hs" for h using that set_hs inv_tracked(1) [OF inv] by blast
  obtain s' where s': "gc_loop bl hs s = (Inr (), s')" "blob_inv bl view s'"
    "\<And>h. tracked bl (view (bs_ks s')) h = (if h \<in> set hs then None else tracked bl (view (bs_ks s)) h)"
    "\<And>h. h \<in> set hs \<Longrightarrow> \<not> blob_exists_on_disk (bl_root bl) h (bs_fs s')"
    "\<And>h. length h = 32 \<Longrightarrow> h \<notin> set hs \<Longrightarrow> same_blob (bl_root bl) (bs_fs s) (bs_fs s') h"
    using gc_loop_spec [OF inv dist len] by blast
  have "gc bl s = (Inr (length hs), s')" using xs(1) s'(1) by (simp add: gc_def hs_def Let_def)
  moreover have "length hs = card (set hs)" using dist by (simp add: distinct_card)
  moreover have "case tracked bl (view (bs_ks s)) h of
       None \<Rightarrow> tracked bl (view (bs_ks s')) h = None
     | Some m \<Rightarrow>
         if bm_refcount m = 0
         then tracked bl (view (bs_ks s')) h = None \<and> \<not> blob_exists_on_disk (bl_root bl) h (bs_fs s')
         else tracked bl (view (bs_ks s')) h = Some m \<and> same_blob (bl_root bl) (bs_fs s) (bs_fs s') h" for h
  proof (cases "tracked bl (view (bs_ks s)) h")
    case None
    then show ?thesis using s'(3) by simp
  next
    case (Some m)
    then show ?thesis using s'(3) [of h] s'(4) [of h] s'(5) [of h] inv_tracked(1) [OF inv Some] set_hs by auto
  qed
  ultimately show ?thesis using s'(2) set_hs by (intro exI [of _ s'] exI [of _ "length hs"]) simp
qed

text \<open>Crash recovery: orphans go, tracked blobs stay.\<close>

lemma repair_loop_spec:
  assumes "blob_inv bl view s" "\<And>h. h \<in> set hs \<Longrightarrow> length h = 32"
    "\<And>h. h \<in> T \<longleftrightarrow> tracked bl (view (bs_ks s)) h \<noteq> None"
  shows "blob_inv bl view (repair_loop bl True T hs s) \<and> bs_ks (repair_loop bl True T hs s) = bs_ks s \<and>
    (\<forall>h. length h = 32 \<longrightarrow>
       (if h \<in> set hs \<and> h \<notin> T then \<not> blob_exists_on_disk (bl_root bl) h (bs_fs (repair_loop bl True T hs s))
        else same_blob (bl_root bl) (bs_fs s) (bs_fs (repair_loop bl True T hs s)) h))"
  using assms
proof (induction hs arbitrary: s)
  case Nil
  then show ?case by (simp add: same_blob_def)
next
  case (Cons h hs)
  have len: "length h = 32" using Cons.prems(2) by simp
  show ?case
  proof (cases "h \<in> T")
    case True
    then show ?thesis using Cons.IH [OF Cons.prems(1) _ Cons.prems(3)] Cons.prems(2) by auto
  next
    case False
    obtain fs1 where fs1: "remove_blob_bytes (bl_root bl) h (bs_fs s) = (Inr (), fs1)"
      "disk_ok (bl_blake3 bl) (bl_root bl) fs1" "fs_lookup fs1 (blob_path (bl_root bl) h) = None"
      "\<And>h'. length h' = 32 \<Longrightarrow> h' \<noteq> h \<Longrightarrow> same_blob (bl_root bl) (bs_fs s) fs1 h'"
      using remove_blob_ok [OF inv_disk [OF Cons.prems(1)] len] by blast
    define s1 where "s1 = s\<lparr>bs_fs := fs1\<rparr>"
    have none: "view (bs_ks s) PARTITION_META (as_bytes (hex_hash h)) = None"
    proof (rule ccontr)
      assume "view (bs_ks s) PARTITION_META (as_bytes (hex_hash h)) \<noteq> None"
      then obtain v where v: "view (bs_ks s) PARTITION_META (as_bytes (hex_hash h)) = Some v" by blast
      then obtain m where "v = blob_meta_encode m" using Cons.prems(1) unfolding blob_inv_def by blast
      then show False using v False Cons.prems(3) by (simp add: tracked_def)
    qed
    have inv1: "blob_inv bl view s1"
      by (rule inv_update [OF Cons.prems(1) _ len, where e = None]) (use fs1 none in \<open>auto simp: s1_def fun_upd_idem\<close>)
    have IH: "blob_inv bl view (repair_loop bl True T hs s1) \<and> bs_ks (repair_loop bl True T hs s1) = bs_ks s1 \<and>
      (\<forall>h. length h = 32 \<longrightarrow>
       (if h \<in> set hs \<and> h \<notin> T then \<not> blob_exists_on_disk (bl_root bl) h (bs_fs (repair_loop bl True T hs s1))
        else same_blob (bl_root bl) (bs_fs s1) (bs_fs (repair_loop bl True T hs s1)) h))"
      by (rule Cons.IH [OF inv1]) (use Cons.prems(2,3) in \<open>auto simp: s1_def\<close>)
    have step: "repair_loop bl True T (h # hs) s = repair_loop bl True T hs s1"
      using False fs1(1) by (simp add: on_fs_def s1_def)
    have each: "if h' \<in> set (h # hs) \<and> h' \<notin> T then \<not> blob_exists_on_disk (bl_root bl) h' (bs_fs (repair_loop bl True T hs s1))
        else same_blob (bl_root bl) (bs_fs s) (bs_fs (repair_loop bl True T hs s1)) h'" if l: "length h' = 32" for h'
    proof (cases "h' \<in> set hs \<and> h' \<notin> T")
      case True
      then show ?thesis using IH l by auto
    next
      case out: False
      then have same: "same_blob (bl_root bl) fs1 (bs_fs (repair_loop bl True T hs s1)) h'"
        using IH l by (auto simp: s1_def)
      show ?thesis
      proof (cases "h' = h")
        case True
        then show ?thesis using same_blob_lookup [OF same] fs1(3) False
          by (simp add: blob_exists_on_disk_def fs_exists_def)
      next
        case ne: False
        then show ?thesis using same fs1(4) [OF l ne] out by (auto simp: same_blob_def)
      qed
    qed
    have "bs_ks s1 = bs_ks s" by (simp add: s1_def)
    then show ?thesis unfolding step using IH by (intro conjI allI impI each) simp_all
  qed
qed

lemma read_dir_names:
  "fs_read_dir fs p = Inr names \<Longrightarrow> n \<in> set names \<longleftrightarrow> fs_lookup fs (p @ [n]) \<noteq> None"
proof -
  assume "fs_read_dir fs p = Inr names"
  then have "names = remdups (map (last \<circ> fst) (filter (\<lambda>e. fst e \<noteq> [] \<and> butlast (fst e) = p) fs))"
    by (simp add: fs_read_dir_def split: if_splits)
  then have "set names = (last \<circ> fst) ` {e \<in> set fs. fst e \<noteq> [] \<and> butlast (fst e) = p}"
    by (simp only: set_remdups set_map set_filter)
  moreover have "k \<noteq> [] \<and> butlast k = p \<and> last k = n \<longleftrightarrow> k = p @ [n]" for k
    by (metis append_butlast_last_id butlast_snoc last_snoc snoc_eq_iff_butlast)
  ultimately have "n \<in> set names \<longleftrightarrow> p @ [n] \<in> fst ` set fs" by (force simp: image_iff)
  then show ?thesis by (simp add: fs_lookup_def map_of_eq_None_iff)
qed

lemma parse_hex_length: "parse_hex_hash n = Some h \<Longrightarrow> length h = 32"
proof -
  have "parse_hex_pairs cs = Some h \<Longrightarrow> length h = length cs div 2" for cs h
    by (induction cs arbitrary: h rule: parse_hex_pairs.induct) (auto split: option.splits)
  then show "parse_hex_hash n = Some h \<Longrightarrow> length h = 32"
    by (fastforce simp: parse_hex_hash_def split: if_splits)
qed

lemma list_split_dirs_spec:
  "\<exists>hs. list_split_dirs b ds fs = Inr hs \<and>
     (\<forall>h. h \<in> set hs \<longleftrightarrow> (\<exists>d\<in>set ds. \<exists>n. fs_lookup fs (b @ [d]) = Some Dir \<and> fs_lookup fs (b @ [d, n]) \<noteq> None \<and>
        utf8_valid (as_bytes n) \<and> parse_hex_hash n = Some h))"
proof (induction ds)
  case Nil
  then show ?case by simp
next
  case (Cons d ds)
  then obtain hs where hs: "list_split_dirs b ds fs = Inr hs"
    "\<And>h. h \<in> set hs \<longleftrightarrow> (\<exists>d\<in>set ds. \<exists>n. fs_lookup fs (b @ [d]) = Some Dir \<and> fs_lookup fs (b @ [d, n]) \<noteq> None \<and>
        utf8_valid (as_bytes n) \<and> parse_hex_hash n = Some h)" by blast
  show ?case
  proof (cases "fs_is_dir fs (b @ [d])")
    case False
    then show ?thesis using hs by (simp add: fs_is_dir_def)
  next
    case True
    then obtain names where names: "fs_read_dir fs (b @ [d]) = Inr names"
      by (simp add: fs_read_dir_def fs_is_dir_def)
    let ?f = "\<lambda>name. if utf8_valid (as_bytes name) then parse_hex_hash name else None"
    have "h \<in> set (List.map_filter ?f names) \<longleftrightarrow>
        (\<exists>n. fs_lookup fs (b @ [d, n]) \<noteq> None \<and> utf8_valid (as_bytes n) \<and> parse_hex_hash n = Some h)" for h
      using read_dir_names [OF names] by (auto simp: in_set_map_filter split: if_splits)
    then show ?thesis using True hs names by (auto simp: fs_is_dir_def)
  qed
qed

lemma reconcile_spec:
  assumes inv: "blob_inv bl view s"
    and tree: "\<And>q. q \<noteq> [] \<Longrightarrow> fs_lookup (bs_fs s) q \<noteq> None \<Longrightarrow> fs_lookup (bs_fs s) (butlast q) = Some Dir"
    and layout: "fs_lookup (bs_fs s) (bl_root bl @ [''blobs'']) = Some Dir"
  shows "\<exists>s'. reconcile_on_open bl True s = (Inr (), s') \<and> blob_inv bl view s' \<and> bs_ks s' = bs_ks s \<and>
    (\<forall>h. length h = 32 \<longrightarrow>
       (if tracked bl (view (bs_ks s)) h = None then \<not> blob_exists_on_disk (bl_root bl) h (bs_fs s')
        else same_blob (bl_root bl) (bs_fs s) (bs_fs s') h))"
proof -
  let ?b = "bl_root bl @ [''blobs'']" and ?fs = "bs_fs s"
  obtain ds where ds: "fs_read_dir ?fs ?b = Inr ds" using layout by (simp add: fs_read_dir_def)
  obtain hs where hs: "list_split_dirs ?b ds ?fs = Inr hs"
    "\<And>h. h \<in> set hs \<longleftrightarrow> (\<exists>d\<in>set ds. \<exists>n. fs_lookup ?fs (?b @ [d]) = Some Dir \<and> fs_lookup ?fs (?b @ [d, n]) \<noteq> None \<and>
        utf8_valid (as_bytes n) \<and> parse_hex_hash n = Some h)"
    using list_split_dirs_spec [of ?b ds ?fs] by blast
  have listed: "list_all_blobs_on_disk (bl_root bl) ?fs = Inr hs"
    using layout ds hs(1) by (simp add: list_all_blobs_on_disk_def fs_exists_def Let_def)
  have len: "length h = 32" if "h \<in> set hs" for h using that hs(2) parse_hex_length by blast
  have found: "h \<in> set hs" if h: "length h = 32" "blob_exists_on_disk (bl_root bl) h ?fs" for h
  proof -
    let ?d = "take 2 (hex_hash h)"
    have p: "blob_path (bl_root bl) h = ?b @ [?d, hex_hash h]" by (simp add: blob_path_def)
    have ex: "fs_lookup ?fs (?b @ [?d, hex_hash h]) \<noteq> None"
      using h(2) unfolding blob_exists_on_disk_def fs_exists_def p .
    then have dir: "fs_lookup ?fs (?b @ [?d]) = Some Dir" using tree [of "?b @ [?d, hex_hash h]"] by (simp add: butlast_append)
    then have "?d \<in> set ds" using read_dir_names [OF ds] by simp
    then show ?thesis using hs(2) ex dir h(1) by fastforce
  qed
  obtain xs where xs: "meta_iter_all (bl_kv bl) (bs_ks s) = Inr xs"
    "set xs = {(h, m). tracked bl (view (bs_ks s)) h = Some m}" using iter_all_spec [OF inv] by blast
  have T: "h \<in> set (map fst xs) \<longleftrightarrow> tracked bl (view (bs_ks s)) h \<noteq> None" for h using xs(2) by force
  let ?s = "repair_loop bl True (set (map fst xs)) hs s"
  have spec: "blob_inv bl view ?s \<and> bs_ks ?s = bs_ks s \<and>
    (\<forall>h. length h = 32 \<longrightarrow>
       (if h \<in> set hs \<and> h \<notin> set (map fst xs) then \<not> blob_exists_on_disk (bl_root bl) h (bs_fs ?s)
        else same_blob (bl_root bl) (bs_fs s) (bs_fs ?s) h))"
    by (rule repair_loop_spec [OF inv len T])
  have each: "if tracked bl (view (bs_ks s)) h = None then \<not> blob_exists_on_disk (bl_root bl) h (bs_fs ?s)
        else same_blob (bl_root bl) (bs_fs s) (bs_fs ?s) h" if l: "length h = 32" for h
  proof (cases "h \<in> set hs")
    case True
    then show ?thesis using spec l T by auto
  next
    case False
    then have same: "same_blob (bl_root bl) (bs_fs s) (bs_fs ?s) h" using spec l by auto
    moreover have "\<not> blob_exists_on_disk (bl_root bl) h ?fs" using found [OF l] False by blast
    ultimately show ?thesis using same_blob_lookup [OF same] by (simp add: blob_exists_on_disk_def fs_exists_def)
  qed
  have "reconcile_on_open bl True s = (Inr (), ?s)" using listed xs(1) by (simp add: reconcile_on_open_def)
  then show ?thesis using spec by (intro exI [of _ ?s] conjI allI impI each) simp_all
qed

lemma refcount_tracked: "refcount bl s h = Inr (map_option bm_refcount (tracked bl (view (bs_ks s)) h))"
  by (simp add: refcount_def meta_get_tracked)

lemma get_stream_same:
  assumes "tracked bl (view (bs_ks s')) h = tracked bl (view (bs_ks s)) h" "same_blob (bl_root bl) (bs_fs s) (bs_fs s') h"
  shows "get_stream bl s' h = get_stream bl s h"
  using assms read_same_blob [OF assms(2)]
  by (simp add: get_stream_def meta_get_tracked cong: option.case_cong)

end

section \<open>Properties\<close>

text \<open>
  Sample data for the witnesses: an empty store in memory, a hash of two values that tells the
  sample bytes from all others, the store that holds these bytes, the same store after their last
  reference is dropped, and after a crash that lost their metadata.
\<close>

definition sample_hash :: "bytes \<Rightarrow> bytes" where
  "sample_hash d = (if d = [1, 2, 3] then replicate 32 0 else replicate 32 1)"

definition sample_blobs :: "mem blob_store" where
  "sample_blobs = \<lparr>bl_root = [], bl_kv = mem_kv, bl_blake3 = sample_hash\<rparr>"

definition sample_blob_state :: "mem blob_state" where
  "sample_blob_state = \<lparr>bs_fs = [([''blobs''], Dir)], bs_ks = mem_empty\<rparr>"

lemma sample_blobs_engine: "kv_engine (bl_kv sample_blobs) mem_view"
  by (simp add: sample_blobs_def mem.kv_engine_axioms)

lemma sample_hash_length: "length (bl_blake3 sample_blobs d) = 32"
  by (simp add: sample_blobs_def sample_hash_def)

lemma sample_hash_bytes [simp]: "bl_blake3 sample_blobs [1, 2, 3] = replicate 32 0"
  by (simp add: sample_blobs_def sample_hash_def)

lemma sample_hash_inj: "\<forall>d'. bl_blake3 sample_blobs d' = bl_blake3 sample_blobs [1, 2, 3] \<longrightarrow> d' = [1, 2, 3]"
  by (auto simp: sample_blobs_def sample_hash_def)

lemma sample_blob_lookup:
  "fs_lookup (bs_fs sample_blob_state) q = (if q = [] \<or> q = [''blobs''] then Some Dir else None)"
  by (simp add: sample_blob_state_def fs_lookup_def)

lemma sample_blob_inv: "blob_inv sample_blobs mem_view sample_blob_state"
proof -
  have "disk_ok (bl_blake3 sample_blobs) (bl_root sample_blobs) (bs_fs sample_blob_state)"
    unfolding disk_ok_def sample_blob_lookup by (auto simp: blob_path_def)
  then show ?thesis by (simp add: blob_inv_def sample_blob_state_def mem_view_def mem_empty_def)
qed

interpretation sample_blob: blob_api sample_blobs mem_view
  by (intro blob_api.intro blob_api_axioms.intro sample_blobs_engine sample_hash_length)

lemma sample_untracked: "refcount sample_blobs sample_blob_state h = Inr None"
  by (simp add: sample_blob.refcount_tracked tracked_def sample_blob_state_def mem_view_def mem_empty_def)

definition sample_stored :: "mem blob_state" where
  "sample_stored = snd (put_stream sample_blobs (Inr [1, 2, 3]) sample_blob_state)"

definition sample_dropped :: "mem blob_state" where
  "sample_dropped = snd (blob_dec_ref sample_blobs (replicate 32 0) sample_stored)"

lemma sample_stored:
  shows "blob_inv sample_blobs mem_view sample_stored"
    and "\<exists>m. tracked sample_blobs (mem_view (bs_ks sample_stored)) (replicate 32 0) = Some m \<and> bm_refcount m = 1"
    and "length h = 32 \<Longrightarrow> h \<noteq> replicate 32 0 \<Longrightarrow> tracked sample_blobs (mem_view (bs_ks sample_stored)) h = None"
proof -
  have none: "tracked sample_blobs (mem_view (bs_ks sample_blob_state)) h = None" for h
    using sample_untracked [of h] by (simp add: sample_blob.refcount_tracked)
  have "length ([1, 2, 3] :: bytes) < 2 ^ 64" by simp
  from sample_blob.put_stream_spec [OF sample_blob_inv this sample_hash_inj [rule_format]]
  show "blob_inv sample_blobs mem_view sample_stored"
    "\<exists>m. tracked sample_blobs (mem_view (bs_ks sample_stored)) (replicate 32 0) = Some m \<and> bm_refcount m = 1"
    "length h = 32 \<Longrightarrow> h \<noteq> replicate 32 0 \<Longrightarrow> tracked sample_blobs (mem_view (bs_ks sample_stored)) h = None"
    by (auto simp: sample_stored_def none)
qed

lemma sample_dropped:
  shows "blob_inv sample_blobs mem_view sample_dropped"
    and "refcount sample_blobs sample_dropped (replicate 32 0) = Inr (Some 0)"
    and "refcount sample_blobs sample_dropped h = Inr (Some 0) \<Longrightarrow> h = replicate 32 0"
proof -
  obtain m where m: "tracked sample_blobs (mem_view (bs_ks sample_stored)) (replicate 32 0) = Some m" "bm_refcount m = 1"
    using sample_stored(2) by blast
  obtain ks' where ks': "meta_update_ref ''dec_ref'' (\<lambda>r. saturating_sub_u64 r 1) (bl_kv sample_blobs) (replicate 32 0) (bs_ks sample_stored) = (Inr (), ks')"
    "mem_view ks' PARTITION_META = (mem_view (bs_ks sample_stored) PARTITION_META)
       (as_bytes (hex_hash (replicate 32 0)) \<mapsto> blob_meta_encode (m\<lparr>bm_refcount := saturating_sub_u64 (bm_refcount m) 1\<rparr>))"
    "blob_inv sample_blobs mem_view (sample_stored\<lparr>bs_ks := ks'\<rparr>)"
    using sample_blob.update_ref_ok [OF sample_stored(1) m(1)] by blast
  have eq: "sample_dropped = sample_stored\<lparr>bs_ks := ks'\<rparr>"
    by (simp add: sample_dropped_def blob_dec_ref_def meta_dec_ref_def on_ks_def ks'(1))
  show inv: "blob_inv sample_blobs mem_view sample_dropped" unfolding eq by (rule ks'(3))
  show "refcount sample_blobs sample_dropped (replicate 32 0) = Inr (Some 0)"
    by (simp add: eq sample_blob.refcount_tracked tracked_def ks'(2) m(2) saturating_sub_u64_def)
  assume h: "refcount sample_blobs sample_dropped h = Inr (Some 0)"
  then obtain m' where "tracked sample_blobs (mem_view (bs_ks sample_dropped)) h = Some m'"
    by (auto simp: sample_blob.refcount_tracked)
  from sample_blob.inv_tracked(1) [OF inv this] this show "h = replicate 32 0"
    using sample_stored(3) [of h] by (fastforce simp: eq tracked_def ks'(2) split: if_splits)
qed

definition sample_crashed :: "mem blob_state" where
  "sample_crashed = \<lparr>bs_fs = [(blob_path [] (replicate 32 0), File [1, 2, 3]),
     (butlast (blob_path [] (replicate 32 0)), Dir), ([''blobs''], Dir)], bs_ks = mem_empty\<rparr>"

lemma sample_crashed_lookup:
  "fs_lookup (bs_fs sample_crashed) q =
     (if q = blob_path [] (replicate 32 0) then Some (File [1, 2, 3])
      else if q = [] \<or> q = [''blobs''] \<or> q = butlast (blob_path [] (replicate 32 0)) then Some Dir else None)"
  by (auto simp: sample_crashed_def fs_lookup_def blob_path_def)

lemma sample_crashed_inv: "blob_inv sample_blobs mem_view sample_crashed"
proof -
  have short: "q \<noteq> blob_path [] (replicate 32 0)" if "prefix q (butlast (blob_path [] h))" for q h
    using prefix_length_le [OF that] by (auto simp: blob_path_def)
  have "disk_ok (bl_blake3 sample_blobs) [] (bs_fs sample_crashed)"
    unfolding disk_ok_def sample_crashed_lookup
  proof (intro conjI allI impI, goal_cases)
    case (1 h q d) then show ?case using short by auto
  next
    case (2 h)
    then have "h = replicate 32 0" by (auto split: if_splits simp: blob_path_def)
    then show ?case by (intro exI [of _ "[1, 2, 3]"]) (simp add: INLINE_THRESHOLD_def)
  next
    case (3 h n) then show ?case by (auto simp: blob_path_def)
  qed
  then show ?thesis by (simp add: blob_inv_def sample_crashed_def sample_blobs_def mem_view_def mem_empty_def)
qed

text \<open>
  C18. Storing bytes makes them readable under their hash: the store answers with the hash and size
  of the bytes, a later read returns exactly the bytes whether they lie in one file or in chunks,
  the reference count is one more than before, and no other blob is affected. The bytes must not
  collide with others under the hash function.
\<close>

theorem blob_put_get:
  assumes "kv_engine (bl_kv bl) view" and "\<forall>x. length (bl_blake3 bl x) = 32" and "blob_inv bl view s"
    and "length d < 2 ^ 64" and "\<forall>d'. bl_blake3 bl d' = bl_blake3 bl d \<longrightarrow> d' = d"
  shows "\<exists>s'. put_stream bl (Inr d) s =
      (Inr (mk_outcome \<lparr>br_hash = bl_blake3 bl d, br_size = word_of_nat (length d)\<rparr> d), s') \<and>
    blob_inv bl view s' \<and> get_stream bl s' (bl_blake3 bl d) = Inr d \<and>
    refcount bl s' (bl_blake3 bl d) = Inr (Some (case refcount bl s (bl_blake3 bl d) of
       Inr (Some r) \<Rightarrow> saturating_add_u64 r 1 | _ \<Rightarrow> 1)) \<and>
    (\<forall>h. length h = 32 \<longrightarrow> h \<noteq> bl_blake3 bl d \<longrightarrow>
       get_stream bl s' h = get_stream bl s h \<and> refcount bl s' h = refcount bl s h)"
proof -
  have B: "blob_api bl view" using assms(1,2) by (intro blob_api.intro blob_api_axioms.intro) auto
  have coll: "\<And>d'. bl_blake3 bl d' = bl_blake3 bl d \<Longrightarrow> d' = d" using assms(5) by blast
  obtain s' m where s': "put_stream bl (Inr d) s =
      (Inr (mk_outcome \<lparr>br_hash = bl_blake3 bl d, br_size = word_of_nat (length d)\<rparr> d), s')" "blob_inv bl view s'"
    "tracked bl (view (bs_ks s')) (bl_blake3 bl d) = Some m" "entry_ok bl (bs_fs s') (bl_blake3 bl d) m d"
    "bm_refcount m = (case tracked bl (view (bs_ks s)) (bl_blake3 bl d) of
       None \<Rightarrow> 1 | Some m0 \<Rightarrow> saturating_add_u64 (bm_refcount m0) 1)"
    "\<And>h. length h = 32 \<Longrightarrow> h \<noteq> bl_blake3 bl d \<Longrightarrow>
       tracked bl (view (bs_ks s')) h = tracked bl (view (bs_ks s)) h \<and> same_blob (bl_root bl) (bs_fs s) (bs_fs s') h"
    using blob_api.put_stream_spec [OF B assms(3,4) coll] by blast
  note facts = blob_api.refcount_tracked [OF B] blob_api.get_stream_eq [OF B s'(2-4)]
  show ?thesis
  proof (intro exI [of _ s'] conjI allI impI)
    show "refcount bl s' (bl_blake3 bl d) = Inr (Some (case refcount bl s (bl_blake3 bl d) of
        Inr (Some r) \<Rightarrow> saturating_add_u64 r 1 | _ \<Rightarrow> 1))"
      using s'(3,5) by (simp add: facts split: option.splits)
    fix h assume h: "length h = 32" "h \<noteq> bl_blake3 bl d"
    show "get_stream bl s' h = get_stream bl s h"
      by (rule blob_api.get_stream_same [OF B]) (use s'(6) [OF h] in auto)
    show "refcount bl s' h = refcount bl s h" using s'(6) [OF h] by (simp add: facts)
  qed (use s' facts in auto)
qed

theorem blob_put_get_witness:
  "\<exists>s'. put_stream sample_blobs (Inr [1, 2, 3]) sample_blob_state =
      (Inr (InlinedSmall \<lparr>br_hash = replicate 32 0, br_size = 3\<rparr> [1, 2, 3]), s') \<and>
    get_stream sample_blobs s' (replicate 32 0) = Inr [1, 2, 3] \<and>
    refcount sample_blobs s' (replicate 32 0) = Inr (Some 1)"
proof -
  have "mk_outcome \<lparr>br_hash = replicate 32 0, br_size = word_of_nat (length ([1, 2, 3] :: bytes))\<rparr> [1, 2, 3] =
      InlinedSmall \<lparr>br_hash = replicate 32 0, br_size = 3\<rparr> [1, 2, 3]" by (simp add: mk_outcome_def INLINE_THRESHOLD_def)
  moreover have "refcount sample_blobs sample_blob_state (replicate 32 0) = Inr None" by (rule sample_untracked)
  ultimately show ?thesis
    using blob_put_get [OF sample_blobs_engine _ sample_blob_inv _ sample_hash_inj] sample_hash_length by fastforce
qed

text \<open>
  C24. Garbage collection removes exactly the blobs nobody refers to: it reports how many there were,
  their metadata and bytes are gone, and every blob with references keeps its count and reads as
  before.
\<close>

theorem blob_gc_correct:
  assumes "kv_engine (bl_kv bl) view" and "\<forall>x. length (bl_blake3 bl x) = 32" and "blob_inv bl view s"
  shows "\<exists>s'. gc bl s = (Inr (card {h. refcount bl s h = Inr (Some 0)}), s') \<and> blob_inv bl view s' \<and>
    (\<forall>h. (refcount bl s h = Inr (Some 0) \<longrightarrow>
            refcount bl s' h = Inr None \<and> \<not> blob_exists_on_disk (bl_root bl) h (bs_fs s')) \<and>
         (refcount bl s h \<noteq> Inr (Some 0) \<longrightarrow>
            refcount bl s' h = refcount bl s h \<and> get_stream bl s' h = get_stream bl s h))"
proof -
  have B: "blob_api bl view" using assms(1,2) by (intro blob_api.intro blob_api_axioms.intro) auto
  have rc: "refcount bl x h = Inr (Some r) \<longleftrightarrow> (\<exists>m. tracked bl (view (bs_ks x)) h = Some m \<and> bm_refcount m = r)" for x h r
    by (auto simp: blob_api.refcount_tracked [OF B])
  obtain s' n where s': "gc bl s = (Inr n, s')" "blob_inv bl view s'"
    "n = card {h. \<exists>m. tracked bl (view (bs_ks s)) h = Some m \<and> bm_refcount m = 0}"
    "\<And>h. case tracked bl (view (bs_ks s)) h of
       None \<Rightarrow> tracked bl (view (bs_ks s')) h = None
     | Some m \<Rightarrow>
         if bm_refcount m = 0
         then tracked bl (view (bs_ks s')) h = None \<and> \<not> blob_exists_on_disk (bl_root bl) h (bs_fs s')
         else tracked bl (view (bs_ks s')) h = Some m \<and> same_blob (bl_root bl) (bs_fs s) (bs_fs s') h"
    using blob_api.gc_spec [OF B assms(3)] by blast
  have live: "refcount bl s' h = refcount bl s h \<and> get_stream bl s' h = get_stream bl s h"
    if "refcount bl s h \<noteq> Inr (Some 0)" for h
  proof (cases "tracked bl (view (bs_ks s)) h")
    case None
    then show ?thesis using s'(4) [of h]
      by (simp add: blob_api.refcount_tracked [OF B] get_stream_def blob_api.meta_get_tracked [OF B])
  next
    case (Some m)
    then have same: "tracked bl (view (bs_ks s')) h = tracked bl (view (bs_ks s)) h"
      "same_blob (bl_root bl) (bs_fs s) (bs_fs s') h"
      using s'(4) [of h] that by (auto simp: rc split: if_splits)
    then show ?thesis using blob_api.get_stream_same [OF B same] by (simp add: blob_api.refcount_tracked [OF B])
  qed
  have dead: "refcount bl s' h = Inr None \<and> \<not> blob_exists_on_disk (bl_root bl) h (bs_fs s')"
    if "refcount bl s h = Inr (Some 0)" for h
    using s'(4) [of h] that by (auto simp: rc blob_api.refcount_tracked [OF B] split: option.splits)
  show ?thesis using s'(1-3) live dead unfolding rc by blast
qed

theorem blob_gc_correct_witness:
  "\<exists>s'. gc sample_blobs sample_dropped = (Inr 1, s') \<and> refcount sample_blobs s' (replicate 32 0) = Inr None \<and>
     \<not> blob_exists_on_disk [] (replicate 32 0) (bs_fs s')"
proof -
  have "{h. refcount sample_blobs sample_dropped h = Inr (Some 0)} = {replicate 32 0}"
    using sample_dropped(2) sample_dropped(3) by blast
  moreover have "bl_root sample_blobs = []" by (simp add: sample_blobs_def)
  ultimately show ?thesis
    using blob_gc_correct [OF sample_blobs_engine _ sample_dropped(1)] sample_hash_length sample_dropped(2) by fastforce
qed

text \<open>
  Taking and dropping references: for a tracked hash the count moves by one, held at 0 from
  below, and the bytes stay readable, also at count 0; for an unknown hash the result is
  \<open>NotFound\<close>. Nothing else changes.
\<close>

theorem blob_refs_correct:
  assumes "kv_engine (bl_kv bl) view" and "\<forall>x. length (bl_blake3 bl x) = 32" and "blob_inv bl view s"
  shows "case refcount bl s h of
      Inr (Some r) \<Rightarrow>
        (\<exists>s1 s2. blob_inc_ref bl h s = (Inr (), s1) \<and> blob_dec_ref bl h s = (Inr (), s2) \<and>
          blob_inv bl view s1 \<and> blob_inv bl view s2 \<and>
          refcount bl s1 h = Inr (Some (saturating_add_u64 r 1)) \<and>
          refcount bl s2 h = Inr (Some (saturating_sub_u64 r 1)) \<and>
          (\<forall>h'. get_stream bl s1 h' = get_stream bl s h' \<and> get_stream bl s2 h' = get_stream bl s h' \<and>
             (h' \<noteq> h \<longrightarrow> refcount bl s1 h' = refcount bl s h' \<and> refcount bl s2 h' = refcount bl s h')))
    | Inr None \<Rightarrow> blob_inc_ref bl h s = (Inl NotFound, s) \<and> blob_dec_ref bl h s = (Inl NotFound, s)
    | Inl e \<Rightarrow> False"
proof -
  have B: "blob_api bl view" using assms(1,2) by (intro blob_api.intro blob_api_axioms.intro) auto
  note rt = blob_api.refcount_tracked [OF B]
  show ?thesis
  proof (cases "tracked bl (view (bs_ks s)) h")
    case None
    then have "view (bs_ks s) PARTITION_META (as_bytes (hex_hash h)) = None"
      using assms(3) unfolding blob_inv_def tracked_def
      by (auto split: option.splits) (metis blob_meta_roundtrip option.distinct(1))
    then show ?thesis
      using None by (simp add: rt blob_inc_ref_def blob_dec_ref_def on_ks_def meta_inc_ref_def meta_dec_ref_def
          meta_update_ref_def kv_engine.get_view [OF assms(1)] Let_def)
  next
    case (Some m)
    have upd: "\<exists>s'. on_ks (meta_update_ref w f (bl_kv bl) h) s = (Inr (), s') \<and> blob_inv bl view s' \<and>
        refcount bl s' h = Inr (Some (f (bm_refcount m))) \<and>
        (\<forall>h'. get_stream bl s' h' = get_stream bl s h' \<and> (h' \<noteq> h \<longrightarrow> refcount bl s' h' = refcount bl s h'))" for w f
    proof -
      let ?m = "m\<lparr>bm_refcount := f (bm_refcount m)\<rparr>"
      obtain ks' where ks': "meta_update_ref w f (bl_kv bl) h (bs_ks s) = (Inr (), ks')"
        "view ks' PARTITION_META = (view (bs_ks s) PARTITION_META)(as_bytes (hex_hash h) \<mapsto> blob_meta_encode ?m)"
        "blob_inv bl view (s\<lparr>bs_ks := ks'\<rparr>)"
        using blob_api.update_ref_ok [OF B assms(3) Some] by blast
      have t: "tracked bl (view ks') h' = (if h' = h then Some ?m else tracked bl (view (bs_ks s)) h')" for h'
        using blob_api.tracked_update [OF B ks'(2), of h'] by simp
      have "get_stream bl (s\<lparr>bs_ks := ks'\<rparr>) h' = get_stream bl s h'" for h'
        using t [of h'] Some by (simp add: get_stream_def blob_api.meta_get_tracked [OF B])
      then show ?thesis using ks'(1,3) t by (intro exI [of _ "s\<lparr>bs_ks := ks'\<rparr>"]) (simp add: on_ks_def rt)
    qed
    show ?thesis
      using Some upd [of "''inc_ref''" "\<lambda>r. saturating_add_u64 r 1"] upd [of "''dec_ref''" "\<lambda>r. saturating_sub_u64 r 1"]
      by (simp add: rt blob_inc_ref_def blob_dec_ref_def meta_inc_ref_def meta_dec_ref_def) blast
  qed
qed

theorem blob_refs_correct_witness:
  "blob_dec_ref sample_blobs (replicate 32 0) sample_blob_state = (Inl NotFound, sample_blob_state)"
proof -
  have "refcount sample_blobs sample_blob_state (replicate 32 0) = Inr None"
    by (simp add: sample_blob.refcount_tracked tracked_def sample_blob_state_def mem_view_def mem_empty_def)
  then show ?thesis
    using blob_refs_correct [OF sample_blobs_engine _ sample_blob_inv, of "replicate 32 0"] sample_hash_length by simp
qed

text \<open>
  C39. Opening with repair recovers from a crash between writing bytes and writing metadata: every
  blob on disk without metadata is deleted, and every tracked blob keeps its bytes and count.
\<close>

theorem blob_repair_correct:
  assumes "kv_engine (bl_kv bl) view" and "\<forall>x. length (bl_blake3 bl x) = 32" and "blob_inv bl view s"
    and "\<forall>q. q \<noteq> [] \<longrightarrow> fs_lookup (bs_fs s) q \<noteq> None \<longrightarrow> fs_lookup (bs_fs s) (butlast q) = Some Dir"
    and "fs_lookup (bs_fs s) (bl_root bl @ [''blobs'']) = Some Dir"
  shows "\<exists>s'. reconcile_on_open bl True s = (Inr (), s') \<and> blob_inv bl view s' \<and> bs_ks s' = bs_ks s \<and>
    (\<forall>h. length h = 32 \<longrightarrow>
       (if refcount bl s h = Inr None then \<not> blob_exists_on_disk (bl_root bl) h (bs_fs s')
        else get_stream bl s' h = get_stream bl s h))"
proof -
  have B: "blob_api bl view" using assms(1,2) by (intro blob_api.intro blob_api_axioms.intro) auto
  have tree: "\<And>q. q \<noteq> [] \<Longrightarrow> fs_lookup (bs_fs s) q \<noteq> None \<Longrightarrow> fs_lookup (bs_fs s) (butlast q) = Some Dir"
    using assms(4) by blast
  obtain s' where s': "reconcile_on_open bl True s = (Inr (), s')" "blob_inv bl view s'" "bs_ks s' = bs_ks s"
    "\<And>h. length h = 32 \<Longrightarrow>
       (if tracked bl (view (bs_ks s)) h = None then \<not> blob_exists_on_disk (bl_root bl) h (bs_fs s')
        else same_blob (bl_root bl) (bs_fs s) (bs_fs s') h)"
    using blob_api.reconcile_spec [OF B assms(3) tree assms(5)] by blast
  show ?thesis
  proof (intro exI [of _ s'] conjI allI impI s'(1-3))
    fix h :: bytes assume h: "length h = 32"
    show "if refcount bl s h = Inr None then \<not> blob_exists_on_disk (bl_root bl) h (bs_fs s')
        else get_stream bl s' h = get_stream bl s h"
      using s'(4) [OF h] s'(3) blob_api.get_stream_same [OF B, of s' h s]
      by (auto simp: blob_api.refcount_tracked [OF B])
  qed
qed

theorem blob_repair_correct_witness:
  "blob_exists_on_disk [] (replicate 32 0) (bs_fs sample_crashed) \<and>
   (\<exists>s'. reconcile_on_open sample_blobs True sample_crashed = (Inr (), s') \<and>
      \<not> blob_exists_on_disk [] (replicate 32 0) (bs_fs s'))"
proof -
  have tree: "\<forall>q. q \<noteq> [] \<longrightarrow> fs_lookup (bs_fs sample_crashed) q \<noteq> None \<longrightarrow>
      fs_lookup (bs_fs sample_crashed) (butlast q) = Some Dir"
    "fs_lookup (bs_fs sample_crashed) (bl_root sample_blobs @ [''blobs'']) = Some Dir"
    by (auto simp: sample_crashed_lookup sample_blobs_def blob_path_def)
  have "refcount sample_blobs sample_crashed (replicate 32 0) = Inr None"
    by (simp add: sample_blob.refcount_tracked tracked_def sample_crashed_def mem_view_def mem_empty_def)
  moreover have "bl_root sample_blobs = []" by (simp add: sample_blobs_def)
  moreover have "blob_exists_on_disk [] (replicate 32 0) (bs_fs sample_crashed)"
    by (simp add: blob_exists_on_disk_def fs_exists_def sample_crashed_lookup)
  moreover obtain s' where "reconcile_on_open sample_blobs True sample_crashed = (Inr (), s')"
    "\<forall>h. length h = 32 \<longrightarrow> (if refcount sample_blobs sample_crashed h = Inr None
       then \<not> blob_exists_on_disk (bl_root sample_blobs) h (bs_fs s')
       else get_stream sample_blobs s' h = get_stream sample_blobs sample_crashed h)"
    using blob_repair_correct [OF sample_blobs_engine _ sample_crashed_inv tree] sample_hash_length by blast
  ultimately show ?thesis by (auto dest: spec [of _ "replicate 32 0"])
qed

end
