(* ===== verification/Float32.thy ===== *)
theory Float32
  imports Core_Types
begin

text \<open>
  IEEE 754 single precision as the query crate uses it: an \<^verbatim>\<open>f32\<close> is its bit pattern, its
  arithmetic rounds to nearest, ties to even. Every operation goes through \<open>f32_ratio\<close>, the
  correctly rounded quotient of two integers. The two orders of the language are
  modelled: \<^verbatim>\<open>total_cmp\<close>, a linear order of the bit patterns, and \<^verbatim>\<open>partial_cmp\<close>, in which the
  zeros are equal and NaN is incomparable.
\<close>

section \<open>Fields of the bit pattern\<close>

definition F32_INF :: int where
  "F32_INF = 0x7f800000"

definition f32_neg :: "f32 \<Rightarrow> bool" where
  "f32_neg w = (0x80000000 \<le> uint w)"

definition f32_abs :: "f32 \<Rightarrow> int" where
  "f32_abs w = (if f32_neg w then uint w - 0x80000000 else uint w)"

definition f32_is_nan :: "f32 \<Rightarrow> bool" where
  "f32_is_nan w = (F32_INF < f32_abs w)"

definition f32_is_inf :: "f32 \<Rightarrow> bool" where
  "f32_is_inf w = (f32_abs w = F32_INF)"

definition f32_mk :: "bool \<Rightarrow> int \<Rightarrow> f32" where
  "f32_mk neg a = word_of_int (if neg then 0x80000000 + a else a)"

definition f32_nan :: f32 where
  "f32_nan = 0x7fc00000"

definition f32_zero :: f32 where
  "f32_zero = 0"

definition f32_one :: f32 where
  "f32_one = 0x3f800000"

definition f32_half :: f32 where
  "f32_half = 0x3f000000"

text \<open>
  The magnitude of a finite single in units of \<open>2 ^ -149\<close>: the significand, with its hidden
  bit, scaled by the exponent field.
\<close>

definition f32_units :: "f32 \<Rightarrow> int" where
  "f32_units w =
     (let a = f32_abs w; e = a div 0x800000
      in if e = 0 then a else (0x800000 + a mod 0x800000) * 2 ^ nat (e - 1))"

definition f32_signed :: "f32 \<Rightarrow> int" where
  "f32_signed w = (if f32_neg w then - f32_units w else f32_units w)"

section \<open>Rounding\<close>

text \<open>The quotient rounded to the nearest integer, ties to even.\<close>

definition div_even :: "int \<Rightarrow> int \<Rightarrow> int" where
  "div_even n d =
     (let q = n div d; r = n mod d
      in if 2 * r < d then q else if d < 2 * r then q + 1 else if even q then q else q + 1)"

text \<open>
  The first exponent field, from \<open>e\<close> on, at which \<open>n / d\<close> (in units of \<open>2 ^ -149\<close>) has a
  significand of 24 bits; \<open>d\<close> is doubled with every step. The result pairs it with the
  denominator reached.
\<close>

fun f32_find_expo :: "nat \<Rightarrow> int \<Rightarrow> int \<Rightarrow> int \<Rightarrow> (int \<times> int) option" where
  "f32_find_expo 0 e n d = None"
| "f32_find_expo (Suc fuel) e n d =
     (if n < 0x1000000 * d then Some (e, d) else f32_find_expo fuel (e + 1) n (2 * d))"

text \<open>
  The single nearest to \<open>n / d\<close> units; the 254 exponent fields of finite singles are tried in
  order, a significand that rounds up to \<open>2 ^ 24\<close> carries into the exponent field.
\<close>

definition f32_ratio :: "bool \<Rightarrow> int \<Rightarrow> int \<Rightarrow> f32" where
  "f32_ratio neg n d =
     f32_mk neg
       (case f32_find_expo 254 1 n d of
          None \<Rightarrow> F32_INF
        | Some (e, d') \<Rightarrow> min F32_INF ((e - 1) * 0x800000 + div_even n d'))"

section \<open>Arithmetic\<close>

text \<open>\<^verbatim>\<open>i as f32\<close> for an integer.\<close>

definition f32_of_int :: "int \<Rightarrow> f32" where
  "f32_of_int i = f32_ratio (i < 0) (\<bar>i\<bar> * 2 ^ 149) 1"

definition f32_mul :: "f32 \<Rightarrow> f32 \<Rightarrow> f32" where
  "f32_mul a b =
     (let s = (f32_neg a \<noteq> f32_neg b)
      in if f32_is_nan a \<or> f32_is_nan b then f32_nan
         else if f32_is_inf a \<or> f32_is_inf b then
           (if f32_abs a = 0 \<or> f32_abs b = 0 then f32_nan else f32_mk s F32_INF)
         else f32_ratio s (f32_units a * f32_units b) (2 ^ 149))"

definition f32_add :: "f32 \<Rightarrow> f32 \<Rightarrow> f32" where
  "f32_add a b =
     (if f32_is_nan a \<or> f32_is_nan b then f32_nan
      else if f32_is_inf a then (if f32_is_inf b \<and> f32_neg a \<noteq> f32_neg b then f32_nan else a)
      else if f32_is_inf b then b
      else let v = f32_signed a + f32_signed b
           in if v = 0 then f32_mk (f32_neg a \<and> f32_neg b) 0
              else f32_ratio (v < 0) \<bar>v\<bar> 1)"

definition f32_negate :: "f32 \<Rightarrow> f32" where
  "f32_negate a = f32_mk (\<not> f32_neg a) (f32_abs a)"

definition f32_sub :: "f32 \<Rightarrow> f32 \<Rightarrow> f32" where
  "f32_sub a b = f32_add a (f32_negate b)"

definition f32_div :: "f32 \<Rightarrow> f32 \<Rightarrow> f32" where
  "f32_div a b =
     (let s = (f32_neg a \<noteq> f32_neg b)
      in if f32_is_nan a \<or> f32_is_nan b then f32_nan
         else if f32_is_inf a then (if f32_is_inf b then f32_nan else f32_mk s F32_INF)
         else if f32_is_inf b then f32_mk s 0
         else if f32_abs b = 0 then (if f32_abs a = 0 then f32_nan else f32_mk s F32_INF)
         else f32_ratio s (f32_units a * 2 ^ 149) (f32_units b))"

text \<open>
  \<^verbatim>\<open>x.round() as usize\<close>: to the nearest integer, ties away from zero, saturating, NaN to 0.
\<close>

definition f32_round_usize :: "f32 \<Rightarrow> nat" where
  "f32_round_usize a =
     (if f32_is_nan a \<or> f32_neg a then 0
      else if f32_is_inf a then usize_max
      else min usize_max (nat ((2 * f32_units a + 2 ^ 149) div 2 ^ 150)))"

section \<open>Comparison\<close>

text \<open>
  \<^verbatim>\<open>f32::total_cmp\<close> compares the patterns as signed integers after flipping every bit but the
  sign of a negative one, which turns the magnitude \<open>a\<close> into \<open>- a - 1\<close>.
\<close>

definition f32_key :: "f32 \<Rightarrow> int" where
  "f32_key w = (if f32_neg w then - f32_abs w - 1 else f32_abs w)"

definition total_cmp :: "f32 \<Rightarrow> f32 \<Rightarrow> ordering" where
  "total_cmp a b = cmp_of (f32_key a) (f32_key b)"

text \<open>The numeric order: monotone in the magnitude bits once the sign is applied.\<close>

definition f32_mag :: "f32 \<Rightarrow> int" where
  "f32_mag w = (if f32_neg w then - f32_abs w else f32_abs w)"

definition f32_partial_cmp :: "f32 \<Rightarrow> f32 \<Rightarrow> ordering option" where
  "f32_partial_cmp a b =
     (if f32_is_nan a \<or> f32_is_nan b then None else Some (cmp_of (f32_mag a) (f32_mag b)))"

definition f32_le :: "f32 \<Rightarrow> f32 \<Rightarrow> bool" where
  "f32_le a b = (\<not> f32_is_nan a \<and> \<not> f32_is_nan b \<and> f32_mag a \<le> f32_mag b)"

definition f32_lt :: "f32 \<Rightarrow> f32 \<Rightarrow> bool" where
  "f32_lt a b = (\<not> f32_is_nan a \<and> \<not> f32_is_nan b \<and> f32_mag a < f32_mag b)"

text \<open>\<^verbatim>\<open>x.clamp(lo, hi)\<close>; NaN stays NaN.\<close>

definition f32_clamp :: "f32 \<Rightarrow> f32 \<Rightarrow> f32 \<Rightarrow> f32" where
  "f32_clamp lo hi x = (if f32_lt x lo then lo else if f32_lt hi x then hi else x)"

text \<open>\<^verbatim>\<open>Iterator::product\<close> of singles folds from 1.0.\<close>

definition f32_product :: "f32 list \<Rightarrow> f32" where
  "f32_product xs = foldl f32_mul f32_one xs"

section \<open>Lemmas: bit patterns and orders\<close>

lemma uint_f32_less: "uint (w :: f32) < 0x100000000"
  using uint_lt2p [of w] by simp

lemma f32_abs_bounds: "0 \<le> f32_abs w" "f32_abs w < 0x80000000"
  using uint_f32_less [of w] by (auto simp: f32_abs_def f32_neg_def)

lemma uint_f32_word: "0 \<le> i \<Longrightarrow> i < 0x100000000 \<Longrightarrow> uint (word_of_int i :: f32) = i"
  by (simp add: uint_word_of_int)

lemma f32_mk_fields [simp]:
  assumes "0 \<le> a" and "a < 0x80000000"
  shows "f32_neg (f32_mk s a) = s" and "f32_abs (f32_mk s a) = a"
  using assms by (auto simp: f32_mk_def f32_neg_def f32_abs_def uint_f32_word)

lemma f32_mk_id [simp]: "f32_mk (f32_neg w) (f32_abs w) = w"
  by (simp add: f32_mk_def f32_abs_def)

lemma f32_eq_iff: "v = w \<longleftrightarrow> f32_neg v = f32_neg w \<and> f32_abs v = f32_abs w"
proof
  assume "f32_neg v = f32_neg w \<and> f32_abs v = f32_abs w"
  then have "f32_mk (f32_neg v) (f32_abs v) = f32_mk (f32_neg w) (f32_abs w)" by (simp only:)
  then show "v = w" by (simp only: f32_mk_id)
qed simp

lemma f32_key_inject [simp]: "f32_key v = f32_key w \<longleftrightarrow> v = w"
proof
  assume "f32_key v = f32_key w"
  then have "f32_neg v = f32_neg w \<and> f32_abs v = f32_abs w"
    using f32_abs_bounds [of v] f32_abs_bounds [of w] by (auto simp: f32_key_def split: if_splits)
  then show "v = w" by (rule f32_eq_iff [THEN iffD2])
qed simp

lemma total_cmp_Equal [simp]: "total_cmp a b = Equal \<longleftrightarrow> a = b"
  by (auto simp: total_cmp_def cmp_of_def)

section \<open>Lemmas: rounding stays in range\<close>

lemma div_even_nonneg: "0 \<le> n \<Longrightarrow> 0 < d \<Longrightarrow> 0 \<le> div_even n d"
  by (simp add: div_even_def Let_def pos_imp_zdiv_nonneg_iff)

lemma div_even_le:
  assumes "0 < d" and "n \<le> m * d"
  shows "div_even n d \<le> m"
proof (cases "n div d < m")
  case True
  then show ?thesis by (auto simp: div_even_def Let_def)
next
  case False
  moreover have "n div d \<le> m" using assms by (metis zdiv_mono1 nonzero_mult_div_cancel_right less_irrefl)
  ultimately have m: "n div d = m" by simp
  have r: "0 \<le> n mod d" and n: "n div d * d + n mod d = n" using assms by simp_all
  have "n mod d = 0" using r n assms(2) unfolding m by linarith
  with m show ?thesis using assms by (simp add: div_even_def)
qed

lemma div_even_pos: "0 < d \<Longrightarrow> d \<le> n \<Longrightarrow> 0 < div_even n d"
proof -
  assume "0 < d" and "d \<le> n"
  then have "0 < n div d" by (simp add: pos_imp_zdiv_pos_iff)
  then show ?thesis by (auto simp: div_even_def Let_def)
qed

text \<open>
  A quotient of at most \<open>2 ^ (23 + k)\<close> units is rounded to a pattern of at most
  \<open>(k + 1) * 2 ^ 23\<close>; in particular it has a finite pattern for \<open>k < 254\<close>.
\<close>

lemma f32_find_expo_bound:
  assumes "0 < d" and "0 \<le> n" and "n \<le> 2 ^ (23 + k) * d" and "k < fuel"
  shows "\<exists>e' d'. f32_find_expo fuel e n d = Some (e', d') \<and> e \<le> e' \<and> 0 < d' \<and>
      (e = e' \<longrightarrow> d' = d) \<and> (e' - 1) * 0x800000 + div_even n d' \<le> (e + int k) * 0x800000"
  using assms
proof (induction fuel arbitrary: e d k)
  case 0
  then show ?case by simp
next
  case (Suc fuel)
  show ?case
  proof (cases "n < 0x1000000 * d")
    case True
    have "div_even n d \<le> (1 + int k) * 0x800000"
    proof (cases k)
      case 0
      then show ?thesis using div_even_le [of d n "0x800000"] Suc.prems by simp
    next
      case (Suc j)
      have "div_even n d \<le> 0x1000000" using div_even_le [of d n "0x1000000"] True Suc.prems by simp
      then show ?thesis using Suc by simp
    qed
    then show ?thesis using True Suc.prems by (simp add: algebra_simps)
  next
    case False
    then obtain j where j: "k = Suc j" using Suc.prems by (cases k) auto
    have "\<exists>e' d'. f32_find_expo fuel (e + 1) n (2 * d) = Some (e', d') \<and> e + 1 \<le> e' \<and> 0 < d' \<and>
        (e + 1 = e' \<longrightarrow> d' = 2 * d) \<and> (e' - 1) * 0x800000 + div_even n d' \<le> (e + 1 + int j) * 0x800000"
      using Suc.prems j by (intro Suc.IH) (auto simp: power_add algebra_simps)
    then show ?thesis using False j by (auto simp: algebra_simps)
  qed
qed

lemma f32_find_expo_nonneg:
  assumes "0 < d" and "0 \<le> n" and "f32_find_expo fuel e n d = Some (e', d')"
  shows "e \<le> e' \<and> 0 < d' \<and> (e = e' \<longrightarrow> d' = d)"
  using assms
proof (induction fuel arbitrary: e d)
  case 0
  then show ?case by simp
next
  case (Suc fuel)
  then show ?case
    using Suc.IH [of "2 * d" "e + 1"] by (cases "n < 0x1000000 * d") auto
qed

lemma f32_ratio_fields:
  assumes "0 < d" and "0 \<le> n"
  shows "\<exists>a. f32_ratio s n d = f32_mk s a \<and> 0 \<le> a \<and> a \<le> F32_INF \<and> (d \<le> n \<longrightarrow> 0 < a)"
proof (cases "f32_find_expo 254 1 n d")
  case None
  then show ?thesis by (intro exI [of _ F32_INF]) (simp add: f32_ratio_def F32_INF_def)
next
  case (Some p)
  obtain e d' where p: "p = (e, d')" by (cases p)
  have f: "1 \<le> e" "0 < d'" "1 = e \<longrightarrow> d' = d"
    using f32_find_expo_nonneg [OF assms Some [unfolded p]] by auto
  have "0 \<le> div_even n d'" using assms f by (simp add: div_even_nonneg)
  moreover have "d \<le> n \<longrightarrow> 0 < (e - 1) * 0x800000 + div_even n d'"
    using f assms div_even_pos [of d n] \<open>0 \<le> div_even n d'\<close> by (cases "e = 1") auto
  ultimately show ?thesis
    using Some p f
    by (intro exI [of _ "min F32_INF ((e - 1) * 0x800000 + div_even n d')"])
      (auto simp: f32_ratio_def F32_INF_def)
qed

lemma f32_ratio_bound:
  assumes "0 < d" and "0 \<le> n" and "n \<le> 2 ^ (23 + k) * d" and "k < 254"
  shows "f32_abs (f32_ratio s n d) \<le> (1 + int k) * 0x800000"
proof -
  obtain e d' where f: "f32_find_expo 254 1 n d = Some (e, d')" "1 \<le> e" "0 < d'"
      and b: "(e - 1) * 0x800000 + div_even n d' \<le> (1 + int k) * 0x800000"
    using f32_find_expo_bound [OF assms, of 1] by blast
  let ?a = "min F32_INF ((e - 1) * 0x800000 + div_even n d')"
  have "0 \<le> ?a" "?a < 0x80000000"
    using f assms div_even_nonneg [of n d'] by (auto simp: F32_INF_def)
  then show ?thesis using f b by (simp add: f32_ratio_def)
qed

lemma f32_ratio_zero: "0 < d \<Longrightarrow> f32_abs (f32_ratio s 0 d) = 0"
  using f32_find_expo.simps(2) [of 253 1 0 d]
  by (simp add: f32_ratio_def div_even_def F32_INF_def)

lemma f32_ratio_not_nan: "0 < d \<Longrightarrow> 0 \<le> n \<Longrightarrow> \<not> f32_is_nan (f32_ratio s n d)"
  using f32_ratio_fields [of d n s] by (auto simp: f32_is_nan_def F32_INF_def)

section \<open>Lemmas: the unit interval\<close>

definition f32_unit :: "f32 \<Rightarrow> bool" where
  "f32_unit x = (f32_le f32_zero x \<and> f32_le x f32_one)"

lemma f32_const_fields:
  "f32_abs 0 = 0" "\<not> f32_neg 0" "f32_abs 0x3f800000 = 0x3f800000" "\<not> f32_neg 0x3f800000"
  by (simp_all add: f32_abs_def f32_neg_def)

lemma f32_unit_iff:
  "f32_unit x \<longleftrightarrow> f32_abs x \<le> 0x3f800000 \<and> (f32_neg x \<longrightarrow> f32_abs x = 0)"
  using f32_abs_bounds [of x]
  by (auto simp: f32_unit_def f32_le_def f32_mag_def f32_is_nan_def F32_INF_def f32_zero_def
      f32_one_def f32_const_fields  
      )

lemma f32_units_nonneg: "0 \<le> f32_units w"
  using f32_abs_bounds [of w] by (simp add: f32_units_def Let_def)

lemma f32_units_zero: "f32_abs w = 0 \<Longrightarrow> f32_units w = 0"
  by (simp add: f32_units_def)

lemma f32_units_pos: "f32_abs w \<noteq> 0 \<Longrightarrow> 0 < f32_units w"
  using f32_abs_bounds [of w] by (auto simp: f32_units_def Let_def add_pos_nonneg)

lemma f32_units_le_one:
  assumes "f32_abs w \<le> 0x3f800000"
  shows "f32_units w \<le> 2 ^ 149"
proof (cases "f32_abs w div 0x800000 < 127")
  case True
  let ?e = "f32_abs w div 0x800000"
  have "(2 :: int) ^ nat (?e - 1) \<le> 2 ^ 125"
    using True by (intro power_increasing) auto
  then have "(0x800000 + f32_abs w mod 0x800000) * 2 ^ nat (?e - 1) \<le> (0x1000000 :: int) * 2 ^ 125"
    by (intro mult_mono) (auto simp: less_imp_le [OF pos_mod_bound] order.strict_implies_order
        intro: add_nonneg_nonneg)
  then show ?thesis using assms by (auto simp: f32_units_def Let_def)
next
  case False
  then have "f32_abs w = 0x3f800000" using assms by presburger
  then show ?thesis by (simp add: f32_units_def)
qed

lemma f32_unit_finite: "f32_unit x \<Longrightarrow> \<not> f32_is_nan x \<and> \<not> f32_is_inf x"
  by (auto simp: f32_unit_iff f32_is_nan_def f32_is_inf_def F32_INF_def)

lemma f32_unit_mul:
  assumes "f32_unit a" and "f32_unit b"
  shows "f32_unit (f32_mul a b)"
proof -
  let ?n = "f32_units a * f32_units b" and ?s = "f32_neg a \<noteq> f32_neg b"
  have le: "f32_units a \<le> 2 ^ 149" "f32_units b \<le> 2 ^ 149"
    using assms f32_units_le_one [of a] f32_units_le_one [of b] by (simp_all add: f32_unit_iff)
  have n: "0 \<le> ?n" "?n \<le> 2 ^ (23 + 126) * 2 ^ 149"
    using le mult_mono [OF le] by (auto simp: f32_units_nonneg)
  have eq: "f32_mul a b = f32_ratio ?s ?n (2 ^ 149)"
    using assms by (simp add: f32_mul_def f32_unit_finite)
  have "f32_abs (f32_ratio ?s ?n (2 ^ 149)) \<le> (1 + int 126) * 0x800000"
    by (rule f32_ratio_bound) (use n in auto)
  moreover have "f32_abs (f32_ratio ?s ?n (2 ^ 149)) = 0" if "?s"
  proof -
    have "?n = 0" using that assms by (auto simp: f32_unit_iff f32_units_zero)
    then show ?thesis by (simp only: f32_ratio_zero zero_less_power zero_less_numeral)
  qed
  moreover have "f32_neg (f32_ratio ?s ?n (2 ^ 149)) = ?s"
    using f32_ratio_fields [of "2 ^ 149" ?n ?s] n by (auto simp: F32_INF_def)
  ultimately show ?thesis by (auto simp: eq f32_unit_iff)
qed

lemma f32_unit_one [simp]: "f32_unit f32_one"
  by (simp add: f32_unit_iff f32_one_def f32_abs_def f32_neg_def)

lemma f32_unit_product: "\<forall>x\<in>set xs. f32_unit x \<Longrightarrow> f32_unit (f32_product xs)"
proof -
  have "\<forall>x\<in>set xs. f32_unit x \<Longrightarrow> f32_unit a \<Longrightarrow> f32_unit (foldl f32_mul a xs)" for a
    by (induction xs arbitrary: a) (auto simp: f32_unit_mul)
  then show "\<forall>x\<in>set xs. f32_unit x \<Longrightarrow> f32_unit (f32_product xs)"
    by (simp add: f32_product_def)
qed

lemma f32_unit_clamp: "\<not> f32_is_nan x \<Longrightarrow> f32_unit (f32_clamp f32_zero f32_one x)"
  by (auto simp: f32_clamp_def f32_unit_def f32_lt_def f32_le_def f32_mag_def f32_is_nan_def
      F32_INF_def f32_zero_def f32_one_def f32_const_fields 
       )

lemma f32_clamp_unit [simp]: "f32_unit x \<Longrightarrow> f32_clamp f32_zero f32_one x = x"
  by (auto simp: f32_clamp_def f32_unit_def f32_lt_def f32_le_def)

lemma f32_unit_complement:
  assumes "f32_unit x"
  shows "f32_unit (f32_sub f32_one x)"
proof -
  have x: "f32_abs x \<le> 0x3f800000" "f32_neg x \<longrightarrow> f32_abs x = 0"
    using assms by (auto simp: f32_unit_iff)
  have one: "\<not> f32_neg f32_one" "f32_signed f32_one = 2 ^ 149" "\<not> f32_is_nan f32_one"
      "\<not> f32_is_inf f32_one"
    by (simp_all add: f32_one_def f32_signed_def f32_units_def f32_abs_def f32_neg_def
        f32_is_nan_def f32_is_inf_def F32_INF_def)
  have neg: "f32_neg (f32_negate x) = (\<not> f32_neg x)" "f32_abs (f32_negate x) = f32_abs x"
    using f32_abs_bounds [of x] by (simp_all add: f32_negate_def)
  have units: "f32_units (f32_negate x) = f32_units x" by (simp add: f32_units_def neg)
  have fin: "\<not> f32_is_nan (f32_negate x)" "\<not> f32_is_inf (f32_negate x)"
    using x by (auto simp: f32_is_nan_def f32_is_inf_def F32_INF_def neg)
  let ?v = "2 ^ 149 + f32_signed (f32_negate x)"
  have v: "0 \<le> ?v" "?v \<le> 2 ^ 149"
    using x f32_units_nonneg [of x] f32_units_le_one [of x] f32_units_zero [of x]
    by (auto simp: f32_signed_def neg units)
  have eq: "f32_sub f32_one x = (if ?v = 0 then f32_mk False 0 else f32_ratio False ?v 1)"
    using v by (simp add: f32_sub_def f32_add_def one fin Let_def)
  have "f32_abs (f32_ratio False ?v 1) \<le> (1 + int 126) * 0x800000"
    by (rule f32_ratio_bound) (use v in auto)
  moreover have "\<not> f32_neg (f32_ratio False ?v 1)"
    using f32_ratio_fields [of 1 ?v False] v by (auto simp: F32_INF_def)
  ultimately show ?thesis by (simp add: eq f32_unit_iff)
qed

lemma f32_of_int_finite:
  assumes "0 \<le> i" and "i \<le> 2 ^ 64"
  shows "\<not> f32_is_nan (f32_of_int i) \<and> \<not> f32_is_inf (f32_of_int i)"
proof -
  have "f32_abs (f32_ratio False (i * 2 ^ 149) 1) \<le> (1 + int 190) * 0x800000"
    by (rule f32_ratio_bound) (use assms in auto)
  then show ?thesis using assms by (simp add: f32_of_int_def f32_is_nan_def f32_is_inf_def F32_INF_def)
qed

lemma f32_of_int_nonzero: "0 < i \<Longrightarrow> f32_abs (f32_of_int i) \<noteq> 0"
  using f32_ratio_fields [of 1 "i * 2 ^ 149" False] by (auto simp: f32_of_int_def F32_INF_def)

lemma f32_div_not_nan:
  assumes "\<not> f32_is_nan a" "\<not> f32_is_inf a" "\<not> f32_is_nan b" "\<not> f32_is_inf b" "f32_abs b \<noteq> 0"
  shows "\<not> f32_is_nan (f32_div a b)"
  using assms by (simp add: f32_div_def f32_ratio_not_nan f32_units_pos f32_units_nonneg)

end
