(* ===== verification/Query_IR.thy ===== *)
theory Query_IR
  imports Float32
begin

text \<open>
  The logical plan language of \<^verbatim>\<open>mmdb-query\<close> (\<^verbatim>\<open>crates/mmdb-query/src/ir.rs\<close>) with the
  statistics the optimizer reads, and the recall builders (\<^verbatim>\<open>builder.rs\<close>). Field references
  and literals carry the derived order of their declarations: a literal is ordered by its
  variant first, then by its payload, singles by \<^verbatim>\<open>total_cmp\<close>.
\<close>

section \<open>Fields and literals\<close>

datatype table_id = Nodes | Edges | Blobs

datatype model_id = ModelId string

datatype vector_ref = Vector "f32 list" | TextQuery string

datatype field_ref =
    FTenant
  | FKind
  | FCreatedAtMs
  | FUpdatedAtMs
  | FMetadata string
  | FContent
  | FScore
  | FNodeId

datatype literal =
    LU32 u32
  | LI64 i64
  | LF32 f32
  | LString string
  | LNodeKind node_kind
  | LNodeKinds "node_kind list"
  | LBool bool

text \<open>Variant number first, then the payload: the order \<^verbatim>\<open>derive(Ord)\<close> gives.\<close>

primrec field_key :: "field_ref \<Rightarrow> int list" where
  "field_key FTenant = [0]"
| "field_key FKind = [1]"
| "field_key FCreatedAtMs = [2]"
| "field_key FUpdatedAtMs = [3]"
| "field_key (FMetadata s) = 4 # map of_char s"
| "field_key FContent = [5]"
| "field_key FScore = [6]"
| "field_key FNodeId = [7]"

primrec literal_key :: "literal \<Rightarrow> int list" where
  "literal_key (LU32 w) = [0, uint w]"
| "literal_key (LI64 w) = [1, sint w]"
| "literal_key (LF32 w) = [2, f32_key w]"
| "literal_key (LString s) = 3 # map of_char s"
| "literal_key (LNodeKind k) = [4, uint (as_u8 k)]"
| "literal_key (LNodeKinds ks) = 5 # map (\<lambda>k. uint (as_u8 k)) ks"
| "literal_key (LBool b) = [6, if b then 1 else 0]"

lemma inj_of_char: "inj (of_char :: char \<Rightarrow> int)"
  by (simp add: inj_def)

lemma field_key_inject [simp]: "field_key a = field_key b \<longleftrightarrow> a = b"
  by (cases a; cases b) (auto dest: map_injective [OF _ inj_of_char])

lemma literal_key_inject [simp]: "literal_key a = literal_key b \<longleftrightarrow> a = b"
proof -
  have inj: "inj (\<lambda>k. uint (as_u8 k))" 
    by (auto simp: inj_def dest: word_uint_eqI)
  have "sint v = sint w \<longleftrightarrow> v = w" for v w :: i64 by (auto intro: signed_word_eqI)
  then show ?thesis
    by (cases a; cases b)
      (auto dest: map_injective [OF _ inj_of_char] map_injective [OF _ inj] word_uint_eqI)
qed

instantiation field_ref :: linorder
begin

definition less_eq_field_ref :: "field_ref \<Rightarrow> field_ref \<Rightarrow> bool" where
  "less_eq_field_ref a b \<longleftrightarrow> field_key a \<le> field_key b"

definition less_field_ref :: "field_ref \<Rightarrow> field_ref \<Rightarrow> bool" where
  "less_field_ref a b \<longleftrightarrow> field_key a < field_key b"

instance
  by standard (auto simp: less_eq_field_ref_def less_field_ref_def less_le_not_le)

end

instantiation literal :: linorder
begin

definition less_eq_literal :: "literal \<Rightarrow> literal \<Rightarrow> bool" where
  "less_eq_literal a b \<longleftrightarrow> literal_key a \<le> literal_key b"

definition less_literal :: "literal \<Rightarrow> literal \<Rightarrow> bool" where
  "less_literal a b \<longleftrightarrow> literal_key a < literal_key b"

instance
  by standard (auto simp: less_eq_literal_def less_literal_def less_le_not_le)

end

section \<open>Predicates and plans\<close>

datatype predicate =
    PEq field_ref literal
  | PGt field_ref literal
  | PGte field_ref literal
  | PLt field_ref literal
  | PLte field_ref literal
  | PIn field_ref "literal list"
  | PAnd "predicate list"
  | POr "predicate list"
  | PNot predicate

definition pred_eq :: "field_ref \<Rightarrow> literal \<Rightarrow> predicate" where
  "pred_eq field v = PEq field v"

definition kind_eq :: "node_kind \<Rightarrow> predicate" where
  "kind_eq kind = PEq FKind (LNodeKind kind)"

definition kind_in :: "node_kind list \<Rightarrow> predicate" where
  "kind_in kinds = PIn FKind (map LNodeKind kinds)"

definition created_after_ms :: "i64 \<Rightarrow> predicate" where
  "created_after_ms ts_ms = PGt FCreatedAtMs (LI64 ts_ms)"

text \<open>The conjunction constructor flattens one level of nested conjunctions.\<close>

fun pred_and_out :: "predicate list \<Rightarrow> predicate list" where
  "pred_and_out [] = []"
| "pred_and_out (p # ps) =
     (case p of PAnd children \<Rightarrow> children | other \<Rightarrow> [other]) @ pred_and_out ps"

definition pred_and :: "predicate list \<Rightarrow> predicate" where
  "pred_and preds = PAnd (pred_and_out preds)"

datatype sort_key = ScoreDesc | CreatedAtDesc | SortField field_ref

datatype join_key = JoinNodeId | JoinField field_ref

datatype join_strategy = HashBuildLeft | HashBuildRight | Merge

record join_order_candidate =
  leaf_order :: "nat list"
  leaf_estimates :: "nat option list"
  estimated_cost :: nat

datatype score_expr =
    Similarity
  | Decay field_ref i64
  | ScoreLiteral f32
  | Mul score_expr score_expr
  | Add score_expr score_expr

datatype expr = ExprField field_ref | ExprLiteral literal

datatype aggregate_expr = Count

datatype logical_plan =
    Scan table_id "predicate option"
  | VectorSearch vector_ref nat "predicate option" model_id
  | GraphExpand logical_plan "string option" byte
  | Filter logical_plan predicate
  | Score logical_plan score_expr
  | TopK logical_plan nat sort_key
  | Join logical_plan logical_plan join_key
  | Aggregate logical_plan "field_ref list" aggregate_expr
  | Project logical_plan "field_ref list"
  | Udf logical_plan string "expr list"

section \<open>Statistics\<close>

text \<open>
  Counts are 64-bit; the additions of \<^verbatim>\<open>from_counts\<close> wrap as they do in a release build.
\<close>

record field_histogram =
  hist_counts :: "(literal, u64) btree"
  hist_total_count :: u64

definition hist_add :: "field_histogram \<Rightarrow> literal \<times> u64 \<Rightarrow> field_histogram" where
  "hist_add h x =
     (case x of (lit, n) \<Rightarrow>
        if n = 0 then h
        else h\<lparr>hist_counts :=
                 btree_insert lit ((case btree_get (hist_counts h) lit of None \<Rightarrow> 0 | Some c \<Rightarrow> c) + n)
                   (hist_counts h),
               hist_total_count := hist_total_count h + n\<rparr>)"

definition from_counts :: "(literal \<times> u64) list \<Rightarrow> field_histogram" where
  "from_counts counts = foldl hist_add \<lparr>hist_counts = [], hist_total_count = 0\<rparr> counts"

definition hist_count :: "field_histogram \<Rightarrow> literal \<Rightarrow> u64" where
  "hist_count h lit = (case btree_get (hist_counts h) lit of None \<Rightarrow> 0 | Some c \<Rightarrow> c)"

fun hist_matching :: "field_histogram \<Rightarrow> literal set \<Rightarrow> literal list \<Rightarrow> u64 \<Rightarrow> u64" where
  "hist_matching h seen [] matching = matching"
| "hist_matching h seen (l # ls) matching =
     (if l \<in> seen then hist_matching h seen ls matching
      else hist_matching h (insert l seen) ls (matching + hist_count h l))"

definition selectivity_for_literals :: "field_histogram \<Rightarrow> literal list \<Rightarrow> f32 option" where
  "selectivity_for_literals h literals =
     (if hist_total_count h = 0 then None
      else Some (f32_clamp f32_zero f32_one
        (f32_div (f32_of_int (uint (hist_matching h {} literals 0)))
           (f32_of_int (uint (hist_total_count h))))))"

record stats =
  node_rows :: nat
  estimated_filter_selectivity :: f32
  histograms :: "(field_ref, field_histogram) btree"

definition query_stats_default :: stats where
  "query_stats_default =
     \<lparr>node_rows = 0, estimated_filter_selectivity = f32_one, histograms = []\<rparr>"

definition with_histogram :: "stats \<Rightarrow> field_ref \<Rightarrow> field_histogram \<Rightarrow> stats" where
  "with_histogram st field h = st\<lparr>histograms := btree_insert field h (histograms st)\<rparr>"

definition selectivity_or :: "stats \<Rightarrow> field_ref \<Rightarrow> literal list \<Rightarrow> f32" where
  "selectivity_or st field literals =
     (case Option.bind (btree_get (histograms st) field)
             (\<lambda>h. selectivity_for_literals h literals) of
        None \<Rightarrow> f32_clamp f32_zero f32_one (estimated_filter_selectivity st)
      | Some s \<Rightarrow> s)"

fun estimate_selectivity :: "stats \<Rightarrow> predicate \<Rightarrow> f32" where
  "estimate_selectivity st (PEq field lit) = selectivity_or st field [lit]"
| "estimate_selectivity st (PIn field literals) = selectivity_or st field literals"
| "estimate_selectivity st (PAnd preds) =
     f32_clamp f32_zero f32_one (f32_product (map (estimate_selectivity st) preds))"
| "estimate_selectivity st (POr preds) =
     f32_clamp f32_zero f32_one (f32_sub f32_one
       (f32_product (map (\<lambda>p. f32_sub f32_one (estimate_selectivity st p)) preds)))"
| "estimate_selectivity st (PNot pred) =
     f32_clamp f32_zero f32_one (f32_sub f32_one (estimate_selectivity st pred))"
| "estimate_selectivity st (PGt _ _) =
     f32_clamp f32_zero f32_one (estimated_filter_selectivity st)"
| "estimate_selectivity st (PGte _ _) =
     f32_clamp f32_zero f32_one (estimated_filter_selectivity st)"
| "estimate_selectivity st (PLt _ _) =
     f32_clamp f32_zero f32_one (estimated_filter_selectivity st)"
| "estimate_selectivity st (PLte _ _) =
     f32_clamp f32_zero f32_one (estimated_filter_selectivity st)"

section \<open>Recall builders\<close>

record recall_builder =
  rb_tenant :: "u32 option"
  rb_filters :: "predicate list"
  rb_limit :: "nat option"

record vector_recall_builder =
  vb_recall :: recall_builder
  vb_query :: vector_ref
  vb_model :: model_id
  vb_topk :: nat

definition recall :: recall_builder where
  "recall = \<lparr>rb_tenant = None, rb_filters = [], rb_limit = None\<rparr>"

definition rb_with_tenant :: "recall_builder \<Rightarrow> u32 \<Rightarrow> recall_builder" where
  "rb_with_tenant b tenant = b\<lparr>rb_tenant := Some tenant\<rparr>"

definition rb_filter :: "recall_builder \<Rightarrow> predicate \<Rightarrow> recall_builder" where
  "rb_filter b pred = b\<lparr>rb_filters := rb_filters b @ [pred]\<rparr>"

definition rb_with_limit :: "recall_builder \<Rightarrow> nat \<Rightarrow> recall_builder" where
  "rb_with_limit b limit = b\<lparr>rb_limit := Some limit\<rparr>"

definition similar_to :: "recall_builder \<Rightarrow> f32 list \<Rightarrow> vector_recall_builder" where
  "similar_to b vector =
     \<lparr>vb_recall = b, vb_query = Vector vector, vb_model = ModelId ''default'', vb_topk = 10\<rparr>"

definition using_model :: "vector_recall_builder \<Rightarrow> model_id \<Rightarrow> vector_recall_builder" where
  "using_model b model = b\<lparr>vb_model := model\<rparr>"

definition vb_with_topk :: "vector_recall_builder \<Rightarrow> nat \<Rightarrow> vector_recall_builder" where
  "vb_with_topk b k = b\<lparr>vb_topk := k\<rparr>"

definition vb_with_limit :: "vector_recall_builder \<Rightarrow> nat \<Rightarrow> vector_recall_builder" where
  "vb_with_limit b limit = b\<lparr>vb_recall := rb_with_limit (vb_recall b) limit\<rparr>"

definition combined_recall_filter :: "u32 option \<Rightarrow> predicate list \<Rightarrow> predicate option" where
  "combined_recall_filter tenant filters =
     (let predicates =
        (case tenant of None \<Rightarrow> [] | Some t \<Rightarrow> [pred_eq FTenant (LU32 t)]) @ filters
      in case predicates of
           [] \<Rightarrow> None
         | [p] \<Rightarrow> Some p
         | _ \<Rightarrow> Some (pred_and predicates))"

definition combine_optional_filter :: "predicate option \<Rightarrow> predicate \<Rightarrow> predicate" where
  "combine_optional_filter existing pred =
     (case existing of Some e \<Rightarrow> pred_and [e, pred] | None \<Rightarrow> pred)"

definition recall_build :: "recall_builder \<Rightarrow> logical_plan" where
  "recall_build b =
     (let plan = Scan Nodes (combined_recall_filter (rb_tenant b) (rb_filters b))
      in case rb_limit b of
           None \<Rightarrow> plan
         | Some limit \<Rightarrow> TopK plan limit CreatedAtDesc)"

definition vector_recall_build :: "vector_recall_builder \<Rightarrow> logical_plan" where
  "vector_recall_build b =
     (let plan = VectorSearch (vb_query b) (vb_topk b)
            (combined_recall_filter (rb_tenant (vb_recall b)) (rb_filters (vb_recall b))) (vb_model b)
      in case rb_limit (vb_recall b) of
           None \<Rightarrow> plan
         | Some limit \<Rightarrow> TopK plan limit ScoreDesc)"

section \<open>Selectivities are probabilities\<close>

lemma selectivity_for_literals_unit:
  "selectivity_for_literals h ls = Some s \<Longrightarrow> f32_unit s"
proof -
  assume s: "selectivity_for_literals h ls = Some s"
  let ?m = "uint (hist_matching h {} ls 0)" and ?t = "uint (hist_total_count h)"
  have "hist_total_count h \<noteq> 0" using s by (auto simp: selectivity_for_literals_def)
  then have "0 < ?t" 
    by (metis order_le_less uint_ge_0 unsigned_eq_0_iff)
  moreover have "?m \<le> 2 ^ 64" "?t \<le> 2 ^ 64"
    using uint_lt2p [of "hist_matching h {} ls 0"] uint_lt2p [of "hist_total_count h"] by auto
  ultimately have "\<not> f32_is_nan (f32_div (f32_of_int ?m) (f32_of_int ?t))"
    by (intro f32_div_not_nan f32_of_int_nonzero)
      (auto simp: f32_of_int_finite dest: f32_of_int_finite [rotated])
  then show "f32_unit s"
    using s by (auto simp: selectivity_for_literals_def intro: f32_unit_clamp split: if_splits)
qed

text \<open>
  C36. Selectivity estimates are probabilities: unless the configured fallback is NaN, the
  estimate of every predicate, however nested, lies between 0 and 1, whatever the histograms
  hold. No rounding of the products and complements escapes the interval, and no
  intermediate quotient is NaN.
\<close>

theorem estimate_selectivity_unit:
  assumes "\<not> f32_is_nan (estimated_filter_selectivity st)"
  shows "f32_le f32_zero (estimate_selectivity st pred) \<and>
    f32_le (estimate_selectivity st pred) f32_one"
proof -
  have base: "f32_unit (f32_clamp f32_zero f32_one (estimated_filter_selectivity st))"
    by (rule f32_unit_clamp [OF assms])
  have sel: "f32_unit (selectivity_or st field ls)" for field ls
    using base by (auto simp: selectivity_or_def bind_eq_Some_conv
        intro: selectivity_for_literals_unit split: option.splits)
  have "f32_unit (estimate_selectivity st pred)"
  proof (induction pred)
    case (PAnd ps)
    have "f32_unit (f32_product (map (estimate_selectivity st) ps))"
      using PAnd by (intro f32_unit_product) auto
    then show ?case by simp
  next
    case (POr ps)
    have "f32_unit (f32_product (map (\<lambda>p. f32_sub f32_one (estimate_selectivity st p)) ps))"
      using POr by (intro f32_unit_product) (auto intro: f32_unit_complement)
    then show ?case by (simp add: f32_unit_complement)
  next
    case (PNot p)
    then show ?case by (simp add: f32_unit_complement)
  qed (simp_all add: base sel)
  then show ?thesis by (simp add: f32_unit_def)
qed

theorem estimate_selectivity_unit_witness:
  "f32_le (estimate_selectivity
      \<lparr>node_rows = 100, estimated_filter_selectivity = f32_half,
       histograms = [(FTenant, from_counts [(LU32 1, 1), (LU32 2, 2)])]\<rparr>
      (POr [PEq FTenant (LU32 1), PNot (PGt FCreatedAtMs (LI64 0))])) f32_one"
proof -
  have "\<not> f32_is_nan f32_half"
    by (simp add: f32_is_nan_def f32_half_def f32_abs_def f32_neg_def F32_INF_def)
  then show ?thesis by (intro estimate_selectivity_unit [THEN conjunct2]) simp
qed

end
