(* ===== verification/Query_Eval.thy ===== *)
theory Query_Eval
  imports Query_IR
begin

text \<open>
  Row evaluation of \<^verbatim>\<open>mmdb-query\<close> (\<^verbatim>\<open>crates/mmdb-query/src/eval.rs\<close> and the \<^verbatim>\<open>Record\<close> of
  \<^verbatim>\<open>executor.rs\<close>): predicates, score expressions, join values, grouping, projection and
  sorting. Join values and the identifiers of aggregate rows are the \<^verbatim>\<open>Debug\<close> text of a
  literal; the texts that the formatter prints for a single and for a string are parameters,
  with what is documented of them in \<open>debug_ok\<close>.
\<close>

section \<open>Records\<close>

record qrecord =
  r_node_id :: string
  r_tenant :: u32
  r_kind :: node_kind
  r_created_at_ms :: i64
  r_updated_at_ms :: i64
  r_score :: f32
  r_fields :: "(string, literal) btree"

definition record_new :: "string \<Rightarrow> u32 \<Rightarrow> node_kind \<Rightarrow> i64 \<Rightarrow> qrecord" where
  "record_new node_id tenant kind created_at_ms =
     \<lparr>r_node_id = node_id, r_tenant = tenant, r_kind = kind, r_created_at_ms = created_at_ms,
      r_updated_at_ms = created_at_ms, r_score = f32_zero, r_fields = []\<rparr>"

definition with_updated_at_ms :: "qrecord \<Rightarrow> i64 \<Rightarrow> qrecord" where
  "with_updated_at_ms r updated_at_ms = r\<lparr>r_updated_at_ms := updated_at_ms\<rparr>"

definition with_score :: "qrecord \<Rightarrow> f32 \<Rightarrow> qrecord" where
  "with_score r score = r\<lparr>r_score := score\<rparr>"

definition with_field :: "qrecord \<Rightarrow> string \<Rightarrow> literal \<Rightarrow> qrecord" where
  "with_field r key v = r\<lparr>r_fields := btree_insert key v (r_fields r)\<rparr>"

section \<open>Debug texts\<close>

record debug_fmt =
  dbg_f32 :: "f32 \<Rightarrow> string"
  dbg_str :: "string \<Rightarrow> string"

definition show_int :: "int \<Rightarrow> string" where
  "show_int i = (if i < 0 then CHR ''-'' # show_nat (nat (- i)) else show_nat (nat i))"

primrec debug_kind :: "node_kind \<Rightarrow> string" where
  "debug_kind Episode = ''Episode''"
| "debug_kind Fact = ''Fact''"
| "debug_kind Entity = ''Entity''"
| "debug_kind Artifact = ''Artifact''"

fun join_strs :: "string \<Rightarrow> string list \<Rightarrow> string" where
  "join_strs sep [] = []"
| "join_strs sep [s] = s"
| "join_strs sep (s # t # ss) = s @ sep @ join_strs sep (t # ss)"

text \<open>The text of \<^verbatim>\<open>format!("{literal:?}")\<close>, from the derived formatter.\<close>

primrec debug_literal :: "debug_fmt \<Rightarrow> literal \<Rightarrow> string" where
  "debug_literal fmt (LU32 w) = ''U32('' @ show_nat (unat w) @ '')''"
| "debug_literal fmt (LI64 w) = ''I64('' @ show_int (sint w) @ '')''"
| "debug_literal fmt (LF32 w) = ''F32(OrderedF32('' @ dbg_f32 fmt w @ ''))''"
| "debug_literal fmt (LString s) = ''String('' @ dbg_str fmt s @ '')''"
| "debug_literal fmt (LNodeKind k) = ''NodeKind('' @ debug_kind k @ '')''"
| "debug_literal fmt (LNodeKinds ks) = ''NodeKinds(['' @ join_strs '', '' (map debug_kind ks) @ ''])''"
| "debug_literal fmt (LBool b) = ''Bool('' @ (if b then ''true'' else ''false'') @ '')''"

text \<open>
  What the formatter documents: the text of a string determines it, and the text of a number
  reads back as that number; the NaNs share one text.
\<close>

definition debug_ok :: "debug_fmt \<Rightarrow> bool" where
  "debug_ok fmt \<longleftrightarrow> inj (dbg_str fmt) \<and>
     (\<forall>a b. \<not> f32_is_nan a \<longrightarrow> dbg_f32 fmt a = dbg_f32 fmt b \<longrightarrow> a = b)"

section \<open>Predicates and scores\<close>

primrec field_literal :: "qrecord \<Rightarrow> field_ref \<Rightarrow> literal option" where
  "field_literal r FTenant = Some (LU32 (r_tenant r))"
| "field_literal r FKind = Some (LNodeKind (r_kind r))"
| "field_literal r FCreatedAtMs = Some (LI64 (r_created_at_ms r))"
| "field_literal r FScore = Some (LF32 (r_score r))"
| "field_literal r FNodeId = Some (LString (r_node_id r))"
| "field_literal r FUpdatedAtMs = Some (LI64 (r_updated_at_ms r))"
| "field_literal r FContent = btree_get (r_fields r) ''content''"
| "field_literal r (FMetadata key) = btree_get (r_fields r) key"

definition cmp_f32 :: "f32 \<Rightarrow> f32 \<Rightarrow> (int \<Rightarrow> int \<Rightarrow> bool) \<Rightarrow> bool" where
  "cmp_f32 lhs rhs cmp =
     (case total_cmp lhs rhs of Less \<Rightarrow> cmp 0 1 | Equal \<Rightarrow> cmp 0 0 | Greater \<Rightarrow> cmp 1 0)"

definition compare_i64 :: "qrecord \<Rightarrow> field_ref \<Rightarrow> literal \<Rightarrow> (int \<Rightarrow> int \<Rightarrow> bool) \<Rightarrow> bool" where
  "compare_i64 r field lit cmp =
     (case (field, lit) of
        (FScore, LF32 rhs) \<Rightarrow> cmp_f32 (r_score r) rhs cmp
      | _ \<Rightarrow>
        (case (field_literal r field, lit) of
           (Some (LI64 lhs), LI64 rhs) \<Rightarrow> cmp (sint lhs) (sint rhs)
         | _ \<Rightarrow> False))"

fun predicate_matches :: "qrecord \<Rightarrow> predicate \<Rightarrow> bool" where
  "predicate_matches r (PEq field lit) = (field_literal r field = Some lit)"
| "predicate_matches r (PGt field lit) = compare_i64 r field lit (\<lambda>a b. a > b)"
| "predicate_matches r (PGte field lit) = compare_i64 r field lit (\<lambda>a b. a \<ge> b)"
| "predicate_matches r (PLt field lit) = compare_i64 r field lit (\<lambda>a b. a < b)"
| "predicate_matches r (PLte field lit) = compare_i64 r field lit (\<lambda>a b. a \<le> b)"
| "predicate_matches r (PIn field lits) =
     (case field_literal r field of None \<Rightarrow> False | Some v \<Rightarrow> v \<in> set lits)"
| "predicate_matches r (PAnd preds) = list_all (\<lambda>p. predicate_matches r p) preds"
| "predicate_matches r (POr preds) = list_ex (\<lambda>p. predicate_matches r p) preds"
| "predicate_matches r (PNot pred) = (\<not> predicate_matches r pred)"

definition matches_opt :: "predicate option \<Rightarrow> qrecord \<Rightarrow> bool" where
  "matches_opt flt r = (case flt of None \<Rightarrow> True | Some pred \<Rightarrow> predicate_matches r pred)"

primrec eval_score :: "qrecord \<Rightarrow> score_expr \<Rightarrow> f32" where
  "eval_score r Similarity = r_score r"
| "eval_score r (Decay field half_life_ms) = r_score r"
| "eval_score r (ScoreLiteral v) = v"
| "eval_score r (Mul left right) = f32_mul (eval_score r left) (eval_score r right)"
| "eval_score r (Add left right) = f32_add (eval_score r left) (eval_score r right)"

definition join_value :: "debug_fmt \<Rightarrow> qrecord \<Rightarrow> join_key \<Rightarrow> string option" where
  "join_value fmt r on =
     (case on of
        JoinNodeId \<Rightarrow> Some (r_node_id r)
      | JoinField field \<Rightarrow> map_option (debug_literal fmt) (field_literal r field))"

section \<open>Sorting\<close>

definition score_desc :: "qrecord \<Rightarrow> qrecord \<Rightarrow> ordering" where
  "score_desc a b =
     (case f32_partial_cmp (r_score b) (r_score a) of None \<Rightarrow> Equal | Some c \<Rightarrow> c)"

definition created_desc :: "qrecord \<Rightarrow> qrecord \<Rightarrow> ordering" where
  "created_desc a b = cmp_of (sint (r_created_at_ms b)) (sint (r_created_at_ms a))"

definition field_cmp :: "field_ref \<Rightarrow> qrecord \<Rightarrow> qrecord \<Rightarrow> ordering" where
  "field_cmp field a b =
     (case (field_literal a field, field_literal b field) of
        (Some left, Some right) \<Rightarrow> cmp_of left right
      | (Some _, None) \<Rightarrow> Less
      | (None, Some _) \<Rightarrow> Greater
      | (None, None) \<Rightarrow> Equal)"

definition sort_cmp :: "sort_key \<Rightarrow> qrecord \<Rightarrow> qrecord \<Rightarrow> ordering" where
  "sort_cmp by_key =
     (case by_key of
        ScoreDesc \<Rightarrow> score_desc
      | CreatedAtDesc \<Rightarrow> created_desc
      | SortField field \<Rightarrow> field_cmp field)"

definition sort_rows :: "qrecord list \<Rightarrow> sort_key \<Rightarrow> qrecord list" where
  "sort_rows rows by_key = sort_by (sort_cmp by_key) rows"

section \<open>Grouping and projection\<close>

primrec field_label :: "field_ref \<Rightarrow> string" where
  "field_label FTenant = ''tenant''"
| "field_label FKind = ''kind''"
| "field_label FCreatedAtMs = ''created_at_ms''"
| "field_label FUpdatedAtMs = ''updated_at_ms''"
| "field_label (FMetadata key) = key"
| "field_label FContent = ''content''"
| "field_label FScore = ''score''"
| "field_label FNodeId = ''node_id''"

definition aggregate_group_key :: "qrecord \<Rightarrow> field_ref list \<Rightarrow> literal list option" where
  "aggregate_group_key r group_by = collect_opt (map (field_literal r) group_by)"

definition aggregate_node_id :: "debug_fmt \<Rightarrow> field_ref list \<Rightarrow> literal list \<Rightarrow> string" where
  "aggregate_node_id fmt group_by key =
     (if group_by = [] then ''__aggregate__''
      else join_strs ''|''
        (map (\<lambda>(field, lit). field_label field @ ''='' @ debug_literal fmt lit) (zip group_by key)))"

definition count_group :: "field_ref list \<Rightarrow> (literal list, i64) btree \<Rightarrow> qrecord \<Rightarrow> (literal list, i64) btree" where
  "count_group group_by groups r =
     (case aggregate_group_key r group_by of
        None \<Rightarrow> groups
      | Some key \<Rightarrow>
          btree_insert key ((case btree_get groups key of None \<Rightarrow> 0 | Some n \<Rightarrow> n) + 1) groups)"

definition group_record ::
  "debug_fmt \<Rightarrow> field_ref list \<Rightarrow> aggregate_expr \<Rightarrow> literal list \<times> i64 \<Rightarrow> qrecord" where
  "group_record fmt group_by aggregate entry =
     (case entry of (key, n) \<Rightarrow>
        let fs = foldl (\<lambda>m (field, lit). btree_insert (field_label field) lit m) []
              (zip group_by key);
            fs = (case aggregate of Count \<Rightarrow> btree_insert ''count'' (LI64 n) fs)
        in \<lparr>r_node_id = aggregate_node_id fmt group_by key, r_tenant = 0, r_kind = Fact,
            r_created_at_ms = 0, r_updated_at_ms = 0, r_score = f32_of_int (sint n),
            r_fields = fs\<rparr>)"

definition aggregate_records ::
  "debug_fmt \<Rightarrow> qrecord list \<Rightarrow> field_ref list \<Rightarrow> aggregate_expr \<Rightarrow> qrecord list" where
  "aggregate_records fmt rows group_by aggregate =
     map (group_record fmt group_by aggregate) (foldl (count_group group_by) [] rows)"

definition project_record :: "qrecord \<Rightarrow> field_ref list \<Rightarrow> qrecord" where
  "project_record r fs =
     r\<lparr>r_fields := foldl (\<lambda>projected field.
          case field_literal r field of
            None \<Rightarrow> projected
          | Some lit \<Rightarrow> btree_insert (field_label field) lit projected) [] fs\<rparr>"

definition project_records :: "qrecord list \<Rightarrow> field_ref list \<Rightarrow> qrecord list" where
  "project_records rows fs = map (\<lambda>r. project_record r fs) rows"

section \<open>Lemmas: predicates\<close>

lemma matches_pred_and_out:
  "list_all (predicate_matches r) (pred_and_out ps) = list_all (predicate_matches r) ps"
  by (induction ps) (auto split: predicate.splits)

lemma matches_pred_and [simp]:
  "predicate_matches r (pred_and ps) = list_all (predicate_matches r) ps"
  by (simp add: pred_and_def matches_pred_and_out)

lemma matches_combine [simp]:
  "predicate_matches r (combine_optional_filter f p) \<longleftrightarrow> matches_opt f r \<and> predicate_matches r p"
  by (auto simp: combine_optional_filter_def matches_opt_def split: option.splits)

lemma matches_combined_recall [simp]:
  "matches_opt (combined_recall_filter tenant filters) r \<longleftrightarrow>
     (\<forall>t. tenant = Some t \<longrightarrow> r_tenant r = t) \<and> (\<forall>p\<in>set filters. predicate_matches r p)"
  by (auto simp: combined_recall_filter_def matches_opt_def pred_eq_def list_all_iff Let_def
      split: option.splits list.splits)

text \<open>Comparisons of scores are comparisons in the total order of singles.\<close>

lemma matches_score:
  "predicate_matches r (PGt FScore (LF32 v)) \<longleftrightarrow> f32_key v < f32_key (r_score r)"
  "predicate_matches r (PGte FScore (LF32 v)) \<longleftrightarrow> f32_key v \<le> f32_key (r_score r)"
  "predicate_matches r (PLt FScore (LF32 v)) \<longleftrightarrow> f32_key (r_score r) < f32_key v"
  "predicate_matches r (PLte FScore (LF32 v)) \<longleftrightarrow> f32_key (r_score r) \<le> f32_key v"
  by (auto simp: compare_i64_def cmp_f32_def total_cmp_def cmp_of_def
      simp flip: f32_key_inject split: if_splits ordering.splits)

section \<open>Lemmas: debug texts determine literals\<close>

lemma digit_code: "n < 10 \<Longrightarrow> of_char (char_of (48 + n :: nat) :: char) = 48 + n"
  by (simp add: of_char_of)

lemma digit_inject:
  assumes "m < 10" and "n < 10"
  shows "(char_of (48 + m :: nat) :: char) = char_of (48 + n) \<longleftrightarrow> m = n"
proof
  assume "(char_of (48 + m) :: char) = char_of (48 + n)"
  then have "(of_char (char_of (48 + m) :: char) :: nat) = of_char (char_of (48 + n) :: char)"
    by (simp only:)
  then show "m = n" using assms by (simp only: digit_code add_left_cancel)
qed simp

lemma show_nat_digits: "c \<in> set (show_nat n) \<Longrightarrow> \<exists>d. d < (10 :: nat) \<and> c = char_of (48 + d)"
proof (induction n rule: show_nat.induct)
  case (1 n)
  show ?case
  proof (cases "n < 10")
    case True
    then show ?thesis using 1 show_nat.simps [of n] by auto
  next
    case False
    then have "c \<in> set (show_nat (n div 10)) \<or> c = char_of (48 + n mod 10)"
      using 1 show_nat.simps [of n] by auto
    then show ?thesis using 1 False by (metis mod_less_divisor zero_less_numeral)
  qed
qed

lemma show_nat_Nil [simp]: "show_nat n \<noteq> []"
  by (subst show_nat.simps) simp

lemma show_nat_inject: "show_nat m = show_nat n \<Longrightarrow> m = n"
proof (induction m arbitrary: n rule: less_induct)
  case (less m)
  show ?case
  proof (cases "m < 10 \<or> n < 10")
    case True
    then show ?thesis
      using less.prems show_nat.simps [of m] show_nat.simps [of n]
      by (auto simp: digit_inject append_eq_Cons_conv Cons_eq_append_conv split: if_splits)
  next
    case False
    then have "show_nat (m div 10) = show_nat (n div 10)"
        and "(char_of (48 + m mod 10) :: char) = char_of (48 + n mod 10)"
      using less.prems show_nat.simps [of m] show_nat.simps [of n] by auto
    then have "m div 10 = n div 10" "m mod 10 = n mod 10"
      using less.IH [of "m div 10"] False by (auto simp: digit_inject)
    then show ?thesis by (metis div_mult_mod_eq)
  qed
qed

lemma show_int_inject: "show_int i = show_int j \<Longrightarrow> i = j"
proof -
  have "CHR ''-'' \<notin> set (show_nat n)" for n
  proof
    assume "CHR ''-'' \<in> set (show_nat n)"
    then obtain d where "d < (10 :: nat)" and "CHR ''-'' = char_of (48 + d)"
      using show_nat_digits by blast
    then have "of_char CHR ''-'' = (48 + d) mod 256" by (metis of_char_of)
    then show False using \<open>d < 10\<close> by simp
  qed
  then have "show_nat n \<noteq> CHR ''-'' # xs" for n xs by (metis list.set_intros(1))
  then show "show_int i = show_int j \<Longrightarrow> i = j"
    by (auto simp: show_int_def dest!: show_nat_inject split: if_splits) (metis \<open>\<And>xs n. show_nat n \<noteq> CHR ''-'' # xs\<close>)+
qed

lemma debug_kind_inject: "debug_kind k = debug_kind k' \<longleftrightarrow> k = k'"
  by (cases k; cases k') auto

lemma join_kinds_inject:
  "join_strs '', '' (map debug_kind ks) = join_strs '', '' (map debug_kind ls) \<Longrightarrow> ks = ls"
proof (induction ks arbitrary: ls)
  case Nil
  then show ?case by (cases ls; cases "hd ls"; cases "tl ls") auto
next
  case (Cons k ks)
  have comma: "CHR '','' \<notin> set (debug_kind x)" for x by (cases x) auto
  have head: "takeWhile (\<lambda>c. c \<noteq> CHR '','') (join_strs '', '' (map debug_kind (x # xs))) = debug_kind x"
    for x xs using comma [of x] by (cases xs) (auto simp: takeWhile_append takeWhile_eq_all_conv)
  have ne: "join_strs '', '' (map debug_kind (x # xs)) \<noteq> []" for x xs
    by (cases x; cases xs) auto
  from Cons.prems obtain l ls' where ls: "ls = l # ls'"
    using ne by (cases ls) (metis join_strs.simps(1) list.simps(8), blast)
  have kl: "k = l" using Cons.prems head [of k ks] head [of l ls'] by (simp add: ls debug_kind_inject)
  show ?case
  proof (cases "ks = [] \<or> ls' = []")
    case True
    then show ?thesis
      using Cons.prems kl by (cases ks; cases ls') (auto simp: ls)
  next
    case False
    then have "join_strs '', '' (map debug_kind ks) = join_strs '', '' (map debug_kind ls')"
      using Cons.prems kl by (cases ks; cases ls') (auto simp: ls)
    then show ?thesis using Cons.IH kl ls by blast
  qed
qed

definition literal_is_nan :: "literal \<Rightarrow> bool" where
  "literal_is_nan lit = (case lit of LF32 w \<Rightarrow> f32_is_nan w | _ \<Rightarrow> False)"

lemma debug_literal_inject:
  assumes "debug_ok fmt" and "\<not> literal_is_nan a" and "debug_literal fmt a = debug_literal fmt b"
  shows "a = b"
proof -
  have str: "dbg_str fmt s = dbg_str fmt t \<longleftrightarrow> s = t" for s t
    using assms(1) by (auto simp: debug_ok_def inj_def)
  have nat: "show_nat m = show_nat n \<longleftrightarrow> m = n" for m n by (auto dest: show_nat_inject)
  have int: "show_int i = show_int j \<longleftrightarrow> i = j" for i j by (auto dest: show_int_inject)
  show ?thesis
    using assms
    by (cases a; cases b)
      (auto simp: str nat int literal_is_nan_def debug_kind_inject debug_ok_def
        dest: join_kinds_inject word_unat_eq_iff [THEN iffD2] signed_word_eqI split: if_splits)
qed

section \<open>Lemmas: sorting\<close>

text \<open>The comparisons of \<^verbatim>\<open>sort_rows\<close> are total preorders; for scores, where no score is NaN.\<close>

definition sortable :: "sort_key \<Rightarrow> qrecord set \<Rightarrow> bool" where
  "sortable by_key A \<longleftrightarrow> (by_key = ScoreDesc \<longrightarrow> (\<forall>r\<in>A. \<not> f32_is_nan (r_score r)))"

lemma cmp_of_uminus: "cmp_of (b :: int) a = cmp_of (- a) (- b)"
  by (auto simp: cmp_of_def)

lemma cmp_preorder_score_desc:
  "\<forall>r\<in>A. \<not> f32_is_nan (r_score r) \<Longrightarrow> cmp_preorder A score_desc"
  by (rule cmp_preorder_key [where k = "\<lambda>r. - f32_mag (r_score r)"])
    (simp add: score_desc_def f32_partial_cmp_def cmp_of_uminus [symmetric])

lemma cmp_preorder_created_desc: "cmp_preorder A created_desc"
  by (rule cmp_preorder_key [where k = "\<lambda>r. - sint (r_created_at_ms r)"])
    (simp add: created_desc_def cmp_of_uminus [symmetric])

lemma cmp_preorder_field_cmp: "cmp_preorder A (field_cmp field)"
  by (rule cmp_preorder_key [where k = "\<lambda>r. case field_literal r field of
          None \<Rightarrow> [1] | Some l \<Rightarrow> 0 # literal_key l"])
    (auto simp: field_cmp_def cmp_of_def less_literal_def split: option.splits)

lemma cmp_preorder_sort_cmp: "sortable by_key A \<Longrightarrow> cmp_preorder A (sort_cmp by_key)"
  by (cases by_key) (auto simp: sort_cmp_def sortable_def cmp_preorder_score_desc
      cmp_preorder_created_desc cmp_preorder_field_cmp)

lemma take_sort_rows:
  fixes k :: nat
  assumes "sortable by_key (set rows)"
  defines "out \<equiv> take k (sort_rows rows by_key)" and "rest \<equiv> drop k (sort_rows rows by_key)"
  shows "mset rows = mset out + mset rest"
    and "sorted_wrt (\<lambda>a b. sort_cmp by_key a b \<noteq> Greater) out"
    and "\<forall>a\<in>set out. \<forall>b\<in>set rest. sort_cmp by_key a b \<noteq> Greater"
proof -
  let ?R = "\<lambda>a b. sort_cmp by_key a b \<noteq> Greater"
  have "sorted_wrt ?R (sort_rows rows by_key)"
    unfolding sort_rows_def by (rule sort_by_sorted [OF cmp_preorder_sort_cmp [OF assms(1)]]) simp
  moreover have split: "sort_rows rows by_key = out @ rest" by (simp add: out_def rest_def)
  ultimately have "sorted_wrt ?R (out @ rest)" by simp
  then show "sorted_wrt ?R out" "\<forall>a\<in>set out. \<forall>b\<in>set rest. ?R a b"
    by (auto simp: sorted_wrt_append)
  show "mset rows = mset out + mset rest"
    using arg_cong [OF split, of mset] by (simp add: sort_rows_def)
qed

section \<open>Grouping\<close>

lemma count_group_fold:
  assumes "btree_ok g"
  shows "btree_ok (foldl (count_group gb) g rows) \<and>
    (\<forall>k. btree_get (foldl (count_group gb) g rows) k =
       (let n = length (filter (\<lambda>r. aggregate_group_key r gb = Some k) rows)
        in if n = 0 then btree_get g k
           else Some ((case btree_get g k of None \<Rightarrow> 0 | Some c \<Rightarrow> c) + word_of_nat n)))"
  using assms
proof (induction rows arbitrary: g)
  case Nil
  then show ?case by simp
next
  case (Cons r rows)
  have ok: "btree_ok (count_group gb g r)"
    using Cons.prems by (auto simp: count_group_def btree_ok_insert split: option.splits)
  have get: "btree_get (count_group gb g r) k =
      (if aggregate_group_key r gb = Some k
       then Some ((case btree_get g k of None \<Rightarrow> 0 | Some c \<Rightarrow> c) + 1) else btree_get g k)" for k
    using Cons.prems by (auto simp: count_group_def btree_get_insert split: option.splits)
  show ?case
    using Cons.IH [OF ok] by (auto simp: get Let_def add.assoc split: if_splits)
qed

text \<open>
  C35. Aggregation is grouping: one row per distinct key that occurs among the rows, in
  ascending key order, carrying as count the number of rows with that key. Rows that lack a
  grouping field belong to no group.
\<close>

theorem aggregate_records_correct:
  "aggregate_records fmt rows group_by aggregate =
     map (\<lambda>key. group_record fmt group_by aggregate
            (key, word_of_nat (length (filter (\<lambda>r. aggregate_group_key r group_by = Some key) rows))))
       (sorted_list_of_set {key. \<exists>r\<in>set rows. aggregate_group_key r group_by = Some key})"
proof -
  let ?g = "foldl (count_group group_by) [] rows"
  let ?n = "\<lambda>k. length (filter (\<lambda>r. aggregate_group_key r group_by = Some k) rows)"
  have fold: "btree_ok ?g"
      "btree_get ?g k = (if ?n k = 0 then None else Some (word_of_nat (?n k)))" for k
    using count_group_fold [of "[]" group_by rows] by (auto simp: btree_ok_def Let_def)
  have dist: "distinct (map fst ?g)"
    using fold(1) by (simp add: btree_ok_def strict_sorted_iff)
  have val: "v = word_of_nat (?n k)" if "(k, v) \<in> set ?g" for k v
    using map_of_is_SomeI [OF dist that] fold(2) [of k] by (auto split: if_splits)
  have "fst ` set ?g = dom (btree_get ?g)" by (rule dom_map_of_conv_image_fst [symmetric])
  also have "\<dots> = {k. \<exists>r\<in>set rows. aggregate_group_key r group_by = Some k}"
    by (auto simp: dom_def fold(2) filter_empty_conv split: if_splits)
  finally have keys: "map fst ?g = sorted_list_of_set {k. \<exists>r\<in>set rows. aggregate_group_key r group_by = Some k}"
    using btree_keys [OF fold(1)] by simp
  have "map (group_record fmt group_by aggregate) ?g =
      map (\<lambda>e. group_record fmt group_by aggregate (fst e, word_of_nat (?n (fst e)))) ?g"
    by (rule map_cong [OF refl]) (metis prod.collapse val)
  also have "\<dots> = map (\<lambda>k. group_record fmt group_by aggregate (k, word_of_nat (?n k))) (map fst ?g)"
    by (simp only: map_map comp_def)
  finally show ?thesis
    unfolding aggregate_records_def keys [symmetric] .
qed

end
