(* ===== verification/Storage.thy ===== *)
theory Storage
  imports Kv Core_Types
begin

text \<open>
  The node store of \<^verbatim>\<open>crates/mmdb-storage\<close>: the key encodings of \<^verbatim>\<open>keys.rs\<close> and the engine of
  \<^verbatim>\<open>engine.rs\<close>, which writes a node and its time, kind, meta and metadata index entries in one
  batch. The JSON codecs of nodes, metadata values and metadata pairs are parameters; a theorem asks
  that the values at hand survive a round trip (\<open>codec_ok\<close>).
\<close>

record 'ks storage =
  st_kv :: "'ks kv"
  st_node :: "memory_node codec"
  st_value :: "json codec"
  st_pair :: "(string \<times> json) codec"

section \<open>Keys\<close>

definition node_key :: "u32 \<Rightarrow> ulid \<Rightarrow> bytes" where
  "node_key tenant i = u32_be tenant @ u128_be i"

definition time_key :: "u32 \<Rightarrow> i64 \<Rightarrow> ulid \<Rightarrow> bytes" where
  "time_key tenant ts_ms i = u32_be tenant @ u64_be ts_ms @ u128_be i"

definition kind_key :: "u32 \<Rightarrow> byte \<Rightarrow> i64 \<Rightarrow> ulid \<Rightarrow> bytes" where
  "kind_key tenant kind ts_ms i = u32_be tenant @ [kind] @ u64_be ts_ms @ u128_be i"

definition time_range :: "u32 \<Rightarrow> i64 \<Rightarrow> i64 \<Rightarrow> bytes \<times> bytes" where
  "time_range tenant from_ms to_ms =
     (u32_be tenant @ u64_be from_ms, u32_be tenant @ u64_be to_ms)"

definition id_from_time_key :: "bytes \<Rightarrow> ulid option" where
  "id_from_time_key k =
     (if length k \<noteq> 4 + 8 + 16 then None else Some (u128_from_be (take 16 (drop 12 k))))"

definition NODES :: string where "NODES = ''nodes''"
definition NODES_BY_TIME :: string where "NODES_BY_TIME = ''nodes_by_time''"
definition NODES_BY_KIND :: string where "NODES_BY_KIND = ''nodes_by_kind''"
definition NODES_META :: string where "NODES_META = ''nodes_meta''"
definition META_INDEX :: string where "META_INDEX = ''meta_index''"

section \<open>The compact meta row\<close>

record node_meta =
  nm_kind :: byte
  nm_created_at_ms :: i64
  nm_updated_at_ms :: i64

definition encode_meta :: "memory_node \<Rightarrow> bytes" where
  "encode_meta n = as_u8 (mn_kind n) # u64_be (mn_created_at_ms n) @ u64_be (mn_updated_at_ms n)"

definition decode_meta :: "bytes \<Rightarrow> node_meta option" where
  "decode_meta b =
     (if length b \<noteq> 1 + 8 + 8 then None
      else Some \<lparr>nm_kind = b ! 0,
                 nm_created_at_ms = u64_from_be (take 8 (drop 1 b)),
                 nm_updated_at_ms = u64_from_be (take 8 (drop 9 b))\<rparr>)"

section \<open>The metadata index\<close>

definition fnv1a32 :: "bytes \<Rightarrow> u32" where
  "fnv1a32 bs = foldl (\<lambda>h b. (h XOR ucast b) * 0x01000193) 0x811c9dc5 bs"

definition fnv1a64 :: "bytes \<Rightarrow> u64" where
  "fnv1a64 bs = foldl (\<lambda>h b. (h XOR ucast b) * 0x00000100000001b3) 0xcbf29ce484222325 bs"

definition meta_index_prefix :: "'ks storage \<Rightarrow> u32 \<Rightarrow> string \<Rightarrow> json \<Rightarrow> bytes result" where
  "meta_index_prefix st tenant field value =
     bind_res (map_err Json (ser (st_value st) value)) (\<lambda>value_bytes.
     Inr (u32_be tenant @ u32_be (fnv1a32 (as_bytes field)) @ u64_be (fnv1a64 value_bytes)))"

definition meta_index_key :: "'ks storage \<Rightarrow> u32 \<Rightarrow> string \<Rightarrow> json \<Rightarrow> ulid \<Rightarrow> bytes result" where
  "meta_index_key st tenant field value i =
     bind_res (meta_index_prefix st tenant field value) (\<lambda>key. Inr (key @ u128_be i))"

definition meta_index_range ::
    "'ks storage \<Rightarrow> u32 \<Rightarrow> string \<Rightarrow> json \<Rightarrow> (bytes \<times> bytes) result" where
  "meta_index_range st tenant field value =
     bind_res (meta_index_prefix st tenant field value) (\<lambda>lo. Inr (lo, lo @ replicate 16 0xff))"

definition id_from_meta_index_key :: "bytes \<Rightarrow> ulid option" where
  "id_from_meta_index_key k =
     (if length k \<noteq> 4 + 4 + 8 + 16 then None else Some (u128_from_be (take 16 (drop 16 k))))"

definition meta_index_value_matches :: "'ks storage \<Rightarrow> bytes \<Rightarrow> string \<Rightarrow> json \<Rightarrow> bool" where
  "meta_index_value_matches st v field value =
     (case de (st_pair st) v of Inl _ \<Rightarrow> False | Inr (f, x) \<Rightarrow> f = field \<and> x = value)"

definition meta_index_entries :: "'ks storage \<Rightarrow> memory_node \<Rightarrow> (bytes \<times> bytes) list result" where
  "meta_index_entries st n =
     collect_res (map (\<lambda>(field, value).
       bind_res (meta_index_key st (mn_tenant n) field value (mn_id n)) (\<lambda>key.
       bind_res (map_err Json (ser (st_pair st) (field, value))) (\<lambda>v. Inr (key, v))))
     (mn_metadata n))"

definition meta_index_keys :: "'ks storage \<Rightarrow> memory_node \<Rightarrow> bytes list" where
  "meta_index_keys st n =
     List.map_filter (\<lambda>(field, value).
       case meta_index_key st (mn_tenant n) field value (mn_id n) of Inl _ \<Rightarrow> None | Inr k \<Rightarrow> Some k)
     (mn_metadata n)"

section \<open>Reads and writes\<close>

definition encode_node :: "'ks storage \<Rightarrow> memory_node \<Rightarrow> bytes result" where
  "encode_node st n = map_err Json (ser (st_node st) n)"

definition decode_node :: "'ks storage \<Rightarrow> bytes \<Rightarrow> memory_node result" where
  "decode_node st b = map_err Json (de (st_node st) b)"

definition get_node :: "'ks storage \<Rightarrow> 'ks \<Rightarrow> u32 \<Rightarrow> ulid \<Rightarrow> memory_node option result" where
  "get_node st ks tenant i =
     bind_res (map_err Storage (kv_get (st_kv st) ks NODES (node_key tenant i))) (\<lambda>r.
     case r of Some v \<Rightarrow> bind_res (decode_node st v) (\<lambda>n. Inr (Some n)) | None \<Rightarrow> Inr None)"

definition index_removals :: "'ks storage \<Rightarrow> memory_node \<Rightarrow> batch_op list" where
  "index_removals st old =
     [BRemove NODES_BY_TIME (time_key (mn_tenant old) (mn_created_at_ms old) (mn_id old)),
      BRemove NODES_BY_KIND
        (kind_key (mn_tenant old) (as_u8 (mn_kind old)) (mn_created_at_ms old) (mn_id old))] @
     map (BRemove META_INDEX) (meta_index_keys st old)"

definition put_node :: "'ks storage \<Rightarrow> memory_node \<Rightarrow> 'ks \<Rightarrow> unit result \<times> 'ks" where
  "put_node st n ks =
     bind_st (get_node st ks (mn_tenant n) (mn_id n), ks) (\<lambda>old ks.
     bind_st (encode_node st n, ks) (\<lambda>bs ks.
     let nk = node_key (mn_tenant n) (mn_id n);
         tk = time_key (mn_tenant n) (mn_created_at_ms n) (mn_id n);
         kk = kind_key (mn_tenant n) (as_u8 (mn_kind n)) (mn_created_at_ms n) (mn_id n);
         removals = (case old of None \<Rightarrow> [] | Some o' \<Rightarrow> index_removals st o')
     in bind_st (meta_index_entries st n, ks) (\<lambda>es ks.
        commit_persist (st_kv st)
          (removals @
           [BInsert NODES nk bs, BInsert NODES_BY_TIME tk [], BInsert NODES_BY_KIND kk [],
            BInsert NODES_META nk (encode_meta n)] @
           map (\<lambda>(k, v). BInsert META_INDEX k v) es) ks)))"

fun scan_nodes ::
    "'ks storage \<Rightarrow> 'ks \<Rightarrow> u32 \<Rightarrow> nat \<Rightarrow> kv_item list \<Rightarrow> memory_node list \<Rightarrow> memory_node list result"
where
  "scan_nodes st ks tenant limit [] out = Inr out"
| "scan_nodes st ks tenant limit (Inl e # items) out = Inl (Storage e)"
| "scan_nodes st ks tenant limit (Inr (k, v) # items) out =
     (case id_from_time_key k of
        None \<Rightarrow> scan_nodes st ks tenant limit items out
      | Some i \<Rightarrow>
          bind_res (get_node st ks tenant i) (\<lambda>r.
          case r of
            None \<Rightarrow> scan_nodes st ks tenant limit items out
          | Some n \<Rightarrow>
              (if limit \<le> length (out @ [n]) then Inr (out @ [n])
               else scan_nodes st ks tenant limit items (out @ [n]))))"

definition scan_by_time ::
    "'ks storage \<Rightarrow> 'ks \<Rightarrow> u32 \<Rightarrow> i64 \<Rightarrow> i64 \<Rightarrow> nat \<Rightarrow> memory_node list result" where
  "scan_by_time st ks tenant from_ms to_ms limit =
     (let (lo, hi) = time_range tenant from_ms to_ms
      in scan_nodes st ks tenant limit (kv_range (st_kv st) ks NODES_BY_TIME lo hi) [])"

definition delete_node :: "'ks storage \<Rightarrow> u32 \<Rightarrow> ulid \<Rightarrow> 'ks \<Rightarrow> unit result \<times> 'ks" where
  "delete_node st tenant i ks =
     bind_st (get_node st ks tenant i, ks) (\<lambda>r ks.
     case r of
       None \<Rightarrow> (Inr (), ks)
     | Some n \<Rightarrow>
         let nk = node_key tenant i;
             tk = time_key tenant (mn_created_at_ms n) i;
             kk = kind_key tenant (as_u8 (mn_kind n)) (mn_created_at_ms n) i
         in commit_persist (st_kv st)
              ([BRemove NODES nk, BRemove NODES_BY_TIME tk, BRemove NODES_BY_KIND kk,
                BRemove NODES_META nk] @
               map (BRemove META_INDEX) (meta_index_keys st n)) ks)"

definition get_node_meta :: "'ks storage \<Rightarrow> 'ks \<Rightarrow> u32 \<Rightarrow> ulid \<Rightarrow> node_meta option result" where
  "get_node_meta st ks tenant i =
     bind_res (map_err Storage (kv_get (st_kv st) ks NODES_META (node_key tenant i))) (\<lambda>r.
     case r of Some v \<Rightarrow> Inr (decode_meta v) | None \<Rightarrow> Inr None)"

fun collect_ids :: "'ks storage \<Rightarrow> string \<Rightarrow> json \<Rightarrow> kv_item list \<Rightarrow> ulid set \<Rightarrow> ulid set result" where
  "collect_ids st field value [] out = Inr out"
| "collect_ids st field value (Inl e # items) out = Inl (Storage e)"
| "collect_ids st field value (Inr (k, v) # items) out =
     (if \<not> meta_index_value_matches st v field value then collect_ids st field value items out
      else case id_from_meta_index_key k of
             None \<Rightarrow> collect_ids st field value items out
           | Some i \<Rightarrow> collect_ids st field value items (insert i out))"

definition node_ids_by_metadata :: "'ks storage \<Rightarrow> 'ks \<Rightarrow> u32 \<Rightarrow> string \<Rightarrow> json \<Rightarrow> ulid set result" where
  "node_ids_by_metadata st ks tenant field value =
     bind_res (meta_index_range st tenant field value) (\<lambda>(lo, hi).
     collect_ids st field value (kv_range (st_kv st) ks META_INDEX lo hi) {})"

section \<open>The abstract store and its invariant\<close>

text \<open>
  The abstract content of a keyspace is the partial map from tenant and id to nodes. The
  invariant says that the five partitions agree with it: each stored value is a node under its
  own key, and the index partitions hold exactly the entries of the stored nodes. Two metadata
  pairs of one node may share an index key (the key holds hashes), so for that partition the
  invariant asks that every entry belongs to a stored pair and that every pair has an entry.
\<close>

definition stored :: "'ks storage \<Rightarrow> kv_view \<Rightarrow> u32 \<Rightarrow> ulid \<Rightarrow> memory_node option" where
  "stored st m t i =
     (case m NODES (node_key t i) of
        None \<Rightarrow> None
      | Some b \<Rightarrow> (case de (st_node st) b of Inl _ \<Rightarrow> None | Inr n \<Rightarrow> Some n))"

definition nodes_ok :: "'ks storage \<Rightarrow> kv_view \<Rightarrow> bool" where
  "nodes_ok st m \<longleftrightarrow>
     (\<forall>k b. m NODES k = Some b \<longrightarrow>
        (\<exists>n. de (st_node st) b = Inr n \<and> k = node_key (mn_tenant n) (mn_id n)))"

definition time_index_ok :: "'ks storage \<Rightarrow> kv_view \<Rightarrow> bool" where
  "time_index_ok st m \<longleftrightarrow>
     (\<forall>k. m NODES_BY_TIME k \<noteq> None \<longleftrightarrow>
        (\<exists>t i n. stored st m t i = Some n \<and> k = time_key t (mn_created_at_ms n) i))"

definition kind_index_ok :: "'ks storage \<Rightarrow> kv_view \<Rightarrow> bool" where
  "kind_index_ok st m \<longleftrightarrow>
     (\<forall>k. m NODES_BY_KIND k \<noteq> None \<longleftrightarrow>
        (\<exists>t i n. stored st m t i = Some n \<and> k = kind_key t (as_u8 (mn_kind n)) (mn_created_at_ms n) i))"

definition meta_rows_ok :: "'ks storage \<Rightarrow> kv_view \<Rightarrow> bool" where
  "meta_rows_ok st m \<longleftrightarrow>
     (\<forall>t i. m NODES_META (node_key t i) = map_option encode_meta (stored st m t i)) \<and>
     (\<forall>k. m NODES_META k \<noteq> None \<longrightarrow> (\<exists>t i. k = node_key t i))"

definition meta_index_sound :: "'ks storage \<Rightarrow> kv_view \<Rightarrow> bool" where
  "meta_index_sound st m \<longleftrightarrow>
     (\<forall>k v. m META_INDEX k = Some v \<longrightarrow>
        (\<exists>t i n f j. stored st m t i = Some n \<and> (f, j) \<in> set (mn_metadata n) \<and>
           meta_index_key st t f j i = Inr k \<and> ser (st_pair st) (f, j) = Inr v \<and>
           codec_ok (st_pair st) (f, j)))"

definition meta_index_complete :: "'ks storage \<Rightarrow> kv_view \<Rightarrow> bool" where
  "meta_index_complete st m \<longleftrightarrow>
     (\<forall>t i n f j. stored st m t i = Some n \<longrightarrow> (f, j) \<in> set (mn_metadata n) \<longrightarrow>
        (\<exists>k. meta_index_key st t f j i = Inr k \<and> m META_INDEX k \<noteq> None))"

definition storage_inv :: "'ks storage \<Rightarrow> kv_view \<Rightarrow> bool" where
  "storage_inv st m \<longleftrightarrow>
     nodes_ok st m \<and> time_index_ok st m \<and> kind_index_ok st m \<and> meta_rows_ok st m \<and>
     meta_index_sound st m \<and> meta_index_complete st m"

text \<open>What a write relies on: the node, its metadata values and pairs survive the codec.\<close>

definition node_codec_ok :: "'ks storage \<Rightarrow> memory_node \<Rightarrow> bool" where
  "node_codec_ok st n \<longleftrightarrow>
     codec_ok (st_node st) n \<and>
     (\<forall>(f, j) \<in> set (mn_metadata n). codec_ok (st_value st) j \<and> codec_ok (st_pair st) (f, j))"

section \<open>Lemmas: keys\<close>

lemma node_key_inject [simp]: "node_key t i = node_key t' i' \<longleftrightarrow> t = t' \<and> i = i'"
  by (simp add: node_key_def)

lemma time_key_inject [simp]: "time_key t c i = time_key t' c' i' \<longleftrightarrow> t = t' \<and> c = c' \<and> i = i'"
  by (simp add: time_key_def)

lemma kind_key_inject [simp]:
  "kind_key t x c i = kind_key t' x' c' i' \<longleftrightarrow> t = t' \<and> x = x' \<and> c = c' \<and> i = i'"
  by (simp add: kind_key_def)

lemma id_from_time_key [simp]: "id_from_time_key (time_key t c i) = Some i"
  by (simp add: id_from_time_key_def time_key_def)

lemma decode_encode_meta:
  "decode_meta (encode_meta n) =
     Some \<lparr>nm_kind = as_u8 (mn_kind n), nm_created_at_ms = mn_created_at_ms n,
           nm_updated_at_ms = mn_updated_at_ms n\<rparr>"
  by (simp add: decode_meta_def encode_meta_def)

lemma meta_index_prefix_length: "meta_index_prefix st t f j = Inr p \<Longrightarrow> length p = 16"
  by (auto simp: meta_index_prefix_def bind_res_eq_Inr)

lemma meta_index_key_eq:
  "meta_index_key st t f j i = Inr k \<longleftrightarrow> (\<exists>p. meta_index_prefix st t f j = Inr p \<and> k = p @ u128_be i)"
  by (auto simp: meta_index_key_def bind_res_eq_Inr)

lemma id_from_meta_index_key [simp]:
  "meta_index_key st t f j i = Inr k \<Longrightarrow> id_from_meta_index_key k = Some i"
  by (auto simp: meta_index_key_eq id_from_meta_index_key_def dest: meta_index_prefix_length)

text \<open>The tenant is the first four bytes of an index key, and the id its last sixteen.\<close>

lemma meta_index_prefix_tenant:
  "meta_index_prefix st t f j = Inr p \<Longrightarrow> meta_index_prefix st t' f' j' = Inr p \<Longrightarrow> t = t'"
  by (auto simp: meta_index_prefix_def bind_res_eq_Inr)

lemma meta_index_key_owner:
  assumes "meta_index_key st t f j i = Inr k" "meta_index_key st t' f' j' i' = Inr k"
  shows "t = t' \<and> i = i'"
proof -
  obtain p p' where p: "meta_index_prefix st t f j = Inr p" "k = p @ u128_be i"
    and p': "meta_index_prefix st t' f' j' = Inr p'" "k = p' @ u128_be i'"
    using assms by (auto simp: meta_index_key_eq)
  then have "p = p' \<and> i = i'"
    by (simp add: meta_index_prefix_length append_eq_append_conv)
  then show ?thesis using p p' meta_index_prefix_tenant by metis
qed

section \<open>Lemmas: batches\<close>

lemma part_neq [simp]:
  "NODES \<noteq> NODES_BY_TIME" "NODES \<noteq> NODES_BY_KIND" "NODES \<noteq> NODES_META" "NODES \<noteq> META_INDEX"
  "NODES_BY_TIME \<noteq> NODES" "NODES_BY_KIND \<noteq> NODES" "NODES_META \<noteq> NODES" "META_INDEX \<noteq> NODES"
  "NODES_BY_TIME \<noteq> NODES_BY_KIND" "NODES_BY_TIME \<noteq> NODES_META" "NODES_BY_TIME \<noteq> META_INDEX"
  "NODES_BY_KIND \<noteq> NODES_BY_TIME" "NODES_META \<noteq> NODES_BY_TIME" "META_INDEX \<noteq> NODES_BY_TIME"
  "NODES_BY_KIND \<noteq> NODES_META" "NODES_BY_KIND \<noteq> META_INDEX" "NODES_META \<noteq> NODES_BY_KIND"
  "META_INDEX \<noteq> NODES_BY_KIND" "NODES_META \<noteq> META_INDEX" "META_INDEX \<noteq> NODES_META"
  by (simp_all add: NODES_def NODES_BY_TIME_def NODES_BY_KIND_def NODES_META_def META_INDEX_def)

section \<open>Lemmas: index maintenance\<close>

text \<open>
  An index that mirrors a map \<open>S\<close> through keys \<open>K t i n\<close> owned by one \<open>(t, i)\<close> still mirrors it
  after the old entry of \<open>(t, i)\<close> is removed and, for a write, the new one is inserted.
\<close>

definition mirrors :: "(u32 \<Rightarrow> ulid \<Rightarrow> memory_node \<Rightarrow> bytes) \<Rightarrow> (u32 \<Rightarrow> ulid \<Rightarrow> memory_node option) \<Rightarrow>
    (bytes \<Rightarrow> bytes option) \<Rightarrow> bool" where
  "mirrors K S idx \<longleftrightarrow> (\<forall>k. idx k \<noteq> None \<longleftrightarrow> (\<exists>t i n. S t i = Some n \<and> k = K t i n))"

definition set_node :: "u32 \<Rightarrow> ulid \<Rightarrow> memory_node option \<Rightarrow> (u32 \<Rightarrow> ulid \<Rightarrow> memory_node option) \<Rightarrow>
    u32 \<Rightarrow> ulid \<Rightarrow> memory_node option" where
  "set_node t i r S = S(t := (S t)(i := r))"

lemma set_node_apply [simp]:
  "set_node t i r S t' i' = (if t' = t \<and> i' = i then r else S t' i')"
  by (simp add: set_node_def)

lemma mirrors_put:
  assumes own: "\<And>t i n t' i' n'. K t i n = K t' i' n' \<Longrightarrow> t = t' \<and> i = i'"
    and mir: "mirrors K S idx"
    and upd: "idx' = (case S t i of None \<Rightarrow> idx | Some r \<Rightarrow> idx(K t i r := None))(K t i n \<mapsto> v)"
  shows "mirrors K (set_node t i (Some n) S) idx'"
  unfolding mirrors_def
proof
  fix k
  have idx: "idx k \<noteq> None \<longleftrightarrow> (\<exists>t i n. S t i = Some n \<and> k = K t i n)"
    using mir by (simp add: mirrors_def)
  show "idx' k \<noteq> None \<longleftrightarrow> (\<exists>t' i' n'. set_node t i (Some n) S t' i' = Some n' \<and> k = K t' i' n')"
    (is "_ \<longleftrightarrow> ?R")
  proof (cases "k = K t i n")
    case True
    then have ?R by (intro exI [of _ t] exI [of _ i] exI [of _ n]) simp
    then show ?thesis using True upd by simp
  next
    case new: False
    then have R: "?R \<longleftrightarrow> (\<exists>t' i' n'. (t' \<noteq> t \<or> i' \<noteq> i) \<and> S t' i' = Some n' \<and> k = K t' i' n')"
      by (auto split: if_splits)
    show ?thesis
    proof (cases "\<exists>r. S t i = Some r \<and> k = K t i r")
      case True
      then obtain r where r: "k = K t i r" by blast
      have "\<not> ?R"
      proof
        assume ?R
        then obtain t' i' n' where "t' \<noteq> t \<or> i' \<noteq> i" "k = K t' i' n'" using R by blast
        then show False using own [of t' i' n' t i r] r by auto
      qed
      moreover have "idx' k = None" using True new upd by auto
      ultimately show ?thesis by blast
    next
      case False
      then have "idx' k = idx k" using new upd by (auto split: option.splits)
      moreover have "(\<exists>t i n. S t i = Some n \<and> k = K t i n) \<longleftrightarrow> ?R"
        unfolding R using False by metis
      ultimately show ?thesis using idx by simp
    qed
  qed
qed

lemma mirrors_delete:
  assumes own: "\<And>t i n t' i' n'. K t i n = K t' i' n' \<Longrightarrow> t = t' \<and> i = i'"
    and mir: "mirrors K S idx" and old: "S t i = Some r"
  shows "mirrors K (set_node t i None S) (idx(K t i r := None))"
  unfolding mirrors_def
proof
  fix k
  have idx: "idx k \<noteq> None \<longleftrightarrow> (\<exists>t i n. S t i = Some n \<and> k = K t i n)"
    using mir by (simp add: mirrors_def)
  show "(idx(K t i r := None)) k \<noteq> None \<longleftrightarrow>
      (\<exists>t' i' n'. set_node t i None S t' i' = Some n' \<and> k = K t' i' n')"
    (is "?L \<longleftrightarrow> ?R")
  proof (cases "k = K t i r")
    case True
    have "\<not> ?R"
    proof
      assume ?R
      then obtain t' i' n' where "t' \<noteq> t \<or> i' \<noteq> i" "k = K t' i' n'" by (auto split: if_splits)
      then show False using own [of t' i' n' t i r] True by auto
    qed
    then show ?thesis using True by simp
  next
    case False
    have "?R \<longleftrightarrow> (\<exists>t' i' n'. (t' \<noteq> t \<or> i' \<noteq> i) \<and> S t' i' = Some n' \<and> k = K t' i' n')"
      by (auto split: if_splits)
    also have "\<dots> \<longleftrightarrow> (\<exists>t i n. S t i = Some n \<and> k = K t i n)"
      using False old by (metis option.inject)
    finally show ?thesis using False idx by simp
  qed
qed

lemma time_index_mirrors:
  "time_index_ok st m \<longleftrightarrow> mirrors (\<lambda>t i n. time_key t (mn_created_at_ms n) i) (stored st m) (m NODES_BY_TIME)"
  by (simp add: time_index_ok_def mirrors_def)

lemma kind_index_mirrors:
  "kind_index_ok st m \<longleftrightarrow>
     mirrors (\<lambda>t i n. kind_key t (as_u8 (mn_kind n)) (mn_created_at_ms n) i) (stored st m) (m NODES_BY_KIND)"
  by (simp add: kind_index_ok_def mirrors_def)

lemma stored_owner: "nodes_ok st m \<Longrightarrow> stored st m t i = Some n \<Longrightarrow> mn_tenant n = t \<and> mn_id n = i"
  by (force simp: stored_def nodes_ok_def split: option.splits sum.splits)

lemma stored_put:
  assumes "m' NODES = (m NODES)(node_key t i \<mapsto> b)" and "de (st_node st) b = Inr n"
  shows "stored st m' = set_node t i (Some n) (stored st m)"
  using assms by (auto simp: fun_eq_iff stored_def)

lemma stored_delete:
  assumes "m' NODES = (m NODES)(node_key t i := None)"
  shows "stored st m' = set_node t i None (stored st m)"
  using assms by (auto simp: fun_eq_iff stored_def)

lemma set_meta_index_keys:
  "k \<in> set (meta_index_keys st n) \<longleftrightarrow>
     (\<exists>f j. (f, j) \<in> set (mn_metadata n) \<and> meta_index_key st (mn_tenant n) f j (mn_id n) = Inr k)"
  by (force simp: meta_index_keys_def in_set_map_filter split: sum.splits)

lemma meta_rows_put:
  assumes "meta_rows_ok st m" and "stored st m' = set_node t i (Some n) (stored st m)"
    and "m' NODES_META = (m NODES_META)(node_key t i \<mapsto> encode_meta n)"
  shows "meta_rows_ok st m'"
  using assms by (auto simp: meta_rows_ok_def)

lemma meta_rows_delete:
  assumes "meta_rows_ok st m" and "stored st m' = set_node t i None (stored st m)"
    and "m' NODES_META = (m NODES_META)(node_key t i := None)"
  shows "meta_rows_ok st m'"
  using assms by (auto simp: meta_rows_ok_def)

text \<open>The metadata entries a node contributes, when its values encode.\<close>

definition meta_entry_of :: "'ks storage \<Rightarrow> memory_node \<Rightarrow> bytes \<Rightarrow> bytes \<Rightarrow> bool" where
  "meta_entry_of st n k v \<longleftrightarrow>
     (\<exists>f j. (f, j) \<in> set (mn_metadata n) \<and> meta_index_key st (mn_tenant n) f j (mn_id n) = Inr k \<and>
        ser (st_pair st) (f, j) = Inr v \<and> codec_ok (st_pair st) (f, j))"

lemma meta_index_entries_ok:
  assumes "node_codec_ok st n"
  obtains es where "meta_index_entries st n = Inr es"
    and "\<And>k v. (k, v) \<in> set es \<longleftrightarrow> meta_entry_of st n k v"
    and "fst ` set es = set (meta_index_keys st n)"
proof -
  define g where "g = (\<lambda>(f, j). (projr (meta_index_key st (mn_tenant n) f j (mn_id n)),
    projr (ser (st_pair st) (f, j))))"
  have key: "\<exists>k. meta_index_key st (mn_tenant n) f j (mn_id n) = Inr k"
    if "(f, j) \<in> set (mn_metadata n)" for f j
    using assms that by (fastforce simp: node_codec_ok_def meta_index_key_def meta_index_prefix_def
        elim!: codec_okE)
  have pair: "\<exists>v. ser (st_pair st) (f, j) = Inr v" "codec_ok (st_pair st) (f, j)"
    if "(f, j) \<in> set (mn_metadata n)" for f j
    using assms that by (fastforce simp: node_codec_ok_def elim!: codec_okE)+
  let ?es = "map g (mn_metadata n)"
  have "meta_index_entries st n = Inr ?es"
    unfolding meta_index_entries_def
  proof (rule collect_res_map_Inr)
    fix x assume x: "x \<in> set (mn_metadata n)"
    obtain f j where fj: "x = (f, j)" by fastforce
    then obtain k v where "meta_index_key st (mn_tenant n) f j (mn_id n) = Inr k"
      "ser (st_pair st) (f, j) = Inr v" using key pair x by blast
    then show "(case x of (field, value) \<Rightarrow>
        bind_res (meta_index_key st (mn_tenant n) field value (mn_id n)) (\<lambda>key.
        bind_res (map_err Json (ser (st_pair st) (field, value))) (\<lambda>v. Inr (key, v)))) = Inr (g x)"
      by (simp add: fj g_def)
  qed
  moreover have "(k, v) \<in> set ?es \<longleftrightarrow> meta_entry_of st n k v" for k v
  proof
    assume "(k, v) \<in> set ?es"
    then obtain f j where fj: "(f, j) \<in> set (mn_metadata n)" "g (f, j) = (k, v)" by auto
    then show "meta_entry_of st n k v"
      using key [OF fj(1)] pair [OF fj(1)] unfolding meta_entry_of_def g_def by fastforce
  next
    assume "meta_entry_of st n k v"
    then obtain f j where "(f, j) \<in> set (mn_metadata n)"
      "meta_index_key st (mn_tenant n) f j (mn_id n) = Inr k" "ser (st_pair st) (f, j) = Inr v"
      unfolding meta_entry_of_def by blast
    then have "(f, j) \<in> set (mn_metadata n)" "(k, v) = g (f, j)" by (simp_all add: g_def)
    then show "(k, v) \<in> set ?es" by (simp add: rev_image_eqI)
  qed
  moreover have "fst ` set ?es = set (meta_index_keys st n)"
  proof -
    have fst_g: "fst (g (f, j)) = projr (meta_index_key st (mn_tenant n) f j (mn_id n))" for f j
      by (simp add: g_def)
    have "k \<in> fst ` set ?es \<longleftrightarrow> k \<in> set (meta_index_keys st n)" for k
    proof
      assume "k \<in> fst ` set ?es"
      then obtain f j where fj: "(f, j) \<in> set (mn_metadata n)" "k = fst (g (f, j))" by auto
      then show "k \<in> set (meta_index_keys st n)"
        using key [OF fj(1)] unfolding set_meta_index_keys fst_g by (metis sum.sel(2))
    next
      assume "k \<in> set (meta_index_keys st n)"
      then obtain f j where "(f, j) \<in> set (mn_metadata n)" "fst (g (f, j)) = k"
        unfolding set_meta_index_keys fst_g by (metis sum.sel(2))
      then show "k \<in> fst ` set ?es" by (metis imageI list.set_map)
    qed
    then show ?thesis by blast
  qed
  ultimately show ?thesis by (rule that)
qed

lemma meta_index_put:
  assumes inv: "meta_index_sound st m" "meta_index_complete st m" "nodes_ok st m"
    and n: "mn_tenant n = t" "mn_id n = i"
    and st': "stored st m' = set_node t i (Some n) (stored st m)"
    and es: "\<And>k v. (k, v) \<in> set es \<longleftrightarrow> meta_entry_of st n k v" "fst ` set es = set (meta_index_keys st n)"
    and cod: "node_codec_ok st n"
    and m': "m' META_INDEX = (case stored st m t i of None \<Rightarrow> m META_INDEX
        | Some r \<Rightarrow> (\<lambda>k. if k \<in> set (meta_index_keys st r) then None else m META_INDEX k)) ++ map_of (rev es)"
  shows "meta_index_sound st m' \<and> meta_index_complete st m'"
proof
  show "meta_index_sound st m'"
    unfolding meta_index_sound_def
  proof (intro allI impI)
    fix k v assume kv: "m' META_INDEX k = Some v"
    show "\<exists>t i n f j. stored st m' t i = Some n \<and> (f, j) \<in> set (mn_metadata n) \<and>
        meta_index_key st t f j i = Inr k \<and> ser (st_pair st) (f, j) = Inr v \<and> codec_ok (st_pair st) (f, j)"
    proof (cases "map_of (rev es) k")
      case (Some w)
      then have "(k, w) \<in> set es" "w = v" using kv m' by (auto dest: map_of_SomeD)
      then have "meta_entry_of st n k v" using es by simp
      then show ?thesis using n st' unfolding meta_entry_of_def
        by (intro exI [of _ t] exI [of _ i] exI [of _ n]) auto
    next
      case None
      then have old: "m META_INDEX k = Some v"
        "\<And>r. stored st m t i = Some r \<Longrightarrow> k \<notin> set (meta_index_keys st r)"
        using kv m' by (auto simp: map_add_def split: option.splits if_splits)
      then obtain t' i' n' f j where w: "stored st m t' i' = Some n'" "(f, j) \<in> set (mn_metadata n')"
        "meta_index_key st t' f j i' = Inr k" "ser (st_pair st) (f, j) = Inr v" "codec_ok (st_pair st) (f, j)"
        using inv(1) unfolding meta_index_sound_def by blast
      have "t' \<noteq> t \<or> i' \<noteq> i"
        using old(2) w stored_owner [OF inv(3) w(1)] by (auto simp: set_meta_index_keys)
      then show ?thesis using w st' by (intro exI [of _ t'] exI [of _ i'] exI [of _ n']) auto
    qed
  qed
next
  show "meta_index_complete st m'"
    unfolding meta_index_complete_def
  proof (intro allI impI)
    fix t' i' n' f j
    assume s': "stored st m' t' i' = Some n'" and fj: "(f, j) \<in> set (mn_metadata n')"
    show "\<exists>k. meta_index_key st t' f j i' = Inr k \<and> m' META_INDEX k \<noteq> None"
    proof (cases "t' = t \<and> i' = i")
      case True
      then have n': "n' = n" using s' st' by simp
      obtain k where k: "meta_index_key st t f j i = Inr k"
        using cod fj n' by (fastforce simp: node_codec_ok_def meta_index_key_def
            meta_index_prefix_def elim!: codec_okE)
      then have "k \<in> fst ` set es" using es(2) fj n n' by (auto simp: set_meta_index_keys)
      then have "map_of (rev es) k \<noteq> None" by (simp add: map_of_eq_None_iff)
      then show ?thesis using k True m' by (auto simp: map_add_def split: option.splits)
    next
      case False
      then have s: "stored st m t' i' = Some n'" using s' st' by auto
      then obtain k where k: "meta_index_key st t' f j i' = Inr k" "m META_INDEX k \<noteq> None"
        using inv(2) fj unfolding meta_index_complete_def by blast
      have "k \<notin> set (meta_index_keys st r)" if "stored st m t i = Some r" for r
        using stored_owner [OF inv(3) that] False k(1)
        by (auto simp: set_meta_index_keys dest: meta_index_key_owner)
      then show ?thesis using k m' by (auto simp: map_add_def split: option.splits)
    qed
  qed
qed

lemma meta_index_delete:
  assumes inv: "meta_index_sound st m" "meta_index_complete st m" "nodes_ok st m"
    and r: "stored st m t i = Some r"
    and st': "stored st m' = set_node t i None (stored st m)"
    and m': "m' META_INDEX = (\<lambda>k. if k \<in> set (meta_index_keys st r) then None else m META_INDEX k)"
  shows "meta_index_sound st m' \<and> meta_index_complete st m'"
proof
  have own: "mn_tenant r = t" "mn_id r = i" using stored_owner [OF inv(3) r] by auto
  show "meta_index_sound st m'"
    unfolding meta_index_sound_def
  proof (intro allI impI)
    fix k v assume kv: "m' META_INDEX k = Some v"
    then have k: "m META_INDEX k = Some v" "k \<notin> set (meta_index_keys st r)"
      using m' by (auto split: if_splits)
    then obtain t' i' n' f j where w: "stored st m t' i' = Some n'" "(f, j) \<in> set (mn_metadata n')"
      "meta_index_key st t' f j i' = Inr k" "ser (st_pair st) (f, j) = Inr v" "codec_ok (st_pair st) (f, j)"
      using inv(1) unfolding meta_index_sound_def by blast
    have "t' \<noteq> t \<or> i' \<noteq> i" using k(2) w r own by (auto simp: set_meta_index_keys)
    then show "\<exists>t i n f j. stored st m' t i = Some n \<and> (f, j) \<in> set (mn_metadata n) \<and>
        meta_index_key st t f j i = Inr k \<and> ser (st_pair st) (f, j) = Inr v \<and> codec_ok (st_pair st) (f, j)"
      using w st' by (intro exI [of _ t'] exI [of _ i'] exI [of _ n']) auto
  qed
  show "meta_index_complete st m'"
    unfolding meta_index_complete_def
  proof (intro allI impI)
    fix t' i' n' f j
    assume s': "stored st m' t' i' = Some n'" and fj: "(f, j) \<in> set (mn_metadata n')"
    then have ne: "t' \<noteq> t \<or> i' \<noteq> i" and s: "stored st m t' i' = Some n'"
      using st' by (auto split: if_splits)
    then obtain k where k: "meta_index_key st t' f j i' = Inr k" "m META_INDEX k \<noteq> None"
      using inv(2) fj unfolding meta_index_complete_def by blast
    have "k \<notin> set (meta_index_keys st r)"
      using own ne k(1) by (auto simp: set_meta_index_keys dest: meta_index_key_owner)
    then show "\<exists>k. meta_index_key st t' f j i' = Inr k \<and> m' META_INDEX k \<noteq> None"
      using k m' by auto
  qed
qed

section \<open>The store over a lawful engine\<close>

locale node_store = kv_engine "st_kv st" view
  for st :: "'ks storage" and view :: "'ks \<Rightarrow> kv_view"
begin

lemma get_node_stored:
  assumes "nodes_ok st (view ks)"
  shows "get_node st ks t i = Inr (stored st (view ks) t i)"
proof (cases "view ks NODES (node_key t i)")
  case None
  then show ?thesis by (simp add: get_node_def get_view stored_def)
next
  case (Some b)
  then obtain n where "de (st_node st) b = Inr n"
    using assms unfolding nodes_ok_def by blast
  with Some show ?thesis by (simp add: get_node_def get_view stored_def decode_node_def)
qed

lemma put_node_step:
  assumes inv: "storage_inv st (view ks)" and cod: "node_codec_ok st n"
  obtains ks' where "put_node st n ks = (Inr (), ks')" "storage_inv st (view ks')"
    "stored st (view ks') = set_node (mn_tenant n) (mn_id n) (Some n) (stored st (view ks))"
proof -
  let ?t = "mn_tenant n" and ?i = "mn_id n" and ?m = "view ks"
  have ok: "nodes_ok st ?m" using inv by (simp add: storage_inv_def)
  obtain b where b: "ser (st_node st) n = Inr b" "de (st_node st) b = Inr n"
    using cod by (auto simp: node_codec_ok_def elim: codec_okE)
  obtain es where es: "meta_index_entries st n = Inr es"
    "\<And>k v. (k, v) \<in> set es \<longleftrightarrow> meta_entry_of st n k v" "fst ` set es = set (meta_index_keys st n)"
    using meta_index_entries_ok [OF cod] by blast
  define rem where "rem = (case stored st ?m ?t ?i of None \<Rightarrow> [] | Some r \<Rightarrow> index_removals st r)"
  define ops where "ops = rem @
    [BInsert NODES (node_key ?t ?i) b, BInsert NODES_BY_TIME (time_key ?t (mn_created_at_ms n) ?i) [],
     BInsert NODES_BY_KIND (kind_key ?t (as_u8 (mn_kind n)) (mn_created_at_ms n) ?i) [],
     BInsert NODES_META (node_key ?t ?i) (encode_meta n)] @ map (\<lambda>(k, v). BInsert META_INDEX k v) es"
  obtain ks' where ks': "commit_persist (st_kv st) ops ks = (Inr (), ks')" "view ks' = apply_ops ops ?m"
    by (rule commit_persist_cases)
  have put: "put_node st n ks = (Inr (), ks')"
    using ks'(1) b(1) es(1)
    by (simp add: put_node_def get_node_stored [OF ok] encode_node_def ops_def rem_def Let_def
        split: option.splits)
  let ?m' = "apply_ops ops ?m"
  have rem: "apply_ops rem ?m = (case stored st ?m ?t ?i of None \<Rightarrow> ?m | Some r \<Rightarrow>
      ?m(NODES_BY_TIME := (?m NODES_BY_TIME)(time_key ?t (mn_created_at_ms r) ?i := None),
         NODES_BY_KIND := (?m NODES_BY_KIND)(kind_key ?t (as_u8 (mn_kind r)) (mn_created_at_ms r) ?i := None),
         META_INDEX := (\<lambda>k. if k \<in> set (meta_index_keys st r) then None else ?m META_INDEX k)))"
  proof (cases "stored st ?m ?t ?i")
    case None
    then show ?thesis by (simp add: rem_def)
  next
    case (Some r)
    then have "mn_tenant r = ?t" "mn_id r = ?i" using stored_owner [OF ok Some] by auto
    then show ?thesis using Some by (simp add: rem_def index_removals_def apply_ops_removes cong: if_cong)
  qed
  have parts:
    "?m' NODES = (?m NODES)(node_key ?t ?i \<mapsto> b)"
    "?m' NODES_META = (?m NODES_META)(node_key ?t ?i \<mapsto> encode_meta n)"
    "?m' NODES_BY_TIME = (case stored st ?m ?t ?i of None \<Rightarrow> ?m NODES_BY_TIME
       | Some r \<Rightarrow> (?m NODES_BY_TIME)(time_key ?t (mn_created_at_ms r) ?i := None))
         (time_key ?t (mn_created_at_ms n) ?i \<mapsto> [])"
    "?m' NODES_BY_KIND = (case stored st ?m ?t ?i of None \<Rightarrow> ?m NODES_BY_KIND
       | Some r \<Rightarrow> (?m NODES_BY_KIND)(kind_key ?t (as_u8 (mn_kind r)) (mn_created_at_ms r) ?i := None))
         (kind_key ?t (as_u8 (mn_kind n)) (mn_created_at_ms n) ?i \<mapsto> [])"
    "?m' META_INDEX = (case stored st ?m ?t ?i of None \<Rightarrow> ?m META_INDEX
       | Some r \<Rightarrow> (\<lambda>k. if k \<in> set (meta_index_keys st r) then None else ?m META_INDEX k)) ++ map_of (rev es)"
    by (simp_all add: ops_def rem apply_ops_inserts split: option.split)
  have st': "stored st ?m' = set_node ?t ?i (Some n) (stored st ?m)"
    using parts(1) b(2) by (rule stored_put)
  have "nodes_ok st ?m'"
    using ok b(2) parts(1) by (auto simp: nodes_ok_def)
  moreover have "time_index_ok st ?m'"
    unfolding time_index_mirrors st' parts(3)
    by (rule mirrors_put [where S = "stored st ?m" and idx = "?m NODES_BY_TIME"])
      (use inv in \<open>auto simp: storage_inv_def time_index_mirrors split: option.splits\<close>)
  moreover have "kind_index_ok st ?m'"
    unfolding kind_index_mirrors st' parts(4)
    by (rule mirrors_put [where S = "stored st ?m" and idx = "?m NODES_BY_KIND"])
      (use inv in \<open>auto simp: storage_inv_def kind_index_mirrors split: option.splits\<close>)
  moreover have "meta_rows_ok st ?m'"
    using meta_rows_put [OF _ st' parts(2)] inv by (simp add: storage_inv_def)
  moreover have "meta_index_sound st ?m' \<and> meta_index_complete st ?m'"
    by (rule meta_index_put [OF _ _ ok refl refl st' es(2,3) cod parts(5)])
      (use inv in \<open>auto simp: storage_inv_def\<close>)
  ultimately have "storage_inv st ?m'" by (simp add: storage_inv_def)
  then show ?thesis using that put st' ks'(2) by simp
qed

lemma delete_node_step:
  assumes inv: "storage_inv st (view ks)"
  obtains ks' where "delete_node st t i ks = (Inr (), ks')" "storage_inv st (view ks')"
    "stored st (view ks') = set_node t i None (stored st (view ks))"
proof (cases "stored st (view ks) t i")
  case None
  have ok: "nodes_ok st (view ks)" using inv by (simp add: storage_inv_def)
  have "set_node t i None (stored st (view ks)) = stored st (view ks)"
    using None by (auto simp: fun_eq_iff)
  then show ?thesis
    using that [of ks] inv None by (simp add: delete_node_def get_node_stored [OF ok])
next
  case (Some r)
  let ?m = "view ks"
  have ok: "nodes_ok st ?m" using inv by (simp add: storage_inv_def)
  have own: "mn_tenant r = t" "mn_id r = i" using stored_owner [OF ok Some] by auto
  define ops where "ops =
    [BRemove NODES (node_key t i), BRemove NODES_BY_TIME (time_key t (mn_created_at_ms r) i),
     BRemove NODES_BY_KIND (kind_key t (as_u8 (mn_kind r)) (mn_created_at_ms r) i),
     BRemove NODES_META (node_key t i)] @ map (BRemove META_INDEX) (meta_index_keys st r)"
  obtain ks' where ks': "commit_persist (st_kv st) ops ks = (Inr (), ks')" "view ks' = apply_ops ops ?m"
    by (rule commit_persist_cases)
  have del: "delete_node st t i ks = (Inr (), ks')"
    using ks'(1) by (simp add: delete_node_def get_node_stored [OF ok] Some ops_def Let_def)
  let ?m' = "apply_ops ops ?m"
  have parts:
    "?m' NODES = (?m NODES)(node_key t i := None)"
    "?m' NODES_META = (?m NODES_META)(node_key t i := None)"
    "?m' NODES_BY_TIME = (?m NODES_BY_TIME)(time_key t (mn_created_at_ms r) i := None)"
    "?m' NODES_BY_KIND = (?m NODES_BY_KIND)(kind_key t (as_u8 (mn_kind r)) (mn_created_at_ms r) i := None)"
    "?m' META_INDEX = (\<lambda>k. if k \<in> set (meta_index_keys st r) then None else ?m META_INDEX k)"
    by (auto simp: ops_def apply_ops_removes)
  have st': "stored st ?m' = set_node t i None (stored st ?m)"
    using parts(1) by (rule stored_delete)
  have "nodes_ok st ?m'"
    using ok parts(1) by (auto simp: nodes_ok_def)
  moreover have "time_index_ok st ?m'"
    unfolding time_index_mirrors st' parts(3)
    by (rule mirrors_delete) (use inv Some in \<open>auto simp: storage_inv_def time_index_mirrors\<close>)
  moreover have "kind_index_ok st ?m'"
    unfolding kind_index_mirrors st' parts(4)
    by (rule mirrors_delete) (use inv Some in \<open>auto simp: storage_inv_def kind_index_mirrors\<close>)
  moreover have "meta_rows_ok st ?m'"
    using meta_rows_delete [OF _ st' parts(2)] inv by (simp add: storage_inv_def)
  moreover have "meta_index_sound st ?m' \<and> meta_index_complete st ?m'"
    by (rule meta_index_delete [OF _ _ ok Some st' parts(5)]) (use inv in \<open>auto simp: storage_inv_def\<close>)
  ultimately have "storage_inv st ?m'" by (simp add: storage_inv_def)
  then show ?thesis using that del st' ks'(2) by simp
qed

lemma scan_nodes_take:
  assumes "\<And>e. e \<in> set es \<Longrightarrow> id_from_time_key (fst e) = Some (ident e) \<and>
      get_node st ks t (ident e) = Inr (Some (nd e))"
    and "length out < limit \<or> limit = 0 \<and> out = []"
  shows "scan_nodes st ks t limit (map Inr es) out = Inr (take (max limit 1) (out @ map nd es))"
  using assms
proof (induction es arbitrary: out)
  case Nil
  then show ?case by auto
next
  case (Cons e es)
  obtain k v where e: "e = (k, v)" by fastforce
  have hd: "id_from_time_key k = Some (ident e)" "get_node st ks t (ident e) = Inr (Some (nd e))"
    using Cons.prems(1) [of e] e by auto
  show ?case
  proof (cases "limit \<le> length (out @ [nd e])")
    case True
    then have "max limit 1 = length (out @ [nd e])" using Cons.prems(2) by auto
    then have "take (max limit 1) (out @ nd e # map nd es) = out @ [nd e]" by simp
    then show ?thesis using True hd e by simp
  next
    case False
    then have "scan_nodes st ks t limit (map Inr es) (out @ [nd e]) =
        Inr (take (max limit 1) ((out @ [nd e]) @ map nd es))"
      using Cons.prems by (intro Cons.IH) auto
    then show ?thesis using False hd e by simp
  qed
qed

lemma time_interval:
  "fst (time_range t from to) \<le> time_key t' c i \<and> time_key t' c i < snd (time_range t from to)
     \<longleftrightarrow> t' = t \<and> from \<le> c \<and> c < to"
proof -
  let ?p = "u32_be t' @ u64_be c"
  have split: "time_key t' c i = ?p @ u128_be i" by (simp add: time_key_def)
  have "u32_be t @ u64_be from \<le> ?p @ u128_be i \<longleftrightarrow>
      u32_be t @ u64_be from < ?p \<or> u32_be t @ u64_be from = ?p"
    using append_le_append [of "u32_be t @ u64_be from" ?p "[]" "u128_be i"] by simp
  moreover have "?p @ u128_be i < u32_be t @ u64_be to \<longleftrightarrow> ?p < u32_be t @ u64_be to"
    using append_less_append [of ?p "u32_be t @ u64_be to" "u128_be i" "[]"] by auto
  ultimately show ?thesis
    unfolding time_range_def split
    by (auto simp: append_less_append)
qed

lemma scan_by_time_spec:
  assumes inv: "storage_inv st (view ks)" and le: "from \<le> to"
  obtains xs where "scan_by_time st ks t from to limit = Inr (take (max limit 1) xs)"
    "set xs = {n. \<exists>i. stored st (view ks) t i = Some n \<and> from \<le> mn_created_at_ms n \<and> mn_created_at_ms n < to}"
    "sorted_wrt (\<lambda>a b. mn_created_at_ms a < mn_created_at_ms b \<or>
       mn_created_at_ms a = mn_created_at_ms b \<and> mn_id a < mn_id b) xs"
proof -
  let ?m = "view ks" and ?lo = "fst (time_range t from to)" and ?hi = "snd (time_range t from to)"
  have ok: "nodes_ok st ?m" and tix: "time_index_ok st ?m" using inv by (auto simp: storage_inv_def)
  have lohi: "?lo \<le> ?hi"
    using le by (auto simp: time_range_def append_less_append order_le_less)
  define es where "es = entries (?m NODES_BY_TIME) {k. ?lo \<le> k \<and> k < ?hi}"
  define ident where "ident = (\<lambda>e :: bytes \<times> bytes. the (id_from_time_key (fst e)))"
  define nd where "nd = (\<lambda>e. the (stored st ?m t (ident e)))"
  have key: "\<exists>i n. stored st ?m t i = Some n \<and> from \<le> mn_created_at_ms n \<and> mn_created_at_ms n < to \<and>
      k = time_key t (mn_created_at_ms n) i" if k: "k \<in> fst ` set es" for k
  proof -
    have k': "?m NODES_BY_TIME k \<noteq> None" "?lo \<le> k" "k < ?hi"
      using k by (auto simp: es_def set_entries finite_view)
    then obtain t' i n where n: "stored st ?m t' i = Some n" "k = time_key t' (mn_created_at_ms n) i"
      using tix unfolding time_index_ok_def by blast
    then have "t' = t" "from \<le> mn_created_at_ms n" "mn_created_at_ms n < to"
      using k'(2,3) time_interval by (simp_all only: n(2)) blast+
    then show ?thesis using n by blast
  qed
  have e_ok: "\<exists>i n. stored st ?m t i = Some n \<and> from \<le> mn_created_at_ms n \<and> mn_created_at_ms n < to \<and>
      fst e = time_key t (mn_created_at_ms n) i \<and> ident e = i \<and> nd e = n \<and> mn_id n = i"
    if e: "e \<in> set es" for e
  proof -
    obtain i n where n: "stored st ?m t i = Some n" "from \<le> mn_created_at_ms n" "mn_created_at_ms n < to"
      "fst e = time_key t (mn_created_at_ms n) i" using key [OF imageI [OF e]] by blast
    then have "ident e = i" by (simp add: ident_def)
    moreover have "nd e = n" using n by (simp add: nd_def calculation)
    moreover have "mn_id n = i" using stored_owner [OF ok n(1)] by simp
    ultimately show ?thesis using n by blast
  qed
  have "scan_by_time st ks t from to limit = scan_nodes st ks t limit (map Inr es) []"
    by (simp add: scan_by_time_def split_def Let_def range_view [OF lohi] es_def)
  also have "\<dots> = Inr (take (max limit 1) ([] @ map nd es))"
  proof (rule scan_nodes_take [where ident = ident])
    fix e assume "e \<in> set es"
    then show "id_from_time_key (fst e) = Some (ident e) \<and> get_node st ks t (ident e) = Inr (Some (nd e))"
      using e_ok [of e] get_node_stored [OF ok] by auto
  qed auto
  finally have res: "scan_by_time st ks t from to limit = Inr (take (max limit 1) (map nd es))" by simp
  have "set (map nd es) = {n. \<exists>i. stored st ?m t i = Some n \<and> from \<le> mn_created_at_ms n \<and> mn_created_at_ms n < to}"
    (is "?A = ?B")
  proof
    show "?A \<subseteq> ?B" using e_ok by force
    show "?B \<subseteq> ?A"
    proof
      fix n assume "n \<in> ?B"
      then obtain i where n: "stored st ?m t i = Some n" "from \<le> mn_created_at_ms n" "mn_created_at_ms n < to"
        by blast
      let ?k = "time_key t (mn_created_at_ms n) i"
      have "?m NODES_BY_TIME ?k \<noteq> None" using tix n(1) unfolding time_index_ok_def by blast
      moreover have "?lo \<le> ?k \<and> ?k < ?hi" using n time_interval by blast
      ultimately obtain v where "(?k, v) \<in> set es" by (auto simp: es_def set_entries finite_view)
      moreover have "nd (?k, v) = n" by (simp add: nd_def ident_def n)
      ultimately show "n \<in> ?A" by force
    qed
  qed
  moreover have "sorted_wrt (\<lambda>a b. mn_created_at_ms a < mn_created_at_ms b \<or>
       mn_created_at_ms a = mn_created_at_ms b \<and> mn_id a < mn_id b) (map nd es)"
  proof -
    have "sorted_wrt (\<lambda>a b. fst a < fst b) es"
      using sorted_entries unfolding es_def sorted_wrt_map by blast
    then show ?thesis unfolding sorted_wrt_map
    proof (rule sorted_wrt_mono_rel [rotated])
      fix a b assume ab: "a \<in> set es" "b \<in> set es" "fst a < fst b"
      then show "mn_created_at_ms (nd a) < mn_created_at_ms (nd b) \<or>
          mn_created_at_ms (nd a) = mn_created_at_ms (nd b) \<and> mn_id (nd a) < mn_id (nd b)"
        using e_ok [OF ab(1)] e_ok [OF ab(2)]
        by (auto simp: time_key_def append_less_append)
    qed
  qed
  ultimately show ?thesis using res that by blast
qed

lemma collect_ids_eq:
  "collect_ids st f j (map Inr es) out =
     Inr (out \<union> {i. \<exists>(k, v) \<in> set es. meta_index_value_matches st v f j \<and> id_from_meta_index_key k = Some i})"
proof (induction es arbitrary: out)
  case Nil
  then show ?case by simp
next
  case (Cons e es)
  obtain k v where e: "e = (k, v)" by fastforce
  show ?case using Cons e by (auto split: option.splits)
qed

lemma node_ids_by_metadata_spec:
  assumes inv: "storage_inv st (view ks)" and ser: "codec_ok (st_value st) j"
  shows "\<exists>S. node_ids_by_metadata st ks t f j = Inr S \<and>
    (\<forall>i\<in>S. \<exists>n. stored st (view ks) t i = Some n \<and> (f, j) \<in> set (mn_metadata n)) \<and>
    (\<forall>i n. stored st (view ks) t i = Some n \<longrightarrow> (f, j) \<in> set (mn_metadata n) \<longrightarrow> i \<noteq> - 1 \<longrightarrow>
       (\<forall>(f', j') \<in> set (mn_metadata n).
          meta_index_key st t f' j' i = meta_index_key st t f j i \<longrightarrow> f' = f \<and> j' = j) \<longrightarrow> i \<in> S)"
proof -
  let ?m = "view ks"
  have snd: "meta_index_sound st ?m" and cpl: "meta_index_complete st ?m"
    using inv by (auto simp: storage_inv_def)
  obtain p where p: "meta_index_prefix st t f j = Inr p"
    using ser by (auto simp: meta_index_prefix_def elim: codec_okE)
  have len: "length p = 16" using p by (rule meta_index_prefix_length)
  define es where "es = entries (?m META_INDEX) {k. p \<le> k \<and> k < p @ replicate 16 0xff}"
  define S where "S = {i. \<exists>(k, v) \<in> set es. meta_index_value_matches st v f j \<and> id_from_meta_index_key k = Some i}"
  have "p \<le> p @ replicate 16 0xff" by (metis less_append_same order_less_imp_le order_refl append_Nil2)
  then have res: "node_ids_by_metadata st ks t f j = Inr S"
    by (simp add: node_ids_by_metadata_def meta_index_range_def p range_view collect_ids_eq
        es_def S_def)
  have in_es: "(k, v) \<in> set es \<longleftrightarrow> ?m META_INDEX k = Some v \<and> (\<exists>r. k = p @ r \<and> r < replicate 16 0xff)" for k v
    by (simp add: es_def set_entries finite_view prefix_interval)
  have sound: "\<exists>n. stored st ?m t i = Some n \<and> (f, j) \<in> set (mn_metadata n)" if i: "i \<in> S" for i
  proof -
    obtain k v where kv: "(k, v) \<in> set es" "meta_index_value_matches st v f j" "id_from_meta_index_key k = Some i"
      using i by (auto simp: S_def)
    then obtain t' i' n f' j' where w: "stored st ?m t' i' = Some n" "(f', j') \<in> set (mn_metadata n)"
      "meta_index_key st t' f' j' i' = Inr k" "ser (st_pair st) (f', j') = Inr v" "codec_ok (st_pair st) (f', j')"
      using snd in_es unfolding meta_index_sound_def by blast
    have "f' = f" "j' = j" using w(4,5) kv(2) by (auto simp: codec_ok_def meta_index_value_matches_def)
    moreover have "i' = i" using kv(3) w(3) by simp
    moreover have "t' = t"
    proof -
      obtain r p' where "k = p @ r" "meta_index_prefix st t' f' j' = Inr p'" "k = p' @ u128_be i'"
        using kv(1) in_es w(3) by (auto simp: meta_index_key_eq)
      then have "p' = p" using len by (simp add: meta_index_prefix_length append_eq_append_conv)
      then show ?thesis using p \<open>meta_index_prefix st t' f' j' = Inr p'\<close> meta_index_prefix_tenant by blast
    qed
    ultimately show ?thesis using w by blast
  qed
  have complete: "i \<in> S"
    if n: "stored st ?m t i = Some n" "(f, j) \<in> set (mn_metadata n)" "i \<noteq> - 1"
      and uniq: "\<And>f' j'. (f', j') \<in> set (mn_metadata n) \<Longrightarrow>
          meta_index_key st t f' j' i = meta_index_key st t f j i \<Longrightarrow> f' = f \<and> j' = j" for i n
  proof -
    obtain k v where k: "meta_index_key st t f j i = Inr k" "?m META_INDEX k = Some v"
      using cpl n unfolding meta_index_complete_def by blast
    then obtain t' i' n' f' j' where w: "stored st ?m t' i' = Some n'" "(f', j') \<in> set (mn_metadata n')"
      "meta_index_key st t' f' j' i' = Inr k" "ser (st_pair st) (f', j') = Inr v" "codec_ok (st_pair st) (f', j')"
      using snd unfolding meta_index_sound_def by blast
    have ti: "t' = t" "i' = i" using meta_index_key_owner [OF w(3) k(1)] by auto
    then have "f' = f" "j' = j" using uniq [of f' j'] w k(1) n(1) by auto
    then have "meta_index_value_matches st v f j"
      using w(4,5) by (auto simp: codec_ok_def meta_index_value_matches_def)
    moreover have "(k, v) \<in> set es"
    proof -
      have kp: "k = p @ u128_be i" using k(1) p by (auto simp: meta_index_key_eq)
      have "u128_be i \<noteq> u128_be (- 1)" using n(3) by simp
      moreover have "u128_be (- 1) = replicate 16 0xff" by (rule u128_be_max)
      ultimately have "u128_be i < replicate 16 0xff" by (simp add: less_replicate_max)
      then show ?thesis using kp k(2) in_es by blast
    qed
    ultimately show "i \<in> S" using k(1) by (force simp: S_def)
  qed
  show ?thesis
  proof (intro exI [of _ S] conjI ballI allI impI)
    show "i \<in> S" if "stored st ?m t i = Some n" "(f, j) \<in> set (mn_metadata n)" "i \<noteq> - 1"
      "\<forall>(f', j') \<in> set (mn_metadata n).
         meta_index_key st t f' j' i = meta_index_key st t f j i \<longrightarrow> f' = f \<and> j' = j" for i n
      by (rule complete [OF that(1-3)]) (use that(4) in blast)
  qed (rule res, rule sound)
qed

end

interpretation mem_nodes: node_store "\<lparr>st_kv = mem_kv, st_node = nc, st_value = vc, st_pair = pc\<rparr>" mem_view
  for nc :: "memory_node codec" and vc :: "json codec" and pc :: "(string \<times> json) codec"
  by (intro node_store.intro) (simp add: mem.kv_engine_axioms)

section \<open>Properties\<close>

text \<open>
  Sample data for the witnesses: a fact of tenant 0 with two metadata pairs, and a store over
  the in-memory engine whose codecs know exactly the values that occur.
\<close>

definition sample_node :: memory_node where
  "sample_node = \<lparr>mn_id = 7, mn_tenant = 0, mn_kind = Fact, mn_created_at_ms = 5,
     mn_updated_at_ms = 5, mn_content = Text ''x'', mn_embeddings = [],
     mn_metadata = [(''topic'', JBool True), (''liquid'', JBool True)],
     mn_revision = 1, mn_state = Active, mn_valid_from_ms = None, mn_valid_to_ms = None\<rparr>"

definition sample_store :: "mem storage" where
  "sample_store = \<lparr>st_kv = mem_kv, st_node = table_codec [sample_node],
     st_value = table_codec [JBool True], st_pair = table_codec (mn_metadata sample_node)\<rparr>"

lemma sample_engine: "kv_engine (st_kv sample_store) mem_view"
  by (simp add: sample_store_def mem.kv_engine_axioms)

lemma sample_codec: "node_codec_ok sample_store sample_node"
  by (auto simp: node_codec_ok_def sample_store_def sample_node_def intro!: table_codec_ok)

lemma sample_empty: "storage_inv sample_store (mem_view mem_empty)"
  by (simp add: storage_inv_def nodes_ok_def time_index_ok_def kind_index_ok_def meta_rows_ok_def
      meta_index_sound_def meta_index_complete_def stored_def mem_view_def mem_empty_def)

definition sample_keyspace :: mem where
  "sample_keyspace = snd (put_node sample_store sample_node mem_empty)"

lemma sample_keyspace_inv: "storage_inv sample_store (mem_view sample_keyspace)"
  and sample_get: "get_node sample_store sample_keyspace t i =
    Inr (if t = 0 \<and> i = 7 then Some sample_node else None)"
proof -
  have S: "node_store sample_store mem_view" using sample_engine by (rule node_store.intro)
  obtain ks' where ks': "put_node sample_store sample_node mem_empty = (Inr (), ks')"
    "storage_inv sample_store (mem_view ks')"
    "stored sample_store (mem_view ks') = set_node 0 7 (Some sample_node) (stored sample_store (mem_view mem_empty))"
    using node_store.put_node_step [OF S sample_empty sample_codec] by (auto simp: sample_node_def)
  then show "storage_inv sample_store (mem_view sample_keyspace)" by (simp add: sample_keyspace_def)
  then have "get_node sample_store sample_keyspace t i = Inr (stored sample_store (mem_view ks') t i)"
    using node_store.get_node_stored [OF S] ks'(1) by (simp add: sample_keyspace_def storage_inv_def)
  then show "get_node sample_store sample_keyspace t i =
      Inr (if t = 0 \<and> i = 7 then Some sample_node else None)"
    by (simp add: ks'(3) stored_def mem_view_def mem_empty_def)
qed

text \<open>
  C5. Writing a node keeps the five partitions consistent, and afterwards a lookup returns the
  node under its own tenant and id and is unchanged everywhere else.
\<close>

theorem put_node_correct:
  assumes "kv_engine (st_kv st) view" and "storage_inv st (view ks)" and "node_codec_ok st n"
  shows "\<exists>ks'. put_node st n ks = (Inr (), ks') \<and> storage_inv st (view ks') \<and>
    get_node st ks' (mn_tenant n) (mn_id n) = Inr (Some n) \<and>
    (\<forall>t i. (t, i) \<noteq> (mn_tenant n, mn_id n) \<longrightarrow> get_node st ks' t i = get_node st ks t i)"
proof -
  have S: "node_store st view" using assms(1) by (rule node_store.intro)
  obtain ks' where p: "put_node st n ks = (Inr (), ks')" and i: "storage_inv st (view ks')"
    and s: "stored st (view ks') = set_node (mn_tenant n) (mn_id n) (Some n) (stored st (view ks))"
    using node_store.put_node_step [OF S assms(2,3)] by blast
  have "get_node st k t j = Inr (stored st (view k) t j)" if "storage_inv st (view k)" for k t j
    using node_store.get_node_stored [OF S] that by (simp add: storage_inv_def)
  then show ?thesis using p i s assms(2) by (intro exI [of _ ks']) auto
qed

theorem put_node_correct_witness:
  "\<exists>ks'. put_node sample_store sample_node mem_empty = (Inr (), ks') \<and>
     get_node sample_store ks' 0 7 = Inr (Some sample_node)"
  using put_node_correct [OF sample_engine sample_empty sample_codec]
  by (auto simp: sample_node_def)

text \<open>
  C22. Deleting a node removes exactly that node: the partitions stay consistent (no index entry
  of it remains), its lookup is empty, and every other lookup is unchanged.
\<close>

theorem delete_node_correct:
  assumes "kv_engine (st_kv st) view" and "storage_inv st (view ks)"
  shows "\<exists>ks'. delete_node st t i ks = (Inr (), ks') \<and> storage_inv st (view ks') \<and>
    get_node st ks' t i = Inr None \<and>
    (\<forall>t' i'. (t', i') \<noteq> (t, i) \<longrightarrow> get_node st ks' t' i' = get_node st ks t' i')"
proof -
  have S: "node_store st view" using assms(1) by (rule node_store.intro)
  obtain ks' where p: "delete_node st t i ks = (Inr (), ks')" and j: "storage_inv st (view ks')"
    and s: "stored st (view ks') = set_node t i None (stored st (view ks))"
    using node_store.delete_node_step [OF S assms(2)] by blast
  have "get_node st k t j = Inr (stored st (view k) t j)" if "storage_inv st (view k)" for k t j
    using node_store.get_node_stored [OF S] that by (simp add: storage_inv_def)
  then show ?thesis using p j s assms(2) by (intro exI [of _ ks']) auto
qed

theorem delete_node_correct_witness:
  "\<exists>ks'. delete_node sample_store 0 7 sample_keyspace = (Inr (), ks') \<and>
     storage_inv sample_store (mem_view ks') \<and> get_node sample_store ks' 0 7 = Inr None"
  using delete_node_correct [OF sample_engine sample_keyspace_inv, of 0 7] by blast

text \<open>
  C31. For \<open>0 \<le> from \<le> to\<close> a time scan returns, in order of creation time and id, the first
  \<open>max limit 1\<close> nodes of the tenant created in the half-open interval: with \<open>limit = 0\<close> the loop
  still returns one node, since it tests the limit after pushing.
\<close>

theorem scan_by_time_correct:
  assumes "kv_engine (st_kv st) view" and "storage_inv st (view ks)"
    and "0 \<le> sint from" and "sint from \<le> sint to"
  shows "\<exists>xs. scan_by_time st ks t from to limit = Inr (take (max limit 1) xs) \<and>
    set xs = {n. \<exists>i. get_node st ks t i = Inr (Some n) \<and>
      sint from \<le> sint (mn_created_at_ms n) \<and> sint (mn_created_at_ms n) < sint to} \<and>
    sorted_wrt (\<lambda>a b. sint (mn_created_at_ms a) < sint (mn_created_at_ms b) \<or>
      mn_created_at_ms a = mn_created_at_ms b \<and> mn_id a < mn_id b) xs"
proof -
  have S: "node_store st view" using assms(1) by (rule node_store.intro)
  have pos: "0 \<le> sint to" using assms by simp
  have le: "from \<le> to" using i64_nonneg_le(1) [OF assms(3) pos] assms(4) by simp
  obtain xs where xs: "scan_by_time st ks t from to limit = Inr (take (max limit 1) xs)"
    "set xs = {n. \<exists>i. stored st (view ks) t i = Some n \<and> from \<le> mn_created_at_ms n \<and> mn_created_at_ms n < to}"
    "sorted_wrt (\<lambda>a b. mn_created_at_ms a < mn_created_at_ms b \<or>
       mn_created_at_ms a = mn_created_at_ms b \<and> mn_id a < mn_id b) xs"
    using node_store.scan_by_time_spec [OF S assms(2) le] by blast
  have bounds: "from \<le> c \<and> c < to \<longleftrightarrow> sint from \<le> sint c \<and> sint c < sint to" for c
    using i64_nonneg_order(2) [OF pos, of c] i64_nonneg_le(1) [OF assms(3), of c] assms(3) by auto
  have nonneg: "0 \<le> sint (mn_created_at_ms n)" if "n \<in> set xs" for n
    using that xs(2) i64_nonneg_order(2) [OF pos] by blast
  have "sorted_wrt (\<lambda>a b. sint (mn_created_at_ms a) < sint (mn_created_at_ms b) \<or>
      mn_created_at_ms a = mn_created_at_ms b \<and> mn_id a < mn_id b) xs"
    by (rule sorted_wrt_mono_rel [OF _ xs(3)]) (use nonneg i64_nonneg_le(2) in blast)
  moreover have "get_node st ks t i = Inr (stored st (view ks) t i)" for i
    using node_store.get_node_stored [OF S] assms(2) by (simp add: storage_inv_def)
  ultimately show ?thesis using xs bounds by auto
qed

theorem scan_by_time_correct_witness:
  "scan_by_time sample_store sample_keyspace 0 0 10 3 = Inr [sample_node]"
proof -
  obtain xs where xs: "scan_by_time sample_store sample_keyspace 0 0 10 3 = Inr (take 3 xs)"
    "set xs = {n. \<exists>i. get_node sample_store sample_keyspace 0 i = Inr (Some n) \<and>
      sint (0 :: i64) \<le> sint (mn_created_at_ms n) \<and> sint (mn_created_at_ms n) < sint (10 :: i64)}"
    "sorted_wrt (\<lambda>a b. sint (mn_created_at_ms a) < sint (mn_created_at_ms b) \<or>
      mn_created_at_ms a = mn_created_at_ms b \<and> mn_id a < mn_id b) xs"
    using scan_by_time_correct [OF sample_engine sample_keyspace_inv, of 0 10 0 3] by auto
  have "set xs = {sample_node}"
    unfolding xs(2) sample_get by (auto simp: sample_node_def)
  then have "xs = [sample_node]" by (rule sorted_singleton [OF _ xs(3)]) simp
  then show ?thesis using xs(1) by simp
qed

text \<open>
  C32. A metadata lookup returns only ids of nodes of the tenant that carry exactly the given
  pair, and it returns every such id, except the all-ones id and ids of nodes on which a second
  pair shares the index key.
\<close>

theorem node_ids_by_metadata_correct:
  assumes "kv_engine (st_kv st) view" and "storage_inv st (view ks)" and "codec_ok (st_value st) j"
  shows "\<exists>S. node_ids_by_metadata st ks t f j = Inr S \<and>
    (\<forall>i\<in>S. \<exists>n. get_node st ks t i = Inr (Some n) \<and> (f, j) \<in> set (mn_metadata n)) \<and>
    (\<forall>i n. get_node st ks t i = Inr (Some n) \<longrightarrow> (f, j) \<in> set (mn_metadata n) \<longrightarrow> i \<noteq> - 1 \<longrightarrow>
       (\<forall>(f', j') \<in> set (mn_metadata n).
          meta_index_key st t f' j' i = meta_index_key st t f j i \<longrightarrow> f' = f \<and> j' = j) \<longrightarrow> i \<in> S)"
proof -
  have N: "node_store st view" using assms(1) by (rule node_store.intro)
  have get: "get_node st ks t i = Inr (stored st (view ks) t i)" for i
    using node_store.get_node_stored [OF N] assms(2) by (simp add: storage_inv_def)
  show ?thesis
    using node_store.node_ids_by_metadata_spec [OF N assms(2,3), where t = t and f = f]
    by (simp add: get)
qed

theorem node_ids_by_metadata_correct_witness:
  "node_ids_by_metadata sample_store sample_keyspace 0 ''liquid'' (JBool True) = Inr {7}"
proof -
  have c: "codec_ok (st_value sample_store) (JBool True)"
    by (simp add: sample_store_def table_codec_ok)
  from node_ids_by_metadata_correct [OF sample_engine sample_keyspace_inv c, of 0 "''liquid''"]
  obtain S where S: "node_ids_by_metadata sample_store sample_keyspace 0 ''liquid'' (JBool True) = Inr S"
    and sound: "\<forall>i\<in>S. \<exists>n. get_node sample_store sample_keyspace 0 i = Inr (Some n) \<and> (''liquid'', JBool True) \<in> set (mn_metadata n)"
    and complete: "\<forall>i n. get_node sample_store sample_keyspace 0 i = Inr (Some n) \<longrightarrow> (''liquid'', JBool True) \<in> set (mn_metadata n) \<longrightarrow>
       i \<noteq> - 1 \<longrightarrow> (\<forall>(f', j') \<in> set (mn_metadata n). meta_index_key sample_store 0 f' j' i =
          meta_index_key sample_store 0 ''liquid'' (JBool True) i \<longrightarrow> f' = ''liquid'' \<and> j' = JBool True) \<longrightarrow> i \<in> S"
    by (elim exE conjE)
  have "fnv1a32 (as_bytes ''topic'') \<noteq> fnv1a32 (as_bytes ''liquid'')"
    by (simp add: fnv1a32_def as_bytes_def)
  then have "meta_index_key sample_store 0 ''topic'' (JBool True) 7 \<noteq> meta_index_key sample_store 0 ''liquid'' (JBool True) 7"
    by (simp add: meta_index_key_def meta_index_prefix_def sample_store_def table_codec_def)
  then have "7 \<in> S"
    by (intro complete [rule_format, of 7 sample_node]) (auto simp: sample_get, auto simp: sample_node_def)
  moreover have "i = 7" if "i \<in> S" for i using sound [rule_format, OF that] by (simp add: sample_get split: if_splits)
  ultimately have "S = {7}" by blast
  then show ?thesis unfolding S by simp
qed

end
