(* ===== verification/Graph.thy ===== *)
theory Graph
  imports Storage
begin

text \<open>
  The property graph of \<^verbatim>\<open>crates/mmdb-graph/src/lib.rs\<close>: edges are written to a forward partition
  and, as a bare key, to a reverse partition, together with an entry of the label dictionary.
  Neighbour scans read the two partitions by key range, and \<^verbatim>\<open>bfs\<close> walks them. The first part
  holds the operations, the second the walk over an arbitrary adjacency function, the third the
  store over a lawful engine.
\<close>

record 'ks graph =
  gr_kv :: "'ks kv"
  gr_edge :: "edge codec"

datatype direction = Out | In | Both

definition PART_OUT :: string where "PART_OUT = ''edges_out''"
definition PART_IN :: string where "PART_IN = ''edges_in''"
definition PART_LABELS :: string where "PART_LABELS = ''edge_label_dict''"

section \<open>Keys\<close>

definition label_hash :: "string \<Rightarrow> u32" where
  "label_hash label = foldl (\<lambda>h b. (h XOR ucast b) * 0x01000193) 0x811C9DC5 (as_bytes label)"

definition out_key :: "u32 \<Rightarrow> ulid \<Rightarrow> u32 \<Rightarrow> ulid \<Rightarrow> bytes" where
  "out_key tenant src lh dst = u32_be tenant @ u128_be src @ u32_be lh @ u128_be dst"

definition in_key :: "u32 \<Rightarrow> ulid \<Rightarrow> u32 \<Rightarrow> ulid \<Rightarrow> bytes" where
  "in_key tenant dst lh src = u32_be tenant @ u128_be dst @ u32_be lh @ u128_be src"

definition out_node_range :: "u32 \<Rightarrow> ulid \<Rightarrow> bytes \<times> bytes" where
  "out_node_range tenant src =
     (let lo = u32_be tenant @ u128_be src in (lo, lo @ replicate 20 0xff))"

definition out_label_range :: "u32 \<Rightarrow> ulid \<Rightarrow> u32 \<Rightarrow> bytes \<times> bytes" where
  "out_label_range tenant src lh =
     (let lo = u32_be tenant @ u128_be src @ u32_be lh in (lo, lo @ replicate 16 0xff))"

definition in_node_range :: "u32 \<Rightarrow> ulid \<Rightarrow> bytes \<times> bytes" where
  "in_node_range tenant dst =
     (let lo = u32_be tenant @ u128_be dst in (lo, lo @ replicate 20 0xff))"

definition in_label_range :: "u32 \<Rightarrow> ulid \<Rightarrow> u32 \<Rightarrow> bytes \<times> bytes" where
  "in_label_range tenant dst lh =
     (let lo = u32_be tenant @ u128_be dst @ u32_be lh in (lo, lo @ replicate 16 0xff))"

definition label_dict_key :: "u32 \<Rightarrow> u32 \<Rightarrow> string \<Rightarrow> bytes" where
  "label_dict_key tenant lh label = u32_be tenant @ u32_be lh @ as_bytes label"

definition label_dict_tenant_range :: "u32 \<Rightarrow> bytes \<times> bytes" where
  "label_dict_tenant_range tenant = (let lo = u32_be tenant in (lo, lo @ replicate (4 + 256) 0xff))"

definition label_from_dict_key :: "bytes \<Rightarrow> string option" where
  "label_from_dict_key k = (if length k < 4 + 4 then None else from_utf8 (drop 8 k))"

section \<open>Operations\<close>

definition add_edge :: "'ks graph \<Rightarrow> u32 \<Rightarrow> edge \<Rightarrow> 'ks \<Rightarrow> unit result \<times> 'ks" where
  "add_edge g tenant edge ks =
     (let lh = label_hash (e_label edge);
          kout = out_key tenant (e_src edge) lh (e_dst edge);
          kin = in_key tenant (e_dst edge) lh (e_src edge);
          label_key = label_dict_key tenant lh (e_label edge)
      in bind_st (map_err Json (ser (gr_edge g) edge), ks) (\<lambda>val ks.
         commit_persist (gr_kv g)
           [BInsert PART_OUT kout val, BInsert PART_IN kin [], BInsert PART_LABELS label_key []] ks))"

definition remove_edge :: "'ks graph \<Rightarrow> u32 \<Rightarrow> ulid \<Rightarrow> ulid \<Rightarrow> string \<Rightarrow> 'ks \<Rightarrow> unit result \<times> 'ks" where
  "remove_edge g tenant src dst label ks =
     (let lh = label_hash label;
          kout = out_key tenant src lh dst;
          kin = in_key tenant dst lh src
      in commit_persist (gr_kv g) [BRemove PART_OUT kout, BRemove PART_IN kin] ks)"

definition label_skips :: "string option \<Rightarrow> edge \<Rightarrow> bool" where
  "label_skips label e = (case label of None \<Rightarrow> False | Some l \<Rightarrow> e_label e \<noteq> l)"

fun collect_out :: "'ks graph \<Rightarrow> string option \<Rightarrow> kv_item list \<Rightarrow> edge list \<Rightarrow> edge list result" where
  "collect_out g label [] out = Inr out"
| "collect_out g label (Inl e # items) out = Inl (Storage e)"
| "collect_out g label (Inr (k, v) # items) out =
     bind_res (map_err Json (de (gr_edge g) v)) (\<lambda>e.
     if label_skips label e then collect_out g label items out
     else collect_out g label items (out @ [e]))"

definition neighbours_out :: "'ks graph \<Rightarrow> 'ks \<Rightarrow> u32 \<Rightarrow> ulid \<Rightarrow> string option \<Rightarrow> edge list result" where
  "neighbours_out g ks tenant node label =
     (let (lo, hi) = (case label of
            Some l \<Rightarrow> out_label_range tenant node (label_hash l)
          | None \<Rightarrow> out_node_range tenant node)
      in collect_out g label (kv_range (gr_kv g) ks PART_OUT lo hi) [])"

fun collect_in ::
    "'ks graph \<Rightarrow> 'ks \<Rightarrow> u32 \<Rightarrow> ulid \<Rightarrow> string option \<Rightarrow> kv_item list \<Rightarrow> edge list \<Rightarrow> edge list result" where
  "collect_in g ks tenant node label [] out = Inr out"
| "collect_in g ks tenant node label (Inl e # items) out = Inl (Storage e)"
| "collect_in g ks tenant node label (Inr (k, v) # items) out =
     (if length k \<noteq> 4 + 16 + 4 + 16 then collect_in g ks tenant node label items out
      else
        let lh = u32_from_be (take 4 (drop 20 k));
            src = u128_from_be (take 16 (drop 24 k))
        in bind_res (map_err Storage (kv_get (gr_kv g) ks PART_OUT (out_key tenant src lh node))) (\<lambda>r.
           case r of
             None \<Rightarrow> collect_in g ks tenant node label items out
           | Some v \<Rightarrow>
               bind_res (map_err Json (de (gr_edge g) v)) (\<lambda>e.
               if label_skips label e then collect_in g ks tenant node label items out
               else collect_in g ks tenant node label items (out @ [e]))))"

definition neighbours_in :: "'ks graph \<Rightarrow> 'ks \<Rightarrow> u32 \<Rightarrow> ulid \<Rightarrow> string option \<Rightarrow> edge list result" where
  "neighbours_in g ks tenant node label =
     (let (lo, hi) = (case label of
            Some l \<Rightarrow> in_label_range tenant node (label_hash l)
          | None \<Rightarrow> in_node_range tenant node)
      in collect_in g ks tenant node label (kv_range (gr_kv g) ks PART_IN lo hi) [])"

fun collect_labels :: "kv_item list \<Rightarrow> string set \<Rightarrow> string set result" where
  "collect_labels [] out = Inr out"
| "collect_labels (Inl e # items) out = Inl (Storage e)"
| "collect_labels (Inr (k, v) # items) out =
     (case label_from_dict_key k of
        None \<Rightarrow> collect_labels items out
      | Some l \<Rightarrow> collect_labels items (insert l out))"

text \<open>A \<^verbatim>\<open>BTreeSet<String>\<close> iterates in the byte order of its strings.\<close>

definition sorted_labels :: "string set \<Rightarrow> string list" where
  "sorted_labels L = map bytes_to_string (sorted_list_of_set (as_bytes ` L))"

definition graph_labels :: "'ks graph \<Rightarrow> 'ks \<Rightarrow> u32 \<Rightarrow> string list result" where
  "graph_labels g ks tenant =
     (let (lo, hi) = label_dict_tenant_range tenant
      in bind_res (collect_labels (kv_range (gr_kv g) ks PART_LABELS lo hi) {}) (\<lambda>L.
         Inr (sorted_labels L)))"

section \<open>Breadth-first traversal\<close>

definition bfs_next ::
    "'ks graph \<Rightarrow> 'ks \<Rightarrow> u32 \<Rightarrow> direction \<Rightarrow> string option \<Rightarrow> ulid \<Rightarrow> ulid list result" where
  "bfs_next g ks tenant direction label node =
     bind_res
       (if direction = Out \<or> direction = Both
        then bind_res (neighbours_out g ks tenant node label) (\<lambda>es. Inr (map e_dst es)) else Inr [])
       (\<lambda>outs.
     bind_res
       (if direction = In \<or> direction = Both
        then bind_res (neighbours_in g ks tenant node label) (\<lambda>es. Inr (map e_src es)) else Inr [])
       (\<lambda>ins. Inr (outs @ ins)))"

fun bfs_push ::
    "nat \<Rightarrow> 'n list \<Rightarrow> ('n \<times> nat) list \<Rightarrow> 'n set \<Rightarrow> 'n list \<Rightarrow> ('n \<times> nat) list \<times> 'n set \<times> 'n list" where
  "bfs_push depth [] frontier visited order = (frontier, visited, order)"
| "bfs_push depth (n # next) frontier visited order =
     (if n \<in> visited then bfs_push depth next frontier visited order
      else bfs_push depth next (frontier @ [(n, depth + 1)]) (insert n visited) (order @ [n]))"

lemma bfs_push_frontier:
  "\<exists>new. fst (bfs_push d nx fr vis ord) = fr @ map (\<lambda>n. (n, d + 1)) new"
proof (induction nx arbitrary: fr vis ord)
  case Nil
  then show ?case by (intro exI [of _ "[]"]) simp
next
  case (Cons n nx)
  show ?case
  proof (cases "n \<in> vis")
    case True
    then show ?thesis using Cons by simp
  next
    case False
    obtain new where "fst (bfs_push d nx (fr @ [(n, d + 1)]) (insert n vis) (ord @ [n])) =
        (fr @ [(n, d + 1)]) @ map (\<lambda>n. (n, d + 1)) new" using Cons by blast
    then show ?thesis using False by (intro exI [of _ "n # new"]) simp
  qed
qed

text \<open>
  The loop ends because popping an entry of depth \<open>d\<close> adds only entries of depth \<open>d + 1\<close>, and
  an entry at the depth limit adds none: the multiset of remaining depths decreases.
\<close>

function bfs_loop ::
    "('n \<Rightarrow> 'n list result) \<Rightarrow> nat \<Rightarrow> ('n \<times> nat) list \<Rightarrow> 'n set \<Rightarrow> 'n list \<Rightarrow> 'n list result" where
  "bfs_loop expand max_depth [] visited order = Inr order"
| "bfs_loop expand max_depth ((node, depth) # frontier) visited order =
     (if max_depth \<le> depth then bfs_loop expand max_depth frontier visited order
      else case expand node of
             Inl e \<Rightarrow> Inl e
           | Inr next \<Rightarrow>
               (case bfs_push depth next frontier visited order of
                  (frontier', visited', order') \<Rightarrow> bfs_loop expand max_depth frontier' visited' order'))"
  by pat_completeness auto
termination
proof (relation "inv_image (mult less_than) (\<lambda>(expand, m, fr, vis, ord). mset (map (\<lambda>(n, d). m - d) fr))",
    goal_cases)
  case 1
  show ?case by (intro wf_inv_image wf_mult wf_less_than)
next
  case (2 expand m node d fr vis ord)
  then show ?case
    using one_step_implies_mult [of "{#m - d#}" "{#}" less_than "mset (map (\<lambda>(n, d). m - d) fr)"] by simp
next
  case (3 expand m node d fr vis ord nx fr' q vis' ord')
  obtain new where "fr' = fr @ map (\<lambda>n. (n, d + 1)) new"
    using bfs_push_frontier [of d nx fr vis ord] 3 by (metis fst_conv)
  moreover have "m - (d + 1) < m - d" using 3(1) by simp
  ultimately show ?case
    using one_step_implies_mult [of "{#m - d#}" "mset (map (\<lambda>n. m - (d + 1)) new)" less_than
        "mset (map (\<lambda>(n, d). m - d) fr)"]
    by (auto simp: o_def multiset.map_comp)
qed

definition bfs ::
    "'ks graph \<Rightarrow> 'ks \<Rightarrow> u32 \<Rightarrow> ulid \<Rightarrow> nat \<Rightarrow> direction \<Rightarrow> string option \<Rightarrow> ulid list result" where
  "bfs g ks tenant seed max_depth direction label =
     (if max_depth = 0 then Inr []
      else bfs_loop (bfs_next g ks tenant direction label) max_depth [(seed, 0)] {seed} [])"

section \<open>The traversal over an adjacency function\<close>

text \<open>The nodes within \<open>k\<close> hops of a seed.\<close>

fun within :: "('n \<Rightarrow> 'n set) \<Rightarrow> 'n \<Rightarrow> nat \<Rightarrow> 'n set" where
  "within adj s 0 = {s}"
| "within adj s (Suc k) = within adj s k \<union> (\<Union>n \<in> within adj s k. adj n)"

definition nearer_first :: "('n \<Rightarrow> 'n set) \<Rightarrow> 'n \<Rightarrow> 'n list \<Rightarrow> bool" where
  "nearer_first adj s = sorted_wrt (\<lambda>a b. \<forall>k. b \<in> within adj s k \<longrightarrow> a \<in> within adj s k)"

lemma within_mono: "j \<le> k \<Longrightarrow> within adj s j \<subseteq> within adj s k"
  by (induction k) (auto simp: le_Suc_eq)

lemma within_step: "n \<in> within adj s k \<Longrightarrow> x \<in> adj n \<Longrightarrow> x \<in> within adj s (Suc k)"
  by auto

lemma bfs_push_spec:
  "\<exists>new. bfs_push d nx fr vis ord = (fr @ map (\<lambda>n. (n, Suc d)) new, vis \<union> set nx, ord @ new) \<and>
     distinct new \<and> set new = set nx - vis"
proof (induction nx arbitrary: fr vis ord)
  case Nil
  then show ?case by simp
next
  case (Cons n nx)
  show ?case
  proof (cases "n \<in> vis")
    case True
    then show ?thesis using Cons [of fr vis ord] by (auto simp: insert_absorb)
  next
    case False
    obtain new where "bfs_push d nx (fr @ [(n, Suc d)]) (insert n vis) (ord @ [n]) =
        ((fr @ [(n, Suc d)]) @ map (\<lambda>n. (n, Suc d)) new, insert n vis \<union> set nx, (ord @ [n]) @ new) \<and>
        distinct new \<and> set new = set nx - insert n vis" using Cons by blast
    then show ?thesis using False by (intro exI [of _ "n # new"]) auto
  qed
qed

text \<open>
  The loop invariant. A queued node is visited and its recorded depth is its distance; queued
  depths ascend and differ by at most one; everything as near as the head of the queue has been
  visited; and a visited node below the depth limit that is not queued has all its neighbours
  visited.
\<close>

definition bfs_inv ::
    "('n \<Rightarrow> 'n set) \<Rightarrow> 'n \<Rightarrow> nat \<Rightarrow> ('n \<times> nat) list \<Rightarrow> 'n set \<Rightarrow> 'n list \<Rightarrow> bool" where
  "bfs_inv adj s m fr vis ord \<longleftrightarrow>
     vis = insert s (set ord) \<and> distinct ord \<and> s \<notin> set ord \<and> nearer_first adj s ord \<and>
     vis \<subseteq> within adj s m \<and>
     (\<forall>x\<in>set fr. fst x \<in> vis \<and> fst x \<in> within adj s (snd x) \<and>
        (\<forall>k. k < snd x \<longrightarrow> fst x \<notin> within adj s k) \<and> snd x \<le> m) \<and>
     (\<forall>n\<in>vis. n \<in> fst ` set fr \<or> (\<forall>k<m. n \<notin> within adj s k) \<or> adj n \<subseteq> vis) \<and>
     sorted (map snd fr) \<and>
     (fr \<noteq> [] \<longrightarrow> within adj s (snd (hd fr)) \<subseteq> vis \<and> vis \<subseteq> within adj s (Suc (snd (hd fr))) \<and>
        (\<forall>x\<in>set fr. snd x \<le> Suc (snd (hd fr))))"

lemma bfs_invD:
  assumes "bfs_inv adj s m fr vis ord"
  shows "vis = insert s (set ord)" "distinct ord" "s \<notin> set ord" "nearer_first adj s ord"
    "vis \<subseteq> within adj s m" "sorted (map snd fr)"
    "n \<in> vis \<Longrightarrow> n \<in> fst ` set fr \<or> (\<forall>k<m. n \<notin> within adj s k) \<or> adj n \<subseteq> vis"
    "x \<in> set fr \<Longrightarrow> fst x \<in> vis" "x \<in> set fr \<Longrightarrow> fst x \<in> within adj s (snd x)"
    "x \<in> set fr \<Longrightarrow> k < snd x \<Longrightarrow> fst x \<notin> within adj s k" "x \<in> set fr \<Longrightarrow> snd x \<le> m"
    "fr \<noteq> [] \<Longrightarrow> within adj s (snd (hd fr)) \<subseteq> vis"
    "fr \<noteq> [] \<Longrightarrow> vis \<subseteq> within adj s (Suc (snd (hd fr)))"
    "x \<in> set fr \<Longrightarrow> snd x \<le> Suc (snd (hd fr))"
proof -
  note inv = assms [unfolded bfs_inv_def]
  from inv show "vis = insert s (set ord)" by (elim conjE) assumption
  from inv show "distinct ord" by (elim conjE) assumption
  from inv show "s \<notin> set ord" by (elim conjE) assumption
  from inv show "nearer_first adj s ord" by (elim conjE) assumption
  from inv show "vis \<subseteq> within adj s m" by (elim conjE) assumption
  from inv show "sorted (map snd fr)" by (elim conjE) assumption
  show "n \<in> vis \<Longrightarrow> n \<in> fst ` set fr \<or> (\<forall>k<m. n \<notin> within adj s k) \<or> adj n \<subseteq> vis"
    using inv by (elim conjE) (drule bspec)
  have "\<forall>x\<in>set fr. fst x \<in> vis \<and> fst x \<in> within adj s (snd x) \<and>
      (\<forall>k. k < snd x \<longrightarrow> fst x \<notin> within adj s k) \<and> snd x \<le> m"
    using inv by (elim conjE) assumption
  then show "x \<in> set fr \<Longrightarrow> fst x \<in> vis" "x \<in> set fr \<Longrightarrow> fst x \<in> within adj s (snd x)"
    "x \<in> set fr \<Longrightarrow> k < snd x \<Longrightarrow> fst x \<notin> within adj s k" "x \<in> set fr \<Longrightarrow> snd x \<le> m"
    by blast+
  have "fr \<noteq> [] \<longrightarrow> within adj s (snd (hd fr)) \<subseteq> vis \<and> vis \<subseteq> within adj s (Suc (snd (hd fr))) \<and>
      (\<forall>x\<in>set fr. snd x \<le> Suc (snd (hd fr)))"
    using inv by (elim conjE) assumption
  then show "fr \<noteq> [] \<Longrightarrow> within adj s (snd (hd fr)) \<subseteq> vis"
    "fr \<noteq> [] \<Longrightarrow> vis \<subseteq> within adj s (Suc (snd (hd fr)))"
    "x \<in> set fr \<Longrightarrow> snd x \<le> Suc (snd (hd fr))"
    by force+
qed

lemma sorted_wrt_all: "(\<And>a b. a \<in> set xs \<Longrightarrow> b \<in> set xs \<Longrightarrow> R a b) \<Longrightarrow> sorted_wrt R xs"
  by (induction xs) auto

lemma bfs_inv_start: "bfs_inv adj s m [(s, 0)] {s} []"
  using within_mono [of 0 m adj s] by (auto simp: bfs_inv_def nearer_first_def)

lemma bfs_inv_done:
  assumes "bfs_inv adj s m [] vis ord"
  shows "set ord = within adj s m - {s}" "distinct ord" "nearer_first adj s ord"
proof -
  have closed: "n \<in> vis \<Longrightarrow> k < m \<Longrightarrow> n \<in> within adj s k \<Longrightarrow> adj n \<subseteq> vis" for n k
    using assms by (auto simp: bfs_inv_def)
  have "k \<le> m \<Longrightarrow> within adj s k \<subseteq> vis" for k
  proof (induction k)
    case 0
    then show ?case using assms by (auto simp: bfs_inv_def)
  next
    case (Suc k)
    then show ?case using closed [of _ k] by auto
  qed
  then have "within adj s m = vis" using assms by (auto simp: bfs_inv_def)
  then show "set ord = within adj s m - {s}" using assms by (auto simp: bfs_inv_def)
qed (use assms in \<open>auto simp: bfs_inv_def\<close>)

text \<open>When the head of the queue moves on to the next depth, that depth is complete.\<close>

lemma bfs_next_level:
  assumes vis: "within adj s d \<subseteq> vis" and dm: "d < m"
    and closed: "\<And>n. n \<in> vis \<Longrightarrow> n \<in> Q \<or> (\<forall>k<m. n \<notin> within adj s k) \<or> adj n \<subseteq> vis"
    and far: "\<And>n. n \<in> Q \<Longrightarrow> n \<notin> within adj s d"
  shows "within adj s (Suc d) \<subseteq> vis"
  using vis closed far dm by fastforce

lemma bfs_inv_skip:
  assumes inv: "bfs_inv adj s m ((node, d) # fr) vis ord" and md: "m \<le> d"
  shows "bfs_inv adj s m fr vis ord"
proof -
  have d: "d = m" "\<forall>k<m. node \<notin> within adj s k" using inv md by (auto simp: bfs_inv_def)
  have fr: "snd x = m" if "x \<in> set fr" for x
    using that bfs_invD(6,11) [OF inv] d(1) by (metis antisym list.set_intros(2) list.simps(9) snd_conv
        sorted_wrt.simps(2) image_eqI list.set_map)
  have closed: "n \<in> fst ` set fr \<or> (\<forall>k<m. n \<notin> within adj s k) \<or> adj n \<subseteq> vis" if "n \<in> vis" for n
    using bfs_invD(7) [OF inv that] d(2) by auto
  have head: "snd (hd fr) = m" if "fr \<noteq> []" using fr that by simp
  show ?thesis
    unfolding bfs_inv_def
    using bfs_invD(1-5) [OF inv] bfs_invD(6,12,13) [OF inv] bfs_invD(8-11) [OF inv] closed head fr d(1)
    by (intro conjI impI ballI) (auto simp: split_def)
qed

lemma bfs_inv_pop:
  assumes inv: "bfs_inv adj s m ((node, d) # fr) vis ord" and dm: "d < m"
    and nx: "set nx = adj node" and push: "bfs_push d nx fr vis ord = (fr', vis', ord')"
  shows "bfs_inv adj s m fr' vis' ord'"
proof -
  obtain new where new: "fr' = fr @ map (\<lambda>n. (n, Suc d)) new" "vis' = vis \<union> adj node"
    "ord' = ord @ new" "distinct new" "set new = adj node - vis"
    using bfs_push_spec [of d nx fr vis ord] push nx by auto
  have node: "node \<in> vis" "node \<in> within adj s d" and low: "within adj s d \<subseteq> vis"
    and high: "vis \<subseteq> within adj s (Suc d)" and top: "vis \<subseteq> within adj s m"
    using inv by (auto simp: bfs_inv_def)
  have at: "n \<in> within adj s (Suc d)" "\<forall>k < Suc d. n \<notin> within adj s k" if "n \<in> set new" for n
  proof -
    show "n \<in> within adj s (Suc d)" using that new(5) node(2) by auto
    show "\<forall>k < Suc d. n \<notin> within adj s k"
      using that new(5) low within_mono [of _ d adj s] by (auto simp: less_Suc_eq_le)
  qed
  have vis': "vis' \<subseteq> within adj s (Suc d)" using high new(2) node(2) by auto
  have queue: "\<forall>x\<in>set fr'. fst x \<in> vis' \<and> fst x \<in> within adj s (snd x) \<and>
      (\<forall>k. k < snd x \<longrightarrow> fst x \<notin> within adj s k) \<and> snd x \<le> m"
  proof
    fix x assume "x \<in> set fr'"
    then consider "x \<in> set ((node, d) # fr)" | n where "n \<in> set new" "x = (n, Suc d)" using new(1) by auto
    then show "fst x \<in> vis' \<and> fst x \<in> within adj s (snd x) \<and>
        (\<forall>k. k < snd x \<longrightarrow> fst x \<notin> within adj s k) \<and> snd x \<le> m"
    proof cases
      case 1
      then show ?thesis using bfs_invD(8-11) [OF inv 1] new(2) by blast
    next
      case 2
      then show ?thesis using at [OF 2(1)] dm new(2,5) by auto
    qed
  qed
  have closed: "\<forall>n\<in>vis'. n \<in> fst ` set fr' \<or> (\<forall>k<m. n \<notin> within adj s k) \<or> adj n \<subseteq> vis'"
  proof
    fix n assume "n \<in> vis'"
    then consider "n = node" | "n \<in> vis" "n \<noteq> node" | "n \<in> set new" using new(2,5) by blast
    then show "n \<in> fst ` set fr' \<or> (\<forall>k<m. n \<notin> within adj s k) \<or> adj n \<subseteq> vis'"
    proof cases
      case 2
      then show ?thesis using bfs_invD(7) [OF inv, of n] new(1,2) by auto
    qed (use new(1,2) in force)+
  qed
  have depths: "\<forall>x\<in>set fr'. snd x = d \<or> snd x = Suc d" "sorted (map snd fr')"
  proof -
    have "\<forall>x\<in>set fr. d \<le> snd x \<and> snd x \<le> Suc d" using inv by (auto simp: bfs_inv_def)
    then show "\<forall>x\<in>set fr'. snd x = d \<or> snd x = Suc d" "sorted (map snd fr')"
      using bfs_invD(6) [OF inv] sorted_wrt_all [of new "\<lambda>_ _. Suc d \<le> Suc d"] unfolding new(1)
      by (auto simp: sorted_append o_def sorted_wrt_map le_Suc_eq)
  qed
  have head: "within adj s (snd (hd fr')) \<subseteq> vis' \<and> vis' \<subseteq> within adj s (Suc (snd (hd fr'))) \<and>
      (\<forall>x\<in>set fr'. snd x \<le> Suc (snd (hd fr')))" if ne: "fr' \<noteq> []"
  proof (cases "snd (hd fr') = d")
    case True
    then show ?thesis using low new(2) vis' depths(1) by fastforce
  next
    case False
    then have all: "\<forall>x\<in>set fr'. snd x = Suc d" using depths ne
      by (cases fr') (auto simp: Suc_le_eq)
    have "within adj s (Suc d) \<subseteq> vis'"
    proof (rule bfs_next_level [OF _ dm])
      show "within adj s d \<subseteq> vis'" using low new(2) by blast
      show "n \<notin> within adj s d" if "n \<in> fst ` set fr'" for n using that all queue by force
    qed (use closed in blast)
    then show ?thesis using all ne vis' within_mono [of "Suc d" "Suc (Suc d)" adj s]
      by (cases fr') auto
  qed
  have "nearer_first adj s ord'"
  proof -
    have "a \<in> within adj s k" if "a \<in> set ord" "b \<in> set new" "b \<in> within adj s k" for a b k
    proof -
      have "Suc d \<le> k" using at(2) [OF that(2)] that(3) by (meson not_less)
      moreover have "a \<in> within adj s (Suc d)" using that(1) bfs_invD(1) [OF inv] high by blast
      ultimately show ?thesis by (rule within_mono [THEN subsetD])
    qed
    moreover have "a \<in> within adj s k" if "a \<in> set new" "b \<in> set new" "b \<in> within adj s k" for a b k
    proof -
      have "Suc d \<le> k" using at(2) [OF that(2)] that(3) by (meson not_less)
      then show ?thesis using at(1) [OF that(1)] by (rule within_mono [THEN subsetD])
    qed
    moreover have "nearer_first adj s new" unfolding nearer_first_def
      by (rule sorted_wrt_all) (use calculation(2) in blast)
    ultimately show ?thesis
      using inv unfolding bfs_inv_def new(3) nearer_first_def by (auto simp: sorted_wrt_append)
  qed
  moreover have "vis' \<subseteq> within adj s m" using vis' dm within_mono [of "Suc d" m adj s] by auto
  moreover have "vis' = insert s (set ord')" "distinct ord'" "s \<notin> set ord'"
    using bfs_invD(1-3) [OF inv] new(2-5) by auto
  ultimately show ?thesis
    unfolding bfs_inv_def using queue closed depths(2) head by (intro conjI) (assumption | blast)+
qed

locale traversal =
  fixes expand :: "'n \<Rightarrow> 'n list result" and adj :: "'n \<Rightarrow> 'n set"
  assumes expand_adj: "\<exists>nx. expand n = Inr nx \<and> set nx = adj n"
begin

lemma bfs_loop_spec:
  "bfs_inv adj s m fr vis ord \<Longrightarrow>
     \<exists>xs. bfs_loop expand m fr vis ord = Inr xs \<and> distinct xs \<and> set xs = within adj s m - {s} \<and>
       nearer_first adj s xs"
proof (induction ex \<equiv> expand m fr vis ord rule: bfs_loop.induct)
  case (1 m vis ord)
  then show ?case using bfs_inv_done by fastforce
next
  case (2 m node d fr vis ord)
  show ?case
  proof (cases "m \<le> d")
    case True
    then show ?thesis using 2(1) [OF True] bfs_inv_skip [OF 2(3) True] by simp
  next
    case False
    obtain nx where nx: "expand node = Inr nx" "set nx = adj node" using expand_adj by blast
    obtain fr' vis' ord' where p: "bfs_push d nx fr vis ord = (fr', vis', ord')"
      by (metis prod_cases3)
    then show ?thesis using 2(2) [OF False nx(1), of fr' "(vis', ord')" vis' ord'] False
        bfs_inv_pop [OF 2(3) _ nx(2) p] by (simp add: nx(1))
  qed
qed

end

section \<open>The stored graph and its invariant\<close>

text \<open>
  An edge is stored for a tenant when the forward partition holds it under its own key. The
  invariant ties the three partitions together: forward values are edges under their own keys,
  reverse keys mirror forward keys, and the label of every stored edge is in the dictionary,
  which holds nothing but labels. A key range ends with an exclusive bound of \<^verbatim>\<open>0xff\<close> bytes, so
  a scan does not see the one or the few keys that consist of such bytes (\<open>seen_by_scan\<close>).
\<close>

definition edge_key :: "u32 \<Rightarrow> edge \<Rightarrow> bytes" where
  "edge_key t e = out_key t (e_src e) (label_hash (e_label e)) (e_dst e)"

definition edge_in :: "'ks graph \<Rightarrow> kv_view \<Rightarrow> u32 \<Rightarrow> edge \<Rightarrow> bool" where
  "edge_in g m t e \<longleftrightarrow> (\<exists>b. m PART_OUT (edge_key t e) = Some b \<and> de (gr_edge g) b = Inr e)"

definition graph_inv :: "'ks graph \<Rightarrow> kv_view \<Rightarrow> bool" where
  "graph_inv g m \<longleftrightarrow>
     (\<forall>k b. m PART_OUT k = Some b \<longrightarrow> (\<exists>t e. de (gr_edge g) b = Inr e \<and> k = edge_key t e)) \<and>
     (\<forall>t a h b. m PART_IN (in_key t b h a) \<noteq> None \<longleftrightarrow> m PART_OUT (out_key t a h b) \<noteq> None) \<and>
     (\<forall>k. m PART_IN k \<noteq> None \<longrightarrow> (\<exists>t a h b. k = in_key t b h a)) \<and>
     (\<forall>t e. edge_in g m t e \<longrightarrow> m PART_LABELS (label_dict_key t (label_hash (e_label e)) (e_label e)) \<noteq> None) \<and>
     (\<forall>k. m PART_LABELS k \<noteq> None \<longrightarrow>
        (\<exists>t l. utf8_valid (as_bytes l) \<and> k = label_dict_key t (label_hash l) l))"

definition seen_by_scan :: "string option \<Rightarrow> u32 \<Rightarrow> ulid \<Rightarrow> bool" where
  "seen_by_scan label lh far \<longleftrightarrow> far \<noteq> - 1 \<or> label = None \<and> lh \<noteq> - 1"

text \<open>One hop: a stored edge of the tenant, with the label asked for, in a direction followed.\<close>

definition linked :: "'ks graph \<Rightarrow> kv_view \<Rightarrow> u32 \<Rightarrow> direction \<Rightarrow> string option \<Rightarrow> ulid \<Rightarrow> ulid set" where
  "linked g m t dir label n =
     {x. \<exists>e. edge_in g m t e \<and> \<not> label_skips label e \<and>
        ((dir = Out \<or> dir = Both) \<and> e_src e = n \<and> e_dst e = x \<and>
           seen_by_scan label (label_hash (e_label e)) (e_dst e) \<or>
         (dir = In \<or> dir = Both) \<and> e_dst e = n \<and> e_src e = x \<and>
           seen_by_scan label (label_hash (e_label e)) (e_src e))}"

section \<open>Lemmas: keys and ranges\<close>

lemma part_graph_neq [simp]:
  "PART_OUT \<noteq> PART_IN" "PART_IN \<noteq> PART_OUT" "PART_OUT \<noteq> PART_LABELS" "PART_LABELS \<noteq> PART_OUT"
  "PART_IN \<noteq> PART_LABELS" "PART_LABELS \<noteq> PART_IN"
  by (simp_all add: PART_OUT_def PART_IN_def PART_LABELS_def)

lemma out_key_inject [simp]:
  "out_key t a h b = out_key t' a' h' b' \<longleftrightarrow> t = t' \<and> a = a' \<and> h = h' \<and> b = b'"
  by (simp add: out_key_def)

lemma in_key_eq: "in_key = out_key" "in_node_range = out_node_range" "in_label_range = out_label_range"
  by (simp_all add: fun_eq_iff in_key_def out_key_def in_node_range_def out_node_range_def
      in_label_range_def out_label_range_def)

lemma length_out_key [simp]: "length (out_key t a h b) = 40"
  by (simp add: out_key_def)

lemma out_key_fields:
  "u32_from_be (take 4 (drop 20 (out_key t a h b))) = h"
  "u128_from_be (take 16 (drop 24 (out_key t a h b))) = b" "u128_from_be (drop 24 (out_key t a h b)) = b"
  by (simp_all add: out_key_def)

lemma label_dict_key_inject [simp]:
  "label_dict_key t h l = label_dict_key t' h' l' \<longleftrightarrow> t = t' \<and> h = h' \<and> l = l'"
  by (simp add: label_dict_key_def)

definition scan_range :: "u32 \<Rightarrow> ulid \<Rightarrow> string option \<Rightarrow> bytes \<times> bytes" where
  "scan_range t n label =
     (case label of Some l \<Rightarrow> out_label_range t n (label_hash l) | None \<Rightarrow> out_node_range t n)"

lemma scan_range_le: "fst (scan_range t n label) \<le> snd (scan_range t n label)"
  by (simp add: le_append_same scan_range_def out_label_range_def out_node_range_def Let_def
      del: append_assoc split: option.splits)

lemma scan_range_iff:
  "fst (scan_range t n label) \<le> out_key t' a h b \<and> out_key t' a h b < snd (scan_range t n label) \<longleftrightarrow>
     t' = t \<and> a = n \<and> seen_by_scan label h b \<and> (\<forall>l. label = Some l \<longrightarrow> h = label_hash l)"
proof (cases label)
  case None
  have all: "replicate 20 0xff = u32_be (- 1) @ u128_be (- 1)"
    using replicate_add [of 4 16 "0xff :: byte"] by (simp add: u32_be_max u128_be_max)
  have "u32_be h @ u128_be b < replicate 20 0xff \<longleftrightarrow> u32_be h @ u128_be b \<noteq> replicate 20 0xff"
    by (rule less_replicate_max) simp
  then have "u32_be h @ u128_be b < replicate 20 0xff \<longleftrightarrow> \<not> (h = - 1 \<and> b = - 1)"
    unfolding all by simp
  then show ?thesis
    using None prefix_interval [of "u32_be t @ u128_be n" "out_key t' a h b" "replicate 20 0xff"]
    by (auto simp: scan_range_def out_node_range_def out_key_def seen_by_scan_def Let_def)
next
  case (Some l)
  have "u128_be b < replicate 16 0xff \<longleftrightarrow> u128_be b \<noteq> replicate 16 0xff"
    by (rule less_replicate_max) simp
  then have "u128_be b < replicate 16 0xff \<longleftrightarrow> b \<noteq> - 1"
    unfolding u128_be_max [symmetric] by simp
  then show ?thesis
    using Some prefix_interval [of "u32_be t @ u128_be n @ u32_be (label_hash l)" "out_key t' a h b" "replicate 16 0xff"]
    by (auto simp: scan_range_def out_label_range_def out_key_def seen_by_scan_def Let_def)
qed

lemma graph_inv_out:
  "graph_inv g m \<Longrightarrow> m PART_OUT k = Some b \<Longrightarrow> \<exists>t e. de (gr_edge g) b = Inr e \<and> k = edge_key t e"
  by (simp add: graph_inv_def)

lemma graph_inv_in:
  "graph_inv g m \<Longrightarrow> m PART_IN (in_key t b h a) \<noteq> None \<longleftrightarrow> m PART_OUT (out_key t a h b) \<noteq> None"
  "graph_inv g m \<Longrightarrow> m PART_IN k \<noteq> None \<Longrightarrow> \<exists>t a h b. k = in_key t b h a"
  by (simp_all add: graph_inv_def)

lemma graph_inv_labels:
  "graph_inv g m \<Longrightarrow> edge_in g m t e \<Longrightarrow>
     m PART_LABELS (label_dict_key t (label_hash (e_label e)) (e_label e)) \<noteq> None"
  "graph_inv g m \<Longrightarrow> m PART_LABELS k \<noteq> None \<Longrightarrow>
     \<exists>t l. utf8_valid (as_bytes l) \<and> k = label_dict_key t (label_hash l) l"
  by (simp_all add: graph_inv_def)

lemma edge_key_fields [simp]:
  "edge_key t e = out_key t' a h b \<longleftrightarrow> t = t' \<and> e_src e = a \<and> label_hash (e_label e) = h \<and> e_dst e = b"
  "out_key t' a h b = edge_key t e \<longleftrightarrow> t' = t \<and> a = e_src e \<and> h = label_hash (e_label e) \<and> b = e_dst e"
  by (auto simp: edge_key_def)

lemma utf8_head: "utf8_valid (b # bs) \<Longrightarrow> b \<noteq> 0xff"
  by (auto simp: utf8_valid_def)

lemma label_below_bound:
  assumes "utf8_valid (as_bytes l)"
  shows "u32_be h @ as_bytes l < replicate 260 0xff"
proof -
  have all: "replicate 260 0xff = replicate 4 (0xff :: byte) @ replicate 256 0xff"
    using replicate_add [of 4 256 "0xff :: byte"] by simp
  have "as_bytes l < replicate 256 0xff"
  proof (cases "as_bytes l")
    case Nil
    then show ?thesis by (simp add: replicate_Suc [of 255, simplified])
  next
    case (Cons b bs)
    then have "b < 0xff" using utf8_head [of b bs] assms byte_le_max [of b] by (simp add: order_less_le)
    then show ?thesis using Cons by (simp add: replicate_Suc [of 255, simplified])
  qed
  moreover have "u32_be h \<le> replicate 4 0xff" by (rule le_replicate_max) simp
  ultimately show ?thesis unfolding all by (auto simp: append_less_append order_le_less)
qed

lemma label_range_iff:
  assumes "utf8_valid (as_bytes l)"
  shows "fst (label_dict_tenant_range t) \<le> label_dict_key t' h l \<and>
    label_dict_key t' h l < snd (label_dict_tenant_range t) \<longleftrightarrow> t' = t"
  using prefix_interval [of "u32_be t" "label_dict_key t' h l" "replicate 260 0xff"] label_below_bound [OF assms, of h]
  by (auto simp: label_dict_tenant_range_def label_dict_key_def Let_def)

lemma label_from_dict_key [simp]:
  "utf8_valid (as_bytes l) \<Longrightarrow> label_from_dict_key (label_dict_key t h l) = Some l"
  by (simp add: label_from_dict_key_def label_dict_key_def)

section \<open>The graph over a lawful engine\<close>

locale graph_store = kv_engine "gr_kv g" view
  for g :: "'ks graph" and view :: "'ks \<Rightarrow> kv_view"
begin

lemma scan_view:
  "(case (case label of Some l \<Rightarrow> out_label_range t n (label_hash l) | None \<Rightarrow> out_node_range t n) of
      (lo, hi) \<Rightarrow> F (kv_range (gr_kv g) ks p lo hi)) =
   F (map Inr (entries (view ks p) {k. fst (scan_range t n label) \<le> k \<and> k < snd (scan_range t n label)}))"
  using range_view [OF scan_range_le, of ks p t n label]
  by (simp add: scan_range_def split_def)

lemma collect_out_eq:
  "(\<And>k v. (k, v) \<in> set es \<Longrightarrow> de (gr_edge g) v = Inr (ed k)) \<Longrightarrow>
     collect_out g label (map Inr es) out =
       Inr (out @ filter (\<lambda>e. \<not> label_skips label e) (map (ed \<circ> fst) es))"
proof (induction es arbitrary: out)
  case Nil
  then show ?case by simp
next
  case (Cons x es)
  obtain k v where "x = (k, v)" by fastforce
  then show ?case using Cons.prems [of k v] Cons.IH [OF Cons.prems] by simp
qed

lemma collect_in_eq:
  "(\<And>k v. (k, v) \<in> set es \<Longrightarrow> \<exists>h a b. k = in_key t n h a \<and>
      view ks PART_OUT (out_key t a h n) = Some b \<and> de (gr_edge g) b = Inr (ed k)) \<Longrightarrow>
     collect_in g ks t n label (map Inr es) out =
       Inr (out @ filter (\<lambda>e. \<not> label_skips label e) (map (ed \<circ> fst) es))"
proof (induction es arbitrary: out)
  case Nil
  then show ?case by simp
next
  case (Cons x es)
  obtain k v where x: "x = (k, v)" by fastforce
  then obtain h a b where "k = in_key t n h a" "view ks PART_OUT (out_key t a h n) = Some b"
    "de (gr_edge g) b = Inr (ed k)" using Cons.prems [of k v] by auto
  moreover have "collect_in g ks t n label (map Inr es) out =
      Inr (out @ filter (\<lambda>e. \<not> label_skips label e) (map (ed \<circ> fst) es))" for out
    by (rule Cons.IH) (erule Cons.prems [OF list.set_intros(2)])
  ultimately show ?case using x
    by (simp add: get_view in_key_eq out_key_fields Let_def o_def)
qed

lemma neighbours_out_spec:
  assumes inv: "graph_inv g (view ks)"
  shows "\<exists>es. neighbours_out g ks t n label = Inr es \<and> distinct es \<and>
    set es = {e. edge_in g (view ks) t e \<and> e_src e = n \<and> \<not> label_skips label e \<and>
      seen_by_scan label (label_hash (e_label e)) (e_dst e)}"
proof -
  let ?m = "view ks"
  define es where "es = entries (?m PART_OUT)
    {k. fst (scan_range t n label) \<le> k \<and> k < snd (scan_range t n label)}"
  define ed where "ed k = projr (de (gr_edge g) (the (?m PART_OUT k)))" for k
  have es: "(k, v) \<in> set es \<longleftrightarrow> ?m PART_OUT k = Some v \<and>
      fst (scan_range t n label) \<le> k \<and> k < snd (scan_range t n label)" for k v
    by (simp add: es_def set_entries finite_view)
  have val: "de (gr_edge g) v = Inr (ed k) \<and> k = edge_key t (ed k) \<and> edge_in g ?m t (ed k) \<and> e_src (ed k) = n \<and>
      seen_by_scan label (label_hash (e_label (ed k))) (e_dst (ed k))" if kv: "(k, v) \<in> set es" for k v
  proof -
    have kv: "?m PART_OUT k = Some v" "fst (scan_range t n label) \<le> k" "k < snd (scan_range t n label)"
      using kv es by blast+
    obtain t' e where e: "de (gr_edge g) v = Inr e" "k = edge_key t' e"
      using graph_inv_out [OF inv kv(1)] by blast
    then have "ed k = e" using kv by (simp add: ed_def)
    moreover have "t' = t \<and> e_src e = n \<and> seen_by_scan label (label_hash (e_label e)) (e_dst e)"
      using kv scan_range_iff [of t n label t' "e_src e" "label_hash (e_label e)" "e_dst e"] e(2)
      by (simp add: edge_key_def)
    ultimately show ?thesis using e kv by (auto simp: edge_in_def)
  qed
  have "neighbours_out g ks t n label = collect_out g label (map Inr es) []"
    unfolding neighbours_out_def Let_def es_def by (rule scan_view)
  then have "neighbours_out g ks t n label = Inr (filter (\<lambda>e. \<not> label_skips label e) (map (ed \<circ> fst) es))"
    using collect_out_eq [of es ed label "[]"] val by simp
  moreover have "distinct (map (ed \<circ> fst) es)"
  proof -
    have "distinct (map fst es)" unfolding es_def by (rule distinct_entries)
    moreover have "inj_on ed (fst ` set es)"
      by (rule inj_on_inverseI [of _ "edge_key t"]) (use val in force)
    ultimately show ?thesis by (simp add: distinct_map flip: map_map)
  qed
  moreover have "e \<in> set (map (ed \<circ> fst) es)" if e: "edge_in g ?m t e" "e_src e = n" "\<not> label_skips label e"
    "seen_by_scan label (label_hash (e_label e)) (e_dst e)" for e
  proof -
    obtain b where b: "?m PART_OUT (edge_key t e) = Some b" "de (gr_edge g) b = Inr e"
      using e(1) by (auto simp: edge_in_def)
    have "label_hash (e_label e) = label_hash l" if "label = Some l" for l
      using e(3) that by (simp add: label_skips_def)
    then have "(edge_key t e, b) \<in> set es"
      using es b(1) e scan_range_iff [of t n label t "e_src e" "label_hash (e_label e)" "e_dst e"]
      by (simp add: edge_key_def)
    moreover have "ed (edge_key t e) = e" using b by (simp add: ed_def)
    ultimately show ?thesis by force
  qed
  ultimately show ?thesis
    using val by (intro exI [of _ "filter (\<lambda>e. \<not> label_skips label e) (map (ed \<circ> fst) es)"]) fastforce
qed

lemma neighbours_in_spec:
  assumes inv: "graph_inv g (view ks)"
  shows "\<exists>es. neighbours_in g ks t n label = Inr es \<and> distinct es \<and>
    set es = {e. edge_in g (view ks) t e \<and> e_dst e = n \<and> \<not> label_skips label e \<and>
      seen_by_scan label (label_hash (e_label e)) (e_src e)}"
proof -
  let ?m = "view ks"
  define es where "es = entries (?m PART_IN)
    {k. fst (scan_range t n label) \<le> k \<and> k < snd (scan_range t n label)}"
  define bk where "bk k = out_key t (u128_from_be (take 16 (drop 24 k))) (u32_from_be (take 4 (drop 20 k))) n" for k
  define ed where "ed k = projr (de (gr_edge g) (the (?m PART_OUT (bk k))))" for k
  have bk: "bk (in_key t n h a) = out_key t a h n" for h a
    by (simp add: bk_def in_key_eq out_key_fields)
  have es: "(k, v) \<in> set es \<longleftrightarrow> ?m PART_IN k = Some v \<and>
      fst (scan_range t n label) \<le> k \<and> k < snd (scan_range t n label)" for k v
    by (simp add: es_def set_entries finite_view)
  have val: "\<exists>h a b. k = in_key t n h a \<and> ?m PART_OUT (out_key t a h n) = Some b \<and>
      de (gr_edge g) b = Inr (ed k) \<and> edge_in g ?m t (ed k) \<and> e_dst (ed k) = n \<and> e_src (ed k) = a \<and>
      label_hash (e_label (ed k)) = h \<and>
      seen_by_scan label (label_hash (e_label (ed k))) (e_src (ed k))" if kv: "(k, v) \<in> set es" for k v
  proof -
    have kv: "?m PART_IN k = Some v" "fst (scan_range t n label) \<le> k" "k < snd (scan_range t n label)"
      using kv es by blast+
    obtain t' a h d where k: "k = in_key t' d h a" using graph_inv_in(2) [OF inv, of k] kv(1) by blast
    have td: "t' = t" "d = n" "seen_by_scan label h a"
      using kv(2,3) scan_range_iff [of t n label t' d h a] k by (auto simp: in_key_eq)
    obtain b where b: "?m PART_OUT (out_key t a h n) = Some b"
      using graph_inv_in(1) [OF inv, of t n h a] k td kv(1) by auto
    obtain t'' e where e: "de (gr_edge g) b = Inr e" "out_key t a h n = edge_key t'' e"
      using graph_inv_out [OF inv b] by blast
    have "ed k = e" using e b k td bk by (simp add: ed_def)
    moreover have "edge_in g ?m t e" using e b by (auto simp: edge_in_def edge_key_def)
    ultimately show ?thesis using e b k td by auto
  qed
  have "neighbours_in g ks t n label = collect_in g ks t n label (map Inr es) []"
    unfolding neighbours_in_def Let_def es_def in_key_eq by (rule scan_view)
  moreover have "collect_in g ks t n label (map Inr es) [] =
      Inr ([] @ filter (\<lambda>e. \<not> label_skips label e) (map (ed \<circ> fst) es))"
    by (rule collect_in_eq) (use val in blast)
  ultimately have "neighbours_in g ks t n label =
      Inr (filter (\<lambda>e. \<not> label_skips label e) (map (ed \<circ> fst) es))" by simp
  moreover have "distinct (map (ed \<circ> fst) es)"
  proof -
    have "distinct (map fst es)" unfolding es_def by (rule distinct_entries)
    moreover have "inj_on ed (fst ` set es)"
      by (rule inj_on_inverseI [of _ "\<lambda>e. in_key t n (label_hash (e_label e)) (e_src e)"]) (use val in force)
    ultimately show ?thesis by (simp add: distinct_map flip: map_map)
  qed
  moreover have "e \<in> set (map (ed \<circ> fst) es)" if e: "edge_in g ?m t e" "e_dst e = n" "\<not> label_skips label e"
    "seen_by_scan label (label_hash (e_label e)) (e_src e)" for e
  proof -
    let ?k = "in_key t n (label_hash (e_label e)) (e_src e)"
    obtain b where b: "?m PART_OUT (edge_key t e) = Some b" "de (gr_edge g) b = Inr e"
      using e(1) by (auto simp: edge_in_def)
    then obtain v where v: "?m PART_IN ?k = Some v"
      using graph_inv_in(1) [OF inv, of t n "label_hash (e_label e)" "e_src e"] e(2) by (auto simp: edge_key_def)
    have "label_hash (e_label e) = label_hash l" if "label = Some l" for l
      using e(3) that by (simp add: label_skips_def)
    then have "(?k, v) \<in> set es"
      using es v e scan_range_iff [of t n label t n "label_hash (e_label e)" "e_src e"] by (simp add: in_key_eq)
    moreover have "ed ?k = e" using b e(2) bk by (simp add: ed_def edge_key_def)
    ultimately show ?thesis by force
  qed
  ultimately show ?thesis
    using val by (intro exI [of _ "filter (\<lambda>e. \<not> label_skips label e) (map (ed \<circ> fst) es)"]) fastforce
qed

text \<open>Writes: a batch on the three partitions keeps them in step.\<close>

lemma add_edge_step:
  assumes inv: "graph_inv g (view ks)" and cod: "codec_ok (gr_edge g) e" and utf: "utf8_valid (as_bytes (e_label e))"
  obtains ks' where "add_edge g t e ks = (Inr (), ks')" "graph_inv g (view ks')"
    "\<And>t' e'. edge_in g (view ks') t' e' \<longleftrightarrow>
       (t', e') = (t, e) \<or> edge_in g (view ks) t' e' \<and> edge_key t' e' \<noteq> edge_key t e"
    "\<And>t' l. view ks' PART_LABELS (label_dict_key t' (label_hash l) l) \<noteq> None \<longleftrightarrow>
       (t', l) = (t, e_label e) \<or> view ks PART_LABELS (label_dict_key t' (label_hash l) l) \<noteq> None"
proof -
  let ?h = "label_hash (e_label e)"
  obtain b where b: "ser (gr_edge g) e = Inr b" "de (gr_edge g) b = Inr e" using cod by (rule codec_okE)
  obtain ks' where ks': "commit_persist (gr_kv g) [BInsert PART_OUT (edge_key t e) b,
      BInsert PART_IN (in_key t (e_dst e) ?h (e_src e)) [],
      BInsert PART_LABELS (label_dict_key t ?h (e_label e)) []] ks = (Inr (), ks')"
    "view ks' = apply_ops [BInsert PART_OUT (edge_key t e) b,
      BInsert PART_IN (in_key t (e_dst e) ?h (e_src e)) [],
      BInsert PART_LABELS (label_dict_key t ?h (e_label e)) []] (view ks)"
    by (rule commit_persist_cases)
  have out: "view ks' PART_OUT = (view ks PART_OUT)(edge_key t e \<mapsto> b)"
    and inn: "view ks' PART_IN = (view ks PART_IN)(in_key t (e_dst e) ?h (e_src e) \<mapsto> [])"
    and lab: "view ks' PART_LABELS = (view ks PART_LABELS)(label_dict_key t ?h (e_label e) \<mapsto> [])"
    by (simp_all add: ks'(2))
  have edges: "edge_in g (view ks') t' e' \<longleftrightarrow>
      (t', e') = (t, e) \<or> edge_in g (view ks) t' e' \<and> edge_key t' e' \<noteq> edge_key t e" for t' e'
    using b(2) by (auto simp: edge_in_def out edge_key_def)
  have "graph_inv g (view ks')"
    unfolding graph_inv_def
  proof (intro conjI allI impI)
    show "\<exists>t e. de (gr_edge g) b' = Inr e \<and> k = edge_key t e" if "view ks' PART_OUT k = Some b'" for k b'
      using that graph_inv_out [OF inv, of k b'] b(2) out by (auto split: if_splits)
    show "view ks' PART_IN (in_key t' d h a) \<noteq> None \<longleftrightarrow> view ks' PART_OUT (out_key t' a h d) \<noteq> None" for t' a h d
      using graph_inv_in(1) [OF inv, of t' d h a] by (auto simp: out inn in_key_eq edge_key_def)
    show "\<exists>t a h d. k = in_key t d h a" if "view ks' PART_IN k \<noteq> None" for k
      using that graph_inv_in(2) [OF inv, of k] inn by (auto simp: in_key_eq split: if_splits)
    show "view ks' PART_LABELS (label_dict_key t' (label_hash (e_label e')) (e_label e')) \<noteq> None"
      if "edge_in g (view ks') t' e'" for t' e'
      using that graph_inv_labels(1) [OF inv, of t' e'] unfolding edges lab by auto
    show "\<exists>t l. utf8_valid (as_bytes l) \<and> k = label_dict_key t (label_hash l) l"
      if "view ks' PART_LABELS k \<noteq> None" for k
      using that graph_inv_labels(2) [OF inv, of k] utf lab by (auto split: if_splits)
  qed
  then show ?thesis using ks'(1) b(1) edges lab
    by (intro that [of ks']) (auto simp: add_edge_def Let_def edge_key_def)
qed

lemma remove_edge_step:
  assumes inv: "graph_inv g (view ks)"
  obtains ks' where "remove_edge g t src dst label ks = (Inr (), ks')" "graph_inv g (view ks')"
    "\<And>t' e'. edge_in g (view ks') t' e' \<longleftrightarrow>
       edge_in g (view ks) t' e' \<and> edge_key t' e' \<noteq> out_key t src (label_hash label) dst"
    "view ks' PART_LABELS = view ks PART_LABELS"
proof -
  let ?h = "label_hash label"
  obtain ks' where ks': "commit_persist (gr_kv g)
      [BRemove PART_OUT (out_key t src ?h dst), BRemove PART_IN (in_key t dst ?h src)] ks = (Inr (), ks')"
    "view ks' = apply_ops
      [BRemove PART_OUT (out_key t src ?h dst), BRemove PART_IN (in_key t dst ?h src)] (view ks)"
    by (rule commit_persist_cases)
  have out: "view ks' PART_OUT = (view ks PART_OUT)(out_key t src ?h dst := None)"
    and inn: "view ks' PART_IN = (view ks PART_IN)(in_key t dst ?h src := None)"
    and lab: "view ks' PART_LABELS = view ks PART_LABELS"
    by (simp_all add: ks'(2))
  have edges: "edge_in g (view ks') t' e' \<longleftrightarrow>
      edge_in g (view ks) t' e' \<and> edge_key t' e' \<noteq> out_key t src ?h dst" for t' e'
    by (auto simp: edge_in_def out edge_key_def)
  have "graph_inv g (view ks')"
    unfolding graph_inv_def
  proof (intro conjI allI impI)
    show "\<exists>t e. de (gr_edge g) b' = Inr e \<and> k = edge_key t e" if "view ks' PART_OUT k = Some b'" for k b'
      using that graph_inv_out [OF inv, of k b'] out by (auto split: if_splits)
    show "view ks' PART_IN (in_key t' d h a) \<noteq> None \<longleftrightarrow> view ks' PART_OUT (out_key t' a h d) \<noteq> None" for t' a h d
      using graph_inv_in(1) [OF inv, of t' d h a] by (auto simp: out inn in_key_eq)
    show "\<exists>t a h d. k = in_key t d h a" if "view ks' PART_IN k \<noteq> None" for k
      using that graph_inv_in(2) [OF inv, of k] inn by (auto simp: in_key_eq split: if_splits)
    show "view ks' PART_LABELS (label_dict_key t' (label_hash (e_label e')) (e_label e')) \<noteq> None"
      if "edge_in g (view ks') t' e'" for t' e'
      using that graph_inv_labels(1) [OF inv, of t' e'] unfolding edges lab by auto
    show "\<exists>t l. utf8_valid (as_bytes l) \<and> k = label_dict_key t (label_hash l) l"
      if "view ks' PART_LABELS k \<noteq> None" for k
      using that graph_inv_labels(2) [OF inv, of k] lab by simp
  qed
  then show ?thesis using ks'(1) edges lab
    by (intro that [of ks']) (auto simp: remove_edge_def Let_def)
qed

lemma collect_labels_eq:
  "(\<And>k v. (k, v) \<in> set es \<Longrightarrow> label_from_dict_key k = Some (lab k)) \<Longrightarrow>
     collect_labels (map Inr es) out = Inr (out \<union> (lab \<circ> fst) ` set es)"
proof (induction es arbitrary: out)
  case Nil
  then show ?case by simp
next
  case (Cons x es)
  have "collect_labels (map Inr es) out = Inr (out \<union> (lab \<circ> fst) ` set es)" for out
    by (rule Cons.IH) (erule Cons.prems [OF list.set_intros(2)])
  then show ?case using Cons.prems [of "fst x" "snd x"] by (cases x) simp
qed

lemma labels_spec:
  assumes inv: "graph_inv g (view ks)"
  shows "graph_labels g ks t =
    Inr (sorted_labels {l. view ks PART_LABELS (label_dict_key t (label_hash l) l) \<noteq> None})"
proof -
  let ?m = "view ks PART_LABELS"
  define lo hi where "lo = fst (label_dict_tenant_range t)" and "hi = snd (label_dict_tenant_range t)"
  define es where "es = entries ?m {k. lo \<le> k \<and> k < hi}"
  define lab where "lab k = the (label_from_dict_key k)" for k
  have es: "(k, v) \<in> set es \<longleftrightarrow> ?m k = Some v \<and> lo \<le> k \<and> k < hi" for k v
    by (simp add: es_def set_entries finite_view)
  have own: "\<exists>l. utf8_valid (as_bytes l) \<and> k = label_dict_key t (label_hash l) l" if kv: "(k, v) \<in> set es" for k v
  proof -
    obtain t' l where "utf8_valid (as_bytes l)" "k = label_dict_key t' (label_hash l) l"
      using graph_inv_labels(2) [OF inv, of k] kv es by auto
    then show ?thesis using kv es label_range_iff [of l t t' "label_hash l"] unfolding lo_def hi_def by blast
  qed
  have "lo \<le> hi" by (simp add: lo_def hi_def label_dict_tenant_range_def Let_def le_append_same)
  then have "graph_labels g ks t = bind_res (collect_labels (map Inr es) {}) (\<lambda>L. Inr (sorted_labels L))"
    by (simp add: graph_labels_def es_def range_view lo_def hi_def split_def Let_def)
  moreover have "collect_labels (map Inr es) {} = Inr ({} \<union> (lab \<circ> fst) ` set es)"
    by (rule collect_labels_eq) (use own in \<open>fastforce simp: lab_def\<close>)
  moreover have "(lab \<circ> fst) ` set es = {l. ?m (label_dict_key t (label_hash l) l) \<noteq> None}" (is "?A = ?B")
  proof
    show "?A \<subseteq> ?B" using own es by (force simp: lab_def)
    show "?B \<subseteq> ?A"
    proof
      fix l assume "l \<in> ?B"
      then obtain v where v: "?m (label_dict_key t (label_hash l) l) = Some v" by blast
      then have utf: "utf8_valid (as_bytes l)"
        using graph_inv_labels(2) [OF inv, of "label_dict_key t (label_hash l) l"] by auto
      then have "(label_dict_key t (label_hash l) l, v) \<in> set es"
        using es v label_range_iff [OF utf, of t t "label_hash l"] unfolding lo_def hi_def by blast
      then show "l \<in> ?A" using utf by (force simp: lab_def)
    qed
  qed
  ultimately show ?thesis by simp
qed

text \<open>The neighbours the traversal follows, and the traversal over the stored graph.\<close>

lemma bfs_next_spec:
  assumes inv: "graph_inv g (view ks)"
  shows "\<exists>xs. bfs_next g ks t dir label n = Inr xs \<and> set xs = linked g (view ks) t dir label n"
proof -
  obtain os where os: "neighbours_out g ks t n label = Inr os"
    "set os = {e. edge_in g (view ks) t e \<and> e_src e = n \<and> \<not> label_skips label e \<and>
      seen_by_scan label (label_hash (e_label e)) (e_dst e)}"
    using neighbours_out_spec [OF inv] by blast
  obtain ins where ins: "neighbours_in g ks t n label = Inr ins"
    "set ins = {e. edge_in g (view ks) t e \<and> e_dst e = n \<and> \<not> label_skips label e \<and>
      seen_by_scan label (label_hash (e_label e)) (e_src e)}"
    using neighbours_in_spec [OF inv] by blast
  show ?thesis
    by (cases dir) (auto simp: bfs_next_def os ins linked_def)
qed

end

text \<open>A keyspace in a consistent state is a graph to walk.\<close>

locale graph_state = graph_store g view
  for g :: "'ks graph" and view :: "'ks \<Rightarrow> kv_view" +
  fixes ks :: 'ks
  assumes consistent: "graph_inv g (view ks)"

sublocale graph_state \<subseteq> walk: traversal "bfs_next g ks t dir label" "linked g (view ks) t dir label"
  for t dir label
  by unfold_locales (rule bfs_next_spec [OF consistent])

context graph_state
begin

lemma bfs_spec:
  "\<exists>xs. bfs g ks t seed depth dir label = Inr xs \<and> distinct xs \<and>
     set xs = within (linked g (view ks) t dir label) seed depth - {seed} \<and>
     nearer_first (linked g (view ks) t dir label) seed xs"
proof (cases "depth = 0")
  case True
  then show ?thesis by (simp add: bfs_def nearer_first_def)
next
  case False
  then show ?thesis
    using walk.bfs_loop_spec [where t = t and dir = dir and label = label, OF bfs_inv_start [of _ seed depth]]
    by (simp add: bfs_def)
qed

end

text \<open>The interface is met by the in-memory engine, whatever the edge codec.\<close>

interpretation mem_graph: graph_store "\<lparr>gr_kv = mem_kv, gr_edge = c\<rparr>" mem_view
  for c :: "edge codec"
  by (intro graph_store.intro) (simp add: mem.kv_engine_axioms)

section \<open>Properties\<close>

text \<open>Sample data for the witnesses: two edges whose labels have the same hash.\<close>

definition sample_edge :: "string \<Rightarrow> edge" where
  "sample_edge l = \<lparr>e_src = 1, e_dst = 2, e_label = l, e_weight = 0, e_created_at_ms = 0,
     e_metadata = [], e_revision = 1, e_valid_from_ms = None, e_valid_to_ms = None, e_evidence = []\<rparr>"

definition sample_graph :: "mem graph" where
  "sample_graph = \<lparr>gr_kv = mem_kv, gr_edge = table_codec [sample_edge ''costarring'', sample_edge ''liquid'']\<rparr>"

definition sample_edges :: mem where
  "sample_edges = snd (add_edge sample_graph 0 (sample_edge ''costarring'') mem_empty)"

lemma sample_graph_engine: "kv_engine (gr_kv sample_graph) mem_view"
  by (simp add: sample_graph_def mem.kv_engine_axioms)

lemma sample_graph_store: "graph_store sample_graph mem_view"
  using sample_graph_engine by (rule graph_store.intro)

lemma sample_graph_empty: "graph_inv sample_graph (mem_view mem_empty)"
  by (simp add: graph_inv_def edge_in_def mem_view_def mem_empty_def)

lemma sample_edge_codec:
  "l = ''costarring'' \<or> l = ''liquid'' \<Longrightarrow> codec_ok (gr_edge sample_graph) (sample_edge l)"
  by (auto simp: sample_graph_def intro!: table_codec_ok)

lemma sample_edge_utf8:
  "utf8_valid (as_bytes (e_label (sample_edge ''costarring'')))" "utf8_valid (as_bytes (e_label (sample_edge ''liquid'')))"
  by (simp_all add: sample_edge_def utf8_valid_def as_bytes_def)

lemma sample_edges_inv: "graph_inv sample_graph (mem_view sample_edges)"
  and sample_edges_in: "edge_in sample_graph (mem_view sample_edges) t e \<longleftrightarrow> t = 0 \<and> e = sample_edge ''costarring''"
proof -
  obtain ks' where ks': "add_edge sample_graph 0 (sample_edge ''costarring'') mem_empty = (Inr (), ks')"
    "graph_inv sample_graph (mem_view ks')"
    "\<And>t' e'. edge_in sample_graph (mem_view ks') t' e' \<longleftrightarrow> (t', e') = (0, sample_edge ''costarring'') \<or>
       edge_in sample_graph (mem_view mem_empty) t' e' \<and> edge_key t' e' \<noteq> edge_key 0 (sample_edge ''costarring'')"
    by (rule graph_store.add_edge_step [OF sample_graph_store sample_graph_empty sample_edge_codec sample_edge_utf8(1), where t = 0]) blast+
  then show "graph_inv sample_graph (mem_view sample_edges)"
    "edge_in sample_graph (mem_view sample_edges) t e \<longleftrightarrow> t = 0 \<and> e = sample_edge ''costarring''"
    by (simp_all add: sample_edges_def) (simp add: edge_in_def mem_view_def mem_empty_def)
qed

interpretation sample_state: graph_state sample_graph mem_view sample_edges
  by (intro graph_state.intro graph_state_axioms.intro sample_graph_store sample_edges_inv)

text \<open>
  C27. Adding an edge succeeds, keeps the three partitions in step, and changes the stored graph
  in exactly one place: the new edge is there, and only an edge of the same tenant and end points
  whose label has the same hash gives way to it.
\<close>

theorem add_edge_correct:
  assumes "kv_engine (gr_kv g) view" and "graph_inv g (view ks)" and "codec_ok (gr_edge g) e"
    and "utf8_valid (as_bytes (e_label e))"
  shows "\<exists>ks'. add_edge g t e ks = (Inr (), ks') \<and> graph_inv g (view ks') \<and>
    (\<forall>t' e'. edge_in g (view ks') t' e' \<longleftrightarrow> (t', e') = (t, e) \<or> edge_in g (view ks) t' e' \<and>
       \<not> (t' = t \<and> e_src e' = e_src e \<and> e_dst e' = e_dst e \<and>
          label_hash (e_label e') = label_hash (e_label e)))"
proof -
  have G: "graph_store g view" using assms(1) by (rule graph_store.intro)
  show ?thesis
    by (rule graph_store.add_edge_step [OF G assms(2-4), where t = t], rule exI, intro conjI, assumption+)
      (auto simp: edge_key_def)
qed

theorem add_edge_correct_witness:
  "\<exists>ks'. add_edge sample_graph 0 (sample_edge ''liquid'') sample_edges = (Inr (), ks') \<and>
     edge_in sample_graph (mem_view ks') 0 (sample_edge ''liquid'')"
  using add_edge_correct [OF sample_graph_engine sample_edges_inv sample_edge_codec sample_edge_utf8(2), of 0]
  by blast

text \<open>
  C33. Removing an edge succeeds, keeps the partitions in step and removes every stored edge of
  the tenant between the two nodes whose label hashes like the given one, and nothing else.
\<close>

theorem remove_edge_correct:
  assumes "kv_engine (gr_kv g) view" and "graph_inv g (view ks)"
  shows "\<exists>ks'. remove_edge g t src dst label ks = (Inr (), ks') \<and> graph_inv g (view ks') \<and>
    (\<forall>t' e. edge_in g (view ks') t' e \<longleftrightarrow> edge_in g (view ks) t' e \<and>
       \<not> (t' = t \<and> e_src e = src \<and> e_dst e = dst \<and> label_hash (e_label e) = label_hash label))"
proof -
  have G: "graph_store g view" using assms(1) by (rule graph_store.intro)
  show ?thesis
    by (rule graph_store.remove_edge_step [OF G assms(2), where t = t and src = src and dst = dst and label = label],
        rule exI, intro conjI, assumption+) auto
qed

theorem remove_edge_correct_witness:
  "\<exists>ks'. remove_edge sample_graph 0 1 2 ''costarring'' sample_edges = (Inr (), ks') \<and>
     (\<forall>t e. \<not> edge_in sample_graph (mem_view ks') t e)"
  using remove_edge_correct [OF sample_graph_engine sample_edges_inv, of 0 1 2 "''costarring''"]
  unfolding sample_edges_in by (auto simp: sample_edge_def)

text \<open>
  C34. A neighbour scan returns, without duplicates, exactly the stored edges that leave
  (or enter) the node and carry the label asked for, short of the keys at the exclusive end of
  the scanned range. In particular the reverse index and the forward index show the same edges.
\<close>

theorem neighbours_correct:
  assumes "kv_engine (gr_kv g) view" and "graph_inv g (view ks)"
  shows "\<exists>os is'. neighbours_out g ks t n label = Inr os \<and> neighbours_in g ks t n label = Inr is' \<and>
    distinct os \<and> distinct is' \<and>
    set os = {e. edge_in g (view ks) t e \<and> e_src e = n \<and> \<not> label_skips label e \<and>
      seen_by_scan label (label_hash (e_label e)) (e_dst e)} \<and>
    set is' = {e. edge_in g (view ks) t e \<and> e_dst e = n \<and> \<not> label_skips label e \<and>
      seen_by_scan label (label_hash (e_label e)) (e_src e)}"
proof -
  have G: "graph_store g view" using assms(1) by (rule graph_store.intro)
  show ?thesis
    using graph_store.neighbours_out_spec [OF G assms(2), of t n label]
      graph_store.neighbours_in_spec [OF G assms(2), of t n label] by blast
qed

theorem neighbours_correct_witness:
  "neighbours_out sample_graph sample_edges 0 1 None = Inr [sample_edge ''costarring''] \<and>
   neighbours_in sample_graph sample_edges 0 2 (Some ''costarring'') = Inr [sample_edge ''costarring'']"
proof -
  show ?thesis
    using neighbours_correct [OF sample_graph_engine sample_edges_inv, of 0 1 None]
      neighbours_correct [OF sample_graph_engine sample_edges_inv, of 0 2 "Some ''costarring''"]
    unfolding sample_edges_in
    by (fastforce simp: sample_edge_def label_skips_def seen_by_scan_def intro: distinct_singleton)
qed

text \<open>
  C17. Breadth-first traversal always returns. Its result lists, without duplicates and without
  the seed, exactly the nodes within \<open>max_depth\<close> hops of the seed over the edges followed, and
  every node comes after all nodes that are strictly nearer to the seed.
\<close>

theorem bfs_correct:
  assumes "kv_engine (gr_kv g) view" and "graph_inv g (view ks)"
  shows "\<exists>xs. bfs g ks t seed depth dir label = Inr xs \<and> distinct xs \<and>
    set xs = within (linked g (view ks) t dir label) seed depth - {seed} \<and>
    nearer_first (linked g (view ks) t dir label) seed xs"
proof -
  have "graph_state g view ks"
    using assms by (intro graph_state.intro graph_state_axioms.intro graph_store.intro)
  then show ?thesis by (rule graph_state.bfs_spec)
qed

theorem bfs_correct_witness:
  "\<exists>xs. bfs sample_graph sample_edges 0 1 2 Out None = Inr xs \<and> set xs = {2}"
proof -
  have adj: "linked sample_graph (mem_view sample_edges) 0 Out None = (\<lambda>n. if n = 1 then {2} else {})"
    by (rule ext) (auto simp: linked_def sample_edges_in sample_edge_def label_skips_def seen_by_scan_def)
  have "within (\<lambda>n. if n = 1 then {2} else {}) (1 :: ulid) 2 - {1} = {2}"
    by (auto simp: numeral_2_eq_2)
  then show ?thesis
    using bfs_correct [OF sample_graph_engine sample_edges_inv, of 0 1 2 Out None] unfolding adj by auto
qed

text \<open>
  The label list of a tenant is sorted and holds exactly the labels in the dictionary, the
  labels of all stored edges among them, however long they are and even where their hashes collide.
\<close>

theorem labels_correct:
  assumes "kv_engine (gr_kv g) view" and "graph_inv g (view ks)"
  shows "\<exists>ls. graph_labels g ks t = Inr ls \<and> sorted_wrt (<) (map as_bytes ls) \<and>
    set ls = {l. view ks PART_LABELS (label_dict_key t (label_hash l) l) \<noteq> None} \<and>
    (\<forall>e. edge_in g (view ks) t e \<longrightarrow> e_label e \<in> set ls)"
proof -
  let ?L = "{l. view ks PART_LABELS (label_dict_key t (label_hash l) l) \<noteq> None}"
  have G: "graph_store g view" using assms(1) by (rule graph_store.intro)
  have "inj_on (\<lambda>l. label_dict_key t (label_hash l) l) ?L" by (simp add: inj_on_def)
  moreover have "finite ((\<lambda>l. label_dict_key t (label_hash l) l) ` ?L)"
    by (rule finite_subset [OF _ kv_engine.finite_view [OF assms(1), of ks PART_LABELS]]) auto
  ultimately have "finite ?L" by (rule finite_imageD [rotated])
  then have "map as_bytes (sorted_labels ?L) = sorted_list_of_set (as_bytes ` ?L)" "set (sorted_labels ?L) = ?L"
    by (auto simp: sorted_labels_def o_def image_image intro!: map_idI)
  then show ?thesis
    using graph_store.labels_spec [OF G assms(2), of t] graph_inv_labels(1) [OF assms(2), of t] by simp
qed

theorem labels_correct_witness:
  "\<exists>ls. graph_labels sample_graph sample_edges 0 = Inr ls \<and> ''costarring'' \<in> set ls"
proof -
  have "edge_in sample_graph (mem_view sample_edges) 0 (sample_edge ''costarring'')" by (simp add: sample_edges_in)
  then have "\<exists>ls. graph_labels sample_graph sample_edges 0 = Inr ls \<and> e_label (sample_edge ''costarring'') \<in> set ls"
    using labels_correct [OF sample_graph_engine sample_edges_inv, of 0] by blast
  then show ?thesis by (simp add: sample_edge_def)
qed

text \<open>
  Edge keys do collide: the key of an edge holds only the hash of its label, so adding
  the second of these two edges replaces the first, which a scan for its label no longer finds.
\<close>

theorem edge_label_collision:
  "\<exists>ks'. add_edge sample_graph 0 (sample_edge ''liquid'') sample_edges = (Inr (), ks') \<and>
     neighbours_out sample_graph sample_edges 0 1 (Some ''costarring'') = Inr [sample_edge ''costarring''] \<and>
     neighbours_out sample_graph ks' 0 1 (Some ''costarring'') = Inr []"
proof -
  have hash: "label_hash ''costarring'' = label_hash ''liquid''" by (simp add: label_hash_def as_bytes_def)
  have same: "edge_key 0 (sample_edge ''costarring'') = edge_key 0 (sample_edge ''liquid'')"
    by (simp add: edge_key_def sample_edge_def hash)
  have step: "\<exists>ks'. add_edge sample_graph 0 (sample_edge ''liquid'') sample_edges = (Inr (), ks') \<and>
      graph_inv sample_graph (mem_view ks') \<and>
      (\<forall>t' e'. edge_in sample_graph (mem_view ks') t' e' \<longleftrightarrow> (t', e') = (0, sample_edge ''liquid'') \<or>
         edge_in sample_graph (mem_view sample_edges) t' e' \<and> edge_key t' e' \<noteq> edge_key 0 (sample_edge ''liquid''))"
    by (rule graph_store.add_edge_step [OF sample_graph_store sample_edges_inv sample_edge_codec
          sample_edge_utf8(2), where t = 0]) blast+
  have out: "\<exists>es. neighbours_out sample_graph k 0 1 (Some ''costarring'') = Inr es \<and> distinct es \<and>
      set es = {e. edge_in sample_graph (mem_view k) 0 e \<and> e_src e = 1 \<and> \<not> label_skips (Some ''costarring'') e \<and>
        seen_by_scan (Some ''costarring'') (label_hash (e_label e)) (e_dst e)}"
    if "graph_inv sample_graph (mem_view k)" for k
    using graph_store.neighbours_out_spec [OF sample_graph_store that] .
  obtain ks' where ks': "add_edge sample_graph 0 (sample_edge ''liquid'') sample_edges = (Inr (), ks')"
    "graph_inv sample_graph (mem_view ks')"
    "\<And>e'. edge_in sample_graph (mem_view ks') 0 e' \<longleftrightarrow> e' = sample_edge ''liquid''"
    using step same unfolding sample_edges_in by auto
  have "neighbours_out sample_graph ks' 0 1 (Some ''costarring'') = Inr []"
  proof -
    have "{e. edge_in sample_graph (mem_view ks') 0 e \<and> e_src e = 1 \<and> \<not> label_skips (Some ''costarring'') e \<and>
        seen_by_scan (Some ''costarring'') (label_hash (e_label e)) (e_dst e)} = {}"
      unfolding ks'(3) by (auto simp: label_skips_def sample_edge_def)
    then show ?thesis using out [OF ks'(2)] by (metis set_empty)
  qed
  moreover have "neighbours_out sample_graph sample_edges 0 1 (Some ''costarring'') = Inr [sample_edge ''costarring'']"
  proof -
    have "e_src (sample_edge ''costarring'') = 1" "\<not> label_skips (Some ''costarring'') (sample_edge ''costarring'')"
      "seen_by_scan (Some ''costarring'') h (e_dst (sample_edge ''costarring''))" for h
      by (simp_all add: label_skips_def sample_edge_def seen_by_scan_def)
    then have "{e. edge_in sample_graph (mem_view sample_edges) 0 e \<and> e_src e = 1 \<and> \<not> label_skips (Some ''costarring'') e \<and>
        seen_by_scan (Some ''costarring'') (label_hash (e_label e)) (e_dst e)} = {sample_edge ''costarring''}"
      unfolding sample_edges_in by blast
    with out [OF sample_edges_inv] obtain es where
      "neighbours_out sample_graph sample_edges 0 1 (Some ''costarring'') = Inr es"
      "distinct es" "set es = {sample_edge ''costarring''}" by (elim exE conjE) simp
    then show ?thesis by (simp add: distinct_singleton)
  qed
  ultimately show ?thesis using ks'(1) by blast
qed

end
