(* ===== verification/Query_Exec.thy ===== *)
theory Query_Exec
  imports Query_Eval Graph
begin

text \<open>
  The in-memory executor of \<^verbatim>\<open>mmdb-query\<close> (\<^verbatim>\<open>crates/mmdb-query/src/executor.rs\<close>): the
  execution context, vector search, graph expansion and joins over it, and the recursive
  \<^verbatim>\<open>Executor::execute\<close>. Graph expansion is shown to run the breadth-first traversal of the
  graph store's theory, so the traversal lemmas of that theory carry over.
\<close>

section \<open>Execution context\<close>

record edge_record =
  er_src :: string
  er_dst :: string
  er_relation :: string

definition edge_record_new :: "string \<Rightarrow> string \<Rightarrow> string \<Rightarrow> edge_record" where
  "edge_record_new src dst relation = \<lparr>er_src = src, er_dst = dst, er_relation = relation\<rparr>"

type_synonym udf_fn = "qrecord \<Rightarrow> expr list \<Rightarrow> f32"

record execution_context =
  cx_nodes :: "qrecord list"
  cx_edges :: "edge_record list"
  cx_udfs :: "(string, udf_fn) btree"

definition register_udf :: "execution_context \<Rightarrow> string \<Rightarrow> udf_fn \<Rightarrow> execution_context" where
  "register_udf ctx name udf = ctx\<lparr>cx_udfs := btree_insert name udf (cx_udfs ctx)\<rparr>"

section \<open>Vector search, expansion and joins\<close>

definition vector_search_rows :: "execution_context \<Rightarrow> nat \<Rightarrow> predicate option \<Rightarrow> qrecord list" where
  "vector_search_rows ctx k flt =
     take k (sort_by score_desc (filter (matches_opt flt) (cx_nodes ctx)))"

text \<open>A map collected from an iterator keeps the last record of each identifier.\<close>

definition node_by_id :: "qrecord list \<Rightarrow> (string, qrecord) btree" where
  "node_by_id nodes = foldl (\<lambda>m r. btree_insert (r_node_id r) r m) [] nodes"

text \<open>
  Emitted identifiers with the output rows; a record is pushed when its identifier is new.
\<close>

definition emit_row :: "string set \<times> qrecord list \<Rightarrow> qrecord \<Rightarrow> string set \<times> qrecord list" where
  "emit_row eo r =
     (case eo of (emitted, out) \<Rightarrow>
        if r_node_id r \<in> emitted then (emitted, out)
        else (insert (r_node_id r) emitted, out @ [r]))"

definition emit_id ::
  "(string, qrecord) btree \<Rightarrow> string set \<times> qrecord list \<Rightarrow> string \<Rightarrow> string set \<times> qrecord list" where
  "emit_id nodes eo dst =
     (case btree_get nodes dst of Some r \<Rightarrow> emit_row eo r | None \<Rightarrow> eo)"

definition edge_follows :: "string option \<Rightarrow> string \<Rightarrow> edge_record \<Rightarrow> bool" where
  "edge_follows relation current e \<longleftrightarrow>
     er_src e = current \<and> (case relation of None \<Rightarrow> True | Some want \<Rightarrow> er_relation e = want)"

text \<open>
  The edge loop of one frontier entry; the hop counter stays below the 8-bit depth, so it
  does not wrap.
\<close>

fun expand_edges ::
  "(string, qrecord) btree \<Rightarrow> string option \<Rightarrow> string \<Rightarrow> nat \<Rightarrow> edge_record list \<Rightarrow>
   (string \<times> nat) list \<Rightarrow> string set \<Rightarrow> string set \<times> qrecord list \<Rightarrow>
   (string \<times> nat) list \<times> string set \<times> string set \<times> qrecord list" where
  "expand_edges nodes relation current hop [] frontier local_seen eo = (frontier, local_seen, eo)"
| "expand_edges nodes relation current hop (e # edges) frontier local_seen eo =
     (if \<not> edge_follows relation current e \<or> er_dst e \<in> local_seen
      then expand_edges nodes relation current hop edges frontier local_seen eo
      else expand_edges nodes relation current hop edges (frontier @ [(er_dst e, hop + 1)])
             (insert (er_dst e) local_seen) (emit_id nodes eo (er_dst e)))"

lemma expand_edges_frontier:
  "\<exists>new. fst (expand_edges nodes rel cur hop es fr seen eo) = fr @ map (\<lambda>n. (n, hop + 1)) new"
proof (induction es arbitrary: fr seen eo)
  case Nil
  then show ?case by (intro exI [of _ "[]"]) simp
next
  case (Cons e es)
  obtain new where "fst (expand_edges nodes rel cur hop es (fr @ [(er_dst e, hop + 1)])
      (insert (er_dst e) seen) (emit_id nodes eo (er_dst e))) = fr @ map (\<lambda>n. (n, hop + 1)) (er_dst e # new)"
    using Cons.IH [of "fr @ [(er_dst e, hop + 1)]"] by fastforce
  then show ?case using Cons.IH [of fr seen eo] by (metis expand_edges.simps(2))
qed

function expand_loop ::
  "(string, qrecord) btree \<Rightarrow> edge_record list \<Rightarrow> string option \<Rightarrow> nat \<Rightarrow>
   (string \<times> nat) list \<Rightarrow> string set \<Rightarrow> string set \<times> qrecord list \<Rightarrow> string set \<times> qrecord list" where
  "expand_loop nodes edges relation depth [] local_seen eo = eo"
| "expand_loop nodes edges relation depth ((current, hop) # frontier) local_seen eo =
     (if depth \<le> hop then expand_loop nodes edges relation depth frontier local_seen eo
      else case expand_edges nodes relation current hop edges frontier local_seen eo of
             (frontier', seen', eo') \<Rightarrow> expand_loop nodes edges relation depth frontier' seen' eo')"
  by pat_completeness auto
termination
proof (relation "inv_image (mult less_than)
      (\<lambda>(nodes, edges, rel, m, fr, seen, eo). mset (map (\<lambda>(n, d). m - d) fr))", goal_cases)
  case 1
  show ?case by (intro wf_inv_image wf_mult wf_less_than)
next
  case (2 nodes edges rel m node d fr seen eo)
  then show ?case
    using one_step_implies_mult [of "{#m - d#}" "{#}" less_than "mset (map (\<lambda>(n, d). m - d) fr)"]
    by simp
next
  case (3 nodes edges rel m node d fr seen eo fr' q seen' eo')
  obtain new where "fr' = fr @ map (\<lambda>n. (n, d + 1)) new"
    using expand_edges_frontier [of nodes rel node d edges fr seen eo] 3 by (metis fst_conv)
  moreover have "m - (d + 1) < m - d" using 3(1) by simp
  ultimately show ?case
    using one_step_implies_mult [of "{#m - d#}" "mset (map (\<lambda>n. m - (d + 1)) new)" less_than
        "mset (map (\<lambda>(n, d). m - d) fr)"]
    by (auto simp: o_def multiset.map_comp)
qed

definition expand_seed ::
  "(string, qrecord) btree \<Rightarrow> edge_record list \<Rightarrow> string option \<Rightarrow> nat \<Rightarrow>
   string set \<times> qrecord list \<Rightarrow> qrecord \<Rightarrow> string set \<times> qrecord list" where
  "expand_seed nodes edges relation depth eo seed =
     expand_loop nodes edges relation depth [(r_node_id seed, 0)] {r_node_id seed} (emit_row eo seed)"

definition graph_expand_rows ::
  "execution_context \<Rightarrow> qrecord list \<Rightarrow> string option \<Rightarrow> byte \<Rightarrow> qrecord list" where
  "graph_expand_rows ctx seeds relation depth =
     snd (foldl (expand_seed (node_by_id (cx_nodes ctx)) (cx_edges ctx) relation (unat depth)) ({}, []) seeds)"

definition join_rows :: "debug_fmt \<Rightarrow> qrecord list \<Rightarrow> qrecord list \<Rightarrow> join_key \<Rightarrow> qrecord list" where
  "join_rows fmt left_rows right_rows on =
     (let right_keys = set (List.map_filter (\<lambda>r. join_value fmt r on) right_rows)
      in filter (\<lambda>r. case join_value fmt r on of None \<Rightarrow> False | Some key \<Rightarrow> key \<in> right_keys) left_rows)"

section \<open>Executor\<close>

primrec debug_table :: "table_id \<Rightarrow> string" where
  "debug_table Nodes = ''Nodes''"
| "debug_table Edges = ''Edges''"
| "debug_table Blobs = ''Blobs''"

definition scan_error :: "table_id \<Rightarrow> error" where
  "scan_error table =
     InvalidArgument (''in-memory executor does not support scanning '' @ debug_table table)"

definition udf_missing :: "string \<Rightarrow> error" where
  "udf_missing name = InvalidArgument (''UDF `'' @ name @ ''` is not registered'')"

definition score_rows :: "score_expr \<Rightarrow> qrecord list \<Rightarrow> qrecord list" where
  "score_rows expr rows = map (\<lambda>r. r\<lparr>r_score := eval_score r expr\<rparr>) rows"

definition udf_rows :: "udf_fn \<Rightarrow> expr list \<Rightarrow> qrecord list \<Rightarrow> qrecord list" where
  "udf_rows udf args rows = map (\<lambda>r. r\<lparr>r_score := udf r args\<rparr>) rows"

primrec execute :: "debug_fmt \<Rightarrow> execution_context \<Rightarrow> logical_plan \<Rightarrow> qrecord list result" where
  "execute fmt ctx (Scan table flt) =
     (if table = Nodes then Inr (filter (matches_opt flt) (cx_nodes ctx)) else Inl (scan_error table))"
| "execute fmt ctx (VectorSearch query k flt model) = Inr (vector_search_rows ctx k flt)"
| "execute fmt ctx (GraphExpand from relation depth) =
     bind_res (execute fmt ctx from) (\<lambda>seeds.
       if depth = 0 then Inr seeds else Inr (graph_expand_rows ctx seeds relation depth))"
| "execute fmt ctx (Filter input pred) =
     bind_res (execute fmt ctx input) (\<lambda>rows. Inr (filter (\<lambda>r. predicate_matches r pred) rows))"
| "execute fmt ctx (Score input expr) =
     bind_res (execute fmt ctx input) (\<lambda>rows. Inr (score_rows expr rows))"
| "execute fmt ctx (TopK input k by_key) =
     bind_res (execute fmt ctx input) (\<lambda>rows. Inr (take k (sort_rows rows by_key)))"
| "execute fmt ctx (Join left right on) =
     bind_res (execute fmt ctx left) (\<lambda>left_rows.
     bind_res (execute fmt ctx right) (\<lambda>right_rows. Inr (join_rows fmt left_rows right_rows on)))"
| "execute fmt ctx (Aggregate input group_by aggregate) =
     bind_res (execute fmt ctx input) (\<lambda>rows. Inr (aggregate_records fmt rows group_by aggregate))"
| "execute fmt ctx (Project input fs) =
     bind_res (execute fmt ctx input) (\<lambda>rows. Inr (project_records rows fs))"
| "execute fmt ctx (Udf input name args) =
     bind_res (ok_or (udf_missing name) (btree_get (cx_udfs ctx) name)) (\<lambda>udf.
     bind_res (execute fmt ctx input) (\<lambda>rows. Inr (udf_rows udf args rows)))"

section \<open>Lemmas: expansion is breadth-first traversal\<close>

definition follow :: "edge_record list \<Rightarrow> string option \<Rightarrow> string \<Rightarrow> string list" where
  "follow edges relation current = map er_dst (filter (edge_follows relation current) edges)"

definition followed :: "edge_record list \<Rightarrow> string option \<Rightarrow> string \<Rightarrow> string set" where
  "followed edges relation current = set (follow edges relation current)"

interpretation expansion: traversal "\<lambda>n. Inr (follow edges relation n)" "followed edges relation"
  for edges relation
  by unfold_locales (simp add: followed_def)

lemma expand_edges_push:
  "expand_edges nodes rel cur hop es fr seen (foldl (emit_id nodes) eo0 ord) =
     (case bfs_push hop (follow es rel cur) fr seen ord of
        (fr', seen', ord') \<Rightarrow> (fr', seen', foldl (emit_id nodes) eo0 ord'))"
proof (induction es arbitrary: fr seen ord)
  case Nil
  then show ?case by (simp add: follow_def)
next
  case (Cons e es)
  then show ?case
    using Cons.IH [of "fr @ [(er_dst e, hop + 1)]" "insert (er_dst e) seen" "ord @ [er_dst e]"]
    by (simp add: follow_def)
qed

lemma expand_loop_bfs:
  "eo = foldl (emit_id nodes) eo0 ord \<Longrightarrow>
   \<exists>xs. bfs_loop (\<lambda>n. Inr (follow edges rel n)) m fr seen ord = Inr xs \<and>
     expand_loop nodes edges rel m fr seen eo = foldl (emit_id nodes) eo0 xs"
proof (induction nodes edges rel m fr seen eo arbitrary: ord rule: expand_loop.induct)
  case (1 nodes edges rel m seen eo)
  then show ?case by simp
next
  case (2 nodes edges rel m cur hop fr seen eo)
  show ?case
  proof (cases "m \<le> hop")
    case True
    then show ?thesis using 2 by simp
  next
    case False
    obtain fr' seen' ord' where p: "bfs_push hop (follow edges rel cur) fr seen ord = (fr', seen', ord')"
      by (metis prod_cases3)
    then have e: "expand_edges nodes rel cur hop edges fr seen eo = (fr', seen', foldl (emit_id nodes) eo0 ord')"
      by (simp add: 2(3) expand_edges_push)
    show ?thesis
      using 2(2) [OF False e [symmetric] refl refl] False by (simp add: p e)
  qed
qed

lemma expand_seed_spec:
  "\<exists>xs. expand_seed nodes edges rel m eo seed = foldl (emit_id nodes) (emit_row eo seed) xs \<and>
     set xs = within (followed edges rel) (r_node_id seed) m - {r_node_id seed}"
proof -
  let ?s = "r_node_id seed"
  obtain xs where "bfs_loop (\<lambda>n. Inr (follow edges rel n)) m [(?s, 0)] {?s} [] = Inr xs"
      and e: "expand_loop nodes edges rel m [(?s, 0)] {?s} (emit_row eo seed) =
        foldl (emit_id nodes) (emit_row eo seed) xs"
    using expand_loop_bfs [of "emit_row eo seed" nodes "emit_row eo seed" "[]" edges rel m "[(?s, 0)]" "{?s}"]
    by auto
  moreover have "set xs = within (followed edges rel) ?s m - {?s}"
    using expansion.bfs_loop_spec [OF bfs_inv_start [of "followed edges rel" ?s m]] calculation(1) by auto
  ultimately show ?thesis by (auto simp: expand_seed_def)
qed

lemma node_by_id_get:
  "btree_ok m \<Longrightarrow> btree_ok (foldl (\<lambda>m r. btree_insert (r_node_id r) r m) m rs) \<and>
     btree_get (foldl (\<lambda>m r. btree_insert (r_node_id r) r m) m rs) =
       btree_get m ++ map_of (map (\<lambda>r. (r_node_id r, r)) (rev rs))"
  by (induction rs arbitrary: m) (auto simp: btree_ok_insert btree_get_insert fun_eq_iff map_add_def
      split: option.splits)

lemma node_by_id_map: "btree_get (node_by_id rs) = map_of (map (\<lambda>r. (r_node_id r, r)) (rev rs))"
  using node_by_id_get [of "[]" rs] by (simp add: node_by_id_def btree_ok_def)

lemma node_by_id_Some: "btree_get (node_by_id rs) n = Some r \<Longrightarrow> r \<in> set rs \<and> r_node_id r = n"
  unfolding node_by_id_map by (auto dest!: map_of_SomeD)

lemma node_by_id_None: "btree_get (node_by_id rs) n = None \<longleftrightarrow> n \<notin> r_node_id ` set rs"
  unfolding node_by_id_map by (simp add: map_of_eq_None_iff image_image)

text \<open>
  The output: identifiers emitted once, each row either a seed or the stored record of its
  identifier.
\<close>

definition emitted_inv :: "qrecord set \<Rightarrow> string set \<times> qrecord list \<Rightarrow> bool" where
  "emitted_inv S eo \<longleftrightarrow>
     fst eo = r_node_id ` set (snd eo) \<and> distinct (map r_node_id (snd eo)) \<and> set (snd eo) \<subseteq> S"

lemma emit_row_inv:
  "emitted_inv S eo \<Longrightarrow> emitted_inv (insert r S) (emit_row eo r) \<and>
     fst (emit_row eo r) = insert (r_node_id r) (fst eo)"
  by (auto simp: emitted_inv_def emit_row_def split: prod.splits)

lemma emit_id_inv:
  assumes "emitted_inv S eo" and "set rs \<subseteq> S"
  shows "emitted_inv S (emit_id (node_by_id rs) eo n) \<and>
    fst (emit_id (node_by_id rs) eo n) = fst eo \<union> ({n} \<inter> r_node_id ` set rs)"
proof (cases "btree_get (node_by_id rs) n")
  case None
  then show ?thesis using assms None [unfolded node_by_id_None] by (auto simp: emit_id_def)
next
  case (Some r)
  then have "r \<in> set rs" "r_node_id r = n" using node_by_id_Some by auto
  then show ?thesis
    using Some assms emit_row_inv [OF assms(1), of r] by (auto simp: emit_id_def insert_absorb)
qed

lemma emit_ids_inv:
  assumes "emitted_inv S eo" and "set rs \<subseteq> S"
  shows "emitted_inv S (foldl (emit_id (node_by_id rs)) eo ns) \<and>
    fst (foldl (emit_id (node_by_id rs)) eo ns) = fst eo \<union> (set ns \<inter> r_node_id ` set rs)"
  using assms(1)
proof (induction ns arbitrary: eo)
  case Nil
  then show ?case by simp
next
  case (Cons n ns)
  have "emitted_inv S (emit_id (node_by_id rs) eo n)"
      and "fst (emit_id (node_by_id rs) eo n) = fst eo \<union> ({n} \<inter> r_node_id ` set rs)"
    using emit_id_inv [OF Cons.prems assms(2)] by auto
  then show ?case using Cons.IH by auto
qed

lemma expand_seeds_inv:
  assumes "emitted_inv S eo" and "set rs \<subseteq> S" and "set seeds \<subseteq> S"
  shows "emitted_inv S (foldl (expand_seed (node_by_id rs) edges rel m) eo seeds) \<and>
    fst (foldl (expand_seed (node_by_id rs) edges rel m) eo seeds) =
      fst eo \<union> r_node_id ` set seeds \<union>
      (r_node_id ` set rs \<inter> (\<Union>s\<in>set seeds. within (followed edges rel) (r_node_id s) m))"
  using assms(1,3)
proof (induction seeds arbitrary: eo)
  case Nil
  then show ?case by simp
next
  case (Cons s seeds)
  let ?W = "within (followed edges rel) (r_node_id s) m"
  obtain xs where xs: "expand_seed (node_by_id rs) edges rel m eo s =
      foldl (emit_id (node_by_id rs)) (emit_row eo s) xs" "set xs = ?W - {r_node_id s}"
    using expand_seed_spec by blast
  have "emitted_inv S (emit_row eo s)" "fst (emit_row eo s) = insert (r_node_id s) (fst eo)"
    using emit_row_inv [OF Cons.prems(1), of s] Cons.prems(2) by (auto simp: insert_absorb)
  then have "emitted_inv S (expand_seed (node_by_id rs) edges rel m eo s)"
      and "fst (expand_seed (node_by_id rs) edges rel m eo s) =
        fst eo \<union> {r_node_id s} \<union> (?W \<inter> r_node_id ` set rs)"
    using emit_ids_inv [OF _ assms(2), of "emit_row eo s" xs] by (auto simp: xs)
  then show ?case using Cons.IH Cons.prems(2) by auto
qed

section \<open>Properties\<close>

text \<open>
  C25. Graph expansion returns, each identifier once, the seeds together with every stored node
  that is at most \<open>depth\<close> followed edges away from a seed, and nothing else. Edges through
  nodes that are not stored are followed too. Each row is a seed or a stored record.
\<close>

theorem graph_expand_rows_correct:
  "distinct (map r_node_id (graph_expand_rows ctx seeds relation depth)) \<and>
   set (graph_expand_rows ctx seeds relation depth) \<subseteq> set seeds \<union> set (cx_nodes ctx) \<and>
   r_node_id ` set (graph_expand_rows ctx seeds relation depth) =
     r_node_id ` set seeds \<union>
     {n \<in> r_node_id ` set (cx_nodes ctx).
        \<exists>s\<in>set seeds. n \<in> within (followed (cx_edges ctx) relation) (r_node_id s) (unat depth)}"
proof -
  have "emitted_inv (set seeds \<union> set (cx_nodes ctx)) ({}, [])" by (simp add: emitted_inv_def)
  from expand_seeds_inv [OF this, of "cx_nodes ctx" seeds "cx_edges ctx" relation "unat depth"]
  show ?thesis by (auto simp: graph_expand_rows_def emitted_inv_def)
qed

text \<open>The value two rows are joined on.\<close>

definition join_literal :: "qrecord \<Rightarrow> join_key \<Rightarrow> literal option" where
  "join_literal r on =
     (case on of JoinNodeId \<Rightarrow> Some (LString (r_node_id r)) | JoinField field \<Rightarrow> field_literal r field)"

lemma join_value_eq:
  assumes "debug_ok fmt" and "join_literal r on = Some v" and "\<not> literal_is_nan v"
  shows "join_value fmt q on = join_value fmt r on \<longleftrightarrow> join_literal q on = Some v"
  using assms(2) debug_literal_inject [OF assms(1,3)] debug_literal_inject [OF assms(1,3), THEN sym]
  by (cases on) (auto simp: join_value_def join_literal_def)

text \<open>
  A join is a semi-join: it keeps, in order, exactly the left rows for which some right
  row has the same value of the join field. The comparison goes through the debug text of the
  value, which identifies values except NaN.
\<close>

theorem join_rows_correct:
  assumes "debug_ok fmt"
    and "\<forall>r\<in>set left_rows. \<forall>v. join_literal r on = Some v \<longrightarrow> \<not> literal_is_nan v"
  shows "join_rows fmt left_rows right_rows on =
    filter (\<lambda>r. join_literal r on \<noteq> None \<and> (\<exists>q\<in>set right_rows. join_literal q on = join_literal r on))
      left_rows"
  unfolding join_rows_def Let_def
proof (rule filter_cong [OF refl])
  fix r
  assume r: "r \<in> set left_rows"
  have none: "join_value fmt r on = None \<longleftrightarrow> join_literal r on = None"
    by (cases on) (auto simp: join_value_def join_literal_def)
  show "(case join_value fmt r on of None \<Rightarrow> False
       | Some key \<Rightarrow> key \<in> set (List.map_filter (\<lambda>r. join_value fmt r on) right_rows)) \<longleftrightarrow>
      join_literal r on \<noteq> None \<and> (\<exists>q\<in>set right_rows. join_literal q on = join_literal r on)"
  proof (cases "join_literal r on")
    case None
    then show ?thesis using none by simp
  next
    case (Some v)
    then obtain key where key: "join_value fmt r on = Some key" using none by fastforce
    have eq: "join_value fmt q on = Some key \<longleftrightarrow> join_literal q on = Some v" for q
      using join_value_eq [OF assms(1) Some, of q] assms(2) r Some key by simp
    show ?thesis unfolding key Some by (simp add: in_set_map_filter eq)
  qed
qed

text \<open>
  A top-k plan returns the k first rows of its input in the requested order: as many rows
  as there are, at most \<open>k\<close>, sorted, no row left out sorts before a row returned, and rows that
  compare equal keep their order. For score order this needs scores that are not NaN.
\<close>

theorem topk_correct:
  assumes "execute fmt ctx input = Inr rows" and "sortable by_key (set rows)"
  shows "\<exists>out rest. execute fmt ctx (TopK input k by_key) = Inr out \<and>
    mset rows = mset out + mset rest \<and> length out = min k (length rows) \<and>
    sorted_wrt (\<lambda>a b. sort_cmp by_key a b \<noteq> Greater) out \<and>
    (\<forall>a\<in>set out. \<forall>b\<in>set rest. sort_cmp by_key a b \<noteq> Greater) \<and>
    (\<forall>x\<in>set rows. \<exists>more. filter (\<lambda>y. sort_cmp by_key x y = Equal) out @ more =
       filter (\<lambda>y. sort_cmp by_key x y = Equal) rows)"
proof (rule exI [of _ "take k (sort_rows rows by_key)"], rule exI [of _ "drop k (sort_rows rows by_key)"],
    intro conjI)
  let ?c = "sort_cmp by_key" and ?s = "sort_rows rows by_key"
  show "execute fmt ctx (TopK input k by_key) = Inr (take k ?s)" using assms(1) by simp
  show "mset rows = mset (take k ?s) + mset (drop k ?s)"
      and "sorted_wrt (\<lambda>a b. ?c a b \<noteq> Greater) (take k ?s)"
      and "\<forall>a\<in>set (take k ?s). \<forall>b\<in>set (drop k ?s). ?c a b \<noteq> Greater"
    using take_sort_rows [OF assms(2), of k] by auto
  show "length (take k ?s) = min k (length rows)" by (simp add: sort_rows_def min.commute)
  have pre: "cmp_preorder (set rows) ?c" by (rule cmp_preorder_sort_cmp [OF assms(2)])
  show "\<forall>x\<in>set rows. \<exists>more. filter (\<lambda>y. ?c x y = Equal) (take k ?s) @ more =
      filter (\<lambda>y. ?c x y = Equal) rows"
  proof
    fix x
    assume x: "x \<in> set rows"
    have "?c a b \<noteq> Greater" if "a \<in> set rows" "b \<in> set rows" "?c x a = Equal" "?c x b = Equal" for a b
      using pre that x unfolding cmp_preorder_def by (metis ordering.distinct(1,5))
    then have "filter (\<lambda>y. ?c x y = Equal) ?s = filter (\<lambda>y. ?c x y = Equal) rows"
      unfolding sort_rows_def by (intro sort_by_stable) auto
    then show "\<exists>more. filter (\<lambda>y. ?c x y = Equal) (take k ?s) @ more = filter (\<lambda>y. ?c x y = Equal) rows"
      by (metis append_take_drop_id filter_append)
  qed
qed

definition recall_wanted :: "execution_context \<Rightarrow> u32 \<Rightarrow> predicate list \<Rightarrow> qrecord list" where
  "recall_wanted ctx t ps =
     filter (\<lambda>r. r_tenant r = t \<and> (\<forall>p\<in>set ps. predicate_matches r p)) (cx_nodes ctx)"

text \<open>
  A recall is confined to its tenant and its filters: the plan of the recall builder never
  fails, returns only stored rows of the tenant that satisfy every filter, returns all of them
  when there is no limit, and otherwise the newest ones, newest first, up to the limit.
\<close>

theorem recall_build_correct:
  assumes "rb_tenant b = Some t"
  shows "\<exists>rows rest. execute fmt ctx (recall_build b) = Inr rows \<and> mset (recall_wanted ctx t (rb_filters b)) = mset rows + mset rest \<and>
    (case rb_limit b of None \<Rightarrow> rows = recall_wanted ctx t (rb_filters b)
     | Some n \<Rightarrow> length rows = min n (length (recall_wanted ctx t (rb_filters b))) \<and>
         sorted_wrt (\<lambda>r q. sint (r_created_at_ms q) \<le> sint (r_created_at_ms r)) rows \<and>
         (\<forall>r\<in>set rows. \<forall>q\<in>set rest. sint (r_created_at_ms q) \<le> sint (r_created_at_ms r)))"
proof -
  let ?wanted = "recall_wanted ctx t (rb_filters b)"
  have wanted: "filter (matches_opt (combined_recall_filter (Some t) (rb_filters b))) (cx_nodes ctx) = ?wanted"
    by (auto simp: recall_wanted_def intro: filter_cong)
  have cmp: "sort_cmp CreatedAtDesc r q \<noteq> Greater \<longleftrightarrow> sint (r_created_at_ms q) \<le> sint (r_created_at_ms r)" for r q
    by (auto simp: sort_cmp_def created_desc_def cmp_of_def)
  show ?thesis
  proof (cases "rb_limit b")
    case None
    then show ?thesis using wanted assms(1) by (simp add: recall_build_def)
  next
    case (Some n)
    let ?out = "take n (sort_rows ?wanted CreatedAtDesc)" and ?rest = "drop n (sort_rows ?wanted CreatedAtDesc)"
    have "sortable CreatedAtDesc (set ?wanted)" by (simp add: sortable_def)
    note top = take_sort_rows [OF this, of n, unfolded cmp]
    have "execute fmt ctx (recall_build b) = Inr ?out"
      using Some wanted assms(1) by (simp add: recall_build_def)
    moreover have "length ?out = min n (length ?wanted)" by (simp add: sort_rows_def min.commute)
    ultimately show ?thesis
      using top Some by - (rule exI [of _ ?out], rule exI [of _ ?rest], simp)
  qed
qed

section \<open>Sample rows\<close>

definition sample_fmt :: debug_fmt where
  "sample_fmt = \<lparr>dbg_f32 = (\<lambda>w. show_nat (unat w)), dbg_str = (\<lambda>s. s)\<rparr>"

definition sample_row :: "string \<Rightarrow> u32 \<Rightarrow> i64 \<Rightarrow> f32 \<Rightarrow> qrecord" where
  "sample_row n t ms score = with_score (record_new n t Fact ms) score"

definition sample_ctx :: execution_context where
  "sample_ctx = \<lparr>cx_nodes = [sample_row ''a'' 1 10 f32_half, sample_row ''b'' 1 20 f32_one, sample_row ''c'' 2 30 f32_zero],
     cx_edges = [edge_record_new ''a'' ''b'' ''knows'', edge_record_new ''b'' ''c'' ''knows''], cx_udfs = []\<rparr>"

lemma debug_ok_sample: "debug_ok sample_fmt"
  by (auto simp: debug_ok_def sample_fmt_def inj_def dest!: show_nat_inject intro: word_unat_eq_iff [THEN iffD2])

lemmas sample_simps = sample_ctx_def sample_row_def with_score_def record_new_def

theorem join_rows_correct_witness:
  "join_rows sample_fmt (cx_nodes sample_ctx) [sample_row ''x'' 2 5 f32_zero] (JoinField FTenant) =
     [sample_row ''c'' 2 30 f32_zero]"
proof -
  have "join_rows sample_fmt (cx_nodes sample_ctx) [sample_row ''x'' 2 5 f32_zero] (JoinField FTenant) =
      filter (\<lambda>r. join_literal r (JoinField FTenant) \<noteq> None \<and>
          (\<exists>q\<in>set [sample_row ''x'' 2 5 f32_zero]. join_literal q (JoinField FTenant) = join_literal r (JoinField FTenant)))
        (cx_nodes sample_ctx)"
    by (rule join_rows_correct [OF debug_ok_sample]) (auto simp: join_literal_def literal_is_nan_def)
  then show ?thesis by (simp add: join_literal_def sample_simps)
qed

theorem topk_correct_witness:
  "\<exists>out. execute sample_fmt sample_ctx (TopK (Scan Nodes None) 2 ScoreDesc) = Inr out \<and> length out = 2"
proof -
  have rows: "execute sample_fmt sample_ctx (Scan Nodes None) = Inr (cx_nodes sample_ctx)"
    by (simp add: matches_opt_def)
  have "sortable ScoreDesc (set (cx_nodes sample_ctx))"
    by (auto simp: sortable_def sample_simps f32_is_nan_def f32_half_def f32_one_def f32_zero_def
        f32_abs_def f32_neg_def F32_INF_def)
  from topk_correct [OF rows this, of 2] show ?thesis by (auto simp: sample_simps)
qed

theorem recall_build_correct_witness:
  "\<exists>rows. execute sample_fmt sample_ctx (recall_build (rb_with_limit (rb_with_tenant recall 1) 1)) = Inr rows \<and>
     length rows = 1"
proof -
  have "rb_tenant (rb_with_limit (rb_with_tenant recall 1) 1) = Some 1"
    by (simp add: rb_with_limit_def rb_with_tenant_def)
  from recall_build_correct [OF this, of sample_fmt sample_ctx] show ?thesis
    by (auto simp: recall_wanted_def sample_simps rb_with_limit_def rb_with_tenant_def recall_def)
qed

end
