(* ===== verification/Query_Explain.thy ===== *)
theory Query_Explain
  imports Query_IR
begin

text \<open>
  Row estimates, join strategies and the shape of explain trees: \<^verbatim>\<open>explain.rs\<close> of
  \<^verbatim>\<open>mmdb-query\<close> and the estimation half of \<^verbatim>\<open>optimizer.rs\<close>. A \<^verbatim>\<open>usize\<close> is a natural number, its
  saturating operations cut at \<open>usize_max\<close>.
\<close>

section \<open>Estimates\<close>

definition saturating_add_usize :: "nat \<Rightarrow> nat \<Rightarrow> nat" where
  "saturating_add_usize a b = min usize_max (a + b)"

definition saturating_mul_usize :: "nat \<Rightarrow> nat \<Rightarrow> nat" where
  "saturating_mul_usize a b = min usize_max (a * b)"

definition estimate_rows_by_selectivity :: "nat option \<Rightarrow> f32 \<Rightarrow> nat option" where
  "estimate_rows_by_selectivity base_rows selectivity =
     map_option (\<lambda>rows. f32_round_usize
       (f32_mul (f32_of_int (int rows)) (f32_clamp f32_zero f32_one selectivity))) base_rows"

definition estimate_filter_rows :: "nat option \<Rightarrow> predicate option \<Rightarrow> stats \<Rightarrow> nat option" where
  "estimate_filter_rows base_rows flt st =
     (case flt of
        Some pred \<Rightarrow> estimate_rows_by_selectivity base_rows (estimate_selectivity st pred)
      | None \<Rightarrow> base_rows)"

definition table_rows :: "table_id \<Rightarrow> stats \<Rightarrow> nat option" where
  "table_rows table st = (case table of Nodes \<Rightarrow> Some (node_rows st) | _ \<Rightarrow> None)"

definition opt_min :: "nat option \<Rightarrow> nat option \<Rightarrow> nat option" where
  "opt_min l r = (case (l, r) of (Some a, Some b) \<Rightarrow> Some (min a b) | _ \<Rightarrow> None)"

section \<open>Join strategies\<close>

definition choose_join_strategy :: "nat \<Rightarrow> nat \<Rightarrow> join_key \<Rightarrow> join_strategy" where
  "choose_join_strategy left_rows right_rows on =
     (let (small, large, small_is_left) =
        (if left_rows \<le> right_rows then (left_rows, right_rows, True) else (right_rows, left_rows, False))
      in if saturating_mul_usize small 4 \<le> large \<or> small \<le> 128 then
           (if small_is_left then HashBuildLeft else HashBuildRight)
         else if 1000 \<le> (left_rows + right_rows) mod 2 ^ 64 then Merge
         else HashBuildRight)"

definition optimizer_join_strategy :: "nat option \<Rightarrow> nat option \<Rightarrow> join_key \<Rightarrow> join_strategy" where
  "optimizer_join_strategy left_rows right_rows on =
     (case (left_rows, right_rows) of
        (Some l, Some r) \<Rightarrow> choose_join_strategy l r on
      | (Some _, None) \<Rightarrow> HashBuildLeft
      | (None, Some _) \<Rightarrow> HashBuildRight
      | (None, None) \<Rightarrow> HashBuildRight)"

primrec join_operator_name :: "join_strategy \<Rightarrow> string" where
  "join_operator_name HashBuildLeft = ''HashJoinOp''"
| "join_operator_name HashBuildRight = ''HashJoinOp''"
| "join_operator_name Merge = ''MergeJoinOp''"

section \<open>Explain trees\<close>

datatype explain_node = ExplainNode
  (ex_operator: string) (ex_estimated_rows: "nat option") (ex_actual_rows: "nat option")
  (ex_children: "explain_node list")

primrec physical_operator_name :: "logical_plan \<Rightarrow> string" where
  "physical_operator_name (Scan table _) = (case table of Nodes \<Rightarrow> ''ScanOp'' | _ \<Rightarrow> ''IndexLookupOp'')"
| "physical_operator_name (VectorSearch _ _ _ _) = ''HnswSearchOp''"
| "physical_operator_name (GraphExpand _ _ _) = ''GraphExpandOp''"
| "physical_operator_name (Filter _ _) = ''FilterOp''"
| "physical_operator_name (Score _ _) = ''ScoreOp''"
| "physical_operator_name (TopK _ _ _) = ''TopKOp''"
| "physical_operator_name (Join _ _ _) = ''HashJoinOp''"
| "physical_operator_name (Aggregate _ _ _) = ''AggregateOp''"
| "physical_operator_name (Project _ _) = ''ProjectOp''"
| "physical_operator_name (Udf _ _ _) = ''UdfOp''"

primrec source_physical_operator_name :: "logical_plan \<Rightarrow> string" where
  "source_physical_operator_name (Scan _ _) = ''RangeScanOp''"
| "source_physical_operator_name (VectorSearch _ _ _ _) = ''HnswSearchOp''"
| "source_physical_operator_name (GraphExpand _ _ _) = ''GraphExpandOp''"
| "source_physical_operator_name (Filter _ _) = ''FilterOp''"
| "source_physical_operator_name (Score _ _) = ''ScoreOp''"
| "source_physical_operator_name (TopK _ _ _) = ''TopKOp''"
| "source_physical_operator_name (Join _ _ _) = ''HashJoinOp''"
| "source_physical_operator_name (Aggregate _ _ _) = ''AggregateOp''"
| "source_physical_operator_name (Project _ _) = ''ProjectOp''"
| "source_physical_operator_name (Udf _ _ _) = ''UdfOp''"

definition operator_name :: "bool \<Rightarrow> logical_plan \<Rightarrow> string" where
  "operator_name source_names plan =
     (if source_names then source_physical_operator_name plan else physical_operator_name plan)"

text \<open>The estimate rule of the operators with one input, given the estimate of that input.\<close>

definition expand_estimate :: "byte \<Rightarrow> nat option \<Rightarrow> nat option" where
  "expand_estimate depth child =
     map_option (\<lambda>rows. saturating_mul_usize rows (saturating_add_usize (unat depth) 1)) child"

definition unary_shape ::
  "bool \<Rightarrow> logical_plan \<Rightarrow> explain_node \<Rightarrow> nat option \<Rightarrow> explain_node \<times> nat option" where
  "unary_shape source_names plan child est =
     (ExplainNode (operator_name source_names plan) est None [child], est)"

primrec explain_shape_with_estimate ::
  "logical_plan \<Rightarrow> stats \<Rightarrow> bool \<Rightarrow> explain_node \<times> nat option" where
  "explain_shape_with_estimate (Scan table flt) st source_names =
     (let est = estimate_filter_rows (table_rows table st) flt st
      in (ExplainNode (operator_name source_names (Scan table flt)) est None [], est))"
| "explain_shape_with_estimate (VectorSearch query k flt model) st source_names =
     (let est = map_option (\<lambda>rows. min rows k) (estimate_filter_rows (Some (node_rows st)) flt st)
      in (ExplainNode (operator_name source_names (VectorSearch query k flt model)) est None [], est))"
| "explain_shape_with_estimate (GraphExpand from relation depth) st source_names =
     (case explain_shape_with_estimate from st source_names of (child, child_estimate) \<Rightarrow>
        unary_shape source_names (GraphExpand from relation depth) child
          (expand_estimate depth child_estimate))"
| "explain_shape_with_estimate (Filter input pred) st source_names =
     (case explain_shape_with_estimate input st source_names of (child, child_estimate) \<Rightarrow>
        unary_shape source_names (Filter input pred) child
          (estimate_rows_by_selectivity child_estimate (estimate_selectivity st pred)))"
| "explain_shape_with_estimate (Score input expr) st source_names =
     (case explain_shape_with_estimate input st source_names of (child, child_estimate) \<Rightarrow>
        unary_shape source_names (Score input expr) child child_estimate)"
| "explain_shape_with_estimate (TopK input k by_key) st source_names =
     (case explain_shape_with_estimate input st source_names of (child, child_estimate) \<Rightarrow>
        unary_shape source_names (TopK input k by_key) child
          (map_option (\<lambda>rows. min rows k) child_estimate))"
| "explain_shape_with_estimate (Join left right on) st source_names =
     (case explain_shape_with_estimate left st source_names of (left_child, left_estimate) \<Rightarrow>
      case explain_shape_with_estimate right st source_names of (right_child, right_estimate) \<Rightarrow>
        let strategy = optimizer_join_strategy left_estimate right_estimate on;
            est = opt_min left_estimate right_estimate
        in (ExplainNode (join_operator_name strategy) est None [left_child, right_child], est))"
| "explain_shape_with_estimate (Aggregate input group_by aggregate) st source_names =
     (case explain_shape_with_estimate input st source_names of (child, child_estimate) \<Rightarrow>
        unary_shape source_names (Aggregate input group_by aggregate) child child_estimate)"
| "explain_shape_with_estimate (Project input fs) st source_names =
     (case explain_shape_with_estimate input st source_names of (child, child_estimate) \<Rightarrow>
        unary_shape source_names (Project input fs) child child_estimate)"
| "explain_shape_with_estimate (Udf input name args) st source_names =
     (case explain_shape_with_estimate input st source_names of (child, child_estimate) \<Rightarrow>
        unary_shape source_names (Udf input name args) child child_estimate)"

definition estimated_rows_for_plan :: "logical_plan \<Rightarrow> stats \<Rightarrow> nat option" where
  "estimated_rows_for_plan plan st = snd (explain_shape_with_estimate plan st False)"

text \<open>Actual row counts are attached in the order of a preorder walk.\<close>

fun attach_actual_rows :: "explain_node \<Rightarrow> nat list \<Rightarrow> nat \<Rightarrow> explain_node \<times> nat"
  and attach_children :: "explain_node list \<Rightarrow> nat list \<Rightarrow> nat \<Rightarrow> explain_node list \<times> nat" where
  "attach_actual_rows (ExplainNode operator est actual children) actual_rows cursor =
     (case attach_children children actual_rows (cursor + 1) of (children', cursor') \<Rightarrow>
        (ExplainNode operator est
           (if cursor < length actual_rows then Some (actual_rows ! cursor) else None) children', cursor'))"
| "attach_children [] actual_rows cursor = ([], cursor)"
| "attach_children (child # children) actual_rows cursor =
     (case attach_actual_rows child actual_rows cursor of (child', cursor') \<Rightarrow>
      case attach_children children actual_rows cursor' of (children', cursor'') \<Rightarrow>
        (child' # children', cursor''))"

text \<open>The row counts of a tree, in preorder.\<close>

fun actuals :: "explain_node \<Rightarrow> nat option list" where
  "actuals (ExplainNode operator est actual children) = actual # concat (map actuals children)"

end
