(* ===== verification/Query_Physical.thy ===== *)
theory Query_Physical
  imports Query_Exec Query_Explain
begin

text \<open>
  The batch executor of \<^verbatim>\<open>mmdb-query\<close>: the physical operators of \<^verbatim>\<open>executor.rs\<close> with their
  state, \<^verbatim>\<open>compile\<close> for the in-memory executor and for the source executor, the instrumented
  compilation with its shared row counters, and \<^verbatim>\<open>SourceExecutor::explain\<close>. An operator pulls
  batches from its inputs; the state it still holds determines the rows it will deliver
  (\<open>to_come\<close>), and every \<^verbatim>\<open>next_batch\<close> splits a batch off that list.

  Dynamic dispatch on boxed operators is a recursion bounded by the nesting depth of the
  operator; the loops that pull a nested operator until it is exhausted return \<open>None\<close> if they
  never end, which is shown not to happen. A batch is a list, so the capacity that
  \<^verbatim>\<open>Vec::with_capacity(batch_size)\<close> reserves, and its failure for sizes that memory cannot hold, is
  not modelled.
\<close>

section \<open>Operators\<close>

record query_source =
  qs_range_scan :: "table_id \<Rightarrow> predicate option \<Rightarrow> qrecord list result"
  qs_hnsw_search :: "vector_ref \<Rightarrow> model_id \<Rightarrow> nat \<Rightarrow> predicate option \<Rightarrow> qrecord list result"
  qs_graph_expand :: "qrecord list \<Rightarrow> string option \<Rightarrow> byte \<Rightarrow> qrecord list result"

record materialized =
  mo_rows :: "qrecord list"
  mo_cursor :: nat
  mo_batch_size :: nat

definition materialized_new :: "qrecord list \<Rightarrow> nat \<Rightarrow> materialized" where
  "materialized_new rows batch_size =
     \<lparr>mo_rows = rows, mo_cursor = 0, mo_batch_size = max batch_size 1\<rparr>"

datatype operator =
    ScanOperator execution_context "predicate option" nat nat
  | FilterOperator operator predicate "qrecord list" nat
  | ScoreOperator operator score_expr
  | UdfOperator operator udf_fn "expr list"
  | ProjectOperator operator "field_ref list"
  | GraphExpandOperator execution_context "operator option" "string option" byte "materialized option" nat
  | SourceGraphExpandOperator query_source "operator option" "string option" byte "materialized option" nat
  | TopKOperator "operator option" "materialized option" nat sort_key nat
  | JoinOperator "operator option" "operator option" "materialized option" join_key nat
  | AggregateOperator "operator option" "materialized option" "field_ref list" aggregate_expr nat
  | MaterializedOperator materialized
  | InstrumentedOperator nat operator

type_synonym metrics = "nat list"
type_synonym pulled = "(qrecord list option result \<times> operator \<times> metrics) option"

definition some_batch :: "qrecord list \<Rightarrow> qrecord list option" where
  "some_batch rows = (if rows = [] then None else Some rows)"

definition materialized_next :: "materialized \<Rightarrow> qrecord list option \<times> materialized" where
  "materialized_next m =
     (if length (mo_rows m) \<le> mo_cursor m then (None, m)
      else let stop = min (mo_cursor m + mo_batch_size m) (length (mo_rows m))
           in (Some (take (stop - mo_cursor m) (drop (mo_cursor m) (mo_rows m))), m\<lparr>mo_cursor := stop\<rparr>))"

text \<open>The loop of the scan operator: collects matching rows until the batch is full.\<close>

function scan_fill ::
  "qrecord list \<Rightarrow> predicate option \<Rightarrow> nat \<Rightarrow> nat \<Rightarrow> qrecord list \<Rightarrow> qrecord list \<times> nat" where
  "scan_fill nodes flt batch_size cursor rows =
     (if cursor < length nodes \<and> length rows < batch_size
      then scan_fill nodes flt batch_size (cursor + 1)
             (if matches_opt flt (nodes ! cursor) then rows @ [nodes ! cursor] else rows)
      else (rows, cursor))"
  by pat_completeness auto
termination
  by (relation "measure (\<lambda>(nodes, flt, bs, cursor, rows). length nodes - cursor)") auto

declare scan_fill.simps [simp del]

text \<open>\<^verbatim>\<open>materialize_operator\<close>: pulls until the operator is exhausted or fails.\<close>

partial_function (option) materialize_operator ::
  "(operator \<Rightarrow> metrics \<Rightarrow> pulled) \<Rightarrow> operator \<Rightarrow> metrics \<Rightarrow> qrecord list \<Rightarrow>
   (qrecord list result \<times> metrics) option" where
  "materialize_operator nxt op ms rows =
     Option.bind (nxt op ms) (\<lambda>(r, op', ms').
       case r of
         Inl e \<Rightarrow> Some (Inl e, ms')
       | Inr None \<Rightarrow> Some (Inr rows, ms')
       | Inr (Some batch) \<Rightarrow> materialize_operator nxt op' ms' (rows @ batch))"

text \<open>The loop of the filter operator, over its pending rows first, then over its input.\<close>

partial_function (option) filter_fill ::
  "(operator \<Rightarrow> metrics \<Rightarrow> pulled) \<Rightarrow> predicate \<Rightarrow> nat \<Rightarrow> qrecord list \<Rightarrow> qrecord list \<Rightarrow>
   operator \<Rightarrow> metrics \<Rightarrow> (qrecord list result \<times> qrecord list \<times> operator \<times> metrics) option" where
  "filter_fill nxt pred batch_size rows pending input ms =
     (if length rows < batch_size then
        (case pending of
           r # pending' \<Rightarrow> filter_fill nxt pred batch_size (rows @ [r]) pending' input ms
         | [] \<Rightarrow>
             Option.bind (nxt input ms) (\<lambda>(r, input', ms').
               case r of
                 Inl e \<Rightarrow> Some (Inl e, [], input', ms')
               | Inr None \<Rightarrow> Some (Inr rows, [], input', ms')
               | Inr (Some batch) \<Rightarrow>
                   (let hits = filter (\<lambda>r. predicate_matches r pred) batch;
                        room = batch_size - length rows
                    in filter_fill nxt pred batch_size (rows @ take room hits) (drop room hits) input' ms')))
      else Some (Inr rows, pending, input, ms))"

text \<open>
  A blocking operator takes its input, materializes it, computes its rows once and then serves
  them from a materialized operator. \<open>mk\<close> rebuilds the operator from its input and output
  slots.
\<close>

definition serve :: "(materialized \<Rightarrow> operator) \<Rightarrow> materialized \<Rightarrow> metrics \<Rightarrow> pulled" where
  "serve mk m ms = (case materialized_next m of (b, m') \<Rightarrow> Some (Inr b, mk m', ms))"

definition blocking ::
  "(operator \<Rightarrow> metrics \<Rightarrow> pulled) \<Rightarrow> string \<Rightarrow> (qrecord list \<Rightarrow> qrecord list result) \<Rightarrow> nat \<Rightarrow>
   (operator option \<Rightarrow> materialized option \<Rightarrow> operator) \<Rightarrow>
   operator option \<Rightarrow> materialized option \<Rightarrow> metrics \<Rightarrow> pulled" where
  "blocking nxt consumed compute batch_size mk input out ms =
     (case out of
        Some m \<Rightarrow> serve (\<lambda>m'. mk input (Some m')) m ms
      | None \<Rightarrow>
          (case input of
             None \<Rightarrow> Some (Inl (InvalidArgument consumed), mk None None, ms)
           | Some op \<Rightarrow>
               Option.bind (materialize_operator nxt op ms []) (\<lambda>(r, ms').
                 case bind_res r compute of
                   Inl e \<Rightarrow> Some (Inl e, mk None None, ms')
                 | Inr rows \<Rightarrow> serve (\<lambda>m'. mk None (Some m')) (materialized_new rows batch_size) ms')))"

definition expand_or_seeds ::
  "byte \<Rightarrow> (qrecord list \<Rightarrow> qrecord list result) \<Rightarrow> qrecord list \<Rightarrow> qrecord list result" where
  "expand_or_seeds depth expand seeds = (if depth = 0 then Inr seeds else expand seeds)"

definition map_batch :: "(qrecord list \<Rightarrow> qrecord list) \<Rightarrow> (operator \<Rightarrow> operator) \<Rightarrow> pulled \<Rightarrow> pulled" where
  "map_batch f mk p =
     Option.bind p (\<lambda>(r, op', ms').
       Some (case r of Inl e \<Rightarrow> Inl e | Inr b \<Rightarrow> Inr (map_option f b), mk op', ms'))"

definition join_pull ::
  "debug_fmt \<Rightarrow> (operator \<Rightarrow> metrics \<Rightarrow> pulled) \<Rightarrow> operator option \<Rightarrow> operator option \<Rightarrow>
   materialized option \<Rightarrow> join_key \<Rightarrow> nat \<Rightarrow> metrics \<Rightarrow> pulled" where
  "join_pull fmt nxt left right out on batch_size ms =
     (case out of
        Some m \<Rightarrow> serve (\<lambda>m'. JoinOperator left right (Some m') on batch_size) m ms
      | None \<Rightarrow>
          (case left of
             None \<Rightarrow> Some (Inl (InvalidArgument ''join left input already consumed''),
                       JoinOperator None right None on batch_size, ms)
           | Some l \<Rightarrow>
               (case right of
                  None \<Rightarrow> Some (Inl (InvalidArgument ''join right input already consumed''),
                            JoinOperator None None None on batch_size, ms)
                | Some r \<Rightarrow>
                    Option.bind (materialize_operator nxt l ms []) (\<lambda>(lr, ms1).
                      case lr of
                        Inl e \<Rightarrow> Some (Inl e, JoinOperator None None None on batch_size, ms1)
                      | Inr left_rows \<Rightarrow>
                          Option.bind (materialize_operator nxt r ms1 []) (\<lambda>(rr, ms2).
                            case rr of
                              Inl e \<Rightarrow> Some (Inl e, JoinOperator None None None on batch_size, ms2)
                            | Inr right_rows \<Rightarrow>
                                serve (\<lambda>m'. JoinOperator None None (Some m') on batch_size)
                                  (materialized_new (join_rows fmt left_rows right_rows on) batch_size) ms2)))))"

fun next_batch :: "debug_fmt \<Rightarrow> nat \<Rightarrow> operator \<Rightarrow> metrics \<Rightarrow> pulled" where
  "next_batch fmt 0 op ms = None"
| "next_batch fmt (Suc d) (ScanOperator ctx flt cursor batch_size) ms =
     (case scan_fill (cx_nodes ctx) flt batch_size cursor [] of (rows, cursor') \<Rightarrow>
        Some (Inr (some_batch rows), ScanOperator ctx flt cursor' batch_size, ms))"
| "next_batch fmt (Suc d) (FilterOperator input pred pending batch_size) ms =
     Option.bind (filter_fill (next_batch fmt d) pred batch_size [] pending input ms)
       (\<lambda>(r, pending', input', ms').
         Some (case r of Inl e \<Rightarrow> Inl e | Inr rows \<Rightarrow> Inr (some_batch rows),
           FilterOperator input' pred pending' batch_size, ms'))"
| "next_batch fmt (Suc d) (ScoreOperator input expr) ms =
     map_batch (score_rows expr) (\<lambda>i. ScoreOperator i expr) (next_batch fmt d input ms)"
| "next_batch fmt (Suc d) (UdfOperator input udf args) ms =
     map_batch (udf_rows udf args) (\<lambda>i. UdfOperator i udf args) (next_batch fmt d input ms)"
| "next_batch fmt (Suc d) (ProjectOperator input fs) ms =
     map_batch (\<lambda>rows. project_records rows fs) (\<lambda>i. ProjectOperator i fs) (next_batch fmt d input ms)"
| "next_batch fmt (Suc d) (GraphExpandOperator ctx input relation depth out batch_size) ms =
     blocking (next_batch fmt d) ''graph input already consumed''
       (expand_or_seeds depth (\<lambda>seeds. Inr (graph_expand_rows ctx seeds relation depth))) batch_size
       (\<lambda>i m. GraphExpandOperator ctx i relation depth m batch_size) input out ms"
| "next_batch fmt (Suc d) (SourceGraphExpandOperator src input relation depth out batch_size) ms =
     blocking (next_batch fmt d) ''source graph input already consumed''
       (expand_or_seeds depth (\<lambda>seeds. qs_graph_expand src seeds relation depth)) batch_size
       (\<lambda>i m. SourceGraphExpandOperator src i relation depth m batch_size) input out ms"
| "next_batch fmt (Suc d) (TopKOperator input out k by_key batch_size) ms =
     blocking (next_batch fmt d) ''top-k input already consumed''
       (\<lambda>rows. Inr (take k (sort_rows rows by_key))) batch_size
       (\<lambda>i m. TopKOperator i m k by_key batch_size) input out ms"
| "next_batch fmt (Suc d) (JoinOperator left right out on batch_size) ms =
     join_pull fmt (next_batch fmt d) left right out on batch_size ms"
| "next_batch fmt (Suc d) (AggregateOperator input out group_by aggregate batch_size) ms =
     blocking (next_batch fmt d) ''aggregate input already consumed''
       (\<lambda>rows. Inr (aggregate_records fmt rows group_by aggregate)) batch_size
       (\<lambda>i m. AggregateOperator i m group_by aggregate batch_size) input out ms"
| "next_batch fmt (Suc d) (MaterializedOperator m) ms =
     (case materialized_next m of (b, m') \<Rightarrow> Some (Inr b, MaterializedOperator m', ms))"
| "next_batch fmt (Suc d) (InstrumentedOperator i input) ms =
     Option.bind (next_batch fmt d input ms) (\<lambda>(r, input', ms').
       Some (r, InstrumentedOperator i input',
         case r of Inr (Some batch) \<Rightarrow> ms'[i := ms' ! i + length batch] | _ \<Rightarrow> ms'))"

fun op_depth :: "operator \<Rightarrow> nat" where
  "op_depth (ScanOperator _ _ _ _) = 1"
| "op_depth (FilterOperator i _ _ _) = Suc (op_depth i)"
| "op_depth (ScoreOperator i _) = Suc (op_depth i)"
| "op_depth (UdfOperator i _ _) = Suc (op_depth i)"
| "op_depth (ProjectOperator i _) = Suc (op_depth i)"
| "op_depth (GraphExpandOperator _ i _ _ _ _) = Suc (case i of None \<Rightarrow> 0 | Some op \<Rightarrow> op_depth op)"
| "op_depth (SourceGraphExpandOperator _ i _ _ _ _) = Suc (case i of None \<Rightarrow> 0 | Some op \<Rightarrow> op_depth op)"
| "op_depth (TopKOperator i _ _ _ _) = Suc (case i of None \<Rightarrow> 0 | Some op \<Rightarrow> op_depth op)"
| "op_depth (JoinOperator l r _ _ _) =
     Suc (max (case l of None \<Rightarrow> 0 | Some op \<Rightarrow> op_depth op) (case r of None \<Rightarrow> 0 | Some op \<Rightarrow> op_depth op))"
| "op_depth (AggregateOperator i _ _ _ _) = Suc (case i of None \<Rightarrow> 0 | Some op \<Rightarrow> op_depth op)"
| "op_depth (MaterializedOperator _) = 1"
| "op_depth (InstrumentedOperator _ i) = Suc (op_depth i)"

section \<open>Compilation\<close>

primrec compile :: "execution_context \<Rightarrow> logical_plan \<Rightarrow> nat \<Rightarrow> operator result" where
  "compile ctx (Scan table flt) batch_size =
     (if table \<noteq> Nodes then Inl (scan_error table) else Inr (ScanOperator ctx flt 0 (max batch_size 1)))"
| "compile ctx (VectorSearch query k flt model) batch_size =
     Inr (MaterializedOperator (materialized_new (vector_search_rows ctx k flt) (max batch_size 1)))"
| "compile ctx (GraphExpand from relation depth) batch_size =
     bind_res (compile ctx from (max batch_size 1)) (\<lambda>i.
       Inr (GraphExpandOperator ctx (Some i) relation depth None (max batch_size 1)))"
| "compile ctx (Filter input pred) batch_size =
     bind_res (compile ctx input (max batch_size 1)) (\<lambda>i. Inr (FilterOperator i pred [] (max batch_size 1)))"
| "compile ctx (Score input expr) batch_size =
     bind_res (compile ctx input (max batch_size 1)) (\<lambda>i. Inr (ScoreOperator i expr))"
| "compile ctx (TopK input k by_key) batch_size =
     bind_res (compile ctx input (max batch_size 1)) (\<lambda>i.
       Inr (TopKOperator (Some i) None k by_key (max batch_size 1)))"
| "compile ctx (Join left right on) batch_size =
     bind_res (compile ctx left (max batch_size 1)) (\<lambda>l.
     bind_res (compile ctx right (max batch_size 1)) (\<lambda>r.
       Inr (JoinOperator (Some l) (Some r) None on (max batch_size 1))))"
| "compile ctx (Aggregate input group_by aggregate) batch_size =
     bind_res (compile ctx input (max batch_size 1)) (\<lambda>i.
       Inr (AggregateOperator (Some i) None group_by aggregate (max batch_size 1)))"
| "compile ctx (Project input fs) batch_size =
     bind_res (compile ctx input (max batch_size 1)) (\<lambda>i. Inr (ProjectOperator i fs))"
| "compile ctx (Udf input name args) batch_size =
     bind_res (ok_or (udf_missing name) (btree_get (cx_udfs ctx) name)) (\<lambda>udf.
     bind_res (compile ctx input (max batch_size 1)) (\<lambda>i. Inr (UdfOperator i udf args)))"

record source_executor =
  se_source :: query_source
  se_udfs :: "(string, udf_fn) btree"

definition source_executor_new :: "query_source \<Rightarrow> source_executor" where
  "source_executor_new src = \<lparr>se_source = src, se_udfs = []\<rparr>"

definition with_udf :: "source_executor \<Rightarrow> string \<Rightarrow> udf_fn \<Rightarrow> source_executor" where
  "with_udf se name udf = se\<lparr>se_udfs := btree_insert name udf (se_udfs se)\<rparr>"

definition udf_unbound :: "string \<Rightarrow> error" where
  "udf_unbound name = InvalidArgument (''source executor UDF `'' @ name @ ''` is not bound'')"

primrec source_compile :: "source_executor \<Rightarrow> logical_plan \<Rightarrow> nat \<Rightarrow> operator result" where
  "source_compile se (Scan table flt) batch_size =
     bind_res (qs_range_scan (se_source se) table flt) (\<lambda>rows.
       Inr (MaterializedOperator (materialized_new rows (max batch_size 1))))"
| "source_compile se (VectorSearch query k flt model) batch_size =
     bind_res (qs_hnsw_search (se_source se) query model k flt) (\<lambda>rows.
       Inr (MaterializedOperator (materialized_new rows (max batch_size 1))))"
| "source_compile se (GraphExpand from relation depth) batch_size =
     bind_res (source_compile se from (max batch_size 1)) (\<lambda>i.
       Inr (SourceGraphExpandOperator (se_source se) (Some i) relation depth None (max batch_size 1)))"
| "source_compile se (Filter input pred) batch_size =
     bind_res (source_compile se input (max batch_size 1)) (\<lambda>i.
       Inr (FilterOperator i pred [] (max batch_size 1)))"
| "source_compile se (Score input expr) batch_size =
     bind_res (source_compile se input (max batch_size 1)) (\<lambda>i. Inr (ScoreOperator i expr))"
| "source_compile se (TopK input k by_key) batch_size =
     bind_res (source_compile se input (max batch_size 1)) (\<lambda>i.
       Inr (TopKOperator (Some i) None k by_key (max batch_size 1)))"
| "source_compile se (Join left right on) batch_size =
     bind_res (source_compile se left (max batch_size 1)) (\<lambda>l.
     bind_res (source_compile se right (max batch_size 1)) (\<lambda>r.
       Inr (JoinOperator (Some l) (Some r) None on (max batch_size 1))))"
| "source_compile se (Aggregate input group_by aggregate) batch_size =
     bind_res (source_compile se input (max batch_size 1)) (\<lambda>i.
       Inr (AggregateOperator (Some i) None group_by aggregate (max batch_size 1)))"
| "source_compile se (Project input fs) batch_size =
     bind_res (source_compile se input (max batch_size 1)) (\<lambda>i. Inr (ProjectOperator i fs))"
| "source_compile se (Udf input name args) batch_size =
     bind_res (ok_or (udf_unbound name) (btree_get (se_udfs se) name)) (\<lambda>udf.
     bind_res (source_compile se input (max batch_size 1)) (\<lambda>i. Inr (UdfOperator i udf args)))"

text \<open>
  The instrumented compilation reserves a counter for every plan node before it compiles the
  node, so counters are numbered in preorder. The counters and the next number are threaded
  through, on the error paths as well.
\<close>

definition reserve_metric_id :: "metrics \<Rightarrow> nat \<Rightarrow> nat \<times> metrics \<times> nat" where
  "reserve_metric_id ms next_id =
     (next_id, if length ms \<le> next_id then ms @ replicate (next_id + 1 - length ms) 0 else ms, next_id + 1)"

type_synonym compiled = "operator result \<times> metrics \<times> nat"

definition then_op :: "compiled \<Rightarrow> (operator \<Rightarrow> operator) \<Rightarrow> compiled" where
  "then_op c mk = (case c of (r, ms, n) \<Rightarrow> (bind_res r (\<lambda>i. Inr (mk i)), ms, n))"

primrec compile_instrumented ::
  "source_executor \<Rightarrow> logical_plan \<Rightarrow> nat \<Rightarrow> metrics \<Rightarrow> nat \<Rightarrow> compiled" where
  "compile_instrumented se (Scan table flt) batch_size ms0 n0 =
     (case reserve_metric_id ms0 n0 of (i, ms, n) \<Rightarrow>
        (bind_res (qs_range_scan (se_source se) table flt) (\<lambda>rows.
           Inr (InstrumentedOperator i (MaterializedOperator (materialized_new rows batch_size)))), ms, n))"
| "compile_instrumented se (VectorSearch query k flt model) batch_size ms0 n0 =
     (case reserve_metric_id ms0 n0 of (i, ms, n) \<Rightarrow>
        (bind_res (qs_hnsw_search (se_source se) query model k flt) (\<lambda>rows.
           Inr (InstrumentedOperator i (MaterializedOperator (materialized_new rows batch_size)))), ms, n))"
| "compile_instrumented se (GraphExpand from relation depth) batch_size ms0 n0 =
     (case reserve_metric_id ms0 n0 of (i, ms, n) \<Rightarrow>
        then_op (compile_instrumented se from batch_size ms n) (\<lambda>op.
          InstrumentedOperator i
            (SourceGraphExpandOperator (se_source se) (Some op) relation depth None batch_size)))"
| "compile_instrumented se (Filter input pred) batch_size ms0 n0 =
     (case reserve_metric_id ms0 n0 of (i, ms, n) \<Rightarrow>
        then_op (compile_instrumented se input batch_size ms n) (\<lambda>op.
          InstrumentedOperator i (FilterOperator op pred [] batch_size)))"
| "compile_instrumented se (Score input expr) batch_size ms0 n0 =
     (case reserve_metric_id ms0 n0 of (i, ms, n) \<Rightarrow>
        then_op (compile_instrumented se input batch_size ms n) (\<lambda>op.
          InstrumentedOperator i (ScoreOperator op expr)))"
| "compile_instrumented se (TopK input k by_key) batch_size ms0 n0 =
     (case reserve_metric_id ms0 n0 of (i, ms, n) \<Rightarrow>
        then_op (compile_instrumented se input batch_size ms n) (\<lambda>op.
          InstrumentedOperator i (TopKOperator (Some op) None k by_key batch_size)))"
| "compile_instrumented se (Join left right on) batch_size ms0 n0 =
     (case reserve_metric_id ms0 n0 of (i, ms, n) \<Rightarrow>
      case compile_instrumented se left batch_size ms n of (l, ms1, n1) \<Rightarrow>
        (case l of
           Inl e \<Rightarrow> (Inl e, ms1, n1)
         | Inr l' \<Rightarrow>
             then_op (compile_instrumented se right batch_size ms1 n1) (\<lambda>r.
               InstrumentedOperator i (JoinOperator (Some l') (Some r) None on batch_size))))"
| "compile_instrumented se (Aggregate input group_by aggregate) batch_size ms0 n0 =
     (case reserve_metric_id ms0 n0 of (i, ms, n) \<Rightarrow>
        then_op (compile_instrumented se input batch_size ms n) (\<lambda>op.
          InstrumentedOperator i (AggregateOperator (Some op) None group_by aggregate batch_size)))"
| "compile_instrumented se (Project input fs) batch_size ms0 n0 =
     (case reserve_metric_id ms0 n0 of (i, ms, n) \<Rightarrow>
        then_op (compile_instrumented se input batch_size ms n) (\<lambda>op.
          InstrumentedOperator i (ProjectOperator op fs)))"
| "compile_instrumented se (Udf input name args) batch_size ms0 n0 =
     (case reserve_metric_id ms0 n0 of (i, ms, n) \<Rightarrow>
        (case btree_get (se_udfs se) name of
           None \<Rightarrow> (Inl (udf_unbound name), ms, n)
         | Some udf \<Rightarrow>
             then_op (compile_instrumented se input batch_size ms n) (\<lambda>op.
               InstrumentedOperator i (UdfOperator op udf args))))"

definition run_operator ::
  "debug_fmt \<Rightarrow> operator \<Rightarrow> metrics \<Rightarrow> (qrecord list result \<times> metrics) option" where
  "run_operator fmt op ms = materialize_operator (next_batch fmt (op_depth op)) op ms []"

definition source_explain ::
  "debug_fmt \<Rightarrow> source_executor \<Rightarrow> logical_plan \<Rightarrow> stats \<Rightarrow> nat \<Rightarrow> explain_node result option" where
  "source_explain fmt se plan st batch_size =
     (case compile_instrumented se plan (max batch_size 1) [] 0 of (c, ms, n) \<Rightarrow>
        (case c of
           Inl e \<Rightarrow> Some (Inl e)
         | Inr op \<Rightarrow>
             Option.bind (run_operator fmt op ms) (\<lambda>(r, ms').
               Some (bind_res r (\<lambda>_.
                 Inr (fst (attach_actual_rows (fst (explain_shape_with_estimate plan st True)) ms' 0)))))))"

section \<open>Explanation by the in-memory executor\<close>

definition actual_node ::
  "debug_fmt \<Rightarrow> execution_context \<Rightarrow> logical_plan \<Rightarrow> string \<Rightarrow> nat option \<Rightarrow> explain_node list \<Rightarrow>
   (explain_node \<times> nat option) result" where
  "actual_node fmt ctx plan name est children =
     bind_res (execute fmt ctx plan) (\<lambda>rows.
       Inr (ExplainNode name est (Some (length rows)) children, est))"

primrec explain_with_estimate ::
  "debug_fmt \<Rightarrow> execution_context \<Rightarrow> logical_plan \<Rightarrow> stats \<Rightarrow> (explain_node \<times> nat option) result" where
  "explain_with_estimate fmt ctx (Scan table flt) st =
     actual_node fmt ctx (Scan table flt) (physical_operator_name (Scan table flt))
       (estimate_filter_rows (table_rows table st) flt st) []"
| "explain_with_estimate fmt ctx (VectorSearch query k flt model) st =
     actual_node fmt ctx (VectorSearch query k flt model) ''HnswSearchOp''
       (map_option (\<lambda>rows. min rows k) (estimate_filter_rows (Some (node_rows st)) flt st)) []"
| "explain_with_estimate fmt ctx (GraphExpand from relation depth) st =
     bind_res (explain_with_estimate fmt ctx from st) (\<lambda>(child, est).
       actual_node fmt ctx (GraphExpand from relation depth) ''GraphExpandOp'' (expand_estimate depth est) [child])"
| "explain_with_estimate fmt ctx (Filter input pred) st =
     bind_res (explain_with_estimate fmt ctx input st) (\<lambda>(child, est).
       actual_node fmt ctx (Filter input pred) ''FilterOp''
         (estimate_rows_by_selectivity est (estimate_selectivity st pred)) [child])"
| "explain_with_estimate fmt ctx (Score input expr) st =
     bind_res (explain_with_estimate fmt ctx input st) (\<lambda>(child, est).
       actual_node fmt ctx (Score input expr) ''ScoreOp'' est [child])"
| "explain_with_estimate fmt ctx (TopK input k by_key) st =
     bind_res (explain_with_estimate fmt ctx input st) (\<lambda>(child, est).
       actual_node fmt ctx (TopK input k by_key) ''TopKOp'' (map_option (\<lambda>rows. min rows k) est) [child])"
| "explain_with_estimate fmt ctx (Join left right on) st =
     bind_res (explain_with_estimate fmt ctx left st) (\<lambda>(left_child, left_est).
     bind_res (explain_with_estimate fmt ctx right st) (\<lambda>(right_child, right_est).
       actual_node fmt ctx (Join left right on)
         (join_operator_name (optimizer_join_strategy left_est right_est on))
         (opt_min left_est right_est) [left_child, right_child]))"
| "explain_with_estimate fmt ctx (Aggregate input group_by aggregate) st =
     bind_res (explain_with_estimate fmt ctx input st) (\<lambda>(child, est).
       actual_node fmt ctx (Aggregate input group_by aggregate) ''AggregateOp'' est [child])"
| "explain_with_estimate fmt ctx (Project input fs) st =
     bind_res (explain_with_estimate fmt ctx input st) (\<lambda>(child, est).
       actual_node fmt ctx (Project input fs) ''ProjectOp'' est [child])"
| "explain_with_estimate fmt ctx (Udf input name args) st =
     bind_res (explain_with_estimate fmt ctx input st) (\<lambda>(child, est).
       actual_node fmt ctx (Udf input name args) ''UdfOp'' est [child])"

definition explain ::
  "debug_fmt \<Rightarrow> execution_context \<Rightarrow> logical_plan \<Rightarrow> stats \<Rightarrow> explain_node result" where
  "explain fmt ctx plan st = bind_res (explain_with_estimate fmt ctx plan st) (\<lambda>(node, _). Inr node)"

section \<open>What an operator still delivers\<close>

definition materialized_rest :: "materialized \<Rightarrow> qrecord list" where
  "materialized_rest m = drop (mo_cursor m) (mo_rows m)"

text \<open>The rows of a blocking operator, from what its input still delivers.\<close>

definition blocking_rows ::
  "string \<Rightarrow> (qrecord list \<Rightarrow> qrecord list result) \<Rightarrow> qrecord list result option \<Rightarrow> materialized option \<Rightarrow>
   qrecord list result" where
  "blocking_rows consumed compute input out =
     (case out of
        Some m \<Rightarrow> Inr (materialized_rest m)
      | None \<Rightarrow> (case input of None \<Rightarrow> Inl (InvalidArgument consumed) | Some r \<Rightarrow> bind_res r compute))"

definition joined_rows ::
  "debug_fmt \<Rightarrow> join_key \<Rightarrow> qrecord list result option \<Rightarrow> qrecord list result option \<Rightarrow> materialized option \<Rightarrow>
   qrecord list result" where
  "joined_rows fmt on l r out =
     (case out of
        Some m \<Rightarrow> Inr (materialized_rest m)
      | None \<Rightarrow>
          (case l of
             None \<Rightarrow> Inl (InvalidArgument ''join left input already consumed'')
           | Some lr \<Rightarrow>
               (case r of
                  None \<Rightarrow> Inl (InvalidArgument ''join right input already consumed'')
                | Some rr \<Rightarrow> bind_res lr (\<lambda>a. bind_res rr (\<lambda>b. Inr (join_rows fmt a b on))))))"

primrec to_come :: "debug_fmt \<Rightarrow> operator \<Rightarrow> qrecord list result" where
  "to_come fmt (ScanOperator ctx flt cursor bs) = Inr (filter (matches_opt flt) (drop cursor (cx_nodes ctx)))"
| "to_come fmt (FilterOperator i pred pending bs) =
     bind_res (to_come fmt i) (\<lambda>rows. Inr (pending @ filter (\<lambda>r. predicate_matches r pred) rows))"
| "to_come fmt (ScoreOperator i expr) = bind_res (to_come fmt i) (\<lambda>rows. Inr (score_rows expr rows))"
| "to_come fmt (UdfOperator i udf args) = bind_res (to_come fmt i) (\<lambda>rows. Inr (udf_rows udf args rows))"
| "to_come fmt (ProjectOperator i fs) = bind_res (to_come fmt i) (\<lambda>rows. Inr (project_records rows fs))"
| "to_come fmt (GraphExpandOperator ctx i relation depth out bs) =
     blocking_rows ''graph input already consumed''
       (expand_or_seeds depth (\<lambda>seeds. Inr (graph_expand_rows ctx seeds relation depth)))
       (map_option (to_come fmt) i) out"
| "to_come fmt (SourceGraphExpandOperator src i relation depth out bs) =
     blocking_rows ''source graph input already consumed''
       (expand_or_seeds depth (\<lambda>seeds. qs_graph_expand src seeds relation depth))
       (map_option (to_come fmt) i) out"
| "to_come fmt (TopKOperator i out k by_key bs) =
     blocking_rows ''top-k input already consumed'' (\<lambda>rows. Inr (take k (sort_rows rows by_key)))
       (map_option (to_come fmt) i) out"
| "to_come fmt (JoinOperator l r out on bs) =
     joined_rows fmt on (map_option (to_come fmt) l) (map_option (to_come fmt) r) out"
| "to_come fmt (AggregateOperator i out group_by aggregate bs) =
     blocking_rows ''aggregate input already consumed''
       (\<lambda>rows. Inr (aggregate_records fmt rows group_by aggregate)) (map_option (to_come fmt) i) out"
| "to_come fmt (MaterializedOperator m) = Inr (materialized_rest m)"
| "to_come fmt (InstrumentedOperator n i) = to_come fmt i"

text \<open>What is still to be added to counter \<open>k\<close> until the operator is exhausted.\<close>

definition result_length :: "qrecord list result \<Rightarrow> nat" where
  "result_length r = (case r of Inl _ \<Rightarrow> 0 | Inr rows \<Rightarrow> length rows)"

definition input_count :: "nat option \<Rightarrow> materialized option \<Rightarrow> nat" where
  "input_count i out = (case out of Some _ \<Rightarrow> 0 | None \<Rightarrow> (case i of None \<Rightarrow> 0 | Some n \<Rightarrow> n))"

primrec to_count :: "debug_fmt \<Rightarrow> nat \<Rightarrow> operator \<Rightarrow> nat" where
  "to_count fmt k (ScanOperator _ _ _ _) = 0"
| "to_count fmt k (FilterOperator i _ _ _) = to_count fmt k i"
| "to_count fmt k (ScoreOperator i _) = to_count fmt k i"
| "to_count fmt k (UdfOperator i _ _) = to_count fmt k i"
| "to_count fmt k (ProjectOperator i _) = to_count fmt k i"
| "to_count fmt k (GraphExpandOperator _ i _ _ out _) = input_count (map_option (to_count fmt k) i) out"
| "to_count fmt k (SourceGraphExpandOperator _ i _ _ out _) = input_count (map_option (to_count fmt k) i) out"
| "to_count fmt k (TopKOperator i out _ _ _) = input_count (map_option (to_count fmt k) i) out"
| "to_count fmt k (JoinOperator l r out _ _) =
     input_count (map_option (to_count fmt k) l) out + input_count (map_option (to_count fmt k) r) out"
| "to_count fmt k (AggregateOperator i out _ _ _) = input_count (map_option (to_count fmt k) i) out"
| "to_count fmt k (MaterializedOperator _) = 0"
| "to_count fmt k (InstrumentedOperator n i) =
     (if k = n then result_length (to_come fmt i) else 0) + to_count fmt k i"

text \<open>
  Well-formed operators: one batch size throughout, counters in range, and no pending rows in
  a filter whose input is going to fail.
\<close>

definition out_ok :: "nat \<Rightarrow> materialized option \<Rightarrow> bool" where
  "out_ok bs out = (case out of None \<Rightarrow> True | Some m \<Rightarrow> mo_batch_size m = bs)"

primrec op_ok :: "debug_fmt \<Rightarrow> nat \<Rightarrow> nat \<Rightarrow> operator \<Rightarrow> bool" where
  "op_ok fmt bs n (ScanOperator _ _ _ b) = (b = bs)"
| "op_ok fmt bs n (FilterOperator i _ pending b) =
     (b = bs \<and> op_ok fmt bs n i \<and> (pending \<noteq> [] \<longrightarrow> (\<exists>rows. to_come fmt i = Inr rows)))"
| "op_ok fmt bs n (ScoreOperator i _) = op_ok fmt bs n i"
| "op_ok fmt bs n (UdfOperator i _ _) = op_ok fmt bs n i"
| "op_ok fmt bs n (ProjectOperator i _) = op_ok fmt bs n i"
| "op_ok fmt bs n (GraphExpandOperator _ i _ _ out b) =
     (b = bs \<and> out_ok bs out \<and> pred_option (op_ok fmt bs n) i)"
| "op_ok fmt bs n (SourceGraphExpandOperator _ i _ _ out b) =
     (b = bs \<and> out_ok bs out \<and> pred_option (op_ok fmt bs n) i)"
| "op_ok fmt bs n (TopKOperator i out _ _ b) = (b = bs \<and> out_ok bs out \<and> pred_option (op_ok fmt bs n) i)"
| "op_ok fmt bs n (JoinOperator l r out _ b) =
     (b = bs \<and> out_ok bs out \<and> pred_option (op_ok fmt bs n) l \<and> pred_option (op_ok fmt bs n) r)"
| "op_ok fmt bs n (AggregateOperator i out _ _ b) = (b = bs \<and> out_ok bs out \<and> pred_option (op_ok fmt bs n) i)"
| "op_ok fmt bs n (MaterializedOperator m) = (mo_batch_size m = bs)"
| "op_ok fmt bs n (InstrumentedOperator k i) = (k < n \<and> op_ok fmt bs n i)"

text \<open>
  What one pull promises. An operator that is going to fail fails at once. Otherwise the pull
  splits a batch of at most \<open>bs\<close> rows off the rows to come, an empty one only when there are
  none, and then everything has been counted; the counters advance by what the operator no
  longer has to count.
\<close>

definition pull_ok :: "debug_fmt \<Rightarrow> nat \<Rightarrow> (operator \<Rightarrow> bool) \<Rightarrow> operator \<Rightarrow> metrics \<Rightarrow> pulled \<Rightarrow> bool" where
  "pull_ok fmt bs P op ms p \<longleftrightarrow>
     (case to_come fmt op of
        Inl e \<Rightarrow> \<exists>op' ms'. p = Some (Inl e, op', ms') \<and> length ms' = length ms
      | Inr rows \<Rightarrow>
          \<exists>b rest op' ms'. p = Some (Inr (some_batch b), op', ms') \<and> rows = b @ rest \<and> length b \<le> bs \<and>
            to_come fmt op' = Inr rest \<and> op_ok fmt bs (length ms) op' \<and> P op' \<and> length ms' = length ms \<and>
            (b = [] \<longrightarrow> rest = [] \<and> (\<forall>k. to_count fmt k op' = 0)) \<and>
            (\<forall>k. k < length ms \<longrightarrow> ms' ! k + to_count fmt k op' = ms ! k + to_count fmt k op))"

text \<open>
  The interface between an operator and its consumers: \<^verbatim>\<open>PhysicalOperator::next_batch\<close> on the
  operators that satisfy \<open>P\<close>. The consumers' loops are verified against it.
\<close>

locale puller =
  fixes fmt :: debug_fmt and bs :: nat and P :: "operator \<Rightarrow> bool"
    and nxt :: "operator \<Rightarrow> metrics \<Rightarrow> pulled"
  assumes pull: "P op \<Longrightarrow> op_ok fmt bs (length ms) op \<Longrightarrow> pull_ok fmt bs P op ms (nxt op ms)"
begin

lemma materialize_fails:
  assumes "P op" and "op_ok fmt bs (length ms) op" and "to_come fmt op = Inl e"
  shows "\<exists>ms'. materialize_operator nxt op ms acc = Some (Inl e, ms') \<and> length ms' = length ms"
  using pull [OF assms(1,2)] assms(3)
  by (subst materialize_operator.simps) (auto simp: pull_ok_def)

lemma materialize_rows:
  assumes "P op" and "op_ok fmt bs (length ms) op" and "to_come fmt op = Inr rows"
  shows "\<exists>ms'. materialize_operator nxt op ms acc = Some (Inr (acc @ rows), ms') \<and>
    length ms' = length ms \<and> (\<forall>k. k < length ms \<longrightarrow> ms' ! k = ms ! k + to_count fmt k op)"
  using assms
proof (induction "length rows" arbitrary: op ms acc rows rule: less_induct)
  case less
  obtain b rest op' ms' where
      p: "nxt op ms = Some (Inr (some_batch b), op', ms')" "rows = b @ rest" "to_come fmt op' = Inr rest"
      "op_ok fmt bs (length ms) op'" "P op'" "length ms' = length ms"
      "b = [] \<longrightarrow> rest = [] \<and> (\<forall>k. to_count fmt k op' = 0)"
      "\<forall>k. k < length ms \<longrightarrow> ms' ! k + to_count fmt k op' = ms ! k + to_count fmt k op"
    using pull [OF less.prems(1,2)] less.prems(3) by (auto simp: pull_ok_def)
  show ?case
  proof (cases "b = []")
    case True
    then show ?thesis
      using p by (subst materialize_operator.simps) (auto simp: some_batch_def)
  next
    case False
    have "\<exists>ms''. materialize_operator nxt op' ms' (acc @ b) = Some (Inr ((acc @ b) @ rest), ms'') \<and>
        length ms'' = length ms' \<and> (\<forall>k. k < length ms' \<longrightarrow> ms'' ! k = ms' ! k + to_count fmt k op')"
      using p False by (intro less.hyps) auto
    then show ?thesis
      using p False by (subst materialize_operator.simps) (auto simp: some_batch_def)
  qed
qed

lemma filter_fill_fails:
  assumes "P i" and "op_ok fmt bs (length ms) i" and "to_come fmt i = Inl e" and "0 < bs"
  shows "\<exists>i' ms'. filter_fill nxt pred bs [] [] i ms = Some (Inl e, [], i', ms') \<and> length ms' = length ms"
  using pull [OF assms(1,2)] assms(3,4)
  by (subst filter_fill.simps) (auto simp: pull_ok_def)

lemma filter_fill_rows:
  assumes "P i" and "op_ok fmt bs (length ms) i" and "to_come fmt i = Inr rs" and "length rows \<le> bs"
  shows "\<exists>out pending' i' ms' rs'.
    filter_fill nxt pred bs rows pending i ms = Some (Inr out, pending', i', ms') \<and>
    rows @ pending @ filter (\<lambda>r. predicate_matches r pred) rs =
      out @ pending' @ filter (\<lambda>r. predicate_matches r pred) rs' \<and>
    length out \<le> bs \<and> to_come fmt i' = Inr rs' \<and> op_ok fmt bs (length ms) i' \<and> P i' \<and>
    length ms' = length ms \<and>
    (length out < bs \<longrightarrow> pending' = [] \<and> rs' = [] \<and> (\<forall>k. to_count fmt k i' = 0)) \<and>
    (\<forall>k. k < length ms \<longrightarrow> ms' ! k + to_count fmt k i' = ms ! k + to_count fmt k i)"
  using assms
proof (induction "length rs + (bs - length rows)" arbitrary: i ms rs rows pending rule: less_induct)
  case less
  show ?case
  proof (cases "length rows < bs")
    case False
    then show ?thesis
      using less.prems by (subst filter_fill.simps) auto
  next
    case room: True
    show ?thesis
    proof (cases pending)
      case (Cons r pending')
      show ?thesis
        using less.hyps [of rs "rows @ [r]" i ms pending'] less.prems room Cons
        by (subst filter_fill.simps) simp
    next
      case Nil
      obtain b rest i' ms' where
          p: "nxt i ms = Some (Inr (some_batch b), i', ms')" "rs = b @ rest" "to_come fmt i' = Inr rest"
          "op_ok fmt bs (length ms) i'" "P i'" "length ms' = length ms"
          "b = [] \<longrightarrow> rest = [] \<and> (\<forall>k. to_count fmt k i' = 0)"
          "\<forall>k. k < length ms \<longrightarrow> ms' ! k + to_count fmt k i' = ms ! k + to_count fmt k i"
        using pull [OF less.prems(1,2)] less.prems(3) by (auto simp: pull_ok_def)
      show ?thesis
      proof (cases "b = []")
        case True
        then show ?thesis
          using p Nil room by (subst filter_fill.simps) (auto simp: some_batch_def)
      next
        case False
        let ?hits = "filter (\<lambda>r. predicate_matches r pred) b" and ?room = "bs - length rows"
        have step: "filter_fill nxt pred bs rows pending i ms =
            filter_fill nxt pred bs (rows @ take ?room ?hits) (drop ?room ?hits) i' ms'"
          using p False Nil room by (subst filter_fill.simps) (simp add: some_batch_def Let_def)
        have split: "rows @ pending @ filter (\<lambda>r. predicate_matches r pred) rs =
            (rows @ take ?room ?hits) @ drop ?room ?hits @ filter (\<lambda>r. predicate_matches r pred) rest"
          using p Nil by (simp flip: append_assoc) (simp)
        have "0 < length b" using False by simp
        then have "length rest + (bs - length (rows @ take ?room ?hits)) < length rs + (bs - length rows)"
          unfolding p(2) length_append by linarith
        moreover have "length (rows @ take ?room ?hits) \<le> bs" using room by simp
        ultimately show ?thesis
          unfolding step split
          using less.hyps [of rest "rows @ take ?room ?hits" i' ms' "drop ?room ?hits"] p(3-6,8) by simp
      qed
    qed
  qed
qed

end

section \<open>Every operator keeps the interface\<close>

lemma materialized_next_spec:
  assumes "mo_batch_size m = bs" and "0 < bs"
  shows "\<exists>b m'. materialized_next m = (some_batch b, m') \<and> materialized_rest m = b @ materialized_rest m' \<and>
    length b \<le> bs \<and> mo_batch_size m' = bs \<and> (b = [] \<longrightarrow> materialized_rest m' = [])"
proof (cases "length (mo_rows m) \<le> mo_cursor m")
  case True
  then show ?thesis
    using assms by (intro exI [of _ "[]"] exI [of _ m]) (simp add: materialized_next_def materialized_rest_def some_batch_def)
next
  case False
  let ?stop = "min (mo_cursor m + mo_batch_size m) (length (mo_rows m))"
  let ?b = "take (?stop - mo_cursor m) (drop (mo_cursor m) (mo_rows m))" and ?m = "m\<lparr>mo_cursor := ?stop\<rparr>"
  have "?b \<noteq> []" "length ?b \<le> bs" using False assms by auto
  moreover have "materialized_rest m = ?b @ materialized_rest ?m"
    using False by (simp add: materialized_rest_def) (metis append_take_drop_id drop_drop le_add_diff_inverse2
        min.bounded_iff le_add1 less_imp_le_nat not_le)
  ultimately show ?thesis
    using False assms by (intro exI [of _ ?b] exI [of _ ?m]) (simp add: materialized_next_def some_batch_def Let_def)
qed

lemma materialized_rest_new [simp]: "materialized_rest (materialized_new rows bs) = rows"
  by (simp add: materialized_rest_def materialized_new_def)

lemma materialized_new_batch [simp]: "0 < bs \<Longrightarrow> mo_batch_size (materialized_new rows bs) = bs"
  by (simp add: materialized_new_def)

text \<open>Serving from a materialized output keeps the interface, whatever the operator around it.\<close>

lemma serve_pull_ok:
  assumes "mo_batch_size m = bs" and "0 < bs"
    and "to_come fmt op = Inr (materialized_rest m)"
    and "\<And>m'. to_come fmt (mk m') = Inr (materialized_rest m') \<and> (\<forall>k. to_count fmt k (mk m') = 0)"
    and "\<And>m'. mo_batch_size m' = bs \<Longrightarrow> op_ok fmt bs (length ms) (mk m') \<and> Q (mk m')"
    and "length ms' = length ms" and "\<forall>k. k < length ms \<longrightarrow> ms' ! k = ms ! k + to_count fmt k op"
  shows "pull_ok fmt bs Q op ms (serve mk m ms')"
proof -
  obtain b m' where n: "materialized_next m = (some_batch b, m')" "materialized_rest m = b @ materialized_rest m'"
    "length b \<le> bs" "mo_batch_size m' = bs" "b = [] \<longrightarrow> materialized_rest m' = []"
    using materialized_next_spec [OF assms(1,2)] by blast
  show ?thesis
    unfolding pull_ok_def serve_def assms(3) n(1) sum.case prod.case
    by (rule exI [of _ b], rule exI [of _ "materialized_rest m'"], rule exI [of _ "mk m'"], rule exI [of _ ms'])
      (use n assms(4,6,7) assms(5) [OF n(4)] in simp)
qed

context puller
begin

lemma blocking_pull_ok:
  assumes bs: "0 < bs"
    and come: "\<And>i out. to_come fmt (mk i out) = blocking_rows consumed compute (map_option (to_come fmt) i) out"
    and tally: "\<And>i out k. to_count fmt k (mk i out) = input_count (map_option (to_count fmt k) i) out"
    and ok: "\<And>i out n. op_ok fmt bs n (mk i out) = (out_ok bs out \<and> pred_option (op_ok fmt bs n) i)"
    and Q: "\<And>m. Q (mk None (Some m))" "\<And>m. Q (mk input (Some m))"
    and input: "pred_option P input" "op_ok fmt bs (length ms) (mk input out)"
  shows "pull_ok fmt bs Q (mk input out) ms (blocking nxt consumed compute bs mk input out ms)"
proof (cases out)
  case (Some m)
  have "pull_ok fmt bs Q (mk input out) ms (serve (\<lambda>m'. mk input (Some m')) m ms)"
    by (rule serve_pull_ok) (use Some bs Q input ok in \<open>auto simp: come tally blocking_rows_def input_count_def out_ok_def\<close>)
  then show ?thesis using Some by (simp add: blocking_def)
next
  case None
  show ?thesis
  proof (cases input)
    case in_None: None
    then show ?thesis
      using None by (simp add: pull_ok_def come blocking_rows_def blocking_def)
  next
    case (Some i)
    then have i: "P i" "op_ok fmt bs (length ms) i" using input by (auto simp: ok)
    have rows: "to_come fmt (mk input out) = bind_res (to_come fmt i) compute"
      using None Some by (simp add: come blocking_rows_def)
    show ?thesis
    proof (cases "to_come fmt i")
      case (Inl e)
      then show ?thesis
        using materialize_fails [OF i Inl, of "[]"] None Some rows by (auto simp: pull_ok_def blocking_def)
    next
      case (Inr rs)
      then obtain ms' where m: "materialize_operator nxt i ms [] = Some (Inr rs, ms')" "length ms' = length ms"
          "\<forall>k. k < length ms \<longrightarrow> ms' ! k = ms ! k + to_count fmt k i"
        using materialize_rows [OF i Inr, of "[]"] by auto
      show ?thesis
      proof (cases "compute rs")
        case (Inl e)
        then show ?thesis using m Inr None Some rows by (auto simp: pull_ok_def blocking_def)
      next
        case inr: (Inr out_rows)
        have "pull_ok fmt bs Q (mk input out) ms
            (serve (\<lambda>m'. mk None (Some m')) (materialized_new out_rows bs) ms')"
          by (rule serve_pull_ok)
            (use bs Q rows Inr inr m None Some in \<open>auto simp: come tally ok blocking_rows_def input_count_def out_ok_def\<close>)
        then show ?thesis using m inr None Some by (simp add: blocking_def)
      qed
    qed
  qed
qed

lemma join_pull_ok:
  assumes bs: "0 < bs" and Q: "\<And>m. Q (JoinOperator left right (Some m) on bs)"
      "\<And>m. Q (JoinOperator None None (Some m) on bs)"
    and input: "pred_option P left" "pred_option P right"
      "op_ok fmt bs (length ms) (JoinOperator left right out on bs)"
  shows "pull_ok fmt bs Q (JoinOperator left right out on bs) ms (join_pull fmt nxt left right out on bs ms)"
proof (cases out)
  case (Some m)
  have "pull_ok fmt bs Q (JoinOperator left right out on bs) ms
      (serve (\<lambda>m'. JoinOperator left right (Some m') on bs) m ms)"
    by (rule serve_pull_ok) (use Some bs Q input in \<open>auto simp: joined_rows_def input_count_def out_ok_def\<close>)
  then show ?thesis using Some by (simp add: join_pull_def)
next
  case None
  show ?thesis
  proof (cases "left = None \<or> right = None")
    case True
    then show ?thesis
      using None by (cases left; cases right) (auto simp: pull_ok_def joined_rows_def join_pull_def)
  next
    case False
    then obtain l r where lr: "left = Some l" "right = Some r" by auto
    then have l: "P l" "op_ok fmt bs (length ms) l" and r: "P r" "op_ok fmt bs (length ms) r"
      using input by auto
    show ?thesis
    proof (cases "to_come fmt l")
      case (Inl e)
      then show ?thesis
        using materialize_fails [OF l Inl, of "[]"] None lr
        by (auto simp: pull_ok_def join_pull_def joined_rows_def)
    next
      case (Inr ls)
      then obtain ms1 where m1: "materialize_operator nxt l ms [] = Some (Inr ls, ms1)" "length ms1 = length ms"
          "\<forall>k. k < length ms \<longrightarrow> ms1 ! k = ms ! k + to_count fmt k l"
        using materialize_rows [OF l Inr, of "[]"] by auto
      have r1: "op_ok fmt bs (length ms1) r" using r m1 by simp
      show ?thesis
      proof (cases "to_come fmt r")
        case (Inl e)
        then show ?thesis
          using materialize_fails [OF r(1) r1 Inl, of "[]"] m1 None lr Inr
          by (auto simp: pull_ok_def join_pull_def joined_rows_def)
      next
        case inr: (Inr rs)
        then obtain ms2 where m2: "materialize_operator nxt r ms1 [] = Some (Inr rs, ms2)" "length ms2 = length ms1"
            "\<forall>k. k < length ms1 \<longrightarrow> ms2 ! k = ms1 ! k + to_count fmt k r"
          using materialize_rows [OF r(1) r1 inr, of "[]"] by auto
        have "pull_ok fmt bs Q (JoinOperator left right out on bs) ms
            (serve (\<lambda>m'. JoinOperator None None (Some m') on bs) (materialized_new (join_rows fmt ls rs on) bs) ms2)"
          by (rule serve_pull_ok)
            (use bs Q None lr Inr inr m1 m2 in \<open>auto simp: joined_rows_def input_count_def out_ok_def\<close>)
        then show ?thesis using None lr m1 m2 by (simp add: join_pull_def)
      qed
    qed
  qed
qed

lemma map_batch_pull_ok:
  assumes "P i" and "op_ok fmt bs (length ms) i"
    and come: "\<And>i. to_come fmt (mk i) = bind_res (to_come fmt i) (\<lambda>rows. Inr (map g rows))"
    and tally: "\<And>i k. to_count fmt k (mk i) = to_count fmt k i"
    and ok: "\<And>i n. op_ok fmt bs n (mk i) = op_ok fmt bs n i" and Q: "\<And>i. P i \<Longrightarrow> Q (mk i)"
  shows "pull_ok fmt bs Q (mk i) ms (map_batch (map g) mk (nxt i ms))"
proof (cases "to_come fmt i")
  case (Inl e)
  then show ?thesis using pull [OF assms(1,2)] by (auto simp: pull_ok_def map_batch_def come)
next
  case (Inr rows)
  obtain b rest i' ms' where
      p: "nxt i ms = Some (Inr (some_batch b), i', ms')" "rows = b @ rest" "length b \<le> bs" "to_come fmt i' = Inr rest"
      "op_ok fmt bs (length ms) i'" "P i'" "length ms' = length ms"
      "b = [] \<longrightarrow> rest = [] \<and> (\<forall>k. to_count fmt k i' = 0)"
      "\<forall>k. k < length ms \<longrightarrow> ms' ! k + to_count fmt k i' = ms ! k + to_count fmt k i"
    using pull [OF assms(1,2)] Inr by (auto simp: pull_ok_def)
  have batch: "map_option (map g) (some_batch b) = some_batch (map g b)" by (simp add: some_batch_def)
  show ?thesis
    unfolding pull_ok_def come Inr bind_res_simps sum.case
    by (rule exI [of _ "map g b"], rule exI [of _ "map g rest"], rule exI [of _ "mk i'"], rule exI [of _ ms'])
      (use p Q in \<open>simp add: map_batch_def batch come tally ok\<close>)
qed

lemma filter_pull_ok:
  assumes bs: "0 < bs" and i: "P i" "op_ok fmt bs (length ms) (FilterOperator i pred pending bs)"
    and Q: "\<And>i pending. P i \<Longrightarrow> Q (FilterOperator i pred pending bs)"
  shows "pull_ok fmt bs Q (FilterOperator i pred pending bs) ms
    (Option.bind (filter_fill nxt pred bs [] pending i ms) (\<lambda>(r, pending', input', ms').
       Some (case r of Inl e \<Rightarrow> Inl e | Inr rows \<Rightarrow> Inr (some_batch rows),
         FilterOperator input' pred pending' bs, ms')))"
proof (cases "to_come fmt i")
  case (Inl e)
  moreover have "pending = []" using i(2) Inl by auto
  ultimately show ?thesis
    using filter_fill_fails [of i ms e pred] i bs by (auto simp: pull_ok_def)
next
  case (Inr rs)
  have "op_ok fmt bs (length ms) i" using i(2) by simp
  then obtain out pending' i' ms' rs' where
      p: "filter_fill nxt pred bs [] pending i ms = Some (Inr out, pending', i', ms')"
      "pending @ filter (\<lambda>r. predicate_matches r pred) rs = out @ pending' @ filter (\<lambda>r. predicate_matches r pred) rs'"
      "length out \<le> bs" "to_come fmt i' = Inr rs'" "op_ok fmt bs (length ms) i'" "P i'" "length ms' = length ms"
      "length out < bs \<longrightarrow> pending' = [] \<and> rs' = [] \<and> (\<forall>k. to_count fmt k i' = 0)"
      "\<forall>k. k < length ms \<longrightarrow> ms' ! k + to_count fmt k i' = ms ! k + to_count fmt k i"
    using filter_fill_rows [OF i(1) _ Inr, of ms "[]" pred pending] by auto
  show ?thesis
    unfolding pull_ok_def to_come.simps Inr bind_res_simps sum.case
    by (rule exI [of _ out], rule exI [of _ "pending' @ filter (\<lambda>r. predicate_matches r pred) rs'"],
        rule exI [of _ "FilterOperator i' pred pending' bs"], rule exI [of _ ms'])
      (use p Q bs in simp)
qed

end

lemma scan_fill_spec:
  "scan_fill nodes flt bs c rows = (out, c') \<Longrightarrow> length rows \<le> bs \<Longrightarrow>
     rows @ filter (matches_opt flt) (drop c nodes) = out @ filter (matches_opt flt) (drop c' nodes) \<and>
     length out \<le> bs \<and> (length out < bs \<longrightarrow> length nodes \<le> c')"
proof (induction nodes flt bs c rows rule: scan_fill.induct)
  case (1 nodes flt bs c rows)
  show ?case
  proof (cases "c < length nodes \<and> length rows < bs")
    case True
    then have "drop c nodes = nodes ! c # drop (c + 1) nodes" by (simp add: Cons_nth_drop_Suc)
    moreover have "scan_fill nodes flt bs (c + 1)
        (if matches_opt flt (nodes ! c) then rows @ [nodes ! c] else rows) = (out, c')"
      using 1(2) True scan_fill.simps [of nodes flt bs c rows] by simp
    ultimately show ?thesis using 1(1) [OF True] True by (auto split: if_splits)
  next
    case False
    then have "out = rows" "c' = c" using 1(2) scan_fill.simps [of nodes flt bs c rows] by auto
    then show ?thesis using False 1(3) by auto
  qed
qed

lemma rows_maps:
  "score_rows expr = map (\<lambda>r. r\<lparr>r_score := eval_score r expr\<rparr>)"
  "udf_rows udf args = map (\<lambda>r. r\<lparr>r_score := udf r args\<rparr>)"
  "(\<lambda>rows. project_records rows fs) = map (\<lambda>r. project_record r fs)"
  by (auto simp: score_rows_def udf_rows_def project_records_def fun_eq_iff)

lemma instrumented_pull_ok:
  assumes p: "pull_ok fmt bs P i ms (next_batch fmt d i ms)" and "n < length ms" and "op_ok fmt bs (length ms) i"
    and Q: "\<And>i. P i \<Longrightarrow> Q (InstrumentedOperator n i)"
  shows "pull_ok fmt bs Q (InstrumentedOperator n i) ms (next_batch fmt (Suc d) (InstrumentedOperator n i) ms)"
proof (cases "to_come fmt i")
  case (Inl e)
  then show ?thesis using p by (auto simp: pull_ok_def)
next
  case (Inr rows)
  obtain b rest i' ms' where
      b: "next_batch fmt d i ms = Some (Inr (some_batch b), i', ms')" "rows = b @ rest" "length b \<le> bs"
      "to_come fmt i' = Inr rest" "op_ok fmt bs (length ms) i'" "P i'" "length ms' = length ms"
      "b = [] \<longrightarrow> rest = [] \<and> (\<forall>k. to_count fmt k i' = 0)"
      "\<forall>k. k < length ms \<longrightarrow> ms' ! k + to_count fmt k i' = ms ! k + to_count fmt k i"
    using p Inr by (auto simp: pull_ok_def)
  let ?ms = "if b = [] then ms' else ms'[n := ms' ! n + length b]"
  have step: "next_batch fmt (Suc d) (InstrumentedOperator n i) ms =
      Some (Inr (some_batch b), InstrumentedOperator n i', ?ms)"
    using b(1) by (simp add: some_batch_def)
  have counts: "?ms ! k + to_count fmt k (InstrumentedOperator n i') = ms ! k + to_count fmt k (InstrumentedOperator n i)"
    if "k < length ms" for k
    using b(2,4,7,9) that assms(2) by (auto simp: result_length_def Inr nth_list_update)
  show ?thesis
    unfolding pull_ok_def to_come.simps Inr sum.case step
    by (rule exI [of _ b], rule exI [of _ rest], rule exI [of _ "InstrumentedOperator n i'"], rule exI [of _ ?ms])
      (use b counts Q assms(2) in \<open>auto simp: result_length_def\<close>)
qed

lemma puller_next_batch:
  assumes bs: "0 < bs"
  shows "puller fmt bs (\<lambda>op. op_depth op \<le> d) (next_batch fmt d)"
proof (induction d)
  case 0
  have "0 < op_depth op" for op by (cases op) auto
  then show ?case by unfold_locales (metis not_less)
next
  case (Suc d)
  let ?P = "\<lambda>op. op_depth op \<le> d" and ?Q = "\<lambda>op. op_depth op \<le> Suc d"
  note blocking = puller.blocking_pull_ok [OF Suc bs, where Q = ?Q]
  note batch = puller.map_batch_pull_ok [OF Suc, where Q = ?Q]
  show ?case
  proof
    fix op and ms :: metrics
    assume depth: "op_depth op \<le> Suc d" and ok: "op_ok fmt bs (length ms) op"
    show "pull_ok fmt bs ?Q op ms (next_batch fmt (Suc d) op ms)"
    proof (cases op)
      case (ScanOperator ctx flt c b)
      obtain rows c' where f: "scan_fill (cx_nodes ctx) flt bs c [] = (rows, c')" by fastforce
      have "length rows \<le> bs" "length rows < bs \<longrightarrow> length (cx_nodes ctx) \<le> c'"
          "filter (matches_opt flt) (drop c (cx_nodes ctx)) = rows @ filter (matches_opt flt) (drop c' (cx_nodes ctx))"
        using scan_fill_spec [OF f] by auto
      then show ?thesis using ScanOperator ok f bs by (auto simp: pull_ok_def)
    next
      case (FilterOperator i pred pending b)
      then show ?thesis using puller.filter_pull_ok [OF Suc bs, of i ms pred pending ?Q] depth ok by simp
    next
      case (ScoreOperator i expr)
      show ?thesis unfolding ScoreOperator next_batch.simps rows_maps
        by (rule batch) (use ScoreOperator depth ok in \<open>auto simp: rows_maps\<close>)
    next
      case (UdfOperator i udf args)
      show ?thesis unfolding UdfOperator next_batch.simps rows_maps
        by (rule batch) (use UdfOperator depth ok in \<open>auto simp: rows_maps\<close>)
    next
      case (ProjectOperator i fs)
      show ?thesis unfolding ProjectOperator next_batch.simps rows_maps
        by (rule batch) (use ProjectOperator depth ok in \<open>auto simp: project_records_def\<close>)
    next
      case (GraphExpandOperator ctx i relation dep out b)
      then have b: "b = bs" using ok by simp
      show ?thesis unfolding GraphExpandOperator next_batch.simps b
        by (rule blocking) (use GraphExpandOperator depth ok b in \<open>auto split: option.splits\<close>)
    next
      case (SourceGraphExpandOperator src i relation dep out b)
      then have b: "b = bs" using ok by simp
      show ?thesis unfolding SourceGraphExpandOperator next_batch.simps b
        by (rule blocking) (use SourceGraphExpandOperator depth ok b in \<open>auto split: option.splits\<close>)
    next
      case (TopKOperator i out k by_key b)
      then have b: "b = bs" using ok by simp
      show ?thesis unfolding TopKOperator next_batch.simps b
        by (rule blocking) (use TopKOperator depth ok b in \<open>auto split: option.splits\<close>)
    next
      case (JoinOperator l r out on b)
      then have b: "b = bs" using ok by simp
      show ?thesis unfolding JoinOperator next_batch.simps b
        by (rule puller.join_pull_ok [OF Suc bs]) (use JoinOperator depth ok b in \<open>auto split: option.splits\<close>)
    next
      case (AggregateOperator i out group_by aggregate b)
      then have b: "b = bs" using ok by simp
      show ?thesis unfolding AggregateOperator next_batch.simps b
        by (rule blocking) (use AggregateOperator depth ok b in \<open>auto split: option.splits\<close>)
    next
      case (MaterializedOperator m)
      have "pull_ok fmt bs ?Q op ms (serve MaterializedOperator m ms)"
        by (rule serve_pull_ok) (use MaterializedOperator ok bs in auto)
      then show ?thesis using MaterializedOperator by (simp add: serve_def)
    next
      case (InstrumentedOperator n i)
      then have "pull_ok fmt bs ?P i ms (next_batch fmt d i ms)" using puller.pull [OF Suc] depth ok by simp
      then show ?thesis
        unfolding InstrumentedOperator by (rule instrumented_pull_ok) (use InstrumentedOperator ok in auto)
    qed
  qed
qed

interpretation physical: puller fmt "Suc b" "\<lambda>op. op_depth op \<le> d" "next_batch fmt d" for fmt b d
  by (rule puller_next_batch) simp

lemma run_operator_rows:
  assumes "op_ok fmt (Suc b) (length ms) op" and "to_come fmt op = Inr rows"
  shows "\<exists>ms'. run_operator fmt op ms = Some (Inr rows, ms') \<and> length ms' = length ms \<and>
    (\<forall>k. k < length ms \<longrightarrow> ms' ! k = ms ! k + to_count fmt k op)"
  using physical.materialize_rows [OF order.refl assms, of "[]"] by (simp add: run_operator_def)

lemma run_operator_fails:
  assumes "op_ok fmt (Suc b) (length ms) op" and "to_come fmt op = Inl e"
  shows "\<exists>ms'. run_operator fmt op ms = Some (Inl e, ms')"
  using physical.materialize_fails [OF order.refl assms, of "[]"] by (auto simp: run_operator_def)

section \<open>Properties of the in-memory executor\<close>

text \<open>The sequence of batches that a consumer pulls, up to the end marker.\<close>

fun delivers :: "debug_fmt \<Rightarrow> nat \<Rightarrow> operator \<Rightarrow> metrics \<Rightarrow> qrecord list list \<Rightarrow> bool" where
  "delivers fmt d op ms [] \<longleftrightarrow> (\<exists>op' ms'. next_batch fmt d op ms = Some (Inr None, op', ms'))"
| "delivers fmt d op ms (b # batches) \<longleftrightarrow>
     (\<exists>op' ms'. next_batch fmt d op ms = Some (Inr (Some b), op', ms') \<and> delivers fmt d op' ms' batches)"

lemma delivers_batches:
  assumes "op_depth op \<le> d" and "op_ok fmt (Suc n) (length ms) op" and "to_come fmt op = Inr rows"
  shows "\<exists>batches. delivers fmt d op ms batches \<and> concat batches = rows \<and>
    (\<forall>b\<in>set batches. b \<noteq> [] \<and> length b \<le> Suc n)"
  using assms
proof (induction "length rows" arbitrary: op ms rows rule: less_induct)
  case less
  obtain b rest op' ms' where
      p: "next_batch fmt d op ms = Some (Inr (some_batch b), op', ms')" "rows = b @ rest" "length b \<le> Suc n"
      "to_come fmt op' = Inr rest" "op_ok fmt (Suc n) (length ms') op'" "op_depth op' \<le> d" "b = [] \<longrightarrow> rest = []"
    using physical.pull [OF less.prems(1,2)] less.prems(3) by (auto simp: pull_ok_def)
  show ?case
  proof (cases "b = []")
    case True
    then show ?thesis using p by (intro exI [of _ "[]"]) (simp add: some_batch_def)
  next
    case False
    then have "length rest < length rows" using p(2) by simp
    from less.hyps [OF this p(6,5,4)] obtain batches where
      "delivers fmt d op' ms' batches" "concat batches = rest" "\<forall>b\<in>set batches. b \<noteq> [] \<and> length b \<le> Suc n" by blast
    then show ?thesis
      using p False by (intro exI [of _ "b # batches"]) (simp add: some_batch_def)
  qed
qed

lemma compile_execute:
  "case execute fmt ctx plan of
     Inl e \<Rightarrow> compile ctx plan b = Inl e
   | Inr rows \<Rightarrow> \<exists>op. compile ctx plan b = Inr op \<and> op_ok fmt (max b 1) n op \<and> to_come fmt op = Inr rows"
proof (induction plan arbitrary: b)
  case (Udf plan name args)
  show ?case
    using Udf [of "max b 1"]
    by (auto simp: ok_or_def split: option.splits sum.splits)
next
  case (Join left right on)
  show ?case
    using Join(1) [of "max b 1"] Join(2) [of "max b 1"]
    by (auto simp: out_ok_def joined_rows_def split: sum.splits)
next
  case (GraphExpand input relation depth)
  show ?case
    using GraphExpand [of "max b 1"]
    by (auto simp: out_ok_def blocking_rows_def expand_or_seeds_def split: sum.splits)
next
  case (Filter plan pred)
  show ?case
    using Filter [of "max b 1"] by (auto simp: out_ok_def blocking_rows_def split: sum.splits)
next
  case (Score plan expr)
  show ?case
    using Score [of "max b 1"] by (auto simp: out_ok_def blocking_rows_def split: sum.splits)
next
  case (TopK plan k by_key)
  show ?case
    using TopK [of "max b 1"] by (auto simp: out_ok_def blocking_rows_def split: sum.splits)
next
  case (Aggregate plan group_by aggregate)
  show ?case
    using Aggregate [of "max b 1"] by (auto simp: out_ok_def blocking_rows_def split: sum.splits)
next
  case (Project plan fs)
  show ?case
    using Project [of "max b 1"] by (auto simp: out_ok_def blocking_rows_def split: sum.splits)
qed (auto simp: materialized_new_def materialized_rest_def)

text \<open>
  C15. Batch execution agrees with direct execution. Compiling a plan fails exactly when
  executing it fails, with the same error. Otherwise pulling the compiled operator to its end
  terminates, yields exactly the rows of direct execution in the same order, and does so in
  non-empty batches of at most the batch size (at least one).
\<close>

theorem batch_execution_correct:
  "case execute fmt ctx plan of
     Inl e \<Rightarrow> compile ctx plan batch_size = Inl e
   | Inr rows \<Rightarrow> \<exists>op. compile ctx plan batch_size = Inr op \<and>
       run_operator fmt op [] = Some (Inr rows, []) \<and>
       (\<exists>batches. delivers fmt (op_depth op) op [] batches \<and> concat batches = rows \<and>
          (\<forall>b\<in>set batches. 1 \<le> length b \<and> length b \<le> max batch_size 1))"
proof (cases "execute fmt ctx plan")
  case (Inl e)
  then show ?thesis using compile_execute [where fmt = fmt and ctx = ctx and plan = plan and b = batch_size and n = 0] by simp
next
  case (Inr rows)
  obtain m where m: "max batch_size 1 = Suc m" by (metis max.cobounded2 Suc_le_D One_nat_def)
  obtain op where op: "compile ctx plan batch_size = Inr op" "op_ok fmt (Suc m) (length ([] :: metrics)) op" "to_come fmt op = Inr rows"
    using compile_execute [where fmt = fmt and ctx = ctx and plan = plan and b = batch_size and n = 0] Inr m by auto
  obtain batches where b: "delivers fmt (op_depth op) op [] batches" "concat batches = rows"
      "\<forall>b\<in>set batches. b \<noteq> [] \<and> length b \<le> Suc m"
    using delivers_batches [OF order.refl op(2,3)] by blast
  have "\<forall>b\<in>set batches. 1 \<le> length b \<and> length b \<le> max batch_size 1"
    unfolding m using b(3) by (simp add: Suc_le_eq)
  then show ?thesis using run_operator_rows [OF op(2,3)] op(1) b(1,2) Inr by auto
qed

section \<open>Properties of the source executor\<close>

text \<open>
  The reference meaning of a plan over a source: every node maps the rows of its inputs.
\<close>

primrec source_rows :: "debug_fmt \<Rightarrow> source_executor \<Rightarrow> logical_plan \<Rightarrow> qrecord list result" where
  "source_rows fmt se (Scan table flt) = qs_range_scan (se_source se) table flt"
| "source_rows fmt se (VectorSearch query k flt model) = qs_hnsw_search (se_source se) query model k flt"
| "source_rows fmt se (GraphExpand input relation depth) =
     bind_res (source_rows fmt se input)
       (expand_or_seeds depth (\<lambda>seeds. qs_graph_expand (se_source se) seeds relation depth))"
| "source_rows fmt se (Filter input pred) =
     bind_res (source_rows fmt se input) (\<lambda>rows. Inr (filter (\<lambda>r. predicate_matches r pred) rows))"
| "source_rows fmt se (Score input expr) =
     bind_res (source_rows fmt se input) (\<lambda>rows. Inr (score_rows expr rows))"
| "source_rows fmt se (TopK input k by_key) =
     bind_res (source_rows fmt se input) (\<lambda>rows. Inr (take k (sort_rows rows by_key)))"
| "source_rows fmt se (Join left right on) =
     bind_res (source_rows fmt se left) (\<lambda>a.
     bind_res (source_rows fmt se right) (\<lambda>b. Inr (join_rows fmt a b on)))"
| "source_rows fmt se (Aggregate input group_by aggregate) =
     bind_res (source_rows fmt se input) (\<lambda>rows. Inr (aggregate_records fmt rows group_by aggregate))"
| "source_rows fmt se (Project input fs) =
     bind_res (source_rows fmt se input) (\<lambda>rows. Inr (project_records rows fs))"
| "source_rows fmt se (Udf input name args) =
     bind_res (ok_or (udf_unbound name) (btree_get (se_udfs se) name)) (\<lambda>udf.
     bind_res (source_rows fmt se input) (\<lambda>rows. Inr (udf_rows udf args rows)))"

definition source_ok ::
  "debug_fmt \<Rightarrow> nat \<Rightarrow> nat \<Rightarrow> operator result \<Rightarrow> qrecord list result \<Rightarrow> bool" where
  "source_ok fmt bs n c r \<longleftrightarrow>
     (case r of
        Inr rows \<Rightarrow> \<exists>op. c = Inr op \<and> op_ok fmt bs n op \<and> to_come fmt op = Inr rows
      | Inl _ \<Rightarrow> (\<exists>e. c = Inl e) \<or> (\<exists>op e. c = Inr op \<and> op_ok fmt bs n op \<and> to_come fmt op = Inl e))"

lemma source_compile_ok: "source_ok fmt (max b 1) n (source_compile se plan b) (source_rows fmt se plan)"
proof (induction plan arbitrary: b)
  case (Join left right on)
  show ?case
    using Join(1) [of "max b 1"] Join(2) [of "max b 1"]
    by (auto simp: source_ok_def out_ok_def joined_rows_def split: sum.splits)
next
  case (Filter plan pred)
  show ?case
    using Filter [of "max b 1"]
    by (auto simp: source_ok_def  split: sum.splits option.splits)
next
  case (Score plan expr)
  show ?case
    using Score [of "max b 1"]
    by (auto simp: source_ok_def  split: sum.splits option.splits)
next
  case (TopK plan k by_key)
  show ?case
    using TopK [of "max b 1"]
    by (auto simp: source_ok_def out_ok_def blocking_rows_def split: sum.splits option.splits)
next
  case (Aggregate plan group_by aggregate)
  show ?case
    using Aggregate [of "max b 1"]
    by (auto simp: source_ok_def out_ok_def blocking_rows_def split: sum.splits option.splits)
next
  case (Project plan fs)
  show ?case
    using Project [of "max b 1"]
    by (auto simp: source_ok_def  split: sum.splits option.splits)
next
  case (GraphExpand input relation depth)
  show ?case
    using GraphExpand [of "max b 1"]
    by (auto simp: source_ok_def out_ok_def blocking_rows_def split: sum.splits option.splits)
next
  case (Udf plan name args)
  show ?case
    using Udf [of "max b 1"]
    by (auto simp: source_ok_def ok_or_def split: sum.splits option.splits)
qed (auto simp: source_ok_def materialized_new_def materialized_rest_def split: sum.splits)

text \<open>
  C23. The source executor implements the reference meaning of plans over any source: when the
  meaning is a list of rows, compilation succeeds and pulling the operator to its end returns
  exactly these rows; when it is an error, compilation or execution reports an error. Either
  way execution ends.
\<close>

theorem source_execution_correct:
  "case source_rows fmt se plan of
     Inr rows \<Rightarrow> \<exists>op. source_compile se plan batch_size = Inr op \<and> run_operator fmt op [] = Some (Inr rows, [])
   | Inl _ \<Rightarrow> (\<exists>e. source_compile se plan batch_size = Inl e) \<or>
       (\<exists>op e ms. source_compile se plan batch_size = Inr op \<and> run_operator fmt op [] = Some (Inl e, ms))"
proof -
  obtain m where m: "max batch_size 1 = Suc m" by (metis max.cobounded2 Suc_le_D One_nat_def)
  have "source_ok fmt (Suc m) (length ([] :: metrics)) (source_compile se plan batch_size) (source_rows fmt se plan)"
    using source_compile_ok [of fmt batch_size 0 se plan] m by simp
  then show ?thesis
    using run_operator_rows [of fmt m "[]"] run_operator_fails [of fmt m "[]"]
    unfolding source_ok_def by (fastforce split: sum.splits)
qed

text \<open>The number of rows of every sub-plan, in preorder.\<close>

primrec plan_counts :: "debug_fmt \<Rightarrow> source_executor \<Rightarrow> logical_plan \<Rightarrow> nat list" where
  "plan_counts fmt se (Scan table flt) = [result_length (source_rows fmt se (Scan table flt))]"
| "plan_counts fmt se (VectorSearch query k flt model) =
     [result_length (source_rows fmt se (VectorSearch query k flt model))]"
| "plan_counts fmt se (GraphExpand input relation depth) =
     result_length (source_rows fmt se (GraphExpand input relation depth)) # plan_counts fmt se input"
| "plan_counts fmt se (Filter input pred) =
     result_length (source_rows fmt se (Filter input pred)) # plan_counts fmt se input"
| "plan_counts fmt se (Score input expr) =
     result_length (source_rows fmt se (Score input expr)) # plan_counts fmt se input"
| "plan_counts fmt se (TopK input k by_key) =
     result_length (source_rows fmt se (TopK input k by_key)) # plan_counts fmt se input"
| "plan_counts fmt se (Join left right on) =
     result_length (source_rows fmt se (Join left right on)) # plan_counts fmt se left @ plan_counts fmt se right"
| "plan_counts fmt se (Aggregate input group_by aggregate) =
     result_length (source_rows fmt se (Aggregate input group_by aggregate)) # plan_counts fmt se input"
| "plan_counts fmt se (Project input fs) =
     result_length (source_rows fmt se (Project input fs)) # plan_counts fmt se input"
| "plan_counts fmt se (Udf input name args) =
     result_length (source_rows fmt se (Udf input name args)) # plan_counts fmt se input"

text \<open>The counters from \<open>lo\<close> on are still to be advanced by \<open>cs\<close>, no other counter is.\<close>

definition counted :: "debug_fmt \<Rightarrow> nat \<Rightarrow> nat list \<Rightarrow> operator \<Rightarrow> bool" where
  "counted fmt lo cs op \<longleftrightarrow>
     (\<forall>k. to_count fmt k op = (if lo \<le> k \<and> k - lo < length cs then cs ! (k - lo) else 0))"

lemma counted_leaf:
  "(\<And>k. to_count fmt k i = 0) \<Longrightarrow> counted fmt lo [result_length (to_come fmt i)] (InstrumentedOperator lo i)"
  by (auto simp: counted_def)

lemma counted_instrumented:
  assumes "\<And>k. to_count fmt k i = to_count fmt k j" and "counted fmt (Suc lo) cs j"
  shows "counted fmt lo (result_length (to_come fmt i) # cs) (InstrumentedOperator lo i)"
  using assms by (auto simp: counted_def nth_Cons' Suc_le_eq less_diff_conv2 diff_Suc split: nat.splits)

lemma counted_join:
  assumes "counted fmt (Suc lo) cs l" and "counted fmt (Suc lo + length cs) ds r"
  shows "counted fmt lo (result_length (to_come fmt (JoinOperator (Some l) (Some r) None on b)) # cs @ ds)
    (InstrumentedOperator lo (JoinOperator (Some l) (Some r) None on b))"
proof -
  have l: "to_count fmt k l = (if Suc lo \<le> k \<and> k - Suc lo < length cs then cs ! (k - Suc lo) else 0)"
      and r: "to_count fmt k r = (if Suc lo + length cs \<le> k \<and> k - (Suc lo + length cs) < length ds
        then ds ! (k - (Suc lo + length cs)) else 0)" for k
    using assms by (auto simp: counted_def)
  have "k = lo \<or> k < lo \<or> (\<exists>j. k = Suc (lo + j))" for k using less_iff_Suc_add [of lo k] by force
  then have "to_count fmt k l + to_count fmt k r =
      (if lo < k \<and> k - Suc lo < length (cs @ ds) then (cs @ ds) ! (k - Suc lo) else 0)" for k
    by (auto simp: l r nth_append Suc_le_eq)
  then show ?thesis
    by (auto simp: counted_def input_count_def nth_Cons' Suc_le_eq)
qed

definition instrumented ::
  "debug_fmt \<Rightarrow> nat \<Rightarrow> metrics \<Rightarrow> nat list \<Rightarrow> compiled \<Rightarrow> qrecord list \<Rightarrow> bool" where
  "instrumented fmt bs ms cs c rows \<longleftrightarrow>
     (\<exists>op. c = (Inr op, ms @ replicate (length cs) 0, length ms + length cs) \<and>
        (\<forall>n. length ms + length cs \<le> n \<longrightarrow> op_ok fmt bs n op) \<and>
        to_come fmt op = Inr rows \<and> counted fmt (length ms) cs op)"

lemma reserve_fresh [simp]: "reserve_metric_id ms (length ms) = (length ms, ms @ [0], Suc (length ms))"
  by (simp add: reserve_metric_id_def)

lemma instrumented_leaf:
  "0 < bs \<Longrightarrow> instrumented fmt bs ms [length rows]
     (Inr (InstrumentedOperator (length ms) (MaterializedOperator (materialized_new rows bs))), ms @ [0], Suc (length ms)) rows"
  using counted_leaf [of fmt "MaterializedOperator (materialized_new rows bs)" "length ms"]
  by (simp add: instrumented_def result_length_def)

text \<open>A node over one instrumented input.\<close>

lemma instrumented_unary:
  assumes "instrumented fmt bs (ms @ [0]) cs c rs"
    and "\<And>i. to_come fmt i = Inr rs \<Longrightarrow> to_come fmt (mk i) = Inr rows"
    and "\<And>i n. op_ok fmt bs n i \<Longrightarrow> op_ok fmt bs n (mk i)"
    and "\<And>i k. to_count fmt k (mk i) = to_count fmt k i"
  shows "instrumented fmt bs ms (length rows # cs) (then_op c (\<lambda>i. InstrumentedOperator (length ms) (mk i))) rows"
proof -
  obtain i where i: "c = (Inr i, (ms @ [0]) @ replicate (length cs) 0, length (ms @ [0]) + length cs)"
      "\<forall>n. length (ms @ [0 :: nat]) + length cs \<le> n \<longrightarrow> op_ok fmt bs n i" "to_come fmt i = Inr rs"
      "counted fmt (Suc (length ms)) cs i"
    using assms(1) by (auto simp: instrumented_def)
  have "counted fmt (length ms) (result_length (to_come fmt (mk i)) # cs) (InstrumentedOperator (length ms) (mk i))"
    by (rule counted_instrumented [OF assms(4) i(4)])
  then show ?thesis
    using i assms(2) [OF i(3)] assms(3) by (auto simp: instrumented_def then_op_def result_length_def)
qed

lemma instrumented_join:
  assumes l: "instrumented fmt bs (ms @ [0]) cs (Inr l, ms1, n1) ls"
    and r: "instrumented fmt bs ms1 ds c rs"
  shows "instrumented fmt bs ms (length (join_rows fmt ls rs on) # cs @ ds)
    (then_op c (\<lambda>r. InstrumentedOperator (length ms) (JoinOperator (Some l) (Some r) None on bs))) (join_rows fmt ls rs on)"
proof -
  have l': "ms1 = (ms @ [0]) @ replicate (length cs) 0" "\<forall>n. Suc (length ms) + length cs \<le> n \<longrightarrow> op_ok fmt bs n l"
      "to_come fmt l = Inr ls" "counted fmt (Suc (length ms)) cs l"
    using l by (auto simp: instrumented_def)
  obtain r' where r': "c = (Inr r', ms1 @ replicate (length ds) 0, length ms1 + length ds)"
      "\<forall>n. length ms1 + length ds \<le> n \<longrightarrow> op_ok fmt bs n r'" "to_come fmt r' = Inr rs" "counted fmt (length ms1) ds r'"
    using r by (auto simp: instrumented_def)
  have "length ms1 = Suc (length ms) + length cs" using l'(1) by simp
  then have "counted fmt (Suc (length ms) + length cs) ds r'" using r'(4) by simp
  from counted_join [OF l'(4) this, of on bs] show ?thesis
    using l' r' by (auto simp: instrumented_def then_op_def result_length_def joined_rows_def out_ok_def replicate_add)
qed

lemma compile_instrumented_ok:
  assumes "0 < bs" and "source_rows fmt se plan = Inr rows"
  shows "instrumented fmt bs ms (plan_counts fmt se plan)
    (compile_instrumented se plan bs ms (length ms)) rows"
  using assms(2)
proof (induction plan arbitrary: ms rows)
  case (Scan table flt)
  then show ?case using instrumented_leaf [OF assms(1)] by (simp add: result_length_def)
next
  case (VectorSearch query k flt model)
  then show ?case using instrumented_leaf [OF assms(1)] by (simp add: result_length_def)
next
  case (Join left right on)
  then obtain ls rs where rows: "source_rows fmt se left = Inr ls" "source_rows fmt se right = Inr rs"
    by (auto simp: bind_res_eq_Inr)
  obtain l ms1 n1 where c: "compile_instrumented se left bs (ms @ [0]) (length (ms @ [0])) = (Inr l, ms1, n1)" "n1 = length ms1"
    using Join.IH(1) [OF rows(1), of "ms @ [0]"] by (auto simp: instrumented_def)
  show ?case
    using instrumented_join [OF Join.IH(1) [OF rows(1), of "ms @ [0]", unfolded c] Join.IH(2) [OF rows(2), of ms1], of on]
      Join.prems rows c by (simp add: result_length_def)
next
  case (Udf input name args)
  then obtain udf rs where rs: "source_rows fmt se input = Inr rs" "btree_get (se_udfs se) name = Some udf"
    by (auto simp: bind_res_eq_Inr ok_or_def split: option.splits)
  show ?case
    using instrumented_unary [OF Udf.IH [OF rs(1), of "ms @ [0]"], of "\<lambda>i. UdfOperator i udf args" rows] Udf.prems rs
    by (simp add: result_length_def)
next
  case (Filter input pred)
  then obtain rs where rs: "source_rows fmt se input = Inr rs" by (auto simp: bind_res_eq_Inr)
  show ?case
    using Filter.prems rs instrumented_unary [OF Filter.IH [OF rs, of "ms @ [0]"]]
    by (auto simp: out_ok_def blocking_rows_def input_count_def result_length_def)
next
  case (Score input expr)
  then obtain rs where rs: "source_rows fmt se input = Inr rs" by (auto simp: bind_res_eq_Inr)
  show ?case
    using Score.prems rs instrumented_unary [OF Score.IH [OF rs, of "ms @ [0]"]]
    by (auto simp: out_ok_def blocking_rows_def input_count_def result_length_def)
next
  case (TopK input k by_key)
  then obtain rs where rs: "source_rows fmt se input = Inr rs" by (auto simp: bind_res_eq_Inr)
  show ?case
    using TopK.prems rs instrumented_unary [OF TopK.IH [OF rs, of "ms @ [0]"]]
    by (auto simp: out_ok_def blocking_rows_def input_count_def result_length_def)
next
  case (Aggregate input group_by aggregate)
  then obtain rs where rs: "source_rows fmt se input = Inr rs" by (auto simp: bind_res_eq_Inr)
  show ?case
    using Aggregate.prems rs instrumented_unary [OF Aggregate.IH [OF rs, of "ms @ [0]"]]
    by (auto simp: out_ok_def blocking_rows_def input_count_def result_length_def)
next
  case (Project input fs)
  then obtain rs where rs: "source_rows fmt se input = Inr rs" by (auto simp: bind_res_eq_Inr)
  show ?case
    using Project.prems rs instrumented_unary [OF Project.IH [OF rs, of "ms @ [0]"]]
    by (auto simp: out_ok_def blocking_rows_def input_count_def result_length_def)
next
  case (GraphExpand input relation depth)
  then obtain rs where rs: "source_rows fmt se input = Inr rs" by (auto simp: bind_res_eq_Inr)
  show ?case
    using GraphExpand.prems rs instrumented_unary [OF GraphExpand.IH [OF rs, of "ms @ [0]"]]
    by (auto simp: out_ok_def blocking_rows_def input_count_def result_length_def)
qed

lemma attach_actuals:
  "actuals (fst (attach_actual_rows t xs c)) =
     map (\<lambda>j. if j < length xs then Some (xs ! j) else None) [c..<c + length (actuals t)] \<and>
   snd (attach_actual_rows t xs c) = c + length (actuals t)"
  "concat (map actuals (fst (attach_children ts xs c))) =
     map (\<lambda>j. if j < length xs then Some (xs ! j) else None) [c..<c + length (concat (map actuals ts))] \<and>
   snd (attach_children ts xs c) = c + length (concat (map actuals ts))"
proof (induction t xs c and ts xs c rule: attach_actual_rows_attach_children.induct)
  case (1 operator est actual children xs c)
  then show ?case by (simp add: case_prod_unfold upt_conv_Cons del: upt_Suc)
next
  case (2 xs c)
  then show ?case by simp
next
  case (3 child children xs c)
  have split: "[c..<c + (a + b)] = [c..<c + a] @ [c + a..<c + a + b]" for a b
    using upt_add_eq_append [of c "c + a" b] by (simp add: add.assoc)
  show ?case
    using 3(1) 3(2) [OF prod.collapse] by (simp add: case_prod_unfold split add.assoc)
qed

lemma shape_size: "length (actuals (fst (explain_shape_with_estimate plan st names))) = length (plan_counts fmt se plan)"
  by (induction plan) (simp_all add: unary_shape_def Let_def case_prod_unfold)

text \<open>
  C26. The row counts that the source executor's explain reports are exact: for a plan whose
  meaning over the source is a list of rows, explain succeeds and returns the plan's
  explain tree with, at every node, the number of rows of that node's sub-plan.
\<close>

theorem source_explain_exact:
  assumes "source_rows fmt se plan = Inr rows"
  shows "\<exists>tree. source_explain fmt se plan st batch_size = Some (Inr tree) \<and>
    actuals tree = map Some (plan_counts fmt se plan)"
proof -
  let ?cs = "plan_counts fmt se plan" and ?shape = "fst (explain_shape_with_estimate plan st True)"
  obtain m where m: "max batch_size 1 = Suc m" by (metis max.cobounded2 Suc_le_D One_nat_def)
  have "instrumented fmt (Suc m) [] ?cs (compile_instrumented se plan (Suc m) [] (length ([] :: metrics))) rows"
    using assms by (intro compile_instrumented_ok) simp_all
  then obtain op where op: "compile_instrumented se plan (Suc m) [] 0 = (Inr op, replicate (length ?cs) 0, length ?cs)"
      "op_ok fmt (Suc m) (length ?cs) op" "to_come fmt op = Inr rows" "counted fmt 0 ?cs op"
    by (auto simp: instrumented_def)
  then obtain ms where ms: "run_operator fmt op (replicate (length ?cs) 0) = Some (Inr rows, ms)"
      "length ms = length ?cs" "\<forall>k. k < length ?cs \<longrightarrow> ms ! k = replicate (length ?cs) 0 ! k + to_count fmt k op"
    using run_operator_rows [of fmt m "replicate (length ?cs) 0" op rows] by auto
  have "ms = ?cs"
    using ms(2,3) op(4) by (intro nth_equalityI) (auto simp: counted_def)
  then have "source_explain fmt se plan st batch_size = Some (Inr (fst (attach_actual_rows ?shape ?cs 0)))"
    unfolding source_explain_def m using op(1) ms(1) by simp
  moreover have "actuals (fst (attach_actual_rows ?shape ?cs 0)) = map Some ?cs"
    using attach_actuals(1) [of ?shape ?cs 0] shape_size [of plan st True fmt se]
    by (intro nth_equalityI) auto
  ultimately show ?thesis by blast
qed

text \<open>The in-memory context as a source; successful plans mean the same over both.\<close>

definition context_source :: "execution_context \<Rightarrow> source_executor" where
  "context_source ctx = \<lparr>se_source =
       \<lparr>qs_range_scan = (\<lambda>table flt. if table = Nodes then Inr (filter (matches_opt flt) (cx_nodes ctx))
           else Inl (scan_error table)),
        qs_hnsw_search = (\<lambda>query model k flt. Inr (vector_search_rows ctx k flt)),
        qs_graph_expand = (\<lambda>seeds relation depth. Inr (graph_expand_rows ctx seeds relation depth))\<rparr>,
     se_udfs = cx_udfs ctx\<rparr>"

lemma context_source_rows: "execute fmt ctx plan = Inr rows \<Longrightarrow> source_rows fmt (context_source ctx) plan = Inr rows"
proof (induction plan arbitrary: rows)
  case (Udf plan name args)
  then show ?case by (auto simp: bind_res_eq_Inr ok_or_def context_source_def split: option.splits)
qed (auto simp: bind_res_eq_Inr context_source_def expand_or_seeds_def split: if_splits)

lemma explain_counts:
  assumes "execute fmt ctx plan = Inr rows"
  shows "\<exists>tree est. explain_with_estimate fmt ctx plan st = Inr (tree, est) \<and>
    actuals tree = map Some (plan_counts fmt (context_source ctx) plan)"
  using assms
proof (induction plan arbitrary: rows)
  case (Scan table flt)
  then show ?case
    using context_source_rows [OF Scan] by (auto simp: actual_node_def result_length_def split: if_splits)
next
  case (VectorSearch query k flt model)
  then show ?case using context_source_rows [OF VectorSearch] by (auto simp: actual_node_def result_length_def)
next
  case (Join left right on)
  then obtain ls rs where "execute fmt ctx left = Inr ls" "execute fmt ctx right = Inr rs" by (auto simp: bind_res_eq_Inr)
  then show ?case
    using Join context_source_rows [OF Join.prems] by (fastforce simp: actual_node_def result_length_def)
next
  case (Filter input pred)
  then obtain rs where "execute fmt ctx input = Inr rs" by (auto simp: bind_res_eq_Inr)
  from Filter.IH [OF this] show ?case
    using Filter.prems context_source_rows [OF Filter.prems]
    by (auto simp: actual_node_def result_length_def simp del: source_rows.simps execute.simps)
next
  case (Score input expr)
  then obtain rs where "execute fmt ctx input = Inr rs" by (auto simp: bind_res_eq_Inr)
  from Score.IH [OF this] show ?case
    using Score.prems context_source_rows [OF Score.prems]
    by (auto simp: actual_node_def result_length_def simp del: source_rows.simps execute.simps)
next
  case (TopK input k by_key)
  then obtain rs where "execute fmt ctx input = Inr rs" by (auto simp: bind_res_eq_Inr)
  from TopK.IH [OF this] show ?case
    using TopK.prems context_source_rows [OF TopK.prems]
    by (auto simp: actual_node_def result_length_def simp del: source_rows.simps execute.simps)
next
  case (Aggregate input group_by aggregate)
  then obtain rs where "execute fmt ctx input = Inr rs" by (auto simp: bind_res_eq_Inr)
  from Aggregate.IH [OF this] show ?case
    using Aggregate.prems context_source_rows [OF Aggregate.prems]
    by (auto simp: actual_node_def result_length_def simp del: source_rows.simps execute.simps)
next
  case (Project input fs)
  then obtain rs where "execute fmt ctx input = Inr rs" by (auto simp: bind_res_eq_Inr)
  from Project.IH [OF this] show ?case
    using Project.prems context_source_rows [OF Project.prems]
    by (auto simp: actual_node_def result_length_def simp del: source_rows.simps execute.simps)
next
  case (GraphExpand input relation depth)
  then obtain rs where "execute fmt ctx input = Inr rs" by (auto simp: bind_res_eq_Inr)
  from GraphExpand.IH [OF this] show ?case
    using GraphExpand.prems context_source_rows [OF GraphExpand.prems]
    by (auto simp: actual_node_def result_length_def simp del: source_rows.simps execute.simps)
next
  case (Udf input name args)
  then obtain rs where "execute fmt ctx input = Inr rs" by (auto simp: bind_res_eq_Inr)
  from Udf.IH [OF this] show ?case
    using Udf.prems context_source_rows [OF Udf.prems]
    by (auto simp: actual_node_def result_length_def simp del: source_rows.simps execute.simps)
qed

text \<open>
  Explain of the in-memory executor is exact as well: a plan that executes is explained,
  and every node of the tree carries the number of rows that its sub-plan yields.
\<close>

theorem explain_exact:
  assumes "execute fmt ctx plan = Inr rows"
  shows "\<exists>tree. explain fmt ctx plan st = Inr tree \<and>
    actuals tree = map Some (plan_counts fmt (context_source ctx) plan)"
  using explain_counts [OF assms, of st] by (auto simp: explain_def)

section \<open>Witnesses\<close>

definition sample_plan :: logical_plan where
  "sample_plan = TopK (GraphExpand (Filter (Scan Nodes None) (PEq FTenant (LU32 1))) None 1) 2 CreatedAtDesc"

lemma sample_plan_rows: "\<exists>rows. execute sample_fmt sample_ctx sample_plan = Inr rows"
  by (simp add: sample_plan_def)

theorem batch_execution_correct_witness:
  "\<exists>op rows. compile sample_ctx sample_plan 2 = Inr op \<and>
     execute sample_fmt sample_ctx sample_plan = Inr rows \<and> run_operator sample_fmt op [] = Some (Inr rows, [])"
proof -
  obtain rows where rows: "execute sample_fmt sample_ctx sample_plan = Inr rows" using sample_plan_rows by blast
  then show ?thesis
    using batch_execution_correct [where fmt = sample_fmt and ctx = sample_ctx and plan = sample_plan and batch_size = 2]
    by auto
qed

theorem source_explain_exact_witness:
  "\<exists>tree. source_explain sample_fmt (context_source sample_ctx) sample_plan query_stats_default 1 = Some (Inr tree) \<and>
     length (actuals tree) = 4"
proof -
  obtain rows where "execute sample_fmt sample_ctx sample_plan = Inr rows" using sample_plan_rows by blast
  from source_explain_exact [OF context_source_rows [OF this], of query_stats_default 1] show ?thesis
    by (auto simp: sample_plan_def)
qed

theorem explain_exact_witness:
  "\<exists>tree. explain sample_fmt sample_ctx sample_plan query_stats_default = Inr tree \<and> length (actuals tree) = 4"
proof -
  obtain rows where "execute sample_fmt sample_ctx sample_plan = Inr rows" using sample_plan_rows by blast
  from explain_exact [OF this, of query_stats_default] show ?thesis by (auto simp: sample_plan_def)
qed

end
