(* ===== verification/Query_Optimizer.thy ===== *)
theory Query_Optimizer
  imports Query_Exec Query_Explain
begin

text \<open>
  The optimizer of \<^verbatim>\<open>mmdb-query\<close> (\<^verbatim>\<open>crates/mmdb-query/src/optimizer.rs\<close>): filter pushdown, join
  order enumeration and the reordering of join chains. Its soundness is stated against
  \<^verbatim>\<open>Executor::execute\<close>.
\<close>

section \<open>Join order enumeration\<close>

definition MAX_JOIN_ORDER_LEAVES :: nat where
  "MAX_JOIN_ORDER_LEAVES = 6"

text \<open>The leaves of a join tree over one key; the flag is false when a join uses another key.\<close>

fun collect_same_key_join_leaves ::
  "logical_plan \<Rightarrow> join_key \<Rightarrow> logical_plan list \<Rightarrow> bool \<times> logical_plan list" where
  "collect_same_key_join_leaves (Join left right on) join_key leaves =
     (if on = join_key then
        (case collect_same_key_join_leaves left join_key leaves of (ok, leaves') \<Rightarrow>
           if ok then collect_same_key_join_leaves right join_key leaves' else (False, leaves'))
      else (False, leaves))"
| "collect_same_key_join_leaves other join_key leaves = (True, leaves @ [other])"

definition swap_at :: "nat list \<Rightarrow> nat \<Rightarrow> nat \<Rightarrow> nat list" where
  "swap_at order i j = order[i := order ! j, j := order ! i]"

text \<open>
  \<^verbatim>\<open>permute_join_orders\<close> with the \<open>todo\<close> positions from \<open>start = order.len() - todo\<close> on; the
  slice is swapped in place around the recursive call.
\<close>

primrec permute_join_orders ::
  "nat \<Rightarrow> nat list \<Rightarrow> nat list list \<Rightarrow> nat list \<times> nat list list" where
  "permute_join_orders 0 order out = (order, out @ [order])"
| "permute_join_orders (Suc todo) order out =
     (let start = length order - Suc todo
      in foldl (\<lambda>(order, out) i.
           case permute_join_orders todo (swap_at order start i) out of
             (order', out') \<Rightarrow> (swap_at order' start i, out'))
         (order, out) [start..<length order])"

fun join_cost_rest :: "nat \<Rightarrow> nat option list \<Rightarrow> nat \<Rightarrow> nat" where
  "join_cost_rest current [] cost = cost"
| "join_cost_rest current (None # estimates) cost = usize_max"
| "join_cost_rest current (Some rows # estimates) cost =
     join_cost_rest (min current rows) estimates (saturating_add_usize (saturating_add_usize cost current) rows)"

definition join_order_cost :: "nat option list \<Rightarrow> nat" where
  "join_order_cost estimates =
     (case estimates of Some rows # rest \<Rightarrow> join_cost_rest rows rest 0 | _ \<Rightarrow> usize_max)"

text \<open>Estimates compare as options: none before some.\<close>

definition estimate_key :: "nat option \<Rightarrow> nat" where
  "estimate_key e = (case e of None \<Rightarrow> 0 | Some n \<Rightarrow> Suc n)"

definition candidate_cmp :: "join_order_candidate \<Rightarrow> join_order_candidate \<Rightarrow> ordering" where
  "candidate_cmp l r =
     (case cmp_of (estimated_cost l) (estimated_cost r) of
        Equal \<Rightarrow>
          (case cmp_of (map estimate_key (leaf_estimates l)) (map estimate_key (leaf_estimates r)) of
             Equal \<Rightarrow> cmp_of (leaf_order l) (leaf_order r)
           | c \<Rightarrow> c)
      | c \<Rightarrow> c)"

definition candidate_of :: "nat option list \<Rightarrow> nat list \<Rightarrow> join_order_candidate" where
  "candidate_of estimates order =
     (let leaf_est = map (\<lambda>index. estimates ! index) order
      in \<lparr>leaf_order = order, leaf_estimates = leaf_est, estimated_cost = join_order_cost leaf_est\<rparr>)"

definition join_order_candidates :: "stats \<Rightarrow> logical_plan \<Rightarrow> join_order_candidate list" where
  "join_order_candidates st plan =
     (case plan of
        Join left right on \<Rightarrow>
          (case collect_same_key_join_leaves plan on [] of (ok, leaves) \<Rightarrow>
             if \<not> ok \<or> length leaves < 2 \<or> MAX_JOIN_ORDER_LEAVES < length leaves then []
             else let estimates = map (\<lambda>leaf. estimated_rows_for_plan leaf st) leaves;
                      orders = snd (permute_join_orders (length leaves) [0..<length leaves] [])
                  in sort_by candidate_cmp (map (candidate_of estimates) orders))
      | _ \<Rightarrow> [])"

section \<open>Rewriting\<close>

definition is_safe_scan_join_leaf :: "logical_plan \<Rightarrow> bool" where
  "is_safe_scan_join_leaf plan = (case plan of Scan Nodes _ \<Rightarrow> True | _ \<Rightarrow> False)"

primrec is_score_preserving_join_anchor :: "logical_plan \<Rightarrow> bool" where
  "is_score_preserving_join_anchor (VectorSearch _ _ _ _) = True"
| "is_score_preserving_join_anchor (GraphExpand _ _ _) = True"
| "is_score_preserving_join_anchor (Score _ _) = True"
| "is_score_preserving_join_anchor (Udf _ _ _) = True"
| "is_score_preserving_join_anchor (TopK input _ _) = is_score_preserving_join_anchor input"
| "is_score_preserving_join_anchor (Project input _) = is_score_preserving_join_anchor input"
| "is_score_preserving_join_anchor (Filter input _) = is_score_preserving_join_anchor input"
| "is_score_preserving_join_anchor (Scan _ _) = False"
| "is_score_preserving_join_anchor (Join _ _ _) = False"
| "is_score_preserving_join_anchor (Aggregate _ _ _) = False"

definition build_left_deep_join :: "logical_plan list \<Rightarrow> join_key \<Rightarrow> logical_plan option" where
  "build_left_deep_join leaves on =
     (case leaves of
        first # second # rest \<Rightarrow> Some (foldl (\<lambda>plan leaf. Join plan leaf on) (Join first second on) rest)
      | _ \<Rightarrow> None)"

definition reorder_safe_join_chain :: "stats \<Rightarrow> logical_plan \<Rightarrow> logical_plan" where
  "reorder_safe_join_chain st plan =
     (case plan of
        Join left right on \<Rightarrow>
          if on \<noteq> JoinNodeId then plan
          else (case collect_same_key_join_leaves plan on [] of (ok, leaves) \<Rightarrow>
            if \<not> ok \<or> length leaves < 3 then plan
            else let all_scan_chain = list_all is_safe_scan_join_leaf leaves;
                     fixed_score_anchor_chain =
                       is_score_preserving_join_anchor (hd leaves) \<and> list_all is_safe_scan_join_leaf (tl leaves)
                 in if \<not> all_scan_chain \<and> \<not> fixed_score_anchor_chain then plan
                    else let candidates = join_order_candidates st plan;
                             best = (if all_scan_chain
                                     then (case candidates of [] \<Rightarrow> None | c # _ \<Rightarrow> Some c)
                                     else List.find (\<lambda>c. leaf_order c \<noteq> [] \<and> hd (leaf_order c) = 0) candidates)
                         in case best of
                              None \<Rightarrow> plan
                            | Some c \<Rightarrow>
                                if leaf_order c = [0..<length leaves] then plan
                                else (case build_left_deep_join (map (\<lambda>index. leaves ! index) (leaf_order c)) on of
                                        None \<Rightarrow> plan | Some p \<Rightarrow> p))
      | _ \<Rightarrow> plan)"

subsection \<open>Sizes: rewriting does not grow a plan\<close>

primrec plan_nodes :: "logical_plan \<Rightarrow> nat" where
  "plan_nodes (Scan _ _) = 1"
| "plan_nodes (VectorSearch _ _ _ _) = 1"
| "plan_nodes (GraphExpand p _ _) = Suc (plan_nodes p)"
| "plan_nodes (Filter p _) = Suc (plan_nodes p)"
| "plan_nodes (Score p _) = Suc (plan_nodes p)"
| "plan_nodes (TopK p _ _) = Suc (plan_nodes p)"
| "plan_nodes (Join p q _) = Suc (plan_nodes p + plan_nodes q)"
| "plan_nodes (Aggregate p _ _) = Suc (plan_nodes p)"
| "plan_nodes (Project p _) = Suc (plan_nodes p)"
| "plan_nodes (Udf p _ _) = Suc (plan_nodes p)"

definition leaves_nodes :: "logical_plan list \<Rightarrow> nat" where
  "leaves_nodes leaves = sum_list (map (\<lambda>l. Suc (plan_nodes l)) leaves)"

lemma collect_leaves:
  "collect_same_key_join_leaves p key acc = (True, ls) \<Longrightarrow>
     \<exists>new. ls = acc @ new \<and> new \<noteq> [] \<and> leaves_nodes new = Suc (plan_nodes p)"
proof (induction p key acc arbitrary: ls rule: collect_same_key_join_leaves.induct)
  case (1 left right on key acc)
  obtain ls1 where l: "on = key" "collect_same_key_join_leaves left key acc = (True, ls1)"
      "collect_same_key_join_leaves right key ls1 = (True, ls)"
    using 1(3) by (auto split: if_splits prod.splits)
  from 1(1) [OF l(1,2)] obtain new1 where n1: "ls1 = acc @ new1" "new1 \<noteq> []" "leaves_nodes new1 = Suc (plan_nodes left)"
    by blast
  from 1(2) [OF l(1) l(2) [symmetric] _ l(3)] obtain new2 where
      n2: "ls = ls1 @ new2" "leaves_nodes new2 = Suc (plan_nodes right)" by auto
  show ?case using n1 n2 by (intro exI [of _ "new1 @ new2"]) (auto simp: leaves_nodes_def)
qed (auto simp: leaves_nodes_def)

lemma build_nodes:
  assumes "build_left_deep_join ls on = Some p"
  shows "Suc (plan_nodes p) = leaves_nodes ls"
proof -
  have fold: "plan_nodes (foldl (\<lambda>plan leaf. Join plan leaf on) p0 rest) = plan_nodes p0 + leaves_nodes rest" for p0 rest
    by (induction rest arbitrary: p0) (auto simp: leaves_nodes_def)
  show ?thesis
    using assms by (auto simp: build_left_deep_join_def fold leaves_nodes_def split: list.splits)
qed

subsection \<open>Enumerated orders are permutations\<close>

primrec perms :: "nat \<Rightarrow> nat list \<Rightarrow> nat list list" where
  "perms 0 order = [order]"
| "perms (Suc todo) order =
     concat (map (\<lambda>i. perms todo (swap_at order (length order - Suc todo) i)) [length order - Suc todo..<length order])"

lemma length_swap_at [simp]: "length (swap_at order i j) = length order"
  by (simp add: swap_at_def)

lemma swap_at_swap_at:
  "i < length order \<Longrightarrow> j < length order \<Longrightarrow> swap_at (swap_at order i j) i j = order"
  by (rule nth_equalityI) (auto simp: swap_at_def nth_list_update)

lemma mset_swap_at:
  "i < length order \<Longrightarrow> j < length order \<Longrightarrow> mset (swap_at order i j) = mset order"
  unfolding swap_at_def by (rule mset_swap)

lemma permute_join_orders_perms:
  "todo \<le> length order \<Longrightarrow> permute_join_orders todo order out = (order, out @ perms todo order)"
proof (induction todo arbitrary: order out)
  case 0
  then show ?case by simp
next
  case (Suc todo)
  let ?s = "length order - Suc todo"
  let ?step = "\<lambda>(order, out) i. case permute_join_orders todo (swap_at order ?s i) out of
      (order', out') \<Rightarrow> (swap_at order' ?s i, out')"
  have "foldl ?step (order, out) is = (order, out @ concat (map (\<lambda>i. perms todo (swap_at order ?s i)) is))"
    if "set is \<subseteq> {?s..<length order}" for out "is"
    using that
  proof (induction "is" arbitrary: out)
    case (Cons i js)
    then have "swap_at (swap_at order ?s i) ?s i = order" using Suc.prems by (intro swap_at_swap_at) auto
    then have "?step (order, out) i = (order, out @ perms todo (swap_at order ?s i))"
      using Suc.IH [of "swap_at order ?s i" out] Suc.prems by simp
    then show ?case using Cons by (simp del: case_prod_conv)
  qed simp
  from this [of "[?s..<length order]" out] show ?case by (simp add: Let_def)
qed

lemma perms_mset: "todo \<le> length order \<Longrightarrow> ys \<in> set (perms todo order) \<Longrightarrow> mset ys = mset order"
proof (induction todo arbitrary: order)
  case 0
  then show ?case by simp
next
  case (Suc todo)
  then obtain i where "length order - Suc todo \<le> i" "i < length order"
      "ys \<in> set (perms todo (swap_at order (length order - Suc todo) i))" by auto
  then show ?case using Suc.IH [of "swap_at order (length order - Suc todo) i"] Suc.prems
    by (simp add: mset_swap_at)
qed

lemma candidates_permute:
  assumes "c \<in> set (join_order_candidates st (Join left right on))"
    and "collect_same_key_join_leaves (Join left right on) on [] = (ok, leaves)"
  shows "mset (leaf_order c) = mset [0..<length leaves]"
proof -
  let ?n = "length leaves"
  have "leaf_order c \<in> set (perms ?n [0..<?n])"
    using assms by (auto simp: join_order_candidates_def permute_join_orders_perms candidate_of_def Let_def
        simp del: collect_same_key_join_leaves.simps split: if_splits)
  then show ?thesis using perms_mset [of ?n "[0..<?n]"] by simp
qed

lemma permuted_leaves:
  assumes "mset order = mset [0..<length leaves]"
  shows "mset (map (\<lambda>i. leaves ! i) order) = mset leaves"
proof -
  have "mset (map (\<lambda>i. leaves ! i) order) = image_mset (\<lambda>i. leaves ! i) (mset [0..<length leaves])"
    by (simp only: mset_map assms)
  also have "\<dots> = mset (map (\<lambda>i. leaves ! i) [0..<length leaves])" by (simp only: mset_map)
  finally show ?thesis by (simp only: map_nth)
qed

text \<open>A reordered chain is the left-deep join of a permutation of its leaves.\<close>

lemma reorder_cases:
  obtains "reorder_safe_join_chain st plan = plan"
  | left right leaves order p where "plan = Join left right JoinNodeId"
      "collect_same_key_join_leaves plan JoinNodeId [] = (True, leaves)" "mset order = mset [0..<length leaves]"
      "build_left_deep_join (map (\<lambda>i. leaves ! i) order) JoinNodeId = Some p"
      "reorder_safe_join_chain st plan = p"
      "list_all is_safe_scan_join_leaf leaves \<or>
       order \<noteq> [] \<and> hd order = 0 \<and> list_all is_safe_scan_join_leaf (tl leaves)"
proof (cases plan)
  case (Join left right on)
  obtain ok leaves where c: "collect_same_key_join_leaves plan on [] = (ok, leaves)" by fastforce
  have perm: "mset (leaf_order c) = mset [0..<length leaves]" if "c \<in> set (join_order_candidates st plan)" for c
    using candidates_permute [of c st left right on ok leaves] that c Join by simp
  have first: "c \<in> set xs" if "(case xs of [] \<Rightarrow> None | c # _ \<Rightarrow> Some c) = Some c" for c and xs :: "join_order_candidate list"
    using that by (cases xs) auto
  have found: "c \<in> set xs \<and> leaf_order c \<noteq> [] \<and> hd (leaf_order c) = 0"
    if "List.find (\<lambda>c. leaf_order c \<noteq> [] \<and> hd (leaf_order c) = 0) xs = Some c" for c xs
    using that by (auto simp: find_Some_iff)
  show ?thesis
  proof (cases "reorder_safe_join_chain st plan = plan")
    case True
    then show ?thesis by (rule that(1))
  next
    case False
    then have on: "on = JoinNodeId" and ok: "ok"
      using c Join by (auto simp: reorder_safe_join_chain_def simp del: collect_same_key_join_leaves.simps split: if_splits)
    let ?all = "list_all is_safe_scan_join_leaf leaves" and ?cs = "join_order_candidates st plan"
    let ?best = "if ?all then (case ?cs of [] \<Rightarrow> None | c # _ \<Rightarrow> Some c)
      else List.find (\<lambda>c. leaf_order c \<noteq> [] \<and> hd (leaf_order c) = 0) ?cs"
    obtain b p where b: "?best = Some b" "build_left_deep_join (map (\<lambda>i. leaves ! i) (leaf_order b)) JoinNodeId = Some p"
        "reorder_safe_join_chain st plan = p" "?all \<or> list_all is_safe_scan_join_leaf (tl leaves)"
      using False c Join on ok
      by (auto simp: reorder_safe_join_chain_def Let_def simp del: collect_same_key_join_leaves.simps
          split: if_splits option.splits)
    have "b \<in> set ?cs" "?all \<or> leaf_order b \<noteq> [] \<and> hd (leaf_order b) = 0"
      using b(1) first found by (auto split: if_splits)
    then show ?thesis
      using that(2) [of left right leaves "leaf_order b" p] Join on ok c b perm by auto
  qed
qed (use that(1) in \<open>auto simp: reorder_safe_join_chain_def\<close>)

lemma leaves_nodes_mset: "mset ls = mset ks \<Longrightarrow> leaves_nodes ls = leaves_nodes ks"
  unfolding leaves_nodes_def by (metis mset_map sum_mset_sum_list)

lemma reorder_nodes: "plan_nodes (reorder_safe_join_chain st plan) = plan_nodes plan"
proof (cases rule: reorder_cases [of st plan])
  case (2 left right leaves order p)
  have "leaves_nodes leaves = Suc (plan_nodes plan)" using collect_leaves [OF 2(2)] by auto
  moreover have "Suc (plan_nodes p) = leaves_nodes (map (\<lambda>i. leaves ! i) order)" by (rule build_nodes [OF 2(4)])
  ultimately show ?thesis using leaves_nodes_mset [OF permuted_leaves [OF 2(3)]] 2(5) by simp
qed simp

subsection \<open>The rewriter\<close>

function (sequential) optimize :: "stats \<Rightarrow> logical_plan \<Rightarrow> logical_plan" where
  "optimize st (Filter input pred) =
     (case optimize st input of
        Scan table flt \<Rightarrow> Scan table (Some (combine_optional_filter flt pred))
      | VectorSearch query k flt model \<Rightarrow> VectorSearch query k (Some (combine_optional_filter flt pred)) model
      | GraphExpand src relation depth \<Rightarrow>
          if f32_le (estimate_selectivity st pred) f32_half
          then GraphExpand (optimize st (Filter src pred)) relation depth
          else Filter (GraphExpand src relation depth) pred
      | other \<Rightarrow> Filter other pred)"
| "optimize st (TopK input k by_key) = TopK (optimize st input) k by_key"
| "optimize st (Score input expr) = Score (optimize st input) expr"
| "optimize st (GraphExpand input relation depth) = GraphExpand (optimize st input) relation depth"
| "optimize st (Join left right on) = reorder_safe_join_chain st (Join (optimize st left) (optimize st right) on)"
| "optimize st (Aggregate input group_by aggregate) = Aggregate (optimize st input) group_by aggregate"
| "optimize st (Project input fs) = Project (optimize st input) fs"
| "optimize st (Udf input name args) = Udf (optimize st input) name args"
| "optimize st leaf = leaf"
  by pat_completeness auto


lemma optimize_nodes_dom: "optimize_dom (st, p) \<Longrightarrow> plan_nodes (optimize st p) \<le> plan_nodes p"
proof (induction st p rule: optimize.pinduct)
  case (1 st input pred)
  show ?case
    using 1 by (auto simp: optimize.psimps split: logical_plan.splits)
qed (auto simp: optimize.psimps reorder_nodes)

termination optimize
proof (relation "measure (\<lambda>(st, p). plan_nodes p)", goal_cases)
  case (3 st input pred src relation depth)
  then show ?case using optimize_nodes_dom [of st input] by simp
qed auto

section \<open>Lemmas: join chains\<close>

definition ids_of :: "debug_fmt \<Rightarrow> execution_context \<Rightarrow> logical_plan \<Rightarrow> string set" where
  "ids_of fmt ctx l = (case execute fmt ctx l of Inl _ \<Rightarrow> {} | Inr rows \<Rightarrow> r_node_id ` set rows)"

text \<open>The rows of the first leaf whose identifiers occur in every other leaf.\<close>

definition chain :: "debug_fmt \<Rightarrow> execution_context \<Rightarrow> logical_plan list \<Rightarrow> qrecord list result" where
  "chain fmt ctx ls =
     bind_res (execute fmt ctx (hd ls)) (\<lambda>rows.
       Inr (filter (\<lambda>r. \<forall>l\<in>set (tl ls). r_node_id r \<in> ids_of fmt ctx l) rows))"

lemma join_rows_node_id:
  "join_rows fmt a b JoinNodeId = filter (\<lambda>r. r_node_id r \<in> r_node_id ` set b) a"
  by (auto simp: join_rows_def join_value_def in_set_map_filter image_iff intro!: filter_cong)
    (metis)+

lemma safe_scan: "is_safe_scan_join_leaf l \<longleftrightarrow> (\<exists>flt. l = Scan Nodes flt)"
  by (auto simp: is_safe_scan_join_leaf_def split: logical_plan.splits table_id.splits)

lemma chain_ids:
  assumes "ls \<noteq> []" and "\<forall>l\<in>set ls. is_safe_scan_join_leaf l"
  shows "\<exists>rows. chain fmt ctx ls = Inr rows \<and> r_node_id ` set rows = (\<Inter>l\<in>set ls. ids_of fmt ctx l)"
proof -
  obtain l ls' where ls: "ls = l # ls'" using assms by (cases ls) auto
  then obtain rows where rows: "execute fmt ctx l = Inr rows" using assms by (auto simp: safe_scan)
  then show ?thesis by (auto simp: chain_def ls ids_of_def)
qed

lemma execute_collect:
  assumes "collect_same_key_join_leaves p JoinNodeId acc = (True, acc @ new)"
    and "\<forall>l\<in>set (tl new). is_safe_scan_join_leaf l"
  shows "execute fmt ctx p = chain fmt ctx new"
  using assms
proof (induction p "JoinNodeId" acc arbitrary: new rule: collect_same_key_join_leaves.induct)
  case (1 left right on acc)
  obtain ls1 where l: "on = JoinNodeId" "collect_same_key_join_leaves left JoinNodeId acc = (True, ls1)"
      "collect_same_key_join_leaves right JoinNodeId ls1 = (True, acc @ new)"
    using 1(3) by (auto split: if_splits prod.splits)
  obtain n1 where n1: "ls1 = acc @ n1" "n1 \<noteq> []" using collect_leaves [OF l(2)] by blast
  obtain n2 where "acc @ new = ls1 @ n2" and n2: "n2 \<noteq> []" using collect_leaves [OF l(3)] by blast
  then have new: "new = n1 @ n2" using n1 by simp
  have safe: "\<forall>l\<in>set (tl n1). is_safe_scan_join_leaf l" "\<forall>l\<in>set n2. is_safe_scan_join_leaf l"
    using 1(4) n1(2) by (auto simp: new)
  have left: "execute fmt ctx left = chain fmt ctx n1"
    using 1(1) [OF l(1), of n1] l(2) n1(1) safe(1) by simp
  have right: "execute fmt ctx right = chain fmt ctx n2"
    using 1(2) [OF l(1) l(2) [symmetric] _, of n2] l(3) n1(1) new safe(2) n2 by (cases n2) auto
  obtain rows where rows: "chain fmt ctx n2 = Inr rows" "r_node_id ` set rows = (\<Inter>l\<in>set n2. ids_of fmt ctx l)"
    using chain_ids [OF n2 safe(2), of fmt ctx] by (elim exE conjE)
  have hd: "hd new = hd n1" "set (tl new) = set (tl n1) \<union> set n2" using n1(2) by (auto simp: new)
  have "execute fmt ctx (Join left right on) =
      bind_res (chain fmt ctx n1) (\<lambda>a. Inr (filter (\<lambda>r. r_node_id r \<in> (\<Inter>l\<in>set n2. ids_of fmt ctx l)) a))"
    by (simp only: execute.simps l(1) left right rows(1) bind_res_simps join_rows_node_id rows(2))
  also have "\<dots> = chain fmt ctx new"
    by (cases "execute fmt ctx (hd n1)") (simp_all add: chain_def hd ball_Un conj_commute)
  finally show ?case .
qed (auto simp: chain_def bind_res_def split: sum.splits)

lemma execute_build:
  assumes "build_left_deep_join ls JoinNodeId = Some p" and "\<forall>l\<in>set (tl ls). is_safe_scan_join_leaf l"
  shows "execute fmt ctx p = chain fmt ctx ls"
proof -
  obtain a b rest where ls: "ls = a # b # rest" "p = foldl (\<lambda>plan leaf. Join plan leaf JoinNodeId) (Join a b JoinNodeId) rest"
    using assms(1) by (auto simp: build_left_deep_join_def split: list.splits)
  have step: "execute fmt ctx (Join q l JoinNodeId) =
      bind_res (execute fmt ctx q) (\<lambda>rows. Inr (filter (\<lambda>r. r_node_id r \<in> ids_of fmt ctx l) rows))"
    if "is_safe_scan_join_leaf l" for q l
    using that by (auto simp: safe_scan join_rows_node_id ids_of_def bind_res_def split: sum.splits)
  have "execute fmt ctx (foldl (\<lambda>plan leaf. Join plan leaf JoinNodeId) q ks) =
      bind_res (execute fmt ctx q) (\<lambda>rows. Inr (filter (\<lambda>r. \<forall>l\<in>set ks. r_node_id r \<in> ids_of fmt ctx l) rows))"
    if "\<forall>l\<in>set ks. is_safe_scan_join_leaf l" for q ks
    using that
  proof (induction ks arbitrary: q)
    case Nil
    then show ?case by (simp add: bind_res_def split: sum.splits)
  next
    case (Cons k ks)
    then show ?case
      by (simp del: execute.simps add: step) (auto simp: bind_res_def conj_commute split: sum.splits)
  qed
  from this [of "b # rest" a] show ?thesis using assms(2) by (simp add: ls chain_def)
qed

section \<open>Lemmas: reordering preserves results\<close>

definition distinct_ids :: "execution_context \<Rightarrow> bool" where
  "distinct_ids ctx = distinct (map r_node_id (cx_nodes ctx))"

primrec scan_filter :: "logical_plan \<Rightarrow> predicate option" where
  "scan_filter (Scan table flt) = flt"
| "scan_filter (VectorSearch _ _ _ _) = None"
| "scan_filter (GraphExpand _ _ _) = None"
| "scan_filter (Filter _ _) = None"
| "scan_filter (Score _ _) = None"
| "scan_filter (TopK _ _ _) = None"
| "scan_filter (Join _ _ _) = None"
| "scan_filter (Aggregate _ _ _) = None"
| "scan_filter (Project _ _) = None"
| "scan_filter (Udf _ _ _) = None"

lemma scan_ids:
  assumes "distinct_ids ctx" and "is_safe_scan_join_leaf l" and "r \<in> set (cx_nodes ctx)"
  shows "r_node_id r \<in> ids_of fmt ctx l \<longleftrightarrow> matches_opt (scan_filter l) r"
  using assms by (auto simp: safe_scan ids_of_def distinct_ids_def distinct_map dest: inj_onD)

lemma chain_scans:
  assumes "distinct_ids ctx" and "\<forall>l\<in>set ls. is_safe_scan_join_leaf l" and "ls \<noteq> []"
  shows "chain fmt ctx ls = Inr (filter (\<lambda>r. \<forall>l\<in>set ls. matches_opt (scan_filter l) r) (cx_nodes ctx))"
proof -
  obtain l ls' where ls: "ls = l # ls'" using assms by (cases ls) auto
  then obtain flt where l: "l = Scan Nodes flt" using assms by (auto simp: safe_scan)
  show ?thesis
    using assms by (auto simp: ls l chain_def scan_ids intro!: filter_cong)
qed

lemma reorder_execute:
  assumes "distinct_ids ctx"
  shows "execute fmt ctx (reorder_safe_join_chain st plan) = execute fmt ctx plan"
proof (cases rule: reorder_cases [of st plan])
  case (2 left right leaves order p)
  let ?ls = "map (\<lambda>i. leaves ! i) order"
  have ne: "leaves \<noteq> []" using collect_leaves [OF 2(2)] by auto
  have perm: "mset ?ls = mset leaves" by (rule permuted_leaves [OF 2(3)])
  then have set: "set ?ls = set leaves" by (metis set_mset_mset)
  have ne': "?ls \<noteq> []" using perm ne by (metis mset_zero_iff)
  have tl: "\<forall>l\<in>set (tl xs). Q l" if "\<forall>l\<in>set xs. Q l" for xs :: "logical_plan list" and Q
    using that by (cases xs) auto
  have plan: "execute fmt ctx plan = chain fmt ctx leaves" if "\<forall>l\<in>set (tl leaves). is_safe_scan_join_leaf l"
    using execute_collect [of plan "[]" leaves] 2(2) that by simp
  from 2(6) show ?thesis
  proof
    assume "list_all is_safe_scan_join_leaf leaves"
    then have safe: "\<forall>l\<in>set leaves. is_safe_scan_join_leaf l" by (simp add: list_all_iff)
    then have "\<forall>l\<in>set (tl ?ls). is_safe_scan_join_leaf l" using tl [of ?ls is_safe_scan_join_leaf] set by auto
    then have "execute fmt ctx p = chain fmt ctx ?ls" by (rule execute_build [OF 2(4)])
    also have "\<dots> = chain fmt ctx leaves"
      unfolding chain_scans [OF assms safe ne] chain_scans [OF assms safe [folded set] ne'] set ..
    finally show ?thesis using plan [OF tl [OF safe]] 2(5) by simp
  next
    assume anchor: "order \<noteq> [] \<and> hd order = 0 \<and> list_all is_safe_scan_join_leaf (tl leaves)"
    then have "hd ?ls = leaves ! hd order" by (simp add: hd_map)
    then have hd: "hd ?ls = hd leaves" using anchor ne by (simp add: hd_conv_nth [OF ne])
    have "mset (tl ?ls) = mset (tl leaves)" 
      by (metis perm hd list.collapse [OF ne] list.collapse [OF ne'] mset.simps(2) add_mset_add_mset_same_iff)
    then have tls: "set (tl ?ls) = set (tl leaves)" by (metis set_mset_mset)
    have safe: "\<forall>l\<in>set (tl leaves). is_safe_scan_join_leaf l" using anchor by (simp add: list_all_iff)
    then have "execute fmt ctx p = chain fmt ctx ?ls" using execute_build [OF 2(4)] tls by simp
    then show ?thesis using plan [OF safe] 2(5) hd tls by (simp add: chain_def)
  qed
qed simp

section \<open>Soundness of the optimizer\<close>

text \<open>
  Filters that sit directly above a scan, or above anything but a vector search or a graph
  expansion, can be moved without changing the result.
\<close>

fun below_filters :: "logical_plan \<Rightarrow> logical_plan" where
  "below_filters (Filter input _) = below_filters input"
| "below_filters other = other"

definition pushes_into_search :: "logical_plan \<Rightarrow> bool" where
  "pushes_into_search p =
     (case p of VectorSearch _ _ _ _ \<Rightarrow> True | GraphExpand _ _ _ \<Rightarrow> True | _ \<Rightarrow> False)"

primrec pushdown_safe :: "logical_plan \<Rightarrow> bool" where
  "pushdown_safe (Scan _ _) = True"
| "pushdown_safe (VectorSearch _ _ _ _) = True"
| "pushdown_safe (GraphExpand p _ _) = pushdown_safe p"
| "pushdown_safe (Filter p _) = (pushdown_safe p \<and> \<not> pushes_into_search (below_filters p))"
| "pushdown_safe (Score p _) = pushdown_safe p"
| "pushdown_safe (TopK p _ _) = pushdown_safe p"
| "pushdown_safe (Join p q _) = (pushdown_safe p \<and> pushdown_safe q)"
| "pushdown_safe (Aggregate p _ _) = pushdown_safe p"
| "pushdown_safe (Project p _) = pushdown_safe p"
| "pushdown_safe (Udf p _ _) = pushdown_safe p"

lemma reorder_is_join: "\<exists>l r on'. reorder_safe_join_chain st (Join left right on) = Join l r on'"
proof (cases rule: reorder_cases [of st "Join left right on"])
  case (2 l r leaves order p)
  have "\<exists>a b. foldl (\<lambda>plan leaf. Join plan leaf JoinNodeId) (Join x y JoinNodeId) rest = Join a b JoinNodeId" for x y rest
    by (induction rest arbitrary: x y) auto
  moreover obtain x y rest where "p = foldl (\<lambda>plan leaf. Join plan leaf JoinNodeId) (Join x y JoinNodeId) rest"
    using 2(4) by (auto simp: build_left_deep_join_def split: list.splits)
  ultimately show ?thesis using 2(5) by metis
qed auto

lemma optimize_search: "pushes_into_search (optimize st p) \<Longrightarrow> pushes_into_search (below_filters p)"
proof (induction p)
  case (Filter p pred)
  then show ?case by (auto simp: pushes_into_search_def split: logical_plan.splits if_splits)
next
  case (Join l r on)
  then show ?case
    using reorder_is_join [of st "optimize st l" "optimize st r" on] by (auto simp: pushes_into_search_def)
qed (auto simp: pushes_into_search_def)

lemma filter_scan:
  "execute fmt ctx (Scan table (Some (combine_optional_filter flt pred))) =
     execute fmt ctx (Filter (Scan table flt) pred)"
  by (auto simp: matches_opt_def [of "Some _"] intro!: filter_cong)

text \<open>
  C16. The optimizer preserves results: on a context whose node identifiers are distinct,
  executing the optimized plan gives the same rows in the same order, or the same error, as
  executing the plan itself, for every plan in which no filter sits directly above a vector
  search or a graph expansion. This covers filter pushdown into scans and the cost-based
  reordering of join chains, for any statistics.
\<close>

theorem optimize_preserves_results:
  assumes "distinct_ids ctx" and "pushdown_safe plan"
  shows "execute fmt ctx (optimize st plan) = execute fmt ctx plan"
  using assms(2)
proof (induction plan)
  case (Filter p pred)
  then have IH: "execute fmt ctx (optimize st p) = execute fmt ctx p" by simp
  have no: "\<not> pushes_into_search (optimize st p)" using Filter.prems optimize_search by auto
  have filt: "execute fmt ctx (Filter (optimize st p) pred) = execute fmt ctx (Filter p pred)"
    by (simp only: execute.simps IH)
  have "execute fmt ctx (optimize st (Filter p pred)) = execute fmt ctx (Filter (optimize st p) pred)"
    using no
    by (cases "optimize st p")
      (simp_all add: pushes_into_search_def filter_scan del: execute.simps)
  then show ?case using filt by (rule trans)
next
  case (Join l r on)
  then show ?case by (simp add: reorder_execute [OF assms(1)])
qed auto

text \<open>
  Pushing a filter into a vector search only adds rows: the rows of the original plan,
  which filters the k best nodes, are a prefix of the rows of the optimized plan, which takes
  the k best nodes among those that satisfy the filter.
\<close>

theorem vector_pushdown_prefix:
  assumes "\<forall>r\<in>set (cx_nodes ctx). \<not> f32_is_nan (r_score r)"
  shows "\<exists>rows more. execute fmt ctx (Filter (VectorSearch query k flt model) pred) = Inr rows \<and>
    execute fmt ctx (optimize st (Filter (VectorSearch query k flt model) pred)) = Inr (rows @ more) \<and>
    length (rows @ more) \<le> k"
proof -
  let ?c = "score_desc" and ?p = "\<lambda>r. predicate_matches r pred"
  let ?hits = "filter (matches_opt flt) (cx_nodes ctx)"
  have pre: "cmp_preorder (set (cx_nodes ctx)) ?c" by (rule cmp_preorder_score_desc [OF assms])
  let ?sorted = "sort_by ?c ?hits"
  let ?rows = "filter ?p (take k ?sorted)"
  have "filter (matches_opt (Some (combine_optional_filter flt pred))) (cx_nodes ctx) = filter ?p ?hits"
    by (auto simp: matches_opt_def [of "Some _"] intro!: filter_cong)
  then have opt: "execute fmt ctx (optimize st (Filter (VectorSearch query k flt model) pred)) = Inr (take k (sort_by ?c (filter ?p ?hits)))"
    by (simp add: vector_search_rows_def)
  have "sort_by ?c (filter ?p ?hits) = filter ?p ?sorted"
    by (rule sort_by_filter [OF pre]) auto
  also have "\<dots> = ?rows @ filter ?p (drop k ?sorted)" by (metis append_take_drop_id filter_append)
  finally have split: "take k (sort_by ?c (filter ?p ?hits)) =
      ?rows @ take (k - length ?rows) (filter ?p (drop k ?sorted))"
    using length_filter_le [of ?p "take k ?sorted"] by (simp del: length_filter_le)
  have "length (take k (sort_by ?c (filter ?p ?hits))) \<le> k" by simp
  moreover have "execute fmt ctx (Filter (VectorSearch query k flt model) pred) = Inr ?rows"
    by (simp add: vector_search_rows_def)
  ultimately show ?thesis using opt unfolding split by blast
qed

section \<open>Join order enumeration is complete and sorted\<close>

lemma distinct_concat_map:
  assumes "distinct is" and "\<And>i. i \<in> set is \<Longrightarrow> distinct (f i)"
    and "\<And>i j x. i \<in> set is \<Longrightarrow> j \<in> set is \<Longrightarrow> x \<in> set (f i) \<Longrightarrow> x \<in> set (f j) \<Longrightarrow> i = j"
  shows "distinct (concat (map f is))"
  using assms
proof (induction "is")
  case (Cons i js)
  have "distinct (concat (map f js))" using Cons.prems by (intro Cons.IH) auto
  moreover have "set (f i) \<inter> set (concat (map f js)) = {}"
    using Cons.prems by (fastforce)
  ultimately show ?case using Cons.prems by simp
qed simp

lemma take_swap_at:
  assumes "s \<le> i" and "i < length order"
  shows "take (Suc s) (swap_at order s i) = take s order @ [order ! i]"
  using assms by (auto simp: swap_at_def take_Suc_conv_app_nth nth_list_update)

lemma perms_complete:
  assumes "todo \<le> length order" and "distinct order"
  shows "distinct (perms todo order) \<and>
    set (perms todo order) =
      {ys. mset ys = mset order \<and> take (length order - todo) ys = take (length order - todo) order}"
  using assms
proof (induction todo arbitrary: order)
  case 0
  have "ys = order" if "mset ys = mset order" "take (length order) ys = order" for ys
    using that by (metis order_refl size_mset take_all)
  then show ?case by auto
next
  case (Suc todo)
  let ?n = "length order" and ?s = "length order - Suc todo"
  have s: "?s < ?n" "?n - todo = Suc ?s" using Suc.prems(1) by auto
  have IH: "distinct (perms todo (swap_at order ?s i))"
      "set (perms todo (swap_at order ?s i)) = {ys. mset ys = mset order \<and> take (Suc ?s) ys = take ?s order @ [order ! i]}"
    if i: "i \<in> set [?s..<?n]" for i
  proof -
    have "mset (swap_at order ?s i) = mset order" using i s by (intro mset_swap_at) auto
    then show "distinct (perms todo (swap_at order ?s i))"
        and "set (perms todo (swap_at order ?s i)) = {ys. mset ys = mset order \<and> take (Suc ?s) ys = take ?s order @ [order ! i]}"
      using Suc.IH [of "swap_at order ?s i"] Suc.prems s take_swap_at [of ?s i order] i
      by (auto dest: mset_eq_imp_distinct_iff)
  qed
  have "distinct (perms (Suc todo) order)"
    unfolding perms.simps
  proof (rule distinct_concat_map)
    fix i j ys
    assume "i \<in> set [?s..<?n]" "j \<in> set [?s..<?n]" and ys: "ys \<in> set (perms todo (swap_at order ?s i))"
      "ys \<in> set (perms todo (swap_at order ?s j))"
    then have "order ! i = order ! j" using IH(2) by fastforce
    then show "i = j" using \<open>i \<in> set [?s..<?n]\<close> \<open>j \<in> set [?s..<?n]\<close> Suc.prems(2) by (simp add: nth_eq_iff_index_eq)
  qed (use IH(1) in auto)
  moreover have "set (perms (Suc todo) order) = {ys. mset ys = mset order \<and> take ?s ys = take ?s order}"
  proof (intro equalityI subsetI)
    fix ys
    assume "ys \<in> set (perms (Suc todo) order)"
    then obtain i where "i \<in> set [?s..<?n]" "ys \<in> set (perms todo (swap_at order ?s i))" by auto
    then have "mset ys = mset order" "take (Suc ?s) ys = take ?s order @ [order ! i]" using IH(2) by auto
    then have "take ?s (take (Suc ?s) ys) = take ?s order" using s by simp
    then show "ys \<in> {ys. mset ys = mset order \<and> take ?s ys = take ?s order}"
      using \<open>mset ys = mset order\<close> by (simp add: min_def)
  next
    fix ys
    assume "ys \<in> {ys. mset ys = mset order \<and> take ?s ys = take ?s order}"
    then have ys: "mset ys = mset order" "take ?s ys = take ?s order" by auto
    then have len: "length ys = ?n" by (metis size_mset)
    have "mset (take ?s ys) + mset (drop ?s ys) = mset (take ?s order) + mset (drop ?s order)"
      using ys(1) by (metis append_take_drop_id mset_append)
    then have "set (drop ?s ys) = set (drop ?s order)" using ys(2) by (metis add_left_cancel set_mset_mset)
    moreover have "ys ! ?s \<in> set (drop ?s ys)" using len s by (auto simp: in_set_conv_nth intro!: exI [of _ 0])
    ultimately obtain j where j: "j < ?n - ?s" "order ! (?s + j) = ys ! ?s" by (auto simp: in_set_conv_nth)
    then have "take (Suc ?s) ys = take ?s order @ [order ! (?s + j)]"
      using ys(2) len s by (simp add: take_Suc_conv_app_nth)
    then show "ys \<in> set (perms (Suc todo) order)"
      using IH(2) [of "?s + j"] ys(1) j(1) by (auto intro!: bexI [of _ "?s + j"])
  qed
  ultimately show ?case by simp
qed

lemma candidate_cmp_preorder: "cmp_preorder A candidate_cmp"
  by (rule cmp_preorder_key [where k = "\<lambda>c. [[estimated_cost c], map estimate_key (leaf_estimates c), leaf_order c]"])
    (auto simp: candidate_cmp_def cmp_of_def)

text \<open>
  C28. Join order enumeration is exhaustive and ordered: for a chain of at most six leaves it
  lists every order of the leaves exactly once, with the cost of that order, cheapest first;
  so the first candidate has the least estimated cost of all orders.
\<close>

theorem join_order_candidates_correct:
  assumes "collect_same_key_join_leaves (Join left right on) on [] = (True, leaves)"
    and "length leaves \<le> MAX_JOIN_ORDER_LEAVES"
  shows "let candidates = join_order_candidates st (Join left right on) in
    distinct (map leaf_order candidates) \<and>
    set (map leaf_order candidates) = {order. mset order = mset [0..<length leaves]} \<and>
    (\<forall>c\<in>set candidates. estimated_cost c =
       join_order_cost (map (\<lambda>i. estimated_rows_for_plan (leaves ! i) st) (leaf_order c))) \<and>
    sorted (map estimated_cost candidates)"
proof -
  let ?n = "length leaves" and ?cs = "join_order_candidates st (Join left right on)"
  let ?est = "map (\<lambda>leaf. estimated_rows_for_plan leaf st) leaves"
  obtain ls1 where "collect_same_key_join_leaves left on [] = (True, ls1)" "collect_same_key_join_leaves right on ls1 = (True, leaves)"
    using assms(1) by (auto split: prod.splits if_splits)
  then obtain n1 n2 where "leaves = n1 @ n2" "n1 \<noteq> []" "n2 \<noteq> []"
    using collect_leaves [of left on "[]" ls1] collect_leaves [of right on ls1 leaves] by auto
  then have "\<not> ?n < 2" by (cases n1; cases n2) auto
  then have cs: "?cs = sort_by candidate_cmp (map (candidate_of ?est) (perms ?n [0..<?n]))"
    using assms by (simp add: join_order_candidates_def permute_join_orders_perms Let_def del: collect_same_key_join_leaves.simps)
  have perms: "distinct (perms ?n [0..<?n])" "set (perms ?n [0..<?n]) = {ys. mset ys = mset [0..<?n]}"
    using perms_complete [of ?n "[0..<?n]"] by auto
  have "mset (map leaf_order ?cs) = image_mset leaf_order (mset ?cs)" by (rule mset_map)
  also have "\<dots> = mset (map leaf_order (map (candidate_of ?est) (perms ?n [0..<?n])))"
    unfolding cs mset_sort_by by (rule mset_map [symmetric])
  also have "map leaf_order (map (candidate_of ?est) (perms ?n [0..<?n])) = perms ?n [0..<?n]"
    by (simp add: candidate_of_def Let_def comp_def)
  finally have orders: "mset (map leaf_order ?cs) = mset (perms ?n [0..<?n])" .
  have "estimated_cost c = join_order_cost (map (\<lambda>i. estimated_rows_for_plan (leaves ! i) st) (leaf_order c))"
    if c: "c \<in> set ?cs" for c
  proof -
    obtain ys where ys: "ys \<in> set (perms ?n [0..<?n])" "c = candidate_of ?est ys" using c unfolding cs by auto
    then have "set ys = {0..<?n}" using perms(2) by (metis mem_Collect_eq set_mset_mset set_upt)
    then have "map ((!) ?est) ys = map (\<lambda>i. estimated_rows_for_plan (leaves ! i) st) ys" by auto
    then have "join_order_cost (map ((!) ?est) ys) =
        join_order_cost (map (\<lambda>i. estimated_rows_for_plan (leaves ! i) st) ys)" by (rule arg_cong)
    then show ?thesis by (simp only: ys(2) candidate_of_def Let_def join_order_candidate.simps)
  qed
  moreover have "sorted_wrt (\<lambda>a b. candidate_cmp a b \<noteq> Greater) ?cs"
    unfolding cs by (rule sort_by_sorted [OF candidate_cmp_preorder]) (rule order.refl)
  then have "sorted (map estimated_cost ?cs)"
    unfolding sorted_map by (rule sorted_wrt_mono_rel [rotated]) (auto simp: candidate_cmp_def cmp_of_def split: if_splits)
  moreover have "distinct (map leaf_order ?cs)" using orders perms(1) by (metis mset_eq_imp_distinct_iff)
  moreover have "set (map leaf_order ?cs) = {ys. mset ys = mset [0..<?n]}"
    using perms(2) mset_eq_setD [OF orders] by simp
  ultimately show ?thesis unfolding Let_def by blast
qed

section \<open>Witnesses\<close>

definition chain_plan :: logical_plan where
  "chain_plan = Join (Join (Scan Nodes None) (Scan Nodes (Some (PEq FTenant (LU32 1)))) JoinNodeId)
     (Filter (Scan Nodes None) (PEq FKind (LNodeKind Fact))) JoinNodeId"

lemma sample_distinct_ids: "distinct_ids sample_ctx"
  by (simp add: distinct_ids_def sample_simps)

theorem optimize_preserves_results_witness:
  "execute sample_fmt sample_ctx (optimize query_stats_default chain_plan) = execute sample_fmt sample_ctx chain_plan"
  by (rule optimize_preserves_results [OF sample_distinct_ids])
    (simp add: chain_plan_def pushes_into_search_def)

theorem vector_pushdown_prefix_witness:
  "\<exists>rows more. execute sample_fmt sample_ctx
       (Filter (VectorSearch (Vector []) 1 None (ModelId ''m'')) (PEq FTenant (LU32 2))) = Inr rows \<and>
     execute sample_fmt sample_ctx (optimize query_stats_default
       (Filter (VectorSearch (Vector []) 1 None (ModelId ''m'')) (PEq FTenant (LU32 2)))) = Inr (rows @ more) \<and>
     length (rows @ more) \<le> 1"
  by (rule vector_pushdown_prefix)
    (auto simp: sample_simps f32_is_nan_def f32_half_def f32_one_def f32_zero_def f32_abs_def f32_neg_def F32_INF_def)

theorem join_order_candidates_correct_witness:
  "sorted (map estimated_cost (join_order_candidates query_stats_default
     (Join (Scan Nodes None) (Scan Nodes (Some (PEq FTenant (LU32 1)))) JoinNodeId)))"
proof -
  have "collect_same_key_join_leaves (Join (Scan Nodes None) (Scan Nodes (Some (PEq FTenant (LU32 1)))) JoinNodeId) JoinNodeId [] =
      (True, [Scan Nodes None, Scan Nodes (Some (PEq FTenant (LU32 1)))])" by simp
  from join_order_candidates_correct [OF this, of query_stats_default] show ?thesis
    by (simp add: Let_def MAX_JOIN_ORDER_LEAVES_def)
qed

end
