(* ===== verification/Std_Text.thy ===== *)
theory Std_Text
  imports Prelude
begin

text \<open>
  String operations of the Rust standard library that the front end and the memory store are
  written with: searching, stripping, splitting and trimming. A string is its UTF-8 byte
  sequence; every pattern the sources search for is ASCII, so a match at a byte is a match at a
  character boundary.
\<close>

section \<open>Searching, stripping and splitting\<close>

fun str_find :: "string \<Rightarrow> string \<Rightarrow> nat option" where
  "str_find [] m = (if m = [] then Some 0 else None)"
| "str_find (c # s) m = (if prefix m (c # s) then Some 0 else map_option Suc (str_find s m))"

definition str_rfind :: "string \<Rightarrow> string \<Rightarrow> nat option" where
  "str_rfind s m = map_option (\<lambda>i. length s - i - length m) (str_find (rev s) (rev m))"

definition str_contains :: "string \<Rightarrow> string \<Rightarrow> bool" where
  "str_contains s m = (str_find s m \<noteq> None)"

definition strip_pre :: "string \<Rightarrow> string \<Rightarrow> string option" where
  "strip_pre m s = (if prefix m s then Some (drop (length m) s) else None)"

definition strip_suf :: "string \<Rightarrow> string \<Rightarrow> string option" where
  "strip_suf m s = (if suffix m s then Some (take (length s - length m) s) else None)"

definition split_once :: "string \<Rightarrow> string \<Rightarrow> (string \<times> string) option" where
  "split_once s m = map_option (\<lambda>i. (take i s, drop (i + length m) s)) (str_find s m)"

text \<open>\<^verbatim>\<open>str::split\<close>; the patterns of the source are not empty.\<close>

function str_split :: "string \<Rightarrow> string \<Rightarrow> string list" where
  "str_split s m =
     (if m = [] then [s]
      else case str_find s m of
             None \<Rightarrow> [s]
           | Some i \<Rightarrow> take i s # str_split (drop (i + length m) s) m)"
  by pat_completeness auto

lemma str_find_bound: "str_find s m = Some i \<Longrightarrow> i + length m \<le> length s"
  by (induction s arbitrary: i) (auto split: if_splits dest: prefix_length_le)

termination str_split
proof (relation "measure (\<lambda>(s, m). length s)")
  fix s m i
  assume "m \<noteq> []" "str_find s m = Some i"
  then have "0 < length m" "i + length m \<le> length s" by (simp_all add: str_find_bound)
  then have "length s - (i + length m) < length s" by linarith
  then show "((drop (i + length m) s, m), s, m) \<in> measure (\<lambda>(s, m). length s)" by simp
qed simp

declare str_split.simps [simp del]

section \<open>White space\<close>

text \<open>
  The bytes of the white space character a string begins with, 0 if it begins with none: the
  six ASCII ones and the UTF-8 encodings of the others that Unicode lists.
\<close>

fun ws_len :: "string \<Rightarrow> nat" where
  "ws_len [] = 0"
| "ws_len (a # s) =
     (if (a \<in> set [CHR 0x09, CHR 0x0A, CHR 0x0B, CHR 0x0C, CHR 0x0D, CHR 0x20]) then 1
      else case s of
             [] \<Rightarrow> 0
           | b # t \<Rightarrow>
               if a = CHR 0xC2 \<and> (b = CHR 0x85 \<or> b = CHR 0xA0) then 2
               else case t of
                      [] \<Rightarrow> 0
                    | c # _ \<Rightarrow>
                        if a = CHR 0xE1 \<and> b = CHR 0x9A \<and> c = CHR 0x80
                          \<or> a = CHR 0xE2 \<and> b = CHR 0x80 \<and>
                              (c \<in> set [CHR 0x80, CHR 0x81, CHR 0x82, CHR 0x83, CHR 0x84, CHR 0x85, CHR 0x86,
                                CHR 0x87, CHR 0x88, CHR 0x89, CHR 0x8A, CHR 0xA8, CHR 0xA9, CHR 0xAF])
                          \<or> a = CHR 0xE2 \<and> b = CHR 0x81 \<and> c = CHR 0x9F
                          \<or> a = CHR 0xE3 \<and> b = CHR 0x80 \<and> c = CHR 0x80
                        then 3 else 0)"

text \<open>The same for the character a string ends with; the argument is the reversed string.\<close>

definition ws_rev_len :: "string \<Rightarrow> nat" where
  "ws_rev_len r =
     (if ws_len (take 1 r) = 1 then 1
      else if ws_len (rev (take 2 r)) = 2 then 2
      else if ws_len (rev (take 3 r)) = 3 then 3
      else 0)"

function trim_start :: "string \<Rightarrow> string" where
  "trim_start s = (if s = [] \<or> ws_len s = 0 then s else trim_start (drop (ws_len s) s))"
  by pat_completeness auto
termination by (relation "measure length") auto

function trim_rev :: "string \<Rightarrow> string" where
  "trim_rev r = (if r = [] \<or> ws_rev_len r = 0 then r else trim_rev (drop (ws_rev_len r) r))"
  by pat_completeness auto
termination by (relation "measure length") auto

declare trim_start.simps [simp del] trim_rev.simps [simp del]

definition trim_end :: "string \<Rightarrow> string" where
  "trim_end s = rev (trim_rev (rev s))"

definition trim :: "string \<Rightarrow> string" where
  "trim s = trim_end (trim_start s)"

text \<open>\<^verbatim>\<open>split_whitespace\<close>: the maximal runs without white space, and \<^verbatim>\<open>join(" ")\<close>.\<close>

definition flush_word :: "string \<Rightarrow> string list \<Rightarrow> string list" where
  "flush_word w ws = (if w = [] then ws else w # ws)"

function split_ws :: "string \<Rightarrow> string \<Rightarrow> string list" where
  "split_ws w [] = flush_word w []"
| "split_ws w (c # s) =
     (if ws_len (c # s) = 0 then split_ws (w @ [c]) s
      else flush_word w (split_ws [] (drop (ws_len (c # s)) (c # s))))"
  by pat_completeness auto
termination by (relation "measure (\<lambda>(w, s). length s)") (auto simp del: ws_len.simps)

fun join_with :: "string \<Rightarrow> string list \<Rightarrow> string" where
  "join_with sep [] = []"
| "join_with sep [w] = w"
| "join_with sep (w # v # ws) = w @ sep @ join_with sep (v # ws)"

definition normalize :: "string \<Rightarrow> string" where
  "normalize s = join_with '' '' (split_ws [] s)"

section \<open>Lemmas: lengths\<close>

lemma length_trim_start: "length (trim_start s) \<le> length s"
proof (induction s rule: trim_start.induct)
  case (1 s)
  show ?case
  proof (cases "s = [] \<or> ws_len s = 0")
    case False
    then have "length (trim_start (drop (ws_len s) s)) \<le> length s" using 1 by (simp add: le_diff_conv)
    then show ?thesis using False by (subst trim_start.simps) simp
  qed (subst trim_start.simps, simp)
qed

lemma length_trim_rev: "length (trim_rev s) \<le> length s"
proof (induction s rule: trim_rev.induct)
  case (1 s)
  show ?case
  proof (cases "s = [] \<or> ws_rev_len s = 0")
    case False
    then have "length (trim_rev (drop (ws_rev_len s) s)) \<le> length s" using 1 by (simp add: le_diff_conv)
    then show ?thesis using False by (subst trim_rev.simps) simp
  qed (subst trim_rev.simps, simp)
qed

lemma length_trim: "length (trim s) \<le> length s"
  unfolding trim_def trim_end_def using length_trim_rev [of "rev (trim_start s)"] length_trim_start [of s] by simp

section \<open>Trimming keeps UTF-8\<close>

lemma utf8_codes_first:
  assumes "utf8_codes (a # xs)"
  obtains cs ys where "xs = cs @ ys" "\<forall>c \<in> set cs. utf8_cont c" "utf8_codes ys"
    "\<And>zs. utf8_codes zs \<Longrightarrow> utf8_codes (a # cs @ zs)"
proof (cases "a < 128")
  case True
  then show ?thesis using assms that [of "[]" xs] by simp
next
  case high: False
  consider "194 \<le> a \<and> a \<le> 223" | "224 \<le> a \<and> a \<le> 239" | "240 \<le> a \<and> a \<le> 244"
    using assms high by (auto split: if_splits)
  then show ?thesis
  proof cases
    case 1
    then obtain b ys where "xs = b # ys" "utf8_cont b" "utf8_codes ys"
      using assms high by (auto split: list.splits)
    then show ?thesis using 1 high that [of "[b]" ys] by simp
  next
    case 2
    then obtain b c ys where *: "xs = b # c # ys" "utf8_cont b" "a = 224 \<longrightarrow> 160 \<le> b" "a = 237 \<longrightarrow> b \<le> 159"
        "utf8_cont c" "utf8_codes ys"
      using assms high by (auto split: list.splits)
    then show ?thesis using 2 high that [of "[b, c]" ys] by simp
  next
    case 3
    then obtain b c d ys where *: "xs = b # c # d # ys" "utf8_cont b" "a = 240 \<longrightarrow> 144 \<le> b" "a = 244 \<longrightarrow> b \<le> 143"
        "utf8_cont c" "utf8_cont d" "utf8_codes ys"
      using assms high by (auto split: list.splits)
    then show ?thesis using 3 high that [of "[b, c, d]" ys] by simp
  qed
qed

lemma utf8_codes_take:
  assumes "utf8_codes (t @ w)" "w = [] \<or> \<not> utf8_cont (hd w)"
  shows "utf8_codes t"
  using assms
proof (induction t rule: length_induct)
  case (1 t)
  show ?case
  proof (cases t)
    case (Cons a x)
    then have "utf8_codes (a # x @ w)" using "1.prems"(1) by simp
    then obtain cs ys where c: "x @ w = cs @ ys" "\<forall>c \<in> set cs. utf8_cont c" "utf8_codes ys"
      "\<And>zs. utf8_codes zs \<Longrightarrow> utf8_codes (a # cs @ zs)" by (rule utf8_codes_first) blast
    from c(1) consider us where "x = cs @ us" "ys = us @ w" | us where "us \<noteq> []" "cs = x @ us" "w = us @ ys"
      unfolding append_eq_append_conv2 by (metis append_Nil2 append_Nil)
    then show ?thesis
    proof cases
      case 1
      then have "utf8_codes us" using "1.IH" "1.prems" c(3) Cons by simp
      then show ?thesis unfolding Cons 1(1) by (rule c(4))
    next
      case 2
      then have "utf8_cont (hd w)" "w \<noteq> []" using c(2) by (cases us; auto)+
      then show ?thesis using "1.prems"(2) by simp
    qed
  qed simp
qed

lemma utf8_valid_codes: "utf8_valid (as_bytes s) \<longleftrightarrow> utf8_codes (map of_char s)"
proof -
  have "map unat (as_bytes s) = map of_char s" by (simp add: as_bytes_def unat_of_char)
  then show ?thesis by (simp add: utf8_valid_def)
qed

lemma ws_len_cases:
  assumes "0 < ws_len s"
  obtains (one) a t where "s = a # t" "of_char a < (128 :: nat)" "ws_len s = 1"
  | (two) a b t where "s = a # b # t" "of_char a = (194 :: nat)" "ws_len s = 2"
  | (three) a b c t where "s = a # b # c # t" "of_char a \<in> {225, 226, 227 :: nat}" "ws_len s = 3"
proof -
  obtain a t where s: "s = a # t" using assms by (cases s) auto
  show ?thesis
  proof (cases "a \<in> set [CHR 0x09, CHR 0x0A, CHR 0x0B, CHR 0x0C, CHR 0x0D, CHR 0x20]")
    case True
    then have "ws_len s = 1" using s by simp
    moreover have "of_char a < (128 :: nat)" using True by auto
    ultimately show ?thesis using one s by blast
  next
    case a: False
    then obtain b u where t: "t = b # u" using assms s by (cases t) auto
    show ?thesis
    proof (cases "a = CHR 0xC2 \<and> (b = CHR 0x85 \<or> b = CHR 0xA0)")
      case True
      then show ?thesis using two [of a b u] s t by auto
    next
      case ab: False
      have l: "ws_len s = (case u of [] \<Rightarrow> 0
                    | c # _ \<Rightarrow>
                        if a = CHR 0xE1 \<and> b = CHR 0x9A \<and> c = CHR 0x80
                          \<or> a = CHR 0xE2 \<and> b = CHR 0x80 \<and>
                              (c \<in> set [CHR 0x80, CHR 0x81, CHR 0x82, CHR 0x83, CHR 0x84, CHR 0x85, CHR 0x86,
                                CHR 0x87, CHR 0x88, CHR 0x89, CHR 0x8A, CHR 0xA8, CHR 0xA9, CHR 0xAF])
                          \<or> a = CHR 0xE2 \<and> b = CHR 0x81 \<and> c = CHR 0x9F
                          \<or> a = CHR 0xE3 \<and> b = CHR 0x80 \<and> c = CHR 0x80
                        then 3 else 0)"
        unfolding s t ws_len.simps list.case using a ab by (simp only: if_False)
      obtain c v where u: "u = c # v" using assms l by (cases u) simp_all
      have "a = CHR 0xE1 \<or> a = CHR 0xE2 \<or> a = CHR 0xE3" "ws_len s = 3"
        using assms l u by (auto split: if_splits)
      moreover from this(1) have "of_char a \<in> {225, 226, 227 :: nat}" by auto
      ultimately show ?thesis using three [of a b c v] s t u by simp
    qed
  qed
qed

declare ws_len.simps [simp del]

lemma utf8_trim_start: "utf8_codes (map of_char s) \<Longrightarrow> utf8_codes (map of_char (trim_start s))"
proof (induction s rule: trim_start.induct)
  case (1 s)
  show ?case
  proof (cases "s = [] \<or> ws_len s = 0")
    case False
    then have "0 < ws_len s" by simp
    then have "utf8_codes (map of_char (drop (ws_len s) s))"
      by (cases rule: ws_len_cases) (use "1.prems" in auto)
    then have "utf8_codes (map of_char (trim_start (drop (ws_len s) s)))" using 1 False by blast
    then show ?thesis using False by (subst trim_start.simps) simp
  qed (use 1 in \<open>subst trim_start.simps, simp\<close>)
qed

text \<open>The last character of a string, when it is white space.\<close>

lemma ws_rev_len_split:
  assumes "0 < ws_rev_len r"
  shows "\<exists>w. r = rev w @ drop (ws_rev_len r) r \<and> 0 < ws_len w"
proof -
  have *: "\<exists>w. r = rev w @ drop n r \<and> 0 < ws_len w" if "ws_len (rev (take n r)) = n" "0 < n" for n
    using that by (intro exI [of _ "rev (take n r)"]) simp
  have "rev (take 1 r) = take 1 r" by (cases r) simp_all
  then show ?thesis using * [of 1] * [of 2] * [of 3] assms by (auto simp: ws_rev_len_def split: if_splits)
qed

lemma utf8_trim_rev: "utf8_codes (map of_char (rev r)) \<Longrightarrow> utf8_codes (map of_char (rev (trim_rev r)))"
proof (induction r rule: trim_rev.induct)
  case (1 r)
  show ?case
  proof (cases "r = [] \<or> ws_rev_len r = 0")
    case False
    then obtain w where w: "r = rev w @ drop (ws_rev_len r) r" "0 < ws_len w" using ws_rev_len_split by blast
    have "\<not> utf8_cont (of_char (hd w))" "w \<noteq> []"
      using w(2) by (cases rule: ws_len_cases; auto simp: utf8_cont_def)+
    moreover have "rev r = rev (drop (ws_rev_len r) r) @ w" by (subst w(1)) simp
    ultimately have "utf8_codes (map of_char (rev (drop (ws_rev_len r) r)))"
      using "1.prems" utf8_codes_take [of "map of_char (rev (drop (ws_rev_len r) r))" "map of_char w"]
      by (simp add: hd_map)
    then have "utf8_codes (map of_char (rev (trim_rev (drop (ws_rev_len r) r))))" using 1 False by blast
    then show ?thesis using False by (subst trim_rev.simps) simp
  qed (use 1 in \<open>subst trim_rev.simps, simp\<close>)
qed

lemma utf8_trim: "utf8_valid (as_bytes s) \<Longrightarrow> utf8_valid (as_bytes (trim s))"
  unfolding utf8_valid_codes trim_def trim_end_def
  using utf8_trim_rev [of "rev (trim_start s)"] utf8_trim_start by simp

declare ws_len.simps [simp]

end
