(* ===== verification/Mmql_Text.thy ===== *)
theory Mmql_Text
  imports Query_IR Std_Text
begin

text \<open>
  Number parsing of the standard library and the scanning helpers of
  \<^verbatim>\<open>crates/mmdb-mmql/src/util.rs\<close>. The nesting depths, \<^verbatim>\<open>i32\<close> in the source, are unbounded here:
  overflow would take \<open>2 ^ 31\<close> parentheses.
\<close>

section \<open>Reading numbers\<close>

definition is_digit :: "char \<Rightarrow> bool" where
  "is_digit c = (c \<in> set ''0123456789'')"

definition is_alnum :: "char \<Rightarrow> bool" where
  "is_alnum c \<longleftrightarrow> is_digit c \<or> (c \<in> set ''abcdefghijklmnopqrstuvwxyzABCDEFGHIJKLMNOPQRSTUVWXYZ'')"

definition decimal_value :: "string \<Rightarrow> int" where
  "decimal_value s = foldl (\<lambda>v c. 10 * v + (of_char c - 48)) 0 s"

definition parse_digits :: "string \<Rightarrow> int option" where
  "parse_digits s = (if s = [] \<or> \<not> list_all is_digit s then None else Some (decimal_value s))"

text \<open>\<^verbatim>\<open>from_str\<close> of an unsigned integer type with values below the bound: an optional plus sign.\<close>

definition parse_unsigned :: "int \<Rightarrow> string \<Rightarrow> int option" where
  "parse_unsigned bound s =
     (case parse_digits (case s of [] \<Rightarrow> [] | c # cs \<Rightarrow> if c = CHR ''+'' then cs else s) of
        None \<Rightarrow> None
      | Some v \<Rightarrow> if v < bound then Some v else None)"

definition parse_u32 :: "string \<Rightarrow> u32 option" where
  "parse_u32 s = map_option word_of_int (parse_unsigned 0x100000000 s)"

definition parse_usize :: "string \<Rightarrow> nat option" where
  "parse_usize s = map_option nat (parse_unsigned 0x10000000000000000 s)"

definition parse_i64 :: "string \<Rightarrow> i64 option" where
  "parse_i64 s =
     (case s of
        [] \<Rightarrow> None
      | c # cs \<Rightarrow>
          if c = CHR ''-'' then
            (case parse_digits cs of
               None \<Rightarrow> None
             | Some v \<Rightarrow> if v \<le> 0x8000000000000000 then Some (word_of_int (- v)) else None)
          else map_option word_of_int (parse_unsigned 0x8000000000000000 s))"

text \<open>
  \<^verbatim>\<open>f32::from_str\<close>: an optional sign, then a decimal number with an optional fraction and exponent,
  or \<^verbatim>\<open>inf\<close>, \<^verbatim>\<open>infinity\<close> or \<^verbatim>\<open>nan\<close> in any case. A decimal is rounded once, to nearest even.
\<close>

definition parse_exponent :: "string \<Rightarrow> int option" where
  "parse_exponent s =
     (case s of
        [] \<Rightarrow> Some 0
      | e # t \<Rightarrow>
          if e = CHR ''e'' \<or> e = CHR ''E'' then
            (case t of
               [] \<Rightarrow> None
             | c # u \<Rightarrow>
                 if c = CHR ''-'' then map_option uminus (parse_digits u)
                 else if c = CHR ''+'' then parse_digits u
                 else parse_digits t)
          else None)"

definition parse_decimal :: "string \<Rightarrow> (int \<times> int) option" where
  "parse_decimal s =
     (let whole = takeWhile is_digit s; r = dropWhile is_digit s;
          (frac, r') = (case r of
             [] \<Rightarrow> ([], [])
           | c # t \<Rightarrow> if c = CHR ''.'' then (takeWhile is_digit t, dropWhile is_digit t) else ([], r))
      in if whole @ frac = [] then None
         else map_option
                (\<lambda>e. let x = e - int (length frac)
                     in if 0 \<le> x then (decimal_value (whole @ frac) * 10 ^ nat x, 1)
                        else (decimal_value (whole @ frac), 10 ^ nat (- x)))
                (parse_exponent r'))"

definition ascii_lower :: "char \<Rightarrow> char" where
  "ascii_lower c =
     (if (c \<in> set ''ABCDEFGHIJKLMNOPQRSTUVWXYZ'') then char_of (of_char c + 32 :: int) else c)"

definition parse_f32 :: "string \<Rightarrow> f32 option" where
  "parse_f32 s =
     (let (neg, body) = (case s of
             [] \<Rightarrow> (False, [])
           | c # cs \<Rightarrow> if c = CHR ''-'' then (True, cs) else if c = CHR ''+'' then (False, cs) else (False, s))
      in case parse_decimal body of
           Some (n, d) \<Rightarrow> Some (f32_ratio neg (n * 2 ^ 149) d)
         | None \<Rightarrow>
             let low = map ascii_lower body
             in if low = ''inf'' \<or> low = ''infinity'' then Some (f32_mk neg F32_INF)
                else if low = ''nan'' then Some (f32_mk neg (f32_abs f32_nan))
                else None)"

section \<open>Scanning helpers\<close>

abbreviation dquote :: char where
  "dquote \<equiv> CHR 0x22"

text \<open>The quote state and the parenthesis depth after a character.\<close>

definition quote_after :: "bool \<Rightarrow> char \<Rightarrow> bool" where
  "quote_after q c = (if c = dquote then \<not> q else q)"

definition depth_after :: "bool \<Rightarrow> int \<Rightarrow> char \<Rightarrow> int" where
  "depth_after q d c =
     (if c = CHR ''('' \<and> \<not> q then d + 1 else if c = CHR '')'' \<and> \<not> q then d - 1 else d)"

function split_kw :: "string \<Rightarrow> int \<Rightarrow> bool \<Rightarrow> string \<Rightarrow> string \<Rightarrow> string list" where
  "split_kw kw d q cur [] = [trim cur]"
| "split_kw kw d q cur (c # s) =
     (let q' = quote_after q c; d' = depth_after q d c
      in if \<not> q' \<and> d' = 0 \<and> prefix kw (c # s)
         then trim cur # split_kw kw d' q' [] (drop (length kw - 1) s)
         else split_kw kw d' q' (cur @ [c]) s)"
  by pat_completeness auto
termination by (relation "measure (\<lambda>(kw, d, q, cur, s). length s)") auto

definition split_top_level_keyword :: "string \<Rightarrow> string \<Rightarrow> string list" where
  "split_top_level_keyword s keyword = split_kw keyword 0 False [] s"

definition split_once_top_level_keyword :: "string \<Rightarrow> string \<Rightarrow> (string \<times> string) option" where
  "split_once_top_level_keyword s keyword =
     (case split_top_level_keyword s keyword of [a, b] \<Rightarrow> Some (a, b) | _ \<Rightarrow> None)"

fun close_paren_from :: "int \<Rightarrow> bool \<Rightarrow> nat \<Rightarrow> string \<Rightarrow> nat option" where
  "close_paren_from d q absolute [] = None"
| "close_paren_from d q absolute (c # s) =
     (let q' = quote_after q c; d' = depth_after q d c
      in if c = CHR '')'' \<and> \<not> q \<and> d' = 0 then Some absolute
         else if d' < 0 then None
         else close_paren_from d' q' (Suc absolute) s)"

definition matching_close_paren :: "string \<Rightarrow> nat \<Rightarrow> nat option" where
  "matching_close_paren s open = close_paren_from 0 False open (drop open s)"

definition split_digits_unit :: "string \<Rightarrow> (string \<times> string) option" where
  "split_digits_unit s =
     (if list_all is_digit s then None else Some (takeWhile is_digit s, dropWhile is_digit s))"

text \<open>These two count parentheses inside quotes as well.\<close>

fun outer_parens :: "int \<Rightarrow> string \<Rightarrow> bool" where
  "outer_parens d [] = (d = 0)"
| "outer_parens d (c # s) =
     (let d' = depth_after False d c
      in if c = CHR '')'' \<and> d' = 0 \<and> s \<noteq> [] then False
         else if d' < 0 then False
         else outer_parens d' s)"

definition strip_outer_parens :: "string \<Rightarrow> string option" where
  "strip_outer_parens s =
     Option.bind (strip_pre ''('' s) (\<lambda>t.
     Option.bind (strip_suf '')'' t) (\<lambda>inner.
       if outer_parens 0 s then Some (trim inner) else None))"

fun split_top_at :: "int \<Rightarrow> string \<Rightarrow> string \<Rightarrow> char \<Rightarrow> (string \<times> string) option" where
  "split_top_at d pre [] needle = None"
| "split_top_at d pre (c # s) needle =
     (if c \<noteq> CHR ''('' \<and> c \<noteq> CHR '')'' \<and> c = needle \<and> d = 0 then Some (pre, s)
      else split_top_at (depth_after False d c) (pre @ [c]) s needle)"

definition split_once_top_level :: "string \<Rightarrow> char \<Rightarrow> (string \<times> string) option" where
  "split_once_top_level s needle = split_top_at 0 [] s needle"

section \<open>Diagnostics\<close>

type_synonym span = "nat \<times> nat"

record mmql_error =
  err_message :: string
  err_span :: span

definition invalid :: "string \<Rightarrow> error" where
  "invalid msg = InvalidArgument msg"

definition diagnostic :: "string \<Rightarrow> string \<Rightarrow> span \<Rightarrow> mmql_error" where
  "diagnostic input message span = \<lparr>err_message = message, err_span = span\<rparr>"

definition marker_span :: "string \<Rightarrow> string \<Rightarrow> span option" where
  "marker_span input marker = map_option (\<lambda>start. (start, start + length marker)) (str_find input marker)"

definition get_from :: "string \<Rightarrow> nat \<Rightarrow> string option" where
  "get_from s i = (if i \<le> length s then Some (drop i s) else None)"

definition bracketed_span :: "string \<Rightarrow> nat \<Rightarrow> char \<Rightarrow> char \<Rightarrow> span option" where
  "bracketed_span input marker_start open close =
     Option.bind (get_from input marker_start) (\<lambda>rest.
     Option.bind (str_find rest [open]) (\<lambda>open_offset.
       let start = marker_start + open_offset
       in Option.bind (get_from input start) (\<lambda>r.
          map_option (\<lambda>i. (marker_start, start + i + 1)) (str_find r [close]))))"

definition fallback_span :: "string \<Rightarrow> span" where
  "fallback_span input = (0, min (length input) 1)"

definition unwrap_or :: "'a option \<Rightarrow> 'a \<Rightarrow> 'a" where
  "unwrap_or x d = (case x of None \<Rightarrow> d | Some v \<Rightarrow> v)"

section \<open>Lemmas: lengths\<close>

lemma length_split_kw: "p \<in> set (split_kw kw d q cur s) \<Longrightarrow> length p \<le> length cur + length s"
proof (induction kw d q cur s rule: split_kw.induct)
  case (1 kw d q cur)
  then show ?case by (simp add: length_trim)
next
  case (2 kw d q cur c s)
  show ?case
  proof (cases "\<not> quote_after q c \<and> depth_after q d c = 0 \<and> prefix kw (c # s)")
    case True
    then have "p = trim cur \<or> length p \<le> length (drop (length kw - 1) s)"
      using 2(1) [OF refl refl] 2(3) by (auto simp: Let_def)
    then show ?thesis using length_trim [of cur] by auto
  next
    case False
    then show ?thesis using 2(2) [OF refl refl] 2(3) by (auto simp: Let_def)
  qed
qed

lemma length_split_top_level_keyword: "p \<in> set (split_top_level_keyword s kw) \<Longrightarrow> length p \<le> length s"
  using length_split_kw [of p kw 0 False "[]" s] by (simp add: split_top_level_keyword_def)

lemma length_strip_pre: "strip_pre m s = Some t \<Longrightarrow> length t + length m = length s"
  by (auto simp: strip_pre_def prefix_def split: if_splits)

lemma length_strip_suf: "strip_suf m s = Some t \<Longrightarrow> length t + length m = length s"
  by (auto simp: strip_suf_def suffix_def split: if_splits)

lemma length_strip_outer_parens:
  assumes "strip_outer_parens s = Some t"
  shows "length t + 2 \<le> length s"
proof -
  from assms obtain u v where u: "strip_pre ''('' s = Some u" and v: "strip_suf '')'' u = Some v" and t: "t = trim v"
    by (auto simp: strip_outer_parens_def bind_eq_Some_conv split: if_splits)
  show ?thesis using length_strip_pre [OF u] length_strip_suf [OF v] length_trim [of v] t by simp
qed

lemma length_strip_trim:
  "strip_pre m (trim s) = Some r \<Longrightarrow> length r + length m \<le> length s"
  "strip_outer_parens (trim s) = Some t \<Longrightarrow> length t + 2 \<le> length s"
  using length_strip_pre [of m "trim s" r] length_strip_outer_parens [of "trim s" t] length_trim [of s]
  by auto

end
