(* ===== verification/Mmql.thy ===== *)
theory Mmql
  imports Mmql_Text Query_Exec
begin

text \<open>
  The MMQL front end: the query record, its lowering to a logical plan and the resolver
  (\<^verbatim>\<open>crates/mmdb-mmql/src/ast.rs\<close>), and the parser (\<^verbatim>\<open>parser.rs\<close>). An outcome is a parsed value, a
  rejection with its error, or a panic, which the two string slices with unchecked bounds can
  reach. The clock is read once per relative time bound; the parameter gives the reading for
  each of the four markers.
\<close>

section \<open>Queries and lowering\<close>

record graph_seed =
  gs_alias :: string
  gs_filter :: predicate

record graph_clause =
  gc_relation :: string
  gc_depth :: byte
  gc_from :: "graph_seed option"

record udf_clause =
  uc_name :: string

record join_clause =
  jc_alias :: string
  jc_kinds :: "node_kind list"
  jc_right_filter :: predicate
  jc_on :: join_key

record aggregate_clause =
  ac_group_by :: "field_ref list"
  ac_aggregate :: aggregate_expr

record recall_query =
  rq_tenant :: u32
  rq_kinds :: "node_kind list"
  rq_created_at_predicates :: "predicate list"
  rq_metadata_predicates :: "predicate list"
  rq_where_predicate :: "predicate option"
  rq_query :: vector_ref
  rq_model :: string
  rq_topk :: nat
  rq_limit :: nat
  rq_graph :: "graph_clause option"
  rq_udf :: "udf_clause option"
  rq_score :: "score_expr option"
  rq_joins :: "join_clause list"
  rq_aggregate :: "aggregate_clause option"
  rq_return_fields :: "field_ref list"

definition lower_filter :: "recall_query \<Rightarrow> predicate" where
  "lower_filter q =
     (case rq_where_predicate q of
        Some p \<Rightarrow> p
      | None \<Rightarrow> pred_and ([pred_eq FTenant (LU32 (rq_tenant q)), kind_in (rq_kinds q)] @
                 rq_created_at_predicates q @ rq_metadata_predicates q))"

definition tenant_scan :: "u32 \<Rightarrow> predicate \<Rightarrow> logical_plan" where
  "tenant_scan tenant flt = Scan Nodes (Some (pred_and [pred_eq FTenant (LU32 tenant), flt]))"

definition lower_graph :: "recall_query \<Rightarrow> logical_plan \<Rightarrow> logical_plan" where
  "lower_graph q plan =
     (case rq_graph q of
        None \<Rightarrow> plan
      | Some g \<Rightarrow>
          (case gc_from g of
             Some seed \<Rightarrow>
               Join plan (GraphExpand (tenant_scan (rq_tenant q) (gs_filter seed)) (Some (gc_relation g)) (gc_depth g))
                 JoinNodeId
           | None \<Rightarrow> GraphExpand plan (Some (gc_relation g)) (gc_depth g)))"

definition lower_score :: "recall_query \<Rightarrow> logical_plan \<Rightarrow> logical_plan" where
  "lower_score q plan =
     (case rq_udf q of
        Some u \<Rightarrow> Udf plan (uc_name u) [ExprField FScore]
      | None \<Rightarrow> (case rq_score q of Some e \<Rightarrow> Score plan e | None \<Rightarrow> plan))"

definition lower_joins :: "recall_query \<Rightarrow> logical_plan \<Rightarrow> logical_plan" where
  "lower_joins q plan =
     foldl (\<lambda>p j. Join p (tenant_scan (rq_tenant q) (jc_right_filter j)) (jc_on j)) plan (rq_joins q)"

definition lower_output :: "recall_query \<Rightarrow> logical_plan \<Rightarrow> logical_plan" where
  "lower_output q plan =
     (let plan' = (case rq_aggregate q of
            Some a \<Rightarrow> Aggregate plan (ac_group_by a) (ac_aggregate a) | None \<Rightarrow> plan)
      in if rq_return_fields q \<noteq> [] then Project plan' (rq_return_fields q) else plan')"

definition lower :: "recall_query \<Rightarrow> logical_plan" where
  "lower q =
     (let plan = VectorSearch (rq_query q) (rq_topk q) (Some (lower_filter q)) (ModelId (rq_model q));
          plan = lower_graph q plan;
          plan = lower_score q plan;
          plan = TopK plan (rq_limit q) ScoreDesc;
          plan = lower_joins q plan
      in lower_output q plan)"

record resolver =
  rs_models :: "string set"
  rs_udfs :: "string set"

definition resolver_default :: resolver where
  "resolver_default = \<lparr>rs_models = {}, rs_udfs = {}\<rparr>"

definition allow_model :: "resolver \<Rightarrow> string \<Rightarrow> resolver" where
  "allow_model r model = r\<lparr>rs_models := insert model (rs_models r)\<rparr>"

definition allow_udf :: "resolver \<Rightarrow> string \<Rightarrow> resolver" where
  "allow_udf r udf = r\<lparr>rs_udfs := insert udf (rs_udfs r)\<rparr>"

section \<open>Outcomes\<close>

datatype ('e, 'a) outcome = Panicked | Rejected 'e | Parsed 'a

definition out_bind :: "('e, 'a) outcome \<Rightarrow> ('a \<Rightarrow> ('e, 'b) outcome) \<Rightarrow> ('e, 'b) outcome" where
  "out_bind r f = (case r of Panicked \<Rightarrow> Panicked | Rejected e \<Rightarrow> Rejected e | Parsed x \<Rightarrow> f x)"

definition out_ok_or :: "'e \<Rightarrow> 'a option \<Rightarrow> ('e, 'a) outcome" where
  "out_ok_or e x = (case x of None \<Rightarrow> Rejected e | Some v \<Rightarrow> Parsed v)"

fun out_collect :: "('e, 'a) outcome list \<Rightarrow> ('e, 'a list) outcome" where
  "out_collect [] = Parsed []"
| "out_collect (r # rs) = out_bind r (\<lambda>x. out_bind (out_collect rs) (\<lambda>xs. Parsed (x # xs)))"

type_synonym 'a parsed = "(mmql_error, 'a) outcome"

definition resolve :: "resolver \<Rightarrow> recall_query \<Rightarrow> (error, unit) outcome" where
  "resolve r q =
     (if rs_models r \<noteq> {} \<and> rq_model q \<notin> rs_models r
      then Rejected (invalid (''unknown model `'' @ rq_model q @ ''`''))
      else case rq_udf q of
             None \<Rightarrow> Parsed ()
           | Some u \<Rightarrow>
               if rs_udfs r \<noteq> {} \<and> uc_name u \<notin> rs_udfs r
               then Rejected (invalid (''unknown UDF `'' @ uc_name u @ ''`''))
               else Parsed ())"

section \<open>Numbers, words and quoted strings after a marker\<close>

definition slice :: "string \<Rightarrow> nat \<Rightarrow> nat \<Rightarrow> string" where
  "slice s a b = take (b - a) (drop a s)"

definition after :: "string \<Rightarrow> string \<Rightarrow> string option" where
  "after s marker = map_option (\<lambda>i. drop (i + length marker) s) (str_find s marker)"

definition parse_digits_after :: "string \<Rightarrow> string \<Rightarrow> string option" where
  "parse_digits_after s marker =
     Option.bind (after s marker) (\<lambda>rest.
       let ds = takeWhile is_digit rest in if ds = [] then None else Some ds)"

definition parse_u32_after :: "string \<Rightarrow> string \<Rightarrow> u32 option" where
  "parse_u32_after s marker = Option.bind (parse_digits_after s marker) parse_u32"

definition parse_usize_after :: "string \<Rightarrow> string \<Rightarrow> nat option" where
  "parse_usize_after s marker = Option.bind (parse_digits_after s marker) parse_usize"

definition i64_end :: "string \<Rightarrow> nat" where
  "i64_end rest =
     (case rest of
        [] \<Rightarrow> 0
      | c # cs \<Rightarrow> if c = CHR ''-'' then Suc (length (takeWhile is_digit cs)) else length (takeWhile is_digit rest))"

definition parse_i64_after :: "string \<Rightarrow> string \<Rightarrow> (nat \<times> i64) option" where
  "parse_i64_after s marker =
     Option.bind (str_find s marker) (\<lambda>i.
       let start = i + length marker; rest = drop start s; raw = take (i64_end rest) rest
       in if i64_end rest = 0 \<or> trim raw = ''-'' then None
          else map_option (Pair start) (parse_i64 raw))"

definition parse_duration_ms :: "string \<Rightarrow> i64 option" where
  "parse_duration_ms s =
     Option.bind (split_digits_unit s) (\<lambda>(digits, u).
     Option.bind (parse_i64 digits) (\<lambda>n.
       if u = ''ms'' then Some n
       else if u = ''s'' then Some (n * 1000)
       else if u = ''m'' then Some (n * 60 * 1000)
       else if u = ''h'' then Some (n * 60 * 60 * 1000)
       else if u = ''d'' then Some (n * 24 * 60 * 60 * 1000)
       else None))"

definition duration_ms :: "string \<Rightarrow> i64 option" where
  "duration_ms raw = parse_duration_ms raw"

definition parse_created_at_relative_after :: "(string \<Rightarrow> i64) \<Rightarrow> string \<Rightarrow> string \<Rightarrow> (nat \<times> i64) option" where
  "parse_created_at_relative_after clock s marker =
     Option.bind (str_find s marker) (\<lambda>i.
       let start = i + length marker
       in Option.bind (strip_pre ''now() - '' (drop start s)) (\<lambda>duration.
            let raw = takeWhile is_alnum duration
            in if raw = [] then None
               else map_option (\<lambda>d. (start, clock marker - d)) (duration_ms raw)))"

definition parse_created_at_predicates :: "(string \<Rightarrow> i64) \<Rightarrow> string \<Rightarrow> predicate list" where
  "parse_created_at_predicates clock s =
     map snd (sort_by (\<lambda>a b. cmp_of (fst a) (fst b))
       (List.map_filter
          (\<lambda>(marker, op).
             map_option (\<lambda>(pos, v). (pos, op FCreatedAtMs (LI64 v)))
               (case parse_i64_after s marker of
                  Some x \<Rightarrow> Some x
                | None \<Rightarrow> parse_created_at_relative_after clock s marker))
          [(''n.created_at >= '', PGte), (''n.created_at <= '', PLte),
           (''n.created_at > '', PGt), (''n.created_at < '', PLt)]))"

definition parse_string_literal :: "string \<Rightarrow> string option" where
  "parse_string_literal raw = Option.bind (strip_pre [dquote] raw) (strip_suf [dquote])"

definition parse_quoted_after :: "string \<Rightarrow> string \<Rightarrow> string option" where
  "parse_quoted_after s marker =
     Option.bind (after s marker) (\<lambda>rest.
     Option.bind (strip_pre [dquote] rest) (\<lambda>r.
       map_option (\<lambda>i. take i r) (str_find r [dquote])))"

definition parse_word_after :: "string \<Rightarrow> string \<Rightarrow> string option" where
  "parse_word_after s marker =
     Option.bind (after s marker) (\<lambda>rest.
       let w = takeWhile (\<lambda>c. is_alnum c \<or> c = CHR ''_'' \<or> c = CHR ''-'') rest
       in if w = [] then None else Some w)"

section \<open>Where clauses\<close>

definition first_marker :: "string \<Rightarrow> string list \<Rightarrow> nat" where
  "first_marker s markers =
     (case List.map_filter (str_find s) markers of [] \<Rightarrow> length s | i # is \<Rightarrow> foldl min i is)"

text \<open>
  The clause ends before the first marker found from the start of \<^verbatim>\<open> where \<close> on; the slice from the
  end of \<^verbatim>\<open> where \<close> panics when that marker shares the final space.
\<close>

definition where_clause :: "string \<Rightarrow> string option parsed" where
  "where_clause s =
     (case str_find s '' where '' of
        None \<Rightarrow> Parsed None
      | Some where_start \<Rightarrow>
          let stop = where_start + first_marker (drop where_start s)
                [ '' similar to '', '' connected '', '' score by '', '' limit '', '' join '', '' count '', '' return '' ]
          in if where_start + length '' where '' \<le> stop
             then Parsed (Some (trim (slice s (where_start + length '' where '') stop)))
             else Panicked)"

definition metadata_part :: "string \<Rightarrow> predicate option" where
  "metadata_part part =
     Option.bind (strip_pre ''n.'' (trim part)) (\<lambda>rest.
     Option.bind (split_once rest '' = '') (\<lambda>(field, v).
       if (field \<in> set [''tenant'', ''kind'', ''created_at'', ''updated_at'']) then None
       else Option.bind (strip_pre [dquote] v) (\<lambda>v.
            map_option (\<lambda>v. pred_eq (FMetadata field) (LString v)) (strip_suf [dquote] v))))"

definition parse_metadata_predicates :: "string \<Rightarrow> predicate list parsed" where
  "parse_metadata_predicates s =
     out_bind (where_clause s) (\<lambda>w. Parsed (case w of
        None \<Rightarrow> []
      | Some clause \<Rightarrow> List.map_filter metadata_part (str_split clause '' and '')))"

definition uses_boolean_predicate_syntax :: "string \<Rightarrow> bool" where
  "uses_boolean_predicate_syntax clause \<longleftrightarrow>
     str_contains clause '' or '' \<or> prefix ''not '' clause \<or> str_contains clause '' not ''"

definition parse_kind :: "string \<Rightarrow> node_kind option" where
  "parse_kind s =
     (if s = ''Episode'' then Some Episode
      else if s = ''Fact'' then Some Fact
      else if s = ''Entity'' then Some Entity
      else if s = ''Artifact'' then Some Artifact
      else None)"

definition field_ref_from_name :: "string \<Rightarrow> field_ref option" where
  "field_ref_from_name field =
     (if field = ''tenant'' then Some FTenant
      else if field = ''kind'' then Some FKind
      else if field = ''created_at'' then Some FCreatedAtMs
      else if field = ''updated_at'' then Some FUpdatedAtMs
      else if field = ''content'' then Some FContent
      else if field = ''score'' then Some FScore
      else if field = ''node_id'' then Some FNodeId
      else if field \<noteq> [] then Some (FMetadata field)
      else None)"

definition parse_predicate_field :: "string \<Rightarrow> field_ref option" where
  "parse_predicate_field s =
     Option.bind (split_once s ''.'') (\<lambda>(alias, field). field_ref_from_name field)"

primrec parse_predicate_literal :: "field_ref \<Rightarrow> string \<Rightarrow> literal option" where
  "parse_predicate_literal FTenant raw = map_option LU32 (parse_u32 raw)"
| "parse_predicate_literal FKind raw = map_option LNodeKind (parse_kind raw)"
| "parse_predicate_literal FCreatedAtMs raw = map_option LI64 (parse_i64 raw)"
| "parse_predicate_literal FUpdatedAtMs raw = map_option LI64 (parse_i64 raw)"
| "parse_predicate_literal (FMetadata k) raw = map_option LString (parse_string_literal raw)"
| "parse_predicate_literal FNodeId raw = map_option LString (parse_string_literal raw)"
| "parse_predicate_literal FContent raw = map_option LString (parse_string_literal raw)"
| "parse_predicate_literal FScore raw = map_option LF32 (parse_f32 raw)"

definition parse_predicate_in_values :: "field_ref \<Rightarrow> string \<Rightarrow> literal list option" where
  "parse_predicate_in_values field raw =
     Option.bind (strip_pre ''('' raw) (\<lambda>t.
     Option.bind (strip_suf '')'' t) (\<lambda>inner.
       collect_opt (map (\<lambda>part. parse_predicate_literal field (trim part)) (str_split inner '',''))))"

text \<open>The first operator that splits the text decides; a failure after the split is final.\<close>

fun try_operators ::
  "(string \<times> (field_ref \<Rightarrow> literal \<Rightarrow> predicate)) list \<Rightarrow> string \<Rightarrow> predicate option" where
  "try_operators [] s = None"
| "try_operators ((op, build) # ops) s =
     (case split_once_top_level_keyword s op of
        Some (field, raw) \<Rightarrow>
          Option.bind (parse_predicate_field (trim field)) (\<lambda>f.
            map_option (build f) (parse_predicate_literal f (trim raw)))
      | None \<Rightarrow> try_operators ops s)"

definition parse_predicate_comparison :: "string \<Rightarrow> predicate option" where
  "parse_predicate_comparison s =
     (case split_once_top_level_keyword s '' in '' of
        Some (field, raw) \<Rightarrow>
          Option.bind (parse_predicate_field (trim field)) (\<lambda>f.
            map_option (PIn f) (parse_predicate_in_values f (trim raw)))
      | None \<Rightarrow>
          try_operators [('' >= '', PGte), ('' <= '', PLte), ('' > '', PGt), ('' < '', PLt), ('' = '', PEq)] s)"

section \<open>Boolean predicates\<close>

function parse_predicate_expr :: "string \<Rightarrow> predicate option"
  and parse_predicate_or :: "string \<Rightarrow> predicate option"
  and parse_predicate_and :: "string \<Rightarrow> predicate option"
  and parse_predicate_not :: "string \<Rightarrow> predicate option"
  and parse_predicate_primary :: "string \<Rightarrow> predicate option"
where
  "parse_predicate_expr s = parse_predicate_or (trim s)"
| "parse_predicate_or s =
     (let parts = split_top_level_keyword s '' or ''
      in if length parts > 1 then map_option POr (collect_opt (map parse_predicate_and parts))
         else parse_predicate_and s)"
| "parse_predicate_and s =
     (let parts = split_top_level_keyword s '' and ''
      in if length parts > 1 then map_option pred_and (collect_opt (map parse_predicate_not parts))
         else parse_predicate_not s)"
| "parse_predicate_not s =
     (case strip_pre ''not '' (trim s) of
        Some rest \<Rightarrow> map_option PNot (parse_predicate_not rest)
      | None \<Rightarrow> parse_predicate_primary (trim s))"
| "parse_predicate_primary s =
     (case strip_outer_parens (trim s) of
        Some inner \<Rightarrow> parse_predicate_expr inner
      | None \<Rightarrow> parse_predicate_comparison (trim s))"
  by pat_completeness auto

termination
proof (relation "measure (\<lambda>x. case x of
    Inl (Inl s) \<Rightarrow> 8 * length s + 4
  | Inl (Inr s) \<Rightarrow> 8 * length s + 3
  | Inr (Inl s) \<Rightarrow> 8 * length s + 2
  | Inr (Inr (Inl s)) \<Rightarrow> 8 * length s + 1
  | Inr (Inr (Inr s)) \<Rightarrow> 8 * length s)", goal_cases)
  case 1
  then show ?case by simp
qed (auto dest!: length_split_top_level_keyword length_strip_trim
      intro: le_less_trans length_trim simp: less_Suc_eq_le)

declare parse_predicate_expr.simps [simp del] parse_predicate_or.simps [simp del]
  parse_predicate_and.simps [simp del] parse_predicate_not.simps [simp del] parse_predicate_primary.simps [simp del]

definition reject_at :: "string \<Rightarrow> string \<Rightarrow> span option \<Rightarrow> mmql_error" where
  "reject_at input message sp = diagnostic input message (unwrap_or sp (fallback_span input))"

definition parse_where_predicate_expression :: "string \<Rightarrow> string \<Rightarrow> predicate option parsed" where
  "parse_where_predicate_expression input normalized =
     out_bind (where_clause normalized) (\<lambda>w.
       case w of
         None \<Rightarrow> Parsed None
       | Some clause \<Rightarrow>
           if \<not> uses_boolean_predicate_syntax clause then Parsed None
           else out_ok_or
                  (reject_at input ''could not parse boolean where predicate expression'' (marker_span input ''where''))
                  (map_option Some (parse_predicate_expr clause)))"

section \<open>Graph, aggregate and return clauses\<close>

definition parse_graph_seed :: "string \<Rightarrow> graph_seed option" where
  "parse_graph_seed s =
     Option.bind (split_once s '': Node where '') (\<lambda>(alias, rest).
       if trim alias = [] then None
       else map_option (\<lambda>p. \<lparr>gs_alias = trim alias, gs_filter = p\<rparr>) (parse_predicate_expr (trim rest)))"

definition u8_from_usize :: "nat \<Rightarrow> byte option" where
  "u8_from_usize n = (if n < 256 then Some (word_of_nat n) else None)"

definition parse_connected_from_clause :: "string \<Rightarrow> graph_clause option" where
  "parse_connected_from_clause s =
     Option.bind (str_find s ''connected from '') (\<lambda>i.
       let open = i + length ''connected from ''
       in if take 1 (drop open s) \<noteq> ''('' then None
          else Option.bind (matching_close_paren s open) (\<lambda>close.
               Option.bind (parse_graph_seed (slice s (open + 1) close)) (\<lambda>seed.
                 let tail = drop (close + 1) s
                 in Option.bind (parse_word_after tail '' via '') (\<lambda>relation.
                    Option.bind (parse_usize_after tail ''depth '') (\<lambda>depth.
                    Option.bind (u8_from_usize depth) (\<lambda>d.
                      Some \<lparr>gc_relation = relation, gc_depth = d, gc_from = Some seed\<rparr>))))))"

definition parse_connected_clause :: "string \<Rightarrow> graph_clause option" where
  "parse_connected_clause s =
     (case parse_connected_from_clause s of
        Some g \<Rightarrow> Some g
      | None \<Rightarrow>
          Option.bind (parse_word_after s ''connected via '') (\<lambda>relation.
          Option.bind (parse_usize_after s ''depth '') (\<lambda>depth.
          Option.bind (u8_from_usize depth) (\<lambda>d.
            Some \<lparr>gc_relation = relation, gc_depth = d, gc_from = None\<rparr>))))"

definition parse_aggregate_clause :: "string \<Rightarrow> aggregate_clause option" where
  "parse_aggregate_clause s =
     (if str_contains s ''count by kind'' \<or> str_contains s ''count by n.kind''
      then Some \<lparr>ac_group_by = [FKind], ac_aggregate = Count\<rparr> else None)"

definition parse_return_field :: "string \<Rightarrow> field_ref option" where
  "parse_return_field raw =
     (if raw = ''score'' then Some FScore
      else if raw = ''n.id'' \<or> raw = ''n.node_id'' then Some FNodeId
      else Option.bind (strip_pre ''n.'' raw) field_ref_from_name)"

definition parse_return_clause_diagnostic :: "string \<Rightarrow> string \<Rightarrow> field_ref list parsed" where
  "parse_return_clause_diagnostic input normalized =
     (case after normalized '' return '' of
        None \<Rightarrow> Parsed []
      | Some rest \<Rightarrow>
          if trim rest = [] then
            Rejected (reject_at input ''return clause must list at least one field'' (marker_span input ''return''))
          else out_collect (map (\<lambda>field.
                 out_ok_or
                   (reject_at input (''unsupported return field `'' @ trim field @ ''`'') (marker_span input (trim field)))
                   (parse_return_field (trim field)))
                 (str_split (trim rest) '','')))"

section \<open>Score expressions\<close>

definition parse_decay_expr :: "string \<Rightarrow> score_expr option" where
  "parse_decay_expr s =
     Option.bind (strip_pre ''decay('' s) (\<lambda>t.
     Option.bind (strip_suf '')'' t) (\<lambda>inner.
       case map trim (str_split inner '','') of
         f # h # _ \<Rightarrow>
           Option.bind (if f = ''n.created_at'' then Some FCreatedAtMs
                        else if f = ''n.updated_at'' then Some FUpdatedAtMs else None) (\<lambda>field.
           Option.bind (strip_pre ''half_life = '' h) (\<lambda>raw.
             map_option (Decay field) (parse_duration_ms (trim raw))))
       | _ \<Rightarrow> None))"

lemma length_split_top_at:
  "split_top_at d pre s needle = Some (a, b) \<Longrightarrow> length a + length b + 1 = length pre + length s"
  by (induction d pre s needle rule: split_top_at.induct) (auto split: if_splits)

lemma length_split_once_top_level:
  assumes "split_once_top_level (trim s) needle = Some (a, b)"
  shows "length (trim a) < length s" and "length (trim b) < length s"
  using assms length_split_top_at [of 0 "[]" "trim s" needle a b] length_trim [of a] length_trim [of b] length_trim [of s]
  by (auto simp: split_once_top_level_def)

function parse_score_expr_inner :: "string \<Rightarrow> score_expr option" where
  "parse_score_expr_inner s =
     (case strip_outer_parens (trim s) of
        Some inner \<Rightarrow> parse_score_expr_inner inner
      | None \<Rightarrow>
     (case split_once_top_level (trim s) (CHR ''+'') of
        Some (left, right) \<Rightarrow>
          Option.bind (parse_score_expr_inner (trim left)) (\<lambda>l.
            map_option (Add l) (parse_score_expr_inner (trim right)))
      | None \<Rightarrow>
     (case split_once_top_level (trim s) (CHR ''*'') of
        Some (left, right) \<Rightarrow>
          Option.bind (parse_score_expr_inner (trim left)) (\<lambda>l.
            map_option (Mul l) (parse_score_expr_inner (trim right)))
      | None \<Rightarrow>
          let raw = trim (trim s)
          in if raw = ''similarity'' then Some Similarity
             else if prefix ''decay('' raw then parse_decay_expr raw
             else map_option ScoreLiteral (parse_f32 raw))))"
  by pat_completeness auto

termination
  by (relation "measure length") (auto dest: length_strip_trim(2) length_split_once_top_level)

declare parse_score_expr_inner.simps [simp del]

definition parse_score_expr :: "string \<Rightarrow> score_expr option" where
  "parse_score_expr s =
     Option.bind (after s ''score by '') (\<lambda>rest.
       if prefix ''udf '' rest then None
       else parse_score_expr_inner (trim (take (unwrap_or (str_find rest '' limit '') (length rest)) rest)))"

section \<open>Kinds and vectors\<close>

definition trim_end_parens :: "string \<Rightarrow> string" where
  "trim_end_parens s = rev (dropWhile (\<lambda>c. c = CHR ''('') (rev s))"

definition parse_kind_list_diagnostic :: "string \<Rightarrow> string \<Rightarrow> string \<Rightarrow> node_kind list parsed" where
  "parse_kind_list_diagnostic input normalized marker =
     out_bind (out_ok_or
       (reject_at input (''query must contain `'' @ marker @ ''...)`'')
          (case marker_span input (trim (trim_end_parens marker)) of
             Some sp \<Rightarrow> Some sp | None \<Rightarrow> marker_span input ''n.kind''))
       (str_find normalized marker)) (\<lambda>marker_start.
     out_bind (out_ok_or
       (reject_at input ''recall query must contain `n.kind in (...)`'' (marker_span input ''n.kind''))
       (get_from normalized (marker_start + length marker))) (\<lambda>rest.
     out_bind (out_ok_or
       (reject_at input ''recall query must contain a closed `n.kind in (...)` list'' (marker_span input ''n.kind''))
       (str_find rest '')'')) (\<lambda>stop.
     out_collect (map (\<lambda>raw.
       out_ok_or (reject_at input (''unknown node kind `'' @ trim raw @ ''`'') (marker_span input (trim raw)))
         (parse_kind (trim raw)))
       (str_split (take stop rest) '','')))))"

definition parse_vector :: "string \<Rightarrow> f32 list option" where
  "parse_vector s =
     Option.bind (after s ''similar to ['') (\<lambda>rest.
     Option.bind (str_find rest '']'') (\<lambda>stop.
       collect_opt (map (\<lambda>raw. parse_f32 (trim raw)) (str_split (take stop rest) '',''))))"

definition parse_embed_text :: "string \<Rightarrow> string option" where
  "parse_embed_text s =
     Option.bind (after s ''similar to embed('') (\<lambda>rest.
     Option.bind (strip_pre [dquote] rest) (\<lambda>r.
       map_option (\<lambda>i. take i r) (str_find r [dquote])))"

definition parse_vector_ref :: "string \<Rightarrow> vector_ref option" where
  "parse_vector_ref s =
     (case parse_vector s of
        Some v \<Rightarrow> Some (Vector v)
      | None \<Rightarrow> map_option TextQuery (parse_embed_text s))"

section \<open>Joins\<close>

definition parse_join_field_for_alias :: "string \<Rightarrow> string \<Rightarrow> field_ref option" where
  "parse_join_field_for_alias raw alias = Option.bind (strip_pre (alias @ ''.'') raw) field_ref_from_name"

definition parse_join_on :: "string \<Rightarrow> string \<Rightarrow> string \<Rightarrow> join_key parsed" where
  "parse_join_on input alias raw =
     (if raw = ''node_id'' then Parsed JoinNodeId
      else case split_once_top_level_keyword raw '' = '' of
        None \<Rightarrow>
          Rejected (reject_at input ''join clause must use `on node_id` or `on n.field = alias.field`''
            (marker_span input '' on ''))
      | Some (left, right) \<Rightarrow>
          out_bind (out_ok_or
            (reject_at input ''left join field must use the recall alias `n`'' (marker_span input (trim left)))
            (parse_join_field_for_alias (trim left) ''n'')) (\<lambda>l.
          out_bind (out_ok_or
            (reject_at input (''right join field must use alias `'' @ alias @ ''`'') (marker_span input (trim right)))
            (parse_join_field_for_alias (trim right) alias)) (\<lambda>r.
          if l \<noteq> r then
            Rejected (reject_at input ''field joins require matching left/right field names'' (marker_span input raw))
          else Parsed (JoinField l))))"

text \<open>The slice between \<^verbatim>\<open> where \<close> and \<^verbatim>\<open> on \<close> panics when the two markers share a space.\<close>

definition parse_join_clause_body :: "string \<Rightarrow> string \<Rightarrow> join_clause parsed" where
  "parse_join_clause_body input rest =
     out_bind (out_ok_or
       (reject_at input ''join clause must look like `join m: Node where m.kind in (...) on node_id`''
          (marker_span input ''join''))
       (str_find rest '': Node'')) (\<lambda>alias_end.
     let alias = trim (take alias_end rest)
     in if alias = [] then
          Rejected (reject_at input ''join clause must name a right-side alias'' (marker_span input ''join''))
        else
     out_bind (out_ok_or
       (reject_at input ''join clause must include a right-side `where` predicate'' (marker_span input ''join''))
       (str_find rest '' where '')) (\<lambda>where_start.
     out_bind (out_ok_or
       (reject_at input ''join clause must include `on node_id` or `on n.field = alias.field`''
          (marker_span input ''join''))
       (str_rfind rest '' on '')) (\<lambda>on_start.
     if on_start \<le> where_start then
       Rejected (reject_at input ''join clause `on` must follow the right-side `where` predicate''
         (marker_span input '' on ''))
     else
     out_bind (parse_kind_list_diagnostic input rest (alias @ ''.kind in ('')) (\<lambda>kinds.
     if on_start < where_start + length '' where '' then Panicked
     else
     out_bind (out_ok_or
       (reject_at input ''could not parse join right-side where predicate'' (marker_span input '' where ''))
       (parse_predicate_expr (trim (slice rest (where_start + length '' where '') on_start)))) (\<lambda>right_filter.
     out_bind (parse_join_on input alias (trim (drop (on_start + length '' on '') rest))) (\<lambda>on.
       Parsed \<lparr>jc_alias = alias, jc_kinds = kinds, jc_right_filter = right_filter, jc_on = on\<rparr>))))))"

text \<open>The loop over the \<^verbatim>\<open> join \<close> clauses; the argument is the text from \<^verbatim>\<open>search_from\<close> on.\<close>

lemma length_after: "after s m = Some t \<Longrightarrow> length t + length m \<le> length s"
  by (auto simp: after_def dest!: str_find_bound)

function parse_join_clauses_diagnostic :: "string \<Rightarrow> string \<Rightarrow> join_clause list parsed" where
  "parse_join_clauses_diagnostic input s =
     (case after s '' join '' of
        None \<Rightarrow> Parsed []
      | Some body \<Rightarrow>
          let stop = first_marker body [ '' join '', '' count '', '' return '' ]
          in out_bind (parse_join_clause_body input (take stop body)) (\<lambda>j.
             out_bind (parse_join_clauses_diagnostic input (drop stop body)) (\<lambda>js. Parsed (j # js))))"
  by pat_completeness auto

termination
  by (relation "measure (\<lambda>(input, s). length s)") (auto dest!: length_after)

declare parse_join_clauses_diagnostic.simps [simp del]

section \<open>The parser\<close>

definition parse_ast_diagnostic :: "(string \<Rightarrow> i64) \<Rightarrow> string \<Rightarrow> recall_query parsed" where
  "parse_ast_diagnostic clock input =
     (let normalized = normalize input
      in if \<not> prefix ''recall '' normalized then
           Rejected (diagnostic input ''recall query must start with `recall`'' (fallback_span input))
         else
      out_bind (out_ok_or
        (reject_at input ''recall query must contain `n.tenant = <u32>`'' (marker_span input ''where''))
        (parse_u32_after normalized ''n.tenant = '')) (\<lambda>tenant.
      out_bind (parse_kind_list_diagnostic input normalized ''n.kind in ('') (\<lambda>kinds.
      let created = parse_created_at_predicates clock normalized
      in
      out_bind (parse_metadata_predicates normalized) (\<lambda>metadata.
      out_bind (parse_where_predicate_expression input normalized) (\<lambda>where_predicate.
      out_bind (out_ok_or
        (reject_at input
           (''recall query must contain `similar to [..]` or `similar to embed('' @ [dquote] @ ''...'' @ [dquote] @ '')`'')
           (marker_span input ''similar to''))
        (parse_vector_ref normalized)) (\<lambda>query.
      out_bind (out_ok_or
        (reject_at input (''recall query must contain `using model '' @ [dquote] @ ''...'' @ [dquote] @ ''`'')
           (case Option.bind (marker_span input ''similar to ['')
                   (\<lambda>sp. bracketed_span input (fst sp) (CHR ''['') (CHR '']'')) of
              Some sp \<Rightarrow> Some sp | None \<Rightarrow> marker_span input ''similar to''))
        (parse_quoted_after normalized ''using model '')) (\<lambda>model.
      out_bind (out_ok_or
        (reject_at input ''recall query must contain `topk <usize>`'' (marker_span input ''topk''))
        (parse_usize_after normalized ''topk '')) (\<lambda>topk.
      out_bind (out_ok_or
        (reject_at input ''recall query must contain `limit <usize>`'' (marker_span input ''limit''))
        (parse_usize_after normalized ''limit '')) (\<lambda>limit.
      let graph = parse_connected_clause normalized;
          udf = map_option (\<lambda>n. \<lparr>uc_name = n\<rparr>) (parse_quoted_after normalized ''score by udf '');
          score = (if udf = None then parse_score_expr normalized else None);
          agg = parse_aggregate_clause normalized
      in
      out_bind (parse_join_clauses_diagnostic input normalized) (\<lambda>joins.
      out_bind (parse_return_clause_diagnostic input normalized) (\<lambda>return_fields.
        Parsed \<lparr>rq_tenant = tenant, rq_kinds = kinds, rq_created_at_predicates = created,
          rq_metadata_predicates = metadata, rq_where_predicate = where_predicate, rq_query = query,
          rq_model = model, rq_topk = topk, rq_limit = limit, rq_graph = graph, rq_udf = udf,
          rq_score = score, rq_joins = joins, rq_aggregate = agg, rq_return_fields = return_fields\<rparr>)))))))))))"

definition map_rejected :: "('e \<Rightarrow> 'f) \<Rightarrow> ('e, 'a) outcome \<Rightarrow> ('f, 'a) outcome" where
  "map_rejected f r = (case r of Panicked \<Rightarrow> Panicked | Rejected e \<Rightarrow> Rejected (f e) | Parsed x \<Rightarrow> Parsed x)"

definition parse_ast :: "(string \<Rightarrow> i64) \<Rightarrow> string \<Rightarrow> (error, recall_query) outcome" where
  "parse_ast clock input = map_rejected (\<lambda>e. invalid (err_message e)) (parse_ast_diagnostic clock input)"

definition parse :: "(string \<Rightarrow> i64) \<Rightarrow> string \<Rightarrow> (error, logical_plan) outcome" where
  "parse clock input = out_bind (parse_ast clock input) (\<lambda>q. Parsed (lower q))"

definition parse_with_resolver ::
  "(string \<Rightarrow> i64) \<Rightarrow> string \<Rightarrow> resolver \<Rightarrow> (error, logical_plan) outcome" where
  "parse_with_resolver clock input r =
     out_bind (parse_ast clock input) (\<lambda>q. out_bind (resolve r q) (\<lambda>_. Parsed (lower q)))"

section \<open>Lowered plans stay in their tenant\<close>

text \<open>A result row stems from a stored node that passed the filter of the query; only its score and fields differ.\<close>

definition stems_from :: "execution_context \<Rightarrow> recall_query \<Rightarrow> qrecord \<Rightarrow> bool" where
  "stems_from ctx q r \<longleftrightarrow>
     (\<exists>n\<in>set (cx_nodes ctx). r_node_id r = r_node_id n \<and> r_tenant r = r_tenant n \<and> r_kind r = r_kind n \<and>
        predicate_matches n (lower_filter q))"

definition row_source :: "execution_context \<Rightarrow> recall_query \<Rightarrow> nat \<Rightarrow> qrecord list result \<Rightarrow> bool" where
  "row_source ctx q k res \<longleftrightarrow> (\<forall>rows. res = Inr rows \<longrightarrow> length rows \<le> k \<and> list_all (stems_from ctx q) rows)"

lemma row_sourceI [intro]:
  "(\<And>rows. res = Inr rows \<Longrightarrow> length rows \<le> k \<and> list_all (stems_from ctx q) rows) \<Longrightarrow> row_source ctx q k res"
  by (simp add: row_source_def)

lemma row_source_mono: "row_source ctx q k res \<Longrightarrow> k \<le> k' \<Longrightarrow> row_source ctx q k' res"
  by (auto simp: row_source_def)

lemma source_vector_search:
  "row_source ctx q (rq_topk q) (execute fmt ctx (VectorSearch v (rq_topk q) (Some (lower_filter q)) m))"
  by (auto simp: row_source_def vector_search_rows_def list_all_iff stems_from_def matches_opt_def dest!: in_set_takeD)

lemma source_join:
  assumes "row_source ctx q k (execute fmt ctx p)"
  shows "row_source ctx q k (execute fmt ctx (Join p p' on))"
proof
  fix rows
  assume "execute fmt ctx (Join p p' on) = Inr rows"
  then obtain l r where l: "execute fmt ctx p = Inr l" and rows: "rows = join_rows fmt l r on"
    by (auto simp: bind_res_eq_Inr)
  then have "set rows \<subseteq> set l" "length rows \<le> length l" by (auto simp: join_rows_def Let_def)
  then show "length rows \<le> k \<and> list_all (stems_from ctx q) rows"
    using assms l by (fastforce simp: row_source_def list_all_iff)
qed

lemma stems_from_score [simp]: "stems_from ctx q (r\<lparr>r_score := v\<rparr>) = stems_from ctx q r"
  by (simp add: stems_from_def)

lemma source_score:
  assumes "row_source ctx q k (execute fmt ctx p)"
  shows "row_source ctx q k (execute fmt ctx (lower_score q p))"
  using assms
  by (auto simp: row_source_def lower_score_def bind_res_eq_Inr score_rows_def udf_rows_def list_all_iff
      split: option.splits)

lemma source_topk:
  assumes "row_source ctx q k (execute fmt ctx p)"
  shows "row_source ctx q (min n k) (execute fmt ctx (TopK p n by_key))"
  using assms
  by (fastforce simp: row_source_def bind_res_eq_Inr sort_rows_def list_all_iff dest: in_set_takeD)

lemma source_joins:
  assumes "row_source ctx q k (execute fmt ctx p)"
  shows "row_source ctx q k (execute fmt ctx (lower_joins q p))"
proof -
  have "row_source ctx q k (execute fmt ctx (foldl (\<lambda>p j. Join p (f j) (jc_on j)) p js))" for f js
    using assms by (induction js arbitrary: p) (auto intro: source_join)
  then show ?thesis by (simp add: lower_joins_def)
qed

lemma source_output:
  assumes "row_source ctx q k (execute fmt ctx p)" "rq_aggregate q = None"
  shows "row_source ctx q k (execute fmt ctx (lower_output q p))"
  using assms
  by (auto simp: row_source_def lower_output_def bind_res_eq_Inr project_records_def project_record_def
      list_all_iff stems_from_def)

lemma source_graph:
  assumes "row_source ctx q k (execute fmt ctx p)" "\<And>g. rq_graph q = Some g \<Longrightarrow> gc_from g \<noteq> None"
  shows "row_source ctx q k (execute fmt ctx (lower_graph q p))"
  using assms by (auto simp: lower_graph_def simp del: execute.simps split: option.splits intro: source_join)

lemma matches_lower_filter:
  "rq_where_predicate q = None \<Longrightarrow>
   predicate_matches n (lower_filter q) \<longleftrightarrow>
     r_tenant n = rq_tenant q \<and> r_kind n \<in> set (rq_kinds q) \<and>
     (\<forall>p\<in>set (rq_created_at_predicates q) \<union> set (rq_metadata_predicates q). predicate_matches n p)"
  by (auto simp: lower_filter_def pred_eq_def kind_in_def list_all_iff)

text \<open>
  C20. A recall query without boolean \<^verbatim>\<open>where\<close> expression, without \<^verbatim>\<open>count by\<close> and whose graph expansion,
  if any, has a seed, is confined to what it names: every row its plan
  returns, whatever the UDFs, joins, seeds, scores and projections, is a stored node of the query's
  tenant and of one of its kinds that satisfies all its time and metadata conditions, and there are
  at most as many rows as \<^verbatim>\<open>limit\<close> and \<^verbatim>\<open>topk\<close> allow.
  Unseeded expansion and counting, which are excluded, produce rows of other kinds and tenants
  and rows that are not stored nodes.
\<close>

theorem lower_confined:
  assumes "rq_where_predicate q = None" "rq_aggregate q = None"
    and "\<And>g. rq_graph q = Some g \<Longrightarrow> gc_from g \<noteq> None"
    and "execute fmt ctx (lower q) = Inr rows"
  shows "length rows \<le> min (rq_limit q) (rq_topk q) \<and>
    (\<forall>r\<in>set rows. r_tenant r = rq_tenant q \<and>
       (\<exists>n\<in>set (cx_nodes ctx). r_node_id n = r_node_id r \<and> r_tenant n = rq_tenant q \<and> r_kind n \<in> set (rq_kinds q) \<and>
          (\<forall>p\<in>set (rq_created_at_predicates q) \<union> set (rq_metadata_predicates q). predicate_matches n p)))"
proof -
  have "row_source ctx q (min (rq_limit q) (rq_topk q)) (execute fmt ctx (lower q))"
    unfolding lower_def Let_def
    by (intro source_output source_joins source_topk source_score source_graph source_vector_search assms)
  then have "length rows \<le> min (rq_limit q) (rq_topk q)" "\<forall>r\<in>set rows. stems_from ctx q r"
    using assms(4) by (auto simp: row_source_def list_all_iff)
  then show ?thesis
    by (auto simp: stems_from_def matches_lower_filter [OF assms(1)]) metis
qed

definition sample_query :: recall_query where
  "sample_query = \<lparr>rq_tenant = 1, rq_kinds = [Fact], rq_created_at_predicates = [PGt FCreatedAtMs (LI64 15)],
     rq_metadata_predicates = [], rq_where_predicate = None, rq_query = Vector [f32_one], rq_model = ''text'',
     rq_topk = 5, rq_limit = 3, rq_graph = None, rq_udf = None, rq_score = None, rq_joins = [],
     rq_aggregate = None, rq_return_fields = []\<rparr>"

theorem lower_confined_witness:
  "\<exists>rows. execute sample_fmt sample_ctx (lower sample_query) = Inr rows \<and> (\<forall>r\<in>set rows. r_tenant r = 1)"
proof -
  obtain rows where rows: "execute sample_fmt sample_ctx (lower sample_query) = Inr rows"
    by (simp add: lower_def lower_graph_def lower_score_def lower_joins_def lower_output_def sample_query_def Let_def)
  have "\<forall>r\<in>set rows. r_tenant r = 1"
    using lower_confined [OF _ _ _ rows] by (auto simp: sample_query_def)
  then show ?thesis using rows by blast
qed

text \<open>
  The plain path splits the where clause at every \<^verbatim>\<open> and \<close>, also inside quotes, and skips parts it
  cannot read, so this condition is dropped instead of being applied or rejected.
\<close>

theorem quoted_and_drops_condition:
  "parse_metadata_predicates
     (''recall n: Node where n.topic = '' @ [dquote] @ ''salt and pepper'' @ [dquote] @ '' limit 1'') = Parsed []"
  by code_simp

section \<open>Lemmas: error spans\<close>

definition span_in :: "string \<Rightarrow> span \<Rightarrow> bool" where
  "span_in input sp \<longleftrightarrow> fst sp \<le> snd sp \<and> snd sp \<le> length input"

definition spans_ok :: "string \<Rightarrow> 'a parsed \<Rightarrow> bool" where
  "spans_ok input r \<longleftrightarrow> (case r of Rejected e \<Rightarrow> span_in input (err_span e) | _ \<Rightarrow> True)"

lemma fallback_span_in: "span_in input (fallback_span input)"
  by (simp add: span_in_def fallback_span_def)

lemma marker_span_in: "marker_span input m = Some sp \<Longrightarrow> span_in input sp"
  by (auto simp: marker_span_def span_in_def dest: str_find_bound)

lemma bracketed_span_in: "bracketed_span input i a b = Some sp \<Longrightarrow> span_in input sp"
  by (auto simp: bracketed_span_def span_in_def bind_eq_Some_conv get_from_def Let_def
      split: if_splits dest!: str_find_bound)

lemma reject_at_in: "(\<And>s. sp = Some s \<Longrightarrow> span_in input s) \<Longrightarrow> span_in input (err_span (reject_at input m sp))"
  by (cases sp) (auto simp: reject_at_def diagnostic_def unwrap_or_def fallback_span_in)

lemma spans_ok_Parsed [simp]: "spans_ok input (Parsed x)" "spans_ok input Panicked"
  by (simp_all add: spans_ok_def)

lemma spans_ok_Rejected: "spans_ok input (Rejected e) \<longleftrightarrow> span_in input (err_span e)"
  by (simp add: spans_ok_def)

lemma spans_ok_bind:
  "spans_ok input r \<Longrightarrow> (\<And>x. spans_ok input (f x)) \<Longrightarrow> spans_ok input (out_bind r f)"
  by (cases r) (auto simp: out_bind_def spans_ok_def)

lemma spans_ok_ok_or: "span_in input (err_span e) \<Longrightarrow> spans_ok input (out_ok_or e x)"
  by (cases x) (auto simp: out_ok_or_def spans_ok_def)

lemma spans_ok_collect: "(\<And>r. r \<in> set rs \<Longrightarrow> spans_ok input r) \<Longrightarrow> spans_ok input (out_collect rs)"
  by (induction rs) (auto intro!: spans_ok_bind)

lemma span_alternative:
  "(case marker_span input a of Some sp \<Rightarrow> Some sp | None \<Rightarrow> marker_span input b) = Some s \<Longrightarrow> span_in input s"
  by (auto split: option.splits dest: marker_span_in)

lemma model_span_in:
  "(case Option.bind (marker_span input a) (\<lambda>sp. bracketed_span input (fst sp) x y) of
      Some sp \<Rightarrow> Some sp | None \<Rightarrow> marker_span input b) = Some s \<Longrightarrow> span_in input s"
  by (auto split: option.splits dest: marker_span_in bracketed_span_in simp: bind_eq_Some_conv)

lemma diagnostic_in: "span_in input sp \<Longrightarrow> span_in input (err_span (diagnostic input m sp))"
  by (simp add: diagnostic_def)

lemma reject_span_in:
  "span_in input (err_span (reject_at input m (marker_span input a)))"
  "span_in input (err_span (reject_at input m
     (case marker_span input a of Some sp \<Rightarrow> Some sp | None \<Rightarrow> marker_span input b)))"
  "span_in input (err_span (reject_at input m
     (case Option.bind (marker_span input a) (\<lambda>sp. bracketed_span input (fst sp) x y) of
        Some sp \<Rightarrow> Some sp | None \<Rightarrow> marker_span input b)))"
  by (rule reject_at_in, erule marker_span_in span_alternative model_span_in)+

lemmas spans_intros = spans_ok_bind spans_ok_ok_or spans_ok_collect spans_ok_Rejected [THEN iffD2]
  reject_span_in diagnostic_in [OF fallback_span_in]

lemma spans_kind_list: "spans_ok input (parse_kind_list_diagnostic input s m)"
  unfolding parse_kind_list_diagnostic_def
  by (auto intro!: spans_intros)

lemma spans_where: "spans_ok input (where_clause s)"
  by (auto simp: where_clause_def Let_def split: option.splits)

lemma spans_metadata: "spans_ok input (parse_metadata_predicates s)"
  unfolding parse_metadata_predicates_def by (rule spans_ok_bind [OF spans_where]) simp

lemma spans_where_predicate: "spans_ok input (parse_where_predicate_expression input s)"
  unfolding parse_where_predicate_expression_def
  by (auto intro!: spans_intros spans_where split: option.splits)

lemma spans_return: "spans_ok input (parse_return_clause_diagnostic input s)"
  unfolding parse_return_clause_diagnostic_def
  by (auto intro!: spans_intros split: option.splits)

lemma spans_join_on: "spans_ok input (parse_join_on input alias raw)"
  unfolding parse_join_on_def
  by (auto intro!: spans_intros split: option.splits)

lemma spans_join_body: "spans_ok input (parse_join_clause_body input rest)"
  unfolding parse_join_clause_body_def Let_def
  by (auto intro!: spans_intros spans_kind_list spans_join_on)

lemma spans_joins: "spans_ok input (parse_join_clauses_diagnostic input s)"
proof (induction input s rule: parse_join_clauses_diagnostic.induct)
  case (1 input s)
  show ?case
    by (subst parse_join_clauses_diagnostic.simps)
      (auto simp: Let_def intro!: spans_intros spans_join_body 1 split: option.splits)
qed

text \<open>
  C30. Every rejection points into the query: the span of a diagnostic is a range of byte offsets
  of the input text, whatever the input is.
\<close>

theorem parse_error_span_in_bounds:
  "case parse_ast_diagnostic clock input of
     Rejected e \<Rightarrow> fst (err_span e) \<le> snd (err_span e) \<and> snd (err_span e) \<le> length input
   | _ \<Rightarrow> True"
proof -
  have "spans_ok input (parse_ast_diagnostic clock input)"
    unfolding parse_ast_diagnostic_def Let_def
    by (auto intro!: spans_intros spans_kind_list spans_metadata spans_where_predicate spans_joins spans_return
        )
  then show ?thesis by (simp add: spans_ok_def span_in_def split: outcome.splits)
qed

section \<open>Lemmas: panics\<close>

definition clause_ends :: "string list" where
  "clause_ends = ['' similar to '', '' connected '', '' score by '', '' limit '', '' join '', '' count '', '' return '', '' on '']"

definition empty_where :: "string \<Rightarrow> bool" where
  "empty_where s \<longleftrightarrow> (\<exists>m\<in>set clause_ends. sublist ('' where'' @ m) s)"

lemma str_find_prefix: "str_find s m = Some i \<Longrightarrow> prefix m (drop i s)"
  by (induction s arbitrary: i) (auto split: if_splits)

lemma str_find_sublist: "str_find s m \<noteq> None \<longleftrightarrow> sublist m s"
  by (induction s) (auto simp: sublist_Cons_right)

lemma str_rfind_prefix:
  assumes "str_rfind s m = Some i"
  shows "prefix m (drop i s)"
proof -
  obtain j where j: "str_find (rev s) (rev m) = Some j" and i: "i = length s - j - length m"
    using assms by (auto simp: str_rfind_def)
  have "suffix m (take (length s - j) s)"
    using str_find_prefix [OF j] by (simp add: drop_rev suffix_to_prefix)
  then obtain a where a: "take (length s - j) s = a @ m" by (auto simp: suffix_def)
  moreover have "length a = i" using arg_cong [OF a, of length] str_find_bound [OF j] i by simp
  ultimately have "drop i (take (length s - j) s) = m" by simp
  then have "prefix m (drop i (take (length s - j) s) @ drop (length s - j) s)" by simp
  moreover have "drop i (take (length s - j) s) @ drop (length s - j) s = drop i s"
    using i by (metis append_take_drop_id drop_append diff_le_self length_take min.absorb2 diff_is_0_eq drop0 diff_diff_left diff_right_commute)
  ultimately show ?thesis by simp
qed

lemma foldl_min_mem: "foldl min (i :: nat) is \<in> insert i (set is)"
  by (induction "is" arbitrary: i) (auto simp: min_def)

lemma first_marker_cases:
  "first_marker s ms = length s \<or> (\<exists>m\<in>set ms. str_find s m = Some (first_marker s ms))"
proof (cases "List.map_filter (str_find s) ms")
  case Nil
  then show ?thesis by (simp add: first_marker_def)
next
  case (Cons i js)
  have "first_marker s ms \<in> set (List.map_filter (str_find s) ms)"
    using foldl_min_mem [of i js] Cons by (auto simp: first_marker_def)
  then show ?thesis by (force simp: List.map_filter_def)
qed

lemma where_overlap:
  assumes "m \<in> set clause_ends" and pre: "prefix '' where '' t" and "prefix m (drop i t)" "i < 7"
  shows "prefix ('' where'' @ m) t"
proof -
  obtain b where t: "t = '' where '' @ b" using pre by (auto simp: prefix_def)
  have "i = 0 \<or> i = 1 \<or> i = 2 \<or> i = 3 \<or> i = 4 \<or> i = 5 \<or> i = 6" using \<open>i < 7\<close> by linarith
  then have "i = 6" using assms(1,3) by (auto simp: t clause_ends_def)
  then show ?thesis using assms(3) by (simp add: t)
qed

lemma empty_whereI:
  assumes "m \<in> set clause_ends" "prefix '' where '' (drop w s)" "prefix m (drop j s)" "w \<le> j" "j < w + 7"
  shows "empty_where s"
proof -
  have "prefix m (drop (j - w) (drop w s))" using assms by simp
  then have "prefix ('' where'' @ m) (drop w s)" using assms by (intro where_overlap [of m _ "j - w"]) auto
  then have "sublist ('' where'' @ m) s"
    by (meson prefix_imp_sublist sublist_drop sublist_order.order.trans)
  then show ?thesis using assms(1) by (auto simp: empty_where_def)
qed

lemma empty_where_mono: "empty_where t \<Longrightarrow> sublist t s \<Longrightarrow> empty_where s"
  by (auto simp: empty_where_def intro: sublist_order.order.trans)

definition panic_only :: "bool \<Rightarrow> ('e, 'a) outcome \<Rightarrow> bool" where
  "panic_only P r \<longleftrightarrow> (r = Panicked \<longrightarrow> P)"

lemma panic_only_simps [simp]: "panic_only P (Parsed x)" "panic_only P (Rejected e)" "panic_only P (out_ok_or e y)"
  by (auto simp: panic_only_def out_ok_or_def split: option.splits)

lemma panic_only_bind:
  "panic_only P r \<Longrightarrow> (\<And>x. r = Parsed x \<Longrightarrow> panic_only P (f x)) \<Longrightarrow> panic_only P (out_bind r f)"
  by (cases r) (auto simp: out_bind_def panic_only_def)

lemma panic_only_collect: "(\<And>r. r \<in> set rs \<Longrightarrow> panic_only P r) \<Longrightarrow> panic_only P (out_collect rs)"
  by (induction rs) (auto intro!: panic_only_bind)

lemma out_ok_or_Parsed: "out_ok_or e x = Parsed y \<longleftrightarrow> x = Some y"
  by (auto simp: out_ok_or_def split: option.splits)

lemma panic_where: "panic_only (empty_where s) (where_clause s)"
proof (cases "where_clause s = Panicked")
  case True
  let ?ms = "['' similar to '', '' connected '', '' score by '', '' limit '', '' join '', '' count '', '' return '']"
  obtain w where w: "str_find s '' where '' = Some w"
    and stop: "first_marker (drop w s) ?ms < 7"
    using True by (auto simp: where_clause_def Let_def split: option.splits if_splits)
  have "7 \<le> length (drop w s)" using str_find_bound [OF w] by simp
  then obtain m where m: "m \<in> set ?ms" "str_find (drop w s) m = Some (first_marker (drop w s) ?ms)"
    using first_marker_cases [of "drop w s" ?ms] stop by auto
  have "empty_where s"
  proof (rule empty_whereI)
    show "m \<in> set clause_ends" using m(1) by (auto simp: clause_ends_def)
    show "prefix m (drop (w + first_marker (drop w s) ?ms) s)"
      using str_find_prefix [OF m(2)] by (simp add: add.commute)
  qed (use w stop str_find_prefix in auto)
  then show ?thesis by (simp add: panic_only_def)
qed (simp add: panic_only_def)

lemma panic_kind_list: "panic_only P (parse_kind_list_diagnostic input s m)"
  unfolding parse_kind_list_diagnostic_def by (auto intro!: panic_only_bind panic_only_collect)

lemma panic_join_on: "panic_only P (parse_join_on input alias raw)"
  unfolding parse_join_on_def by (auto intro!: panic_only_bind split: option.splits)

lemma panic_join_body: "panic_only (empty_where rest) (parse_join_clause_body input rest)"
proof -
  have "empty_where rest"
    if "str_find rest '' where '' = Some w" "str_rfind rest '' on '' = Some j" "\<not> j \<le> w" "j < w + 7" for w j
  proof (rule empty_whereI)
    show "'' on '' \<in> set clause_ends" by (simp add: clause_ends_def)
  qed (use that str_find_prefix str_rfind_prefix in auto)
  then show ?thesis
    unfolding parse_join_clause_body_def Let_def
    by (auto intro!: panic_only_bind panic_kind_list panic_join_on simp: out_ok_or_Parsed panic_only_def [of _ Panicked])
qed

lemma after_suffix: "after s m = Some t \<Longrightarrow> suffix t s"
  by (auto simp: after_def suffix_drop)

lemma panic_joins: "panic_only (empty_where s) (parse_join_clauses_diagnostic input s)"
proof (induction input s rule: parse_join_clauses_diagnostic.induct)
  case (1 input s)
  show ?case
  proof (cases "after s '' join ''")
    case None
    then show ?thesis by (subst parse_join_clauses_diagnostic.simps) simp
  next
    case (Some body)
    let ?stop = "first_marker body ['' join '', '' count '', '' return '']"
    have body: "sublist body s" using after_suffix [OF Some] by (rule suffix_imp_sublist)
    have "empty_where (take ?stop body) \<Longrightarrow> empty_where s" "empty_where (drop ?stop body) \<Longrightarrow> empty_where s"
      using body by (meson empty_where_mono sublist_take sublist_drop sublist_order.order.trans)+
    then have "panic_only (empty_where s) (parse_join_clause_body input (take ?stop body))"
      and "\<And>j. panic_only (empty_where s) (parse_join_clauses_diagnostic input (drop ?stop body))"
      using panic_join_body [of "take ?stop body" input] 1 [OF Some refl] by (auto simp: panic_only_def)
    then show ?thesis
      by (subst parse_join_clauses_diagnostic.simps) (auto intro!: panic_only_bind simp: Some Let_def)
  qed
qed

text \<open>
  C29. The only inputs that can make the parser panic are those with an empty \<^verbatim>\<open>where\<close> clause: the
  word \<^verbatim>\<open>where\<close> directly followed by the keyword of the next clause. On every other input parsing
  returns a query or an error.
\<close>

theorem parse_panics_only_on_empty_where:
  assumes "\<not> (\<exists>m\<in>set clause_ends. sublist ('' where'' @ m) (normalize input))"
  shows "parse_ast_diagnostic clock input \<noteq> Panicked"
proof -
  let ?s = "normalize input"
  have "panic_only (empty_where ?s) (parse_ast_diagnostic clock input)"
    unfolding parse_ast_diagnostic_def parse_metadata_predicates_def parse_where_predicate_expression_def
      parse_return_clause_diagnostic_def Let_def
    by (auto intro!: panic_only_bind panic_only_collect panic_kind_list panic_where panic_joins split: option.splits)
  then show ?thesis using assms by (simp add: panic_only_def empty_where_def)
qed

text \<open>And an empty clause does make it panic.\<close>

theorem empty_where_panics:
  "parse_ast_diagnostic clock ''recall n.tenant = 1 n.kind in (Fact) where similar to [1]'' = Panicked"
  by code_simp

theorem parse_panics_only_on_empty_where_witness:
  "parse_ast_diagnostic (\<lambda>_. 0) ''recall n where'' \<noteq> Panicked"
proof (rule parse_panics_only_on_empty_where)
  have "normalize ''recall n where'' = ''recall n where''" by code_simp
  moreover have "list_all (\<lambda>m. str_find ''recall n where'' ('' where'' @ m) = None) clause_ends" by code_simp
  ultimately show "\<not> (\<exists>m\<in>set clause_ends. sublist ('' where'' @ m) (normalize ''recall n where''))"
    by (auto simp: list_all_iff str_find_sublist [symmetric])
qed

end
