(* ===== verification/Mmql_Roundtrip.thy ===== *)
theory Mmql_Roundtrip
  imports Mmql
begin

text \<open>
  Boolean where expressions of MMQL round trip: a printer for the predicates the language can
  express, and the proof that the parser of \<^verbatim>\<open>crates/mmdb-mmql/src/parser.rs\<close> reads them back. The proof
  follows the scanner: a piece of text is quiet for a keyword when no top-level occurrence of it
  starts there, and nested when parentheses and quotes close within it.
\<close>

section \<open>Printing predicates\<close>

definition field_name :: "field_ref \<Rightarrow> string" where
  "field_name f =
     (case f of FTenant \<Rightarrow> ''tenant'' | FKind \<Rightarrow> ''kind'' | FCreatedAtMs \<Rightarrow> ''created_at'' | FUpdatedAtMs \<Rightarrow> ''updated_at''
      | FMetadata k \<Rightarrow> k | FContent \<Rightarrow> ''content'' | FScore \<Rightarrow> ''score'' | FNodeId \<Rightarrow> ''node_id'')"

definition kind_name :: "node_kind \<Rightarrow> string" where
  "kind_name k = (case k of Episode \<Rightarrow> ''Episode'' | Fact \<Rightarrow> ''Fact'' | Entity \<Rightarrow> ''Entity'' | Artifact \<Rightarrow> ''Artifact'')"

definition show_i64 :: "i64 \<Rightarrow> string" where
  "show_i64 w = (if sint w < 0 then CHR ''-'' # show_nat (nat (- sint w)) else show_nat (nat (sint w)))"

fun print_literal :: "literal \<Rightarrow> string" where
  "print_literal (LU32 w) = show_nat (unat w)"
| "print_literal (LI64 w) = show_i64 w"
| "print_literal (LString s) = dquote # s @ [dquote]"
| "print_literal (LNodeKind k) = kind_name k"
| "print_literal _ = []"

definition print_atom :: "field_ref \<Rightarrow> string \<Rightarrow> string \<Rightarrow> string" where
  "print_atom f op rhs = ''n.'' @ field_name f @ op @ rhs"

fun print_predicate :: "predicate \<Rightarrow> string" where
  "print_predicate (PEq f l) = print_atom f '' = '' (print_literal l)"
| "print_predicate (PGt f l) = print_atom f '' > '' (print_literal l)"
| "print_predicate (PGte f l) = print_atom f '' >= '' (print_literal l)"
| "print_predicate (PLt f l) = print_atom f '' < '' (print_literal l)"
| "print_predicate (PLte f l) = print_atom f '' <= '' (print_literal l)"
| "print_predicate (PIn f ls) = print_atom f '' in '' (''('' @ join_with '', '' (map print_literal ls) @ '')'')"
| "print_predicate (PAnd ps) = ''('' @ join_with '' and '' (map print_predicate ps) @ '')''"
| "print_predicate (POr ps) = ''('' @ join_with '' or '' (map print_predicate ps) @ '')''"
| "print_predicate (PNot p) = ''not '' @ print_predicate p"

text \<open>
  The predicates MMQL can express: a literal of the type of its field, names of letters, digits and
  underscores that are not those of built-in fields, texts without quotes, parentheses and commas,
  and conjunctions and disjunctions of at least two, no conjunction directly inside another.
\<close>

definition name_char :: "char \<Rightarrow> bool" where
  "name_char c \<longleftrightarrow> is_alnum c \<or> c = CHR ''_''"

definition plain_text :: "string \<Rightarrow> bool" where
  "plain_text s = list_all (\<lambda>c. \<not> (c \<in> set [dquote, CHR ''('', CHR '')'', CHR '',''])) s"

fun typed_literal :: "field_ref \<Rightarrow> literal \<Rightarrow> bool" where
  "typed_literal FTenant (LU32 w) = True"
| "typed_literal FKind (LNodeKind k) = True"
| "typed_literal FCreatedAtMs (LI64 w) = True"
| "typed_literal FUpdatedAtMs (LI64 w) = True"
| "typed_literal (FMetadata k) (LString s) =
     (plain_text s \<and> k \<noteq> [] \<and> list_all name_char k \<and>
      \<not> (k \<in> set [''tenant'', ''kind'', ''created_at'', ''updated_at'', ''content'', ''score'', ''node_id'']))"
| "typed_literal FContent (LString s) = plain_text s"
| "typed_literal FNodeId (LString s) = plain_text s"
| "typed_literal _ _ = False"

fun is_conjunction :: "predicate \<Rightarrow> bool" where
  "is_conjunction (PAnd ps) = True"
| "is_conjunction _ = False"

fun expressible :: "predicate \<Rightarrow> bool" where
  "expressible (PEq f l) = typed_literal f l"
| "expressible (PGt f l) = typed_literal f l"
| "expressible (PGte f l) = typed_literal f l"
| "expressible (PLt f l) = typed_literal f l"
| "expressible (PLte f l) = typed_literal f l"
| "expressible (PIn f ls) = (ls \<noteq> [] \<and> list_all (typed_literal f) ls)"
| "expressible (PAnd ps) = (2 \<le> length ps \<and> list_all (\<lambda>p. expressible p \<and> \<not> is_conjunction p) ps)"
| "expressible (POr ps) = (2 \<le> length ps \<and> list_all expressible ps)"
| "expressible (PNot p) = expressible p"

section \<open>Lemmas: reading printed numbers\<close>

lemma is_digit_char: "n < 10 \<Longrightarrow> is_digit (char_of (48 + n :: nat))"
proof -
  have "list_all (\<lambda>n. is_digit (char_of (48 + n :: nat))) [0..<10]" by code_simp
  then show "n < 10 \<Longrightarrow> is_digit (char_of (48 + n :: nat))" by (simp only: list_all_iff) simp
qed

lemma digit_value: "n < 10 \<Longrightarrow> of_char (char_of (48 + n :: nat)) = (48 + int n)"
proof -
  assume n: "n < 10"
  have "of_char (char_of (48 + n :: nat)) = int (of_char (char_of (48 + n)))"
    by (rule of_nat_of_char [symmetric])
  also have "\<dots> = int (48 + n)" using n by (simp only: of_char_of) simp
  finally show ?thesis by simp
qed

lemma show_nat_all_digits: "list_all is_digit (show_nat n) \<and> show_nat n \<noteq> []"
proof (induction n rule: show_nat.induct)
  case (1 n)
  then show ?case
    by (cases "n < 10") (subst show_nat.simps, simp add: is_digit_char)+
qed

lemma decimal_value_show_nat: "decimal_value (show_nat n) = int n"
proof (induction n rule: show_nat.induct)
  case (1 n)
  show ?case
  proof (cases "n < 10")
    case True
    then show ?thesis by (subst show_nat.simps) (simp add: decimal_value_def digit_value)
  next
    case False
    then have "decimal_value (show_nat (n div 10)) = int (n div 10)" using 1 by simp
    moreover have "10 * int (n div 10) + int (n mod 10) = int n" by (simp add: of_nat_div of_nat_mod)
    ultimately show ?thesis using False
      by (subst show_nat.simps) (simp add: decimal_value_def digit_value)
  qed
qed

lemma parse_digits_show_nat: "parse_digits (show_nat n) = Some (int n)"
  using show_nat_all_digits [of n] by (simp add: parse_digits_def decimal_value_show_nat)

lemma show_nat_hd: "show_nat n = c # cs \<Longrightarrow> is_digit c"
  using show_nat_all_digits [of n] by simp

lemma parse_unsigned_show_nat: "int n < b \<Longrightarrow> parse_unsigned b (show_nat n) = Some (int n)"
proof -
  assume "int n < b"
  moreover have "(case show_nat n of [] \<Rightarrow> [] | c # cs \<Rightarrow> if c = CHR ''+'' then cs else show_nat n) = show_nat n"
    using show_nat_hd [of n] by (auto simp: is_digit_def split: list.splits)
  ultimately show ?thesis by (simp add: parse_unsigned_def parse_digits_show_nat)
qed

lemma parse_u32_show: "parse_u32 (show_nat (unat w)) = Some w"
proof -
  have "int (unat w) < 0x100000000" using unsigned_less [of w] by simp
  then show ?thesis by (simp add: parse_u32_def parse_unsigned_show_nat)
qed

lemma parse_i64_show: "parse_i64 (show_i64 w) = Some w"
proof (cases "sint w < 0")
  case True
  have "- sint w \<le> 0x8000000000000000" using sint_greater_eq [of w] by simp
  then show ?thesis using True by (simp add: parse_i64_def show_i64_def parse_digits_show_nat)
next
  case False
  then have "int (nat (sint w)) < 0x8000000000000000" using sint_less [of w] by simp
  moreover have "show_nat n = c # cs \<Longrightarrow> c \<noteq> CHR ''-''" for n c cs
    using show_nat_hd by (auto simp: is_digit_def)
  moreover obtain c cs where "show_nat (nat (sint w)) = c # cs"
    using show_nat_all_digits [of "nat (sint w)"] by (cases "show_nat (nat (sint w))") auto
  ultimately show ?thesis using False parse_unsigned_show_nat [of "nat (sint w)" "0x8000000000000000"]
    by (auto simp: parse_i64_def show_i64_def)
qed

section \<open>Lemmas: scanning\<close>

text \<open>
  \<open>quiet kw q d x y\<close>: no top-level occurrence of the keyword starts inside \<open>x\<close> when \<open>y\<close> follows.
  \<open>nest b q d e x\<close>: from depth \<open>d\<close> the text \<open>x\<close> leads to depth \<open>e\<close> without going below it, outside
  quotes at the end; quotes are obeyed if \<open>b\<close>.
\<close>

fun scan_state :: "bool \<Rightarrow> int \<Rightarrow> string \<Rightarrow> bool \<times> int" where
  "scan_state q d [] = (q, d)"
| "scan_state q d (c # x) = scan_state (quote_after q c) (depth_after q d c) x"

fun quiet :: "string \<Rightarrow> bool \<Rightarrow> int \<Rightarrow> string \<Rightarrow> string \<Rightarrow> bool" where
  "quiet kw q d [] y = True"
| "quiet kw q d (c # x) y =
     ((\<not> quote_after q c \<and> depth_after q d c = 0 \<longrightarrow> \<not> prefix kw (c # x @ y)) \<and>
      quiet kw (quote_after q c) (depth_after q d c) x y)"

fun nest :: "bool \<Rightarrow> bool \<Rightarrow> int \<Rightarrow> int \<Rightarrow> string \<Rightarrow> bool" where
  "nest b q d e [] \<longleftrightarrow> \<not> q \<and> d = e"
| "nest b q d e (c # x) \<longleftrightarrow> e \<le> depth_after q d c \<and> nest b (b \<and> quote_after q c) (depth_after q d c) e x"

lemma scan_state_append: "scan_state q d (x @ y) = (case scan_state q d x of (q', d') \<Rightarrow> scan_state q' d' y)"
  by (induction x arbitrary: q d) auto

lemma quiet_append:
  "quiet kw q d (x @ y) z \<longleftrightarrow> quiet kw q d x (y @ z) \<and> (case scan_state q d x of (q', d') \<Rightarrow> quiet kw q' d' y z)"
  by (induction x arbitrary: q d) auto

lemma split_kw_quiet:
  "quiet kw q d x y \<Longrightarrow> scan_state q d x = (q', d') \<Longrightarrow> split_kw kw d q cur (x @ y) = split_kw kw d' q' (cur @ x) y"
  by (induction x arbitrary: q d cur) (auto simp: Let_def)

lemma nest_shift: "nest b q (d + k) (e + k) x = nest b q d e x"
proof (induction x arbitrary: q d)
  case (Cons c x)
  have "depth_after q (d + k) c = depth_after q d c + k" by (simp add: depth_after_def)
  then show ?case using Cons by simp
qed simp

lemma nest_append: "nest b q d e x \<Longrightarrow> f \<le> e \<Longrightarrow> nest b False e f y \<Longrightarrow> nest b q d f (x @ y)"
  by (induction x arbitrary: q d) auto

lemma nest_scan: "nest True q d e x \<Longrightarrow> scan_state q d x = (False, e)"
  by (induction x arbitrary: q d) auto

lemma nest_quiet: "nest True q d e x \<Longrightarrow> 0 < e \<Longrightarrow> quiet kw q d x y"
  by (induction x arbitrary: q d) auto

lemma nest_outer_parens: "nest False q d e x \<Longrightarrow> \<not> q \<Longrightarrow> 0 < e \<Longrightarrow> outer_parens d (x @ y) = outer_parens e y"
  by (induction x arbitrary: q d) (auto simp: Let_def)

lemma nest_parens:
  assumes "nest b False 0 0 x"
  shows "nest b False 0 0 (CHR ''('' # x @ '')'')"
proof -
  have "nest b False 1 1 x" using assms nest_shift [of b False 0 1 0 x] by simp
  then have "nest b False 1 0 (x @ '')'')" by (rule nest_append) (auto simp: depth_after_def quote_after_def)
  then show ?thesis by (simp add: depth_after_def quote_after_def)
qed

lemma quiet_parens:
  assumes "nest True False 0 0 x"
  shows "quiet (CHR '' '' # k) False 0 (CHR ''('' # x @ '')'') y" and "scan_state False 0 (CHR ''('' # x @ '')'') = (False, 0)"
proof -
  have n: "nest True False 1 1 x" using assms nest_shift [of True False 0 1 0 x] by simp
  show "quiet (CHR '' '' # k) False 0 (CHR ''('' # x @ '')'') y"
    using nest_scan [OF n] nest_quiet [OF n] by (simp add: quiet_append depth_after_def quote_after_def)
  show "scan_state False 0 (CHR ''('' # x @ '')'') = (False, 0)"
    by (rule nest_scan) (use nest_parens [OF assms] in simp)
qed

definition bare_char :: "char \<Rightarrow> bool" where
  "bare_char c \<longleftrightarrow> c \<noteq> dquote \<and> c \<noteq> CHR ''('' \<and> c \<noteq> CHR '')''"

lemma bare_steps: "bare_char c \<Longrightarrow> quote_after q c = q" "bare_char c \<Longrightarrow> depth_after q d c = d"
  by (auto simp: bare_char_def quote_after_def depth_after_def)

lemma nest_bare: "list_all bare_char x \<Longrightarrow> nest b False d d x"
  by (induction x) (auto simp: bare_steps)

lemma quiet_flat:
  "list_all (\<lambda>c. bare_char c \<and> c \<noteq> CHR '' '') x \<Longrightarrow> quiet (CHR '' '' # k) q d x y"
  by (induction x) (auto simp: bare_steps)

lemma scan_bare: "list_all bare_char x \<Longrightarrow> scan_state q d x = (q, d)"
  by (induction x) (auto simp: bare_steps)

lemma in_quotes:
  "list_all (\<lambda>c. c \<noteq> dquote) x \<Longrightarrow> scan_state True d x = (True, d) \<and> quiet kw True d x y"
  by (induction x) (auto simp: quote_after_def depth_after_def)

lemma quiet_quoted:
  assumes "plain_text s"
  shows "quiet (CHR '' '' # k) False 0 (dquote # s @ [dquote]) y"
proof -
  have "list_all (\<lambda>c. c \<noteq> dquote) s" using assms by (auto simp: plain_text_def list_all_iff)
  then show ?thesis using in_quotes [of s 0 "CHR '' '' # k" "dquote # y"]
    by (simp add: quiet_append quote_after_def depth_after_def)
qed

lemma nest_quoted:
  assumes "plain_text s"
  shows "nest b False d d (dquote # s @ [dquote])"
proof -
  have s: "list_all (\<lambda>c. c \<noteq> dquote \<and> bare_char c) s"
    using assms by (auto simp: plain_text_def list_all_iff bare_char_def)
  then have "nest True True d d (s @ [dquote])" "nest False False d d (s @ [dquote])"
    by (induction s) (auto simp: bare_char_def quote_after_def depth_after_def)
  then show ?thesis by (cases b) (auto simp: quote_after_def depth_after_def)
qed

section \<open>Lemmas: trimming and joining\<close>

definition solid :: "char \<Rightarrow> bool" where
  "solid c \<longleftrightarrow> is_alnum c \<or> (c \<in> set [CHR ''('', CHR '')'', CHR ''-'', CHR ''_'', dquote])"

lemma solid_not_space:
  assumes "solid c"
  shows "ws_len (c # x) = 0" "c \<noteq> CHR '' ''" "ws_rev_len (c # x) = 0"
proof -
  have "\<not> (c \<in> set [CHR 0x09, CHR 0x0A, CHR 0x0B, CHR 0x0C, CHR 0x0D, CHR 0x20, CHR 0xC2, CHR 0xE1, CHR 0xE2, CHR 0xE3,
      CHR 0x85, CHR 0xA0, CHR 0x80, CHR 0x81, CHR 0x82, CHR 0x83, CHR 0x84, CHR 0x86, CHR 0x87, CHR 0x88, CHR 0x89,
      CHR 0x8A, CHR 0xA8, CHR 0xA9, CHR 0xAF, CHR 0x9F])"
    using assms by (auto simp: solid_def is_alnum_def is_digit_def)
  then show "ws_len (c # x) = 0" "c \<noteq> CHR '' ''" "ws_rev_len (c # x) = 0"
    by (auto split: list.splits) (cases x; cases "tl x"; auto simp: ws_rev_len_def numeral_2_eq_2 numeral_3_eq_3)
qed

lemma trim_solid:
  assumes "x \<noteq> []" "solid (hd x)" "solid (last x)"
  shows "trim x = x"
proof -
  have "trim_start x = x" using assms(1,2) by (cases x) (auto simp: trim_start.simps solid_not_space simp del: ws_len.simps)
  moreover have "trim_rev (rev x) = rev x"
    using assms(1,3) by (cases x rule: rev_cases) (auto simp: trim_rev.simps solid_not_space)
  ultimately show ?thesis by (simp add: trim_def trim_end_def)
qed

lemma trim_space: "trim (CHR '' '' # x) = trim x"
  by (simp add: trim_def trim_start.simps [of "CHR '' '' # x"])

definition edged :: "string \<Rightarrow> bool" where
  "edged x \<longleftrightarrow> x \<noteq> [] \<and> solid (hd x) \<and> solid (last x)"

lemma join_with_Cons: "xs \<noteq> [] \<Longrightarrow> join_with sep (x # xs) = x @ sep @ join_with sep xs"
  by (cases xs) auto

lemma edged_join: "xs \<noteq> [] \<Longrightarrow> list_all edged xs \<Longrightarrow> edged (join_with sep xs)"
  by (induction sep xs rule: join_with.induct) (auto simp: edged_def)

lemma nest_join:
  "list_all (nest b False 0 0) xs \<Longrightarrow> list_all bare_char sep \<Longrightarrow> nest b False 0 0 (join_with sep xs)"
proof (induction sep xs rule: join_with.induct)
  case (3 sep w v ws)
  then have "nest b False 0 0 (sep @ join_with sep (v # ws))" by (intro nest_append [OF nest_bare]) auto
  then have "nest b False 0 0 (w @ sep @ join_with sep (v # ws))" using 3 by (intro nest_append [of b False 0 0 w]) auto
  then show ?case by simp
qed auto

lemma split_kw_join:
  assumes "kw = CHR '' '' # k" "list_all bare_char kw"
    and "list_all (\<lambda>x. nest True False 0 0 x \<and> edged x \<and> (\<forall>y. quiet kw False 0 x y)) xs" "xs \<noteq> []"
  shows "split_kw kw 0 False [] (join_with kw xs) = xs"
  using assms(3,4)
proof (induction xs)
  case (Cons x xs)
  then have x: "scan_state False 0 x = (False, 0)" "trim x = x" "\<And>y. quiet kw False 0 x y"
    by (auto simp: nest_scan edged_def intro: trim_solid)
  show ?case
  proof (cases "xs = []")
    case True
    then show ?thesis using x split_kw_quiet [of kw False 0 x "[]" False 0 "[]"] by simp
  next
    case False
    then have "split_kw kw 0 False [] (join_with kw xs) = xs" using Cons by simp
    moreover have "split_kw kw 0 False x (kw @ join_with kw xs) = x # split_kw kw 0 False [] (join_with kw xs)"
      using x(2) assms(1,2) by (simp add: Let_def bare_steps)
    ultimately show ?thesis
      using x False split_kw_quiet [of kw False 0 x "kw @ join_with kw xs" False 0 "[]"] by (simp add: join_with_Cons)
  qed
qed simp

section \<open>Lemmas: printed literals and comparisons\<close>

lemma digit_char: "is_digit c \<Longrightarrow> solid c \<and> bare_char c \<and> c \<noteq> CHR '' '' \<and> c \<noteq> CHR '',''"
  by (auto simp: is_digit_def solid_def is_alnum_def bare_char_def)

lemma name_char: "name_char c \<Longrightarrow> solid c \<and> bare_char c \<and> c \<noteq> CHR '' '' \<and> c \<noteq> CHR ''.''"
  by (auto simp: name_char_def is_digit_def solid_def is_alnum_def bare_char_def)

definition rhs_heads :: string where
  "rhs_heads = dquote # ''-0123456789EFA(''"

lemma digit_head:
  assumes "is_digit c"
  shows "c \<in> set rhs_heads"
proof -
  have all: "\<forall>c\<in>set ''0123456789''. c \<in> set rhs_heads" by (simp add: rhs_heads_def)
  show ?thesis by (rule bspec [OF all]) (rule assms [unfolded is_digit_def])
qed

definition token :: "string \<Rightarrow> bool" where
  "token x \<longleftrightarrow> edged x \<and> nest True False 0 0 x \<and> nest False False 0 0 x \<and>
     (\<forall>k y. quiet (CHR '' '' # k) False 0 x y) \<and> hd x \<in> set rhs_heads"

lemma token_flat:
  assumes "list_all (\<lambda>c. bare_char c \<and> c \<noteq> CHR '' '' \<and> solid c) x" "x \<noteq> []" "hd x \<in> set rhs_heads"
  shows "token x"
proof -
  have "list_all (\<lambda>c. bare_char c \<and> c \<noteq> CHR '' '') x" "list_all bare_char x" "list_all solid x"
    using assms(1) by (auto simp: list_all_iff)
  then show ?thesis
    using assms(2,3) by (auto simp: token_def edged_def quiet_flat nest_bare list_all_iff)
qed

lemma show_nat_chars:
  "list_all (\<lambda>c. bare_char c \<and> c \<noteq> CHR '' '' \<and> solid c) (show_nat n)" "CHR '','' \<notin> set (show_nat n)"
proof -
  have d: "list_all is_digit (show_nat n)" using show_nat_all_digits by blast
  then show "list_all (\<lambda>c. bare_char c \<and> c \<noteq> CHR '' '' \<and> solid c) (show_nat n)"
    by (rule list.pred_mono_strong) (simp add: digit_char)
  show "CHR '','' \<notin> set (show_nat n)" using d digit_char [of "CHR '',''"] by (auto simp only: list_all_iff)
qed

lemma token_show_nat: "token (show_nat n)"
proof (rule token_flat [OF show_nat_chars(1)])
  show "show_nat n \<noteq> []" using show_nat_all_digits by blast
  then show "hd (show_nat n) \<in> set rhs_heads"
    using show_nat_all_digits [of n] by (cases "show_nat n") (simp_all add: digit_head)
qed

lemma token_show_i64: "token (show_i64 w)" "CHR '','' \<notin> set (show_i64 w)"
proof -
  have "token (CHR ''-'' # show_nat n)" for n
    by (rule token_flat) (simp_all add: show_nat_chars bare_char_def [of "CHR ''-''"] solid_def [of "CHR ''-''"] rhs_heads_def)
  then show "token (show_i64 w)" "CHR '','' \<notin> set (show_i64 w)"
    by (simp_all add: show_i64_def token_show_nat show_nat_chars)
qed

lemma token_kind: "token (kind_name k)" "CHR '','' \<notin> set (kind_name k)"
  by (cases k; auto intro!: token_flat simp: kind_name_def bare_char_def solid_def is_alnum_def rhs_heads_def)+

lemma token_quoted: "plain_text s \<Longrightarrow> token (dquote # s @ [dquote])"
  by (simp add: token_def edged_def quiet_quoted nest_quoted rhs_heads_def solid_def del: nest.simps quiet.simps)

lemma token_literal: "typed_literal f l \<Longrightarrow> token (print_literal l) \<and> CHR '','' \<notin> set (print_literal l)"
  by (cases "(f, l)" rule: typed_literal.cases)
    (simp_all add: token_show_nat token_show_i64 token_kind token_quoted show_nat_chars, simp_all add: plain_text_def list_all_iff, blast+)

lemma parse_string_literal_quoted: "parse_string_literal (dquote # s @ [dquote]) = Some s"
  by (simp add: parse_string_literal_def strip_pre_def strip_suf_def suffix_def)

lemma parse_print_literal: "typed_literal f l \<Longrightarrow> parse_predicate_literal f (print_literal l) = Some l"
  by (cases "(f, l)" rule: typed_literal.cases)
    (auto simp: parse_u32_show parse_i64_show parse_string_literal_quoted kind_name_def parse_kind_def split: node_kind.splits)

lemma token_parens:
  assumes "nest True False 0 0 x" "nest False False 0 0 x"
  shows "token (''('' @ x @ '')'')"
  using quiet_parens [OF assms(1)] nest_parens [OF assms(1)] nest_parens [OF assms(2)]
  by (simp add: token_def edged_def rhs_heads_def solid_def del: nest.simps quiet.simps)

text \<open>Field names are read back after the alias.\<close>

definition named_field :: "field_ref \<Rightarrow> bool" where
  "named_field f \<longleftrightarrow> (\<forall>k. f = FMetadata k \<longrightarrow> k \<noteq> [] \<and> list_all name_char k \<and>
     \<not> (k \<in> set [''tenant'', ''kind'', ''created_at'', ''updated_at'', ''content'', ''score'', ''node_id'']))"

lemma typed_named: "typed_literal f l \<Longrightarrow> named_field f"
  by (cases "(f, l)" rule: typed_literal.cases) (auto simp: named_field_def)

lemma field_name_chars: "named_field f \<Longrightarrow> list_all name_char (field_name f) \<and> field_name f \<noteq> []"
  by (cases f) (auto simp: named_field_def field_name_def name_char_def is_alnum_def)

lemma field_name_bare:
  assumes "named_field f"
  shows "list_all (\<lambda>c. bare_char c \<and> c \<noteq> CHR '' '') (''n.'' @ field_name f)"
proof -
  have "list_all name_char (field_name f)" using field_name_chars [OF assms] by blast
  then have "list_all (\<lambda>c. bare_char c \<and> c \<noteq> CHR '' '') (field_name f)"
    by (rule list.pred_mono_strong) (simp add: name_char)
  then show ?thesis by (simp add: bare_char_def [of "CHR ''n''"] bare_char_def [of "CHR ''.''"])
qed

lemma parse_field_name: "named_field f \<Longrightarrow> parse_predicate_field (''n.'' @ field_name f) = Some f"
  by (cases f) (auto simp: parse_predicate_field_def split_once_def field_name_def field_ref_from_name_def named_field_def)

definition operators :: "string list" where
  "operators = ['' in '', '' >= '', '' <= '', '' > '', '' < '', '' = '']"

definition connectives :: "string list" where
  "connectives = ['' or '', '' and '']"

fun nowhere :: "string \<Rightarrow> string \<Rightarrow> string \<Rightarrow> bool" where
  "nowhere kw [] y = True"
| "nowhere kw (c # x) y = (\<not> prefix kw (c # x @ y) \<and> nowhere kw x y)"

lemma quiet_bare: "list_all bare_char x \<Longrightarrow> nowhere kw x y \<Longrightarrow> quiet kw q d x y"
  by (induction x) (auto simp: bare_steps)

lemma operators_bare: "op \<in> set (operators @ connectives) \<Longrightarrow> list_all bare_char op"
proof -
  have "list_all (list_all bare_char) (operators @ connectives)"
    by (simp add: operators_def connectives_def bare_char_def)
  then show "op \<in> set (operators @ connectives) \<Longrightarrow> list_all bare_char op" by (simp add: list_all_iff)
qed

lemma rhs_heads_plain: "c \<in> set rhs_heads \<Longrightarrow> c \<notin> set ''oai<>= ''"
proof -
  have "list_all (\<lambda>c. c \<notin> set ''oai<>= '') rhs_heads" by (simp add: rhs_heads_def)
  then show "c \<in> set rhs_heads \<Longrightarrow> c \<notin> set ''oai<>= ''" by (metis list_all_iff)
qed

lemma operators_nowhere:
  assumes "c \<notin> set ''oai<>= ''"
  shows "list_all (\<lambda>op. list_all (\<lambda>kw. kw = op \<or> nowhere kw op (c # r)) (operators @ connectives)) operators"
  using assms by (auto simp: operators_def connectives_def)

lemma quiet_operator:
  assumes "op \<in> set operators" "kw \<in> set (operators @ connectives)" "kw \<noteq> op" "token rhs"
  shows "quiet kw False 0 op (rhs @ y)"
proof (rule quiet_bare)
  show "list_all bare_char op" using assms(1) by (intro operators_bare) simp
  obtain c r where r: "rhs = c # r" "c \<in> set rhs_heads" using assms(4) by (cases rhs) (auto simp: token_def edged_def)
  show "nowhere kw op (rhs @ y)"
    using operators_nowhere [OF rhs_heads_plain [OF r(2)], of "r @ y"] assms(1,2,3) r(1)
    by (auto simp: list_all_iff)
qed

lemma atom_state:
  assumes "named_field f" "op \<in> set operators"
  shows "scan_state False 0 (''n.'' @ field_name f) = (False, 0)" "scan_state False 0 op = (False, 0)"
    and "\<And>k y. quiet (CHR '' '' # k) False 0 (''n.'' @ field_name f) y"
proof -
  note n = field_name_bare [OF assms(1)]
  then show "\<And>k y. quiet (CHR '' '' # k) False 0 (''n.'' @ field_name f) y" by (rule quiet_flat)
  show "scan_state False 0 (''n.'' @ field_name f) = (False, 0)"
    using n by (intro scan_bare) (auto simp: list_all_iff)
  show "scan_state False 0 op = (False, 0)"
    by (rule scan_bare, rule operators_bare) (simp add: assms(2))
qed

lemma quiet_atom:
  assumes "named_field f" "op \<in> set operators" "kw \<in> set (operators @ connectives)" "kw \<noteq> op" "token rhs"
  shows "quiet kw False 0 (print_atom f op rhs) y"
proof -
  obtain k where k: "kw = CHR '' '' # k" using assms(3) by (auto simp: operators_def connectives_def)
  have "quiet kw False 0 rhs y" using assms(5) k by (auto simp: token_def)
  moreover have "quiet kw False 0 op (rhs @ y)" using assms by (intro quiet_operator)
  ultimately have "quiet kw False 0 ((''n.'' @ field_name f) @ op @ rhs) y"
    using atom_state [OF assms(1,2)] k by (simp only: quiet_append) simp
  then show ?thesis by (simp add: print_atom_def)
qed

section \<open>Lemmas: comparisons are read back\<close>

lemma split_one:
  assumes "quiet kw False 0 x []" "nest True False 0 0 x" "edged x"
  shows "split_top_level_keyword x kw = [x]"
  using split_kw_quiet [OF assms(1) nest_scan [OF assms(2)], of "[]"] assms(3)
  by (simp add: split_top_level_keyword_def trim_solid edged_def)

lemma edged_name: "named_field f \<Longrightarrow> edged (''n.'' @ field_name f)"
  using field_name_chars [of f] name_char [of "last (field_name f)"]
  by (auto simp: edged_def list_all_iff solid_def is_alnum_def)

lemma edged_atom: "named_field f \<Longrightarrow> token rhs \<Longrightarrow> edged (print_atom f op rhs)"
  by (auto simp: edged_def token_def print_atom_def solid_def is_alnum_def)

lemma nest_atom:
  assumes "named_field f" "op \<in> set operators" "token rhs"
  shows "nest b False 0 0 (print_atom f op rhs)"
proof -
  have "list_all bare_char (''n.'' @ field_name f)" "list_all bare_char op"
    using field_name_bare [OF assms(1)] operators_bare [of op] assms(2) by (auto simp: list_all_iff)
  then have "list_all bare_char (''n.'' @ field_name f @ op)" by simp
  moreover have "nest b False 0 0 rhs" using assms(3) by (cases b) (auto simp: token_def)
  ultimately have "nest b False 0 0 ((''n.'' @ field_name f @ op) @ rhs)" by (intro nest_append [OF nest_bare]) auto
  then show ?thesis by (simp add: print_atom_def)
qed

lemma split_atom_other:
  assumes "named_field f" "op \<in> set operators" "kw \<in> set (operators @ connectives)" "kw \<noteq> op" "token rhs"
  shows "split_top_level_keyword (print_atom f op rhs) kw = [print_atom f op rhs]"
  using assms by (intro split_one quiet_atom nest_atom edged_atom)

lemma split_atom_self:
  assumes "named_field f" "op \<in> set operators" "token rhs"
  shows "split_top_level_keyword (print_atom f op rhs) op = [''n.'' @ field_name f, rhs]"
proof -
  let ?lhs = "''n.'' @ field_name f"
  obtain k where k: "op = CHR '' '' # k" using assms(2) by (auto simp: operators_def)
  have rhs: "split_kw op 0 False [] rhs = [rhs]"
    using split_one [of op rhs] assms(3) k by (simp add: token_def split_top_level_keyword_def)
  have "split_kw op 0 False [] (?lhs @ op @ rhs) = split_kw op 0 False ?lhs (op @ rhs)"
    using split_kw_quiet [of op False 0 ?lhs "op @ rhs" False 0 "[]"] atom_state [OF assms(1,2)] k by simp
  also have "\<dots> = [?lhs, rhs]"
    using rhs k edged_name [OF assms(1)] by (simp add: Let_def quote_after_def depth_after_def trim_solid edged_def)
  finally show ?thesis by (simp add: split_top_level_keyword_def print_atom_def)
qed

lemma split_once_atom:
  assumes "named_field f" "op \<in> set operators" "kw \<in> set operators" "token rhs"
  shows "split_once_top_level_keyword (print_atom f op rhs) kw =
    (if kw = op then Some (''n.'' @ field_name f, rhs) else None)"
  using split_atom_self [OF assms(1,2,4)] split_atom_other [OF assms(1,2) _ _ assms(4), of kw] assms(3)
  by (simp add: split_once_top_level_keyword_def)

lemma trim_token: "token x \<Longrightarrow> trim x = x"
  by (simp add: token_def edged_def trim_solid)

lemma trim_name: "named_field f \<Longrightarrow> trim (''n.'' @ field_name f) = ''n.'' @ field_name f"
  by (rule trim_solid) (use edged_name in \<open>auto simp: edged_def\<close>)

lemma operators_mem:
  "'' in '' \<in> set operators" "'' >= '' \<in> set operators" "'' <= '' \<in> set operators"
  "'' > '' \<in> set operators" "'' < '' \<in> set operators" "'' = '' \<in> set operators"
  by (simp_all add: operators_def)

lemma parse_print_comparison:
  assumes "typed_literal f l"
    and "(op, build) \<in> {('' >= '', PGte), ('' <= '', PLte), ('' > '', PGt), ('' < '', PLt), ('' = '', PEq)}"
  shows "parse_predicate_comparison (print_atom f op (print_literal l)) = Some (build f l)"
proof -
  have f: "named_field f" and t: "token (print_literal l)" using assms(1) typed_named token_literal by auto
  note split = split_once_atom [OF f _ _ t]
  show ?thesis
    using assms(2) parse_print_literal [OF assms(1)] parse_field_name [OF f]
    by (auto simp: parse_predicate_comparison_def split operators_mem trim_token [OF t] trim_name [OF f, simplified])
qed

text \<open>Lists of literals.\<close>

lemma str_find_comma:
  "CHR '','' \<notin> set x \<Longrightarrow> str_find (x @ CHR '','' # y) '','' = Some (length x)"
  "CHR '','' \<notin> set x \<Longrightarrow> str_find x '','' = None"
  by (induction x) auto

lemma split_join_comma:
  assumes "list_all (\<lambda>x. CHR '','' \<notin> set x) xs" "xs \<noteq> []" "CHR '','' \<notin> set pre"
  shows "map trim (str_split (pre @ join_with '', '' xs) '','') = trim (pre @ hd xs) # map trim (tl xs)"
  using assms
proof (induction xs arbitrary: pre)
  case (Cons x xs)
  show ?case
  proof (cases "xs = []")
    case True
    then show ?thesis using Cons.prems by (subst str_split.simps) (simp add: str_find_comma)
  next
    case False
    have "map trim (str_split ('' '' @ join_with '', '' xs) '','') = map trim xs"
      using Cons.IH [of "'' ''"] Cons.prems False by (cases xs) (auto simp: trim_space)
    moreover have "str_split (pre @ join_with '', '' (x # xs)) '','' = (pre @ x) # str_split ('' '' @ join_with '', '' xs) '',''"
      using Cons.prems False str_find_comma(1) [of "pre @ x" "'' '' @ join_with '', '' xs"]
      by (subst str_split.simps) (simp add: join_with_Cons)
    ultimately show ?thesis by simp
  qed
qed simp

lemma nest_literals: "list_all (typed_literal f) ls \<Longrightarrow> nest b False 0 0 (join_with '', '' (map print_literal ls))"
  using token_literal [of f]
  by (intro nest_join) (cases b; auto simp: list_all_iff token_def bare_char_def)+

lemma parse_print_in:
  assumes "ls \<noteq> []" "list_all (typed_literal f) ls"
  shows "parse_predicate_comparison (print_predicate (PIn f ls)) = Some (PIn f ls)"
proof -
  let ?body = "join_with '', '' (map print_literal ls)"
  have f: "named_field f" using assms typed_named by (cases ls) auto
  have t: "token (''('' @ ?body @ '')'')" by (intro token_parens nest_literals [OF assms(2)])
  have trims: "map trim (str_split ?body '','') = map print_literal ls"
    using split_join_comma [of "map print_literal ls" "[]"] assms token_literal [of f] trim_token
    by (cases ls) (auto simp: list_all_iff)
  have "map (\<lambda>part. parse_predicate_literal f (trim part)) (str_split ?body '','') =
      map (parse_predicate_literal f) (map trim (str_split ?body '',''))" by simp
  also have "\<dots> = map Some ls"
    unfolding trims using assms(2) parse_print_literal [of f] by (simp add: list_all_iff)
  finally have "parse_predicate_in_values f (''('' @ ?body @ '')'') = Some ls"
    by (simp add: parse_predicate_in_values_def strip_pre_def strip_suf_def suffix_def collect_opt_eq_Some)
  then show ?thesis
    using split_once_atom [OF f operators_mem(1) operators_mem(1) t] trim_token [OF t] trim_name [OF f] parse_field_name [OF f]
    by (simp add: parse_predicate_comparison_def)
qed

section \<open>Round trip\<close>

lemma strip_outer_parens_parens:
  assumes "nest False False 0 0 x" "edged x"
  shows "strip_outer_parens (''('' @ x @ '')'') = Some x"
proof -
  have "nest False False 1 1 x" using assms(1) nest_shift [of False False 0 1 0 x] by simp
  then have "outer_parens 1 (x @ '')'')" by (simp add: nest_outer_parens depth_after_def)
  then show ?thesis
    using assms(2)
    by (simp add: strip_outer_parens_def strip_pre_def strip_suf_def suffix_def depth_after_def trim_solid edged_def)
qed

lemma strip_outer_parens_none: "hd x \<noteq> CHR ''('' \<Longrightarrow> strip_outer_parens x = None"
  by (cases x) (auto simp: strip_outer_parens_def strip_pre_def)

definition printed :: "string \<Rightarrow> bool" where
  "printed x \<longleftrightarrow> edged x \<and> nest True False 0 0 x \<and> nest False False 0 0 x \<and>
     (\<forall>kw\<in>set connectives. \<forall>y. quiet kw False 0 x y) \<and> (hd x = CHR ''n'' \<or> hd x = CHR ''('')"

lemma printed_atom: "named_field f \<Longrightarrow> op \<in> set operators \<Longrightarrow> token rhs \<Longrightarrow> printed (print_atom f op rhs)"
proof -
  assume *: "named_field f" "op \<in> set operators" "token rhs"
  have "kw \<noteq> op" if "kw \<in> set connectives" for kw using that *(2) by (auto simp: operators_def connectives_def)
  then show ?thesis
    using * quiet_atom [OF *(1,2) _ _ *(3)] by (auto simp: printed_def nest_atom edged_atom) (simp add: print_atom_def)
qed

lemma printed_parens:
  assumes "list_all printed xs" "xs \<noteq> []" "sep \<in> set connectives"
  shows "printed (''('' @ join_with sep xs @ '')'')"
proof -
  have "list_all bare_char sep" using assms(3) by (intro operators_bare) simp
  then have "nest b False 0 0 (join_with sep xs)" for b
    using assms(1) by (intro nest_join) (cases b; auto simp: list_all_iff printed_def)+
  then have "token (''('' @ join_with sep xs @ '')'')" by (intro token_parens)
  then show ?thesis by (auto simp: printed_def token_def connectives_def)
qed

lemma printed_not: "printed x \<Longrightarrow> printed (''not '' @ x)"
proof -
  assume x: "printed x"
  have bare: "list_all bare_char ''not ''" by (simp add: bare_char_def)
  obtain c r where r: "x = c # r" "c = CHR ''n'' \<or> c = CHR ''(''" using x by (cases x) (auto simp: printed_def edged_def)
  have "nowhere kw ''not '' (x @ y)" if "kw \<in> set connectives" for kw y
    using that r by (auto simp: connectives_def)
  then have "quiet kw False 0 (''not '' @ x) y" if "kw \<in> set connectives" for kw y
    using that x quiet_bare [OF bare] by (simp only: quiet_append scan_bare [OF bare]) (simp add: printed_def)
  moreover have "nest b False 0 0 (''not '' @ x)" for b
    by (rule nest_append [OF nest_bare [OF bare]]) (use x in \<open>cases b; auto simp: printed_def\<close>)+
  moreover have "edged (''not '' @ x)" using x by (simp add: printed_def edged_def solid_def is_alnum_def)
  moreover have "hd (''not '' @ x) = CHR ''n''" by simp
  ultimately show ?thesis unfolding printed_def by blast
qed

lemma printed_predicate: "expressible p \<Longrightarrow> printed (print_predicate p)"
proof (induction p)
  case (PIn f ls)
  then have "named_field f" using typed_named by (cases ls) auto
  moreover have "token (''('' @ join_with '', '' (map print_literal ls) @ '')'')"
    by (intro token_parens nest_literals [of f]) (use PIn in auto)
  ultimately show ?case using printed_atom [OF _ operators_mem(1)] by simp
next
  case (PAnd ps)
  then show ?case using printed_parens [of "map print_predicate ps" "'' and ''"] by (cases ps) (auto simp: list_all_iff connectives_def)
next
  case (POr ps)
  then show ?case using printed_parens [of "map print_predicate ps" "'' or ''"] by (cases ps) (auto simp: list_all_iff connectives_def)
next
  case (PNot p)
  then show ?case using printed_not by simp
qed (auto intro!: printed_atom simp: operators_mem dest: token_literal typed_named)

lemma split_printed:
  "printed x \<Longrightarrow> kw \<in> set connectives \<Longrightarrow> split_top_level_keyword x kw = [x]"
  by (rule split_one) (auto simp: printed_def)

lemma split_printed_join:
  assumes "list_all printed xs" "xs \<noteq> []" "kw \<in> set connectives"
  shows "split_top_level_keyword (join_with kw xs) kw = xs"
proof -
  obtain k where "kw = CHR '' '' # k" using assms(3) by (auto simp: connectives_def)
  moreover have "list_all bare_char kw" using assms(3) by (intro operators_bare) simp
  ultimately show ?thesis unfolding split_top_level_keyword_def
    using assms by (intro split_kw_join) (auto simp: list_all_iff printed_def)
qed

lemma split_printed_and_by_or:
  assumes "list_all printed xs" "xs \<noteq> []"
  shows "split_top_level_keyword (join_with '' and '' xs) '' or '' = [join_with '' and '' xs]"
proof (rule split_one)
  have bare: "list_all bare_char '' and ''" by (simp add: bare_char_def)
  show "quiet '' or '' False 0 (join_with '' and '' xs) []"
    using assms
  proof (induction xs)
    case (Cons x xs)
    then have x: "scan_state False 0 x = (False, 0)" "\<And>y. quiet '' or '' False 0 x y"
      by (auto simp: printed_def nest_scan connectives_def)
    show ?case
    proof (cases "xs = []")
      case False
      then obtain c r where r: "join_with '' and '' xs = c # r" "c = CHR ''n'' \<or> c = CHR ''(''"
        using Cons.prems by (cases xs; cases "tl xs"; cases "hd xs") (auto simp: printed_def edged_def)
      then have "nowhere '' or '' '' and '' (join_with '' and '' xs)" by auto
      then have "quiet '' or '' False 0 '' and '' (join_with '' and '' xs @ [])" using quiet_bare [OF bare] by simp
      then show ?thesis using Cons False x
        by (simp only: join_with_Cons [OF False] quiet_append scan_bare [OF bare]) simp
    qed (use x in simp)
  qed simp
  show "nest True False 0 0 (join_with '' and '' xs)" "edged (join_with '' and '' xs)"
    using assms bare by (auto intro!: nest_join edged_join simp: list_all_iff printed_def)
qed

lemma parse_levels:
  assumes "printed x"
  shows "parse_predicate_and x = parse_predicate_not x" "parse_predicate_or x = parse_predicate_not x"
    "parse_predicate_expr x = parse_predicate_not x"
  using split_printed [OF assms] assms
  by (simp_all add: parse_predicate_expr.simps parse_predicate_or.simps parse_predicate_and.simps connectives_def
      trim_solid printed_def edged_def)

lemma parse_not_atom:
  assumes "named_field f" "op \<in> set operators" "token rhs"
  shows "parse_predicate_not (print_atom f op rhs) = parse_predicate_comparison (print_atom f op rhs)"
proof -
  have "trim (print_atom f op rhs) = print_atom f op rhs"
    using edged_atom [OF assms(1,3)] by (simp add: trim_solid edged_def)
  moreover have "strip_pre ''not '' (print_atom f op rhs) = None" "hd (print_atom f op rhs) \<noteq> CHR ''(''"
    by (simp_all add: print_atom_def strip_pre_def)
  ultimately show ?thesis
    by (simp add: parse_predicate_not.simps parse_predicate_primary.simps strip_outer_parens_none)
qed

lemma parse_not_parens:
  assumes "list_all printed xs" "xs \<noteq> []" "sep \<in> set connectives"
  shows "parse_predicate_not (''('' @ join_with sep xs @ '')'') = parse_predicate_or (join_with sep xs)"
proof -
  let ?x = "join_with sep xs" and ?p = "''('' @ join_with sep xs @ '')''"
  have "edged ?p" using printed_parens [OF assms] by (simp add: printed_def)
  then have p: "trim ?p = ?p" by (simp add: trim_solid edged_def)
  have "list_all bare_char sep" using assms(3) by (intro operators_bare) simp
  then have "nest False False 0 0 ?x" "edged ?x"
    using assms by (auto intro!: nest_join edged_join simp: list_all_iff printed_def)
  then have "strip_outer_parens ?p = Some ?x" "trim ?x = ?x"
    by (rule strip_outer_parens_parens, simp add: trim_solid edged_def)
  moreover have "strip_pre ''not '' ?p = None" by (simp add: strip_pre_def)
  ultimately show ?thesis
    using p by (simp add: parse_predicate_not.simps parse_predicate_primary.simps parse_predicate_expr.simps)
qed

lemma pred_and_flat: "list_all (\<lambda>p. \<not> is_conjunction p) ps \<Longrightarrow> pred_and ps = PAnd ps"
proof -
  have "list_all (\<lambda>p. \<not> is_conjunction p) ps \<Longrightarrow> pred_and_out ps = ps"
    by (induction ps) (auto split: predicate.splits)
  then show "list_all (\<lambda>p. \<not> is_conjunction p) ps \<Longrightarrow> pred_and ps = PAnd ps" by (simp add: pred_and_def)
qed

lemma parse_print_not: "expressible p \<Longrightarrow> parse_predicate_not (print_predicate p) = Some p"
proof (induction p)
  case (PIn f ls)
  then have "named_field f" using typed_named by (cases ls) auto
  moreover have "token (''('' @ join_with '', '' (map print_literal ls) @ '')'')"
    by (intro token_parens nest_literals [of f]) (use PIn in auto)
  ultimately show ?case using parse_not_atom [OF _ operators_mem(1)] parse_print_in PIn by simp
next
  case (PAnd ps)
  let ?xs = "map print_predicate ps"
  have xs: "list_all printed ?xs" "?xs \<noteq> []" "'' and '' \<in> set connectives"
    using PAnd.prems printed_predicate by (auto simp: list_all_iff connectives_def)
  have "map parse_predicate_not ?xs = map Some ps"
    using PAnd by (simp add: list_all_iff)
  then have "collect_opt (map parse_predicate_not ?xs) = Some ps" by (simp only: collect_opt_eq_Some)
  moreover have "pred_and ps = PAnd ps" using PAnd.prems by (intro pred_and_flat) (simp add: list_all_iff)
  ultimately have "parse_predicate_and (join_with '' and '' ?xs) = Some (PAnd ps)"
    using split_printed_join [OF xs] PAnd.prems by (simp add: parse_predicate_and.simps)
  then show ?case
    using parse_not_parens [OF xs] split_printed_and_by_or [OF xs(1,2)] by (simp add: parse_predicate_or.simps)
next
  case (POr ps)
  let ?xs = "map print_predicate ps"
  have xs: "list_all printed ?xs" "?xs \<noteq> []" "'' or '' \<in> set connectives"
    using POr.prems printed_predicate by (auto simp: list_all_iff connectives_def)
  have "map parse_predicate_and ?xs = map Some ps"
    using POr parse_levels(1) [OF printed_predicate] by (simp add: list_all_iff)
  then have "collect_opt (map parse_predicate_and ?xs) = Some ps" by (simp only: collect_opt_eq_Some)
  then have "parse_predicate_or (join_with '' or '' ?xs) = Some (POr ps)"
    using split_printed_join [OF xs] POr.prems by (simp add: parse_predicate_or.simps)
  then show ?case using parse_not_parens [OF xs] by simp
next
  case (PNot p)
  then have "printed (''not '' @ print_predicate p)" by (intro printed_not printed_predicate) simp
  then have "trim (''not '' @ print_predicate p) = ''not '' @ print_predicate p"
    by (simp add: printed_def edged_def trim_solid)
  then show ?case using PNot by (simp add: parse_predicate_not.simps [of "''not '' @ print_predicate p", simplified] strip_pre_def)
qed (simp_all add: parse_not_atom parse_print_comparison operators_mem token_literal typed_named)

text \<open>
  C19. Boolean where expressions round trip: a predicate that MMQL can express, printed with explicit
  parentheses, is parsed back to itself, with nested conjunctions, disjunctions and negations,
  membership lists, and texts in quotes that may contain any keyword.
\<close>

theorem parse_print_predicate:
  assumes "expressible p"
  shows "parse_predicate_expr (print_predicate p) = Some p"
  using parse_levels(3) [OF printed_predicate [OF assms]] parse_print_not [OF assms] by simp

theorem parse_print_predicate_witness:
  "parse_predicate_expr (print_predicate
     (POr [PAnd [PEq FTenant (LU32 7), PNot (PIn FKind [LNodeKind Fact, LNodeKind Entity])],
           PEq (FMetadata ''topic'') (LString ''salt and pepper or not'')])) =
   Some (POr [PAnd [PEq FTenant (LU32 7), PNot (PIn FKind [LNodeKind Fact, LNodeKind Entity])],
           PEq (FMetadata ''topic'') (LString ''salt and pepper or not'')])"
  by (rule parse_print_predicate) (simp add: plain_text_def name_char_def is_alnum_def)

end
