(* ===== verification/Memory_Types.thy ===== *)
theory Memory_Types
  imports Kv Std_Text Core_Types "HOL-Library.Product_Lexorder"
begin

text \<open>
  The data of the evidence-first memory store, \<^verbatim>\<open>crates/mmdb/src/native_memory.rs\<close>: errors, actors,
  scopes, record references, and the headers, payloads and receipts of evidence, claims,
  entities, semantic relations, proposals, reviews and artifacts. Identifiers are ULIDs, 128-bit
  words; a 32-byte digest is a list of bytes; times are signed milliseconds kept as words.
\<close>

type_synonym digest = bytes

datatype actor = User | Assistant | System | Operator

record operation_context =
  oc_id :: ulid
  oc_actor :: actor

datatype scope = Personal | Workspace ulid | Session ulid | ArtifactScope ulid | SystemScope

datatype record_ref =
    REvidence ulid
  | RClaim ulid
  | REntity ulid
  | RSemanticRelation ulid
  | RProposal ulid
  | RProposalReview ulid
  | RArtifactCollection ulid
  | RArtifactSnapshot ulid
  | RArtifactPassage ulid

datatype record_state = Active | Retracted | Superseded | Unsupported | Purged

datatype evidence_class =
    UserAssertion | UserCorrection | ImportedSource | ToolObservation | ActionOutcome
  | AssistantCommitment | AssistantUtterance | SystemObservation
  | ArtifactSnapshotEvidence | ArtifactPassageEvidence

datatype terminal_turn_status = TurnCompleted | TurnFailed | TurnCancelled | TurnInterrupted

datatype evidence_lifecycle = Direct | TerminalTurn string terminal_turn_status

datatype evidence_lifecycle_truth = DirectTruth | TerminalTurnTruth digest terminal_turn_status

datatype claim_domain =
    UserProfile | UserPreference | UserNote | ExternalFact | WorkspaceFact | SessionContext
  | ArtifactContent | SystemFact | CommitmentDomain

datatype memory_error =
    MStorage string
  | MCodec string
  | MCorrupt string
  | MNotFound record_ref
  | MOperationConflict ulid
  | MRevisionConflict u64 u64
  | MInadmissibleSource ulid evidence_class claim_domain
  | MSourceUnavailable ulid
  | MScopeMismatch
  | MUnauthorized
  | MInvalidInput string
  | MStalePurgePreview
  | MPurgePreviewNotYetValid i64 i64
  | MPurgePreviewExpired i64 i64

type_synonym 'a mres = "memory_error + 'a"

section \<open>Orders of scopes and record references\<close>

text \<open>The derived orders compare the variant first, in declaration order, then the identifier.\<close>

fun scope_rank :: "scope \<Rightarrow> nat \<times> ulid" where
  "scope_rank Personal = (0, 0)"
| "scope_rank (Workspace i) = (1, i)"
| "scope_rank (Session i) = (2, i)"
| "scope_rank (ArtifactScope i) = (3, i)"
| "scope_rank SystemScope = (4, 0)"

fun record_rank :: "record_ref \<Rightarrow> nat \<times> ulid" where
  "record_rank (REvidence i) = (0, i)"
| "record_rank (RClaim i) = (1, i)"
| "record_rank (REntity i) = (2, i)"
| "record_rank (RSemanticRelation i) = (3, i)"
| "record_rank (RProposal i) = (4, i)"
| "record_rank (RProposalReview i) = (5, i)"
| "record_rank (RArtifactCollection i) = (6, i)"
| "record_rank (RArtifactSnapshot i) = (7, i)"
| "record_rank (RArtifactPassage i) = (8, i)"

lemma scope_rank_inject: "scope_rank a = scope_rank b \<Longrightarrow> a = b"
  by (cases a; cases b) simp_all

lemma record_rank_inject: "record_rank a = record_rank b \<Longrightarrow> a = b"
  by (cases a; cases b) simp_all

instantiation scope :: linorder
begin

definition less_eq_scope :: "scope \<Rightarrow> scope \<Rightarrow> bool" where
  "less_eq_scope a b = (scope_rank a \<le> scope_rank b)"

definition less_scope :: "scope \<Rightarrow> scope \<Rightarrow> bool" where
  "less_scope a b = (scope_rank a < scope_rank b)"

instance
  by intro_classes
    (auto simp: less_eq_scope_def less_scope_def less_le_not_le intro: scope_rank_inject order_trans)

end

instantiation record_ref :: linorder
begin

definition less_eq_record_ref :: "record_ref \<Rightarrow> record_ref \<Rightarrow> bool" where
  "less_eq_record_ref a b = (record_rank a \<le> record_rank b)"

definition less_record_ref :: "record_ref \<Rightarrow> record_ref \<Rightarrow> bool" where
  "less_record_ref a b = (record_rank a < record_rank b)"

instance
  by intro_classes
    (auto simp: less_eq_record_ref_def less_record_ref_def less_le_not_le
      intro: record_rank_inject order_trans)

end

section \<open>Temporal facts\<close>

record temporal_facts =
  tf_observed_at_ms :: i64
  tf_source_at_ms :: "i64 option"
  tf_valid_from_ms :: "i64 option"
  tf_valid_to_ms :: "i64 option"

definition observed_at :: "i64 \<Rightarrow> temporal_facts" where
  "observed_at t = \<lparr>tf_observed_at_ms = t, tf_source_at_ms = None, tf_valid_from_ms = None, tf_valid_to_ms = None\<rparr>"

definition validate_temporal :: "temporal_facts \<Rightarrow> unit mres" where
  "validate_temporal t =
     (case (tf_valid_from_ms t, tf_valid_to_ms t) of
        (Some from, Some to) \<Rightarrow>
          if sint to \<le> sint from
          then Inl (MInvalidInput ''valid time must use a non-empty [from, to) interval'')
          else Inr ()
      | _ \<Rightarrow> Inr ())"

definition contains_valid_time :: "temporal_facts \<Rightarrow> i64 \<Rightarrow> bool" where
  "contains_valid_time t at \<longleftrightarrow>
     (case tf_valid_from_ms t of None \<Rightarrow> True | Some from \<Rightarrow> sint from \<le> sint at) \<and>
     (case tf_valid_to_ms t of None \<Rightarrow> True | Some to \<Rightarrow> sint at < sint to)"

section \<open>Evidence\<close>

record new_evidence =
  ne_class :: evidence_class
  ne_scope :: scope
  ne_temporal :: temporal_facts
  ne_lifecycle :: evidence_lifecycle
  ne_text :: string

record evidence_header =
  eh_id :: ulid
  eh_class :: evidence_class
  eh_captured_by :: actor
  eh_scope :: scope
  eh_temporal :: temporal_facts
  eh_lifecycle :: evidence_lifecycle_truth
  eh_recorded_at_ms :: i64
  eh_operation_id :: ulid

text \<open>
  \<^verbatim>\<open>EvidenceAvailabilityRevision\<close> and \<^verbatim>\<open>ArtifactAvailabilityRevision\<close> have the same fields, up to
  the name of the first one.
\<close>

record availability =
  av_id :: ulid
  av_revision :: u64
  av_state :: record_state
  av_recorded_at_ms :: i64
  av_operation_id :: ulid

record evidence_record =
  er_header :: evidence_header
  er_availability :: availability
  er_text :: "string option"

record evidence_receipt =
  vr_id :: ulid
  vr_availability_revision :: u64

section \<open>Artifacts\<close>

record new_artifact_collection =
  nac_label :: string

record collection_header =
  ach_id :: ulid
  ach_scope :: scope
  ach_created_by :: actor
  ach_recorded_at_ms :: i64
  ach_operation_id :: ulid

record collection_record =
  acr_header :: collection_header
  acr_availability :: availability
  acr_label :: "string option"

record collection_receipt =
  acp_id :: ulid
  acp_availability_revision :: u64

record new_artifact_snapshot =
  nas_collection_id :: ulid
  nas_expected_collection_revision :: u64
  nas_temporal :: temporal_facts
  nas_media_type :: string
  nas_bytes :: bytes

record snapshot_header =
  ash_id :: ulid
  ash_collection_id :: ulid
  ash_evidence_id :: ulid
  ash_scope :: scope
  ash_temporal :: temporal_facts
  ash_byte_len :: u64
  ash_recorded_at_ms :: i64
  ash_operation_id :: ulid

record snapshot_payload =
  asp_media_type :: string
  asp_content_digest :: digest

record snapshot_record =
  asr_header :: snapshot_header
  asr_availability :: availability
  asr_media_type :: "string option"
  asr_content_digest :: "digest option"
  asr_payload_available :: bool

record snapshot_blob =
  asb_id :: ulid
  asb_media_type :: string
  asb_content_digest :: digest
  asb_bytes :: bytes

record snapshot_receipt =
  ast_id :: ulid
  ast_availability_revision :: u64
  ast_evidence :: evidence_receipt

record artifact_range =
  ar_start :: u64
  ar_end_exclusive :: u64

record artifact_locator =
  al_ordinal :: u32
  al_byte_range :: "artifact_range option"
  al_page_range :: "artifact_range option"
  al_time_range_ms :: "artifact_range option"

record new_artifact_passage =
  nap_locator :: artifact_locator
  nap_text :: string

record new_artifact_passage_batch =
  npb_snapshot_id :: ulid
  npb_expected_snapshot_revision :: u64
  npb_passages :: "new_artifact_passage list"

record passage_header =
  aph_id :: ulid
  aph_collection_id :: ulid
  aph_snapshot_id :: ulid
  aph_evidence_id :: ulid
  aph_scope :: scope
  aph_temporal :: temporal_facts
  aph_locator :: artifact_locator
  aph_recorded_at_ms :: i64
  aph_operation_id :: ulid

record passage_record =
  apr_header :: passage_header
  apr_availability :: availability
  apr_text :: "string option"

record passage_receipt =
  app_id :: ulid
  app_availability_revision :: u64
  app_evidence :: evidence_receipt

datatype artifact_provenance =
    SnapshotProvenance ulid ulid u64
  | PassageProvenance ulid ulid ulid artifact_locator

section \<open>Claims, entities and relations\<close>

record new_claim =
  nc_domain :: claim_domain
  nc_scope :: scope
  nc_temporal :: temporal_facts
  nc_proposition :: string
  nc_evidence_ids :: "ulid list"

record remember_claim =
  rm_domain :: claim_domain
  rm_scope :: scope
  rm_temporal :: temporal_facts
  rm_evidence_text :: string
  rm_proposition :: string

record correct_claim =
  cc_target :: ulid
  cc_expected_revision :: u64
  cc_temporal :: temporal_facts
  cc_evidence_text :: string
  cc_replacement_proposition :: string

record claim_header =
  ch_id :: ulid
  ch_revision :: u64
  ch_previous_revision :: "u64 option"
  ch_domain :: claim_domain
  ch_scope :: scope
  ch_temporal :: temporal_facts
  ch_evidence_ids :: "ulid list"
  ch_state :: record_state
  ch_recorded_at_ms :: i64
  ch_operation_id :: ulid

record claim_record =
  cr_header :: claim_header
  cr_proposition :: "string option"

record record_receipt =
  rr_id :: ulid
  rr_revision :: u64
  rr_state :: record_state

record record_revision =
  rv_record :: record_ref
  rv_revision :: u64
  rv_state :: record_state

record remember_receipt =
  mr_evidence :: evidence_receipt
  mr_claim :: record_receipt

record correction_receipt =
  xr_evidence :: evidence_receipt
  xr_superseded :: record_revision
  xr_replacement :: record_receipt
  xr_supersedes_relation :: record_receipt
  xr_invalidated :: "record_revision list"

datatype entity_kind =
    Person | Organization | Place | Work | Concept | ArtifactEntity | EventEntity | OtherEntity

record entity_header =
  nh_id :: ulid
  nh_revision :: u64
  nh_previous_revision :: "u64 option"
  nh_kind :: entity_kind
  nh_scope :: scope
  nh_temporal :: temporal_facts
  nh_evidence_ids :: "ulid list"
  nh_state :: record_state
  nh_recorded_at_ms :: i64
  nh_operation_id :: ulid

record entity_payload =
  np_canonical_name :: string
  np_aliases :: "string list"

record entity_record =
  nr_header :: entity_header
  nr_canonical_name :: "string option"
  nr_aliases :: "string list"

datatype relation_kind =
    Supports | Contradicts | Supersedes | About | RefersTo | DerivedFrom | CanonicalizesTo

record new_relation =
  nl_from :: record_ref
  nl_to :: record_ref
  nl_kind :: relation_kind
  nl_scope :: scope
  nl_evidence_ids :: "ulid list"
  nl_qualifier :: "string option"

record relation_header =
  lh_id :: ulid
  lh_revision :: u64
  lh_previous_revision :: "u64 option"
  lh_from :: record_ref
  lh_to :: record_ref
  lh_kind :: relation_kind
  lh_scope :: scope
  lh_evidence_ids :: "ulid list"
  lh_state :: record_state
  lh_recorded_at_ms :: i64
  lh_operation_id :: ulid

record relation_payload =
  lp_qualifier :: "string option"

record relation_record =
  lr_header :: relation_header
  lr_qualifier :: "string option"
  lr_payload_available :: bool

section \<open>Pins, proposals and reviews\<close>

record record_pin =
  rp_record :: record_ref
  rp_revision :: u64

record evidence_pin =
  ep_id :: ulid
  ep_revision :: u64

datatype proposal_status =
    PendingReview | ReviewedApprove | ReviewedReject | NeedsUserStatus | Applied | Rejected
  | Stale | UnsupportedStatus

datatype proposal_endpoint = Draft ulid | Existing record_pin

datatype proposal_change =
    CreateClaim ulid claim_domain temporal_facts string "ulid list"
  | CreateEntity ulid entity_kind temporal_facts string "string list" "ulid list"
  | CreateRelation ulid proposal_endpoint proposal_endpoint relation_kind "ulid list" "string option"
  | RetractChange record_pin
  | SupersedeChange record_pin ulid

record proposal_header =
  ph_id :: ulid
  ph_revision :: u64
  ph_previous_revision :: "u64 option"
  ph_source_job_id :: ulid
  ph_scope :: scope
  ph_status :: proposal_status
  ph_state :: record_state
  ph_recorded_at_ms :: i64
  ph_operation_id :: ulid

record proposal_payload =
  pp_source_evidence :: "evidence_pin list"
  pp_changes :: "proposal_change list"

record proposal_record =
  pr_header :: proposal_header
  pr_source_evidence :: "evidence_pin list"
  pr_changes :: "proposal_change list option"

datatype review_verdict = Approve | Reject | NeedsUser | UnsupportedVerdict

datatype review_finding_code =
    EvidenceInsufficient | EvidenceContradiction | ScopeMismatchFinding | TemporalConflict
  | DuplicateRecord | UnsafeMutation | AmbiguousIdentity | UnsupportedChange

record review_finding =
  rf_code :: review_finding_code
  rf_change_index :: "u32 option"
  rf_pins :: "record_pin list"

record review_header =
  wh_id :: ulid
  wh_revision :: u64
  wh_previous_revision :: "u64 option"
  wh_proposal_id :: ulid
  wh_proposal_revision :: u64
  wh_recall_case_id :: ulid
  wh_recall_case_revision :: u64
  wh_verdict :: review_verdict
  wh_scope :: scope
  wh_state :: record_state
  wh_recorded_at_ms :: i64
  wh_operation_id :: ulid

record review_payload =
  wp_findings :: "review_finding list"

record review_case =
  wc_header :: review_header
  wc_findings :: "review_finding list option"

section \<open>Recall, audit, purge and stored operations\<close>

record memory_query =
  rq_text :: string
  rq_scopes :: "scope list"
  rq_observed_from_ms :: "i64 option"
  rq_observed_to_ms :: "i64 option"
  rq_valid_at_ms :: "i64 option"
  rq_limit :: nat

record evidence_citation =
  ec_id :: ulid
  ec_revision :: u64
  ec_class :: evidence_class
  ec_lifecycle :: evidence_lifecycle_truth
  ec_artifact :: "artifact_provenance option"

record citation =
  ci_record :: record_ref
  ci_revision :: u64
  ci_scope :: scope
  ci_temporal :: temporal_facts
  ci_evidence_ids :: "ulid list"
  ci_evidence :: "evidence_citation list"
  ci_text :: string
  ci_exact_match :: bool
  ci_matched_term_count :: u32

record recall_result =
  rs_case_id :: ulid
  rs_citations :: "citation list"

record case_candidate =
  kc_record :: record_ref
  kc_revision :: u64
  kc_rank :: u32
  kc_exact_match :: bool
  kc_matched_term_count :: u32

record recall_case =
  kr_id :: ulid
  kr_revision :: u64
  kr_era_id :: ulid
  kr_query_digest :: digest
  kr_scopes :: "scope list"
  kr_candidates :: "case_candidate list"
  kr_recorded_at_ms :: i64

datatype audit_action =
    EvidenceCaptured | ClaimCreated | RelationCreated | RecordRetracted | UserClaimRemembered
  | UserClaimCorrected | PurgeCommitted | ProposalSubmitted | ProposalReviewed
  | ProposalAdjudicated | RecallFeedbackRecorded | ArtifactCollectionCreated
  | ArtifactSnapshotImported | ArtifactPassagesCreated | RelationEvaluatorPut
  | RelationProfilePut | RelationSignalsPut | ShadowActivationRecorded
  | RelationEvaluatorStateChanged | RelationProfileStateChanged

datatype proposal_decision = AcceptDecision | RejectDecision

datatype adjudication_authority = ExplicitUser | ExplicitOperator

record adjudication_audit =
  aj_decision :: proposal_decision
  aj_authority :: adjudication_authority

datatype derived_record_ref =
    DRelationEvaluator ulid | DRelationProfile ulid | DRelationSignal ulid | DActivationTrace ulid

datatype audit_outcome = Committed

record audit_event =
  ae_id :: ulid
  ae_era_id :: ulid
  ae_operation_id :: ulid
  ae_actor :: actor
  ae_action :: audit_action
  ae_subjects :: "record_ref list"
  ae_derived_subjects :: "derived_record_ref list"
  ae_adjudication :: "adjudication_audit option"
  ae_outcome :: audit_outcome
  ae_recorded_at_ms :: i64

record purge_dependency =
  pd_record :: record_ref
  pd_expected_revision :: u64

record signal_pin =
  sp_id :: ulid
  sp_revision :: u64

text \<open>The header of a relation signal, a derived record that a purge erases as well.\<close>

record evaluator_pin =
  vp_id :: ulid
  vp_revision :: u64

record profile_pin =
  fp_id :: ulid
  fp_revision :: u64

record signal_header =
  gh_id :: ulid
  gh_revision :: u64
  gh_previous_revision :: "u64 option"
  gh_evaluator :: evaluator_pin
  gh_profile :: profile_pin
  gh_from :: record_pin
  gh_to :: record_pin
  gh_state :: record_state
  gh_recorded_at_ms :: i64
  gh_operation_id :: ulid

record purge_token =
  pt_era_id :: ulid
  pt_target :: record_ref
  pt_expected_revision :: u64
  pt_payloads_to_make_unavailable :: u32
  pt_issued_at_ms :: i64
  pt_expires_at_ms :: i64
  pt_invalidations :: "purge_dependency list"
  pt_relation_signal_invalidations :: "signal_pin list"
  pt_activation_trace_invalidations :: "ulid list"

record purge_preview =
  pv_target :: record_ref
  pv_expected_revision :: u64
  pv_payloads_to_make_unavailable :: u32
  pv_invalidations :: "purge_dependency list"
  pv_relation_signal_invalidations :: "signal_pin list"
  pv_activation_trace_invalidations :: "ulid list"
  pv_issued_at_ms :: i64
  pv_expires_at_ms :: i64
  pv_token :: digest

record purge_receipt =
  pq_target :: record_revision
  pq_invalidated :: "record_revision list"
  pq_purged_relation_signals :: "signal_pin list"
  pq_purged_activation_traces :: "ulid list"
  pq_payloads_made_unavailable :: u32

record retraction_receipt =
  tr_target :: record_revision
  tr_invalidated :: "record_revision list"

record stored_operation =
  so_digest :: digest
  so_receipt :: json

record lexical_document =
  ld_record :: record_ref
  ld_revision :: u64
  ld_scope :: scope
  ld_temporal :: temporal_facts
  ld_term_hashes :: "digest list"
  ld_exact_hash :: digest

end
