(* ===== verification/Memory_Keys.thy ===== *)
theory Memory_Keys
  imports Memory_Types
begin

text \<open>
  Partitions and keys of the memory store. A record key is a tag byte followed by the identifier,
  index keys are concatenations of such keys, digests and times. Every key can be read back, so
  keys of different records never coincide, and a range scan from a prefix to the prefix followed
  by \<^verbatim>\<open>0xff\<close> visits exactly the keys of that prefix. A time is stored with its sign bit flipped,
  which makes the byte order the order of signed times.
\<close>

unbundle bit_operations_syntax

section \<open>Partitions\<close>

datatype (plugins only: code) part =
    P_NATIVE_METADATA | P_EVIDENCE | P_EVIDENCE_AVAILABILITY | P_EVIDENCE_HEADS | P_CLAIMS
  | P_CLAIM_HEADS | P_RELATIONS | P_RELATION_HEADS | P_ENTITIES | P_ENTITY_HEADS | P_PROPOSALS
  | P_PROPOSAL_HEADS | P_PROPOSAL_SOURCES | P_PENDING_PROPOSALS | P_AWAITING_ADJUDICATION
  | P_PROPOSAL_REVIEWS | P_PROPOSAL_REVIEW_HEADS | P_LATEST_PROPOSAL_REVIEW | P_RECALL_FEEDBACK
  | P_ARTIFACT_COLLECTIONS | P_ARTIFACT_COLLECTION_AVAILABILITY | P_ARTIFACT_COLLECTION_HEADS
  | P_ARTIFACT_SNAPSHOTS | P_ARTIFACT_SNAPSHOT_AVAILABILITY | P_ARTIFACT_SNAPSHOT_HEADS
  | P_ARTIFACT_SNAPSHOT_BLOBS | P_ARTIFACT_PASSAGES | P_ARTIFACT_PASSAGE_AVAILABILITY
  | P_ARTIFACT_PASSAGE_HEADS | P_ARTIFACT_PASSAGE_ORDINALS | P_ARTIFACT_BY_EVIDENCE
  | P_PAYLOADS | P_LEXICAL_DOCS | P_LEXICAL_POSTINGS | P_TIME_INDEX | P_DEPENDENCIES
  | P_RECALL_CASES | P_RELATION_EVALUATORS | P_RELATION_EVALUATOR_HEADS | P_RELATION_PROFILES
  | P_RELATION_PROFILE_HEADS | P_RELATION_SIGNALS | P_RELATION_SIGNAL_HEADS
  | P_RELATION_SIGNAL_PAYLOADS | P_RELATION_SIGNAL_PAIRS | P_RELATION_SIGNALS_BY_RECORD
  | P_RELATION_SIGNALS_BY_EVALUATOR | P_RELATION_SIGNALS_BY_PROFILE | P_ACTIVATION_TRACES
  | P_ACTIVATION_TRACE_PAYLOADS | P_ACTIVATION_TRACES_BY_RECORD
  | P_ACTIVATION_TRACES_BY_EVALUATOR | P_ACTIVATION_TRACES_BY_PROFILE | P_AUDIT | P_OPERATIONS

primrec part_name :: "part \<Rightarrow> string" where
  "part_name P_NATIVE_METADATA = ''native_internal_metadata_v1''"
| "part_name P_EVIDENCE = ''native_evidence_headers_v1''"
| "part_name P_EVIDENCE_AVAILABILITY = ''native_evidence_availability_v1''"
| "part_name P_EVIDENCE_HEADS = ''native_evidence_heads_v1''"
| "part_name P_CLAIMS = ''native_claim_revisions_v1''"
| "part_name P_CLAIM_HEADS = ''native_claim_heads_v1''"
| "part_name P_RELATIONS = ''native_relation_revisions_v1''"
| "part_name P_RELATION_HEADS = ''native_relation_heads_v1''"
| "part_name P_ENTITIES = ''native_entity_revisions_v1''"
| "part_name P_ENTITY_HEADS = ''native_entity_heads_v1''"
| "part_name P_PROPOSALS = ''native_proposal_revisions_v1''"
| "part_name P_PROPOSAL_HEADS = ''native_proposal_heads_v1''"
| "part_name P_PROPOSAL_SOURCES = ''native_proposal_sources_v1''"
| "part_name P_PENDING_PROPOSALS = ''native_pending_proposals_v1''"
| "part_name P_AWAITING_ADJUDICATION = ''native_awaiting_adjudication_v1''"
| "part_name P_PROPOSAL_REVIEWS = ''native_proposal_review_revisions_v1''"
| "part_name P_PROPOSAL_REVIEW_HEADS = ''native_proposal_review_heads_v1''"
| "part_name P_LATEST_PROPOSAL_REVIEW = ''native_latest_proposal_review_v1''"
| "part_name P_RECALL_FEEDBACK = ''native_recall_feedback_v1''"
| "part_name P_ARTIFACT_COLLECTIONS = ''native_artifact_collection_headers_v1''"
| "part_name P_ARTIFACT_COLLECTION_AVAILABILITY = ''native_artifact_collection_availability_v1''"
| "part_name P_ARTIFACT_COLLECTION_HEADS = ''native_artifact_collection_heads_v1''"
| "part_name P_ARTIFACT_SNAPSHOTS = ''native_artifact_snapshot_headers_v1''"
| "part_name P_ARTIFACT_SNAPSHOT_AVAILABILITY = ''native_artifact_snapshot_availability_v1''"
| "part_name P_ARTIFACT_SNAPSHOT_HEADS = ''native_artifact_snapshot_heads_v1''"
| "part_name P_ARTIFACT_SNAPSHOT_BLOBS = ''native_artifact_snapshot_blobs_v1''"
| "part_name P_ARTIFACT_PASSAGES = ''native_artifact_passage_headers_v1''"
| "part_name P_ARTIFACT_PASSAGE_AVAILABILITY = ''native_artifact_passage_availability_v1''"
| "part_name P_ARTIFACT_PASSAGE_HEADS = ''native_artifact_passage_heads_v1''"
| "part_name P_ARTIFACT_PASSAGE_ORDINALS = ''native_artifact_passage_ordinals_v1''"
| "part_name P_ARTIFACT_BY_EVIDENCE = ''native_artifact_by_evidence_v1''"
| "part_name P_PAYLOADS = ''native_erasable_payloads_v1''"
| "part_name P_LEXICAL_DOCS = ''native_lexical_documents_v1''"
| "part_name P_LEXICAL_POSTINGS = ''native_lexical_postings_v1''"
| "part_name P_TIME_INDEX = ''native_observed_time_v1''"
| "part_name P_DEPENDENCIES = ''native_dependencies_v1''"
| "part_name P_RECALL_CASES = ''native_recall_cases_v1''"
| "part_name P_RELATION_EVALUATORS = ''native_relation_evaluator_revisions_v1''"
| "part_name P_RELATION_EVALUATOR_HEADS = ''native_relation_evaluator_heads_v1''"
| "part_name P_RELATION_PROFILES = ''native_relation_profile_revisions_v1''"
| "part_name P_RELATION_PROFILE_HEADS = ''native_relation_profile_heads_v1''"
| "part_name P_RELATION_SIGNALS = ''native_relation_signal_revisions_v1''"
| "part_name P_RELATION_SIGNAL_HEADS = ''native_relation_signal_heads_v1''"
| "part_name P_RELATION_SIGNAL_PAYLOADS = ''native_relation_signal_payloads_v1''"
| "part_name P_RELATION_SIGNAL_PAIRS = ''native_relation_signal_pairs_v1''"
| "part_name P_RELATION_SIGNALS_BY_RECORD = ''native_relation_signals_by_record_v1''"
| "part_name P_RELATION_SIGNALS_BY_EVALUATOR = ''native_relation_signals_by_evaluator_v1''"
| "part_name P_RELATION_SIGNALS_BY_PROFILE = ''native_relation_signals_by_profile_v1''"
| "part_name P_ACTIVATION_TRACES = ''native_activation_traces_v1''"
| "part_name P_ACTIVATION_TRACE_PAYLOADS = ''native_activation_trace_payloads_v1''"
| "part_name P_ACTIVATION_TRACES_BY_RECORD = ''native_activation_traces_by_record_v1''"
| "part_name P_ACTIVATION_TRACES_BY_EVALUATOR = ''native_activation_traces_by_evaluator_v1''"
| "part_name P_ACTIVATION_TRACES_BY_PROFILE = ''native_activation_traces_by_profile_v1''"
| "part_name P_AUDIT = ''native_audit_events_v1''"
| "part_name P_OPERATIONS = ''native_operations_v1''"

definition all_parts :: "part list" where
  "all_parts = [P_NATIVE_METADATA, P_EVIDENCE, P_EVIDENCE_AVAILABILITY, P_EVIDENCE_HEADS, P_CLAIMS, 
     P_CLAIM_HEADS, P_RELATIONS, P_RELATION_HEADS, P_ENTITIES, P_ENTITY_HEADS, P_PROPOSALS, 
     P_PROPOSAL_HEADS, P_PROPOSAL_SOURCES, P_PENDING_PROPOSALS, P_AWAITING_ADJUDICATION, 
     P_PROPOSAL_REVIEWS, P_PROPOSAL_REVIEW_HEADS, P_LATEST_PROPOSAL_REVIEW, P_RECALL_FEEDBACK, 
     P_ARTIFACT_COLLECTIONS, P_ARTIFACT_COLLECTION_AVAILABILITY, P_ARTIFACT_COLLECTION_HEADS, 
     P_ARTIFACT_SNAPSHOTS, P_ARTIFACT_SNAPSHOT_AVAILABILITY, P_ARTIFACT_SNAPSHOT_HEADS, 
     P_ARTIFACT_SNAPSHOT_BLOBS, P_ARTIFACT_PASSAGES, P_ARTIFACT_PASSAGE_AVAILABILITY, 
     P_ARTIFACT_PASSAGE_HEADS, P_ARTIFACT_PASSAGE_ORDINALS, P_ARTIFACT_BY_EVIDENCE, 
     P_PAYLOADS, P_LEXICAL_DOCS, P_LEXICAL_POSTINGS, P_TIME_INDEX, P_DEPENDENCIES, 
     P_RECALL_CASES, P_RELATION_EVALUATORS, P_RELATION_EVALUATOR_HEADS, P_RELATION_PROFILES, 
     P_RELATION_PROFILE_HEADS, P_RELATION_SIGNALS, P_RELATION_SIGNAL_HEADS, 
     P_RELATION_SIGNAL_PAYLOADS, P_RELATION_SIGNAL_PAIRS, P_RELATION_SIGNALS_BY_RECORD, 
     P_RELATION_SIGNALS_BY_EVALUATOR, P_RELATION_SIGNALS_BY_PROFILE, P_ACTIVATION_TRACES, 
     P_ACTIVATION_TRACE_PAYLOADS, P_ACTIVATION_TRACES_BY_RECORD, 
     P_ACTIVATION_TRACES_BY_EVALUATOR, P_ACTIVATION_TRACES_BY_PROFILE, P_AUDIT, P_OPERATIONS]"

section \<open>Keys\<close>

definition id_key :: "ulid \<Rightarrow> bytes" where
  "id_key i = u128_be i"

definition ulid_from_id_key :: "bytes \<Rightarrow> ulid mres" where
  "ulid_from_id_key key =
     (if length key \<noteq> 16 then Inl (MCorrupt ''invalid native ID key'') else Inr (u128_from_be key))"

definition revision_key :: "ulid \<Rightarrow> u64 \<Rightarrow> bytes" where
  "revision_key i revision = id_key i @ u64_be revision"

definition artifact_passage_ordinal_key :: "ulid \<Rightarrow> u32 \<Rightarrow> bytes" where
  "artifact_passage_ordinal_key snapshot_id ordinal = id_key snapshot_id @ u32_be ordinal"

fun record_tag :: "record_ref \<Rightarrow> byte \<times> ulid" where
  "record_tag (REvidence i) = (0x01, i)"
| "record_tag (RClaim i) = (0x02, i)"
| "record_tag (RSemanticRelation i) = (0x03, i)"
| "record_tag (REntity i) = (0x04, i)"
| "record_tag (RProposal i) = (0x05, i)"
| "record_tag (RProposalReview i) = (0x06, i)"
| "record_tag (RArtifactCollection i) = (0x07, i)"
| "record_tag (RArtifactSnapshot i) = (0x08, i)"
| "record_tag (RArtifactPassage i) = (0x09, i)"

definition record_key :: "record_ref \<Rightarrow> bytes" where
  "record_key r = (case record_tag r of (tag, i) \<Rightarrow> tag # id_key i)"

definition record_from_key :: "bytes \<Rightarrow> record_ref mres" where
  "record_from_key key =
     (if length key \<noteq> 17 then Inl (MCorrupt ''invalid record key'')
      else let i = u128_from_be (tl key); t = hd key in
        if t = 0x01 then Inr (REvidence i)
        else if t = 0x02 then Inr (RClaim i)
        else if t = 0x03 then Inr (RSemanticRelation i)
        else if t = 0x04 then Inr (REntity i)
        else if t = 0x05 then Inr (RProposal i)
        else if t = 0x06 then Inr (RProposalReview i)
        else if t = 0x07 then Inr (RArtifactCollection i)
        else if t = 0x08 then Inr (RArtifactSnapshot i)
        else if t = 0x09 then Inr (RArtifactPassage i)
        else Inl (MCorrupt ''unknown record key tag''))"

definition payload_key :: "record_ref \<Rightarrow> bytes" where
  "payload_key r = record_key r"

definition relation_signal_pair_key :: "ulid \<Rightarrow> record_ref \<Rightarrow> record_ref \<Rightarrow> bytes" where
  "relation_signal_pair_key profile_id from to = id_key profile_id @ record_key from @ record_key to"

definition relation_signal_record_index_key :: "record_ref \<Rightarrow> ulid \<Rightarrow> bytes" where
  "relation_signal_record_index_key r signal_id = record_key r @ id_key signal_id"

definition relation_signal_owner_index_key :: "ulid \<Rightarrow> ulid \<Rightarrow> bytes" where
  "relation_signal_owner_index_key owner_id signal_id = id_key owner_id @ id_key signal_id"

definition activation_trace_record_index_key :: "record_ref \<Rightarrow> ulid \<Rightarrow> bytes" where
  "activation_trace_record_index_key r trace_id = record_key r @ id_key trace_id"

definition activation_trace_owner_index_key :: "ulid \<Rightarrow> ulid \<Rightarrow> bytes" where
  "activation_trace_owner_index_key owner_id trace_id = id_key owner_id @ id_key trace_id"

definition dependency_key :: "record_ref \<Rightarrow> record_ref \<Rightarrow> bytes" where
  "dependency_key source dependent = record_key source @ record_key dependent"

definition posting_key :: "byte \<Rightarrow> digest \<Rightarrow> record_ref \<Rightarrow> bytes" where
  "posting_key domain h r = domain # h @ record_key r"

definition ordered_time :: "i64 \<Rightarrow> u64" where
  "ordered_time t = t XOR push_bit 63 1"

definition record_time_key :: "i64 \<Rightarrow> record_ref \<Rightarrow> bytes" where
  "record_time_key t r = u64_be (ordered_time t) @ record_key r"

definition audit_key :: "audit_event \<Rightarrow> bytes" where
  "audit_key e = u64_be (ae_recorded_at_ms e XOR push_bit 63 1) @ id_key (ae_id e)"

definition decode_u64 :: "bytes \<Rightarrow> u64 mres" where
  "decode_u64 bs =
     (if length bs \<noteq> 8 then Inl (MCorrupt ''expected an eight-byte integer'') else Inr (u64_from_be bs))"

section \<open>Partition names are distinct\<close>

lemma distinct_part_names: "distinct (map part_name all_parts)"
  by code_simp

lemma all_parts_complete: "p \<in> set all_parts"
  by (cases p) (simp_all add: all_parts_def)

lemma part_name_inject [simp]: "part_name p = part_name q \<longleftrightarrow> p = q"
proof -
  have "inj_on part_name (set all_parts)" using distinct_part_names by (simp add: distinct_map)
  then show ?thesis by (meson all_parts_complete inj_on_eq_iff)
qed

declare part_name.simps [simp del]

section \<open>Reading keys back\<close>

lemma length_id_key [simp]: "length (id_key i) = 16"
  by (simp add: id_key_def)

lemma id_key_inject [simp]: "id_key i = id_key j \<longleftrightarrow> i = j"
  by (simp add: id_key_def)

lemma ulid_from_id_key [simp]: "ulid_from_id_key (id_key i) = Inr i"
  by (simp add: ulid_from_id_key_def id_key_def)

lemma decode_u64_be [simp]: "decode_u64 (u64_be r) = Inr r"
  by (simp add: decode_u64_def)

lemma revision_key_inject [simp]: "revision_key i r = revision_key j s \<longleftrightarrow> i = j \<and> r = s"
  by (simp add: revision_key_def)

lemma length_record_key [simp]: "length (record_key r) = 17"
  by (simp add: record_key_def split_def)

lemma record_from_key_record_key [simp]: "record_from_key (record_key r) = Inr r"
  by (cases r) (simp_all add: record_from_key_def record_key_def id_key_def)

lemma record_key_inject [simp]: "record_key r = record_key s \<longleftrightarrow> r = s"
  by (metis record_from_key_record_key sum.inject(2))

lemma record_from_key_Inr: "record_from_key k = Inr r \<Longrightarrow> record_key r = k"
proof -
  assume r: "record_from_key k = Inr r"
  then have "length k = 17" by (simp add: record_from_key_def split: if_splits)
  then obtain t i where k: "k = t # i" "length i = 16" by (cases k) auto
  then have "id_key (u128_from_be i) = i" by (simp add: id_key_def word_be_from_be)
  then show ?thesis using r k by (simp add: record_from_key_def record_key_def Let_def split: if_splits) auto
qed

lemma dependency_key_inject [simp]:
  "dependency_key a b = dependency_key c d \<longleftrightarrow> a = c \<and> b = d"
  by (simp add: dependency_key_def)

lemma payload_key_inject [simp]: "payload_key r = payload_key s \<longleftrightarrow> r = s"
  by (simp add: payload_key_def)

lemma posting_key_inject:
  "length g = length h \<Longrightarrow> posting_key d g r = posting_key e h s \<longleftrightarrow> d = e \<and> g = h \<and> r = s"
  by (simp add: posting_key_def)

lemma hd_record_key: "hd (record_key r) < 0xff"
  by (cases r) (simp_all add: record_key_def)

lemma record_key_less_ff: "record_key r < [0xff]"
proof -
  obtain a k where "record_key r = a # k" by (metis length_record_key length_Suc_conv numeral_eq_Suc)
  then show ?thesis using hd_record_key [of r] by simp
qed

text \<open>A scan from a prefix to the prefix followed by \<^verbatim>\<open>0xff\<close> meets every key made of the prefix and a record.\<close>

lemma record_scan_interval: "p \<le> p @ record_key r \<and> p @ record_key r < p @ [0xff]"
  using prefix_interval [of p "p @ record_key r" "[0xff]"] record_key_less_ff by blast

lemma record_scan_prefix: "(p :: bytes) \<le> k \<and> k < p @ [0xff] \<Longrightarrow> prefix p k"
  using prefix_interval [of p k "[0xff]"] by (auto simp: prefix_def)

section \<open>Times\<close>

lemma xor_top_bit:
  fixes w :: u64
  assumes "\<not> bit w 63"
  shows "w XOR push_bit 63 1 = w + 2 ^ 63"
proof -
  have "w AND push_bit 63 1 = 0"
  proof (rule bit_word_eqI)
    fix n
    assume "n < LENGTH(64)"
    have "n = 63" if "bit (push_bit 63 1 :: u64) n"
      using that unfolding bit_push_bit_iff bit_1_iff by simp
    then show "bit (w AND push_bit 63 1) n \<longleftrightarrow> bit (0 :: u64) n" using assms by (auto simp: bit_and_iff)
  qed
  then have "w + push_bit 63 1 = w XOR push_bit 63 1" by (rule disjunctive_add_eq_xor)
  then show ?thesis by (simp add: push_bit_eq_mult)
qed

lemma top_bit_uint: "bit (w :: u64) 63 \<longleftrightarrow> 2 ^ 63 \<le> uint w"
proof -
  have "uint w < 2 ^ 64" using uint_lt2p [of w] by simp
  then have "uint w div 2 ^ 63 < 2" by simp
  moreover have "0 \<le> uint w div 2 ^ 63" by (rule pos_imp_zdiv_nonneg_iff [THEN iffD2]) simp_all
  ultimately have "uint w div 2 ^ 63 = 0 \<or> uint w div 2 ^ 63 = 1" by linarith
  then have "odd (uint w div 2 ^ 63) \<longleftrightarrow> uint w div 2 ^ 63 = 1" by auto
  moreover have "uint w div 2 ^ 63 = 1 \<longleftrightarrow> 2 ^ 63 \<le> uint w"
    using \<open>uint w < 2 ^ 64\<close> by (simp add: div_eq_dividend_iff) linarith
  moreover have "bit w 63 \<longleftrightarrow> odd (uint w div 2 ^ 63)"
    using bit_uint_iff [of w 63] by (simp add: bit_iff_odd [of "uint w"])
  ultimately show ?thesis by blast
qed

lemma uint_ordered_time: "uint (ordered_time t) = sint t + 2 ^ 63"
proof (cases "bit t 63")
  case False
  then have "uint t < 2 ^ 63" using top_bit_uint [of t] by simp
  moreover have "uint (t + 2 ^ 63) = (uint t + 2 ^ 63) mod 2 ^ 64"
    by (simp add: uint_word_ariths)
  ultimately have "uint (ordered_time t) = uint t + 2 ^ 63"
    unfolding ordered_time_def xor_top_bit [OF False] by simp
  moreover have "uint t = sint t" using \<open>uint t < 2 ^ 63\<close> uint_of_sint [of t] sint_ge [of t] by (simp split: if_splits)
  ultimately show ?thesis by simp
next
  case True
  let ?s = "ordered_time t"
  have n: "\<not> bit ?s 63"
    using True by (simp add: ordered_time_def bit_xor_iff bit_push_bit_iff bit_1_iff)
  have "t = ?s XOR push_bit 63 1" by (simp add: ordered_time_def xor.assoc)
  also have "\<dots> = ?s + 2 ^ 63" by (rule xor_top_bit [OF n])
  finally have "uint t = uint (?s + 2 ^ 63)" by (rule arg_cong)
  then have "uint t = (uint ?s + 2 ^ 63) mod 2 ^ 64" unfolding uint_word_ariths by simp
  moreover have "uint ?s < 2 ^ 63" using n top_bit_uint [of ?s] by simp
  ultimately have "uint t = uint ?s + 2 ^ 63" by simp
  moreover have "uint t = sint t + 2 ^ 64"
    using True top_bit_uint [of t] uint_of_sint [of t] sint_lt [of t] by (simp split: if_splits)
  ultimately show ?thesis by simp
qed

lemma ordered_time_less [simp]: "ordered_time a < ordered_time b \<longleftrightarrow> sint a < sint b"
  by (simp add: word_less_def uint_ordered_time)

lemma ordered_time_le [simp]: "ordered_time a \<le> ordered_time b \<longleftrightarrow> sint a \<le> sint b"
  by (simp add: word_le_def uint_ordered_time)

lemma ordered_time_inject [simp]: "ordered_time a = ordered_time b \<longleftrightarrow> a = b"
  by (metis linorder_neq_iff ordered_time_less signed_word_eqI)

lemma memory_time_key_inject [simp]: "record_time_key a r = record_time_key b s \<longleftrightarrow> a = b \<and> r = s"
  by (simp add: record_time_key_def)

lemma time_key_order: "sint a < sint b \<Longrightarrow> record_time_key a r < record_time_key b s"
  by (simp add: record_time_key_def append_less_append)

end
