(* ===== verification/Memory_Policy.thy ===== *)
theory Memory_Policy
  imports Memory_Keys
begin

text \<open>
  The input checks of the memory store: texts and ranges, who may capture which class of evidence
  in which life cycle, which classes of evidence can support a claim of which domain, who may
  activate claims and relations, and which endpoints a relation of each kind may have; and the
  text normalization and tokenization of the lexical index. The lower-case and alphanumeric
  tables of Unicode are parameters.
\<close>

section \<open>Limits\<close>

definition MAX_RECALL_LIMIT :: nat where "MAX_RECALL_LIMIT = 100"
definition MAX_RECALL_TERMS :: nat where "MAX_RECALL_TERMS = 64"
definition MAX_RECALL_CANDIDATES :: nat where "MAX_RECALL_CANDIDATES = 4096"
definition MAX_RECALL_SCOPES :: nat where "MAX_RECALL_SCOPES = 32"
definition MAX_TEXT_BYTES :: nat where "MAX_TEXT_BYTES = 64 * 1024"
definition MAX_EVIDENCE_TEXT_BYTES :: nat where "MAX_EVIDENCE_TEXT_BYTES = 1024 * 1024"
definition MAX_RECALL_QUERY_BYTES :: nat where "MAX_RECALL_QUERY_BYTES = 32 * 1024"
definition MAX_EVIDENCE_SOURCES :: nat where "MAX_EVIDENCE_SOURCES = 64"
definition MAX_INDEX_TERMS_PER_RECORD :: nat where "MAX_INDEX_TERMS_PER_RECORD = 8192"
definition MAX_SOURCE_EVENT_ID_BYTES :: nat where "MAX_SOURCE_EVENT_ID_BYTES = 256"
definition MAX_ARTIFACT_SNAPSHOT_BYTES :: nat where "MAX_ARTIFACT_SNAPSHOT_BYTES = 32 * 1024 * 1024"
definition MAX_ARTIFACT_LABEL_BYTES :: nat where "MAX_ARTIFACT_LABEL_BYTES = 1024"
definition MAX_ARTIFACT_MEDIA_TYPE_BYTES :: nat where "MAX_ARTIFACT_MEDIA_TYPE_BYTES = 1024"
definition MAX_ARTIFACT_PASSAGE_BATCH :: nat where "MAX_ARTIFACT_PASSAGE_BATCH = 512"
definition MAX_ARTIFACT_PASSAGE_BATCH_BYTES :: nat where
  "MAX_ARTIFACT_PASSAGE_BATCH_BYTES = 8 * 1024 * 1024"
definition PURGE_PREVIEW_TTL_MS :: int where "PURGE_PREVIEW_TTL_MS = 10 * 60 * 1000"

section \<open>Texts\<close>

definition exceeds :: "string \<Rightarrow> nat \<Rightarrow> memory_error" where
  "exceeds field limit = MInvalidInput (field @ '' exceeds '' @ show_nat limit @ '' bytes'')"

definition validate_text :: "string \<Rightarrow> string \<Rightarrow> string mres" where
  "validate_text text field =
     (let text = trim text in
      if text = [] then Inl (MInvalidInput (field @ '' cannot be empty''))
      else if MAX_TEXT_BYTES < length text then Inl (exceeds field MAX_TEXT_BYTES)
      else Inr text)"

definition validate_exact_bounded_text :: "string \<Rightarrow> string \<Rightarrow> nat \<Rightarrow> string mres" where
  "validate_exact_bounded_text text field max_bytes =
     (if trim text = [] then Inl (MInvalidInput (field @ '' cannot be empty''))
      else if max_bytes < length text then Inl (exceeds field max_bytes)
      else Inr text)"

definition validate_exact_evidence_text :: "string \<Rightarrow> string \<Rightarrow> string mres" where
  "validate_exact_evidence_text text field =
     (if trim text = [] then Inl (MInvalidInput (field @ '' cannot be empty''))
      else if MAX_EVIDENCE_TEXT_BYTES < length text then Inl (exceeds field MAX_EVIDENCE_TEXT_BYTES)
      else Inr text)"

section \<open>Authority\<close>

definition require_artifact_actor :: "actor \<Rightarrow> unit mres" where
  "require_artifact_actor a = (if a \<in> {User, System, Operator} then Inr () else Inl MUnauthorized)"

definition require_active_revision :: "record_state \<Rightarrow> u64 \<Rightarrow> u64 \<Rightarrow> unit mres" where
  "require_active_revision state actual expected =
     (if actual \<noteq> expected then Inl (MRevisionConflict expected actual)
      else if state \<noteq> Active then Inl (MInvalidInput ''artifact parent is not active'')
      else Inr ())"

definition source_event_id_error :: memory_error where
  "source_event_id_error =
     MInvalidInput (''terminal source event ID must contain 1..='' @ show_nat MAX_SOURCE_EVENT_ID_BYTES @ '' bytes'')"

fun capture_authorized :: "evidence_class \<Rightarrow> actor \<Rightarrow> bool" where
  "capture_authorized UserAssertion a = (a = User)"
| "capture_authorized UserCorrection a = (a = User)"
| "capture_authorized ImportedSource a = (a \<in> {User, System, Operator})"
| "capture_authorized ToolObservation a = (a \<in> {System, Operator})"
| "capture_authorized ActionOutcome a = (a \<in> {System, Operator})"
| "capture_authorized SystemObservation a = (a \<in> {System, Operator})"
| "capture_authorized AssistantCommitment a = (a \<in> {System, Operator})"
| "capture_authorized AssistantUtterance a = (a \<in> {Assistant, System, Operator})"
| "capture_authorized ArtifactSnapshotEvidence a = False"
| "capture_authorized ArtifactPassageEvidence a = False"

fun lifecycle_is_valid :: "evidence_class \<Rightarrow> evidence_lifecycle \<Rightarrow> bool" where
  "lifecycle_is_valid AssistantCommitment l =
     (case l of TerminalTurn _ TurnCompleted \<Rightarrow> True | _ \<Rightarrow> False)"
| "lifecycle_is_valid ToolObservation l = True"
| "lifecycle_is_valid ActionOutcome l = True"
| "lifecycle_is_valid AssistantUtterance l = True"
| "lifecycle_is_valid _ l = (l = Direct)"

text \<open>
  The two artifact classes are refused before the authority test, whose arm for them is
  unreachable in the source.
\<close>

definition validate_evidence_capture :: "actor \<Rightarrow> evidence_class \<Rightarrow> evidence_lifecycle \<Rightarrow> unit mres" where
  "validate_evidence_capture a c l =
     (if c \<in> {ArtifactSnapshotEvidence, ArtifactPassageEvidence}
      then Inl (MInvalidInput ''artifact evidence must be created through the first-class artifact API'')
      else if \<not> capture_authorized c a then Inl MUnauthorized
      else if (case l of Direct \<Rightarrow> False
                | TerminalTurn s _ \<Rightarrow> s = [] \<or> MAX_SOURCE_EVENT_ID_BYTES < length s)
      then Inl source_event_id_error
      else if \<not> lifecycle_is_valid c l
      then Inl (MInvalidInput ''evidence class is incompatible with its capture lifecycle'')
      else Inr ())"

fun source_is_admissible :: "evidence_class \<Rightarrow> claim_domain \<Rightarrow> bool" where
  "source_is_admissible UserAssertion d = (d \<in> {UserProfile, UserPreference, UserNote, SessionContext})"
| "source_is_admissible UserCorrection d =
     (d \<in> {UserProfile, UserPreference, UserNote, ExternalFact, WorkspaceFact, SessionContext})"
| "source_is_admissible ImportedSource d = (d \<in> {ExternalFact, WorkspaceFact, ArtifactContent})"
| "source_is_admissible ToolObservation d = (d \<in> {ExternalFact, WorkspaceFact, SessionContext, SystemFact})"
| "source_is_admissible ActionOutcome d = (d \<in> {ExternalFact, WorkspaceFact, SessionContext, SystemFact})"
| "source_is_admissible AssistantCommitment d = (d = CommitmentDomain)"
| "source_is_admissible AssistantUtterance d = False"
| "source_is_admissible SystemObservation d = (d \<in> {SessionContext, SystemFact})"
| "source_is_admissible ArtifactSnapshotEvidence d = (d \<in> {ArtifactContent, ExternalFact, WorkspaceFact})"
| "source_is_admissible ArtifactPassageEvidence d = (d \<in> {ArtifactContent, ExternalFact, WorkspaceFact})"

fun validate_claim_activation :: "actor \<Rightarrow> claim_domain \<Rightarrow> evidence_class list \<Rightarrow> unit mres" where
  "validate_claim_activation a d classes =
     (let authorized =
        (case a of
           Assistant \<Rightarrow> False
         | System \<Rightarrow> True
         | Operator \<Rightarrow> True
         | User \<Rightarrow> d \<in> {UserProfile, UserPreference, UserNote, SessionContext} \<and>
                    list_all (\<lambda>c. c \<in> {UserAssertion, UserCorrection}) classes)
      in if authorized then Inr () else Inl MUnauthorized)"

fun validate_relation_activation :: "actor \<Rightarrow> evidence_class list \<Rightarrow> unit mres" where
  "validate_relation_activation a classes =
     (let authorized =
        (case a of
           Assistant \<Rightarrow> False
         | System \<Rightarrow> True
         | Operator \<Rightarrow> True
         | User \<Rightarrow> list_all (\<lambda>c. c \<in> {UserAssertion, UserCorrection}) classes)
      in if authorized then Inr () else Inl MUnauthorized)"

section \<open>Relation endpoints\<close>

datatype endpoint_kind = EvidenceEnd | ClaimEnd | EntityEnd

fun semantic_endpoint_kind :: "record_ref \<Rightarrow> endpoint_kind option" where
  "semantic_endpoint_kind (REvidence _) = Some EvidenceEnd"
| "semantic_endpoint_kind (RClaim _) = Some ClaimEnd"
| "semantic_endpoint_kind (REntity _) = Some EntityEnd"
| "semantic_endpoint_kind _ = None"

fun endpoint_kinds_valid :: "relation_kind \<Rightarrow> endpoint_kind \<Rightarrow> endpoint_kind \<Rightarrow> bool" where
  "endpoint_kinds_valid Supports f t = (f \<in> {EvidenceEnd, ClaimEnd} \<and> t = ClaimEnd)"
| "endpoint_kinds_valid Contradicts f t = (f \<in> {EvidenceEnd, ClaimEnd} \<and> t = ClaimEnd)"
| "endpoint_kinds_valid Supersedes f t =
     ((f, t) \<in> {(ClaimEnd, ClaimEnd), (EntityEnd, EntityEnd)})"
| "endpoint_kinds_valid About f t =
     ((f, t) \<in> {(EntityEnd, EvidenceEnd), (EntityEnd, ClaimEnd), (EvidenceEnd, EntityEnd), (ClaimEnd, EntityEnd)})"
| "endpoint_kinds_valid RefersTo f t = (t = EntityEnd \<and> f \<in> {EvidenceEnd, ClaimEnd, EntityEnd})"
| "endpoint_kinds_valid DerivedFrom f t = (f \<in> {ClaimEnd, EntityEnd})"
| "endpoint_kinds_valid CanonicalizesTo f t = (f = EntityEnd \<and> t = EntityEnd)"

fun relation_kind_debug :: "relation_kind \<Rightarrow> string" where
  "relation_kind_debug Supports = ''Supports''"
| "relation_kind_debug Contradicts = ''Contradicts''"
| "relation_kind_debug Supersedes = ''Supersedes''"
| "relation_kind_debug About = ''About''"
| "relation_kind_debug RefersTo = ''RefersTo''"
| "relation_kind_debug DerivedFrom = ''DerivedFrom''"
| "relation_kind_debug CanonicalizesTo = ''CanonicalizesTo''"

definition validate_relation_endpoint_kinds ::
    "relation_kind \<Rightarrow> endpoint_kind \<Rightarrow> endpoint_kind \<Rightarrow> unit mres" where
  "validate_relation_endpoint_kinds kind from to =
     (if endpoint_kinds_valid kind from to then Inr ()
      else if kind = Supersedes
      then Inl (MInvalidInput ''Supersedes requires same-kind claim or entity endpoints'')
      else Inl (MInvalidInput (relation_kind_debug kind @ '' relation endpoints do not match the relation kind'')))"

section \<open>Characters, normalization and tokens\<close>

record unicode =
  uc_to_lowercase :: "nat \<Rightarrow> nat list"
  uc_is_alphanumeric :: "nat \<Rightarrow> bool"

text \<open>The scalar values of a string and the UTF-8 bytes of a scalar value.\<close>

definition cont_bits :: "nat list \<Rightarrow> nat \<Rightarrow> nat" where
  "cont_bits s i = (if i < length s then s ! i mod 64 else 0)"

function utf8_chars :: "nat list \<Rightarrow> nat list" where
  "utf8_chars [] = []"
| "utf8_chars (a # s) =
     (if a < 0x80 then a # utf8_chars s
      else if a < 0xE0 then (a mod 32 * 64 + cont_bits s 0) # utf8_chars (drop 1 s)
      else if a < 0xF0
      then ((a mod 16 * 64 + cont_bits s 0) * 64 + cont_bits s 1) # utf8_chars (drop 2 s)
      else (((a mod 8 * 64 + cont_bits s 0) * 64 + cont_bits s 1) * 64 + cont_bits s 2) # utf8_chars (drop 3 s))"
  by pat_completeness auto
termination by (relation "measure length") auto

definition chars :: "string \<Rightarrow> nat list" where
  "chars s = utf8_chars (map of_char s)"

definition char_bytes :: "nat \<Rightarrow> string" where
  "char_bytes c = map char_of
     (if c < 0x80 then [c]
      else if c < 0x800 then [0xC0 + c div 64, 0x80 + c mod 64]
      else if c < 0x10000 then [0xE0 + c div 4096, 0x80 + c div 64 mod 64, 0x80 + c mod 64]
      else [0xF0 + c div 262144, 0x80 + c div 4096 mod 64, 0x80 + c div 64 mod 64, 0x80 + c mod 64 :: nat])"

definition string_of_chars :: "nat list \<Rightarrow> string" where
  "string_of_chars cs = concat (map char_bytes cs)"

definition is_whitespace :: "nat \<Rightarrow> bool" where
  "is_whitespace c \<longleftrightarrow> 9 \<le> c \<and> c \<le> 13
     \<or> c \<in> set [0x20, 0x85, 0xA0, 0x1680, 0x2028, 0x2029, 0x202F, 0x205F, 0x3000]
     \<or> 0x2000 \<le> c \<and> c \<le> 0x200A"

definition is_cjk :: "nat \<Rightarrow> bool" where
  "is_cjk c \<longleftrightarrow> 0x3400 \<le> c \<and> c \<le> 0x4dbf \<or> 0x4e00 \<le> c \<and> c \<le> 0x9fff \<or> 0xf900 \<le> c \<and> c \<le> 0xfaff"

definition lower_chars :: "unicode \<Rightarrow> string \<Rightarrow> nat list" where
  "lower_chars u s = concat (map (uc_to_lowercase u) (chars s))"

fun normalize_loop :: "nat list \<Rightarrow> bool \<Rightarrow> nat list \<Rightarrow> nat list" where
  "normalize_loop out pending [] = out"
| "normalize_loop out pending (c # cs) =
     (if is_whitespace c then normalize_loop out (out \<noteq> []) cs
      else normalize_loop (out @ (if pending then [32] else []) @ [c]) False cs)"

definition normalize_exact :: "unicode \<Rightarrow> string \<Rightarrow> string" where
  "normalize_exact u input = string_of_chars (normalize_loop [] False (lower_chars u input))"

definition flush_token :: "nat list \<Rightarrow> nat list list" where
  "flush_token word = (if word = [] then [] else [take 128 word])"

fun windows2 :: "'a list \<Rightarrow> 'a list list" where
  "windows2 (a # b # s) = [a, b] # windows2 (b # s)"
| "windows2 _ = []"

definition flush_cjk :: "nat list \<Rightarrow> nat list list" where
  "flush_cjk cjk = map (\<lambda>c. [c]) cjk @ windows2 cjk"

fun tokenize_loop :: "unicode \<Rightarrow> nat list list \<Rightarrow> nat list \<Rightarrow> nat list \<Rightarrow> nat list \<Rightarrow> nat list list" where
  "tokenize_loop u tokens word cjk [] = tokens @ flush_token word @ flush_cjk cjk"
| "tokenize_loop u tokens word cjk (c # cs) =
     (if is_cjk c then tokenize_loop u (tokens @ flush_token word) [] (cjk @ [c]) cs
      else if uc_is_alphanumeric u c \<or> c = 95
      then tokenize_loop u (tokens @ flush_cjk cjk) (word @ [c]) [] cs
      else tokenize_loop u (tokens @ flush_token word @ flush_cjk cjk) [] [] cs)"

definition tokenize :: "unicode \<Rightarrow> string \<Rightarrow> string list" where
  "tokenize u input = map string_of_chars (tokenize_loop u [] [] [] (lower_chars u input))"

section \<open>Artifact passages\<close>

definition validate_artifact_range :: "artifact_range \<Rightarrow> string \<Rightarrow> unit mres" where
  "validate_artifact_range rng field =
     (if ar_end_exclusive rng \<le> ar_start rng
      then Inl (MInvalidInput (field @ '' must be a non-empty [start, end) range'')) else Inr ())"

fun validate_ranges :: "(artifact_range option \<times> string) list \<Rightarrow> unit mres" where
  "validate_ranges [] = Inr ()"
| "validate_ranges ((r, field) # rs) =
     bind_res (case r of None \<Rightarrow> Inr () | Some rng \<Rightarrow> validate_artifact_range rng field)
       (\<lambda>_. validate_ranges rs)"

fun validate_passages :: "unicode \<Rightarrow> nat \<Rightarrow> u32 option \<Rightarrow> new_artifact_passage list \<Rightarrow> new_artifact_passage list mres" where
  "validate_passages u aggregate previous [] = Inr []"
| "validate_passages u aggregate previous (p # ps) =
     bind_res (validate_exact_bounded_text (nap_text p) ''artifact passage text'' MAX_TEXT_BYTES) (\<lambda>text.
     let aggregate = aggregate + length text; l = nap_locator p in
     if usize_max < aggregate then Inl (MInvalidInput ''artifact passage byte count overflow'')
     else if MAX_ARTIFACT_PASSAGE_BATCH_BYTES < aggregate
     then Inl (MInvalidInput (''artifact passage batch exceeds '' @ show_nat MAX_ARTIFACT_PASSAGE_BATCH_BYTES @ '' text bytes''))
     else if (case previous of None \<Rightarrow> False | Some ordinal \<Rightarrow> al_ordinal l \<le> ordinal)
     then Inl (MInvalidInput ''artifact passage locators must have strictly increasing ordinals'')
     else bind_res (validate_ranges
            [(al_byte_range l, ''artifact byte range''), (al_page_range l, ''artifact page range''),
             (al_time_range_ms l, ''artifact time range'')]) (\<lambda>_.
          if MAX_INDEX_TERMS_PER_RECORD < length (tokenize u text)
          then Inl (MInvalidInput (''indexed text exceeds '' @ show_nat MAX_INDEX_TERMS_PER_RECORD @ '' terms''))
          else bind_res (validate_passages u aggregate (Some (al_ordinal l)) ps) (\<lambda>rest.
               Inr (p\<lparr>nap_text := text\<rparr> # rest))))"

definition validate_artifact_passage_batch :: "unicode \<Rightarrow> new_artifact_passage_batch \<Rightarrow> new_artifact_passage_batch mres" where
  "validate_artifact_passage_batch u input =
     (if npb_passages input = [] \<or> MAX_ARTIFACT_PASSAGE_BATCH < length (npb_passages input)
      then Inl (MInvalidInput (''artifact passage batch must contain 1..='' @ show_nat MAX_ARTIFACT_PASSAGE_BATCH @ '' passages''))
      else bind_res (validate_passages u 0 None (npb_passages input)) (\<lambda>ps.
           Inr (input\<lparr>npb_passages := ps\<rparr>)))"

end
