(* ===== verification/Memory_Store.thy ===== *)
theory Memory_Store
  imports Memory_Policy
begin

text \<open>
  The store of \<^verbatim>\<open>native_memory.rs\<close>: the database handle, reading records, appending revisions, the
  lexical index, the dependency closure, and the bookkeeping every mutation shares (digest,
  replay, audit event, stored operation). The key-value engine, the JSON codec, the hash function
  \<^verbatim>\<open>blake3\<close>, the text form of identifiers and the Unicode tables are third-party code or tables and
  fields of the handle; the clock and the generator of identifiers are the environment of one
  operation, read in the order of the source. An operation computes its whole batch against the
  state it found and commits it at the end.
\<close>

section \<open>The handle and the environment\<close>

text \<open>Receipts are stored as JSON values inside a stored operation.\<close>

record 'a value_codec =
  to_value :: "'a \<Rightarrow> string + json"
  from_value :: "json \<Rightarrow> string + 'a"

text \<open>The inputs whose serialized form a mutation digest covers.\<close>

datatype mutation =
    MuCapture new_evidence
  | MuRetract record_ref u64
  | MuRemember remember_claim
  | MuCorrect correct_claim
  | MuClaim new_claim
  | MuRelation new_relation
  | MuCollection new_artifact_collection
  | MuPassages new_artifact_passage_batch
  | MuPurge purge_preview

record memory_codecs =
  mc_evidence :: "evidence_header codec"
  mc_evidence_availability :: "availability codec"
  mc_claim :: "claim_header codec"
  mc_entity :: "entity_header codec"
  mc_entity_payload :: "entity_payload codec"
  mc_relation :: "relation_header codec"
  mc_relation_payload :: "relation_payload codec"
  mc_proposal :: "proposal_header codec"
  mc_proposal_payload :: "proposal_payload codec"
  mc_review :: "review_header codec"
  mc_review_payload :: "review_payload codec"
  mc_collection :: "collection_header codec"
  mc_snapshot :: "snapshot_header codec"
  mc_snapshot_payload :: "snapshot_payload codec"
  mc_passage :: "passage_header codec"
  mc_artifact_availability :: "availability codec"
  mc_provenance :: "artifact_provenance codec"
  mc_lexical :: "lexical_document codec"
  mc_recall_case :: "recall_case codec"
  mc_audit :: "audit_event codec"
  mc_operation :: "stored_operation codec"
  mc_signal :: "signal_header codec"

record memory_receipts =
  vc_evidence :: "evidence_receipt value_codec"
  vc_retraction :: "retraction_receipt value_codec"
  vc_remember :: "remember_receipt value_codec"
  vc_correction :: "correction_receipt value_codec"
  vc_record :: "record_receipt value_codec"
  vc_collection :: "collection_receipt value_codec"
  vc_snapshot :: "snapshot_receipt value_codec"
  vc_passages :: "passage_receipt list value_codec"
  vc_purge :: "purge_receipt value_codec"

record 'ks memory_db =
  md_kv :: "'ks kv"
  md_codecs :: memory_codecs
  md_receipts :: memory_receipts
  md_era_id :: ulid
  md_digest_key :: bytes
  md_keyed_hash :: "bytes \<Rightarrow> bytes \<Rightarrow> digest"
  md_hash :: "bytes \<Rightarrow> digest"
  md_digest_input :: "string \<Rightarrow> actor \<Rightarrow> mutation \<Rightarrow> string + bytes"
  md_snapshot_metadata :: "ulid \<Rightarrow> u64 \<Rightarrow> temporal_facts \<Rightarrow> string \<Rightarrow> string + bytes"
  md_query_bytes :: "memory_query \<Rightarrow> string + bytes"
  md_purge_token :: "purge_token \<Rightarrow> string + bytes"
  md_show_id :: "ulid \<Rightarrow> string"
  md_utf8_error :: "bytes \<Rightarrow> string"
  md_unicode :: unicode

record env =
  env_now :: "nat \<Rightarrow> i64"
  env_ids :: "nat \<Rightarrow> ulid"

abbreviation (input) put :: "part \<Rightarrow> bytes \<Rightarrow> bytes \<Rightarrow> batch_op" where
  "put p k v \<equiv> BInsert (part_name p) k v"

abbreviation (input) rem :: "part \<Rightarrow> bytes \<Rightarrow> batch_op" where
  "rem p k \<equiv> BRemove (part_name p) k"

section \<open>Reads\<close>

definition encode :: "'a codec \<Rightarrow> 'a \<Rightarrow> bytes mres" where
  "encode c x = map_err MCodec (ser c x)"

definition kv_read :: "'ks memory_db \<Rightarrow> 'ks \<Rightarrow> part \<Rightarrow> bytes \<Rightarrow> bytes option mres" where
  "kv_read db ks p key = map_err MStorage (kv_get (md_kv db) ks (part_name p) key)"

definition get_decoded :: "'ks memory_db \<Rightarrow> 'ks \<Rightarrow> 'a codec \<Rightarrow> part \<Rightarrow> bytes \<Rightarrow> 'a option mres" where
  "get_decoded db ks c p key =
     bind_res (kv_read db ks p key) (\<lambda>v.
     case v of
       None \<Rightarrow> Inr None
     | Some b \<Rightarrow> bind_res (map_err MCodec (de c b)) (\<lambda>x. Inr (Some x)))"

definition get_payload :: "'ks memory_db \<Rightarrow> 'ks \<Rightarrow> record_ref \<Rightarrow> string option mres" where
  "get_payload db ks r =
     bind_res (kv_read db ks P_PAYLOADS (payload_key r)) (\<lambda>v.
     case v of
       None \<Rightarrow> Inr None
     | Some b \<Rightarrow> (case from_utf8 b of
           None \<Rightarrow> Inl (MCorrupt (md_utf8_error db b))
         | Some s \<Rightarrow> Inr (Some s)))"

definition get_head :: "'ks memory_db \<Rightarrow> 'ks \<Rightarrow> part \<Rightarrow> ulid \<Rightarrow> u64 option mres" where
  "get_head db ks p i =
     bind_res (kv_read db ks p (id_key i)) (\<lambda>v.
     case v of None \<Rightarrow> Inr None | Some b \<Rightarrow> bind_res (decode_u64 b) (\<lambda>r. Inr (Some r)))"

abbreviation (input) show_rev :: "u64 \<Rightarrow> string" where
  "show_rev r \<equiv> show_nat (unat r)"

text \<open>A payload that a purged record no longer has.\<close>

definition unless_purged :: "record_state \<Rightarrow> 'a option mres \<Rightarrow> 'a option mres" where
  "unless_purged state r = (if state = Purged then Inr None else r)"

definition inspect_evidence :: "'ks memory_db \<Rightarrow> 'ks \<Rightarrow> ulid \<Rightarrow> evidence_record option mres" where
  "inspect_evidence db ks i =
     bind_res (get_decoded db ks (mc_evidence (md_codecs db)) P_EVIDENCE (id_key i)) (\<lambda>h.
     case h of
       None \<Rightarrow> Inr None
     | Some header \<Rightarrow>
         bind_res (get_head db ks P_EVIDENCE_HEADS i) (\<lambda>r.
         bind_res (ok_or (MCorrupt (''evidence '' @ md_show_id db i @ '' has no head'')) r) (\<lambda>revision.
         bind_res (get_decoded db ks (mc_evidence_availability (md_codecs db)) P_EVIDENCE_AVAILABILITY
                     (revision_key i revision)) (\<lambda>a.
         bind_res (ok_or (MCorrupt (''evidence '' @ md_show_id db i @
                     '' is missing availability revision '' @ show_rev revision)) a) (\<lambda>availability.
         bind_res (unless_purged (av_state availability) (get_payload db ks (REvidence i))) (\<lambda>text.
         Inr (Some \<lparr>er_header = header, er_availability = availability, er_text = text\<rparr>)))))))"

definition inspect_claim :: "'ks memory_db \<Rightarrow> 'ks \<Rightarrow> ulid \<Rightarrow> claim_record option mres" where
  "inspect_claim db ks i =
     bind_res (get_head db ks P_CLAIM_HEADS i) (\<lambda>r.
     case r of
       None \<Rightarrow> Inr None
     | Some revision \<Rightarrow>
         bind_res (get_decoded db ks (mc_claim (md_codecs db)) P_CLAIMS (revision_key i revision)) (\<lambda>h.
         bind_res (ok_or (MCorrupt (''claim '' @ md_show_id db i @ '' is missing revision '' @ show_rev revision)) h)
           (\<lambda>header.
         bind_res (unless_purged (ch_state header) (get_payload db ks (RClaim i))) (\<lambda>proposition.
         Inr (Some \<lparr>cr_header = header, cr_proposition = proposition\<rparr>)))))"

definition entity_record_of :: "entity_header \<Rightarrow> entity_payload option \<Rightarrow> entity_record" where
  "entity_record_of header payload =
     \<lparr>nr_header = header, nr_canonical_name = map_option np_canonical_name payload,
      nr_aliases = (case payload of None \<Rightarrow> [] | Some p \<Rightarrow> np_aliases p)\<rparr>"

definition inspect_entity :: "'ks memory_db \<Rightarrow> 'ks \<Rightarrow> ulid \<Rightarrow> entity_record option mres" where
  "inspect_entity db ks i =
     bind_res (get_head db ks P_ENTITY_HEADS i) (\<lambda>r.
     case r of
       None \<Rightarrow> Inr None
     | Some revision \<Rightarrow>
         bind_res (get_decoded db ks (mc_entity (md_codecs db)) P_ENTITIES (revision_key i revision)) (\<lambda>h.
         bind_res (ok_or (MCorrupt (''entity '' @ md_show_id db i @ '' is missing revision '' @ show_rev revision)) h)
           (\<lambda>header.
         bind_res (get_decoded db ks (mc_entity_payload (md_codecs db)) P_PAYLOADS (payload_key (REntity i))) (\<lambda>payload.
         Inr (Some (entity_record_of header payload))))))"

definition relation_record_of :: "relation_header \<Rightarrow> relation_payload option \<Rightarrow> relation_record" where
  "relation_record_of header payload =
     \<lparr>lr_header = header, lr_qualifier = Option.bind payload lp_qualifier,
      lr_payload_available = (payload \<noteq> None)\<rparr>"

definition inspect_semantic_relation :: "'ks memory_db \<Rightarrow> 'ks \<Rightarrow> ulid \<Rightarrow> relation_record option mres" where
  "inspect_semantic_relation db ks i =
     bind_res (get_head db ks P_RELATION_HEADS i) (\<lambda>r.
     case r of
       None \<Rightarrow> Inr None
     | Some revision \<Rightarrow>
         bind_res (get_decoded db ks (mc_relation (md_codecs db)) P_RELATIONS (revision_key i revision)) (\<lambda>h.
         bind_res (ok_or (MCorrupt (''relation '' @ md_show_id db i @ '' is missing revision '' @ show_rev revision)) h)
           (\<lambda>header.
         bind_res (unless_purged (lh_state header)
                     (get_decoded db ks (mc_relation_payload (md_codecs db)) P_PAYLOADS (payload_key (RSemanticRelation i))))
           (\<lambda>payload.
         Inr (Some (relation_record_of header payload))))))"

definition inspect_proposal_revision :: "'ks memory_db \<Rightarrow> 'ks \<Rightarrow> ulid \<Rightarrow> u64 \<Rightarrow> proposal_record option mres" where
  "inspect_proposal_revision db ks i revision =
     bind_res (get_decoded db ks (mc_proposal (md_codecs db)) P_PROPOSALS (revision_key i revision)) (\<lambda>h.
     case h of
       None \<Rightarrow> Inr None
     | Some header \<Rightarrow>
         bind_res (get_decoded db ks (mc_proposal_payload (md_codecs db)) P_PAYLOADS (payload_key (RProposal i))) (\<lambda>payload.
         Inr (Some \<lparr>pr_header = header,
                    pr_source_evidence = (case payload of None \<Rightarrow> [] | Some p \<Rightarrow> pp_source_evidence p),
                    pr_changes = map_option pp_changes payload\<rparr>)))"

definition inspect_proposal :: "'ks memory_db \<Rightarrow> 'ks \<Rightarrow> ulid \<Rightarrow> proposal_record option mres" where
  "inspect_proposal db ks i =
     bind_res (get_head db ks P_PROPOSAL_HEADS i) (\<lambda>r.
     case r of None \<Rightarrow> Inr None | Some revision \<Rightarrow> inspect_proposal_revision db ks i revision)"

definition inspect_proposal_review_revision :: "'ks memory_db \<Rightarrow> 'ks \<Rightarrow> ulid \<Rightarrow> u64 \<Rightarrow> review_case option mres" where
  "inspect_proposal_review_revision db ks i revision =
     bind_res (get_decoded db ks (mc_review (md_codecs db)) P_PROPOSAL_REVIEWS (revision_key i revision)) (\<lambda>h.
     case h of
       None \<Rightarrow> Inr None
     | Some header \<Rightarrow>
         bind_res (get_decoded db ks (mc_review_payload (md_codecs db)) P_PAYLOADS (payload_key (RProposalReview i)))
           (\<lambda>payload.
         Inr (Some \<lparr>wc_header = header, wc_findings = map_option wp_findings payload\<rparr>)))"

definition inspect_proposal_review :: "'ks memory_db \<Rightarrow> 'ks \<Rightarrow> ulid \<Rightarrow> review_case option mres" where
  "inspect_proposal_review db ks i =
     bind_res (get_head db ks P_PROPOSAL_REVIEW_HEADS i) (\<lambda>r.
     case r of None \<Rightarrow> Inr None | Some revision \<Rightarrow> inspect_proposal_review_revision db ks i revision)"

definition inspect_artifact_collection_revision ::
    "'ks memory_db \<Rightarrow> 'ks \<Rightarrow> collection_header \<Rightarrow> u64 \<Rightarrow> collection_record option mres" where
  "inspect_artifact_collection_revision db ks header revision =
     bind_res (get_decoded db ks (mc_artifact_availability (md_codecs db)) P_ARTIFACT_COLLECTION_AVAILABILITY
                 (revision_key (ach_id header) revision)) (\<lambda>a.
     case a of
       None \<Rightarrow> Inr None
     | Some availability \<Rightarrow>
         bind_res (unless_purged (av_state availability) (get_payload db ks (RArtifactCollection (ach_id header)))) (\<lambda>label.
         Inr (Some \<lparr>acr_header = header, acr_availability = availability, acr_label = label\<rparr>)))"

definition inspect_artifact_collection :: "'ks memory_db \<Rightarrow> 'ks \<Rightarrow> ulid \<Rightarrow> collection_record option mres" where
  "inspect_artifact_collection db ks i =
     bind_res (get_decoded db ks (mc_collection (md_codecs db)) P_ARTIFACT_COLLECTIONS (id_key i)) (\<lambda>h.
     case h of
       None \<Rightarrow> Inr None
     | Some header \<Rightarrow>
         bind_res (get_head db ks P_ARTIFACT_COLLECTION_HEADS i) (\<lambda>r.
         case r of
           None \<Rightarrow> Inl (MCorrupt (''artifact collection '' @ md_show_id db i @ '' has no head''))
         | Some revision \<Rightarrow> inspect_artifact_collection_revision db ks header revision))"

definition inspect_artifact_snapshot_revision ::
    "'ks memory_db \<Rightarrow> 'ks \<Rightarrow> snapshot_header \<Rightarrow> u64 \<Rightarrow> snapshot_record option mres" where
  "inspect_artifact_snapshot_revision db ks header revision =
     bind_res (get_decoded db ks (mc_artifact_availability (md_codecs db)) P_ARTIFACT_SNAPSHOT_AVAILABILITY
                 (revision_key (ash_id header) revision)) (\<lambda>a.
     case a of
       None \<Rightarrow> Inr None
     | Some availability \<Rightarrow>
         bind_res (unless_purged (av_state availability)
                     (get_decoded db ks (mc_snapshot_payload (md_codecs db)) P_PAYLOADS
                        (payload_key (RArtifactSnapshot (ash_id header))))) (\<lambda>payload.
         Inr (Some \<lparr>asr_header = header, asr_availability = availability,
                    asr_media_type = map_option asp_media_type payload,
                    asr_content_digest = map_option asp_content_digest payload,
                    asr_payload_available = (payload \<noteq> None)\<rparr>)))"

definition inspect_artifact_snapshot :: "'ks memory_db \<Rightarrow> 'ks \<Rightarrow> ulid \<Rightarrow> snapshot_record option mres" where
  "inspect_artifact_snapshot db ks i =
     bind_res (get_decoded db ks (mc_snapshot (md_codecs db)) P_ARTIFACT_SNAPSHOTS (id_key i)) (\<lambda>h.
     case h of
       None \<Rightarrow> Inr None
     | Some header \<Rightarrow>
         bind_res (get_head db ks P_ARTIFACT_SNAPSHOT_HEADS i) (\<lambda>r.
         case r of
           None \<Rightarrow> Inl (MCorrupt (''artifact snapshot '' @ md_show_id db i @ '' has no head''))
         | Some revision \<Rightarrow> inspect_artifact_snapshot_revision db ks header revision))"

definition inspect_artifact_passage_revision ::
    "'ks memory_db \<Rightarrow> 'ks \<Rightarrow> passage_header \<Rightarrow> u64 \<Rightarrow> passage_record option mres" where
  "inspect_artifact_passage_revision db ks header revision =
     bind_res (get_decoded db ks (mc_artifact_availability (md_codecs db)) P_ARTIFACT_PASSAGE_AVAILABILITY
                 (revision_key (aph_id header) revision)) (\<lambda>a.
     case a of
       None \<Rightarrow> Inr None
     | Some availability \<Rightarrow>
         bind_res (unless_purged (av_state availability) (get_payload db ks (RArtifactPassage (aph_id header)))) (\<lambda>text.
         Inr (Some \<lparr>apr_header = header, apr_availability = availability, apr_text = text\<rparr>)))"

definition inspect_artifact_passage :: "'ks memory_db \<Rightarrow> 'ks \<Rightarrow> ulid \<Rightarrow> passage_record option mres" where
  "inspect_artifact_passage db ks i =
     bind_res (get_decoded db ks (mc_passage (md_codecs db)) P_ARTIFACT_PASSAGES (id_key i)) (\<lambda>h.
     case h of
       None \<Rightarrow> Inr None
     | Some header \<Rightarrow>
         bind_res (get_head db ks P_ARTIFACT_PASSAGE_HEADS i) (\<lambda>r.
         case r of
           None \<Rightarrow> Inl (MCorrupt (''artifact passage '' @ md_show_id db i @ '' has no head''))
         | Some revision \<Rightarrow> inspect_artifact_passage_revision db ks header revision))"

definition artifact_provenance_for_evidence :: "'ks memory_db \<Rightarrow> 'ks \<Rightarrow> ulid \<Rightarrow> artifact_provenance option mres" where
  "artifact_provenance_for_evidence db ks i =
     get_decoded db ks (mc_provenance (md_codecs db)) P_ARTIFACT_BY_EVIDENCE (id_key i)"

text \<open>Scope, state and revision of any record.\<close>

definition found :: "record_ref \<Rightarrow> 'a option mres \<Rightarrow> ('a \<Rightarrow> 'b) \<Rightarrow> 'b mres" where
  "found r x f = bind_res x (\<lambda>y. bind_res (ok_or (MNotFound r) y) (\<lambda>z. Inr (f z)))"

fun record_scope_state_revision :: "'ks memory_db \<Rightarrow> 'ks \<Rightarrow> record_ref \<Rightarrow> (scope \<times> record_state \<times> u64) mres" where
  "record_scope_state_revision db ks (REvidence i) =
     found (REvidence i) (inspect_evidence db ks i)
       (\<lambda>e. (eh_scope (er_header e), av_state (er_availability e), av_revision (er_availability e)))"
| "record_scope_state_revision db ks (RClaim i) =
     found (RClaim i) (inspect_claim db ks i)
       (\<lambda>c. (ch_scope (cr_header c), ch_state (cr_header c), ch_revision (cr_header c)))"
| "record_scope_state_revision db ks (REntity i) =
     found (REntity i) (inspect_entity db ks i)
       (\<lambda>n. (nh_scope (nr_header n), nh_state (nr_header n), nh_revision (nr_header n)))"
| "record_scope_state_revision db ks (RSemanticRelation i) =
     found (RSemanticRelation i) (inspect_semantic_relation db ks i)
       (\<lambda>l. (lh_scope (lr_header l), lh_state (lr_header l), lh_revision (lr_header l)))"
| "record_scope_state_revision db ks (RProposal i) =
     found (RProposal i) (inspect_proposal db ks i)
       (\<lambda>p. (ph_scope (pr_header p), ph_state (pr_header p), ph_revision (pr_header p)))"
| "record_scope_state_revision db ks (RProposalReview i) =
     found (RProposalReview i) (inspect_proposal_review db ks i)
       (\<lambda>w. (wh_scope (wc_header w), wh_state (wc_header w), wh_revision (wc_header w)))"
| "record_scope_state_revision db ks (RArtifactCollection i) =
     found (RArtifactCollection i) (inspect_artifact_collection db ks i)
       (\<lambda>a. (ach_scope (acr_header a), av_state (acr_availability a), av_revision (acr_availability a)))"
| "record_scope_state_revision db ks (RArtifactSnapshot i) =
     found (RArtifactSnapshot i) (inspect_artifact_snapshot db ks i)
       (\<lambda>a. (ash_scope (asr_header a), av_state (asr_availability a), av_revision (asr_availability a)))"
| "record_scope_state_revision db ks (RArtifactPassage i) =
     found (RArtifactPassage i) (inspect_artifact_passage db ks i)
       (\<lambda>a. (aph_scope (apr_header a), av_state (apr_availability a), av_revision (apr_availability a)))"

end
