(* ===== verification/Memory_Ops.thy ===== *)
theory Memory_Ops
  imports Memory_Store
begin

text \<open>
  The mutations of the memory store: appending a state revision to any record, the lexical index,
  the breadth-first closure of the dependency index, and the operations that capture evidence,
  create, remember and correct claims, create relations and artifacts, and retract records.
\<close>

section \<open>Digests, replay, audit\<close>

definition index_hash :: "'ks memory_db \<Rightarrow> byte \<Rightarrow> bytes \<Rightarrow> digest" where
  "index_hash db domain value = md_keyed_hash db (md_digest_key db) (domain # value)"

definition mutation_digest :: "'ks memory_db \<Rightarrow> string \<Rightarrow> actor \<Rightarrow> mutation \<Rightarrow> digest mres" where
  "mutation_digest db name a input =
     bind_res (map_err MCodec (md_digest_input db name a input)) (\<lambda>bytes.
     Inr (md_keyed_hash db (md_digest_key db) bytes))"

fun actor_tag :: "actor \<Rightarrow> byte" where
  "actor_tag User = 0x01"
| "actor_tag Assistant = 0x02"
| "actor_tag System = 0x03"
| "actor_tag Operator = 0x04"

definition framed :: "bytes \<Rightarrow> bytes" where
  "framed v = u64_be (word_of_nat (length v)) @ v"

definition artifact_snapshot_mutation_digest :: "'ks memory_db \<Rightarrow> actor \<Rightarrow> new_artifact_snapshot \<Rightarrow> digest mres" where
  "artifact_snapshot_mutation_digest db a input =
     bind_res (map_err MCodec (md_snapshot_metadata db (nas_collection_id input)
                 (nas_expected_collection_revision input) (nas_temporal input) (nas_media_type input))) (\<lambda>metadata.
     Inr (md_keyed_hash db (md_digest_key db)
       (framed (as_bytes ''import_artifact_snapshot'') @ framed [actor_tag a] @ framed metadata @ framed (nas_bytes input))))"

definition replayed_operation :: "'ks memory_db \<Rightarrow> 'ks \<Rightarrow> 'r value_codec \<Rightarrow> ulid \<Rightarrow> digest \<Rightarrow> 'r option mres" where
  "replayed_operation db ks vc i digest =
     bind_res (get_decoded db ks (mc_operation (md_codecs db)) P_OPERATIONS (id_key i)) (\<lambda>s.
     case s of
       None \<Rightarrow> Inr None
     | Some stored \<Rightarrow>
         if so_digest stored \<noteq> digest then Inl (MOperationConflict i)
         else bind_res (map_err MCodec (from_value vc (so_receipt stored))) (\<lambda>r. Inr (Some r)))"

definition insert_operation :: "'ks memory_db \<Rightarrow> 'r value_codec \<Rightarrow> ulid \<Rightarrow> digest \<Rightarrow> 'r \<Rightarrow> batch_op list mres" where
  "insert_operation db vc i digest receipt =
     bind_res (map_err MCodec (to_value vc receipt)) (\<lambda>v.
     bind_res (encode (mc_operation (md_codecs db)) \<lparr>so_digest = digest, so_receipt = v\<rparr>) (\<lambda>b.
     Inr [put P_OPERATIONS (id_key i) b]))"

definition new_audit_event ::
    "'ks memory_db \<Rightarrow> ulid \<Rightarrow> operation_context \<Rightarrow> audit_action \<Rightarrow> record_ref list \<Rightarrow> i64 \<Rightarrow> audit_event" where
  "new_audit_event db i operation action subjects recorded_at_ms =
     \<lparr>ae_id = i, ae_era_id = md_era_id db, ae_operation_id = oc_id operation, ae_actor = oc_actor operation,
      ae_action = action, ae_subjects = subjects, ae_derived_subjects = [], ae_adjudication = None,
      ae_outcome = Committed, ae_recorded_at_ms = recorded_at_ms\<rparr>"

definition insert_audit :: "'ks memory_db \<Rightarrow> audit_event \<Rightarrow> batch_op list mres" where
  "insert_audit db event =
     bind_res (encode (mc_audit (md_codecs db)) event) (\<lambda>b. Inr [put P_AUDIT (audit_key event) b])"

text \<open>
  A mutation either finds its receipt stored or prepares a batch; the batch is committed last.
  \<open>finish\<close> is the tail all mutations share: audit event, stored operation, commit.
\<close>

datatype 'r prepared = Replayed 'r | Write "batch_op list" 'r

definition run_mutation :: "'ks memory_db \<Rightarrow> 'ks \<Rightarrow> 'r prepared mres \<Rightarrow> 'r mres \<times> 'ks" where
  "run_mutation db ks p =
     (case p of
        Inl e \<Rightarrow> (Inl e, ks)
      | Inr (Replayed r) \<Rightarrow> (Inr r, ks)
      | Inr (Write batch r) \<Rightarrow>
          bind_st (lift_err MStorage (kv_commit (md_kv db) ks batch)) (\<lambda>_ ks. (Inr r, ks)))"

definition unless_replayed ::
    "'ks memory_db \<Rightarrow> 'ks \<Rightarrow> 'r value_codec \<Rightarrow> operation_context \<Rightarrow> digest \<Rightarrow> 'r prepared mres \<Rightarrow> 'r prepared mres" where
  "unless_replayed db ks vc operation digest body =
     bind_res (replayed_operation db ks vc (oc_id operation) digest) (\<lambda>r.
     case r of Some receipt \<Rightarrow> Inr (Replayed receipt) | None \<Rightarrow> body)"

definition finish ::
    "'ks memory_db \<Rightarrow> 'r value_codec \<Rightarrow> operation_context \<Rightarrow> digest \<Rightarrow> 'r \<Rightarrow> audit_event \<Rightarrow> batch_op list \<Rightarrow>
     'r prepared mres" where
  "finish db vc operation digest receipt audit batch =
     bind_res (insert_audit db audit) (\<lambda>a.
     bind_res (insert_operation db vc (oc_id operation) digest receipt) (\<lambda>b.
     Inr (Write (batch @ a @ b) receipt)))"

section \<open>The lexical index\<close>

fun index_terms :: "'ks memory_db \<Rightarrow> digest set \<Rightarrow> string list \<Rightarrow> digest set" where
  "index_terms db hashes [] = hashes"
| "index_terms db hashes (t # ts) =
     (let hashes = insert (index_hash db 0x01 (as_bytes t)) hashes in
      if card hashes = MAX_INDEX_TERMS_PER_RECORD then hashes else index_terms db hashes ts)"

definition lexical_document_for ::
    "'ks memory_db \<Rightarrow> record_ref \<Rightarrow> u64 \<Rightarrow> scope \<Rightarrow> temporal_facts \<Rightarrow> string \<Rightarrow> lexical_document" where
  "lexical_document_for db r revision scope temporal text =
     \<lparr>ld_record = r, ld_revision = revision, ld_scope = scope, ld_temporal = temporal,
      ld_term_hashes = sorted_list_of_set (index_terms db {} (tokenize (md_unicode db) text)),
      ld_exact_hash = index_hash db 0x02 (as_bytes (normalize_exact (md_unicode db) text))\<rparr>"

definition insert_lexical_document ::
    "'ks memory_db \<Rightarrow> record_ref \<Rightarrow> u64 \<Rightarrow> scope \<Rightarrow> temporal_facts \<Rightarrow> string \<Rightarrow> batch_op list mres" where
  "insert_lexical_document db r revision scope temporal text =
     (let document = lexical_document_for db r revision scope temporal text in
      bind_res (encode (mc_lexical (md_codecs db)) document) (\<lambda>b.
      Inr ([put P_LEXICAL_DOCS (record_key r) b] @
           map (\<lambda>h. put P_LEXICAL_POSTINGS (posting_key 0x01 h r) []) (ld_term_hashes document) @
           [put P_LEXICAL_POSTINGS (posting_key 0x02 (ld_exact_hash document) r) [],
            put P_TIME_INDEX (record_time_key (tf_observed_at_ms (ld_temporal document)) r) []])))"

definition remove_lexical_document :: "'ks memory_db \<Rightarrow> 'ks \<Rightarrow> record_ref \<Rightarrow> batch_op list mres" where
  "remove_lexical_document db ks r =
     bind_res (get_decoded db ks (mc_lexical (md_codecs db)) P_LEXICAL_DOCS (record_key r)) (\<lambda>d.
     case d of
       None \<Rightarrow> Inr []
     | Some document \<Rightarrow>
         Inr (map (\<lambda>h. rem P_LEXICAL_POSTINGS (posting_key 0x01 h r)) (ld_term_hashes document) @
              [rem P_LEXICAL_POSTINGS (posting_key 0x02 (ld_exact_hash document) r),
               rem P_TIME_INDEX (record_time_key (tf_observed_at_ms (ld_temporal document)) r),
               rem P_LEXICAL_DOCS (record_key r)]))"

section \<open>Revisions\<close>

definition proposal_status_awaits_adjudication :: "proposal_status \<Rightarrow> bool" where
  "proposal_status_awaits_adjudication s \<longleftrightarrow> s \<in> {ReviewedApprove, ReviewedReject, NeedsUserStatus}"

text \<open>The two writes that append a revision: the new header and the head.\<close>

definition append_revision :: "'a codec \<Rightarrow> part \<Rightarrow> part \<Rightarrow> ulid \<Rightarrow> u64 \<Rightarrow> 'a \<Rightarrow> batch_op list mres" where
  "append_revision c p heads i revision next =
     bind_res (encode c next) (\<lambda>b. Inr [put p (revision_key i revision) b, put heads (id_key i) (u64_be revision)])"

definition next_availability :: "ulid \<Rightarrow> u64 \<Rightarrow> record_state \<Rightarrow> ulid \<Rightarrow> i64 \<Rightarrow> availability" where
  "next_availability i revision state operation_id recorded_at_ms =
     \<lparr>av_id = i, av_revision = revision, av_state = state, av_recorded_at_ms = recorded_at_ms,
      av_operation_id = operation_id\<rparr>"

definition proposal_next_status :: "record_state \<Rightarrow> proposal_status \<Rightarrow> proposal_status" where
  "proposal_next_status state status =
     (if state = Unsupported then Stale else if state = Retracted then Rejected else status)"

fun append_record :: "'ks memory_db \<Rightarrow> 'ks \<Rightarrow> record_ref \<Rightarrow> u64 \<Rightarrow> u64 \<Rightarrow> record_state \<Rightarrow> ulid \<Rightarrow> i64 \<Rightarrow> batch_op list mres" where
  "append_record db ks (REvidence i) expected revision state op now =
     bind_res (get_decoded db ks (mc_evidence_availability (md_codecs db)) P_EVIDENCE_AVAILABILITY
                 (revision_key i expected)) (\<lambda>a.
     bind_res (ok_or (MCorrupt (''evidence '' @ md_show_id db i @ '' is missing availability revision '' @ show_rev expected)) a) (\<lambda>_.
     append_revision (mc_evidence_availability (md_codecs db)) P_EVIDENCE_AVAILABILITY P_EVIDENCE_HEADS i revision
       (next_availability i revision state op now)))"
| "append_record db ks (RClaim i) expected revision state op now =
     bind_res (found (RClaim i) (inspect_claim db ks i) cr_header) (\<lambda>h.
     append_revision (mc_claim (md_codecs db)) P_CLAIMS P_CLAIM_HEADS i revision
       (h\<lparr>ch_revision := revision, ch_previous_revision := Some expected, ch_state := state,
          ch_recorded_at_ms := now, ch_operation_id := op\<rparr>))"
| "append_record db ks (REntity i) expected revision state op now =
     bind_res (found (REntity i) (inspect_entity db ks i) nr_header) (\<lambda>h.
     append_revision (mc_entity (md_codecs db)) P_ENTITIES P_ENTITY_HEADS i revision
       (h\<lparr>nh_revision := revision, nh_previous_revision := Some expected, nh_state := state,
          nh_recorded_at_ms := now, nh_operation_id := op\<rparr>))"
| "append_record db ks (RSemanticRelation i) expected revision state op now =
     bind_res (found (RSemanticRelation i) (inspect_semantic_relation db ks i) lr_header) (\<lambda>h.
     append_revision (mc_relation (md_codecs db)) P_RELATIONS P_RELATION_HEADS i revision
       (h\<lparr>lh_revision := revision, lh_previous_revision := Some expected, lh_state := state,
          lh_recorded_at_ms := now, lh_operation_id := op\<rparr>))"
| "append_record db ks (RProposal i) expected revision state op now =
     bind_res (found (RProposal i) (inspect_proposal db ks i) pr_header) (\<lambda>h.
     bind_res (append_revision (mc_proposal (md_codecs db)) P_PROPOSALS P_PROPOSAL_HEADS i revision
       (h\<lparr>ph_revision := revision, ph_previous_revision := Some expected, ph_state := state,
          ph_status := proposal_next_status state (ph_status h),
          ph_recorded_at_ms := now, ph_operation_id := op\<rparr>)) (\<lambda>ops.
     Inr ((if ph_status h = PendingReview then [rem P_PENDING_PROPOSALS (id_key i)] else []) @
          (if proposal_status_awaits_adjudication (ph_status h) then [rem P_AWAITING_ADJUDICATION (id_key i)] else []) @
          ops)))"
| "append_record db ks (RProposalReview i) expected revision state op now =
     bind_res (found (RProposalReview i) (inspect_proposal_review db ks i) wc_header) (\<lambda>h.
     append_revision (mc_review (md_codecs db)) P_PROPOSAL_REVIEWS P_PROPOSAL_REVIEW_HEADS i revision
       (h\<lparr>wh_revision := revision, wh_previous_revision := Some expected, wh_state := state,
          wh_recorded_at_ms := now, wh_operation_id := op\<rparr>))"
| "append_record db ks (RArtifactCollection i) expected revision state op now =
     append_revision (mc_artifact_availability (md_codecs db)) P_ARTIFACT_COLLECTION_AVAILABILITY
       P_ARTIFACT_COLLECTION_HEADS i revision (next_availability i revision state op now)"
| "append_record db ks (RArtifactSnapshot i) expected revision state op now =
     append_revision (mc_artifact_availability (md_codecs db)) P_ARTIFACT_SNAPSHOT_AVAILABILITY
       P_ARTIFACT_SNAPSHOT_HEADS i revision (next_availability i revision state op now)"
| "append_record db ks (RArtifactPassage i) expected revision state op now =
     append_revision (mc_artifact_availability (md_codecs db)) P_ARTIFACT_PASSAGE_AVAILABILITY
       P_ARTIFACT_PASSAGE_HEADS i revision (next_availability i revision state op now)"

definition append_state_revision ::
    "'ks memory_db \<Rightarrow> 'ks \<Rightarrow> record_ref \<Rightarrow> u64 \<Rightarrow> record_state \<Rightarrow> ulid \<Rightarrow> i64 \<Rightarrow> (batch_op list \<times> record_revision) mres" where
  "append_state_revision db ks r expected state op now =
     bind_res (record_scope_state_revision db ks r) (\<lambda>(_, _, actual).
     if actual \<noteq> expected then Inl (MRevisionConflict expected actual)
     else if expected = - 1 then Inl (MCorrupt ''revision counter overflow'')
     else bind_res (append_record db ks r expected (expected + 1) state op now) (\<lambda>ops.
          Inr (ops, \<lparr>rv_record = r, rv_revision = expected + 1, rv_state = state\<rparr>)))"

section \<open>The dependency closure\<close>

instance record_ref :: finite
proof
  have "UNIV \<subseteq> range REvidence \<union> range RClaim \<union> range REntity \<union> range RSemanticRelation \<union> range RProposal
      \<union> range RProposalReview \<union> range RArtifactCollection \<union> range RArtifactSnapshot \<union> range RArtifactPassage"
  proof
    fix r :: record_ref
    show "r \<in> range REvidence \<union> range RClaim \<union> range REntity \<union> range RSemanticRelation \<union> range RProposal
      \<union> range RProposalReview \<union> range RArtifactCollection \<union> range RArtifactSnapshot \<union> range RArtifactPassage"
      by (cases r) auto
  qed
  then show "finite (UNIV :: record_ref set)" by (rule finite_subset) (intro finite_UnI finite_imageI finite)
qed

text \<open>One scan of the dependents of a record: unseen ones are marked and queued.\<close>

fun closure_scan ::
    "'ks memory_db \<Rightarrow> 'ks \<Rightarrow> bool \<Rightarrow> kv_item list \<Rightarrow> record_ref set \<Rightarrow> record_ref list \<Rightarrow> purge_dependency list \<Rightarrow>
     (record_ref set \<times> record_ref list \<times> purge_dependency list) mres" where
  "closure_scan db ks incl [] seen queue deps = Inr (seen, queue, deps)"
| "closure_scan db ks incl (Inl e # items) seen queue deps = Inl (MStorage e)"
| "closure_scan db ks incl (Inr (key, _) # items) seen queue deps =
     (if length key \<noteq> 17 + 17 then Inl (MCorrupt ''invalid dependency key'')
      else case record_from_key (drop 17 key) of
        Inl e \<Rightarrow> Inl e
      | Inr dependent \<Rightarrow>
          if dependent \<in> seen then closure_scan db ks incl items seen queue deps
          else case record_scope_state_revision db ks dependent of
            Inl e \<Rightarrow> Inl e
          | Inr (_, state, revision) \<Rightarrow>
              closure_scan db ks incl items (insert dependent seen) (queue @ [dependent])
                (if state = Active \<or> (incl \<and> state \<noteq> Purged)
                 then deps @ [\<lparr>pd_record = dependent, pd_expected_revision = revision\<rparr>] else deps))"

lemma closure_scan_measure:
  "closure_scan db ks incl items seen queue deps = Inr (seen', queue', deps') \<Longrightarrow>
     seen \<subseteq> seen' \<and> card (UNIV - seen') + length queue' = card (UNIV - seen) + length queue"
proof (induction db ks incl items seen queue deps rule: closure_scan.induct)
  case (3 db ks incl key v items seen queue deps)
  show ?case
  proof (cases "record_from_key (drop 17 key)")
    case (Inl e)
    then show ?thesis using "3.prems" by (simp split: if_splits)
  next
    case d: (Inr dependent)
    show ?thesis
    proof (cases "dependent \<in> seen")
      case True
      then show ?thesis using 3 d by (simp split: if_splits)
    next
      case False
      obtain scope state revision where "record_scope_state_revision db ks dependent = Inr (scope, state, revision)"
        using "3.prems" d False by (auto split: if_splits sum.splits)
      then have *: "insert dependent seen \<subseteq> seen' \<and>
          card (UNIV - seen') + length queue' = card (UNIV - insert dependent seen) + length (queue @ [dependent])"
        using 3 d False by (auto split: if_splits)
      have "card (UNIV - seen) = Suc (card (UNIV - insert dependent seen))"
        using False card_Suc_Diff1 [of "UNIV - seen" dependent] by (metis Diff_iff Diff_insert UNIV_I finite)
      then show ?thesis using * by auto
    qed
  qed
qed auto

definition dependents :: "'ks memory_db \<Rightarrow> 'ks \<Rightarrow> record_ref \<Rightarrow> kv_item list" where
  "dependents db ks source =
     kv_range (md_kv db) ks (part_name P_DEPENDENCIES) (record_key source) (record_key source @ [0xff])"

function closure_loop ::
    "'ks memory_db \<Rightarrow> 'ks \<Rightarrow> bool \<Rightarrow> record_ref set \<Rightarrow> record_ref list \<Rightarrow> purge_dependency list \<Rightarrow> purge_dependency list mres" where
  "closure_loop db ks incl seen [] deps = Inr deps"
| "closure_loop db ks incl seen (source # queue) deps =
     (case closure_scan db ks incl (dependents db ks source) seen queue deps of
        Inl e \<Rightarrow> Inl e
      | Inr (seen, queue, deps) \<Rightarrow> closure_loop db ks incl seen queue deps)"
  by pat_completeness auto
termination
  by (relation "measure (\<lambda>(db, ks, incl, seen, queue, deps). card (UNIV - seen) + length queue)")
    (auto dest: closure_scan_measure)

definition dependency_closure :: "'ks memory_db \<Rightarrow> 'ks \<Rightarrow> record_ref \<Rightarrow> bool \<Rightarrow> purge_dependency list mres" where
  "dependency_closure db ks target incl =
     bind_res (closure_loop db ks incl {target} [target] []) (\<lambda>deps.
     Inr (sort_by (\<lambda>a b. cmp_of (pd_record a) (pd_record b)) deps))"

definition active_dependency_closure :: "'ks memory_db \<Rightarrow> 'ks \<Rightarrow> record_ref \<Rightarrow> purge_dependency list mres" where
  "active_dependency_closure db ks target = dependency_closure db ks target False"

definition purge_dependency_closure :: "'ks memory_db \<Rightarrow> 'ks \<Rightarrow> record_ref \<Rightarrow> purge_dependency list mres" where
  "purge_dependency_closure db ks target = dependency_closure db ks target True"

end
