(* ===== verification/Memory_Mutations.thy ===== *)
theory Memory_Mutations
  imports Memory_Ops
begin

text \<open>
  The public mutations of the memory store. Each follows its source: checks that need no state,
  the digest of the input, the replay test, checks against the stored records, then one batch.
  Identifiers and clock readings are taken from the environment in the order of the source.
\<close>

section \<open>Writing new records\<close>

definition insert_evidence_record :: "'ks memory_db \<Rightarrow> evidence_header \<Rightarrow> string \<Rightarrow> batch_op list mres" where
  "insert_evidence_record db header text =
     (let i = eh_id header in
      bind_res (encode (mc_evidence (md_codecs db)) header) (\<lambda>h.
      bind_res (encode (mc_evidence_availability (md_codecs db))
                  (next_availability i 1 Active (eh_operation_id header) (eh_recorded_at_ms header))) (\<lambda>a.
      bind_res (insert_lexical_document db (REvidence i) 1 (eh_scope header) (eh_temporal header) text) (\<lambda>lex.
      Inr ([put P_EVIDENCE (id_key i) h, put P_EVIDENCE_AVAILABILITY (revision_key i 1) a,
            put P_EVIDENCE_HEADS (id_key i) (u64_be 1),
            put P_PAYLOADS (payload_key (REvidence i)) (as_bytes text)] @ lex)))))"

definition dependency_ops :: "record_ref list \<Rightarrow> record_ref \<Rightarrow> batch_op list" where
  "dependency_ops sources dependent = map (\<lambda>s. put P_DEPENDENCIES (dependency_key s dependent) []) sources"

definition insert_claim_record :: "'ks memory_db \<Rightarrow> claim_header \<Rightarrow> string \<Rightarrow> batch_op list mres" where
  "insert_claim_record db header proposition =
     (let i = ch_id header in
      bind_res (encode (mc_claim (md_codecs db)) header) (\<lambda>h.
      bind_res (insert_lexical_document db (RClaim i) 1 (ch_scope header) (ch_temporal header) proposition) (\<lambda>lex.
      Inr ([put P_CLAIMS (revision_key i 1) h, put P_CLAIM_HEADS (id_key i) (u64_be 1),
            put P_PAYLOADS (payload_key (RClaim i)) (as_bytes proposition)] @
           dependency_ops (map REvidence (ch_evidence_ids header)) (RClaim i) @ lex))))"

definition insert_relation_record :: "'ks memory_db \<Rightarrow> relation_header \<Rightarrow> relation_payload \<Rightarrow> batch_op list mres" where
  "insert_relation_record db header payload =
     (let i = lh_id header in
      bind_res (encode (mc_relation (md_codecs db)) header) (\<lambda>h.
      bind_res (encode (mc_relation_payload (md_codecs db)) payload) (\<lambda>p.
      Inr ([put P_RELATIONS (revision_key i 1) h, put P_RELATION_HEADS (id_key i) (u64_be 1),
            put P_PAYLOADS (payload_key (RSemanticRelation i)) p] @
           dependency_ops (lh_from header # lh_to header # map REvidence (lh_evidence_ids header))
             (RSemanticRelation i)))))"

section \<open>Evidence\<close>

definition lifecycle_truth :: "'ks memory_db \<Rightarrow> evidence_lifecycle \<Rightarrow> evidence_lifecycle_truth" where
  "lifecycle_truth db l =
     (case l of
        Direct \<Rightarrow> DirectTruth
      | TerminalTurn source_event_id status \<Rightarrow>
          TerminalTurnTruth (index_hash db 0x05 (as_bytes source_event_id)) status)"

definition new_evidence_header ::
    "ulid \<Rightarrow> evidence_class \<Rightarrow> actor \<Rightarrow> scope \<Rightarrow> temporal_facts \<Rightarrow> evidence_lifecycle_truth \<Rightarrow> i64 \<Rightarrow> ulid \<Rightarrow> evidence_header" where
  "new_evidence_header i c a scope temporal lifecycle now op =
     \<lparr>eh_id = i, eh_class = c, eh_captured_by = a, eh_scope = scope, eh_temporal = temporal,
      eh_lifecycle = lifecycle, eh_recorded_at_ms = now, eh_operation_id = op\<rparr>"

definition prepare_capture ::
    "'ks memory_db \<Rightarrow> env \<Rightarrow> 'ks \<Rightarrow> operation_context \<Rightarrow> new_evidence \<Rightarrow> evidence_receipt prepared mres" where
  "prepare_capture db env ks operation input =
     bind_res (validate_temporal (ne_temporal input)) (\<lambda>_.
     bind_res (validate_exact_evidence_text (ne_text input) ''evidence text'') (\<lambda>text.
     let input = input\<lparr>ne_text := text\<rparr> in
     bind_res (validate_evidence_capture (oc_actor operation) (ne_class input) (ne_lifecycle input)) (\<lambda>_.
     bind_res (mutation_digest db ''capture_evidence'' (oc_actor operation) (MuCapture input)) (\<lambda>digest.
     unless_replayed db ks (vc_evidence (md_receipts db)) operation digest
       (let now = env_now env 0; i = env_ids env 0;
            header = new_evidence_header i (ne_class input) (oc_actor operation) (ne_scope input) (ne_temporal input)
              (lifecycle_truth db (ne_lifecycle input)) now (oc_id operation);
            receipt = \<lparr>vr_id = i, vr_availability_revision = 1\<rparr>;
            audit = new_audit_event db (env_ids env 1) operation EvidenceCaptured [REvidence i] now
        in bind_res (insert_evidence_record db header (ne_text input)) (\<lambda>batch.
           finish db (vc_evidence (md_receipts db)) operation digest receipt audit batch))))))"

definition capture_evidence ::
    "'ks memory_db \<Rightarrow> env \<Rightarrow> 'ks \<Rightarrow> operation_context \<Rightarrow> new_evidence \<Rightarrow> evidence_receipt mres \<times> 'ks" where
  "capture_evidence db env ks operation input = run_mutation db ks (prepare_capture db env ks operation input)"

section \<open>Retraction\<close>

text \<open>A record that loses its support: a revision with the given state, and no place in the index.\<close>

definition invalidate ::
    "'ks memory_db \<Rightarrow> 'ks \<Rightarrow> record_state \<Rightarrow> ulid \<Rightarrow> i64 \<Rightarrow> purge_dependency \<Rightarrow> (batch_op list \<times> record_revision) mres" where
  "invalidate db ks state op now d =
     bind_res (append_state_revision db ks (pd_record d) (pd_expected_revision d) state op now) (\<lambda>(ops, rev).
     bind_res (remove_lexical_document db ks (pd_record d)) (\<lambda>lex.
     Inr (ops @ lex, rev)))"

fun invalidate_all ::
    "'ks memory_db \<Rightarrow> 'ks \<Rightarrow> ulid \<Rightarrow> i64 \<Rightarrow> purge_dependency list \<Rightarrow> (batch_op list \<times> record_revision list) mres" where
  "invalidate_all db ks op now [] = Inr ([], [])"
| "invalidate_all db ks op now (d # ds) =
     bind_res (invalidate db ks Unsupported op now d) (\<lambda>(ops, rev).
     bind_res (invalidate_all db ks op now ds) (\<lambda>(rest, revs).
     Inr (ops @ rest, rev # revs)))"

definition prepare_retract ::
    "'ks memory_db \<Rightarrow> env \<Rightarrow> 'ks \<Rightarrow> operation_context \<Rightarrow> record_ref \<Rightarrow> u64 \<Rightarrow> retraction_receipt prepared mres" where
  "prepare_retract db env ks operation r expected =
     (if oc_actor operation = Assistant then Inl MUnauthorized
      else bind_res (mutation_digest db ''retract'' (oc_actor operation) (MuRetract r expected)) (\<lambda>digest.
      unless_replayed db ks (vc_retraction (md_receipts db)) operation digest
        (bind_res (record_scope_state_revision db ks r) (\<lambda>(_, state, actual).
         if actual \<noteq> expected then Inl (MRevisionConflict expected actual)
         else if state \<noteq> Active then Inl (MInvalidInput ''only an active record can be retracted'')
         else bind_res (active_dependency_closure db ks r) (\<lambda>dependencies.
              let now = env_now env 0 in
              bind_res (invalidate db ks Retracted (oc_id operation) now
                          \<lparr>pd_record = r, pd_expected_revision = expected\<rparr>) (\<lambda>(ops, target).
              bind_res (invalidate_all db ks (oc_id operation) now dependencies) (\<lambda>(rest, invalidated).
              let receipt = \<lparr>tr_target = target, tr_invalidated = invalidated\<rparr>;
                  audit = new_audit_event db (env_ids env 0) operation RecordRetracted (r # map rv_record invalidated) now
              in finish db (vc_retraction (md_receipts db)) operation digest receipt audit (ops @ rest))))))))"

definition retract ::
    "'ks memory_db \<Rightarrow> env \<Rightarrow> 'ks \<Rightarrow> operation_context \<Rightarrow> record_ref \<Rightarrow> u64 \<Rightarrow> retraction_receipt mres \<times> 'ks" where
  "retract db env ks operation r expected = run_mutation db ks (prepare_retract db env ks operation r expected)"

section \<open>Claims\<close>

definition new_claim_header ::
    "ulid \<Rightarrow> claim_domain \<Rightarrow> scope \<Rightarrow> temporal_facts \<Rightarrow> ulid list \<Rightarrow> i64 \<Rightarrow> ulid \<Rightarrow> claim_header" where
  "new_claim_header i domain scope temporal evidence_ids now op =
     \<lparr>ch_id = i, ch_revision = 1, ch_previous_revision = None, ch_domain = domain, ch_scope = scope,
      ch_temporal = temporal, ch_evidence_ids = evidence_ids, ch_state = Active,
      ch_recorded_at_ms = now, ch_operation_id = op\<rparr>"

definition new_record_receipt :: "ulid \<Rightarrow> record_receipt" where
  "new_record_receipt i = \<lparr>rr_id = i, rr_revision = 1, rr_state = Active\<rparr>"

definition prepare_remember ::
    "'ks memory_db \<Rightarrow> env \<Rightarrow> 'ks \<Rightarrow> operation_context \<Rightarrow> remember_claim \<Rightarrow> remember_receipt prepared mres" where
  "prepare_remember db env ks operation input =
     (if oc_actor operation \<noteq> User then Inl MUnauthorized
      else bind_res (validate_temporal (rm_temporal input)) (\<lambda>_.
      bind_res (validate_text (rm_evidence_text input) ''evidence text'') (\<lambda>evidence_text.
      bind_res (validate_text (rm_proposition input) ''claim proposition'') (\<lambda>proposition.
      let input = input\<lparr>rm_evidence_text := evidence_text, rm_proposition := proposition\<rparr> in
      if \<not> source_is_admissible UserAssertion (rm_domain input)
      then Inl (MInvalidInput ''a user assertion cannot support the requested claim domain'')
      else bind_res (validate_claim_activation (oc_actor operation) (rm_domain input) [UserAssertion]) (\<lambda>_.
      bind_res (mutation_digest db ''remember_user_claim'' (oc_actor operation) (MuRemember input)) (\<lambda>digest.
      unless_replayed db ks (vc_remember (md_receipts db)) operation digest
        (let now = env_now env 0; evidence_id = env_ids env 0; claim_id = env_ids env 1;
             evidence = new_evidence_header evidence_id UserAssertion User (rm_scope input) (rm_temporal input)
               DirectTruth now (oc_id operation);
             claim = new_claim_header claim_id (rm_domain input) (rm_scope input) (rm_temporal input) [evidence_id]
               now (oc_id operation);
             receipt = \<lparr>mr_evidence = \<lparr>vr_id = evidence_id, vr_availability_revision = 1\<rparr>,
                        mr_claim = new_record_receipt claim_id\<rparr>;
             audit = new_audit_event db (env_ids env 2) operation UserClaimRemembered
               [REvidence evidence_id, RClaim claim_id] now
         in bind_res (insert_evidence_record db evidence (rm_evidence_text input)) (\<lambda>ev.
            bind_res (insert_claim_record db claim (rm_proposition input)) (\<lambda>cl.
            finish db (vc_remember (md_receipts db)) operation digest receipt audit (ev @ cl))))))))))"

definition remember_user_claim ::
    "'ks memory_db \<Rightarrow> env \<Rightarrow> 'ks \<Rightarrow> operation_context \<Rightarrow> remember_claim \<Rightarrow> remember_receipt mres \<times> 'ks" where
  "remember_user_claim db env ks operation input = run_mutation db ks (prepare_remember db env ks operation input)"

definition new_relation_header ::
    "ulid \<Rightarrow> record_ref \<Rightarrow> record_ref \<Rightarrow> relation_kind \<Rightarrow> scope \<Rightarrow> ulid list \<Rightarrow> i64 \<Rightarrow> ulid \<Rightarrow> relation_header" where
  "new_relation_header i from to kind scope evidence_ids now op =
     \<lparr>lh_id = i, lh_revision = 1, lh_previous_revision = None, lh_from = from, lh_to = to, lh_kind = kind,
      lh_scope = scope, lh_evidence_ids = evidence_ids, lh_state = Active, lh_recorded_at_ms = now,
      lh_operation_id = op\<rparr>"

text \<open>
  The part of a correction that follows the checks on the current claim: the target and its
  dependents are invalidated, then the new evidence, claim and relation are written.
\<close>

definition correction_batch ::
    "'ks memory_db \<Rightarrow> env \<Rightarrow> 'ks \<Rightarrow> operation_context \<Rightarrow> correct_claim \<Rightarrow> digest \<Rightarrow> claim_header \<Rightarrow>
     correction_receipt prepared mres" where
  "correction_batch db env ks operation input digest current =
     bind_res (active_dependency_closure db ks (RClaim (cc_target input))) (\<lambda>dependencies.
     let now = env_now env 0; evidence_id = env_ids env 0; replacement_id = env_ids env 1; relation_id = env_ids env 2;
         evidence = new_evidence_header evidence_id UserCorrection User (ch_scope current) (cc_temporal input)
           DirectTruth now (oc_id operation);
         replacement = new_claim_header replacement_id (ch_domain current) (ch_scope current) (cc_temporal input)
           [evidence_id] now (oc_id operation);
         supersedes = new_relation_header relation_id (RClaim replacement_id) (RClaim (cc_target input)) Supersedes
           (ch_scope current) [evidence_id] now (oc_id operation)
     in bind_res (invalidate db ks Superseded (oc_id operation) now
                    \<lparr>pd_record = RClaim (cc_target input), pd_expected_revision = cc_expected_revision input\<rparr>)
          (\<lambda>(ops, superseded).
        bind_res (invalidate_all db ks (oc_id operation) now dependencies) (\<lambda>(rest, invalidated).
        bind_res (insert_evidence_record db evidence (cc_evidence_text input)) (\<lambda>ev.
        bind_res (insert_claim_record db replacement (cc_replacement_proposition input)) (\<lambda>cl.
        bind_res (insert_relation_record db supersedes \<lparr>lp_qualifier = None\<rparr>) (\<lambda>rel.
        let receipt = \<lparr>xr_evidence = \<lparr>vr_id = evidence_id, vr_availability_revision = 1\<rparr>,
                       xr_superseded = superseded, xr_replacement = new_record_receipt replacement_id,
                       xr_supersedes_relation = new_record_receipt relation_id, xr_invalidated = invalidated\<rparr>;
            audit = new_audit_event db (env_ids env 3) operation UserClaimCorrected
              ([REvidence evidence_id, RClaim (cc_target input), RClaim replacement_id, RSemanticRelation relation_id]
               @ map rv_record invalidated) now
        in finish db (vc_correction (md_receipts db)) operation digest receipt audit
             (ops @ rest @ ev @ cl @ rel)))))))"

definition prepare_correct ::
    "'ks memory_db \<Rightarrow> env \<Rightarrow> 'ks \<Rightarrow> operation_context \<Rightarrow> correct_claim \<Rightarrow> correction_receipt prepared mres" where
  "prepare_correct db env ks operation input =
     (if oc_actor operation \<noteq> User then Inl MUnauthorized
      else bind_res (validate_temporal (cc_temporal input)) (\<lambda>_.
      bind_res (validate_text (cc_evidence_text input) ''evidence text'') (\<lambda>evidence_text.
      bind_res (validate_text (cc_replacement_proposition input) ''replacement proposition'') (\<lambda>proposition.
      let input = input\<lparr>cc_evidence_text := evidence_text, cc_replacement_proposition := proposition\<rparr> in
      bind_res (mutation_digest db ''correct_user_claim'' (oc_actor operation) (MuCorrect input)) (\<lambda>digest.
      unless_replayed db ks (vc_correction (md_receipts db)) operation digest
        (bind_res (found (RClaim (cc_target input)) (inspect_claim db ks (cc_target input)) cr_header) (\<lambda>current.
         if ch_revision current \<noteq> cc_expected_revision input
         then Inl (MRevisionConflict (cc_expected_revision input) (ch_revision current))
         else if ch_state current \<noteq> Active then Inl (MInvalidInput ''only an active claim can be corrected'')
         else if \<not> source_is_admissible UserCorrection (ch_domain current)
         then Inl (MInvalidInput ''a user correction cannot support the target claim domain'')
         else bind_res (validate_claim_activation (oc_actor operation) (ch_domain current) [UserCorrection]) (\<lambda>_.
              correction_batch db env ks operation input digest current))))))))"

definition correct_user_claim ::
    "'ks memory_db \<Rightarrow> env \<Rightarrow> 'ks \<Rightarrow> operation_context \<Rightarrow> correct_claim \<Rightarrow> correction_receipt mres \<times> 'ks" where
  "correct_user_claim db env ks operation input = run_mutation db ks (prepare_correct db env ks operation input)"

text \<open>The evidence a claim or a relation cites: active, in the scope of the record, admissible.\<close>

fun claim_sources :: "'ks memory_db \<Rightarrow> 'ks \<Rightarrow> scope \<Rightarrow> claim_domain \<Rightarrow> ulid list \<Rightarrow> evidence_class list mres" where
  "claim_sources db ks scope domain [] = Inr []"
| "claim_sources db ks scope domain (i # is) =
     bind_res (inspect_evidence db ks i) (\<lambda>e.
     bind_res (ok_or (MSourceUnavailable i) e) (\<lambda>evidence.
     if av_state (er_availability evidence) \<noteq> Active then Inl (MSourceUnavailable i)
     else if eh_scope (er_header evidence) \<noteq> scope then Inl MScopeMismatch
     else if \<not> source_is_admissible (eh_class (er_header evidence)) domain
     then Inl (MInadmissibleSource i (eh_class (er_header evidence)) domain)
     else bind_res (claim_sources db ks scope domain is) (\<lambda>classes.
          Inr (eh_class (er_header evidence) # classes))))"

fun relation_sources :: "'ks memory_db \<Rightarrow> 'ks \<Rightarrow> scope \<Rightarrow> ulid list \<Rightarrow> evidence_class list mres" where
  "relation_sources db ks scope [] = Inr []"
| "relation_sources db ks scope (i # is) =
     bind_res (inspect_evidence db ks i) (\<lambda>e.
     bind_res (ok_or (MSourceUnavailable i) e) (\<lambda>evidence.
     if av_state (er_availability evidence) \<noteq> Active then Inl (MSourceUnavailable i)
     else if eh_scope (er_header evidence) \<noteq> scope then Inl MScopeMismatch
     else bind_res (relation_sources db ks scope is) (\<lambda>classes.
          Inr (eh_class (er_header evidence) # classes))))"

text \<open>\<^verbatim>\<open>sort\<close> followed by \<^verbatim>\<open>dedup\<close>, and the bounds on the number of cited sources.\<close>

definition sort_dedup :: "'a::linorder list \<Rightarrow> 'a list" where
  "sort_dedup xs = remdups_adj (sort xs)"

definition check_sources :: "string \<Rightarrow> ulid list \<Rightarrow> unit mres" where
  "check_sources what ids =
     (if ids = [] then Inl (MInvalidInput (what @ '' requires at least one evidence source''))
      else if MAX_EVIDENCE_SOURCES < length ids
      then Inl (MInvalidInput (what @ '' cannot cite more than '' @ show_nat MAX_EVIDENCE_SOURCES @ '' evidence sources''))
      else Inr ())"

definition prepare_claim ::
    "'ks memory_db \<Rightarrow> env \<Rightarrow> 'ks \<Rightarrow> operation_context \<Rightarrow> new_claim \<Rightarrow> record_receipt prepared mres" where
  "prepare_claim db env ks operation input =
     (if oc_actor operation = Assistant then Inl MUnauthorized
      else bind_res (validate_temporal (nc_temporal input)) (\<lambda>_.
      bind_res (validate_text (nc_proposition input) ''claim proposition'') (\<lambda>proposition.
      let input = input\<lparr>nc_proposition := proposition, nc_evidence_ids := sort_dedup (nc_evidence_ids input)\<rparr> in
      bind_res (check_sources ''a claim'' (nc_evidence_ids input)) (\<lambda>_.
      bind_res (mutation_digest db ''create_claim'' (oc_actor operation) (MuClaim input)) (\<lambda>digest.
      unless_replayed db ks (vc_record (md_receipts db)) operation digest
        (bind_res (claim_sources db ks (nc_scope input) (nc_domain input) (nc_evidence_ids input)) (\<lambda>classes.
         bind_res (validate_claim_activation (oc_actor operation) (nc_domain input) classes) (\<lambda>_.
         let now = env_now env 0; i = env_ids env 0;
             header = new_claim_header i (nc_domain input) (nc_scope input) (nc_temporal input) (nc_evidence_ids input)
               now (oc_id operation);
             audit = new_audit_event db (env_ids env 1) operation ClaimCreated [RClaim i] now
         in bind_res (insert_claim_record db header (nc_proposition input)) (\<lambda>batch.
            finish db (vc_record (md_receipts db)) operation digest (new_record_receipt i) audit batch)))))))))"

definition create_claim ::
    "'ks memory_db \<Rightarrow> env \<Rightarrow> 'ks \<Rightarrow> operation_context \<Rightarrow> new_claim \<Rightarrow> record_receipt mres \<times> 'ks" where
  "create_claim db env ks operation input = run_mutation db ks (prepare_claim db env ks operation input)"

section \<open>Relations\<close>

definition user_evidence :: "evidence_record option \<Rightarrow> bool" where
  "user_evidence e = (case e of None \<Rightarrow> False | Some v \<Rightarrow> eh_class (er_header v) \<in> {UserAssertion, UserCorrection})"

fun user_may_activate_endpoint :: "'ks memory_db \<Rightarrow> 'ks \<Rightarrow> record_ref \<Rightarrow> bool mres" where
  "user_may_activate_endpoint db ks (REvidence i) =
     bind_res (inspect_evidence db ks i) (\<lambda>e. Inr (user_evidence e))"
| "user_may_activate_endpoint db ks (RClaim i) =
     bind_res (inspect_claim db ks i) (\<lambda>c.
     Inr (case c of None \<Rightarrow> False
            | Some claim \<Rightarrow> ch_domain (cr_header claim) \<in> {UserProfile, UserPreference, UserNote, SessionContext}))"
| "user_may_activate_endpoint db ks (REntity i) =
     bind_res (inspect_entity db ks i) (\<lambda>n.
     Inr (case n of None \<Rightarrow> False
            | Some entity \<Rightarrow> list_all (\<lambda>j. case inspect_evidence db ks j of
                                              Inl _ \<Rightarrow> False | Inr e \<Rightarrow> user_evidence e)
                               (nh_evidence_ids (nr_header entity))))"
| "user_may_activate_endpoint db ks _ = Inr False"

definition check_endpoint :: "'ks memory_db \<Rightarrow> 'ks \<Rightarrow> scope \<Rightarrow> record_ref \<Rightarrow> unit mres" where
  "check_endpoint db ks scope endpoint =
     bind_res (record_scope_state_revision db ks endpoint) (\<lambda>(s, state, _).
     if s \<noteq> scope then Inl MScopeMismatch
     else if state \<noteq> Active then Inl (MInvalidInput ''semantic relation endpoints must be active'')
     else Inr ())"

definition check_user_endpoint :: "'ks memory_db \<Rightarrow> 'ks \<Rightarrow> actor \<Rightarrow> record_ref \<Rightarrow> unit mres" where
  "check_user_endpoint db ks a endpoint =
     (if a \<noteq> User then Inr ()
      else bind_res (user_may_activate_endpoint db ks endpoint) (\<lambda>ok.
           if ok then Inr () else Inl MUnauthorized))"

fun not_an_endpoint :: "record_ref \<Rightarrow> bool" where
  "not_an_endpoint (RSemanticRelation _) = True"
| "not_an_endpoint (RProposal _) = True"
| "not_an_endpoint (RProposalReview _) = True"
| "not_an_endpoint _ = False"

definition validate_qualifier :: "string option \<Rightarrow> string option mres" where
  "validate_qualifier q =
     (case q of None \<Rightarrow> Inr None
      | Some text \<Rightarrow> bind_res (validate_text text ''relation qualifier'') (\<lambda>t. Inr (Some t)))"

definition check_relation_input :: "operation_context \<Rightarrow> new_relation \<Rightarrow> new_relation mres" where
  "check_relation_input operation input =
     (if oc_actor operation = Assistant then Inl MUnauthorized
      else if nl_from input = nl_to input
      then Inl (MInvalidInput ''a semantic relation requires distinct endpoints'')
      else if not_an_endpoint (nl_from input) \<or> not_an_endpoint (nl_to input)
      then Inl (MInvalidInput ''semantic relations cannot use another relation as an endpoint'')
      else bind_res (ok_or (MInvalidInput ''unsupported semantic relation endpoint'') (semantic_endpoint_kind (nl_from input))) (\<lambda>f.
      bind_res (ok_or (MInvalidInput ''unsupported semantic relation endpoint'') (semantic_endpoint_kind (nl_to input))) (\<lambda>t.
      bind_res (validate_relation_endpoint_kinds (nl_kind input) f t) (\<lambda>_.
      bind_res (validate_qualifier (nl_qualifier input)) (\<lambda>q.
      let input = input\<lparr>nl_qualifier := q, nl_evidence_ids := sort_dedup (nl_evidence_ids input)\<rparr> in
      bind_res (check_sources ''a semantic relation'' (nl_evidence_ids input)) (\<lambda>_. Inr input))))))"

definition prepare_relation ::
    "'ks memory_db \<Rightarrow> env \<Rightarrow> 'ks \<Rightarrow> operation_context \<Rightarrow> new_relation \<Rightarrow> record_receipt prepared mres" where
  "prepare_relation db env ks operation input =
     bind_res (check_relation_input operation input) (\<lambda>input.
     bind_res (mutation_digest db ''create_semantic_relation'' (oc_actor operation) (MuRelation input)) (\<lambda>digest.
     unless_replayed db ks (vc_record (md_receipts db)) operation digest
       (bind_res (check_endpoint db ks (nl_scope input) (nl_from input)) (\<lambda>_.
        bind_res (check_endpoint db ks (nl_scope input) (nl_to input)) (\<lambda>_.
        bind_res (relation_sources db ks (nl_scope input) (nl_evidence_ids input)) (\<lambda>classes.
        bind_res (validate_relation_activation (oc_actor operation) classes) (\<lambda>_.
        bind_res (check_user_endpoint db ks (oc_actor operation) (nl_from input)) (\<lambda>_.
        bind_res (check_user_endpoint db ks (oc_actor operation) (nl_to input)) (\<lambda>_.
        let now = env_now env 0; i = env_ids env 0;
            header = new_relation_header i (nl_from input) (nl_to input) (nl_kind input) (nl_scope input)
              (nl_evidence_ids input) now (oc_id operation);
            audit = new_audit_event db (env_ids env 1) operation RelationCreated [RSemanticRelation i] now
        in bind_res (insert_relation_record db header \<lparr>lp_qualifier = nl_qualifier input\<rparr>) (\<lambda>batch.
           finish db (vc_record (md_receipts db)) operation digest (new_record_receipt i) audit batch))))))))))"

definition create_semantic_relation ::
    "'ks memory_db \<Rightarrow> env \<Rightarrow> 'ks \<Rightarrow> operation_context \<Rightarrow> new_relation \<Rightarrow> record_receipt mres \<times> 'ks" where
  "create_semantic_relation db env ks operation input = run_mutation db ks (prepare_relation db env ks operation input)"

end
