(* ===== verification/Memory_Artifacts.thy ===== *)
theory Memory_Artifacts
  imports Memory_Mutations
begin

text \<open>
  Artifacts: collections, immutable snapshots of bytes with their media type and digest, and
  passages cut from a snapshot. Every snapshot and passage brings its own evidence record and
  depends on it in both directions, so that losing either loses the other.
\<close>

definition prepare_collection ::
    "'ks memory_db \<Rightarrow> env \<Rightarrow> 'ks \<Rightarrow> operation_context \<Rightarrow> new_artifact_collection \<Rightarrow> collection_receipt prepared mres" where
  "prepare_collection db env ks operation input =
     bind_res (require_artifact_actor (oc_actor operation)) (\<lambda>_.
     bind_res (validate_exact_bounded_text (nac_label input) ''artifact label'' MAX_ARTIFACT_LABEL_BYTES) (\<lambda>label.
     let input = input\<lparr>nac_label := label\<rparr> in
     bind_res (mutation_digest db ''create_artifact_collection'' (oc_actor operation) (MuCollection input)) (\<lambda>digest.
     unless_replayed db ks (vc_collection (md_receipts db)) operation digest
       (let i = env_ids env 0; now = env_now env 0;
            header = \<lparr>ach_id = i, ach_scope = ArtifactScope i, ach_created_by = oc_actor operation,
                      ach_recorded_at_ms = now, ach_operation_id = oc_id operation\<rparr>;
            receipt = \<lparr>acp_id = i, acp_availability_revision = 1\<rparr>;
            audit = new_audit_event db (env_ids env 1) operation ArtifactCollectionCreated [RArtifactCollection i] now
        in bind_res (encode (mc_collection (md_codecs db)) header) (\<lambda>h.
           bind_res (encode (mc_artifact_availability (md_codecs db)) (next_availability i 1 Active (oc_id operation) now)) (\<lambda>a.
           finish db (vc_collection (md_receipts db)) operation digest receipt audit
             [put P_ARTIFACT_COLLECTIONS (id_key i) h,
              put P_ARTIFACT_COLLECTION_AVAILABILITY (revision_key i 1) a,
              put P_ARTIFACT_COLLECTION_HEADS (id_key i) (u64_be 1),
              put P_PAYLOADS (payload_key (RArtifactCollection i)) (as_bytes (nac_label input))]))))))"

definition create_artifact_collection ::
    "'ks memory_db \<Rightarrow> env \<Rightarrow> 'ks \<Rightarrow> operation_context \<Rightarrow> new_artifact_collection \<Rightarrow> collection_receipt mres \<times> 'ks" where
  "create_artifact_collection db env ks operation input =
     run_mutation db ks (prepare_collection db env ks operation input)"

definition insert_bidirectional_dependency :: "record_ref \<Rightarrow> record_ref \<Rightarrow> batch_op list" where
  "insert_bidirectional_dependency first second =
     [put P_DEPENDENCIES (dependency_key first second) [], put P_DEPENDENCIES (dependency_key second first) []]"

definition insert_artifact_evidence ::
    "'ks memory_db \<Rightarrow> operation_context \<Rightarrow> ulid \<Rightarrow> evidence_class \<Rightarrow> scope \<Rightarrow> temporal_facts \<Rightarrow> string \<Rightarrow> i64 \<Rightarrow> batch_op list mres" where
  "insert_artifact_evidence db operation i c scope temporal text now =
     insert_evidence_record db
       (new_evidence_header i c (oc_actor operation) scope temporal DirectTruth now (oc_id operation)) text"

definition snapshot_batch ::
    "'ks memory_db \<Rightarrow> env \<Rightarrow> operation_context \<Rightarrow> new_artifact_snapshot \<Rightarrow> scope \<Rightarrow> batch_op list mres" where
  "snapshot_batch db env operation input scope =
     (let i = env_ids env 0; evidence_id = env_ids env 1; now = env_now env 0;
          header = \<lparr>ash_id = i, ash_collection_id = nas_collection_id input, ash_evidence_id = evidence_id,
                    ash_scope = scope, ash_temporal = nas_temporal input,
                    ash_byte_len = word_of_nat (length (nas_bytes input)), ash_recorded_at_ms = now,
                    ash_operation_id = oc_id operation\<rparr>
      in bind_res (encode (mc_snapshot (md_codecs db)) header) (\<lambda>h.
         bind_res (encode (mc_artifact_availability (md_codecs db)) (next_availability i 1 Active (oc_id operation) now)) (\<lambda>a.
         bind_res (encode (mc_snapshot_payload (md_codecs db))
                     \<lparr>asp_media_type = nas_media_type input, asp_content_digest = md_hash db (nas_bytes input)\<rparr>) (\<lambda>p.
         bind_res (insert_artifact_evidence db operation evidence_id ArtifactSnapshotEvidence scope (nas_temporal input)
                     (nas_media_type input) now) (\<lambda>ev.
         bind_res (encode (mc_provenance (md_codecs db))
                     (SnapshotProvenance (nas_collection_id input) i (word_of_nat (length (nas_bytes input))))) (\<lambda>pv.
         Inr ([put P_ARTIFACT_SNAPSHOTS (id_key i) h,
               put P_ARTIFACT_SNAPSHOT_AVAILABILITY (revision_key i 1) a,
               put P_ARTIFACT_SNAPSHOT_HEADS (id_key i) (u64_be 1),
               put P_PAYLOADS (payload_key (RArtifactSnapshot i)) p,
               put P_ARTIFACT_SNAPSHOT_BLOBS (id_key i) (nas_bytes input)] @ ev @
              insert_bidirectional_dependency (RArtifactSnapshot i) (REvidence evidence_id) @
              [put P_ARTIFACT_BY_EVIDENCE (id_key evidence_id) pv,
               put P_DEPENDENCIES (dependency_key (RArtifactCollection (nas_collection_id input)) (RArtifactSnapshot i)) []])))))))"

definition prepare_snapshot ::
    "'ks memory_db \<Rightarrow> env \<Rightarrow> 'ks \<Rightarrow> operation_context \<Rightarrow> new_artifact_snapshot \<Rightarrow> snapshot_receipt prepared mres" where
  "prepare_snapshot db env ks operation input =
     bind_res (require_artifact_actor (oc_actor operation)) (\<lambda>_.
     bind_res (validate_temporal (nas_temporal input)) (\<lambda>_.
     bind_res (validate_exact_bounded_text (nas_media_type input) ''artifact media type'' MAX_ARTIFACT_MEDIA_TYPE_BYTES) (\<lambda>media_type.
     let input = input\<lparr>nas_media_type := media_type\<rparr> in
     if nas_bytes input = [] \<or> MAX_ARTIFACT_SNAPSHOT_BYTES < length (nas_bytes input)
     then Inl (MInvalidInput (''artifact snapshot bytes must contain 1..='' @ show_nat MAX_ARTIFACT_SNAPSHOT_BYTES @ '' bytes''))
     else bind_res (artifact_snapshot_mutation_digest db (oc_actor operation) input) (\<lambda>digest.
     unless_replayed db ks (vc_snapshot (md_receipts db)) operation digest
       (bind_res (found (RArtifactCollection (nas_collection_id input))
                    (inspect_artifact_collection db ks (nas_collection_id input)) id) (\<lambda>collection.
        bind_res (require_active_revision (av_state (acr_availability collection)) (av_revision (acr_availability collection))
                    (nas_expected_collection_revision input)) (\<lambda>_.
        let i = env_ids env 0; evidence_id = env_ids env 1;
            receipt = \<lparr>ast_id = i, ast_availability_revision = 1,
                       ast_evidence = \<lparr>vr_id = evidence_id, vr_availability_revision = 1\<rparr>\<rparr>;
            audit = new_audit_event db (env_ids env 2) operation ArtifactSnapshotImported
              [RArtifactSnapshot i, REvidence evidence_id] (env_now env 0)
        in bind_res (snapshot_batch db env operation input (ach_scope (acr_header collection))) (\<lambda>batch.
           finish db (vc_snapshot (md_receipts db)) operation digest receipt audit batch))))))))"

definition import_artifact_snapshot ::
    "'ks memory_db \<Rightarrow> env \<Rightarrow> 'ks \<Rightarrow> operation_context \<Rightarrow> new_artifact_snapshot \<Rightarrow> snapshot_receipt mres \<times> 'ks" where
  "import_artifact_snapshot db env ks operation input = run_mutation db ks (prepare_snapshot db env ks operation input)"

definition materialize_artifact_snapshot :: "'ks memory_db \<Rightarrow> 'ks \<Rightarrow> ulid \<Rightarrow> snapshot_blob option mres" where
  "materialize_artifact_snapshot db ks i =
     bind_res (inspect_artifact_snapshot db ks i) (\<lambda>s.
     case s of
       None \<Rightarrow> Inr None
     | Some record \<Rightarrow>
         if \<not> asr_payload_available record then Inr None
         else let incomplete = MCorrupt (''artifact snapshot '' @ md_show_id db i @ '' has incomplete metadata'') in
         bind_res (ok_or incomplete (asr_media_type record)) (\<lambda>media_type.
         bind_res (ok_or incomplete (asr_content_digest record)) (\<lambda>content_digest.
         bind_res (kv_read db ks P_ARTIFACT_SNAPSHOT_BLOBS (id_key i)) (\<lambda>b.
         bind_res (ok_or (MCorrupt (''artifact snapshot '' @ md_show_id db i @ '' metadata exists without its blob'')) b) (\<lambda>bytes.
         if word_of_nat (length bytes) \<noteq> ash_byte_len (asr_header record) \<or> md_hash db bytes \<noteq> content_digest
         then Inl (MCorrupt (''artifact snapshot '' @ md_show_id db i @ '' blob does not match its erasable metadata''))
         else Inr (Some \<lparr>asb_id = i, asb_media_type = media_type, asb_content_digest = content_digest, asb_bytes = bytes\<rparr>))))))"

fun check_passages :: "'ks memory_db \<Rightarrow> 'ks \<Rightarrow> ulid \<Rightarrow> u64 \<Rightarrow> new_artifact_passage list \<Rightarrow> unit mres" where
  "check_passages db ks snapshot_id byte_len [] = Inr ()"
| "check_passages db ks snapshot_id byte_len (p # ps) =
     (if (case al_byte_range (nap_locator p) of None \<Rightarrow> False | Some rng \<Rightarrow> byte_len < ar_end_exclusive rng)
      then Inl (MInvalidInput ''artifact passage byte range exceeds its snapshot'')
      else bind_res (kv_read db ks P_ARTIFACT_PASSAGE_ORDINALS
                       (artifact_passage_ordinal_key snapshot_id (al_ordinal (nap_locator p)))) (\<lambda>v.
      if v \<noteq> None
      then Inl (MInvalidInput (''artifact snapshot '' @ md_show_id db snapshot_id @ '' already has passage ordinal '' @
                  show_nat (unat (al_ordinal (nap_locator p)))))
      else check_passages db ks snapshot_id byte_len ps))"

text \<open>The writes of one passage; the passage and its evidence take two identifiers.\<close>

definition passage_batch ::
    "'ks memory_db \<Rightarrow> operation_context \<Rightarrow> snapshot_header \<Rightarrow> ulid \<Rightarrow> i64 \<Rightarrow> ulid \<Rightarrow> ulid \<Rightarrow> new_artifact_passage \<Rightarrow>
     batch_op list mres" where
  "passage_batch db operation snapshot snapshot_id now i evidence_id p =
     (let header = \<lparr>aph_id = i, aph_collection_id = ash_collection_id snapshot, aph_snapshot_id = snapshot_id,
                    aph_evidence_id = evidence_id, aph_scope = ash_scope snapshot, aph_temporal = ash_temporal snapshot,
                    aph_locator = nap_locator p, aph_recorded_at_ms = now, aph_operation_id = oc_id operation\<rparr>
      in bind_res (encode (mc_passage (md_codecs db)) header) (\<lambda>h.
         bind_res (encode (mc_artifact_availability (md_codecs db)) (next_availability i 1 Active (oc_id operation) now)) (\<lambda>a.
         bind_res (insert_artifact_evidence db operation evidence_id ArtifactPassageEvidence (ash_scope snapshot)
                     (ash_temporal snapshot) (nap_text p) now) (\<lambda>ev.
         bind_res (encode (mc_provenance (md_codecs db))
                     (PassageProvenance (ash_collection_id snapshot) snapshot_id i (nap_locator p))) (\<lambda>pv.
         Inr ([put P_ARTIFACT_PASSAGES (id_key i) h,
               put P_ARTIFACT_PASSAGE_AVAILABILITY (revision_key i 1) a,
               put P_ARTIFACT_PASSAGE_HEADS (id_key i) (u64_be 1),
               put P_PAYLOADS (payload_key (RArtifactPassage i)) (as_bytes (nap_text p))] @ ev @
              insert_bidirectional_dependency (RArtifactPassage i) (REvidence evidence_id) @
              [put P_DEPENDENCIES (dependency_key (RArtifactSnapshot snapshot_id) (RArtifactPassage i)) [],
               put P_ARTIFACT_PASSAGE_ORDINALS (artifact_passage_ordinal_key snapshot_id (al_ordinal (nap_locator p))) (id_key i),
               put P_ARTIFACT_BY_EVIDENCE (id_key evidence_id) pv]))))))"

fun passages_batch ::
    "'ks memory_db \<Rightarrow> env \<Rightarrow> operation_context \<Rightarrow> snapshot_header \<Rightarrow> ulid \<Rightarrow> i64 \<Rightarrow> nat \<Rightarrow> new_artifact_passage list \<Rightarrow>
     (batch_op list \<times> passage_receipt list \<times> record_ref list) mres" where
  "passages_batch db env operation snapshot snapshot_id now n [] = Inr ([], [], [])"
| "passages_batch db env operation snapshot snapshot_id now n (p # ps) =
     (let i = env_ids env n; evidence_id = env_ids env (n + 1) in
      bind_res (passage_batch db operation snapshot snapshot_id now i evidence_id p) (\<lambda>ops.
      bind_res (passages_batch db env operation snapshot snapshot_id now (n + 2) ps) (\<lambda>(rest, receipts, subjects).
      Inr (ops @ rest,
           \<lparr>app_id = i, app_availability_revision = 1,
            app_evidence = \<lparr>vr_id = evidence_id, vr_availability_revision = 1\<rparr>\<rparr> # receipts,
           [RArtifactPassage i, REvidence evidence_id] @ subjects))))"

definition prepare_passages ::
    "'ks memory_db \<Rightarrow> env \<Rightarrow> 'ks \<Rightarrow> operation_context \<Rightarrow> new_artifact_passage_batch \<Rightarrow> passage_receipt list prepared mres" where
  "prepare_passages db env ks operation input =
     bind_res (require_artifact_actor (oc_actor operation)) (\<lambda>_.
     bind_res (validate_artifact_passage_batch (md_unicode db) input) (\<lambda>input.
     bind_res (mutation_digest db ''create_artifact_passages'' (oc_actor operation) (MuPassages input)) (\<lambda>digest.
     unless_replayed db ks (vc_passages (md_receipts db)) operation digest
       (bind_res (found (RArtifactSnapshot (npb_snapshot_id input))
                    (inspect_artifact_snapshot db ks (npb_snapshot_id input)) id) (\<lambda>snapshot.
        bind_res (require_active_revision (av_state (asr_availability snapshot)) (av_revision (asr_availability snapshot))
                    (npb_expected_snapshot_revision input)) (\<lambda>_.
        bind_res (check_passages db ks (npb_snapshot_id input) (ash_byte_len (asr_header snapshot)) (npb_passages input)) (\<lambda>_.
        bind_res (passages_batch db env operation (asr_header snapshot) (npb_snapshot_id input) (env_now env 0) 0
                    (npb_passages input)) (\<lambda>(batch, receipts, subjects).
        let audit = new_audit_event db (env_ids env (2 * length (npb_passages input))) operation ArtifactPassagesCreated
              subjects (env_now env 0)
        in finish db (vc_passages (md_receipts db)) operation digest receipts audit batch))))))))"

definition create_artifact_passages ::
    "'ks memory_db \<Rightarrow> env \<Rightarrow> 'ks \<Rightarrow> operation_context \<Rightarrow> new_artifact_passage_batch \<Rightarrow> passage_receipt list mres \<times> 'ks" where
  "create_artifact_passages db env ks operation input = run_mutation db ks (prepare_passages db env ks operation input)"

end
