(* ===== verification/Memory_Recall.thy ===== *)
theory Memory_Recall
  imports Memory_Artifacts
begin

text \<open>
  Recall: candidates come from the postings of the exact text and of its terms, or from the
  observed-time index when there is no text; a candidate becomes a citation when it is an active
  record with a readable text whose evidence is active too, and lies in the scopes and times
  asked for; citations are ranked and cut to the limit, and the case is recorded.
\<close>

record candidate_match =
  cm_exact :: bool
  cm_matched_terms :: u32

definition no_match :: candidate_match where
  "no_match = \<lparr>cm_exact = False, cm_matched_terms = 0\<rparr>"

section \<open>Candidates\<close>

text \<open>The loop over scanned index keys: \<open>skip\<close> is the length of what precedes the record key.\<close>

fun scan_records :: "nat \<Rightarrow> string \<Rightarrow> record_ref set \<Rightarrow> nat \<Rightarrow> record_ref list \<Rightarrow> kv_item list \<Rightarrow> record_ref list mres" where
  "scan_records skip corrupt excluded limit records [] = Inr records"
| "scan_records skip corrupt excluded limit records (Inl e # items) = Inl (MStorage e)"
| "scan_records skip corrupt excluded limit records (Inr (key, _) # items) =
     (if length key \<noteq> skip + 17 then Inl (MCorrupt corrupt)
      else case record_from_key (drop skip key) of
        Inl e \<Rightarrow> Inl e
      | Inr r \<Rightarrow>
          if r \<in> excluded then scan_records skip corrupt excluded limit records items
          else let records = records @ [r] in
            if length records = limit then Inr records
            else scan_records skip corrupt excluded limit records items)"

definition posting_records :: "'ks memory_db \<Rightarrow> 'ks \<Rightarrow> byte \<Rightarrow> digest \<Rightarrow> record_ref set \<Rightarrow> record_ref list mres" where
  "posting_records db ks domain h excluded =
     scan_records (length (domain # h)) ''invalid lexical posting key'' excluded MAX_RECALL_CANDIDATES []
       (kv_range (md_kv db) ks (part_name P_LEXICAL_POSTINGS) (domain # h) ((domain # h) @ [0xff]))"

definition i64_min :: i64 where
  "i64_min = push_bit 63 1"

definition records_in_observed_range ::
    "'ks memory_db \<Rightarrow> 'ks \<Rightarrow> i64 option \<Rightarrow> i64 option \<Rightarrow> nat \<Rightarrow> record_ref set \<Rightarrow> record_ref list mres" where
  "records_in_observed_range db ks from to limit excluded =
     (let lower = u64_be (ordered_time (case from of None \<Rightarrow> i64_min | Some t \<Rightarrow> t));
          upper = (case to of None \<Rightarrow> replicate 26 0xff | Some t \<Rightarrow> u64_be (ordered_time t))
      in scan_records 8 ''invalid observed-time key'' excluded limit []
           (rev (kv_range (md_kv db) ks (part_name P_TIME_INDEX) lower upper)))"

type_synonym candidates = "(record_ref, candidate_match) btree"

definition match_of :: "candidates \<Rightarrow> record_ref \<Rightarrow> candidate_match" where
  "match_of m r = (case btree_get m r of None \<Rightarrow> no_match | Some c \<Rightarrow> c)"

definition add_exact :: "candidates \<Rightarrow> record_ref \<Rightarrow> candidates" where
  "add_exact m r = btree_insert r ((match_of m r)\<lparr>cm_exact := True\<rparr>) m"

definition add_term :: "candidates \<Rightarrow> record_ref \<Rightarrow> candidates" where
  "add_term m r =
     (if btree_get m r = None \<and> MAX_RECALL_CANDIDATES \<le> length m then m
      else let c = match_of m r in
           btree_insert r (c\<lparr>cm_matched_terms := cm_matched_terms c + 1\<rparr>) m)"

definition add_plain :: "candidates \<Rightarrow> record_ref \<Rightarrow> candidates" where
  "add_plain m r = btree_insert r (match_of m r) m"

fun term_candidates :: "'ks memory_db \<Rightarrow> 'ks \<Rightarrow> record_ref set \<Rightarrow> candidates \<Rightarrow> bytes list \<Rightarrow> candidates mres" where
  "term_candidates db ks excluded m [] = Inr m"
| "term_candidates db ks excluded m (t # ts) =
     bind_res (posting_records db ks 0x01 (index_hash db 0x01 t) excluded) (\<lambda>rs.
     term_candidates db ks excluded (foldl add_term m rs) ts)"

definition recall_candidates ::
    "'ks memory_db \<Rightarrow> 'ks \<Rightarrow> record_ref set \<Rightarrow> memory_query \<Rightarrow> string \<Rightarrow> candidates mres" where
  "recall_candidates db ks excluded query normalized =
     (if normalized \<noteq> []
      then bind_res (posting_records db ks 0x02 (index_hash db 0x02 (as_bytes normalized)) excluded) (\<lambda>rs.
           term_candidates db ks excluded (foldl add_exact [] rs)
             (take MAX_RECALL_TERMS (sort_dedup (map as_bytes (tokenize (md_unicode db) (rq_text query))))))
      else bind_res (records_in_observed_range db ks (rq_observed_from_ms query) (rq_observed_to_ms query)
                       MAX_RECALL_CANDIDATES excluded) (\<lambda>rs. Inr (foldl add_plain [] rs)))"

section \<open>Citations\<close>

definition evidence_citation_of :: "ulid \<Rightarrow> evidence_record \<Rightarrow> artifact_provenance option \<Rightarrow> evidence_citation" where
  "evidence_citation_of i e artifact =
     \<lparr>ec_id = i, ec_revision = av_revision (er_availability e), ec_class = eh_class (er_header e),
      ec_lifecycle = eh_lifecycle (er_header e), ec_artifact = artifact\<rparr>"

fun recall_evidence_truth :: "'ks memory_db \<Rightarrow> 'ks \<Rightarrow> ulid list \<Rightarrow> evidence_citation list option mres" where
  "recall_evidence_truth db ks [] = Inr (Some [])"
| "recall_evidence_truth db ks (i # is) =
     bind_res (inspect_evidence db ks i) (\<lambda>v.
     case v of
       None \<Rightarrow> Inr None
     | Some e \<Rightarrow>
         if av_state (er_availability e) \<noteq> Active \<or> er_text e = None \<or> eh_class (er_header e) = AssistantUtterance
         then Inr None
         else bind_res (artifact_provenance_for_evidence db ks i) (\<lambda>artifact.
              bind_res (recall_evidence_truth db ks is) (\<lambda>rest.
              Inr (map_option (\<lambda>cs. evidence_citation_of i e artifact # cs) rest))))"

definition new_citation ::
    "record_ref \<Rightarrow> u64 \<Rightarrow> scope \<Rightarrow> temporal_facts \<Rightarrow> ulid list \<Rightarrow> evidence_citation list \<Rightarrow> string \<Rightarrow> citation" where
  "new_citation r revision scope temporal evidence_ids evidence text =
     \<lparr>ci_record = r, ci_revision = revision, ci_scope = scope, ci_temporal = temporal,
      ci_evidence_ids = evidence_ids, ci_evidence = evidence, ci_text = text, ci_exact_match = False,
      ci_matched_term_count = 0\<rparr>"

fun recallable_record :: "'ks memory_db \<Rightarrow> 'ks \<Rightarrow> record_ref \<Rightarrow> citation option mres" where
  "recallable_record db ks (REvidence i) =
     bind_res (inspect_evidence db ks i) (\<lambda>v.
     case v of
       None \<Rightarrow> Inr None
     | Some e \<Rightarrow>
         if av_state (er_availability e) \<noteq> Active then Inr None
         else if eh_class (er_header e) = AssistantUtterance then Inr None
         else (case er_text e of
             None \<Rightarrow> Inr None
           | Some text \<Rightarrow>
               bind_res (artifact_provenance_for_evidence db ks i) (\<lambda>artifact.
               Inr (Some (new_citation (REvidence i) (av_revision (er_availability e)) (eh_scope (er_header e))
                      (eh_temporal (er_header e)) [i] [evidence_citation_of i e artifact] text)))))"
| "recallable_record db ks (RClaim i) =
     bind_res (inspect_claim db ks i) (\<lambda>v.
     case v of
       None \<Rightarrow> Inr None
     | Some c \<Rightarrow>
         if ch_state (cr_header c) \<noteq> Active then Inr None
         else (case cr_proposition c of
             None \<Rightarrow> Inr None
           | Some text \<Rightarrow>
               bind_res (recall_evidence_truth db ks (ch_evidence_ids (cr_header c))) (\<lambda>t.
               case t of
                 None \<Rightarrow> Inr None
               | Some evidence \<Rightarrow>
                   Inr (Some (new_citation (RClaim i) (ch_revision (cr_header c)) (ch_scope (cr_header c))
                      (ch_temporal (cr_header c)) (ch_evidence_ids (cr_header c)) evidence text)))))"
| "recallable_record db ks (REntity i) =
     bind_res (inspect_entity db ks i) (\<lambda>v.
     case v of
       None \<Rightarrow> Inr None
     | Some n \<Rightarrow>
         if nh_state (nr_header n) \<noteq> Active then Inr None
         else (case nr_canonical_name n of
             None \<Rightarrow> Inr None
           | Some text \<Rightarrow>
               bind_res (recall_evidence_truth db ks (nh_evidence_ids (nr_header n))) (\<lambda>t.
               case t of
                 None \<Rightarrow> Inr None
               | Some evidence \<Rightarrow>
                   Inr (Some (new_citation (REntity i) (nh_revision (nr_header n)) (nh_scope (nr_header n))
                      (nh_temporal (nr_header n)) (nh_evidence_ids (nr_header n)) evidence text)))))"
| "recallable_record db ks _ = Inr None"

text \<open>The filters on scope, observed time and valid time.\<close>

definition citation_admitted :: "memory_query \<Rightarrow> citation \<Rightarrow> bool" where
  "citation_admitted query c \<longleftrightarrow>
     ci_scope c \<in> set (rq_scopes query) \<and>
     \<not> ((case rq_observed_from_ms query of None \<Rightarrow> False
          | Some from \<Rightarrow> sint (tf_observed_at_ms (ci_temporal c)) < sint from) \<or>
        (case rq_observed_to_ms query of None \<Rightarrow> False
          | Some to \<Rightarrow> sint to \<le> sint (tf_observed_at_ms (ci_temporal c)))) \<and>
     \<not> (case rq_valid_at_ms query of None \<Rightarrow> False
          | Some at \<Rightarrow> \<not> contains_valid_time (ci_temporal c) at)"

fun collect_citations ::
    "'ks memory_db \<Rightarrow> 'ks \<Rightarrow> record_ref set \<Rightarrow> memory_query \<Rightarrow> candidates \<Rightarrow> citation list mres" where
  "collect_citations db ks excluded query [] = Inr []"
| "collect_citations db ks excluded query ((r, matched) # ms) =
     (if r \<in> excluded then collect_citations db ks excluded query ms
      else bind_res (recallable_record db ks r) (\<lambda>v.
      bind_res (collect_citations db ks excluded query ms) (\<lambda>rest.
      case v of
        None \<Rightarrow> Inr rest
      | Some c \<Rightarrow>
          if citation_admitted query c
          then Inr (c\<lparr>ci_exact_match := cm_exact matched, ci_matched_term_count := cm_matched_terms matched\<rparr> # rest)
          else Inr rest)))"

definition ord_then :: "ordering \<Rightarrow> ordering \<Rightarrow> ordering" where
  "ord_then a b = (if a = Equal then b else a)"

definition citation_cmp :: "citation \<Rightarrow> citation \<Rightarrow> ordering" where
  "citation_cmp l r =
     ord_then (cmp_of (ci_exact_match r) (ci_exact_match l))
       (ord_then (cmp_of (ci_matched_term_count r) (ci_matched_term_count l))
         (ord_then (cmp_of (sint (tf_observed_at_ms (ci_temporal r))) (sint (tf_observed_at_ms (ci_temporal l))))
           (cmp_of (ci_record l) (ci_record r))))"

section \<open>Recall\<close>

definition check_query :: "unicode \<Rightarrow> memory_query \<Rightarrow> (memory_query \<times> string) mres" where
  "check_query u query =
     (let query = query\<lparr>rq_scopes := sort_dedup (rq_scopes query)\<rparr> in
      if rq_scopes query = [] then Inl (MInvalidInput ''recall requires at least one visible scope'')
      else if MAX_RECALL_SCOPES < length (rq_scopes query)
      then Inl (MInvalidInput (''recall cannot include more than '' @ show_nat MAX_RECALL_SCOPES @ '' visible scopes''))
      else if (case (rq_observed_from_ms query, rq_observed_to_ms query) of
                 (Some from, Some to) \<Rightarrow> sint to \<le> sint from | _ \<Rightarrow> False)
      then Inl (MInvalidInput ''observed time must use a non-empty [from, to) interval'')
      else if MAX_RECALL_QUERY_BYTES < length (rq_text query)
      then Inl (MInvalidInput (''recall query exceeds '' @ show_nat MAX_RECALL_QUERY_BYTES @ '' bytes''))
      else let query = query\<lparr>rq_limit := min (rq_limit query) MAX_RECALL_LIMIT\<rparr>;
               normalized = normalize_exact u (rq_text query)
           in if normalized = [] \<and> rq_observed_from_ms query = None \<and> rq_observed_to_ms query = None
              then Inl (MInvalidInput ''recall requires lexical text or an observed-time bound'')
              else Inr (query, normalized))"

definition recall_case_of :: "'ks memory_db \<Rightarrow> ulid \<Rightarrow> memory_query \<Rightarrow> digest \<Rightarrow> citation list \<Rightarrow> i64 \<Rightarrow> recall_case" where
  "recall_case_of db i query digest citations now =
     \<lparr>kr_id = i, kr_revision = 1, kr_era_id = md_era_id db, kr_query_digest = digest, kr_scopes = rq_scopes query,
      kr_candidates = map (\<lambda>(rank, c).
        \<lparr>kc_record = ci_record c, kc_revision = ci_revision c, kc_rank = word_of_nat rank,
         kc_exact_match = ci_exact_match c, kc_matched_term_count = ci_matched_term_count c\<rparr>)
        (List.enumerate 0 citations),
      kr_recorded_at_ms = now\<rparr>"

definition prepare_recall ::
    "'ks memory_db \<Rightarrow> env \<Rightarrow> 'ks \<Rightarrow> memory_query \<Rightarrow> record_ref set \<Rightarrow> recall_result prepared mres" where
  "prepare_recall db env ks query excluded =
     bind_res (check_query (md_unicode db) query) (\<lambda>(query, normalized).
     bind_res (recall_candidates db ks excluded query normalized) (\<lambda>candidates.
     bind_res (collect_citations db ks excluded query candidates) (\<lambda>found.
     let citations = take (rq_limit query) (sort_by citation_cmp found); case_id = env_ids env 0 in
     bind_res (map_err MCodec (md_query_bytes db query)) (\<lambda>q.
     bind_res (encode (mc_recall_case (md_codecs db))
                 (recall_case_of db case_id query (index_hash db 0x03 q) citations (env_now env 0))) (\<lambda>b.
     Inr (Write [put P_RECALL_CASES (id_key case_id) b] \<lparr>rs_case_id = case_id, rs_citations = citations\<rparr>))))))"

definition recall_locked ::
    "'ks memory_db \<Rightarrow> env \<Rightarrow> 'ks \<Rightarrow> memory_query \<Rightarrow> record_ref set \<Rightarrow> recall_result mres \<times> 'ks" where
  "recall_locked db env ks query excluded = run_mutation db ks (prepare_recall db env ks query excluded)"

definition recall_memory :: "'ks memory_db \<Rightarrow> env \<Rightarrow> 'ks \<Rightarrow> memory_query \<Rightarrow> recall_result mres \<times> 'ks" where
  "recall_memory db env ks query = recall_locked db env ks query {}"

definition inspect_recall_case :: "'ks memory_db \<Rightarrow> 'ks \<Rightarrow> ulid \<Rightarrow> recall_case option mres" where
  "inspect_recall_case db ks i = get_decoded db ks (mc_recall_case (md_codecs db)) P_RECALL_CASES (id_key i)"

text \<open>The recall of a new turn: the user's evidence is stored first and left out of its own recall.\<close>

record begin_turn_result =
  bt_evidence :: evidence_receipt
  bt_recall :: recall_result

definition begin_turn_recall ::
    "'ks memory_db \<Rightarrow> env \<Rightarrow> env \<Rightarrow> 'ks \<Rightarrow> operation_context \<Rightarrow> new_evidence \<Rightarrow> memory_query \<Rightarrow> begin_turn_result mres \<times> 'ks" where
  "begin_turn_recall db env env' ks operation evidence query =
     (if oc_actor operation \<noteq> User \<or> ne_class evidence \<notin> {UserAssertion, UserCorrection}
      then (Inl MUnauthorized, ks)
      else bind_st (capture_evidence db env ks operation evidence) (\<lambda>receipt ks.
           bind_st (recall_locked db env' ks query {REvidence (vr_id receipt)}) (\<lambda>result ks.
           (Inr \<lparr>bt_evidence = receipt, bt_recall = result\<rparr>, ks))))"

end
