(* ===== verification/Memory_Purge.thy ===== *)
theory Memory_Purge
  imports Memory_Recall
begin

text \<open>
  Purging: the operator previews what a purge of a record would erase, and commits exactly that
  preview within ten minutes. The target becomes purged, its active dependents unsupported, and the
  payloads of the target and of all its dependents, active or not, are removed together with their
  places in the lexical index, the derived relation signals and the activation traces.
\<close>

definition PURGE_PREVIEW_TTL_MS :: i64 where
  "PURGE_PREVIEW_TTL_MS = 10 * 60 * 1000"

text \<open>\<^verbatim>\<open>i64::checked_add\<close>.\<close>

definition checked_add_i64 :: "i64 \<Rightarrow> i64 \<Rightarrow> i64 option" where
  "checked_add_i64 a b =
     (let s = sint a + sint b in if - (2 ^ 63) \<le> s \<and> s < 2 ^ 63 then Some (word_of_int s) else None)"

section \<open>Derived records\<close>

text \<open>The loop over the entries of one record in an index from records to derived records.\<close>

fun scan_derived :: "string \<Rightarrow> ulid list \<Rightarrow> kv_item list \<Rightarrow> ulid list mres" where
  "scan_derived corrupt ids [] = Inr ids"
| "scan_derived corrupt ids (Inl e # items) = Inl (MStorage e)"
| "scan_derived corrupt ids (Inr (key, _) # items) =
     (if length key \<noteq> 17 + 16 then Inl (MCorrupt corrupt)
      else case ulid_from_id_key (drop 17 key) of
        Inl e \<Rightarrow> Inl e
      | Inr i \<Rightarrow> scan_derived corrupt (ids @ [i]) items)"

fun scan_records_derived :: "'ks memory_db \<Rightarrow> 'ks \<Rightarrow> part \<Rightarrow> string \<Rightarrow> ulid list \<Rightarrow> record_ref list \<Rightarrow> ulid list mres" where
  "scan_records_derived db ks p corrupt ids [] = Inr ids"
| "scan_records_derived db ks p corrupt ids (r # rs) =
     bind_res (scan_derived corrupt ids (kv_range (md_kv db) ks (part_name p) (record_key r) (record_key r @ [0xff]))) (\<lambda>ids.
     scan_records_derived db ks p corrupt ids rs)"

text \<open>Only traces that still have a payload are listed; the payload is looked up during the scan.\<close>

fun scan_traces :: "'ks memory_db \<Rightarrow> 'ks \<Rightarrow> ulid list \<Rightarrow> kv_item list \<Rightarrow> ulid list mres" where
  "scan_traces db ks ids [] = Inr ids"
| "scan_traces db ks ids (Inl e # items) = Inl (MStorage e)"
| "scan_traces db ks ids (Inr (key, _) # items) =
     (if length key \<noteq> 17 + 16 then Inl (MCorrupt ''invalid activation-trace record dependency key'')
      else case ulid_from_id_key (drop 17 key) of
        Inl e \<Rightarrow> Inl e
      | Inr i \<Rightarrow>
          bind_res (kv_read db ks P_ACTIVATION_TRACE_PAYLOADS (id_key i)) (\<lambda>v.
          scan_traces db ks (if v \<noteq> None then ids @ [i] else ids) items))"

fun scan_records_traces :: "'ks memory_db \<Rightarrow> 'ks \<Rightarrow> ulid list \<Rightarrow> record_ref list \<Rightarrow> ulid list mres" where
  "scan_records_traces db ks ids [] = Inr ids"
| "scan_records_traces db ks ids (r # rs) =
     bind_res (scan_traces db ks ids
                 (kv_range (md_kv db) ks (part_name P_ACTIVATION_TRACES_BY_RECORD) (record_key r) (record_key r @ [0xff]))) (\<lambda>ids.
     scan_records_traces db ks ids rs)"

definition activation_traces_depending_on_records :: "'ks memory_db \<Rightarrow> 'ks \<Rightarrow> record_ref list \<Rightarrow> ulid list mres" where
  "activation_traces_depending_on_records db ks records =
     bind_res (scan_records_traces db ks [] records) (\<lambda>ids. Inr (sort_dedup ids))"

fun live_signals :: "'ks memory_db \<Rightarrow> 'ks \<Rightarrow> ulid list \<Rightarrow> signal_pin list mres" where
  "live_signals db ks [] = Inr []"
| "live_signals db ks (i # is) =
     bind_res (get_head db ks P_RELATION_SIGNAL_HEADS i) (\<lambda>h.
     case h of
       None \<Rightarrow> Inl (MCorrupt (''relation-signal dependency index points to missing signal '' @ md_show_id db i))
     | Some revision \<Rightarrow>
         bind_res (get_decoded db ks (mc_signal (md_codecs db)) P_RELATION_SIGNALS (revision_key i revision)) (\<lambda>g.
         bind_res (ok_or (MCorrupt (''relation signal '' @ md_show_id db i @ '' is missing revision '' @ show_rev revision)) g)
           (\<lambda>header.
         bind_res (live_signals db ks is) (\<lambda>rest.
         Inr (if gh_state header \<noteq> Purged then \<lparr>sp_id = i, sp_revision = revision\<rparr> # rest else rest)))))"

definition signal_cmp :: "signal_pin \<Rightarrow> signal_pin \<Rightarrow> ordering" where
  "signal_cmp a b = ord_then (cmp_of (sp_id a) (sp_id b)) (cmp_of (sp_revision a) (sp_revision b))"

definition relation_signals_depending_on_records :: "'ks memory_db \<Rightarrow> 'ks \<Rightarrow> record_ref list \<Rightarrow> signal_pin list mres" where
  "relation_signals_depending_on_records db ks records =
     bind_res (scan_records_derived db ks P_RELATION_SIGNALS_BY_RECORD ''invalid relation-signal record dependency key'' [] records) (\<lambda>ids.
     bind_res (live_signals db ks (sort_dedup ids)) (\<lambda>pins.
     Inr (sort_by signal_cmp pins)))"

definition append_relation_signal_state_revision ::
    "'ks memory_db \<Rightarrow> 'ks \<Rightarrow> signal_pin \<Rightarrow> record_state \<Rightarrow> ulid \<Rightarrow> i64 \<Rightarrow> (batch_op list \<times> signal_pin) mres" where
  "append_relation_signal_state_revision db ks pin state op now =
     bind_res (get_head db ks P_RELATION_SIGNAL_HEADS (sp_id pin)) (\<lambda>h.
     bind_res (ok_or (MCorrupt (''relation signal '' @ md_show_id db (sp_id pin) @ '' has no head'')) h) (\<lambda>actual.
     if actual \<noteq> sp_revision pin then Inl (MRevisionConflict (sp_revision pin) actual)
     else bind_res (get_decoded db ks (mc_signal (md_codecs db)) P_RELATION_SIGNALS (revision_key (sp_id pin) (sp_revision pin))) (\<lambda>g.
          bind_res (ok_or (MCorrupt (''relation signal '' @ md_show_id db (sp_id pin) @ '' is missing revision '' @
                      show_rev (sp_revision pin))) g) (\<lambda>header.
          if sp_revision pin = - 1 then Inl (MCorrupt ''relation signal revision overflow'')
          else let revision = sp_revision pin + 1;
                   next = header\<lparr>gh_revision := revision, gh_previous_revision := Some (sp_revision pin), gh_state := state,
                     gh_recorded_at_ms := now, gh_operation_id := op\<rparr>
               in bind_res (encode (mc_signal (md_codecs db)) next) (\<lambda>b.
                  Inr ([put P_RELATION_SIGNALS (revision_key (sp_id pin) revision) b,
                        put P_RELATION_SIGNAL_HEADS (id_key (sp_id pin)) (u64_be revision)] @
                       (if state = Purged then [rem P_RELATION_SIGNAL_PAYLOADS (id_key (sp_id pin))] else []),
                       \<lparr>sp_id = sp_id pin, sp_revision = revision\<rparr>))))))"

section \<open>The preview\<close>

fun count_present :: "'ks memory_db \<Rightarrow> 'ks \<Rightarrow> u32 \<Rightarrow> (part \<times> bytes) list \<Rightarrow> u32 mres" where
  "count_present db ks n [] = Inr n"
| "count_present db ks n ((p, k) # cells) =
     bind_res (kv_read db ks p k) (\<lambda>v.
     if v = None then count_present db ks n cells
     else if n = - 1 then Inl (MInvalidInput ''too many purge payloads'')
     else count_present db ks (n + 1) cells)"

definition build_purge_preview_at :: "'ks memory_db \<Rightarrow> 'ks \<Rightarrow> record_ref \<Rightarrow> i64 \<Rightarrow> i64 \<Rightarrow> purge_preview mres" where
  "build_purge_preview_at db ks target issued_at_ms expires_at_ms =
     bind_res (record_scope_state_revision db ks target) (\<lambda>(_, state, expected).
     if state = Purged then Inl (MInvalidInput ''record payload was already purged'')
     else bind_res (purge_dependency_closure db ks target) (\<lambda>invalidations.
          let records = target # map pd_record invalidations in
          bind_res (relation_signals_depending_on_records db ks records) (\<lambda>signals.
          bind_res (activation_traces_depending_on_records db ks records) (\<lambda>traces.
          bind_res (count_present db ks 0 (map (\<lambda>r. (P_PAYLOADS, payload_key r)) records @
                      map (\<lambda>p. (P_RELATION_SIGNAL_PAYLOADS, id_key (sp_id p))) signals @
                      map (\<lambda>i. (P_ACTIVATION_TRACE_PAYLOADS, id_key i)) traces)) (\<lambda>payloads.
          bind_res (map_err MCodec (md_purge_token db
             \<lparr>pt_era_id = md_era_id db, pt_target = target, pt_expected_revision = expected,
              pt_payloads_to_make_unavailable = payloads, pt_issued_at_ms = issued_at_ms, pt_expires_at_ms = expires_at_ms,
              pt_invalidations = invalidations, pt_relation_signal_invalidations = signals,
              pt_activation_trace_invalidations = traces\<rparr>)) (\<lambda>token.
          Inr \<lparr>pv_target = target, pv_expected_revision = expected, pv_payloads_to_make_unavailable = payloads,
               pv_invalidations = invalidations, pv_relation_signal_invalidations = signals,
               pv_activation_trace_invalidations = traces, pv_issued_at_ms = issued_at_ms, pv_expires_at_ms = expires_at_ms,
               pv_token = index_hash db 0x04 token\<rparr>))))))"

definition preview_purge :: "'ks memory_db \<Rightarrow> env \<Rightarrow> 'ks \<Rightarrow> actor \<Rightarrow> record_ref \<Rightarrow> purge_preview mres" where
  "preview_purge db env ks a target =
     (if a \<noteq> Operator then Inl MUnauthorized
      else bind_res (ok_or (MCorrupt ''purge preview time overflow'') (checked_add_i64 (env_now env 0) PURGE_PREVIEW_TTL_MS)) (\<lambda>expires.
           build_purge_preview_at db ks target (env_now env 0) expires))"

section \<open>The commit\<close>

fun remove_record_payload :: "record_ref \<Rightarrow> batch_op list" where
  "remove_record_payload (RArtifactSnapshot i) =
     [rem P_PAYLOADS (payload_key (RArtifactSnapshot i)), rem P_ARTIFACT_SNAPSHOT_BLOBS (id_key i)]"
| "remove_record_payload r = [rem P_PAYLOADS (payload_key r)]"

definition erase :: "'ks memory_db \<Rightarrow> 'ks \<Rightarrow> record_ref \<Rightarrow> batch_op list mres" where
  "erase db ks r = bind_res (remove_lexical_document db ks r) (\<lambda>lex. Inr (lex @ remove_record_payload r))"

definition withdraw ::
    "'ks memory_db \<Rightarrow> 'ks \<Rightarrow> ulid \<Rightarrow> i64 \<Rightarrow> purge_dependency \<Rightarrow> (batch_op list \<times> record_revision list) mres" where
  "withdraw db ks op now d =
     bind_res (record_scope_state_revision db ks (pd_record d)) (\<lambda>(_, state, actual).
     if actual \<noteq> pd_expected_revision d then Inl (MRevisionConflict (pd_expected_revision d) actual)
     else if state = Active
     then bind_res (append_state_revision db ks (pd_record d) (pd_expected_revision d) Unsupported op now) (\<lambda>(ops, rev).
          Inr (ops, [rev]))
     else Inr ([], []))"

fun purge_dependents ::
    "'ks memory_db \<Rightarrow> 'ks \<Rightarrow> ulid \<Rightarrow> i64 \<Rightarrow> purge_dependency list \<Rightarrow> (batch_op list \<times> record_revision list) mres" where
  "purge_dependents db ks op now [] = Inr ([], [])"
| "purge_dependents db ks op now (d # ds) =
     bind_res (withdraw db ks op now d) (\<lambda>(ops, revs).
     bind_res (erase db ks (pd_record d)) (\<lambda>er.
     bind_res (purge_dependents db ks op now ds) (\<lambda>(rest, revs').
     Inr ((ops @ er) @ rest, revs @ revs'))))"

fun purge_signals :: "'ks memory_db \<Rightarrow> 'ks \<Rightarrow> ulid \<Rightarrow> i64 \<Rightarrow> signal_pin list \<Rightarrow> (batch_op list \<times> signal_pin list) mres" where
  "purge_signals db ks op now [] = Inr ([], [])"
| "purge_signals db ks op now (p # ps) =
     bind_res (append_relation_signal_state_revision db ks p Purged op now) (\<lambda>(ops, pin).
     bind_res (purge_signals db ks op now ps) (\<lambda>(rest, pins).
     Inr (ops @ rest, pin # pins)))"

text \<open>The preview must still be in time and describe the store as it is.\<close>

definition check_preview :: "'ks memory_db \<Rightarrow> 'ks \<Rightarrow> i64 \<Rightarrow> purge_preview \<Rightarrow> unit mres" where
  "check_preview db ks now preview =
     (if sint now < sint (pv_issued_at_ms preview) then Inl (MPurgePreviewNotYetValid (pv_issued_at_ms preview) now)
      else if sint (pv_expires_at_ms preview) \<le> sint now then Inl (MPurgePreviewExpired (pv_expires_at_ms preview) now)
      else if checked_add_i64 (pv_issued_at_ms preview) PURGE_PREVIEW_TTL_MS \<noteq> Some (pv_expires_at_ms preview) then Inl MStalePurgePreview
      else bind_res (build_purge_preview_at db ks (pv_target preview) (pv_issued_at_ms preview) (pv_expires_at_ms preview)) (\<lambda>current.
           if current \<noteq> preview then Inl MStalePurgePreview else Inr ()))"

definition prepare_purge ::
    "'ks memory_db \<Rightarrow> env \<Rightarrow> 'ks \<Rightarrow> operation_context \<Rightarrow> purge_preview \<Rightarrow> purge_receipt prepared mres" where
  "prepare_purge db env ks operation preview =
     (if oc_actor operation \<noteq> Operator then Inl MUnauthorized
      else bind_res (mutation_digest db ''commit_purge'' (oc_actor operation) (MuPurge preview)) (\<lambda>digest.
      unless_replayed db ks (vc_purge (md_receipts db)) operation digest
        (bind_res (check_preview db ks (env_now env 0) preview) (\<lambda>_.
         let now = env_now env 1 in
         bind_res (append_state_revision db ks (pv_target preview) (pv_expected_revision preview) Purged (oc_id operation) now)
           (\<lambda>(ops, target).
         bind_res (erase db ks (pv_target preview)) (\<lambda>er.
         bind_res (purge_dependents db ks (oc_id operation) now (pv_invalidations preview)) (\<lambda>(rest, invalidated).
         bind_res (purge_signals db ks (oc_id operation) now (pv_relation_signal_invalidations preview)) (\<lambda>(signal_ops, signals).
         let traces = pv_activation_trace_invalidations preview;
             receipt = \<lparr>pq_target = target, pq_invalidated = invalidated, pq_purged_relation_signals = signals,
               pq_purged_activation_traces = traces, pq_payloads_made_unavailable = pv_payloads_to_make_unavailable preview\<rparr>;
             audit = (new_audit_event db (env_ids env 0) operation PurgeCommitted
               (pv_target preview # map pd_record (pv_invalidations preview)) now)
               \<lparr>ae_derived_subjects := map (\<lambda>p. DRelationSignal (sp_id p)) signals @ map DActivationTrace traces\<rparr>
         in finish db (vc_purge (md_receipts db)) operation digest receipt audit
              (((ops @ er) @ rest) @ signal_ops @ map (\<lambda>i. rem P_ACTIVATION_TRACE_PAYLOADS (id_key i)) traces)))))))))"

definition commit_purge ::
    "'ks memory_db \<Rightarrow> env \<Rightarrow> 'ks \<Rightarrow> operation_context \<Rightarrow> purge_preview \<Rightarrow> purge_receipt mres \<times> 'ks" where
  "commit_purge db env ks operation preview = run_mutation db ks (prepare_purge db env ks operation preview)"

text \<open>Audit events in the order of their keys.\<close>

fun decode_events :: "'ks memory_db \<Rightarrow> nat \<Rightarrow> audit_event list \<Rightarrow> kv_item list \<Rightarrow> audit_event list mres" where
  "decode_events db limit events [] = Inr events"
| "decode_events db limit events (Inl e # items) = Inl (MStorage e)"
| "decode_events db limit events (Inr (_, v) # items) =
     bind_res (map_err MCodec (de (mc_audit (md_codecs db)) v)) (\<lambda>x.
     let events = events @ [x] in
     if length events = limit then Inr events else decode_events db limit events items)"

definition audit_events :: "'ks memory_db \<Rightarrow> 'ks \<Rightarrow> nat \<Rightarrow> audit_event list mres" where
  "audit_events db ks limit =
     (if limit = 0 then Inr [] else decode_events db limit [] (kv_iter (md_kv db) ks (part_name P_AUDIT)))"

end
