(* ===== verification/Memory_Inv.thy ===== *)
theory Memory_Inv
  imports Memory_Purge
begin

text \<open>
  What a stored memory looks like. A record is observed through its current revision: its fixed
  content, its scope, its state and its revision number. The invariant says that every record is
  readable and no revision lies above its head, that every dependency joins existing records,
  that claims, entities and relations cite existing, admissible evidence of their own scope and
  depend on it, and that no active record depends on an inactive one, except the relation that
  records a supersession.
\<close>

section \<open>Cells of a record\<close>

fun rec_id :: "record_ref \<Rightarrow> ulid" where
  "rec_id (REvidence i) = i" | "rec_id (RClaim i) = i" | "rec_id (REntity i) = i"
| "rec_id (RSemanticRelation i) = i" | "rec_id (RProposal i) = i" | "rec_id (RProposalReview i) = i"
| "rec_id (RArtifactCollection i) = i" | "rec_id (RArtifactSnapshot i) = i" | "rec_id (RArtifactPassage i) = i"

fun heads_part :: "record_ref \<Rightarrow> part" where
  "heads_part (REvidence _) = P_EVIDENCE_HEADS"
| "heads_part (RClaim _) = P_CLAIM_HEADS"
| "heads_part (REntity _) = P_ENTITY_HEADS"
| "heads_part (RSemanticRelation _) = P_RELATION_HEADS"
| "heads_part (RProposal _) = P_PROPOSAL_HEADS"
| "heads_part (RProposalReview _) = P_PROPOSAL_REVIEW_HEADS"
| "heads_part (RArtifactCollection _) = P_ARTIFACT_COLLECTION_HEADS"
| "heads_part (RArtifactSnapshot _) = P_ARTIFACT_SNAPSHOT_HEADS"
| "heads_part (RArtifactPassage _) = P_ARTIFACT_PASSAGE_HEADS"

fun revs_part :: "record_ref \<Rightarrow> part" where
  "revs_part (REvidence _) = P_EVIDENCE_AVAILABILITY"
| "revs_part (RClaim _) = P_CLAIMS"
| "revs_part (REntity _) = P_ENTITIES"
| "revs_part (RSemanticRelation _) = P_RELATIONS"
| "revs_part (RProposal _) = P_PROPOSALS"
| "revs_part (RProposalReview _) = P_PROPOSAL_REVIEWS"
| "revs_part (RArtifactCollection _) = P_ARTIFACT_COLLECTION_AVAILABILITY"
| "revs_part (RArtifactSnapshot _) = P_ARTIFACT_SNAPSHOT_AVAILABILITY"
| "revs_part (RArtifactPassage _) = P_ARTIFACT_PASSAGE_AVAILABILITY"

fun header_part :: "record_ref \<Rightarrow> part option" where
  "header_part (REvidence _) = Some P_EVIDENCE"
| "header_part (RArtifactCollection _) = Some P_ARTIFACT_COLLECTIONS"
| "header_part (RArtifactSnapshot _) = Some P_ARTIFACT_SNAPSHOTS"
| "header_part (RArtifactPassage _) = Some P_ARTIFACT_PASSAGES"
| "header_part _ = None"

definition rec_cells :: "record_ref \<Rightarrow> (string \<times> bytes) set" where
  "rec_cells r =
     {(part_name (heads_part r), id_key (rec_id r)), (part_name P_PAYLOADS, payload_key r)}
     \<union> range (\<lambda>v. (part_name (revs_part r), revision_key (rec_id r) v))
     \<union> {(part_name p, id_key (rec_id r)) |p. header_part r = Some p}"

text \<open>Partitions outside the cells of any record and the dependency index.\<close>

definition record_parts :: "part set" where
  "record_parts =
     {P_EVIDENCE_HEADS, P_CLAIM_HEADS, P_ENTITY_HEADS, P_RELATION_HEADS, P_PROPOSAL_HEADS,
      P_PROPOSAL_REVIEW_HEADS, P_ARTIFACT_COLLECTION_HEADS, P_ARTIFACT_SNAPSHOT_HEADS,
      P_ARTIFACT_PASSAGE_HEADS, P_EVIDENCE_AVAILABILITY, P_CLAIMS, P_ENTITIES, P_RELATIONS,
      P_PROPOSALS, P_PROPOSAL_REVIEWS, P_ARTIFACT_COLLECTION_AVAILABILITY,
      P_ARTIFACT_SNAPSHOT_AVAILABILITY, P_ARTIFACT_PASSAGE_AVAILABILITY, P_EVIDENCE,
      P_ARTIFACT_COLLECTIONS, P_ARTIFACT_SNAPSHOTS, P_ARTIFACT_PASSAGES, P_PAYLOADS}"

fun op_cell :: "batch_op \<Rightarrow> string \<times> bytes" where
  "op_cell (BInsert p k v) = (p, k)"
| "op_cell (BRemove p k) = (p, k)"

definition cells_of :: "batch_op list \<Rightarrow> (string \<times> bytes) set" where
  "cells_of ops = op_cell ` set ops"

definition agree :: "kv_view \<Rightarrow> kv_view \<Rightarrow> (string \<times> bytes) set \<Rightarrow> bool" where
  "agree m m' C \<longleftrightarrow> (\<forall>c \<in> C. m (fst c) (snd c) = m' (fst c) (snd c))"

lemma cells_of_simps [simp]:
  "cells_of [] = {}" "cells_of (b # bs) = insert (op_cell b) (cells_of bs)"
  "cells_of (as @ bs) = cells_of as \<union> cells_of bs"
  by (auto simp: cells_of_def)

lemma apply_ops_frame: "(p, k) \<notin> cells_of ops \<Longrightarrow> apply_ops ops m p k = m p k"
proof (induction ops arbitrary: m)
  case (Cons b ops)
  then show ?case by (cases b) auto
qed simp

lemma agree_refl [simp]: "agree m m C"
  by (simp add: agree_def)

lemma agree_sym: "agree m m' C \<Longrightarrow> agree m' m C"
  by (simp add: agree_def)

lemma agree_trans: "agree m m' C \<Longrightarrow> agree m' m'' C \<Longrightarrow> agree m m'' C"
  by (simp add: agree_def)

lemma agree_apply_ops: "cells_of ops \<inter> C = {} \<Longrightarrow> agree m (apply_ops ops m) C"
  unfolding agree_def by (metis apply_ops_frame disjoint_iff prod.collapse)

lemma record_parts_apart:
  "heads_part r \<noteq> revs_part s" "heads_part r \<noteq> P_PAYLOADS" "revs_part r \<noteq> P_PAYLOADS"
  "header_part r \<noteq> Some (heads_part s)" "header_part r \<noteq> Some (revs_part s)" "header_part r \<noteq> Some P_PAYLOADS"
  by (cases r; cases s; simp)+

lemma record_parts_inject:
  "heads_part r = heads_part s \<Longrightarrow> rec_id r = rec_id s \<Longrightarrow> r = s"
  "revs_part r = revs_part s \<Longrightarrow> rec_id r = rec_id s \<Longrightarrow> r = s"
  "header_part r = Some p \<Longrightarrow> header_part s = Some p \<Longrightarrow> rec_id r = rec_id s \<Longrightarrow> r = s"
  by (cases r; cases s; simp)+

lemma rec_cells_disjoint: "c \<in> rec_cells r \<Longrightarrow> c \<in> rec_cells s \<Longrightarrow> r = s"
  by (auto simp: rec_cells_def record_parts_apart record_parts_apart [symmetric]
      dest: record_parts_inject)

lemma rec_cells_part: "(part_name p, k) \<in> rec_cells r \<Longrightarrow> p \<in> record_parts"
  by (cases r) (auto simp: rec_cells_def record_parts_def)

lemma aux_not_record [simp]:
  "P_DEPENDENCIES \<notin> record_parts" "P_LEXICAL_DOCS \<notin> record_parts" "P_LEXICAL_POSTINGS \<notin> record_parts"
  "P_TIME_INDEX \<notin> record_parts" "P_AUDIT \<notin> record_parts" "P_OPERATIONS \<notin> record_parts"
  "P_RECALL_CASES \<notin> record_parts" "P_PENDING_PROPOSALS \<notin> record_parts"
  "P_AWAITING_ADJUDICATION \<notin> record_parts" "P_ARTIFACT_BY_EVIDENCE \<notin> record_parts"
  "P_ARTIFACT_PASSAGE_ORDINALS \<notin> record_parts" "P_ARTIFACT_SNAPSHOT_BLOBS \<notin> record_parts"
  by (simp_all add: record_parts_def)

section \<open>Observing a record\<close>

datatype rec_content =
    KEvidence evidence_header
  | KClaim claim_domain temporal_facts "ulid list"
  | KEntity entity_kind temporal_facts "ulid list"
  | KRelation record_ref record_ref relation_kind "ulid list"
  | KOther

type_synonym observation = "rec_content \<times> scope \<times> record_state \<times> u64"

definition stored_at :: "'a codec \<Rightarrow> kv_view \<Rightarrow> part \<Rightarrow> bytes \<Rightarrow> 'a option" where
  "stored_at c m p k =
     (case m (part_name p) k of None \<Rightarrow> None | Some b \<Rightarrow> (case de c b of Inl _ \<Rightarrow> None | Inr x \<Rightarrow> Some x))"

definition head_of :: "kv_view \<Rightarrow> part \<Rightarrow> ulid \<Rightarrow> u64 option" where
  "head_of m p i =
     (case m (part_name p) (id_key i) of
        None \<Rightarrow> None
      | Some b \<Rightarrow> (case decode_u64 b of Inl _ \<Rightarrow> None | Inr r \<Rightarrow> Some r))"

text \<open>The current revision of a record with revision headers, or with a fixed header and availabilities.\<close>

definition current :: "'a codec \<Rightarrow> kv_view \<Rightarrow> part \<Rightarrow> part \<Rightarrow> ulid \<Rightarrow> 'a option" where
  "current c m p hp i = Option.bind (head_of m hp i) (\<lambda>r. stored_at c m p (revision_key i r))"

definition obs_avail ::
    "'h codec \<Rightarrow> availability codec \<Rightarrow> kv_view \<Rightarrow> part \<Rightarrow> part \<Rightarrow> part \<Rightarrow> ulid \<Rightarrow> ('h \<Rightarrow> rec_content \<times> scope) \<Rightarrow> observation option" where
  "obs_avail ch ca m p ap hp i f =
     Option.bind (stored_at ch m p (id_key i)) (\<lambda>h.
     map_option (\<lambda>a. (fst (f h), snd (f h), av_state a, av_revision a)) (current ca m ap hp i))"

fun obs :: "'ks memory_db \<Rightarrow> kv_view \<Rightarrow> record_ref \<Rightarrow> observation option" where
  "obs db m (REvidence i) =
     obs_avail (mc_evidence (md_codecs db)) (mc_evidence_availability (md_codecs db)) m
       P_EVIDENCE P_EVIDENCE_AVAILABILITY P_EVIDENCE_HEADS i (\<lambda>h. (KEvidence h, eh_scope h))"
| "obs db m (RArtifactCollection i) =
     obs_avail (mc_collection (md_codecs db)) (mc_artifact_availability (md_codecs db)) m
       P_ARTIFACT_COLLECTIONS P_ARTIFACT_COLLECTION_AVAILABILITY P_ARTIFACT_COLLECTION_HEADS i (\<lambda>h. (KOther, ach_scope h))"
| "obs db m (RArtifactSnapshot i) =
     obs_avail (mc_snapshot (md_codecs db)) (mc_artifact_availability (md_codecs db)) m
       P_ARTIFACT_SNAPSHOTS P_ARTIFACT_SNAPSHOT_AVAILABILITY P_ARTIFACT_SNAPSHOT_HEADS i (\<lambda>h. (KOther, ash_scope h))"
| "obs db m (RArtifactPassage i) =
     obs_avail (mc_passage (md_codecs db)) (mc_artifact_availability (md_codecs db)) m
       P_ARTIFACT_PASSAGES P_ARTIFACT_PASSAGE_AVAILABILITY P_ARTIFACT_PASSAGE_HEADS i (\<lambda>h. (KOther, aph_scope h))"
| "obs db m (RClaim i) =
     map_option (\<lambda>h. (KClaim (ch_domain h) (ch_temporal h) (ch_evidence_ids h), ch_scope h, ch_state h, ch_revision h))
       (current (mc_claim (md_codecs db)) m P_CLAIMS P_CLAIM_HEADS i)"
| "obs db m (REntity i) =
     map_option (\<lambda>h. (KEntity (nh_kind h) (nh_temporal h) (nh_evidence_ids h), nh_scope h, nh_state h, nh_revision h))
       (current (mc_entity (md_codecs db)) m P_ENTITIES P_ENTITY_HEADS i)"
| "obs db m (RSemanticRelation i) =
     map_option (\<lambda>h. (KRelation (lh_from h) (lh_to h) (lh_kind h) (lh_evidence_ids h), lh_scope h, lh_state h, lh_revision h))
       (current (mc_relation (md_codecs db)) m P_RELATIONS P_RELATION_HEADS i)"
| "obs db m (RProposal i) =
     map_option (\<lambda>h. (KOther, ph_scope h, ph_state h, ph_revision h))
       (current (mc_proposal (md_codecs db)) m P_PROPOSALS P_PROPOSAL_HEADS i)"
| "obs db m (RProposalReview i) =
     map_option (\<lambda>h. (KOther, wh_scope h, wh_state h, wh_revision h))
       (current (mc_review (md_codecs db)) m P_PROPOSAL_REVIEWS P_PROPOSAL_REVIEW_HEADS i)"

section \<open>Well-formed records\<close>

definition revs_ok :: "'a codec \<Rightarrow> kv_view \<Rightarrow> part \<Rightarrow> part \<Rightarrow> ulid \<Rightarrow> ('a \<Rightarrow> u64) \<Rightarrow> bool" where
  "revs_ok c m p hp i rv =
     (case m (part_name hp) (id_key i) of
        None \<Rightarrow> \<forall>v. m (part_name p) (revision_key i v) = None
      | Some b \<Rightarrow>
          \<exists>r x. b = u64_be r \<and> stored_at c m p (revision_key i r) = Some x \<and> rv x = r \<and>
            (\<forall>v. m (part_name p) (revision_key i v) \<noteq> None \<longrightarrow> v \<le> r))"

definition header_ok :: "'a codec \<Rightarrow> kv_view \<Rightarrow> part \<Rightarrow> part \<Rightarrow> ulid \<Rightarrow> ('a \<Rightarrow> ulid) \<Rightarrow> bool" where
  "header_ok c m p hp i hid =
     (case m (part_name p) (id_key i) of
        None \<Rightarrow> m (part_name hp) (id_key i) = None
      | Some b \<Rightarrow> m (part_name hp) (id_key i) \<noteq> None \<and> (\<exists>h. de c b = Inr h \<and> hid h = i))"

definition text_ok :: "kv_view \<Rightarrow> record_ref \<Rightarrow> bool" where
  "text_ok m r \<longleftrightarrow> (\<forall>b. m (part_name P_PAYLOADS) (payload_key r) = Some b \<longrightarrow> from_utf8 b \<noteq> None)"

definition payload_ok :: "'a codec \<Rightarrow> kv_view \<Rightarrow> record_ref \<Rightarrow> bool" where
  "payload_ok c m r \<longleftrightarrow> (\<forall>b. m (part_name P_PAYLOADS) (payload_key r) = Some b \<longrightarrow> (\<exists>x. de c b = Inr x))"

fun rec_ok :: "'ks memory_db \<Rightarrow> kv_view \<Rightarrow> record_ref \<Rightarrow> bool" where
  "rec_ok db m (REvidence i) \<longleftrightarrow>
     header_ok (mc_evidence (md_codecs db)) m P_EVIDENCE P_EVIDENCE_HEADS i eh_id \<and>
     revs_ok (mc_evidence_availability (md_codecs db)) m P_EVIDENCE_AVAILABILITY P_EVIDENCE_HEADS i av_revision \<and>
     text_ok m (REvidence i)"
| "rec_ok db m (RArtifactCollection i) \<longleftrightarrow>
     header_ok (mc_collection (md_codecs db)) m P_ARTIFACT_COLLECTIONS P_ARTIFACT_COLLECTION_HEADS i ach_id \<and>
     revs_ok (mc_artifact_availability (md_codecs db)) m P_ARTIFACT_COLLECTION_AVAILABILITY P_ARTIFACT_COLLECTION_HEADS i av_revision \<and>
     text_ok m (RArtifactCollection i)"
| "rec_ok db m (RArtifactSnapshot i) \<longleftrightarrow>
     header_ok (mc_snapshot (md_codecs db)) m P_ARTIFACT_SNAPSHOTS P_ARTIFACT_SNAPSHOT_HEADS i ash_id \<and>
     revs_ok (mc_artifact_availability (md_codecs db)) m P_ARTIFACT_SNAPSHOT_AVAILABILITY P_ARTIFACT_SNAPSHOT_HEADS i av_revision \<and>
     payload_ok (mc_snapshot_payload (md_codecs db)) m (RArtifactSnapshot i)"
| "rec_ok db m (RArtifactPassage i) \<longleftrightarrow>
     header_ok (mc_passage (md_codecs db)) m P_ARTIFACT_PASSAGES P_ARTIFACT_PASSAGE_HEADS i aph_id \<and>
     revs_ok (mc_artifact_availability (md_codecs db)) m P_ARTIFACT_PASSAGE_AVAILABILITY P_ARTIFACT_PASSAGE_HEADS i av_revision \<and>
     text_ok m (RArtifactPassage i)"
| "rec_ok db m (RClaim i) \<longleftrightarrow>
     revs_ok (mc_claim (md_codecs db)) m P_CLAIMS P_CLAIM_HEADS i ch_revision \<and> text_ok m (RClaim i)"
| "rec_ok db m (REntity i) \<longleftrightarrow>
     revs_ok (mc_entity (md_codecs db)) m P_ENTITIES P_ENTITY_HEADS i nh_revision \<and>
     payload_ok (mc_entity_payload (md_codecs db)) m (REntity i)"
| "rec_ok db m (RSemanticRelation i) \<longleftrightarrow>
     revs_ok (mc_relation (md_codecs db)) m P_RELATIONS P_RELATION_HEADS i lh_revision \<and>
     payload_ok (mc_relation_payload (md_codecs db)) m (RSemanticRelation i)"
| "rec_ok db m (RProposal i) \<longleftrightarrow>
     revs_ok (mc_proposal (md_codecs db)) m P_PROPOSALS P_PROPOSAL_HEADS i ph_revision \<and>
     payload_ok (mc_proposal_payload (md_codecs db)) m (RProposal i)"
| "rec_ok db m (RProposalReview i) \<longleftrightarrow>
     revs_ok (mc_review (md_codecs db)) m P_PROPOSAL_REVIEWS P_PROPOSAL_REVIEW_HEADS i wh_revision \<and>
     payload_ok (mc_review_payload (md_codecs db)) m (RProposalReview i)"

lemma agreeD: "agree m m' C \<Longrightarrow> (p, k) \<in> C \<Longrightarrow> m p k = m' p k"
  by (force simp: agree_def)

lemma agree_head: "agree m m' (rec_cells r) \<Longrightarrow> m (part_name (heads_part r)) (id_key (rec_id r)) = m' (part_name (heads_part r)) (id_key (rec_id r))"
  by (rule agreeD) (auto simp: rec_cells_def)

lemma agree_revs: "agree m m' (rec_cells r) \<Longrightarrow> m (part_name (revs_part r)) (revision_key (rec_id r) v) = m' (part_name (revs_part r)) (revision_key (rec_id r) v)"
  by (rule agreeD) (auto simp: rec_cells_def)

lemma agree_header: "agree m m' (rec_cells r) \<Longrightarrow> header_part r = Some p \<Longrightarrow> m (part_name p) (id_key (rec_id r)) = m' (part_name p) (id_key (rec_id r))"
  by (rule agreeD) (auto simp: rec_cells_def)

lemma agree_payload: "agree m m' (rec_cells r) \<Longrightarrow> m (part_name P_PAYLOADS) (payload_key r) = m' (part_name P_PAYLOADS) (payload_key r)"
  by (rule agreeD) (auto simp: rec_cells_def)

lemmas agree_record = agree_head agree_revs agree_header agree_payload

lemma obs_agree:
  assumes "agree m m' (rec_cells r)"
  shows "obs db m r = obs db m' r"
  using assms agree_head [OF assms] agree_revs [OF assms] agree_header [OF assms]
  by (cases r) (simp_all add: obs_avail_def current_def head_of_def stored_at_def)

lemma revs_ok_cong:
  "m (part_name hp) (id_key i) = m' (part_name hp) (id_key i) \<Longrightarrow>
   (\<And>v. m (part_name p) (revision_key i v) = m' (part_name p) (revision_key i v)) \<Longrightarrow>
   revs_ok c m p hp i rv = revs_ok c m' p hp i rv"
  by (auto simp: revs_ok_def stored_at_def split: option.split)

lemma header_ok_cong:
  "m (part_name hp) (id_key i) = m' (part_name hp) (id_key i) \<Longrightarrow>
   m (part_name p) (id_key i) = m' (part_name p) (id_key i) \<Longrightarrow> header_ok c m p hp i hid = header_ok c m' p hp i hid"
  by (auto simp: header_ok_def split: option.split)

lemma rec_ok_agree:
  assumes "agree m m' (rec_cells r)"
  shows "rec_ok db m r = rec_ok db m' r"
  using agree_head [OF assms] agree_revs [OF assms] agree_header [OF assms] agree_payload [OF assms]
  by (cases r) (simp_all add: text_ok_def payload_ok_def cong: revs_ok_cong header_ok_cong)

section \<open>Codecs\<close>

text \<open>Every value the store writes survives the JSON codec.\<close>

definition codecs_ok :: "memory_codecs \<Rightarrow> bool" where
  "codecs_ok c \<longleftrightarrow>
     (\<forall>x. codec_ok (mc_evidence c) x) \<and> (\<forall>x. codec_ok (mc_evidence_availability c) x) \<and>
     (\<forall>x. codec_ok (mc_claim c) x) \<and> (\<forall>x. codec_ok (mc_entity c) x) \<and>
     (\<forall>x. codec_ok (mc_entity_payload c) x) \<and> (\<forall>x. codec_ok (mc_relation c) x) \<and>
     (\<forall>x. codec_ok (mc_relation_payload c) x) \<and> (\<forall>x. codec_ok (mc_proposal c) x) \<and>
     (\<forall>x. codec_ok (mc_proposal_payload c) x) \<and> (\<forall>x. codec_ok (mc_review c) x) \<and>
     (\<forall>x. codec_ok (mc_review_payload c) x) \<and> (\<forall>x. codec_ok (mc_collection c) x) \<and>
     (\<forall>x. codec_ok (mc_snapshot c) x) \<and> (\<forall>x. codec_ok (mc_snapshot_payload c) x) \<and>
     (\<forall>x. codec_ok (mc_passage c) x) \<and> (\<forall>x. codec_ok (mc_artifact_availability c) x) \<and>
     (\<forall>x. codec_ok (mc_provenance c) x) \<and> (\<forall>x. codec_ok (mc_lexical c) x) \<and>
     (\<forall>x. codec_ok (mc_recall_case c) x) \<and> (\<forall>x. codec_ok (mc_audit c) x) \<and>
     (\<forall>x. codec_ok (mc_operation c) x) \<and> (\<forall>x. codec_ok (mc_signal c) x)"

definition enc :: "'a codec \<Rightarrow> 'a \<Rightarrow> bytes" where
  "enc c x = projr (ser c x)"

lemma encode_enc: "codec_ok c x \<Longrightarrow> encode c x = Inr (enc c x)"
  by (auto simp: encode_def enc_def elim!: codec_okE)

lemma de_enc: "codec_ok c x \<Longrightarrow> de c (enc c x) = Inr x"
  by (auto simp: enc_def elim!: codec_okE)

section \<open>Reading through the contract of the engine\<close>

definition payload_text :: "kv_view \<Rightarrow> record_ref \<Rightarrow> string option" where
  "payload_text m r = Option.bind (m (part_name P_PAYLOADS) (payload_key r)) from_utf8"

definition readable :: "record_state \<Rightarrow> 'a option \<Rightarrow> 'a option" where
  "readable st t = (if st = Purged then None else t)"

definition status_of :: "record_ref \<Rightarrow> observation option \<Rightarrow> (scope \<times> record_state \<times> u64) mres" where
  "status_of r x = (case x of None \<Rightarrow> Inl (MNotFound r) | Some (_, s, st, v) \<Rightarrow> Inr (s, st, v))"

locale memory_store = kv_engine "md_kv db" view for db :: "'ks memory_db" and view +
  assumes codecs: "codecs_ok (md_codecs db)"
begin

lemma codec [simp]:
  "codec_ok (mc_evidence (md_codecs db)) eh" "codec_ok (mc_evidence_availability (md_codecs db)) av"
  "codec_ok (mc_claim (md_codecs db)) ch" "codec_ok (mc_entity (md_codecs db)) nh"
  "codec_ok (mc_entity_payload (md_codecs db)) np" "codec_ok (mc_relation (md_codecs db)) lh"
  "codec_ok (mc_relation_payload (md_codecs db)) lp" "codec_ok (mc_proposal (md_codecs db)) ph"
  "codec_ok (mc_proposal_payload (md_codecs db)) pp" "codec_ok (mc_review (md_codecs db)) wh"
  "codec_ok (mc_review_payload (md_codecs db)) wp" "codec_ok (mc_collection (md_codecs db)) ach"
  "codec_ok (mc_snapshot (md_codecs db)) ash" "codec_ok (mc_snapshot_payload (md_codecs db)) asp"
  "codec_ok (mc_passage (md_codecs db)) aph" "codec_ok (mc_artifact_availability (md_codecs db)) av"
  "codec_ok (mc_provenance (md_codecs db)) pv" "codec_ok (mc_lexical (md_codecs db)) ld"
  "codec_ok (mc_recall_case (md_codecs db)) kr" "codec_ok (mc_audit (md_codecs db)) ae"
  "codec_ok (mc_operation (md_codecs db)) so" "codec_ok (mc_signal (md_codecs db)) gh"
  using codecs by (simp_all add: codecs_ok_def)

lemma read [simp]: "kv_read db ks p k = Inr (view ks (part_name p) k)"
  by (simp add: kv_read_def get_view)

lemma head_read:
  assumes "revs_ok c (view ks) p hp i rv"
  shows "get_head db ks hp i = Inr (head_of (view ks) hp i)"
  using assms by (auto simp: get_head_def head_of_def revs_ok_def split: option.splits)

lemma current_read:
  assumes "revs_ok c (view ks) p hp i rv" and "head_of (view ks) hp i = Some r"
  obtains x where "get_decoded db ks c p (revision_key i r) = Inr (Some x)"
    "current c (view ks) p hp i = Some x" "rv x = r"
proof -
  obtain x where "stored_at c (view ks) p (revision_key i r) = Some x" "rv x = r"
    using assms by (auto simp: revs_ok_def head_of_def split: option.splits)
  then have "get_decoded db ks c p (revision_key i r) = Inr (Some x)" "current c (view ks) p hp i = Some x"
    using assms(2) by (auto simp: get_decoded_def stored_at_def current_def split: option.splits sum.splits)
  then show ?thesis using that \<open>rv x = r\<close> by blast
qed

lemma revs_read:
  assumes "revs_ok c (view ks) p hp i rv"
  obtains (absent) "get_head db ks hp i = Inr None" "current c (view ks) p hp i = None"
  | (present) r x where "get_head db ks hp i = Inr (Some r)" "get_decoded db ks c p (revision_key i r) = Inr (Some x)"
      "current c (view ks) p hp i = Some x" "rv x = r"
proof (cases "head_of (view ks) hp i")
  case None
  then show ?thesis using absent head_read [OF assms] by (simp add: current_def)
next
  case (Some r)
  then show ?thesis using present head_read [OF assms] current_read [OF assms Some] by metis
qed

lemma header_read:
  assumes "header_ok c (view ks) p hp i hid"
  shows "get_decoded db ks c p (id_key i) = Inr (stored_at c (view ks) p (id_key i))"
    and "stored_at c (view ks) p (id_key i) = Some h \<Longrightarrow> hid h = i \<and> view ks (part_name hp) (id_key i) \<noteq> None"
    and "stored_at c (view ks) p (id_key i) = None \<Longrightarrow> view ks (part_name hp) (id_key i) = None"
  using assms by (auto simp: header_ok_def get_decoded_def stored_at_def split: option.splits)

lemma text_read: "text_ok (view ks) r \<Longrightarrow> get_payload db ks r = Inr (payload_text (view ks) r)"
  by (auto simp: text_ok_def get_payload_def payload_text_def split: option.splits)

lemma payload_read:
  "payload_ok c (view ks) r \<Longrightarrow>
   get_decoded db ks c P_PAYLOADS (payload_key r) = Inr (stored_at c (view ks) P_PAYLOADS (payload_key r))"
  by (auto simp: payload_ok_def get_decoded_def stored_at_def split: option.splits)

lemma unless_purged_read: "x = Inr t \<Longrightarrow> unless_purged st x = Inr (readable st t)"
  by (simp add: unless_purged_def readable_def)

lemma inspect_claim_view:
  assumes "rec_ok db (view ks) (RClaim i)"
  shows "inspect_claim db ks i =
    Inr (map_option (\<lambda>h. \<lparr>cr_header = h, cr_proposition = readable (ch_state h) (payload_text (view ks) (RClaim i))\<rparr>)
      (current (mc_claim (md_codecs db)) (view ks) P_CLAIMS P_CLAIM_HEADS i))"
proof -
  have ok: "revs_ok (mc_claim (md_codecs db)) (view ks) P_CLAIMS P_CLAIM_HEADS i ch_revision"
    "text_ok (view ks) (RClaim i)" using assms by simp_all
  from ok(1) show ?thesis
    by (cases rule: revs_read) (auto simp: inspect_claim_def unless_purged_read [OF text_read [OF ok(2)]])
qed

lemma inspect_entity_view:
  assumes "rec_ok db (view ks) (REntity i)"
  shows "inspect_entity db ks i =
    Inr (map_option (\<lambda>h. entity_record_of h (stored_at (mc_entity_payload (md_codecs db)) (view ks) P_PAYLOADS (payload_key (REntity i))))
      (current (mc_entity (md_codecs db)) (view ks) P_ENTITIES P_ENTITY_HEADS i))"
proof -
  have ok: "revs_ok (mc_entity (md_codecs db)) (view ks) P_ENTITIES P_ENTITY_HEADS i nh_revision"
    "payload_ok (mc_entity_payload (md_codecs db)) (view ks) (REntity i)" using assms by simp_all
  from ok(1) show ?thesis
    by (cases rule: revs_read) (auto simp: inspect_entity_def payload_read [OF ok(2)])
qed

lemma inspect_semantic_relation_view:
  assumes "rec_ok db (view ks) (RSemanticRelation i)"
  shows "inspect_semantic_relation db ks i =
    Inr (map_option (\<lambda>h. relation_record_of h (readable (lh_state h)
        (stored_at (mc_relation_payload (md_codecs db)) (view ks) P_PAYLOADS (payload_key (RSemanticRelation i)))))
      (current (mc_relation (md_codecs db)) (view ks) P_RELATIONS P_RELATION_HEADS i))"
proof -
  have ok: "revs_ok (mc_relation (md_codecs db)) (view ks) P_RELATIONS P_RELATION_HEADS i lh_revision"
    "payload_ok (mc_relation_payload (md_codecs db)) (view ks) (RSemanticRelation i)" using assms by simp_all
  from ok(1) show ?thesis
    by (cases rule: revs_read) (auto simp: inspect_semantic_relation_def unless_purged_read [OF payload_read [OF ok(2)]])
qed

lemma inspect_proposal_view:
  assumes "rec_ok db (view ks) (RProposal i)"
  shows "\<exists>s c. inspect_proposal db ks i =
    Inr (map_option (\<lambda>h. \<lparr>pr_header = h, pr_source_evidence = s, pr_changes = c\<rparr>)
      (current (mc_proposal (md_codecs db)) (view ks) P_PROPOSALS P_PROPOSAL_HEADS i))"
proof -
  have ok: "revs_ok (mc_proposal (md_codecs db)) (view ks) P_PROPOSALS P_PROPOSAL_HEADS i ph_revision"
    "payload_ok (mc_proposal_payload (md_codecs db)) (view ks) (RProposal i)" using assms by simp_all
  from ok(1) show ?thesis
    by (cases rule: revs_read) (auto simp: inspect_proposal_def inspect_proposal_revision_def payload_read [OF ok(2)])
qed

lemma inspect_proposal_review_view:
  assumes "rec_ok db (view ks) (RProposalReview i)"
  shows "\<exists>f. inspect_proposal_review db ks i =
    Inr (map_option (\<lambda>h. \<lparr>wc_header = h, wc_findings = f\<rparr>)
      (current (mc_review (md_codecs db)) (view ks) P_PROPOSAL_REVIEWS P_PROPOSAL_REVIEW_HEADS i))"
proof -
  have ok: "revs_ok (mc_review (md_codecs db)) (view ks) P_PROPOSAL_REVIEWS P_PROPOSAL_REVIEW_HEADS i wh_revision"
    "payload_ok (mc_review_payload (md_codecs db)) (view ks) (RProposalReview i)" using assms by simp_all
  from ok(1) show ?thesis
    by (cases rule: revs_read) (auto simp: inspect_proposal_review_def inspect_proposal_review_revision_def payload_read [OF ok(2)])
qed

text \<open>A fixed header comes with a head, and the head with an availability.\<close>

lemma avail_read:
  assumes "header_ok ch (view ks) p hp i hid" "revs_ok ca (view ks) ap hp i av_revision"
  obtains (absent) "get_decoded db ks ch p (id_key i) = Inr None" "stored_at ch (view ks) p (id_key i) = None"
  | (present) h r a where "get_decoded db ks ch p (id_key i) = Inr (Some h)" "stored_at ch (view ks) p (id_key i) = Some h"
      "hid h = i" "get_head db ks hp i = Inr (Some r)" "get_decoded db ks ca ap (revision_key i r) = Inr (Some a)"
      "current ca (view ks) ap hp i = Some a" "av_revision a = r"
proof (cases "stored_at ch (view ks) p (id_key i)")
  case None
  then show ?thesis using absent header_read(1) [OF assms(1)] by simp
next
  case (Some h)
  then have h: "hid h = i" "view ks (part_name hp) (id_key i) \<noteq> None" using header_read(2) [OF assms(1)] by auto
  then obtain r where r: "head_of (view ks) hp i = Some r"
    using assms(2) by (auto simp: head_of_def revs_ok_def)
  obtain a where "get_decoded db ks ca ap (revision_key i r) = Inr (Some a)"
      "current ca (view ks) ap hp i = Some a" "av_revision a = r"
    using current_read [OF assms(2) r] by blast
  then show ?thesis using present header_read(1) [OF assms(1)] Some h r head_read [OF assms(2)] by simp
qed

lemma inspect_evidence_view:
  assumes "rec_ok db (view ks) (REvidence i)"
  shows "inspect_evidence db ks i =
    Inr (Option.bind (stored_at (mc_evidence (md_codecs db)) (view ks) P_EVIDENCE (id_key i)) (\<lambda>h.
         map_option (\<lambda>a. \<lparr>er_header = h, er_availability = a,
             er_text = readable (av_state a) (payload_text (view ks) (REvidence i))\<rparr>)
           (current (mc_evidence_availability (md_codecs db)) (view ks) P_EVIDENCE_AVAILABILITY P_EVIDENCE_HEADS i)))"
proof -
  have ok: "header_ok (mc_evidence (md_codecs db)) (view ks) P_EVIDENCE P_EVIDENCE_HEADS i eh_id"
    "revs_ok (mc_evidence_availability (md_codecs db)) (view ks) P_EVIDENCE_AVAILABILITY P_EVIDENCE_HEADS i av_revision"
    "text_ok (view ks) (REvidence i)" using assms by simp_all
  from ok(1,2) show ?thesis
    by (cases rule: avail_read) (auto simp: inspect_evidence_def unless_purged_read [OF text_read [OF ok(3)]])
qed

lemma inspect_artifact_collection_view:
  assumes "rec_ok db (view ks) (RArtifactCollection i)"
  shows "\<exists>t. inspect_artifact_collection db ks i =
    Inr (Option.bind (stored_at (mc_collection (md_codecs db)) (view ks) P_ARTIFACT_COLLECTIONS (id_key i)) (\<lambda>h.
         map_option (\<lambda>a. \<lparr>acr_header = h, acr_availability = a, acr_label = t\<rparr>)
           (current (mc_artifact_availability (md_codecs db)) (view ks) P_ARTIFACT_COLLECTION_AVAILABILITY
              P_ARTIFACT_COLLECTION_HEADS i)))"
proof -
  have ok: "header_ok (mc_collection (md_codecs db)) (view ks) P_ARTIFACT_COLLECTIONS P_ARTIFACT_COLLECTION_HEADS i ach_id"
    "revs_ok (mc_artifact_availability (md_codecs db)) (view ks) P_ARTIFACT_COLLECTION_AVAILABILITY
       P_ARTIFACT_COLLECTION_HEADS i av_revision"
    "text_ok (view ks) (RArtifactCollection i)" using assms by simp_all
  from ok(1,2) show ?thesis
    by (cases rule: avail_read)
      (auto simp: inspect_artifact_collection_def inspect_artifact_collection_revision_def
        unless_purged_read [OF text_read [OF ok(3)]])
qed

lemma inspect_artifact_snapshot_view:
  assumes "rec_ok db (view ks) (RArtifactSnapshot i)"
  shows "inspect_artifact_snapshot db ks i =
    Inr (Option.bind (stored_at (mc_snapshot (md_codecs db)) (view ks) P_ARTIFACT_SNAPSHOTS (id_key i)) (\<lambda>h.
         map_option (\<lambda>a.
             let t = readable (av_state a)
               (stored_at (mc_snapshot_payload (md_codecs db)) (view ks) P_PAYLOADS (payload_key (RArtifactSnapshot i)))
             in \<lparr>asr_header = h, asr_availability = a, asr_media_type = map_option asp_media_type t,
                 asr_content_digest = map_option asp_content_digest t, asr_payload_available = (t \<noteq> None)\<rparr>)
           (current (mc_artifact_availability (md_codecs db)) (view ks) P_ARTIFACT_SNAPSHOT_AVAILABILITY
              P_ARTIFACT_SNAPSHOT_HEADS i)))"
proof -
  have ok: "header_ok (mc_snapshot (md_codecs db)) (view ks) P_ARTIFACT_SNAPSHOTS P_ARTIFACT_SNAPSHOT_HEADS i ash_id"
    "revs_ok (mc_artifact_availability (md_codecs db)) (view ks) P_ARTIFACT_SNAPSHOT_AVAILABILITY
       P_ARTIFACT_SNAPSHOT_HEADS i av_revision"
    "payload_ok (mc_snapshot_payload (md_codecs db)) (view ks) (RArtifactSnapshot i)" using assms by simp_all
  from ok(1,2) show ?thesis
    by (cases rule: avail_read)
      (auto simp: inspect_artifact_snapshot_def inspect_artifact_snapshot_revision_def Let_def
        unless_purged_read [OF payload_read [OF ok(3)]])
qed

lemma inspect_artifact_passage_view:
  assumes "rec_ok db (view ks) (RArtifactPassage i)"
  shows "\<exists>t. inspect_artifact_passage db ks i =
    Inr (Option.bind (stored_at (mc_passage (md_codecs db)) (view ks) P_ARTIFACT_PASSAGES (id_key i)) (\<lambda>h.
         map_option (\<lambda>a. \<lparr>apr_header = h, apr_availability = a, apr_text = t\<rparr>)
           (current (mc_artifact_availability (md_codecs db)) (view ks) P_ARTIFACT_PASSAGE_AVAILABILITY
              P_ARTIFACT_PASSAGE_HEADS i)))"
proof -
  have ok: "header_ok (mc_passage (md_codecs db)) (view ks) P_ARTIFACT_PASSAGES P_ARTIFACT_PASSAGE_HEADS i aph_id"
    "revs_ok (mc_artifact_availability (md_codecs db)) (view ks) P_ARTIFACT_PASSAGE_AVAILABILITY
       P_ARTIFACT_PASSAGE_HEADS i av_revision"
    "text_ok (view ks) (RArtifactPassage i)" using assms by simp_all
  from ok(1,2) show ?thesis
    by (cases rule: avail_read)
      (auto simp: inspect_artifact_passage_def inspect_artifact_passage_revision_def
        unless_purged_read [OF text_read [OF ok(3)]])
qed

lemma status_view:
  assumes "rec_ok db (view ks) r"
  shows "record_scope_state_revision db ks r = status_of r (obs db (view ks) r)"
proof (cases r)
  case (REvidence i)
  then show ?thesis using assms inspect_evidence_view [of ks i]
    by (auto simp: found_def status_of_def obs_avail_def split: option.splits bind_splits)
next
  case (RClaim i)
  then show ?thesis using assms inspect_claim_view [of ks i]
    by (auto simp: found_def status_of_def split: option.splits)
next
  case (REntity i)
  then show ?thesis using assms inspect_entity_view [of ks i]
    by (auto simp: found_def status_of_def entity_record_of_def split: option.splits)
next
  case (RSemanticRelation i)
  then show ?thesis using assms inspect_semantic_relation_view [of ks i]
    by (auto simp: found_def status_of_def relation_record_of_def split: option.splits)
next
  case (RProposal i)
  then show ?thesis using assms inspect_proposal_view [of ks i]
    by (auto simp: found_def status_of_def split: option.splits)
next
  case (RProposalReview i)
  then show ?thesis using assms inspect_proposal_review_view [of ks i]
    by (auto simp: found_def status_of_def split: option.splits)
next
  case (RArtifactCollection i)
  then show ?thesis using assms inspect_artifact_collection_view [of ks i]
    by (auto simp: found_def status_of_def obs_avail_def split: option.splits bind_splits)
next
  case (RArtifactSnapshot i)
  then show ?thesis using assms inspect_artifact_snapshot_view [of ks i]
    by (auto simp: found_def status_of_def obs_avail_def Let_def split: option.splits bind_splits)
next
  case (RArtifactPassage i)
  then show ?thesis using assms inspect_artifact_passage_view [of ks i]
    by (auto simp: found_def status_of_def obs_avail_def split: option.splits bind_splits)
qed

end

end
