(* ===== verification/Memory_Effects.thy ===== *)
theory Memory_Effects
  imports Memory_Inv
begin

text \<open>
  The effect of the batches. Appending a state revision changes the state and the revision of its
  record and nothing else; writing a new record makes it observable as active at revision 1; the
  index, audit and operation entries are invisible to observations.
\<close>

section \<open>Cells that no observation reads\<close>

definition aux_cells :: "(string \<times> bytes) set" where
  "aux_cells = {(part_name p, k) |p k. p \<notin> record_parts \<and> p \<noteq> P_DEPENDENCIES}"

lemma aux_cell [simp]: "(part_name p, k) \<in> aux_cells \<longleftrightarrow> p \<notin> record_parts \<and> p \<noteq> P_DEPENDENCIES"
  by (auto simp: aux_cells_def)

lemma aux_rec_disjoint: "aux_cells \<inter> rec_cells r = {}"
  using rec_cells_part by (auto simp: aux_cells_def)

lemma aux_agree: "cells_of ops \<subseteq> aux_cells \<Longrightarrow> agree m (apply_ops ops m) (rec_cells r)"
  using aux_rec_disjoint by (intro agree_apply_ops) blast

lemma other_agree:
  assumes "cells_of ops \<subseteq> rec_cells r \<union> aux_cells" "s \<noteq> r"
  shows "agree m (apply_ops ops m) (rec_cells s)"
proof (rule agree_apply_ops)
  have "rec_cells r \<inter> rec_cells s = {}" using assms(2) rec_cells_disjoint by blast
  then show "cells_of ops \<inter> rec_cells s = {}" using assms(1) aux_rec_disjoint [of s] by blast
qed

lemma in_rec_cells [simp]:
  "(part_name (heads_part r), id_key (rec_id r)) \<in> rec_cells r"
  "(part_name (revs_part r), revision_key (rec_id r) v) \<in> rec_cells r"
  "(part_name P_PAYLOADS, payload_key r) \<in> rec_cells r"
  by (auto simp: rec_cells_def)

definition deps_of :: "kv_view \<Rightarrow> bytes \<Rightarrow> bytes option" where
  "deps_of m = m (part_name P_DEPENDENCIES)"

lemma deps_of_frame:
  assumes "cells_of ops \<subseteq> rec_cells r \<union> aux_cells"
  shows "deps_of (apply_ops ops m) = deps_of m"
proof
  fix k
  have "(part_name P_DEPENDENCIES, k) \<notin> cells_of ops" using assms rec_cells_part by fastforce
  then show "deps_of (apply_ops ops m) k = deps_of m k" by (simp add: deps_of_def apply_ops_frame)
qed

lemma remove_lexical_cells: "remove_lexical_document db ks r = Inr ops \<Longrightarrow> cells_of ops \<subseteq> aux_cells"
  by (auto simp: remove_lexical_document_def bind_res_eq_Inr cells_of_def split: option.splits)

lemma insert_lexical_cells: "insert_lexical_document db r v sc t text = Inr ops \<Longrightarrow> cells_of ops \<subseteq> aux_cells"
  by (auto simp: insert_lexical_document_def bind_res_eq_Inr Let_def cells_of_def)

lemma insert_audit_cells: "insert_audit db event = Inr ops \<Longrightarrow> cells_of ops \<subseteq> aux_cells"
  by (auto simp: insert_audit_def bind_res_eq_Inr)

lemma insert_operation_cells: "insert_operation db vc i d receipt = Inr ops \<Longrightarrow> cells_of ops \<subseteq> aux_cells"
  by (auto simp: insert_operation_def bind_res_eq_Inr)

section \<open>Appending a revision\<close>

lemma word_less_succ: "(e :: 'a::len word) \<noteq> - 1 \<Longrightarrow> e < e + 1"
proof -
  assume "e \<noteq> - 1"
  then have "1 + e \<noteq> 0" by (metis add.commute eq_neg_iff_add_eq_0)
  then show ?thesis by (simp add: word_less_nat_alt unatSuc add.commute [of e])
qed

lemma current_revs_ok: "revs_ok c m p hp i rv \<Longrightarrow> current c m p hp i = Some x \<Longrightarrow> head_of m hp i = Some (rv x)"
  by (auto simp: revs_ok_def current_def head_of_def split: option.splits)

lemma revs_bound:
  "revs_ok c m p hp i rv \<Longrightarrow> current c m p hp i = Some x \<Longrightarrow> m (part_name p) (revision_key i v) = Some b \<Longrightarrow> v \<le> rv x"
  using current_revs_ok [of c m p hp i rv x] by (auto simp: revs_ok_def head_of_def split: option.splits)

lemma revs_append:
  assumes ok: "revs_ok c m p hp i rv" and cur: "current c m p hp i = Some x" "rv x = e"
    and e: "e \<noteq> - 1" and y: "codec_ok c y" "rv y = e + 1" and p: "p \<noteq> hp"
  defines "m' \<equiv> apply_ops [put p (revision_key i (e + 1)) (enc c y), put hp (id_key i) (u64_be (e + 1))] m"
  shows "revs_ok c m' p hp i rv" "current c m' p hp i = Some y"
proof -
  have h: "m (part_name hp) (id_key i) = Some (u64_be e)"
    using current_revs_ok [OF ok cur(1)] ok cur(2) by (auto simp: head_of_def revs_ok_def split: option.splits)
  have le: "v \<le> e" if "m (part_name p) (revision_key i v) \<noteq> None" for v
    using ok h that by (auto simp: revs_ok_def)
  have le': "v \<le> e + 1" if "m (part_name p) (revision_key i v) \<noteq> None" for v
    using le [OF that] word_less_succ [OF e] by order
  have head: "head_of m' hp i = Some (e + 1)" using p by (simp add: m'_def head_of_def)
  have new: "stored_at c m' p (revision_key i (e + 1)) = Some y"
    using p y(1) by (simp add: m'_def stored_at_def de_enc)
  then show "current c m' p hp i = Some y" using head by (simp add: current_def)
  show "revs_ok c m' p hp i rv"
    using new y(2) p le' by (auto simp: revs_ok_def m'_def)
qed

text \<open>The same for any record: what its batch writes, and what becomes of it.\<close>

definition append_cells :: "record_ref \<Rightarrow> u64 \<Rightarrow> (string \<times> bytes) set" where
  "append_cells r e =
     {(part_name (revs_part r), revision_key (rec_id r) (e + 1)), (part_name (heads_part r), id_key (rec_id r))}"

definition appends :: "'ks memory_db \<Rightarrow> kv_view \<Rightarrow> record_ref \<Rightarrow> batch_op list \<Rightarrow> u64 \<Rightarrow> record_state \<Rightarrow> bool" where
  "appends db m r ops e st \<longleftrightarrow>
     cells_of ops \<subseteq> append_cells r e \<union> aux_cells \<and> e \<noteq> - 1 \<and>
     (\<exists>k sc s0. obs db m r = Some (k, sc, s0, e) \<and>
       (\<forall>m0. agree m m0 (rec_cells r) \<longrightarrow>
          rec_ok db (apply_ops ops m0) r \<and> obs db (apply_ops ops m0) r = Some (k, sc, st, e + 1)))"

lemma append_cells_subset: "append_cells r e \<subseteq> rec_cells r"
  by (simp add: append_cells_def)

lemma appendsI:
  assumes "cells_of ops \<subseteq> append_cells r e \<union> aux_cells" "e \<noteq> - 1" "obs db m r = Some (k, sc, s0, e)"
    and "\<And>m0. rec_ok db m0 r \<Longrightarrow> obs db m0 r = Some (k, sc, s0, e) \<Longrightarrow> agree m m0 (rec_cells r) \<Longrightarrow>
          rec_ok db (apply_ops ops m0) r \<and> obs db (apply_ops ops m0) r = Some (k, sc, st, e + 1)"
    and "rec_ok db m r"
  shows "appends db m r ops e st"
  unfolding appends_def
proof (intro conjI exI allI impI)
  fix m0
  assume m0: "agree m m0 (rec_cells r)"
  then have *: "rec_ok db m0 r" "obs db m0 r = Some (k, sc, s0, e)"
    using assms(3,5) obs_agree [OF m0, of db] rec_ok_agree [OF m0, of db] by simp_all
  show "rec_ok db (apply_ops ops m0) r" "obs db (apply_ops ops m0) r = Some (k, sc, st, e + 1)"
    using assms(4) [OF * m0] by simp_all
qed (use assms in simp_all)

context memory_store
begin

lemma append_revision_enc:
  assumes "append_revision c p hp i v y = Inr ops" "codec_ok c y"
  shows "ops = [put p (revision_key i v) (enc c y), put hp (id_key i) (u64_be v)]"
  using assms by (simp add: append_revision_def encode_enc)

lemma current_agree:
  assumes "agree m m0 (rec_cells r)"
  shows "current c m0 (revs_part r) (heads_part r) (rec_id r) = current c m (revs_part r) (heads_part r) (rec_id r)"
  using agree_head [OF assms] agree_revs [OF assms] by (simp add: current_def head_of_def stored_at_def)

text \<open>A record with revision headers, by its parts.\<close>

lemma append_header:
  assumes ok: "revs_ok c m0 (revs_part r) (heads_part r) (rec_id r) rv"
    and cur: "current c m0 (revs_part r) (heads_part r) (rec_id r) = Some x" "rv x = e"
    and e: "e \<noteq> - 1" and y: "codec_ok c y" "rv y = e + 1"
    and ops: "ops = [put (revs_part r) (revision_key (rec_id r) (e + 1)) (enc c y), put (heads_part r) (id_key (rec_id r)) (u64_be (e + 1))]"
  shows "revs_ok c (apply_ops ops m0) (revs_part r) (heads_part r) (rec_id r) rv"
    and "current c (apply_ops ops m0) (revs_part r) (heads_part r) (rec_id r) = Some y"
    and "apply_ops ops m0 (part_name P_PAYLOADS) = m0 (part_name P_PAYLOADS)"
    and "\<forall>p. header_part r = Some p \<longrightarrow> apply_ops ops m0 (part_name p) = m0 (part_name p)"
    and "apply_ops ops m0 (part_name (heads_part r)) (id_key (rec_id r)) \<noteq> None"
    and "cells_of ops \<subseteq> append_cells r e"
proof -
  have p: "revs_part r \<noteq> heads_part r" using record_parts_apart(1) [of r r] by simp
  show "revs_ok c (apply_ops ops m0) (revs_part r) (heads_part r) (rec_id r) rv"
    "current c (apply_ops ops m0) (revs_part r) (heads_part r) (rec_id r) = Some y"
    using revs_append [OF ok cur e y p] ops by simp_all
  show "apply_ops ops m0 (part_name P_PAYLOADS) = m0 (part_name P_PAYLOADS)"
    using record_parts_apart(2,3) [of r] by (simp add: ops)
  show "\<forall>p. header_part r = Some p \<longrightarrow> apply_ops ops m0 (part_name p) = m0 (part_name p)"
    using record_parts_apart(4,5) [of r r] by (auto simp: ops)
  show "apply_ops ops m0 (part_name (heads_part r)) (id_key (rec_id r)) \<noteq> None" by (simp add: ops)
  show "cells_of ops \<subseteq> append_cells r e" by (simp add: ops append_cells_def)
qed

lemma append_claim:
  assumes ok: "rec_ok db (view ks) (RClaim i)" and o: "obs db (view ks) (RClaim i) = Some (k, sc, s0, e)" and e: "e \<noteq> - 1"
    and app: "append_record db ks (RClaim i) e (e + 1) st op now = Inr ops"
  shows "appends db (view ks) (RClaim i) ops e st"
proof -
  obtain h where h: "current (mc_claim (md_codecs db)) (view ks) P_CLAIMS P_CLAIM_HEADS i = Some h" "ch_revision h = e"
    using o by auto
  let ?y = "h\<lparr>ch_revision := e + 1, ch_previous_revision := Some e, ch_state := st,
    ch_recorded_at_ms := now, ch_operation_id := op\<rparr>"
  have ops: "ops = [put P_CLAIMS (revision_key i (e + 1)) (enc (mc_claim (md_codecs db)) ?y), put P_CLAIM_HEADS (id_key i) (u64_be (e + 1))]"
    using app h inspect_claim_view [OF ok] by (auto simp: found_def  intro: append_revision_enc)
  show ?thesis
  proof (rule appendsI [OF _ e o _ ok])
    fix m0 assume m0: "rec_ok db m0 (RClaim i)" "agree (view ks) m0 (rec_cells (RClaim i))"
    have cur: "current (mc_claim (md_codecs db)) m0 P_CLAIMS P_CLAIM_HEADS i = Some h"
      using current_agree [OF m0(2), of "mc_claim (md_codecs db)"] h(1) by simp
    show "rec_ok db (apply_ops ops m0) (RClaim i) \<and> obs db (apply_ops ops m0) (RClaim i) = Some (k, sc, st, e + 1)"
      using append_header [where c = "mc_claim (md_codecs db)" and ?m0.0 = m0 and r = "RClaim i" and rv = ch_revision and x = h and e = e
          and y = ?y and ops = ops] m0(1) ops o h cur e
      by (simp add: text_ok_def)
  qed (simp add: ops append_cells_def)
qed

lemma append_entity:
  assumes ok: "rec_ok db (view ks) (REntity i)" and o: "obs db (view ks) (REntity i) = Some (k, sc, s0, e)" and e: "e \<noteq> - 1"
    and app: "append_record db ks (REntity i) e (e + 1) st op now = Inr ops"
  shows "appends db (view ks) (REntity i) ops e st"
proof -
  obtain h where h: "current (mc_entity (md_codecs db)) (view ks) P_ENTITIES P_ENTITY_HEADS i = Some h" "nh_revision h = e"
    using o by auto
  let ?y = "h\<lparr>nh_revision := e + 1, nh_previous_revision := Some e, nh_state := st,
    nh_recorded_at_ms := now, nh_operation_id := op\<rparr>"
  have ops: "ops = [put P_ENTITIES (revision_key i (e + 1)) (enc (mc_entity (md_codecs db)) ?y), put P_ENTITY_HEADS (id_key i) (u64_be (e + 1))]"
    using app h inspect_entity_view [OF ok] by (auto simp: found_def entity_record_of_def intro: append_revision_enc)
  show ?thesis
  proof (rule appendsI [OF _ e o _ ok])
    fix m0 assume m0: "rec_ok db m0 (REntity i)" "agree (view ks) m0 (rec_cells (REntity i))"
    have cur: "current (mc_entity (md_codecs db)) m0 P_ENTITIES P_ENTITY_HEADS i = Some h"
      using current_agree [OF m0(2), of "mc_entity (md_codecs db)"] h(1) by simp
    show "rec_ok db (apply_ops ops m0) (REntity i) \<and> obs db (apply_ops ops m0) (REntity i) = Some (k, sc, st, e + 1)"
      using append_header [where c = "mc_entity (md_codecs db)" and ?m0.0 = m0 and r = "REntity i" and rv = nh_revision and x = h and e = e
          and y = ?y and ops = ops] m0(1) ops o h cur e
      by (simp add: payload_ok_def)
  qed (simp add: ops append_cells_def)
qed

lemma append_relation:
  assumes ok: "rec_ok db (view ks) (RSemanticRelation i)" and o: "obs db (view ks) (RSemanticRelation i) = Some (k, sc, s0, e)" and e: "e \<noteq> - 1"
    and app: "append_record db ks (RSemanticRelation i) e (e + 1) st op now = Inr ops"
  shows "appends db (view ks) (RSemanticRelation i) ops e st"
proof -
  obtain h where h: "current (mc_relation (md_codecs db)) (view ks) P_RELATIONS P_RELATION_HEADS i = Some h" "lh_revision h = e"
    using o by auto
  let ?y = "h\<lparr>lh_revision := e + 1, lh_previous_revision := Some e, lh_state := st,
    lh_recorded_at_ms := now, lh_operation_id := op\<rparr>"
  have ops: "ops = [put P_RELATIONS (revision_key i (e + 1)) (enc (mc_relation (md_codecs db)) ?y), put P_RELATION_HEADS (id_key i) (u64_be (e + 1))]"
    using app h inspect_semantic_relation_view [OF ok] by (auto simp: found_def relation_record_of_def intro: append_revision_enc)
  show ?thesis
  proof (rule appendsI [OF _ e o _ ok])
    fix m0 assume m0: "rec_ok db m0 (RSemanticRelation i)" "agree (view ks) m0 (rec_cells (RSemanticRelation i))"
    have cur: "current (mc_relation (md_codecs db)) m0 P_RELATIONS P_RELATION_HEADS i = Some h"
      using current_agree [OF m0(2), of "mc_relation (md_codecs db)"] h(1) by simp
    show "rec_ok db (apply_ops ops m0) (RSemanticRelation i) \<and> obs db (apply_ops ops m0) (RSemanticRelation i) = Some (k, sc, st, e + 1)"
      using append_header [where c = "mc_relation (md_codecs db)" and ?m0.0 = m0 and r = "RSemanticRelation i" and rv = lh_revision and x = h and e = e
          and y = ?y and ops = ops] m0(1) ops o h cur e
      by (simp add: payload_ok_def)
  qed (simp add: ops append_cells_def)
qed

lemma append_review:
  assumes ok: "rec_ok db (view ks) (RProposalReview i)" and o: "obs db (view ks) (RProposalReview i) = Some (k, sc, s0, e)" and e: "e \<noteq> - 1"
    and app: "append_record db ks (RProposalReview i) e (e + 1) st op now = Inr ops"
  shows "appends db (view ks) (RProposalReview i) ops e st"
proof -
  obtain h where h: "current (mc_review (md_codecs db)) (view ks) P_PROPOSAL_REVIEWS P_PROPOSAL_REVIEW_HEADS i = Some h" "wh_revision h = e"
    using o by auto
  let ?y = "h\<lparr>wh_revision := e + 1, wh_previous_revision := Some e, wh_state := st,
    wh_recorded_at_ms := now, wh_operation_id := op\<rparr>"
  have ops: "ops = [put P_PROPOSAL_REVIEWS (revision_key i (e + 1)) (enc (mc_review (md_codecs db)) ?y), put P_PROPOSAL_REVIEW_HEADS (id_key i) (u64_be (e + 1))]"
    using app h inspect_proposal_review_view [OF ok] by (auto simp: found_def  intro: append_revision_enc)
  show ?thesis
  proof (rule appendsI [OF _ e o _ ok])
    fix m0 assume m0: "rec_ok db m0 (RProposalReview i)" "agree (view ks) m0 (rec_cells (RProposalReview i))"
    have cur: "current (mc_review (md_codecs db)) m0 P_PROPOSAL_REVIEWS P_PROPOSAL_REVIEW_HEADS i = Some h"
      using current_agree [OF m0(2), of "mc_review (md_codecs db)"] h(1) by simp
    show "rec_ok db (apply_ops ops m0) (RProposalReview i) \<and> obs db (apply_ops ops m0) (RProposalReview i) = Some (k, sc, st, e + 1)"
      using append_header [where c = "mc_review (md_codecs db)" and ?m0.0 = m0 and r = "RProposalReview i" and rv = wh_revision and x = h and e = e
          and y = ?y and ops = ops] m0(1) ops o h cur e
      by (simp add: payload_ok_def)
  qed (simp add: ops append_cells_def)
qed

lemma append_proposal:
  assumes ok: "rec_ok db (view ks) (RProposal i)" and o: "obs db (view ks) (RProposal i) = Some (k, sc, s0, e)" and e: "e \<noteq> - 1"
    and app: "append_record db ks (RProposal i) e (e + 1) st op now = Inr ops"
  shows "appends db (view ks) (RProposal i) ops e st"
proof -
  obtain h where h: "current (mc_proposal (md_codecs db)) (view ks) P_PROPOSALS P_PROPOSAL_HEADS i = Some h" "ph_revision h = e"
    using o by auto
  let ?y = "h\<lparr>ph_revision := e + 1, ph_previous_revision := Some e, ph_state := st,
    ph_status := proposal_next_status st (ph_status h), ph_recorded_at_ms := now, ph_operation_id := op\<rparr>"
  let ?w = "[put P_PROPOSALS (revision_key i (e + 1)) (enc (mc_proposal (md_codecs db)) ?y), put P_PROPOSAL_HEADS (id_key i) (u64_be (e + 1))]"
  define pre where "pre = (if ph_status h = PendingReview then [rem P_PENDING_PROPOSALS (id_key i)] else []) @
    (if proposal_status_awaits_adjudication (ph_status h) then [rem P_AWAITING_ADJUDICATION (id_key i)] else [])"
  have pre: "cells_of pre \<subseteq> aux_cells" by (simp add: pre_def)
  have ops: "ops = pre @ ?w"
    using app h inspect_proposal_view [OF ok]
    by (auto simp: found_def bind_res_eq_Inr pre_def append_revision_def encode_enc)
  show ?thesis
  proof (rule appendsI [OF _ e o _ ok])
    fix m1 assume m1: "rec_ok db m1 (RProposal i)" "agree (view ks) m1 (rec_cells (RProposal i))"
    let ?m0 = "apply_ops pre m1"
    have a: "agree m1 ?m0 (rec_cells (RProposal i))" using pre by (rule aux_agree)
    have m0: "rec_ok db ?m0 (RProposal i)" using m1(1) rec_ok_agree [OF a, of db] by blast
    have cur: "current (mc_proposal (md_codecs db)) ?m0 P_PROPOSALS P_PROPOSAL_HEADS i = Some h"
      using current_agree [OF agree_trans [OF m1(2) a], of "mc_proposal (md_codecs db)"] h(1) by simp
    show "rec_ok db (apply_ops ops m1) (RProposal i) \<and> obs db (apply_ops ops m1) (RProposal i) = Some (k, sc, st, e + 1)"
      using append_header(1,2,3) [where c = "mc_proposal (md_codecs db)" and ?m0.0 = ?m0 and r = "RProposal i" and rv = ph_revision
          and x = h and e = e and y = ?y and ops = ?w] m0 o h cur e
      unfolding ops apply_ops_append by (simp add: payload_ok_def del: apply_ops.simps)
  qed (use pre in \<open>auto simp: ops append_cells_def\<close>)
qed

text \<open>A record with a fixed header and availabilities.\<close>

lemma obs_avail_Some:
  assumes "obs_avail ch ca m p ap hp i f = Some (k, sc, s0, e)"
  obtains h a where "stored_at ch m p (id_key i) = Some h" "current ca m ap hp i = Some a" "f h = (k, sc)"
    "av_state a = s0" "av_revision a = e"
  using assms by (auto simp: obs_avail_def bind_eq_Some_conv intro: that)

lemma header_ok_still:
  assumes "header_ok c m p hp i hid" "stored_at c m p (id_key i) = Some h"
    "m' (part_name p) = m (part_name p)" "m' (part_name hp) (id_key i) \<noteq> None"
  shows "header_ok c m' p hp i hid" "stored_at c m' p (id_key i) = Some h"
  using assms by (auto simp: header_ok_def stored_at_def split: option.splits)

lemma append_evidence:
  assumes ok: "rec_ok db (view ks) (REvidence i)" and o: "obs db (view ks) (REvidence i) = Some (k, sc, s0, e)" and e: "e \<noteq> - 1"
    and app: "append_record db ks (REvidence i) e (e + 1) st op now = Inr ops"
  shows "appends db (view ks) (REvidence i) ops e st"
proof -
  obtain h a where h: "stored_at (mc_evidence (md_codecs db)) (view ks) P_EVIDENCE (id_key i) = Some h"
      "current (mc_evidence_availability (md_codecs db)) (view ks) P_EVIDENCE_AVAILABILITY P_EVIDENCE_HEADS i = Some a" "av_revision a = e"
    using o by (auto elim: obs_avail_Some)
  let ?y = "next_availability i (e + 1) st op now"
  have ops: "ops = [put P_EVIDENCE_AVAILABILITY (revision_key i (e + 1)) (enc (mc_evidence_availability (md_codecs db)) ?y), put P_EVIDENCE_HEADS (id_key i) (u64_be (e + 1))]"
    using app by (auto simp: bind_res_eq_Inr intro: append_revision_enc)
  show ?thesis
  proof (rule appendsI [OF _ e o _ ok])
    fix m0 assume m0: "rec_ok db m0 (REvidence i)" "agree (view ks) m0 (rec_cells (REvidence i))"
    have cur: "current (mc_evidence_availability (md_codecs db)) m0 P_EVIDENCE_AVAILABILITY P_EVIDENCE_HEADS i = Some a"
      using current_agree [OF m0(2), of "mc_evidence_availability (md_codecs db)"] h(2) by simp
    have hd: "stored_at (mc_evidence (md_codecs db)) m0 P_EVIDENCE (id_key i) = Some h"
      using agree_header [OF m0(2), of P_EVIDENCE] h(1) by (simp add: stored_at_def)
    have app: "revs_ok (mc_evidence_availability (md_codecs db)) (apply_ops ops m0) P_EVIDENCE_AVAILABILITY P_EVIDENCE_HEADS i av_revision"
      "current (mc_evidence_availability (md_codecs db)) (apply_ops ops m0) P_EVIDENCE_AVAILABILITY P_EVIDENCE_HEADS i = Some ?y"
      "apply_ops ops m0 (part_name P_PAYLOADS) = m0 (part_name P_PAYLOADS)"
      "apply_ops ops m0 (part_name P_EVIDENCE) = m0 (part_name P_EVIDENCE)"
      "apply_ops ops m0 (part_name P_EVIDENCE_HEADS) (id_key i) \<noteq> None"
      using append_header [where c = "mc_evidence_availability (md_codecs db)" and ?m0.0 = m0 and r = "REvidence i" and rv = av_revision and x = a
          and e = e and y = ?y and ops = ops] m0(1) ops cur h e
      by (simp_all add: next_availability_def)
    have "header_ok (mc_evidence (md_codecs db)) (apply_ops ops m0) P_EVIDENCE P_EVIDENCE_HEADS i eh_id"
      "stored_at (mc_evidence (md_codecs db)) (apply_ops ops m0) P_EVIDENCE (id_key i) = Some h"
      using m0(1) by (auto intro!: header_ok_still [OF _ hd app(4,5)])
    then show "rec_ok db (apply_ops ops m0) (REvidence i) \<and> obs db (apply_ops ops m0) (REvidence i) = Some (k, sc, st, e + 1)"
      using app m0(1) o h hd
      by (auto simp: text_ok_def obs_avail_def next_availability_def simp del: apply_ops.simps)
  qed (simp add: ops append_cells_def)
qed

lemma append_collection:
  assumes ok: "rec_ok db (view ks) (RArtifactCollection i)" and o: "obs db (view ks) (RArtifactCollection i) = Some (k, sc, s0, e)" and e: "e \<noteq> - 1"
    and app: "append_record db ks (RArtifactCollection i) e (e + 1) st op now = Inr ops"
  shows "appends db (view ks) (RArtifactCollection i) ops e st"
proof -
  obtain h a where h: "stored_at (mc_collection (md_codecs db)) (view ks) P_ARTIFACT_COLLECTIONS (id_key i) = Some h"
      "current (mc_artifact_availability (md_codecs db)) (view ks) P_ARTIFACT_COLLECTION_AVAILABILITY P_ARTIFACT_COLLECTION_HEADS i = Some a" "av_revision a = e"
    using o by (auto elim: obs_avail_Some)
  let ?y = "next_availability i (e + 1) st op now"
  have ops: "ops = [put P_ARTIFACT_COLLECTION_AVAILABILITY (revision_key i (e + 1)) (enc (mc_artifact_availability (md_codecs db)) ?y), put P_ARTIFACT_COLLECTION_HEADS (id_key i) (u64_be (e + 1))]"
    using app by (auto simp: bind_res_eq_Inr intro: append_revision_enc)
  show ?thesis
  proof (rule appendsI [OF _ e o _ ok])
    fix m0 assume m0: "rec_ok db m0 (RArtifactCollection i)" "agree (view ks) m0 (rec_cells (RArtifactCollection i))"
    have cur: "current (mc_artifact_availability (md_codecs db)) m0 P_ARTIFACT_COLLECTION_AVAILABILITY P_ARTIFACT_COLLECTION_HEADS i = Some a"
      using current_agree [OF m0(2), of "mc_artifact_availability (md_codecs db)"] h(2) by simp
    have hd: "stored_at (mc_collection (md_codecs db)) m0 P_ARTIFACT_COLLECTIONS (id_key i) = Some h"
      using agree_header [OF m0(2), of P_ARTIFACT_COLLECTIONS] h(1) by (simp add: stored_at_def)
    have app: "revs_ok (mc_artifact_availability (md_codecs db)) (apply_ops ops m0) P_ARTIFACT_COLLECTION_AVAILABILITY P_ARTIFACT_COLLECTION_HEADS i av_revision"
      "current (mc_artifact_availability (md_codecs db)) (apply_ops ops m0) P_ARTIFACT_COLLECTION_AVAILABILITY P_ARTIFACT_COLLECTION_HEADS i = Some ?y"
      "apply_ops ops m0 (part_name P_PAYLOADS) = m0 (part_name P_PAYLOADS)"
      "apply_ops ops m0 (part_name P_ARTIFACT_COLLECTIONS) = m0 (part_name P_ARTIFACT_COLLECTIONS)"
      "apply_ops ops m0 (part_name P_ARTIFACT_COLLECTION_HEADS) (id_key i) \<noteq> None"
      using append_header [where c = "mc_artifact_availability (md_codecs db)" and ?m0.0 = m0 and r = "RArtifactCollection i" and rv = av_revision and x = a
          and e = e and y = ?y and ops = ops] m0(1) ops cur h e
      by (simp_all add: next_availability_def)
    have "header_ok (mc_collection (md_codecs db)) (apply_ops ops m0) P_ARTIFACT_COLLECTIONS P_ARTIFACT_COLLECTION_HEADS i ach_id"
      "stored_at (mc_collection (md_codecs db)) (apply_ops ops m0) P_ARTIFACT_COLLECTIONS (id_key i) = Some h"
      using m0(1) by (auto intro!: header_ok_still [OF _ hd app(4,5)])
    then show "rec_ok db (apply_ops ops m0) (RArtifactCollection i) \<and> obs db (apply_ops ops m0) (RArtifactCollection i) = Some (k, sc, st, e + 1)"
      using app m0(1) o h hd
      by (auto simp: text_ok_def obs_avail_def next_availability_def simp del: apply_ops.simps)
  qed (simp add: ops append_cells_def)
qed

lemma append_snapshot:
  assumes ok: "rec_ok db (view ks) (RArtifactSnapshot i)" and o: "obs db (view ks) (RArtifactSnapshot i) = Some (k, sc, s0, e)" and e: "e \<noteq> - 1"
    and app: "append_record db ks (RArtifactSnapshot i) e (e + 1) st op now = Inr ops"
  shows "appends db (view ks) (RArtifactSnapshot i) ops e st"
proof -
  obtain h a where h: "stored_at (mc_snapshot (md_codecs db)) (view ks) P_ARTIFACT_SNAPSHOTS (id_key i) = Some h"
      "current (mc_artifact_availability (md_codecs db)) (view ks) P_ARTIFACT_SNAPSHOT_AVAILABILITY P_ARTIFACT_SNAPSHOT_HEADS i = Some a" "av_revision a = e"
    using o by (auto elim: obs_avail_Some)
  let ?y = "next_availability i (e + 1) st op now"
  have ops: "ops = [put P_ARTIFACT_SNAPSHOT_AVAILABILITY (revision_key i (e + 1)) (enc (mc_artifact_availability (md_codecs db)) ?y), put P_ARTIFACT_SNAPSHOT_HEADS (id_key i) (u64_be (e + 1))]"
    using app by (auto simp: bind_res_eq_Inr intro: append_revision_enc)
  show ?thesis
  proof (rule appendsI [OF _ e o _ ok])
    fix m0 assume m0: "rec_ok db m0 (RArtifactSnapshot i)" "agree (view ks) m0 (rec_cells (RArtifactSnapshot i))"
    have cur: "current (mc_artifact_availability (md_codecs db)) m0 P_ARTIFACT_SNAPSHOT_AVAILABILITY P_ARTIFACT_SNAPSHOT_HEADS i = Some a"
      using current_agree [OF m0(2), of "mc_artifact_availability (md_codecs db)"] h(2) by simp
    have hd: "stored_at (mc_snapshot (md_codecs db)) m0 P_ARTIFACT_SNAPSHOTS (id_key i) = Some h"
      using agree_header [OF m0(2), of P_ARTIFACT_SNAPSHOTS] h(1) by (simp add: stored_at_def)
    have app: "revs_ok (mc_artifact_availability (md_codecs db)) (apply_ops ops m0) P_ARTIFACT_SNAPSHOT_AVAILABILITY P_ARTIFACT_SNAPSHOT_HEADS i av_revision"
      "current (mc_artifact_availability (md_codecs db)) (apply_ops ops m0) P_ARTIFACT_SNAPSHOT_AVAILABILITY P_ARTIFACT_SNAPSHOT_HEADS i = Some ?y"
      "apply_ops ops m0 (part_name P_PAYLOADS) = m0 (part_name P_PAYLOADS)"
      "apply_ops ops m0 (part_name P_ARTIFACT_SNAPSHOTS) = m0 (part_name P_ARTIFACT_SNAPSHOTS)"
      "apply_ops ops m0 (part_name P_ARTIFACT_SNAPSHOT_HEADS) (id_key i) \<noteq> None"
      using append_header [where c = "mc_artifact_availability (md_codecs db)" and ?m0.0 = m0 and r = "RArtifactSnapshot i" and rv = av_revision and x = a
          and e = e and y = ?y and ops = ops] m0(1) ops cur h e
      by (simp_all add: next_availability_def)
    have "header_ok (mc_snapshot (md_codecs db)) (apply_ops ops m0) P_ARTIFACT_SNAPSHOTS P_ARTIFACT_SNAPSHOT_HEADS i ash_id"
      "stored_at (mc_snapshot (md_codecs db)) (apply_ops ops m0) P_ARTIFACT_SNAPSHOTS (id_key i) = Some h"
      using m0(1) by (auto intro!: header_ok_still [OF _ hd app(4,5)])
    then show "rec_ok db (apply_ops ops m0) (RArtifactSnapshot i) \<and> obs db (apply_ops ops m0) (RArtifactSnapshot i) = Some (k, sc, st, e + 1)"
      using app m0(1) o h hd
      by (auto simp: payload_ok_def obs_avail_def next_availability_def simp del: apply_ops.simps)
  qed (simp add: ops append_cells_def)
qed

lemma append_passage:
  assumes ok: "rec_ok db (view ks) (RArtifactPassage i)" and o: "obs db (view ks) (RArtifactPassage i) = Some (k, sc, s0, e)" and e: "e \<noteq> - 1"
    and app: "append_record db ks (RArtifactPassage i) e (e + 1) st op now = Inr ops"
  shows "appends db (view ks) (RArtifactPassage i) ops e st"
proof -
  obtain h a where h: "stored_at (mc_passage (md_codecs db)) (view ks) P_ARTIFACT_PASSAGES (id_key i) = Some h"
      "current (mc_artifact_availability (md_codecs db)) (view ks) P_ARTIFACT_PASSAGE_AVAILABILITY P_ARTIFACT_PASSAGE_HEADS i = Some a" "av_revision a = e"
    using o by (auto elim: obs_avail_Some)
  let ?y = "next_availability i (e + 1) st op now"
  have ops: "ops = [put P_ARTIFACT_PASSAGE_AVAILABILITY (revision_key i (e + 1)) (enc (mc_artifact_availability (md_codecs db)) ?y), put P_ARTIFACT_PASSAGE_HEADS (id_key i) (u64_be (e + 1))]"
    using app by (auto simp: bind_res_eq_Inr intro: append_revision_enc)
  show ?thesis
  proof (rule appendsI [OF _ e o _ ok])
    fix m0 assume m0: "rec_ok db m0 (RArtifactPassage i)" "agree (view ks) m0 (rec_cells (RArtifactPassage i))"
    have cur: "current (mc_artifact_availability (md_codecs db)) m0 P_ARTIFACT_PASSAGE_AVAILABILITY P_ARTIFACT_PASSAGE_HEADS i = Some a"
      using current_agree [OF m0(2), of "mc_artifact_availability (md_codecs db)"] h(2) by simp
    have hd: "stored_at (mc_passage (md_codecs db)) m0 P_ARTIFACT_PASSAGES (id_key i) = Some h"
      using agree_header [OF m0(2), of P_ARTIFACT_PASSAGES] h(1) by (simp add: stored_at_def)
    have app: "revs_ok (mc_artifact_availability (md_codecs db)) (apply_ops ops m0) P_ARTIFACT_PASSAGE_AVAILABILITY P_ARTIFACT_PASSAGE_HEADS i av_revision"
      "current (mc_artifact_availability (md_codecs db)) (apply_ops ops m0) P_ARTIFACT_PASSAGE_AVAILABILITY P_ARTIFACT_PASSAGE_HEADS i = Some ?y"
      "apply_ops ops m0 (part_name P_PAYLOADS) = m0 (part_name P_PAYLOADS)"
      "apply_ops ops m0 (part_name P_ARTIFACT_PASSAGES) = m0 (part_name P_ARTIFACT_PASSAGES)"
      "apply_ops ops m0 (part_name P_ARTIFACT_PASSAGE_HEADS) (id_key i) \<noteq> None"
      using append_header [where c = "mc_artifact_availability (md_codecs db)" and ?m0.0 = m0 and r = "RArtifactPassage i" and rv = av_revision and x = a
          and e = e and y = ?y and ops = ops] m0(1) ops cur h e
      by (simp_all add: next_availability_def)
    have "header_ok (mc_passage (md_codecs db)) (apply_ops ops m0) P_ARTIFACT_PASSAGES P_ARTIFACT_PASSAGE_HEADS i aph_id"
      "stored_at (mc_passage (md_codecs db)) (apply_ops ops m0) P_ARTIFACT_PASSAGES (id_key i) = Some h"
      using m0(1) by (auto intro!: header_ok_still [OF _ hd app(4,5)])
    then show "rec_ok db (apply_ops ops m0) (RArtifactPassage i) \<and> obs db (apply_ops ops m0) (RArtifactPassage i) = Some (k, sc, st, e + 1)"
      using app m0(1) o h hd
      by (auto simp: text_ok_def obs_avail_def next_availability_def simp del: apply_ops.simps)
  qed (simp add: ops append_cells_def)
qed

theorem append_state_revision_appends:
  assumes ok: "rec_ok db (view ks) r" and app: "append_state_revision db ks r e st op now = Inr (ops, rv)"
  shows "appends db (view ks) r ops e st" and "rv = \<lparr>rv_record = r, rv_revision = e + 1, rv_state = st\<rparr>"
proof -
  obtain k sc s0 where o: "obs db (view ks) r = Some (k, sc, s0, e)" and e: "e \<noteq> - 1"
    and a: "append_record db ks r e (e + 1) st op now = Inr ops"
    and "rv = \<lparr>rv_record = r, rv_revision = e + 1, rv_state = st\<rparr>"
    using app unfolding append_state_revision_def status_view [OF ok]
    by (auto simp: bind_res_eq_Inr status_of_def split: option.splits if_splits)
  then show "rv = \<lparr>rv_record = r, rv_revision = e + 1, rv_state = st\<rparr>" by blast
  show "appends db (view ks) r ops e st"
    using ok o e a
    by (cases r; simp only:)
      (erule (3) append_evidence append_claim append_entity append_relation append_proposal append_review
        append_collection append_snapshot append_passage)+
qed

text \<open>No revision lies above the observed one.\<close>

lemma revision_bound:
  assumes "rec_ok db m r" "obs db m r = Some (k, sc, st, e)" "m (part_name (revs_part r)) (revision_key (rec_id r) v) \<noteq> None"
  shows "v \<le> e"
  using assms by (cases r) (auto elim!: obs_avail_Some intro: revs_bound)

section \<open>Invalidating several records\<close>

lemma appends_aux:
  assumes "appends db m r ops e st" "cells_of ax \<subseteq> aux_cells"
  shows "appends db m r (ops @ ax) e st"
proof -
  have "rec_ok db (apply_ops (ops @ ax) m0) r = rec_ok db (apply_ops ops m0) r"
    "obs db (apply_ops (ops @ ax) m0) r = obs db (apply_ops ops m0) r" for m0
    using rec_ok_agree [OF aux_agree [OF assms(2)]] obs_agree [OF aux_agree [OF assms(2)]] by (metis apply_ops_append)+
  then show ?thesis using assms by (auto simp: appends_def)
qed

lemma invalidate_appends:
  assumes "rec_ok db (view ks) (pd_record d)" "invalidate db ks st op now d = Inr (ops, rv)"
  shows "appends db (view ks) (pd_record d) ops (pd_expected_revision d) st"
    and "rv = \<lparr>rv_record = pd_record d, rv_revision = pd_expected_revision d + 1, rv_state = st\<rparr>"
  using assms(2) append_state_revision_appends [OF assms(1)]
  by (auto simp: invalidate_def bind_res_eq_Inr intro: appends_aux [OF _ remove_lexical_cells])

end

text \<open>
  A view in which the records of \<open>T\<close> have one more revision, with the given states, and all
  other records are as before.
\<close>

abbreviation payload_at :: "kv_view \<Rightarrow> record_ref \<Rightarrow> bytes option" where
  "payload_at m r \<equiv> m (part_name P_PAYLOADS) (payload_key r)"

definition revised :: "'ks memory_db \<Rightarrow> kv_view \<Rightarrow> (record_ref \<rightharpoonup> record_state) \<Rightarrow> kv_view \<Rightarrow> bool" where
  "revised db m T m' \<longleftrightarrow>
     deps_of m' = deps_of m \<and> (\<forall>r. payload_at m' r = payload_at m r) \<and>
     (\<forall>r. T r = None \<longrightarrow> agree m m' (rec_cells r)) \<and>
     (\<forall>r st. T r = Some st \<longrightarrow> rec_ok db m' r \<and>
        (\<exists>k sc s0 e. e \<noteq> - 1 \<and> obs db m r = Some (k, sc, s0, e) \<and> obs db m' r = Some (k, sc, st, e + 1)))"

lemma revised_refl: "revised db m Map.empty m"
  by (simp add: revised_def)

lemma appends_payload:
  assumes "appends db m r ops e st"
  shows "payload_at (apply_ops ops m0) s = payload_at m0 s"
proof -
  have "(part_name P_PAYLOADS, payload_key s) \<notin> cells_of ops"
  proof
    assume "(part_name P_PAYLOADS, payload_key s) \<in> cells_of ops"
    then have "(part_name P_PAYLOADS, payload_key s) \<in> append_cells r e \<union> aux_cells" using assms by (auto simp: appends_def)
    then show False using record_parts_apart(2,3) [of r] by (auto simp: append_cells_def record_parts_def)
  qed
  then show ?thesis by (rule apply_ops_frame)
qed

lemma revised_step:
  assumes rev: "revised db m T m'" and "T r = None" and app: "appends db m r ops e st"
  shows "revised db m (T(r \<mapsto> st)) (apply_ops ops m')"
proof -
  have cells: "cells_of ops \<subseteq> rec_cells r \<union> aux_cells" using app append_cells_subset by (fastforce simp: appends_def)
  have other: "agree m' (apply_ops ops m') (rec_cells s)" if "s \<noteq> r" for s using other_agree [OF cells that] .
  have "agree m m' (rec_cells r)" using rev \<open>T r = None\<close> by (simp add: revised_def)
  then have "rec_ok db (apply_ops ops m') r \<and>
      (\<exists>k sc s0 e. e \<noteq> - 1 \<and> obs db m r = Some (k, sc, s0, e) \<and> obs db (apply_ops ops m') r = Some (k, sc, st, e + 1))"
    using app by (auto simp: appends_def)
  moreover have "obs db (apply_ops ops m') s = obs db m' s" "rec_ok db (apply_ops ops m') s = rec_ok db m' s" if "s \<noteq> r" for s
    using obs_agree [OF other [OF that], of db] rec_ok_agree [OF other [OF that], of db] by simp_all
  moreover have "agree m (apply_ops ops m') (rec_cells s)" if "s \<noteq> r" "T s = None" for s
    using agree_trans [OF _ other [OF that(1)]] rev that(2) by (simp add: revised_def)
  ultimately show ?thesis
    using rev deps_of_frame [OF cells, of m'] appends_payload [OF app] by (simp add: revised_def)
qed

context memory_store
begin

lemma invalidate_all_revised:
  assumes "\<And>r. rec_ok db (view ks) r" "invalidate_all db ks op now ds = Inr (ops, revs)"
    "distinct (map pd_record ds)" "revised db (view ks) T m'" "\<And>d. d \<in> set ds \<Longrightarrow> T (pd_record d) = None"
  shows "revised db (view ks) (\<lambda>r. if r \<in> pd_record ` set ds then Some Unsupported else T r) (apply_ops ops m')
    \<and> revs = map (\<lambda>d. \<lparr>rv_record = pd_record d, rv_revision = pd_expected_revision d + 1, rv_state = Unsupported\<rparr>) ds
    \<and> list_all (\<lambda>d. \<exists>k sc s0. obs db (view ks) (pd_record d) = Some (k, sc, s0, pd_expected_revision d)) ds"
  using assms(2-)
proof (induction ds arbitrary: ops revs T m')
  case (Cons d ds)
  obtain a rv b rvs where parts: "invalidate db ks Unsupported op now d = Inr (a, rv)"
      "invalidate_all db ks op now ds = Inr (b, rvs)" "ops = a @ b" "revs = rv # rvs"
    using Cons.prems(1) by (auto simp: bind_res_eq_Inr)
  note app = invalidate_appends [OF assms(1) parts(1)]
  have step: "revised db (view ks) (T(pd_record d \<mapsto> Unsupported)) (apply_ops a m')"
    using revised_step [OF Cons.prems(3) _ app(1)] Cons.prems(4) by simp
  have "(\<lambda>r. if r \<in> pd_record ` set (d # ds) then Some Unsupported else T r) =
      (\<lambda>r. if r \<in> pd_record ` set ds then Some Unsupported else (T(pd_record d \<mapsto> Unsupported)) r)"
    by (auto simp: fun_eq_iff)
  moreover have "(T(pd_record d \<mapsto> Unsupported)) (pd_record x) = None" if "x \<in> set ds" for x
    using Cons.prems(2,4) that by (auto simp: image_iff)
  moreover have "\<exists>k sc s0. obs db (view ks) (pd_record d) = Some (k, sc, s0, pd_expected_revision d)"
    using app(1) by (auto simp: appends_def)
  ultimately show ?case
    using Cons.IH [OF parts(2) _ step] Cons.prems(2) app(2) parts(3,4) by simp
qed auto

end

end
