(* ===== verification/Memory_Closure.thy ===== *)
theory Memory_Closure
  imports Memory_Effects
begin

text \<open>
  The dependency closure. Under the invariant every key of the dependency index joins two existing
  records, so the breadth-first search of the source never fails and returns, in record order,
  exactly the records that are reachable over dependencies, other than the start, and in the
  states asked for. A state set on all of them therefore leaves no active dependent behind.
\<close>

section \<open>Dependencies\<close>

definition dep :: "kv_view \<Rightarrow> record_ref \<Rightarrow> record_ref \<Rightarrow> bool" where
  "dep m s d \<longleftrightarrow> deps_of m (dependency_key s d) \<noteq> None"

definition deps_ok :: "'ks memory_db \<Rightarrow> kv_view \<Rightarrow> bool" where
  "deps_ok db m \<longleftrightarrow>
     (\<forall>k. deps_of m k \<noteq> None \<longrightarrow> (\<exists>s d. k = dependency_key s d \<and> obs db m s \<noteq> None \<and> obs db m d \<noteq> None))"

lemma dep_deps_of: "deps_of m = deps_of m' \<Longrightarrow> dep m = dep m'"
  by (simp add: dep_def fun_eq_iff)

text \<open>Whether the closure lists a record in this state.\<close>

definition listed :: "bool \<Rightarrow> record_state \<Rightarrow> bool" where
  "listed incl st \<longleftrightarrow> st = Active \<or> (incl \<and> st \<noteq> Purged)"

definition state_of :: "'ks memory_db \<Rightarrow> kv_view \<Rightarrow> record_ref \<Rightarrow> record_state" where
  "state_of db m r = (case obs db m r of Some (_, _, st, _) \<Rightarrow> st | None \<Rightarrow> Purged)"

definition revision_of :: "'ks memory_db \<Rightarrow> kv_view \<Rightarrow> record_ref \<Rightarrow> u64" where
  "revision_of db m r = (case obs db m r of Some (_, _, _, v) \<Rightarrow> v | None \<Rightarrow> 0)"

definition listing :: "'ks memory_db \<Rightarrow> kv_view \<Rightarrow> bool \<Rightarrow> record_ref list \<Rightarrow> purge_dependency list" where
  "listing db m incl rs =
     map (\<lambda>r. \<lparr>pd_record = r, pd_expected_revision = revision_of db m r\<rparr>)
       (filter (\<lambda>r. listed incl (state_of db m r)) rs)"

lemma listing_simps [simp]:
  "listing db m incl [] = []"
  "listing db m incl (xs @ ys) = listing db m incl xs @ listing db m incl ys"
  by (simp_all add: listing_def)

context memory_store
begin

lemma dependents_list:
  assumes "deps_ok db (view ks)"
  obtains ds v where "dependents db ks s = map (\<lambda>d. Inr (dependency_key s d, v d)) ds" "distinct ds"
    "\<And>d. d \<in> set ds \<longleftrightarrow> dep (view ks) s d"
proof -
  let ?K = "{k. record_key s \<le> k \<and> k < record_key s @ [0xff]}"
  define es where "es = entries (deps_of (view ks)) ?K"
  have fin: "finite (dom (deps_of (view ks)))" using finite_view by (simp add: deps_of_def)
  have es: "dependents db ks s = map Inr es"
    by (simp add: dependents_def es_def deps_of_def range_view le_append_same)
  define dk where "dk k = projr (record_from_key (drop 17 k))" for k
  have key: "k = dependency_key s (dk k) \<and> dep (view ks) s (dk k)" if "(k, v) \<in> set es" for k v
  proof -
    have k: "deps_of (view ks) k = Some v" "k \<in> ?K" using that by (auto simp: es_def set_entries [OF fin])
    then obtain s' d where d: "k = dependency_key s' d" using assms by (force simp: deps_ok_def)
    have "prefix (record_key s) k" using k(2) record_scan_prefix by blast
    then have "record_key s = record_key s'"
      by (metis append_eq_append_conv d dependency_key_def length_record_key prefix_def)
    then show ?thesis using d k(1) by (simp add: dk_def dependency_key_def dep_def)
  qed
  let ?v = "\<lambda>d. the (deps_of (view ks) (dependency_key s d))"
  have "map (\<lambda>d. (dependency_key s d, ?v d)) (map (dk \<circ> fst) es) = es"
  proof (simp add: o_def, rule map_idI)
    fix e assume "e \<in> set es"
    then obtain k v where e: "e = (k, v)" "(k, v) \<in> set es" by (metis surj_pair)
    then have "deps_of (view ks) k = Some v" by (auto simp: es_def set_entries [OF fin])
    then show "(dependency_key s (dk (fst e)), the (deps_of (view ks) (dependency_key s (dk (fst e))))) = e"
      using key [OF e(2)] e by auto
  qed
  then have "map Inr (map (\<lambda>d. (dependency_key s d, ?v d)) (map (dk \<circ> fst) es)) = (map Inr es :: kv_item list)" by (rule arg_cong)
  then have "dependents db ks s = map (\<lambda>d. Inr (dependency_key s d, ?v d)) (map (dk \<circ> fst) es)" using es by (simp add: o_def)
  moreover have "distinct (map (dk \<circ> fst) es)"
  proof -
    have "map (dependency_key s) (map (dk \<circ> fst) es) = map fst es" using key by (auto simp: o_def)
    then have "distinct (map (dependency_key s) (map (dk \<circ> fst) es))"
      using distinct_entries [of "deps_of (view ks)" ?K] by (simp add: es_def)
    then show ?thesis unfolding distinct_map [of "dependency_key s"] by blast
  qed
  moreover have "d \<in> set (map (dk \<circ> fst) es) \<longleftrightarrow> dep (view ks) s d" for d
  proof
    assume "dep (view ks) s d"
    then obtain v where v: "deps_of (view ks) (dependency_key s d) = Some v" by (auto simp: dep_def)
    then have "(dependency_key s d, v) \<in> set es"
      using record_scan_interval [of "record_key s" d] by (auto simp: es_def set_entries [OF fin] dependency_key_def)
    moreover have "dk (dependency_key s d) = d" by (simp add: dk_def dependency_key_def)
    ultimately show "d \<in> set (map (dk \<circ> fst) es)" by force
  qed (use key in force)
  ultimately show ?thesis by (rule that)
qed

lemma scan_listing:
  assumes "\<And>d. d \<in> set ds \<Longrightarrow> rec_ok db (view ks) d \<and> obs db (view ks) d \<noteq> None" "distinct ds"
  shows "closure_scan db ks incl (map (\<lambda>d. Inr (dependency_key s d, v d)) ds) seen queue deps =
    (let new = filter (\<lambda>d. d \<notin> seen) ds in
     Inr (seen \<union> set ds, queue @ new, deps @ listing db (view ks) incl new))"
  using assms
proof (induction ds arbitrary: seen queue deps)
  case (Cons d ds)
  obtain k sc st e where o: "obs db (view ks) d = Some (k, sc, st, e)" using Cons.prems(1) [of d] by fastforce
  then have r: "record_scope_state_revision db ks d = Inr (sc, st, e)"
    using status_view [of ks d] Cons.prems(1) [of d] by (simp add: status_of_def)
  have key: "length (dependency_key s d) = 34" "record_from_key (drop 17 (dependency_key s d)) = Inr d"
    by (simp_all add: dependency_key_def)
  have l: "listing db (view ks) incl [d] = (if listed incl st then [\<lparr>pd_record = d, pd_expected_revision = e\<rparr>] else [])"
    using o by (simp add: listing_def state_of_def revision_of_def)
  have l2: "listing db (view ks) incl (d # xs) = listing db (view ks) incl [d] @ listing db (view ks) incl xs" for xs
    using listing_simps(2) [of db "view ks" incl "[d]" xs] by simp
  have f: "filter (\<lambda>x. x \<noteq> d \<and> x \<notin> seen) ds = filter (\<lambda>x. x \<notin> seen) ds"
    using Cons.prems(2) by (auto intro: filter_cong)
  show ?case
  proof (cases "d \<in> seen")
    case True
    have "closure_scan db ks incl (map (\<lambda>d. Inr (dependency_key s d, v d)) ds) seen queue deps =
        (let new = filter (\<lambda>d. d \<notin> seen) ds in Inr (seen \<union> set ds, queue @ new, deps @ listing db (view ks) incl new))"
      by (rule Cons.IH) (use Cons.prems in auto)
    then show ?thesis using True key by (simp add: Let_def insert_absorb)
  next
    case False
    have "closure_scan db ks incl (map (\<lambda>d. Inr (dependency_key s d, v d)) ds) (insert d seen) (queue @ [d])
          (deps @ listing db (view ks) incl [d]) =
        (let new = filter (\<lambda>x. x \<notin> insert d seen) ds in
         Inr (insert d seen \<union> set ds, (queue @ [d]) @ new, (deps @ listing db (view ks) incl [d]) @ listing db (view ks) incl new))"
      by (rule Cons.IH) (use Cons.prems in auto)
    then show ?thesis using False key r f l l2 [of "filter (\<lambda>x. x \<notin> seen) ds"]
      by (cases incl; cases st) (simp_all add: Let_def listed_def)
  qed
qed simp

lemma closure_loop_listing:
  assumes ok: "\<And>r. rec_ok db (view ks) r" "deps_ok db (view ks)"
    and "closed = (\<lambda>S. \<forall>x\<in>S. \<forall>d. dep (view ks) x d \<longrightarrow> d \<in> S)"
  shows "t \<in> seen \<Longrightarrow> set queue \<subseteq> seen \<Longrightarrow> seen \<subseteq> {r. (dep (view ks))\<^sup>*\<^sup>* t r} \<Longrightarrow>
    (\<forall>x\<in>seen - set queue. \<forall>d. dep (view ks) x d \<longrightarrow> d \<in> seen) \<Longrightarrow>
    distinct vs \<Longrightarrow> set vs = seen - {t} \<Longrightarrow> deps = listing db (view ks) incl vs \<Longrightarrow>
    \<exists>vs'. closure_loop db ks incl seen queue deps = Inr (listing db (view ks) incl vs') \<and>
      distinct vs' \<and> set vs' = {r. (dep (view ks))\<^sup>*\<^sup>* t r} - {t}"
proof (induction "card (UNIV - seen) + length queue" arbitrary: seen queue deps vs rule: less_induct)
  case less
  show ?case
  proof (cases queue)
    case Nil
    have "r \<in> seen" if "(dep (view ks))\<^sup>*\<^sup>* t r" for r
      using that by (induction rule: rtranclp_induct) (use less.prems(1,4) Nil in auto)
    then have "seen = {r. (dep (view ks))\<^sup>*\<^sup>* t r}" using less.prems(3) by blast
    then show ?thesis using less.prems Nil by auto
  next
    case (Cons s rest)
    obtain ds v where d: "dependents db ks s = map (\<lambda>d. Inr (dependency_key s d, v d)) ds" "distinct ds"
      "\<And>d. d \<in> set ds \<longleftrightarrow> dep (view ks) s d" using dependents_list [OF ok(2)] by blast
    have ex: "obs db (view ks) d \<noteq> None" if "d \<in> set ds" for d
    proof -
      have "deps_of (view ks) (dependency_key s d) \<noteq> None" using d(3) that by (simp add: dep_def)
      then show ?thesis using ok(2) unfolding deps_ok_def by (metis dependency_key_inject)
    qed
    define new where "new = filter (\<lambda>d. d \<notin> seen) ds"
    have scan: "closure_scan db ks incl (dependents db ks s) seen rest deps =
        Inr (seen \<union> set ds, rest @ new, listing db (view ks) incl (vs @ new))"
      unfolding d(1) using scan_listing [OF conjI [OF ok(1) ex] d(2), where s = s and v = v and seen = seen] less.prems(7)
      by (simp add: Let_def new_def)
    have m: "card (UNIV - (seen \<union> set ds)) + length (rest @ new) < card (UNIV - seen) + length queue"
      using closure_scan_measure [OF scan] Cons by simp
    have "\<exists>vs'. closure_loop db ks incl (seen \<union> set ds) (rest @ new) (listing db (view ks) incl (vs @ new)) =
        Inr (listing db (view ks) incl vs') \<and> distinct vs' \<and> set vs' = {r. (dep (view ks))\<^sup>*\<^sup>* t r} - {t}"
    proof (rule less.hyps [OF m])
      have "(dep (view ks))\<^sup>*\<^sup>* t s" using less.prems(2,3) Cons by auto
      then show "seen \<union> set ds \<subseteq> {r. (dep (view ks))\<^sup>*\<^sup>* t r}" using less.prems(3) d(3) by (auto intro: rtranclp.rtrancl_into_rtrancl)
      show "\<forall>x\<in>seen \<union> set ds - set (rest @ new). \<forall>y. dep (view ks) x y \<longrightarrow> y \<in> seen \<union> set ds"
      proof (intro ballI allI impI)
        fix x y
        assume x: "x \<in> seen \<union> set ds - set (rest @ new)" and xy: "dep (view ks) x y"
        then have "x = s \<or> x \<in> seen - set queue" using Cons by (auto simp: new_def)
        then show "y \<in> seen \<union> set ds" using xy d(3) less.prems(4) by blast
      qed
      show "distinct (vs @ new)" using less.prems(5,6) d(2) by (auto simp: new_def)
      show "set (vs @ new) = seen \<union> set ds - {t}" using less.prems(1,6) by (auto simp: new_def)
    qed (use less.prems(1,2) Cons in \<open>auto simp: new_def\<close>)
    then show ?thesis using scan Cons by simp
  qed
qed

lemma closure_loop_start:
  assumes "\<And>r. rec_ok db (view ks) r" "deps_ok db (view ks)"
  shows "\<exists>vs. closure_loop db ks incl {t} [t] [] = Inr (listing db (view ks) incl vs) \<and>
      distinct vs \<and> set vs = {r. (dep (view ks))\<^sup>*\<^sup>* t r} - {t}"
  using closure_loop_listing [OF assms refl, of t "{t}" "[t]" "[]" "[]"] by simp

theorem closure_correct:
  assumes "\<And>r. rec_ok db (view ks) r" "deps_ok db (view ks)"
  obtains ds where "dependency_closure db ks t incl = Inr ds" "sorted_wrt (<) (map pd_record ds)"
    "\<And>d. d \<in> set ds \<longleftrightarrow> (dep (view ks))\<^sup>+\<^sup>+ t (pd_record d) \<and> pd_record d \<noteq> t \<and>
       (\<exists>k sc st. obs db (view ks) (pd_record d) = Some (k, sc, st, pd_expected_revision d) \<and> listed incl st)"
proof -
  let ?m = "view ks"
  obtain vs where vs: "closure_loop db ks incl {t} [t] [] = Inr (listing db ?m incl vs)" "distinct vs"
    "set vs = {r. (dep ?m)\<^sup>*\<^sup>* t r} - {t}" using closure_loop_start [OF assms] by blast
  let ?c = "\<lambda>a b. cmp_of (pd_record a) (pd_record b)"
  let ?ds = "sort_by ?c (listing db ?m incl vs)"
  have "cmp_preorder UNIV ?c" by (rule cmp_preorder_key) simp
  then have "sorted_wrt (\<lambda>a b. ?c a b \<noteq> Greater) ?ds" by (rule sort_by_sorted) simp
  then have "sorted (map pd_record ?ds)"
    unfolding sorted_map by (rule sorted_wrt_mono_rel [rotated]) (auto simp: cmp_of_def split: if_splits)
  moreover have "map pd_record (listing db ?m incl vs) = filter (\<lambda>r. listed incl (state_of db ?m r)) vs"
    by (simp add: listing_def o_def)
  then have "mset (map pd_record ?ds) = mset (filter (\<lambda>r. listed incl (state_of db ?m r)) vs)"
    by (metis mset_map mset_sort_by)
  then have "distinct (map pd_record ?ds)" using vs(2) by (metis distinct_filter mset_eq_imp_distinct_iff)
  ultimately have sorted: "sorted_wrt (<) (map pd_record ?ds)" by (simp add: strict_sorted_iff)
  have ex: "\<exists>k sc st. obs db ?m r = Some (k, sc, st, revision_of db ?m r) \<and> state_of db ?m r = st"
    if r: "(dep ?m)\<^sup>+\<^sup>+ t r" for r
  proof -
    obtain x where "dep ?m x r" using r by (cases rule: tranclp.cases) auto
    then have "deps_of ?m (dependency_key x r) \<noteq> None" by (simp add: dep_def)
    then have "obs db ?m r \<noteq> None" using assms(2) unfolding deps_ok_def by (metis dependency_key_inject)
    then show ?thesis by (auto simp: revision_of_def state_of_def)
  qed
  have reach: "r \<in> set vs \<longleftrightarrow> (dep ?m)\<^sup>+\<^sup>+ t r \<and> r \<noteq> t" for r
    using vs(3) by (auto dest: rtranclpD tranclp_into_rtranclp)
  have mem: "d \<in> set ?ds \<longleftrightarrow> (\<exists>r \<in> set vs. listed incl (state_of db ?m r) \<and>
      d = \<lparr>pd_record = r, pd_expected_revision = revision_of db ?m r\<rparr>)" for d
    by (auto simp: listing_def)
  have "d \<in> set ?ds \<longleftrightarrow> (dep ?m)\<^sup>+\<^sup>+ t (pd_record d) \<and> pd_record d \<noteq> t \<and>
       (\<exists>k sc st. obs db ?m (pd_record d) = Some (k, sc, st, pd_expected_revision d) \<and> listed incl st)" for d
  proof
    assume "d \<in> set ?ds"
    then show "(dep ?m)\<^sup>+\<^sup>+ t (pd_record d) \<and> pd_record d \<noteq> t \<and>
       (\<exists>k sc st. obs db ?m (pd_record d) = Some (k, sc, st, pd_expected_revision d) \<and> listed incl st)"
      unfolding mem using reach ex by fastforce
  next
    assume *: "(dep ?m)\<^sup>+\<^sup>+ t (pd_record d) \<and> pd_record d \<noteq> t \<and>
       (\<exists>k sc st. obs db ?m (pd_record d) = Some (k, sc, st, pd_expected_revision d) \<and> listed incl st)"
    then have "d = \<lparr>pd_record = pd_record d, pd_expected_revision = revision_of db ?m (pd_record d)\<rparr>"
      "listed incl (state_of db ?m (pd_record d))" by (auto simp: revision_of_def state_of_def)
    then show "d \<in> set ?ds" unfolding mem using * reach by blast
  qed
  then show ?thesis using that vs(1) sorted by (simp add: dependency_closure_def)
qed

end

end
