(* ===== verification/Memory_Support.thy ===== *)
theory Memory_Support
  imports Memory_Closure
begin

text \<open>
  The invariant of the memory store and the two kinds of change that keep it. A claim, an entity or
  a relation cites existing evidence of its own scope, admissible for its domain, and depends on
  what it cites; no active record depends on an inactive one, except that the relation recording
  a supersession stays active beside the superseded claim. Taking records out together with
  everything active that depends on them keeps the invariant, and so does adding fresh records
  whose dependencies lead from active records.
\<close>

section \<open>The invariant\<close>

definition cited :: "'ks memory_db \<Rightarrow> kv_view \<Rightarrow> scope \<Rightarrow> (evidence_class \<Rightarrow> bool) \<Rightarrow> ulid \<Rightarrow> bool" where
  "cited db m sc ok i \<longleftrightarrow>
     (\<exists>h st v. obs db m (REvidence i) = Some (KEvidence h, sc, st, v) \<and> ok (eh_class h))"

definition endpoint :: "'ks memory_db \<Rightarrow> kv_view \<Rightarrow> scope \<Rightarrow> record_ref \<Rightarrow> bool" where
  "endpoint db m sc r \<longleftrightarrow> (\<exists>k st v. obs db m r = Some (k, sc, st, v))"

definition cites :: "'ks memory_db \<Rightarrow> kv_view \<Rightarrow> record_ref \<Rightarrow> scope \<Rightarrow> (evidence_class \<Rightarrow> bool) \<Rightarrow> ulid list \<Rightarrow> bool" where
  "cites db m r sc ok ids \<longleftrightarrow> ids \<noteq> [] \<and> (\<forall>i \<in> set ids. cited db m sc ok i \<and> dep m (REvidence i) r)"

text \<open>The endpoints of a relation are of the kinds its own kind allows.\<close>

definition joins :: "relation_kind \<Rightarrow> record_ref \<Rightarrow> record_ref \<Rightarrow> bool" where
  "joins k f t \<longleftrightarrow> (\<exists>a b. semantic_endpoint_kind f = Some a \<and> semantic_endpoint_kind t = Some b \<and> endpoint_kinds_valid k a b)"

fun content_ok :: "'ks memory_db \<Rightarrow> kv_view \<Rightarrow> record_ref \<Rightarrow> scope \<Rightarrow> rec_content \<Rightarrow> bool" where
  "content_ok db m r sc (KEvidence h) \<longleftrightarrow> eh_scope h = sc"
| "content_ok db m r sc (KClaim domain t ids) \<longleftrightarrow> cites db m r sc (\<lambda>c. source_is_admissible c domain) ids"
| "content_ok db m r sc (KEntity k t ids) \<longleftrightarrow> cites db m r sc (\<lambda>_. True) ids"
| "content_ok db m r sc (KRelation f t k ids) \<longleftrightarrow>
     cites db m r sc (\<lambda>_. True) ids \<and> endpoint db m sc f \<and> endpoint db m sc t \<and> dep m f r \<and> dep m t r \<and>
     joins k f t"
| "content_ok db m r sc KOther \<longleftrightarrow> True"

definition active :: "'ks memory_db \<Rightarrow> kv_view \<Rightarrow> record_ref \<Rightarrow> bool" where
  "active db m r \<longleftrightarrow> (\<exists>k sc v. obs db m r = Some (k, sc, Active, v))"

definition records_supersession :: "'ks memory_db \<Rightarrow> kv_view \<Rightarrow> record_ref \<Rightarrow> record_ref \<Rightarrow> bool" where
  "records_supersession db m s d \<longleftrightarrow> (\<exists>f ids sc st v. obs db m d = Some (KRelation f s Supersedes ids, sc, st, v))"

definition edge_ok :: "'ks memory_db \<Rightarrow> kv_view \<Rightarrow> record_ref \<Rightarrow> record_ref \<Rightarrow> bool" where
  "edge_ok db m s d \<longleftrightarrow> (active db m d \<longrightarrow> active db m s \<or> records_supersession db m s d)"

definition mem_inv :: "'ks memory_db \<Rightarrow> kv_view \<Rightarrow> bool" where
  "mem_inv db m \<longleftrightarrow>
     (\<forall>r. rec_ok db m r) \<and> deps_ok db m \<and>
     (\<forall>r k sc st v. obs db m r = Some (k, sc, st, v) \<longrightarrow> content_ok db m r sc k) \<and>
     (\<forall>s d. dep m s d \<longrightarrow> edge_ok db m s d)"

lemma mem_invD:
  assumes "mem_inv db m"
  shows "rec_ok db m r" "deps_ok db m" "obs db m r = Some (k, sc, st, v) \<Longrightarrow> content_ok db m r sc k"
    "dep m s d \<Longrightarrow> edge_ok db m s d"
  using assms by (auto simp: mem_inv_def)

lemma dep_exists:
  assumes "deps_ok db m" "dep m s d"
  shows "obs db m s \<noteq> None" "obs db m d \<noteq> None"
  using assms unfolding deps_ok_def dep_def by (metis dependency_key_inject)+

section \<open>Growth\<close>

text \<open>
  Records keep their content and scope, revisions do not fall, dependencies are never removed, and
  a payload that is gone does not come back.
\<close>

definition extends :: "'ks memory_db \<Rightarrow> kv_view \<Rightarrow> kv_view \<Rightarrow> bool" where
  "extends db m m' \<longleftrightarrow>
     (\<forall>r k sc st v. obs db m r = Some (k, sc, st, v) \<longrightarrow>
        (\<exists>st' v'. obs db m' r = Some (k, sc, st', v') \<and> v \<le> v' \<and> (v = v' \<longrightarrow> st' = st))) \<and>
     (\<forall>s d. dep m s d \<longrightarrow> dep m' s d) \<and>
     (\<forall>r. obs db m r \<noteq> None \<longrightarrow> payload_at m r = None \<longrightarrow> payload_at m' r = None)"

lemma extends_refl [simp]: "extends db m m"
  by (simp add: extends_def)

lemma extendsD:
  assumes "extends db m m'" "obs db m r = Some (k, sc, st, v)"
  obtains st' v' where "obs db m' r = Some (k, sc, st', v')" "v \<le> v'" "v = v' \<Longrightarrow> st' = st"
  using assms unfolding extends_def by blast

lemma extends_trans:
  assumes "extends db m m'" "extends db m' m''"
  shows "extends db m m''"
  unfolding extends_def
proof (intro conjI allI impI)
  fix r k sc st v
  assume "obs db m r = Some (k, sc, st, v)"
  then obtain st1 v1 where 1: "obs db m' r = Some (k, sc, st1, v1)" "v \<le> v1" "v = v1 \<Longrightarrow> st1 = st"
    using extendsD [OF assms(1)] by metis
  then obtain st2 v2 where 2: "obs db m'' r = Some (k, sc, st2, v2)" "v1 \<le> v2" "v1 = v2 \<Longrightarrow> st2 = st1"
    using extendsD [OF assms(2)] by metis
  have "v = v2 \<Longrightarrow> st2 = st" using 1 2 by (simp add: order.antisym)
  then show "\<exists>st' v'. obs db m'' r = Some (k, sc, st', v') \<and> v \<le> v' \<and> (v = v' \<longrightarrow> st' = st)"
    using 1(2) 2(1,2) by auto
next
  fix r
  assume "obs db m r \<noteq> None" "payload_at m r = None"
  then show "payload_at m'' r = None" using assms unfolding extends_def by (metis not_None_eq prod_cases4)
qed (use assms in \<open>simp add: extends_def\<close>)

lemma extends_dep: "extends db m m' \<Longrightarrow> dep m s d \<Longrightarrow> dep m' s d"
  by (simp add: extends_def)

lemma cited_extends: "extends db m m' \<Longrightarrow> cited db m sc ok i \<Longrightarrow> cited db m' sc ok i"
  unfolding cited_def by (metis extendsD)

lemma endpoint_extends: "extends db m m' \<Longrightarrow> endpoint db m sc r \<Longrightarrow> endpoint db m' sc r"
  unfolding endpoint_def by (metis extendsD)

lemma cites_extends: "extends db m m' \<Longrightarrow> cites db m r sc ok ids \<Longrightarrow> cites db m' r sc ok ids"
  unfolding cites_def by (meson cited_extends extends_dep)

lemma content_extends: "extends db m m' \<Longrightarrow> content_ok db m r sc k \<Longrightarrow> content_ok db m' r sc k"
  by (cases k) (auto intro: cites_extends endpoint_extends simp: extends_def)

lemma extends_obs: "extends db m m' \<Longrightarrow> obs db m r \<noteq> None \<Longrightarrow> obs db m' r \<noteq> None"
  by (metis extendsD not_None_eq prod_cases4)

section \<open>Taking records out\<close>

definition downward :: "'ks memory_db \<Rightarrow> kv_view \<Rightarrow> (record_ref \<rightharpoonup> record_state) \<Rightarrow> bool" where
  "downward db m T \<longleftrightarrow>
     (\<forall>r. T r \<noteq> Some Active) \<and> (\<forall>s d. dep m s d \<longrightarrow> T s \<noteq> None \<longrightarrow> active db m d \<longrightarrow> T d \<noteq> None)"

text \<open>The records of \<open>T\<close> have moved on by one revision, payloads may be gone, all else is as before.\<close>

definition moved :: "'ks memory_db \<Rightarrow> kv_view \<Rightarrow> (record_ref \<rightharpoonup> record_state) \<Rightarrow> kv_view \<Rightarrow> bool" where
  "moved db m T m' \<longleftrightarrow>
     deps_of m' = deps_of m \<and> (\<forall>r. payload_at m r = None \<longrightarrow> payload_at m' r = None) \<and>
     (\<forall>r. T r = None \<longrightarrow> (rec_ok db m r \<longrightarrow> rec_ok db m' r) \<and> obs db m' r = obs db m r) \<and>
     (\<forall>r st. T r = Some st \<longrightarrow> rec_ok db m' r \<and>
        (\<exists>k sc s0 e. e \<noteq> - 1 \<and> obs db m r = Some (k, sc, s0, e) \<and> obs db m' r = Some (k, sc, st, e + 1)))"

lemma revised_moved:
  assumes "revised db m T m'"
  shows "moved db m T m'"
proof -
  have "(rec_ok db m r \<longrightarrow> rec_ok db m' r) \<and> obs db m' r = obs db m r" if "T r = None" for r
    using assms that obs_agree [of m m' r db] rec_ok_agree [of m m' r db] by (simp add: revised_def)
  then show ?thesis using assms unfolding moved_def revised_def by simp
qed

lemma moved_obs:
  assumes "moved db m T m'"
  shows "T r = None \<Longrightarrow> obs db m' r = obs db m r"
    and "T r = Some st \<Longrightarrow> \<exists>k sc s0 e. e \<noteq> - 1 \<and> obs db m r = Some (k, sc, s0, e) \<and> obs db m' r = Some (k, sc, st, e + 1)"
  using assms unfolding moved_def by blast+

lemma moved_rec_ok: "moved db m T m' \<Longrightarrow> rec_ok db m r \<Longrightarrow> rec_ok db m' r"
  by (cases "T r") (auto simp: moved_def)

lemma moved_dep: "moved db m T m' \<Longrightarrow> dep m' = dep m"
  using dep_deps_of [of m' m] by (simp add: moved_def)

lemma moved_extends:
  assumes "moved db m T m'"
  shows "extends db m m'"
  unfolding extends_def
proof (intro conjI allI impI)
  fix r k sc st v
  assume o: "obs db m r = Some (k, sc, st, v)"
  show "\<exists>st' v'. obs db m' r = Some (k, sc, st', v') \<and> v \<le> v' \<and> (v = v' \<longrightarrow> st' = st)"
  proof (cases "T r")
    case None
    then show ?thesis using moved_obs(1) [OF assms] o by auto
  next
    case (Some st')
    then obtain e where "e \<noteq> - 1" "v = e" "obs db m' r = Some (k, sc, st', e + 1)"
      using moved_obs(2) [OF assms Some] o by auto
    then show ?thesis using word_less_succ [of v] by (auto intro: less_imp_le)
  qed
qed (use assms in \<open>simp_all add: moved_dep [OF assms] moved_def\<close>)

lemma moved_active:
  assumes "moved db m T m'" "downward db m T"
  shows "active db m' r \<longleftrightarrow> active db m r \<and> T r = None"
proof (cases "T r")
  case None
  then show ?thesis using moved_obs(1) [OF assms(1)] by (simp add: active_def)
next
  case (Some st)
  then have "st \<noteq> Active" using assms(2) by (auto simp: downward_def)
  then show ?thesis using moved_obs(2) [OF assms(1) Some] Some by (auto simp: active_def)
qed

lemma moved_inv:
  assumes "mem_inv db m" "moved db m T m'" "downward db m T"
  shows "mem_inv db m'"
  unfolding mem_inv_def
proof (intro conjI allI impI)
  note ext = moved_extends [OF assms(2)]
  show "rec_ok db m' r" for r using moved_rec_ok [OF assms(2)] mem_invD(1) [OF assms(1)] by blast
  have "deps_of m' = deps_of m" using assms(2) by (simp add: moved_def)
  then show "deps_ok db m'"
    using mem_invD(2) [OF assms(1)] extends_obs [OF ext] unfolding deps_ok_def by metis
  fix r k sc st v
  assume o': "obs db m' r = Some (k, sc, st, v)"
  then obtain st0 v0 where "obs db m r = Some (k, sc, st0, v0)"
    using moved_obs [OF assms(2), of r] by (cases "T r") fastforce+
  then show "content_ok db m' r sc k" using content_extends [OF ext] mem_invD(3) [OF assms(1)] by blast
next
  fix s d
  assume "dep m' s d"
  then have sd: "dep m s d" by (simp add: moved_dep [OF assms(2)])
  show "edge_ok db m' s d"
    unfolding edge_ok_def
  proof
    assume "active db m' d"
    then have d: "active db m d" "T d = None" using moved_active [OF assms(2,3)] by auto
    have s: "T s = None" using assms(3) sd d unfolding downward_def by blast
    show "active db m' s \<or> records_supersession db m' s d"
      using mem_invD(4) [OF assms(1) sd] d s moved_active [OF assms(2,3), of s] moved_obs(1) [OF assms(2) d(2)]
      by (auto simp: edge_ok_def records_supersession_def)
  qed
qed

section \<open>Adding records\<close>

definition dep_cells :: "(string \<times> bytes) set" where
  "dep_cells = range (\<lambda>k. (part_name P_DEPENDENCIES, k))"

text \<open>The batch of one new record, apart from its dependencies.\<close>

definition creates :: "'ks memory_db \<Rightarrow> record_ref \<Rightarrow> rec_content \<Rightarrow> scope \<Rightarrow> batch_op list \<Rightarrow> bool" where
  "creates db r k sc ops \<longleftrightarrow>
     cells_of ops \<subseteq> rec_cells r \<union> aux_cells \<and>
     (\<forall>m. rec_ok db m r \<longrightarrow> obs db m r = None \<longrightarrow>
        rec_ok db (apply_ops ops m) r \<and> obs db (apply_ops ops m) r = Some (k, sc, Active, 1))"

definition created ::
    "'ks memory_db \<Rightarrow> kv_view \<Rightarrow> (record_ref \<rightharpoonup> rec_content \<times> scope) \<Rightarrow> (record_ref \<times> record_ref) set \<Rightarrow> kv_view \<Rightarrow> bool" where
  "created db m N D m' \<longleftrightarrow>
     (\<forall>k. deps_of m' k \<noteq> None \<longleftrightarrow> deps_of m k \<noteq> None \<or> (\<exists>(s, d) \<in> D. k = dependency_key s d)) \<and>
     (\<forall>r. N r = None \<longrightarrow> agree m m' (rec_cells r)) \<and>
     (\<forall>r k sc. N r = Some (k, sc) \<longrightarrow> obs db m r = None \<and> rec_ok db m' r \<and> obs db m' r = Some (k, sc, Active, 1))"

lemma created_refl: "created db m Map.empty {} m"
  by (simp add: created_def)

lemma created_dep: "created db m N D m' \<Longrightarrow> dep m' s d \<longleftrightarrow> dep m s d \<or> (s, d) \<in> D"
  by (auto simp: created_def dep_def)

lemma created_obs:
  assumes "created db m N D m'"
  shows "N r = None \<Longrightarrow> obs db m' r = obs db m r"
    and "N r = Some (k, sc) \<Longrightarrow> obs db m r = None \<and> obs db m' r = Some (k, sc, Active, 1)"
  using assms obs_agree [of m m' r db] unfolding created_def by (simp, blast)

lemma created_extends:
  assumes "created db m N D m'"
  shows "extends db m m'"
  unfolding extends_def
proof (intro conjI allI impI)
  fix r k sc st v
  assume o: "obs db m r = Some (k, sc, st, v)"
  then have "N r = None" using created_obs(2) [OF assms] by (cases "N r") fastforce+
  then show "\<exists>st' v'. obs db m' r = Some (k, sc, st', v') \<and> v \<le> v' \<and> (v = v' \<longrightarrow> st' = st)"
    using created_obs(1) [OF assms] o by auto
next
  fix r
  assume "obs db m r \<noteq> None" "payload_at m r = None"
  moreover from this have "N r = None" using created_obs(2) [OF assms] by (cases "N r") fastforce+
  ultimately show "payload_at m' r = None" using assms agree_payload unfolding created_def by metis
qed (simp add: created_dep [OF assms])

lemma created_step:
  assumes cr: "created db m N D m'" and new: "N r = None" "obs db m r = None" "rec_ok db m r"
    and ops: "creates db r k sc ops"
  shows "created db m (N(r \<mapsto> (k, sc))) D (apply_ops ops m')"
proof -
  have cells: "cells_of ops \<subseteq> rec_cells r \<union> aux_cells" using ops by (simp add: creates_def)
  have a: "agree m m' (rec_cells r)" using cr new(1) by (simp add: created_def)
  have "rec_ok db m' r" "obs db m' r = None" using new(2,3) rec_ok_agree [OF a, of db] obs_agree [OF a, of db] by simp_all
  then have r: "rec_ok db (apply_ops ops m') r" "obs db (apply_ops ops m') r = Some (k, sc, Active, 1)"
    using ops by (simp_all add: creates_def)
  have other: "agree m' (apply_ops ops m') (rec_cells s)" if "s \<noteq> r" for s using other_agree [OF cells that] .
  have "agree m (apply_ops ops m') (rec_cells s)" if "s \<noteq> r" "N s = None" for s
    using agree_trans [OF _ other [OF that(1)]] cr that(2) by (simp add: created_def)
  moreover have "obs db m s = None \<and> rec_ok db (apply_ops ops m') s \<and> obs db (apply_ops ops m') s = Some (k', sc', Active, 1)"
    if "s \<noteq> r" "N s = Some (k', sc')" for s k' sc'
    using cr that rec_ok_agree [OF other [OF that(1)], of db] obs_agree [OF other [OF that(1)], of db] by (auto simp: created_def)
  moreover have "\<forall>x. deps_of (apply_ops ops m') x \<noteq> None \<longleftrightarrow> deps_of m x \<noteq> None \<or> (\<exists>(s, d) \<in> D. x = dependency_key s d)"
    using cr deps_of_frame [OF cells, of m'] by (simp add: created_def)
  ultimately show ?thesis unfolding created_def using r new(2) by simp
qed

definition dep_ops :: "(record_ref \<times> record_ref) list \<Rightarrow> batch_op list" where
  "dep_ops es = map (\<lambda>(s, d). put P_DEPENDENCIES (dependency_key s d) []) es"

lemma dependency_ops_dep_ops: "dependency_ops ss d = dep_ops (map (\<lambda>s. (s, d)) ss)"
  by (simp add: dependency_ops_def dep_ops_def)

lemma dep_ops_deps: "deps_of (apply_ops (dep_ops es) m) k \<noteq> None \<longleftrightarrow> deps_of m k \<noteq> None \<or> (\<exists>(s, d) \<in> set es. k = dependency_key s d)"
proof (induction es arbitrary: m)
  case (Cons e es)
  then show ?case by (cases e) (auto simp: dep_ops_def deps_of_def)
qed (simp add: dep_ops_def)

lemma dep_ops_cells: "cells_of (dep_ops es) \<subseteq> dep_cells"
  by (auto simp: dep_ops_def dep_cells_def cells_of_def)

lemma dep_rec_disjoint: "dep_cells \<inter> rec_cells r = {}"
  using rec_cells_part by (force simp: dep_cells_def)

lemma created_deps:
  assumes cr: "created db m N D m'"
  shows "created db m N (D \<union> set es) (apply_ops (dep_ops es) m')"
proof -
  have a: "agree m' (apply_ops (dep_ops es) m') (rec_cells r)" for r
    using dep_ops_cells dep_rec_disjoint by (intro agree_apply_ops) blast
  have "obs db (apply_ops (dep_ops es) m') r = obs db m' r" "rec_ok db (apply_ops (dep_ops es) m') r = rec_ok db m' r" for r
    using obs_agree [OF a, of db] rec_ok_agree [OF a, of db] by simp_all
  moreover have "N r = None \<Longrightarrow> agree m (apply_ops (dep_ops es) m') (rec_cells r)" for r
    using cr agree_trans [OF _ a] by (simp add: created_def)
  moreover have "\<forall>k. deps_of (apply_ops (dep_ops es) m') k \<noteq> None \<longleftrightarrow> deps_of m k \<noteq> None \<or> (\<exists>(s, d) \<in> D \<union> set es. k = dependency_key s d)"
    using cr unfolding created_def by (simp add: dep_ops_deps bex_Un disj_assoc del: not_None_eq)
  ultimately show ?thesis using cr unfolding created_def by simp
qed

lemma created_aux:
  assumes cr: "created db m N D m'" and cells: "cells_of ops \<subseteq> aux_cells"
  shows "created db m N D (apply_ops ops m')"
proof -
  have a: "agree m' (apply_ops ops m') (rec_cells r)" for r using cells by (rule aux_agree)
  have "obs db (apply_ops ops m') r = obs db m' r" "rec_ok db (apply_ops ops m') r = rec_ok db m' r" for r
    using obs_agree [OF a, of db] rec_ok_agree [OF a, of db] by simp_all
  moreover have "N r = None \<Longrightarrow> agree m (apply_ops ops m') (rec_cells r)" for r
    using cr agree_trans [OF _ a] by (simp add: created_def)
  moreover have "deps_of (apply_ops ops m') = deps_of m'" using cells by (intro deps_of_frame) blast
  ultimately show ?thesis using cr unfolding created_def by simp
qed

lemma created_rec_ok: "created db m N D m' \<Longrightarrow> rec_ok db m r \<Longrightarrow> rec_ok db m' r"
  using rec_ok_agree [of m m' r db] by (cases "N r") (auto simp: created_def)

text \<open>New records enter with sound content, and new dependencies lead into new records from active ones.\<close>

lemma created_inv:
  assumes inv: "mem_inv db m" and cr: "created db m N D m'"
    and content: "\<And>r k sc. N r = Some (k, sc) \<Longrightarrow> content_ok db m' r sc k"
    and edges: "\<And>s d. (s, d) \<in> D \<Longrightarrow> N d \<noteq> None \<and> obs db m' s \<noteq> None \<and> (active db m' s \<or> records_supersession db m' s d)"
  shows "mem_inv db m'"
  unfolding mem_inv_def
proof (intro conjI allI impI)
  note ext = created_extends [OF cr]
  show "rec_ok db m' r" for r using created_rec_ok [OF cr] mem_invD(1) [OF inv] by blast
  show "deps_ok db m'"
    unfolding deps_ok_def
  proof (intro allI impI)
    fix k assume "deps_of m' k \<noteq> None"
    then consider "deps_of m k \<noteq> None" | s d where "(s, d) \<in> D" "k = dependency_key s d"
      using cr by (auto simp: created_def)
    then show "\<exists>s d. k = dependency_key s d \<and> obs db m' s \<noteq> None \<and> obs db m' d \<noteq> None"
    proof cases
      case 1
      then show ?thesis using mem_invD(2) [OF inv] extends_obs [OF ext] unfolding deps_ok_def by metis
    next
      case 2
      obtain k' sc where "N d = Some (k', sc)" using edges [OF 2(1)] by auto
      then have "obs db m' d \<noteq> None" using created_obs(2) [OF cr] by simp
      then show ?thesis using 2 edges by blast
    qed
  qed
  fix r k sc st v
  assume o: "obs db m' r = Some (k, sc, st, v)"
  show "content_ok db m' r sc k"
  proof (cases "N r")
    case None
    then show ?thesis using o created_obs(1) [OF cr] content_extends [OF ext] mem_invD(3) [OF inv] by simp
  next
    case (Some c)
    then show ?thesis using o created_obs(2) [OF cr, of r] content by (cases c) auto
  qed
next
  fix s d
  assume "dep m' s d"
  then consider "dep m s d" | "(s, d) \<in> D" using created_dep [OF cr] by blast
  then show "edge_ok db m' s d"
  proof cases
    case 1
    then have ex: "obs db m s \<noteq> None" "obs db m d \<noteq> None" using dep_exists mem_invD(2) [OF inv] by blast+
    have "N s = None" "N d = None" using ex created_obs(2) [OF cr] by (metis option.exhaust surj_pair)+
    then show ?thesis using mem_invD(4) [OF inv 1] created_obs(1) [OF cr]
      by (simp add: edge_ok_def active_def records_supersession_def)
  next
    case 2
    then show ?thesis using edges by (auto simp: edge_ok_def)
  qed
qed

end
