(* ===== verification/Memory_Create.thy ===== *)
theory Memory_Create
  imports Memory_Support
begin

text \<open>
  The batches that write new records. Each makes one record observable as active at revision 1,
  with the content and scope of its header, and enters it into the dependency index under the
  records it cites. The lemmas step through a batch from left to right, so that an operation's
  proof follows the order of its writes.
\<close>

section \<open>A fresh record\<close>

lemma revs_new:
  assumes "revs_ok c m p hp i rv" "m (part_name hp) (id_key i) = None" "codec_ok c y" "rv y = 1"
    and "m' (part_name p) = (m (part_name p))(revision_key i 1 \<mapsto> enc c y)"
    and "m' (part_name hp) = (m (part_name hp))(id_key i \<mapsto> u64_be 1)"
  shows "revs_ok c m' p hp i rv" "current c m' p hp i = Some y"
proof -
  have old: "m (part_name p) (revision_key i v) = None" for v using assms(1,2) by (simp add: revs_ok_def)
  have new: "stored_at c m' p (revision_key i 1) = Some y" using assms(3,5) by (simp add: stored_at_def de_enc)
  then show "revs_ok c m' p hp i rv" using old assms(4-6) by (auto simp: revs_ok_def)
  have "head_of m' hp i = Some 1" using assms(6) by (simp add: head_of_def)
  then show "current c m' p hp i = Some y" using new by (simp add: current_def)
qed

lemma current_absent: "revs_ok c m p hp i rv \<Longrightarrow> current c m p hp i = None \<Longrightarrow> m (part_name hp) (id_key i) = None"
  by (auto simp: revs_ok_def current_def head_of_def split: option.splits)

lemma avail_absent:
  "header_ok ch m p hp i hid \<Longrightarrow> revs_ok ca m ap hp i rv \<Longrightarrow> obs_avail ch ca m p ap hp i f = None \<Longrightarrow>
   m (part_name hp) (id_key i) = None"
  using current_absent [of ca m ap hp i rv]
  by (auto simp: obs_avail_def header_ok_def stored_at_def bind_eq_None_conv split: option.splits)

lemma head_absent:
  assumes "rec_ok db m r" "obs db m r = None"
  shows "m (part_name (heads_part r)) (id_key (rec_id r)) = None"
  using assms by (cases r) (auto intro: current_absent avail_absent)

text \<open>A fixed header with its first availability.\<close>

lemma avail_new:
  assumes "header_ok ch m p hp i hid" "revs_ok ca m ap hp i av_revision" "m (part_name hp) (id_key i) = None"
    and "codec_ok ch h" "hid h = i" "codec_ok ca a" "av_revision a = 1" "av_state a = Active"
    and "m' (part_name p) = (m (part_name p))(id_key i \<mapsto> enc ch h)"
    and "m' (part_name ap) = (m (part_name ap))(revision_key i 1 \<mapsto> enc ca a)"
    and "m' (part_name hp) = (m (part_name hp))(id_key i \<mapsto> u64_be 1)"
  shows "header_ok ch m' p hp i hid" "revs_ok ca m' ap hp i av_revision"
    "obs_avail ch ca m' p ap hp i f = Some (fst (f h), snd (f h), Active, 1)"
proof -
  show "revs_ok ca m' ap hp i av_revision" using revs_new [OF assms(2,3,6,7,10,11)] by blast
  show "header_ok ch m' p hp i hid" using assms(4,5,9,11) by (simp add: header_ok_def de_enc)
  have "stored_at ch m' p (id_key i) = Some h" using assms(4,9) by (simp add: stored_at_def de_enc)
  then show "obs_avail ch ca m' p ap hp i f = Some (fst (f h), snd (f h), Active, 1)"
    using revs_new(2) [OF assms(2,3,6,7,10,11)] assms(7,8) by (simp add: obs_avail_def)
qed

lemma next_availability_simps [simp]:
  "av_revision (next_availability i v st op now) = v" "av_state (next_availability i v st op now) = st"
  by (simp_all add: next_availability_def)

lemma creates_aux:
  assumes "creates db r k sc ops" "cells_of ax \<subseteq> aux_cells"
  shows "creates db r k sc (ops @ ax)"
proof -
  have "obs db (apply_ops (ops @ ax) m) r = obs db (apply_ops ops m) r"
    "rec_ok db (apply_ops (ops @ ax) m) r = rec_ok db (apply_ops ops m) r" for m
    using obs_agree [OF aux_agree [OF assms(2)]] rec_ok_agree [OF aux_agree [OF assms(2)]] by (metis apply_ops_append)+
  then show ?thesis using assms by (auto simp: creates_def)
qed

text \<open>The writes of a record with a fixed header, and of one with revision headers.\<close>

abbreviation (input) avail_ops :: "part \<Rightarrow> part \<Rightarrow> part \<Rightarrow> ulid \<Rightarrow> bytes \<Rightarrow> bytes \<Rightarrow> record_ref \<Rightarrow> bytes \<Rightarrow> batch_op list" where
  "avail_ops p ap hp i h a r t \<equiv>
     [put p (id_key i) h, put ap (revision_key i 1) a, put hp (id_key i) (u64_be 1), put P_PAYLOADS (payload_key r) t]"

abbreviation (input) header_ops :: "part \<Rightarrow> part \<Rightarrow> ulid \<Rightarrow> bytes \<Rightarrow> record_ref \<Rightarrow> bytes \<Rightarrow> batch_op list" where
  "header_ops p hp i h r t \<equiv>
     [put p (revision_key i 1) h, put hp (id_key i) (u64_be 1), put P_PAYLOADS (payload_key r) t]"

context memory_store
begin

lemma creates_evidence:
  assumes "utf8_valid (as_bytes text)" "eh_id h = i" "av_revision a = 1" "av_state a = Active"
  shows "creates db (REvidence i) (KEvidence h) (eh_scope h)
    (avail_ops P_EVIDENCE P_EVIDENCE_AVAILABILITY P_EVIDENCE_HEADS i (enc (mc_evidence (md_codecs db)) h)
       (enc (mc_evidence_availability (md_codecs db)) a) (REvidence i) (as_bytes text))"
  unfolding creates_def
proof (intro conjI allI impI)
  fix m
  assume ok: "rec_ok db m (REvidence i)" and new: "obs db m (REvidence i) = None"
  let ?m = "apply_ops (avail_ops P_EVIDENCE P_EVIDENCE_AVAILABILITY P_EVIDENCE_HEADS i (enc (mc_evidence (md_codecs db)) h)
       (enc (mc_evidence_availability (md_codecs db)) a) (REvidence i) (as_bytes text)) m"
  have "header_ok (mc_evidence (md_codecs db)) ?m P_EVIDENCE P_EVIDENCE_HEADS i eh_id"
    "revs_ok (mc_evidence_availability (md_codecs db)) ?m P_EVIDENCE_AVAILABILITY P_EVIDENCE_HEADS i av_revision"
    "obs db ?m (REvidence i) = Some (KEvidence h, eh_scope h, Active, 1)"
    using avail_new [where ch = "mc_evidence (md_codecs db)" and ca = "mc_evidence_availability (md_codecs db)" and m = m and m' = ?m
        and p = P_EVIDENCE and ap = P_EVIDENCE_AVAILABILITY and hp = P_EVIDENCE_HEADS and i = i and hid = eh_id and h = h and a = a]
      ok head_absent [OF ok new] assms by simp_all
  then show "rec_ok db ?m (REvidence i)" "obs db ?m (REvidence i) = Some (KEvidence h, eh_scope h, Active, 1)"
    using assms(1) by (simp_all add: text_ok_def from_utf8_as_bytes)
qed (auto simp: rec_cells_def)

lemma creates_collection:
  assumes "utf8_valid (as_bytes text)" "ach_id h = i" "av_revision a = 1" "av_state a = Active"
  shows "creates db (RArtifactCollection i) (KOther) (ach_scope h)
    (avail_ops P_ARTIFACT_COLLECTIONS P_ARTIFACT_COLLECTION_AVAILABILITY P_ARTIFACT_COLLECTION_HEADS i (enc (mc_collection (md_codecs db)) h)
       (enc (mc_artifact_availability (md_codecs db)) a) (RArtifactCollection i) (as_bytes text))"
  unfolding creates_def
proof (intro conjI allI impI)
  fix m
  assume ok: "rec_ok db m (RArtifactCollection i)" and new: "obs db m (RArtifactCollection i) = None"
  let ?m = "apply_ops (avail_ops P_ARTIFACT_COLLECTIONS P_ARTIFACT_COLLECTION_AVAILABILITY P_ARTIFACT_COLLECTION_HEADS i (enc (mc_collection (md_codecs db)) h)
       (enc (mc_artifact_availability (md_codecs db)) a) (RArtifactCollection i) (as_bytes text)) m"
  have "header_ok (mc_collection (md_codecs db)) ?m P_ARTIFACT_COLLECTIONS P_ARTIFACT_COLLECTION_HEADS i ach_id"
    "revs_ok (mc_artifact_availability (md_codecs db)) ?m P_ARTIFACT_COLLECTION_AVAILABILITY P_ARTIFACT_COLLECTION_HEADS i av_revision"
    "obs db ?m (RArtifactCollection i) = Some (KOther, ach_scope h, Active, 1)"
    using avail_new [where ch = "mc_collection (md_codecs db)" and ca = "mc_artifact_availability (md_codecs db)" and m = m and m' = ?m
        and p = P_ARTIFACT_COLLECTIONS and ap = P_ARTIFACT_COLLECTION_AVAILABILITY and hp = P_ARTIFACT_COLLECTION_HEADS and i = i and hid = ach_id and h = h and a = a]
      ok head_absent [OF ok new] assms by simp_all
  then show "rec_ok db ?m (RArtifactCollection i)" "obs db ?m (RArtifactCollection i) = Some (KOther, ach_scope h, Active, 1)"
    using assms(1) by (simp_all add: text_ok_def from_utf8_as_bytes)
qed (auto simp: rec_cells_def)

lemma creates_snapshot:
  assumes "codec_ok (mc_snapshot_payload (md_codecs db)) x" "ash_id h = i" "av_revision a = 1" "av_state a = Active"
  shows "creates db (RArtifactSnapshot i) (KOther) (ash_scope h)
    (avail_ops P_ARTIFACT_SNAPSHOTS P_ARTIFACT_SNAPSHOT_AVAILABILITY P_ARTIFACT_SNAPSHOT_HEADS i (enc (mc_snapshot (md_codecs db)) h)
       (enc (mc_artifact_availability (md_codecs db)) a) (RArtifactSnapshot i) (enc (mc_snapshot_payload (md_codecs db)) x))"
  unfolding creates_def
proof (intro conjI allI impI)
  fix m
  assume ok: "rec_ok db m (RArtifactSnapshot i)" and new: "obs db m (RArtifactSnapshot i) = None"
  let ?m = "apply_ops (avail_ops P_ARTIFACT_SNAPSHOTS P_ARTIFACT_SNAPSHOT_AVAILABILITY P_ARTIFACT_SNAPSHOT_HEADS i (enc (mc_snapshot (md_codecs db)) h)
       (enc (mc_artifact_availability (md_codecs db)) a) (RArtifactSnapshot i) (enc (mc_snapshot_payload (md_codecs db)) x)) m"
  have "header_ok (mc_snapshot (md_codecs db)) ?m P_ARTIFACT_SNAPSHOTS P_ARTIFACT_SNAPSHOT_HEADS i ash_id"
    "revs_ok (mc_artifact_availability (md_codecs db)) ?m P_ARTIFACT_SNAPSHOT_AVAILABILITY P_ARTIFACT_SNAPSHOT_HEADS i av_revision"
    "obs db ?m (RArtifactSnapshot i) = Some (KOther, ash_scope h, Active, 1)"
    using avail_new [where ch = "mc_snapshot (md_codecs db)" and ca = "mc_artifact_availability (md_codecs db)" and m = m and m' = ?m
        and p = P_ARTIFACT_SNAPSHOTS and ap = P_ARTIFACT_SNAPSHOT_AVAILABILITY and hp = P_ARTIFACT_SNAPSHOT_HEADS and i = i and hid = ash_id and h = h and a = a]
      ok head_absent [OF ok new] assms by simp_all
  then show "rec_ok db ?m (RArtifactSnapshot i)" "obs db ?m (RArtifactSnapshot i) = Some (KOther, ash_scope h, Active, 1)"
    using assms(1) by (simp_all add: payload_ok_def de_enc)
qed (auto simp: rec_cells_def)

lemma creates_passage:
  assumes "utf8_valid (as_bytes text)" "aph_id h = i" "av_revision a = 1" "av_state a = Active"
  shows "creates db (RArtifactPassage i) (KOther) (aph_scope h)
    (avail_ops P_ARTIFACT_PASSAGES P_ARTIFACT_PASSAGE_AVAILABILITY P_ARTIFACT_PASSAGE_HEADS i (enc (mc_passage (md_codecs db)) h)
       (enc (mc_artifact_availability (md_codecs db)) a) (RArtifactPassage i) (as_bytes text))"
  unfolding creates_def
proof (intro conjI allI impI)
  fix m
  assume ok: "rec_ok db m (RArtifactPassage i)" and new: "obs db m (RArtifactPassage i) = None"
  let ?m = "apply_ops (avail_ops P_ARTIFACT_PASSAGES P_ARTIFACT_PASSAGE_AVAILABILITY P_ARTIFACT_PASSAGE_HEADS i (enc (mc_passage (md_codecs db)) h)
       (enc (mc_artifact_availability (md_codecs db)) a) (RArtifactPassage i) (as_bytes text)) m"
  have "header_ok (mc_passage (md_codecs db)) ?m P_ARTIFACT_PASSAGES P_ARTIFACT_PASSAGE_HEADS i aph_id"
    "revs_ok (mc_artifact_availability (md_codecs db)) ?m P_ARTIFACT_PASSAGE_AVAILABILITY P_ARTIFACT_PASSAGE_HEADS i av_revision"
    "obs db ?m (RArtifactPassage i) = Some (KOther, aph_scope h, Active, 1)"
    using avail_new [where ch = "mc_passage (md_codecs db)" and ca = "mc_artifact_availability (md_codecs db)" and m = m and m' = ?m
        and p = P_ARTIFACT_PASSAGES and ap = P_ARTIFACT_PASSAGE_AVAILABILITY and hp = P_ARTIFACT_PASSAGE_HEADS and i = i and hid = aph_id and h = h and a = a]
      ok head_absent [OF ok new] assms by simp_all
  then show "rec_ok db ?m (RArtifactPassage i)" "obs db ?m (RArtifactPassage i) = Some (KOther, aph_scope h, Active, 1)"
    using assms(1) by (simp_all add: text_ok_def from_utf8_as_bytes)
qed (auto simp: rec_cells_def)

lemma creates_claim:
  assumes "utf8_valid (as_bytes text)" "ch_revision h = 1" "ch_state h = Active"
  shows "creates db (RClaim i) (KClaim (ch_domain h) (ch_temporal h) (ch_evidence_ids h)) (ch_scope h)
    (header_ops P_CLAIMS P_CLAIM_HEADS i (enc (mc_claim (md_codecs db)) h) (RClaim i) (as_bytes text))"
  unfolding creates_def
proof (intro conjI allI impI)
  fix m
  assume ok: "rec_ok db m (RClaim i)" and new: "obs db m (RClaim i) = None"
  let ?m = "apply_ops (header_ops P_CLAIMS P_CLAIM_HEADS i (enc (mc_claim (md_codecs db)) h) (RClaim i) (as_bytes text)) m"
  have "revs_ok (mc_claim (md_codecs db)) ?m P_CLAIMS P_CLAIM_HEADS i ch_revision"
    "current (mc_claim (md_codecs db)) ?m P_CLAIMS P_CLAIM_HEADS i = Some h"
    using revs_new [where c = "mc_claim (md_codecs db)" and m = m and m' = ?m and p = P_CLAIMS and hp = P_CLAIM_HEADS and i = i
        and rv = ch_revision and y = h] ok head_absent [OF ok new] assms by simp_all
  then show "rec_ok db ?m (RClaim i)"
    "obs db ?m (RClaim i) = Some (KClaim (ch_domain h) (ch_temporal h) (ch_evidence_ids h), ch_scope h, Active, 1)"
    using assms by (simp_all add: text_ok_def)
qed (auto simp: rec_cells_def)

lemma creates_relation:
  assumes "lh_revision h = 1" "lh_state h = Active"
  shows "creates db (RSemanticRelation i) (KRelation (lh_from h) (lh_to h) (lh_kind h) (lh_evidence_ids h)) (lh_scope h)
    (header_ops P_RELATIONS P_RELATION_HEADS i (enc (mc_relation (md_codecs db)) h) (RSemanticRelation i)
       (enc (mc_relation_payload (md_codecs db)) x))"
  unfolding creates_def
proof (intro conjI allI impI)
  fix m
  assume ok: "rec_ok db m (RSemanticRelation i)" and new: "obs db m (RSemanticRelation i) = None"
  let ?m = "apply_ops (header_ops P_RELATIONS P_RELATION_HEADS i (enc (mc_relation (md_codecs db)) h) (RSemanticRelation i)
       (enc (mc_relation_payload (md_codecs db)) x)) m"
  have "revs_ok (mc_relation (md_codecs db)) ?m P_RELATIONS P_RELATION_HEADS i lh_revision"
    "current (mc_relation (md_codecs db)) ?m P_RELATIONS P_RELATION_HEADS i = Some h"
    using revs_new [where c = "mc_relation (md_codecs db)" and m = m and m' = ?m and p = P_RELATIONS and hp = P_RELATION_HEADS
        and i = i and rv = lh_revision and y = h] ok head_absent [OF ok new] assms by simp_all
  then show "rec_ok db ?m (RSemanticRelation i)"
    "obs db ?m (RSemanticRelation i) = Some (KRelation (lh_from h) (lh_to h) (lh_kind h) (lh_evidence_ids h), lh_scope h, Active, 1)"
    using assms by (simp_all add: payload_ok_def de_enc)
qed (auto simp: rec_cells_def)

section \<open>Batches of whole records\<close>

lemma evidence_created:
  assumes "insert_evidence_record db h text = Inr ops" "utf8_valid (as_bytes text)" "created db m N D m'"
    "N (REvidence (eh_id h)) = None" "obs db m (REvidence (eh_id h)) = None" "\<And>r. rec_ok db m r"
  shows "created db m (N(REvidence (eh_id h) \<mapsto> (KEvidence h, eh_scope h))) D (apply_ops ops m')"
proof -
  obtain lex where lex: "cells_of lex \<subseteq> aux_cells" and ops: "ops =
      avail_ops P_EVIDENCE P_EVIDENCE_AVAILABILITY P_EVIDENCE_HEADS (eh_id h) (enc (mc_evidence (md_codecs db)) h)
        (enc (mc_evidence_availability (md_codecs db))
           (next_availability (eh_id h) 1 Active (eh_operation_id h) (eh_recorded_at_ms h)))
        (REvidence (eh_id h)) (as_bytes text) @ lex"
    using assms(1) by (auto simp: insert_evidence_record_def Let_def bind_res_eq_Inr encode_enc dest: insert_lexical_cells)
  show ?thesis
    unfolding ops using created_step [OF assms(3-6) creates_aux [OF creates_evidence [OF assms(2) refl] lex]] by simp
qed

lemma claim_created:
  assumes "insert_claim_record db h text = Inr ops" "utf8_valid (as_bytes text)" "created db m N D m'"
    "N (RClaim (ch_id h)) = None" "obs db m (RClaim (ch_id h)) = None" "\<And>r. rec_ok db m r"
    "ch_revision h = 1" "ch_state h = Active"
  shows "created db m (N(RClaim (ch_id h) \<mapsto> (KClaim (ch_domain h) (ch_temporal h) (ch_evidence_ids h), ch_scope h)))
    (D \<union> (\<lambda>j. (REvidence j, RClaim (ch_id h))) ` set (ch_evidence_ids h)) (apply_ops ops m')"
proof -
  obtain lex where lex: "cells_of lex \<subseteq> aux_cells" and ops: "ops =
      header_ops P_CLAIMS P_CLAIM_HEADS (ch_id h) (enc (mc_claim (md_codecs db)) h) (RClaim (ch_id h)) (as_bytes text) @
      dep_ops (map (\<lambda>j. (REvidence j, RClaim (ch_id h))) (ch_evidence_ids h)) @ lex"
    using assms(1) by (auto simp: insert_claim_record_def Let_def bind_res_eq_Inr encode_enc dependency_ops_dep_ops o_def
        dest: insert_lexical_cells)
  show ?thesis
    using created_aux [OF created_deps [OF created_step [OF assms(3,4,5,6) creates_claim [OF assms(2,7,8)]],
        of "map (\<lambda>j. (REvidence j, RClaim (ch_id h))) (ch_evidence_ids h)"] lex]
    unfolding ops apply_ops_append by simp
qed

lemma relation_created:
  assumes "insert_relation_record db h x = Inr ops" "created db m N D m'"
    "N (RSemanticRelation (lh_id h)) = None" "obs db m (RSemanticRelation (lh_id h)) = None" "\<And>r. rec_ok db m r"
    "lh_revision h = 1" "lh_state h = Active"
  shows "created db m
    (N(RSemanticRelation (lh_id h) \<mapsto> (KRelation (lh_from h) (lh_to h) (lh_kind h) (lh_evidence_ids h), lh_scope h)))
    (D \<union> (\<lambda>s. (s, RSemanticRelation (lh_id h))) ` ({lh_from h, lh_to h} \<union> REvidence ` set (lh_evidence_ids h)))
    (apply_ops ops m')"
proof -
  let ?es = "map (\<lambda>s. (s, RSemanticRelation (lh_id h))) (lh_from h # lh_to h # map REvidence (lh_evidence_ids h))"
  have ops: "ops =
      header_ops P_RELATIONS P_RELATION_HEADS (lh_id h) (enc (mc_relation (md_codecs db)) h) (RSemanticRelation (lh_id h))
        (enc (mc_relation_payload (md_codecs db)) x) @ dep_ops ?es"
    using assms(1) by (auto simp: insert_relation_record_def Let_def bind_res_eq_Inr encode_enc dependency_ops_dep_ops)
  have es: "set ?es = (\<lambda>s. (s, RSemanticRelation (lh_id h))) ` ({lh_from h, lh_to h} \<union> REvidence ` set (lh_evidence_ids h))"
    by auto
  show ?thesis
    using created_deps [OF created_step [OF assms(2,3,4,5) creates_relation [OF assms(6,7)]], of ?es]
    unfolding ops apply_ops_append es .
qed

section \<open>Payloads\<close>

lemma aux_payloads: "cells_of ops \<subseteq> aux_cells \<Longrightarrow> apply_ops ops m (part_name P_PAYLOADS) = m (part_name P_PAYLOADS)"
proof
  fix k
  assume "cells_of ops \<subseteq> aux_cells"
  then have "(part_name P_PAYLOADS, k) \<notin> cells_of ops" by (auto simp: record_parts_def)
  then show "apply_ops ops m (part_name P_PAYLOADS) k = m (part_name P_PAYLOADS) k" by (rule apply_ops_frame)
qed

lemma dep_ops_payloads: "apply_ops (dep_ops es) m (part_name P_PAYLOADS) = m (part_name P_PAYLOADS)"
  by (rule ext, rule apply_ops_frame) (auto simp: dep_ops_def cells_of_def)

lemma evidence_payload:
  assumes "insert_evidence_record db h t = Inr ops"
  shows "apply_ops ops m (part_name P_PAYLOADS) = (m (part_name P_PAYLOADS))(payload_key (REvidence (eh_id h)) \<mapsto> as_bytes t)"
proof -
  obtain a b lex where "cells_of lex \<subseteq> aux_cells" "ops =
      avail_ops P_EVIDENCE P_EVIDENCE_AVAILABILITY P_EVIDENCE_HEADS (eh_id h) a b (REvidence (eh_id h)) (as_bytes t) @ lex"
    using assms by (auto simp: insert_evidence_record_def Let_def bind_res_eq_Inr dest: insert_lexical_cells)
  then show ?thesis by (auto simp: apply_ops_append aux_payloads fun_eq_iff)
qed

lemma claim_payload:
  assumes "insert_claim_record db h t = Inr ops"
  shows "apply_ops ops m (part_name P_PAYLOADS) = (m (part_name P_PAYLOADS))(payload_key (RClaim (ch_id h)) \<mapsto> as_bytes t)"
proof -
  obtain a lex es where "cells_of lex \<subseteq> aux_cells" "ops =
      header_ops P_CLAIMS P_CLAIM_HEADS (ch_id h) a (RClaim (ch_id h)) (as_bytes t) @ dep_ops es @ lex"
    using assms by (auto simp: insert_claim_record_def Let_def bind_res_eq_Inr dependency_ops_dep_ops dest: insert_lexical_cells)
  then show ?thesis by (auto simp: apply_ops_append aux_payloads dep_ops_payloads fun_eq_iff)
qed

end

end
