(* ===== verification/Memory_Erase.thy ===== *)
theory Memory_Erase
  imports Memory_Create
begin

text \<open>
  The effect of a purge on the records: the target and its active dependents move on by one
  revision, and the payloads of the target and of all its dependents are gone. Nothing else that
  can be observed of a record changes.
\<close>

section \<open>Losing a payload\<close>

definition payload_cell :: "record_ref \<Rightarrow> string \<times> bytes" where
  "payload_cell r = (part_name P_PAYLOADS, payload_key r)"

lemma without_payload:
  assumes "agree m m' (rec_cells r - {payload_cell r})"
  shows "obs db m' r = obs db m r" and "payload_at m' r = None \<Longrightarrow> rec_ok db m r \<Longrightarrow> rec_ok db m' r"
proof -
  have part: "part_name p \<noteq> part_name P_PAYLOADS" if "p \<noteq> P_PAYLOADS" for p using that by simp
  have a: "m (part_name (heads_part r)) (id_key (rec_id r)) = m' (part_name (heads_part r)) (id_key (rec_id r))"
    "\<And>v. m (part_name (revs_part r)) (revision_key (rec_id r) v) = m' (part_name (revs_part r)) (revision_key (rec_id r) v)"
    "\<And>p. header_part r = Some p \<Longrightarrow> m (part_name p) (id_key (rec_id r)) = m' (part_name p) (id_key (rec_id r))"
    using record_parts_apart(2,3,6) [of r] by (auto intro!: agreeD [OF assms] simp: rec_cells_def payload_cell_def)
  show "obs db m' r = obs db m r"
    using a by (cases r) (simp_all add: obs_avail_def current_def head_of_def stored_at_def)
  show "payload_at m' r = None \<Longrightarrow> rec_ok db m r \<Longrightarrow> rec_ok db m' r"
    using a by (cases r) (simp_all add: text_ok_def payload_ok_def cong: revs_ok_cong header_ok_cong)
qed

lemma remove_record_payload_cells: "cells_of (remove_record_payload r) \<subseteq> {payload_cell r} \<union> aux_cells"
  by (cases r) (auto simp: payload_cell_def)

lemma remove_record_payload_gone: "payload_at (apply_ops (remove_record_payload r) m) r = None"
  by (cases r) simp_all

lemma erase_ops:
  assumes "erase db ks r = Inr er"
  shows "cells_of er \<subseteq> {payload_cell r} \<union> aux_cells" and "payload_at (apply_ops er m) r = None"
proof -
  obtain lex where "remove_lexical_document db ks r = Inr lex" and er: "er = lex @ remove_record_payload r"
    using assms by (auto simp: erase_def bind_res_eq_Inr)
  then show "cells_of er \<subseteq> {payload_cell r} \<union> aux_cells"
    using remove_lexical_cells remove_record_payload_cells by fastforce
  show "payload_at (apply_ops er m) r = None" unfolding er apply_ops_append by (rule remove_record_payload_gone)
qed

text \<open>The batch of one record: perhaps a revision with a new state, and no payload.\<close>

definition revision_after :: "record_state option \<Rightarrow> observation \<Rightarrow> observation" where
  "revision_after x ob = (case x of None \<Rightarrow> ob | Some st \<Rightarrow> (case ob of (k, sc, _, e) \<Rightarrow> (k, sc, st, e + 1)))"

definition overflows :: "record_state option \<Rightarrow> observation \<Rightarrow> bool" where
  "overflows x ob \<longleftrightarrow> x \<noteq> None \<and> (case ob of (_, _, _, e) \<Rightarrow> e = - 1)"

definition purges :: "'ks memory_db \<Rightarrow> kv_view \<Rightarrow> record_ref \<Rightarrow> batch_op list \<Rightarrow> record_state option \<Rightarrow> bool" where
  "purges db m r ops x \<longleftrightarrow>
     cells_of ops \<subseteq> rec_cells r \<union> aux_cells \<and>
     (\<exists>ob. obs db m r = Some ob \<and> \<not> overflows x ob \<and>
       (\<forall>m0. agree m m0 (rec_cells r) \<longrightarrow>
          rec_ok db (apply_ops ops m0) r \<and> payload_at (apply_ops ops m0) r = None \<and>
          obs db (apply_ops ops m0) r = Some (revision_after x ob)))"

lemma erase_agree:
  assumes "erase db ks r = Inr er"
  shows "agree m (apply_ops er m) (rec_cells r - {payload_cell r})"
  using erase_ops(1) [OF assms] aux_rec_disjoint [of r] by (intro agree_apply_ops) blast

lemma purges_append:
  assumes app: "appends db m r ops e st" and er: "erase db ks r = Inr er"
  shows "purges db m r (ops @ er) (Some st)"
proof -
  obtain k sc s0 where o: "obs db m r = Some (k, sc, s0, e)" "e \<noteq> - 1"
    and eff: "\<And>m0. agree m m0 (rec_cells r) \<Longrightarrow> rec_ok db (apply_ops ops m0) r \<and> obs db (apply_ops ops m0) r = Some (k, sc, st, e + 1)"
    using app unfolding appends_def by blast
  have "cells_of (ops @ er) \<subseteq> rec_cells r \<union> aux_cells"
    using app append_cells_subset [of r e] erase_ops(1) [OF er] by (fastforce simp: appends_def payload_cell_def)
  moreover have "rec_ok db (apply_ops (ops @ er) m0) r \<and> payload_at (apply_ops (ops @ er) m0) r = None \<and>
      obs db (apply_ops (ops @ er) m0) r = Some (k, sc, st, e + 1)" if "agree m m0 (rec_cells r)" for m0
    using eff [OF that] erase_ops(2) [OF er, of "apply_ops ops m0"] without_payload [OF erase_agree [OF er, of "apply_ops ops m0"], of db]
    by (simp add: apply_ops_append)
  ultimately show ?thesis unfolding purges_def using o
    by (intro conjI exI [of _ "(k, sc, s0, e)"]) (simp_all add: revision_after_def overflows_def)
qed

lemma purges_erase:
  assumes o: "obs db m r = Some ob" and ok: "rec_ok db m r" and er: "erase db ks r = Inr er"
  shows "purges db m r er None"
proof -
  have "cells_of er \<subseteq> rec_cells r \<union> aux_cells" using erase_ops(1) [OF er] by (auto simp: payload_cell_def)
  moreover have "rec_ok db (apply_ops er m0) r \<and> payload_at (apply_ops er m0) r = None \<and> obs db (apply_ops er m0) r = Some ob"
    if "agree m m0 (rec_cells r)" for m0
    using o ok obs_agree [OF that, of db] rec_ok_agree [OF that, of db] erase_ops(2) [OF er, of m0]
      without_payload [OF erase_agree [OF er, of m0], of db] by simp
  ultimately show ?thesis unfolding purges_def using o
    by (intro conjI exI [of _ ob]) (simp_all add: revision_after_def overflows_def)
qed

section \<open>Purging several records\<close>

definition purging :: "'ks memory_db \<Rightarrow> kv_view \<Rightarrow> (record_ref \<rightharpoonup> record_state option) \<Rightarrow> kv_view \<Rightarrow> bool" where
  "purging db m A m' \<longleftrightarrow>
     deps_of m' = deps_of m \<and>
     (\<forall>r. A r = None \<longrightarrow> agree m m' (rec_cells r)) \<and>
     (\<forall>r x. A r = Some x \<longrightarrow> rec_ok db m' r \<and> payload_at m' r = None \<and>
        (\<exists>ob. obs db m r = Some ob \<and> \<not> overflows x ob \<and> obs db m' r = Some (revision_after x ob)))"

lemma purging_refl: "purging db m Map.empty m"
  by (simp add: purging_def)

lemma purging_step:
  assumes pur: "purging db m A m'" and "A r = None" and ops: "purges db m r ops x"
  shows "purging db m (A(r \<mapsto> x)) (apply_ops ops m')"
proof -
  have cells: "cells_of ops \<subseteq> rec_cells r \<union> aux_cells" using ops by (simp add: purges_def)
  have other: "agree m' (apply_ops ops m') (rec_cells s)" if "s \<noteq> r" for s using other_agree [OF cells that] .
  have "agree m m' (rec_cells r)" using pur \<open>A r = None\<close> by (simp add: purging_def)
  then have "rec_ok db (apply_ops ops m') r \<and> payload_at (apply_ops ops m') r = None \<and>
      (\<exists>ob. obs db m r = Some ob \<and> \<not> overflows x ob \<and> obs db (apply_ops ops m') r = Some (revision_after x ob))"
    using ops unfolding purges_def by blast
  moreover have "obs db (apply_ops ops m') s = obs db m' s" "rec_ok db (apply_ops ops m') s = rec_ok db m' s"
    "payload_at (apply_ops ops m') s = payload_at m' s" if "s \<noteq> r" for s
    using obs_agree [OF other [OF that], of db] rec_ok_agree [OF other [OF that], of db] agree_payload [OF other [OF that]] by simp_all
  moreover have "agree m (apply_ops ops m') (rec_cells s)" if "s \<noteq> r" "A s = None" for s
    using agree_trans [OF _ other [OF that(1)]] pur that(2) by (simp add: purging_def)
  ultimately show ?thesis
    using pur deps_of_frame [OF cells, of m'] by (simp add: purging_def)
qed

lemma purging_aux:
  assumes "purging db m A m'" "cells_of ops \<subseteq> aux_cells"
  shows "purging db m A (apply_ops ops m')"
proof -
  have a: "agree m' (apply_ops ops m') (rec_cells r)" for r using assms(2) by (rule aux_agree)
  have "obs db (apply_ops ops m') r = obs db m' r" "rec_ok db (apply_ops ops m') r = rec_ok db m' r"
    "payload_at (apply_ops ops m') r = payload_at m' r" for r
    using obs_agree [OF a, of db] rec_ok_agree [OF a, of db] agree_payload [OF a] by simp_all
  moreover have "A r = None \<Longrightarrow> agree m (apply_ops ops m') (rec_cells r)" for r
    using assms(1) agree_trans [OF _ a] by (simp add: purging_def)
  moreover have "deps_of (apply_ops ops m') = deps_of m'" using assms(2) by (intro deps_of_frame) blast
  ultimately show ?thesis using assms(1) unfolding purging_def by simp
qed

lemma purging_moved:
  assumes "purging db m A m'"
  shows "moved db m (\<lambda>r. Option.bind (A r) id) m'"
proof -
  have "(rec_ok db m r \<longrightarrow> rec_ok db m' r) \<and> obs db m' r = obs db m r" if "Option.bind (A r) id = None" for r
  proof (cases "A r")
    case None
    then show ?thesis using assms obs_agree [of m m' r db] rec_ok_agree [of m m' r db] by (simp add: purging_def)
  next
    case (Some x)
    then have "x = None" using that by simp
    then show ?thesis using assms Some unfolding purging_def by (fastforce simp: revision_after_def)
  qed
  moreover have "rec_ok db m' r \<and> (\<exists>k sc s0 e. e \<noteq> - 1 \<and> obs db m r = Some (k, sc, s0, e) \<and> obs db m' r = Some (k, sc, st, e + 1))"
    if "Option.bind (A r) id = Some st" for r st
  proof -
    have "A r = Some (Some st)" using that by (cases "A r") auto
    then obtain ob where "rec_ok db m' r" "obs db m r = Some ob" "\<not> overflows (Some st) ob" "obs db m' r = Some (revision_after (Some st) ob)"
      using assms unfolding purging_def by blast
    then show ?thesis by (cases ob) (auto simp: revision_after_def overflows_def)
  qed
  moreover have "payload_at m' r = None" if "payload_at m r = None" for r
    using assms that agree_payload [of m m' r] by (cases "A r") (auto simp: purging_def)
  ultimately show ?thesis using assms unfolding moved_def purging_def by blast
qed

text \<open>What a purge of \<open>t\<close> with the dependents \<open>ds\<close> does to each record.\<close>

definition purge_map :: "'ks memory_db \<Rightarrow> kv_view \<Rightarrow> record_ref \<Rightarrow> purge_dependency list \<Rightarrow> record_ref \<rightharpoonup> record_state option" where
  "purge_map db m t ds r =
     (if r = t then Some (Some Purged)
      else if r \<in> pd_record ` set ds then Some (if active db m r then Some Unsupported else None) else None)"

lemma purge_signals_aux: "purge_signals db ks op now ps = Inr (ops, pins) \<Longrightarrow> cells_of ops \<subseteq> aux_cells"
proof (induction ps arbitrary: ops pins)
  case (Cons p ps)
  obtain a pin b pins' where a: "append_relation_signal_state_revision db ks p Purged op now = Inr (a, pin)"
    and b: "purge_signals db ks op now ps = Inr (b, pins')" and "ops = a @ b"
    using Cons.prems by (auto simp: bind_res_eq_Inr)
  moreover have "cells_of a \<subseteq> aux_cells"
    using a by (auto simp: append_relation_signal_state_revision_def bind_res_eq_Inr Let_def record_parts_def split: if_splits)
  ultimately show ?case using Cons.IH [OF b] by simp
qed simp

lemma preview_contents:
  assumes "build_purge_preview_at db ks t issued expires = Inr p"
  shows "pv_target p = t \<and> pv_issued_at_ms p = issued \<and> pv_expires_at_ms p = expires"
    "purge_dependency_closure db ks t = Inr (pv_invalidations p)"
    "\<exists>sc st. record_scope_state_revision db ks t = Inr (sc, st, pv_expected_revision p) \<and> st \<noteq> Purged"
    "relation_signals_depending_on_records db ks (t # map pd_record (pv_invalidations p)) = Inr (pv_relation_signal_invalidations p)"
  using assms by (auto simp: build_purge_preview_at_def bind_res_eq_Inr Let_def simp del: count_present.simps split: if_splits)

lemma check_preview_current:
  "check_preview db ks now preview = Inr () \<Longrightarrow>
     build_purge_preview_at db ks (pv_target preview) (pv_issued_at_ms preview) (pv_expires_at_ms preview) = Inr preview"
  by (auto simp: check_preview_def bind_res_eq_Inr split: if_splits)

context memory_store
begin

lemma withdraw_purges:
  assumes ok: "rec_ok db (view ks) (pd_record d)" and w: "withdraw db ks op now d = Inr (ops, revs)" and er: "erase db ks (pd_record d) = Inr er"
  shows "purges db (view ks) (pd_record d) (ops @ er) (if active db (view ks) (pd_record d) then Some Unsupported else None)"
    and "map rv_record revs = (if active db (view ks) (pd_record d) then [pd_record d] else [])"
proof -
  obtain sc st where st: "record_scope_state_revision db ks (pd_record d) = Inr (sc, st, pd_expected_revision d)"
    using w by (auto simp: withdraw_def bind_res_eq_Inr split: if_splits)
  then obtain k where o: "obs db (view ks) (pd_record d) = Some (k, sc, st, pd_expected_revision d)"
    unfolding status_view [OF ok] by (auto simp: status_of_def split: option.splits)
  have act: "active db (view ks) (pd_record d) \<longleftrightarrow> st = Active" using o by (auto simp: active_def simp del: obs.simps)
  have "purges db (view ks) (pd_record d) (ops @ er) (if st = Active then Some Unsupported else None) \<and>
      map rv_record revs = (if st = Active then [pd_record d] else [])"
  proof (cases "st = Active")
    case True
    then obtain rv where a: "append_state_revision db ks (pd_record d) (pd_expected_revision d) Unsupported op now = Inr (ops, rv)" "revs = [rv]"
      using w st by (auto simp: withdraw_def bind_res_eq_Inr)
    then show ?thesis using True purges_append [OF append_state_revision_appends(1) [OF ok a(1)] er] append_state_revision_appends(2) [OF ok a(1)] by simp
  next
    case False
    then have "ops = []" "revs = []" using w st by (auto simp: withdraw_def)
    then show ?thesis using False purges_erase [OF o ok er] by simp
  qed
  then show "purges db (view ks) (pd_record d) (ops @ er) (if active db (view ks) (pd_record d) then Some Unsupported else None)"
    "map rv_record revs = (if active db (view ks) (pd_record d) then [pd_record d] else [])"
    unfolding act by simp_all
qed

lemma purge_dependents_purging:
  assumes ok: "\<And>r. rec_ok db (view ks) r" and "purge_dependents db ks op now ds = Inr (ops, revs)"
    "distinct (map pd_record ds)" "purging db (view ks) A m'" "\<And>d. d \<in> set ds \<Longrightarrow> A (pd_record d) = None"
  shows "purging db (view ks)
      (\<lambda>r. if r \<in> pd_record ` set ds then Some (if active db (view ks) r then Some Unsupported else None) else A r) (apply_ops ops m')
    \<and> map rv_record revs = filter (active db (view ks)) (map pd_record ds)"
  using assms(2-)
proof (induction ds arbitrary: ops revs A m')
  case (Cons d ds)
  obtain a rvs er b rvs' where parts: "withdraw db ks op now d = Inr (a, rvs)" "erase db ks (pd_record d) = Inr er"
      "purge_dependents db ks op now ds = Inr (b, rvs')" "ops = (a @ er) @ b" "revs = rvs @ rvs'"
    using Cons.prems(1) by (auto simp: bind_res_eq_Inr)
  let ?x = "if active db (view ks) (pd_record d) then Some Unsupported else None"
  note one = withdraw_purges [OF ok parts(1,2)]
  have step: "purging db (view ks) (A(pd_record d \<mapsto> ?x)) (apply_ops (a @ er) m')"
    using purging_step [OF Cons.prems(3) _ one(1)] Cons.prems(4) by simp
  have "(\<lambda>r. if r \<in> pd_record ` set (d # ds) then Some (if active db (view ks) r then Some Unsupported else None) else A r) =
      (\<lambda>r. if r \<in> pd_record ` set ds then Some (if active db (view ks) r then Some Unsupported else None) else (A(pd_record d \<mapsto> ?x)) r)"
    by (auto simp: fun_eq_iff)
  moreover have "(A(pd_record d \<mapsto> ?x)) (pd_record e) = None" if "e \<in> set ds" for e
    using Cons.prems(2,4) that by (auto simp: image_iff)
  ultimately show ?case
    using Cons.IH [OF parts(3) _ step] Cons.prems(2) one(2) parts(4,5) by (simp add: apply_ops_append)
qed auto

text \<open>What a committed purge has checked, and what its batch does.\<close>

lemma purge_purging:
  assumes inv: "mem_inv db (view ks)" and chk: "check_preview db ks now preview = Inr ()"
    and a: "append_state_revision db ks (pv_target preview) (pv_expected_revision preview) Purged op now' = Inr (a, rv)"
    and er: "erase db ks (pv_target preview) = Inr er"
    and b: "purge_dependents db ks op now' (pv_invalidations preview) = Inr (b, revs)"
  shows "purging db (view ks) (purge_map db (view ks) (pv_target preview) (pv_invalidations preview)) (apply_ops ((a @ er) @ b) (view ks))"
    and "map rv_record revs = filter (active db (view ks)) (map pd_record (pv_invalidations preview))"
    and "sorted_wrt (<) (map pd_record (pv_invalidations preview))"
    and "\<And>d. d \<in> set (pv_invalidations preview) \<longleftrightarrow> (dep (view ks))\<^sup>+\<^sup>+ (pv_target preview) (pd_record d) \<and> pd_record d \<noteq> pv_target preview \<and>
       (\<exists>k sc st. obs db (view ks) (pd_record d) = Some (k, sc, st, pd_expected_revision d) \<and> listed True st)"
proof -
  let ?t = "pv_target preview" and ?ds = "pv_invalidations preview"
  note ok = mem_invD(1) [OF inv]
  have cl: "dependency_closure db ks ?t True = Inr ?ds"
    using preview_contents(2) [OF check_preview_current [OF chk]] by (simp add: purge_dependency_closure_def)
  show srt: "sorted_wrt (<) (map pd_record ?ds)"
    and ds: "d \<in> set ?ds \<longleftrightarrow> (dep (view ks))\<^sup>+\<^sup>+ ?t (pd_record d) \<and> pd_record d \<noteq> ?t \<and>
       (\<exists>k sc st. obs db (view ks) (pd_record d) = Some (k, sc, st, pd_expected_revision d) \<and> listed True st)" for d
    using closure_correct [OF ok mem_invD(2) [OF inv], of ?t True] unfolding cl by (metis sum.inject(2))+
  have dist: "distinct (map pd_record ?ds)" using srt by (metis strict_sorted_iff)
  have "purging db (view ks) [?t \<mapsto> Some Purged] (apply_ops (a @ er) (view ks))"
    using purging_step [OF purging_refl _ purges_append [OF append_state_revision_appends(1) [OF ok a] er]] by simp
  then have "purging db (view ks)
      (\<lambda>r. if r \<in> pd_record ` set ?ds then Some (if active db (view ks) r then Some Unsupported else None) else [?t \<mapsto> Some Purged] r)
      (apply_ops b (apply_ops (a @ er) (view ks)))
    \<and> map rv_record revs = filter (active db (view ks)) (map pd_record ?ds)"
    by (rule purge_dependents_purging [OF ok b dist]) (simp add: ds)
  moreover have "(\<lambda>r. if r \<in> pd_record ` set ?ds then Some (if active db (view ks) r then Some Unsupported else None) else [?t \<mapsto> Some Purged] r) =
     purge_map db (view ks) ?t ?ds"
    using ds by (auto simp: fun_eq_iff purge_map_def)
  ultimately show "purging db (view ks) (purge_map db (view ks) ?t ?ds) (apply_ops ((a @ er) @ b) (view ks))"
    "map rv_record revs = filter (active db (view ks)) (map pd_record ?ds)"
    by (simp_all add: apply_ops_append)
qed

end

end
