(* ===== verification/Memory_Runs.thy ===== *)
theory Memory_Runs
  imports Memory_Erase
begin

text \<open>
  Every mutation keeps the invariant of the store and only adds to it: records keep their content
  and scope, revisions only grow, dependencies stay. Each lemma reads off from the prepared batch
  what it writes and checks the two conditions of the invariant, sound content of new records and
  dependencies that lead from active records. Identifiers must be new; texts must be valid UTF-8,
  as strings of the program are.
\<close>

section \<open>Batches that keep the invariant\<close>

definition keeps :: "'ks memory_db \<Rightarrow> kv_view \<Rightarrow> batch_op list \<Rightarrow> bool" where
  "keeps db m ops \<longleftrightarrow> mem_inv db (apply_ops ops m) \<and> extends db m (apply_ops ops m)"

text \<open>
  The identifiers of a call are distinct and not in use. No call draws more than a full batch of
  passages does: two for each passage and one for the audit event.
\<close>

definition MAX_IDS :: nat where
  "MAX_IDS = 2 * MAX_ARTIFACT_PASSAGE_BATCH"

definition fresh_env :: "'ks memory_db \<Rightarrow> env \<Rightarrow> 'ks \<Rightarrow> bool" where
  "fresh_env db env ks \<longleftrightarrow>
     inj_on (env_ids env) {..MAX_IDS} \<and>
     (\<forall>n \<le> MAX_IDS. \<forall>r. rec_id r = env_ids env n \<longrightarrow> record_scope_state_revision db ks r = Inl (MNotFound r))"

lemma few_ids [simp]: "0 \<le> MAX_IDS" "1 \<le> MAX_IDS" "2 \<le> MAX_IDS"
  by (simp_all add: MAX_IDS_def MAX_ARTIFACT_PASSAGE_BATCH_def)

lemma ok_or_eq_Inr: "ok_or e x = Inr y \<longleftrightarrow> x = Some y"
  by (cases x) auto

lemma finish_ops:
  assumes "finish db vc operation digest receipt audit batch = Inr (Write ops r)"
  obtains ax where "cells_of ax \<subseteq> aux_cells" "ops = batch @ ax" "r = receipt"
proof -
  obtain a b where "insert_audit db audit = Inr a" "insert_operation db vc (oc_id operation) digest receipt = Inr b"
    "ops = batch @ a @ b" "r = receipt"
    using assms by (auto simp: finish_def bind_res_eq_Inr)
  then show ?thesis using that [of "a @ b"]
    by (auto simp: insert_audit_def insert_operation_def bind_res_eq_Inr)
qed

lemma unless_replayed_Write:
  "unless_replayed db ks vc operation digest body = Inr (Write ops r) \<Longrightarrow> body = Inr (Write ops r)"
  by (auto simp: unless_replayed_def bind_res_eq_Inr split: option.splits)

lemma validate_text_utf8: "validate_text t field = Inr t' \<Longrightarrow> utf8_valid (as_bytes t) \<Longrightarrow> utf8_valid (as_bytes t')"
  by (auto simp: validate_text_def Let_def utf8_trim split: if_splits)

lemma validate_exact_text:
  "validate_exact_evidence_text t field = Inr t' \<Longrightarrow> t' = t"
  "validate_exact_bounded_text t field n = Inr t' \<Longrightarrow> t' = t"
  by (auto simp: validate_exact_evidence_text_def validate_exact_bounded_text_def split: if_splits)

definition supports :: "'ks memory_db \<Rightarrow> kv_view \<Rightarrow> record_ref \<Rightarrow> record_ref \<Rightarrow> bool" where
  "supports db m s d \<longleftrightarrow> active db m s \<or> (obs db m s \<noteq> None \<and> records_supersession db m s d)"

lemma new_header_simps [simp]:
  "eh_id (new_evidence_header i c a sc t l now op) = i" "eh_scope (new_evidence_header i c a sc t l now op) = sc"
  "eh_class (new_evidence_header i c a sc t l now op) = c"
  "ch_id (new_claim_header i d sc t ids now op) = i" "ch_scope (new_claim_header i d sc t ids now op) = sc"
  "ch_domain (new_claim_header i d sc t ids now op) = d" "ch_temporal (new_claim_header i d sc t ids now op) = t"
  "ch_evidence_ids (new_claim_header i d sc t ids now op) = ids" "ch_revision (new_claim_header i d sc t ids now op) = 1"
  "ch_state (new_claim_header i d sc t ids now op) = Active"
  "lh_id (new_relation_header i f t' k sc ids now op) = i" "lh_scope (new_relation_header i f t' k sc ids now op) = sc"
  "lh_from (new_relation_header i f t' k sc ids now op) = f" "lh_to (new_relation_header i f t' k sc ids now op) = t'"
  "lh_kind (new_relation_header i f t' k sc ids now op) = k" "lh_evidence_ids (new_relation_header i f t' k sc ids now op) = ids"
  "lh_revision (new_relation_header i f t' k sc ids now op) = 1" "lh_state (new_relation_header i f t' k sc ids now op) = Active"
  by (simp_all add: new_evidence_header_def new_claim_header_def new_relation_header_def)

lemma created_keeps:
  assumes "mem_inv db m" "created db m N D (apply_ops ops m)"
    and "\<And>r k sc. N r = Some (k, sc) \<Longrightarrow> content_ok db (apply_ops ops m) r sc k"
    and "\<And>s d. (s, d) \<in> D \<Longrightarrow> N d \<noteq> None \<and> supports db (apply_ops ops m) s d"
  shows "keeps db m ops"
  unfolding keeps_def
proof
  have edge: "N d \<noteq> None \<and> obs db (apply_ops ops m) s \<noteq> None \<and>
      (active db (apply_ops ops m) s \<or> records_supersession db (apply_ops ops m) s d)" if "(s, d) \<in> D" for s d
    using assms(4) [OF that] by (auto simp: supports_def active_def)
  show "mem_inv db (apply_ops ops m)" by (rule created_inv [OF assms(1-3) edge])
qed (rule created_extends [OF assms(2)])

lemma created_active_new: "created db m N D m' \<Longrightarrow> N r \<noteq> None \<Longrightarrow> active db m' r"
  using created_obs(2) [of db m N D m' r] by (auto simp: active_def)

lemma created_active_old: "created db m N D m' \<Longrightarrow> active db m r \<Longrightarrow> active db m' r"
  using created_obs [of db m N D m' r] by (cases "N r") (auto simp: active_def)

lemma created_cited_new:
  "created db m N D m' \<Longrightarrow> N (REvidence i) = Some (KEvidence h, sc) \<Longrightarrow> ok (eh_class h) \<Longrightarrow> cited db m' sc ok i"
  using created_obs(2) [of db m N D m' "REvidence i"] by (auto simp: cited_def)

text \<open>Taking a record down together with the active records that depend on it.\<close>

definition taken_down :: "'ks memory_db \<Rightarrow> kv_view \<Rightarrow> record_ref \<Rightarrow> record_state \<Rightarrow> record_ref \<rightharpoonup> record_state" where
  "taken_down db m t st r =
     (if r = t then Some st else if (dep m)\<^sup>+\<^sup>+ t r \<and> active db m r then Some Unsupported else None)"

lemma taken_down_downward: "st \<noteq> Active \<Longrightarrow> downward db m (taken_down db m t st)"
  unfolding downward_def taken_down_def by (auto intro: tranclp.r_into_trancl tranclp.trancl_into_trancl)

text \<open>The record a new relation adds.\<close>

definition related :: "ulid \<Rightarrow> new_relation \<Rightarrow> record_ref \<rightharpoonup> rec_content \<times> scope" where
  "related l inp = [RSemanticRelation l \<mapsto> (KRelation (nl_from inp) (nl_to inp) (nl_kind inp) (nl_evidence_ids inp), nl_scope inp)]"

text \<open>
  New artifacts come with their evidence and depend on each other and on an active parent.
\<close>

definition artifact_new :: "record_ref \<Rightarrow> (record_ref \<rightharpoonup> rec_content \<times> scope) \<Rightarrow> (record_ref \<times> record_ref) set \<Rightarrow> bool" where
  "artifact_new parent N D \<longleftrightarrow>
     (\<forall>r k sc. N r = Some (k, sc) \<longrightarrow> k = KOther \<or> (\<exists>h. k = KEvidence h \<and> eh_scope h = sc)) \<and>
     (\<forall>s d. (s, d) \<in> D \<longrightarrow> N d \<noteq> None \<and> (N s \<noteq> None \<or> s = parent))"

lemma artifact_keeps:
  assumes inv: "mem_inv db m" and cr: "created db m N D (apply_ops ops m)" and new: "artifact_new parent N D"
    and parent: "active db m parent"
  shows "keeps db m ops"
proof (rule created_keeps [OF inv cr])
  show "content_ok db (apply_ops ops m) r sc k" if "N r = Some (k, sc)" for r k sc
  proof -
    have "k = KOther \<or> (\<exists>h. k = KEvidence h \<and> eh_scope h = sc)" using new that unfolding artifact_new_def by blast
    then show ?thesis by auto
  qed
  show "N d \<noteq> None \<and> supports db (apply_ops ops m) s d" if "(s, d) \<in> D" for s d
  proof -
    have *: "N d \<noteq> None" "N s \<noteq> None \<or> s = parent" using new that by (simp_all add: artifact_new_def)
    from *(2) have "active db (apply_ops ops m) s"
    proof
      assume "s = parent"
      then show ?thesis using created_active_old [OF cr parent] by simp
    qed (rule created_active_new [OF cr])
    then show ?thesis using *(1) by (simp add: supports_def)
  qed
qed

lemma artifact_new_step:
  assumes "artifact_new parent N D" "k = KOther" "eh_scope h = sc"
  shows "artifact_new parent (N(r \<mapsto> (k, sc), e \<mapsto> (KEvidence h, sc))) (D \<union> {(r, e), (e, r)} \<union> {(parent, r)})"
  using assms unfolding artifact_new_def by (auto split: if_splits)

context memory_store
begin

lemma fresh_obs:
  assumes "fresh_env db env ks" "rec_ok db (view ks) r" "rec_id r = env_ids env n" "n \<le> MAX_IDS"
  shows "obs db (view ks) r = None"
  using assms status_view [OF assms(2)] by (auto simp: fresh_env_def status_of_def split: option.splits prod.splits)

lemma run_mutation_view:
  assumes "mem_inv db (view ks)" "\<And>ops r. p = Inr (Write ops r) \<Longrightarrow> keeps db (view ks) ops"
  shows "mem_inv db (view (snd (run_mutation db ks p)))" "extends db (view ks) (view (snd (run_mutation db ks p)))"
  using assms
  by (auto simp: keeps_def run_mutation_def bind_st_def lift_err_def commit_ok commit_view split_def split: sum.splits prepared.splits)

lemma status_active:
  assumes "rec_ok db (view ks) r" "record_scope_state_revision db ks r = Inr (sc, Active, v)"
  shows "active db (view ks) r"
  using assms(2) status_view [OF assms(1)] by (auto simp: status_of_def active_def split: option.splits)

lemma capture_keeps:
  assumes inv: "mem_inv db (view ks)" and fresh: "fresh_env db env ks" and utf8: "utf8_valid (as_bytes (ne_text input))"
    and p: "prepare_capture db env ks operation input = Inr (Write ops r)"
  shows "keeps db (view ks) ops"
proof -
  let ?h = "new_evidence_header (env_ids env 0) (ne_class input) (oc_actor operation) (ne_scope input) (ne_temporal input)
    (lifecycle_truth db (ne_lifecycle input)) (env_now env 0) (oc_id operation)"
  obtain ev ax where ev: "insert_evidence_record db ?h (ne_text input) = Inr ev"
    and ax: "cells_of ax \<subseteq> aux_cells" "ops = ev @ ax"
    using p by (auto simp: prepare_capture_def bind_res_eq_Inr Let_def dest!: unless_replayed_Write
        validate_exact_text(1) elim!: finish_ops)
  have new: "obs db (view ks) (REvidence (env_ids env 0)) = None"
    by (rule fresh_obs [OF fresh mem_invD(1) [OF inv] rec_id.simps(1) few_ids(1)])
  have cr: "created db (view ks) [REvidence (env_ids env 0) \<mapsto> (KEvidence ?h, ne_scope input)] {} (apply_ops ops (view ks))"
    using created_aux [OF evidence_created [OF ev utf8 created_refl _ _ mem_invD(1) [OF inv]] ax(1)] new ax(2)
    by (simp add: apply_ops_append)
  show ?thesis by (rule created_keeps [OF inv cr]) (auto split: if_splits)
qed

lemma inspect_evidence_obs:
  assumes "rec_ok db (view ks) (REvidence i)"
  shows "inspect_evidence db ks i = Inr (Some e) \<Longrightarrow>
      obs db (view ks) (REvidence i) =
        Some (KEvidence (er_header e), eh_scope (er_header e), av_state (er_availability e), av_revision (er_availability e))"
    and "obs db (view ks) (REvidence i) = Some (KEvidence h, sc, st, v) \<Longrightarrow>
      \<exists>e. inspect_evidence db ks i = Inr (Some e) \<and> er_header e = h \<and> av_state (er_availability e) = st \<and>
        av_revision (er_availability e) = v"
  using inspect_evidence_view [OF assms] by (auto simp: obs_avail_def bind_eq_Some_conv)

lemma remember_created:
  assumes inv: "mem_inv db (view ks)" and fresh: "fresh_env db env ks"
    and utf8: "utf8_valid (as_bytes (rm_evidence_text input))" "utf8_valid (as_bytes (rm_proposition input))"
    and p: "prepare_remember db env ks operation input = Inr (Write ops r)"
  obtains et pt where "validate_text (rm_evidence_text input) ''evidence text'' = Inr et"
    "validate_text (rm_proposition input) ''claim proposition'' = Inr pt" "source_is_admissible UserAssertion (rm_domain input)"
    "created db (view ks)
      [REvidence (env_ids env 0) \<mapsto> (KEvidence (new_evidence_header (env_ids env 0) UserAssertion User (rm_scope input)
         (rm_temporal input) DirectTruth (env_now env 0) (oc_id operation)), rm_scope input),
       RClaim (env_ids env 1) \<mapsto> (KClaim (rm_domain input) (rm_temporal input) [env_ids env 0], rm_scope input)]
      {(REvidence (env_ids env 0), RClaim (env_ids env 1))} (apply_ops ops (view ks))"
    "apply_ops ops (view ks) (part_name P_PAYLOADS) (payload_key (REvidence (env_ids env 0))) = Some (as_bytes et)"
    "apply_ops ops (view ks) (part_name P_PAYLOADS) (payload_key (RClaim (env_ids env 1))) = Some (as_bytes pt)"
proof -
  let ?e = "env_ids env 0" and ?c = "env_ids env 1" and ?sc = "rm_scope input"
  let ?h = "new_evidence_header ?e UserAssertion User ?sc (rm_temporal input) DirectTruth (env_now env 0) (oc_id operation)"
  let ?g = "new_claim_header ?c (rm_domain input) ?sc (rm_temporal input) [?e] (env_now env 0) (oc_id operation)"
  obtain et pt ev cl ax where t: "validate_text (rm_evidence_text input) ''evidence text'' = Inr et"
      "validate_text (rm_proposition input) ''claim proposition'' = Inr pt"
    and adm: "source_is_admissible UserAssertion (rm_domain input)"
    and ev: "insert_evidence_record db ?h et = Inr ev" and cl: "insert_claim_record db ?g pt = Inr cl"
    and ax: "cells_of ax \<subseteq> aux_cells" "ops = (ev @ cl) @ ax"
    using p by (auto simp: prepare_remember_def bind_res_eq_Inr Let_def split: if_splits dest!: unless_replayed_Write elim!: finish_ops)
  note ok = mem_invD(1) [OF inv]
  have new: "obs db (view ks) (REvidence ?e) = None" "obs db (view ks) (RClaim ?c) = None"
    by (rule fresh_obs [OF fresh ok rec_id.simps(1) few_ids(1)], rule fresh_obs [OF fresh ok rec_id.simps(2) few_ids(2)])
  note cr1 = evidence_created [OF ev validate_text_utf8 [OF t(1) utf8(1)] created_refl _ _ ok]
  have "created db (view ks) [REvidence ?e \<mapsto> (KEvidence ?h, ?sc), RClaim ?c \<mapsto> (KClaim (rm_domain input) (rm_temporal input) [?e], ?sc)]
      {(REvidence ?e, RClaim ?c)} (apply_ops ops (view ks))"
    using created_aux [OF claim_created [OF cl validate_text_utf8 [OF t(2) utf8(2)] cr1 _ _ ok] ax(1)] new ax(2)
    by (simp add: apply_ops_append)
  moreover have "apply_ops ops (view ks) (part_name P_PAYLOADS) (payload_key (REvidence ?e)) = Some (as_bytes et)"
    "apply_ops ops (view ks) (part_name P_PAYLOADS) (payload_key (RClaim ?c)) = Some (as_bytes pt)"
    unfolding ax(2) apply_ops_append aux_payloads [OF ax(1)] claim_payload [OF cl] evidence_payload [OF ev] by simp_all
  ultimately show ?thesis using that t adm by blast
qed

lemma remember_keeps:
  assumes inv: "mem_inv db (view ks)" and fresh: "fresh_env db env ks"
    and utf8: "utf8_valid (as_bytes (rm_evidence_text input))" "utf8_valid (as_bytes (rm_proposition input))"
    and p: "prepare_remember db env ks operation input = Inr (Write ops r)"
  shows "keeps db (view ks) ops"
proof (rule remember_created [OF assms])
  let ?e = "env_ids env 0" and ?c = "env_ids env 1" and ?sc = "rm_scope input"
  let ?h = "new_evidence_header ?e UserAssertion User ?sc (rm_temporal input) DirectTruth (env_now env 0) (oc_id operation)"
  let ?N = "[REvidence ?e \<mapsto> (KEvidence ?h, ?sc), RClaim ?c \<mapsto> (KClaim (rm_domain input) (rm_temporal input) [?e], ?sc)]"
  assume adm: "source_is_admissible UserAssertion (rm_domain input)"
    and cr: "created db (view ks) ?N {(REvidence ?e, RClaim ?c)} (apply_ops ops (view ks))"
  show ?thesis
  proof (rule created_keeps [OF inv cr])
    have "cited db (apply_ops ops (view ks)) ?sc (\<lambda>c. source_is_admissible c (rm_domain input)) ?e"
      using adm by (intro created_cited_new [OF cr, where h = ?h]) simp_all
    then show "content_ok db (apply_ops ops (view ks)) r sc k" if "?N r = Some (k, sc)" for r k sc
      using that created_dep [OF cr] by (auto simp: cites_def split: if_splits)
    have "active db (apply_ops ops (view ks)) (REvidence ?e)" by (rule created_active_new [OF cr]) simp
    then show "?N d \<noteq> None \<and> supports db (apply_ops ops (view ks)) s d" if "(s, d) \<in> {(REvidence ?e, RClaim ?c)}" for s d
      using that by (auto simp: supports_def)
  qed
qed

lemma claim_sources_cited:
  assumes inv: "mem_inv db (view ks)"
  shows "claim_sources db ks sc domain ids = Inr cs \<Longrightarrow> i \<in> set ids \<Longrightarrow>
    active db (view ks) (REvidence i) \<and> cited db (view ks) sc (\<lambda>c. source_is_admissible c domain) i"
proof (induction ids arbitrary: cs)
  case (Cons j ids)
  obtain e where e: "inspect_evidence db ks j = Inr (Some e)" "av_state (er_availability e) = Active"
      "eh_scope (er_header e) = sc" "source_is_admissible (eh_class (er_header e)) domain"
    and rest: "\<exists>cs. claim_sources db ks sc domain ids = Inr cs"
    using Cons.prems(1) by (auto simp: bind_res_eq_Inr ok_or_eq_Inr split: if_splits)
  have "active db (view ks) (REvidence j) \<and> cited db (view ks) sc (\<lambda>c. source_is_admissible c domain) j"
    using inspect_evidence_obs(1) [OF mem_invD(1) [OF inv] e(1)] e by (auto simp: active_def cited_def)
  then show ?case using Cons.IH Cons.prems(2) rest by auto
qed simp

lemma relation_sources_cited:
  assumes inv: "mem_inv db (view ks)"
  shows "relation_sources db ks sc ids = Inr cs \<Longrightarrow> i \<in> set ids \<Longrightarrow>
    active db (view ks) (REvidence i) \<and> cited db (view ks) sc (\<lambda>_. True) i"
proof (induction ids arbitrary: cs)
  case (Cons j ids)
  obtain e where e: "inspect_evidence db ks j = Inr (Some e)" "av_state (er_availability e) = Active"
      "eh_scope (er_header e) = sc"
    and rest: "\<exists>cs. relation_sources db ks sc ids = Inr cs"
    using Cons.prems(1) by (auto simp: bind_res_eq_Inr ok_or_eq_Inr split: if_splits)
  have "active db (view ks) (REvidence j) \<and> cited db (view ks) sc (\<lambda>_. True) j"
    using inspect_evidence_obs(1) [OF mem_invD(1) [OF inv] e(1)] e by (auto simp: active_def cited_def)
  then show ?case using Cons.IH Cons.prems(2) rest by auto
qed simp

lemma set_sort_dedup [simp]: "set (sort_dedup xs) = set xs"
  by (simp add: sort_dedup_def)

lemma claim_keeps:
  assumes inv: "mem_inv db (view ks)" and fresh: "fresh_env db env ks" and utf8: "utf8_valid (as_bytes (nc_proposition input))"
    and p: "prepare_claim db env ks operation input = Inr (Write ops r)"
  shows "keeps db (view ks) ops"
proof -
  let ?c = "env_ids env 0" and ?sc = "nc_scope input" and ?ids = "sort_dedup (nc_evidence_ids input)"
  let ?g = "new_claim_header ?c (nc_domain input) ?sc (nc_temporal input) ?ids (env_now env 0) (oc_id operation)"
  obtain pt cs cl ax where t: "validate_text (nc_proposition input) ''claim proposition'' = Inr pt"
    and ne: "?ids \<noteq> []" and src: "claim_sources db ks ?sc (nc_domain input) ?ids = Inr cs"
    and cl: "insert_claim_record db ?g pt = Inr cl" and ax: "cells_of ax \<subseteq> aux_cells" "ops = cl @ ax"
    using p by (auto simp: prepare_claim_def check_sources_def bind_res_eq_Inr Let_def split: if_splits
        dest!: unless_replayed_Write elim!: finish_ops)
  note ok = mem_invD(1) [OF inv] and cited = claim_sources_cited [OF inv src]
  have new: "obs db (view ks) (RClaim ?c) = None" by (rule fresh_obs [OF fresh ok rec_id.simps(2) few_ids(1)])
  let ?N = "[RClaim ?c \<mapsto> (KClaim (nc_domain input) (nc_temporal input) ?ids, ?sc)]"
  let ?D = "(\<lambda>j. (REvidence j, RClaim ?c)) ` set ?ids"
  have cr: "created db (view ks) ?N ?D (apply_ops ops (view ks))"
    using created_aux [OF claim_created [OF cl validate_text_utf8 [OF t utf8] created_refl _ _ ok] ax(1)] new ax(2)
    by (simp add: apply_ops_append)
  show ?thesis
  proof (rule created_keeps [OF inv cr])
    show "content_ok db (apply_ops ops (view ks)) r sc k" if "?N r = Some (k, sc)" for r k sc
      using that ne cited cited_extends [OF created_extends [OF cr]] created_dep [OF cr] by (auto simp: cites_def split: if_splits)
    show "?N d \<noteq> None \<and> supports db (apply_ops ops (view ks)) s d"
      if "(s, d) \<in> ?D" for s d
      using that cited created_active_old [OF cr] by (auto simp: supports_def)
  qed
qed

lemma check_endpoint_active:
  assumes "mem_inv db (view ks)" "check_endpoint db ks sc r = Inr ()"
  shows "active db (view ks) r" "endpoint db (view ks) sc r"
  using assms(2) status_view [OF mem_invD(1) [OF assms(1)], of r]
  by (auto simp: check_endpoint_def bind_res_eq_Inr status_of_def active_def endpoint_def split: if_splits option.splits)

lemma checked_joins:
  assumes "check_relation_input operation input = Inr inp"
  shows "joins (nl_kind inp) (nl_from inp) (nl_to inp)"
proof -
  have "\<exists>q ids. inp = input\<lparr>nl_qualifier := q, nl_evidence_ids := ids\<rparr>" "joins (nl_kind input) (nl_from input) (nl_to input)"
    using assms by (auto simp: check_relation_input_def bind_res_eq_Inr ok_or_eq_Inr validate_relation_endpoint_kinds_def
        joins_def Let_def split: if_splits)
  then show ?thesis by auto
qed

lemma relation_adds:
  assumes inv: "mem_inv db (view ks)" and fresh: "fresh_env db env ks"
    and p: "prepare_relation db env ks operation input = Inr (Write ops r)"
  obtains inp cs where "check_relation_input operation input = Inr inp"
    "check_endpoint db ks (nl_scope inp) (nl_from inp) = Inr ()" "check_endpoint db ks (nl_scope inp) (nl_to inp) = Inr ()"
    "relation_sources db ks (nl_scope inp) (nl_evidence_ids inp) = Inr cs"
    "created db (view ks) (related (env_ids env 0) inp)
       ((\<lambda>s. (s, RSemanticRelation (env_ids env 0))) ` ({nl_from inp, nl_to inp} \<union> REvidence ` set (nl_evidence_ids inp)))
       (apply_ops ops (view ks))"
proof -
  obtain inp where chk: "check_relation_input operation input = Inr inp" using p by (auto simp: prepare_relation_def bind_res_eq_Inr)
  let ?l = "env_ids env 0" and ?sc = "nl_scope inp" and ?ids = "nl_evidence_ids inp"
  let ?g = "new_relation_header ?l (nl_from inp) (nl_to inp) (nl_kind inp) ?sc ?ids (env_now env 0) (oc_id operation)"
  obtain cs rel ax where ends: "check_endpoint db ks ?sc (nl_from inp) = Inr ()" "check_endpoint db ks ?sc (nl_to inp) = Inr ()"
    and src: "relation_sources db ks ?sc ?ids = Inr cs"
    and rel: "insert_relation_record db ?g \<lparr>lp_qualifier = nl_qualifier inp\<rparr> = Inr rel"
    and ax: "cells_of ax \<subseteq> aux_cells" "ops = rel @ ax"
    using p chk by (auto simp: prepare_relation_def bind_res_eq_Inr Let_def dest!: unless_replayed_Write elim!: finish_ops)
  note ok = mem_invD(1) [OF inv]
  have new: "obs db (view ks) (RSemanticRelation ?l) = None" by (rule fresh_obs [OF fresh ok rec_id.simps(4) few_ids(1)])
  have "created db (view ks) (related ?l inp)
      ((\<lambda>s. (s, RSemanticRelation ?l)) ` ({nl_from inp, nl_to inp} \<union> REvidence ` set ?ids)) (apply_ops ops (view ks))"
    using created_aux [OF relation_created [OF rel created_refl _ _ ok] ax(1)] new ax(2) by (simp add: apply_ops_append related_def)
  then show ?thesis by (rule that [OF chk ends src])
qed

lemma relation_keeps:
  assumes inv: "mem_inv db (view ks)" and fresh: "fresh_env db env ks"
    and p: "prepare_relation db env ks operation input = Inr (Write ops r)"
  shows "keeps db (view ks) ops"
proof (rule relation_adds [OF assms])
  fix inp cs
  let ?l = "env_ids env 0" and ?ids = "nl_evidence_ids inp" and ?N = "related (env_ids env 0) inp"
  let ?D = "(\<lambda>s. (s, RSemanticRelation ?l)) ` ({nl_from inp, nl_to inp} \<union> REvidence ` set ?ids)"
  assume chk: "check_relation_input operation input = Inr inp"
    and ends: "check_endpoint db ks (nl_scope inp) (nl_from inp) = Inr ()" "check_endpoint db ks (nl_scope inp) (nl_to inp) = Inr ()"
    and src: "relation_sources db ks (nl_scope inp) ?ids = Inr cs"
    and cr: "created db (view ks) ?N ?D (apply_ops ops (view ks))"
  have ne: "?ids \<noteq> []"
    using chk by (auto simp: check_relation_input_def check_sources_def bind_res_eq_Inr Let_def split: if_splits)
  note cited = relation_sources_cited [OF inv src] and kinds = checked_joins [OF chk]
    and act = check_endpoint_active [OF inv ends(1)] check_endpoint_active [OF inv ends(2)]
  show ?thesis
  proof (rule created_keeps [OF inv cr])
    show "content_ok db (apply_ops ops (view ks)) r sc k" if "?N r = Some (k, sc)" for r k sc
      using that ne kinds cited act(2,4) cited_extends [OF created_extends [OF cr]] endpoint_extends [OF created_extends [OF cr]]
        created_dep [OF cr] by (auto simp: related_def cites_def split: if_splits)
    show "?N d \<noteq> None \<and> supports db (apply_ops ops (view ks)) s d"
      if "(s, d) \<in> ?D" for s d
    proof -
      have "d = RSemanticRelation ?l" "active db (view ks) s" using that cited act(1,3) by auto
      then show ?thesis using created_active_old [OF cr] by (simp add: supports_def related_def)
    qed
  qed
qed

lemma takedown:
  assumes inv: "mem_inv db (view ks)"
    and cl: "active_dependency_closure db ks t = Inr ds"
    and a: "invalidate db ks st op now \<lparr>pd_record = t, pd_expected_revision = e\<rparr> = Inr (a, rv)"
    and b: "invalidate_all db ks op now ds = Inr (b, revs)"
  shows "revised db (view ks) (taken_down db (view ks) t st) (apply_ops (a @ b) (view ks))"
    and "sorted_wrt (<) (map rv_record revs)"
    and "set (map rv_record revs) = {r. r \<noteq> t \<and> (dep (view ks))\<^sup>+\<^sup>+ t r \<and> active db (view ks) r}"
proof -
  note ok = mem_invD(1) [OF inv]
  obtain ds' where ds': "dependency_closure db ks t False = Inr ds'" "sorted_wrt (<) (map pd_record ds')"
    "\<And>d. d \<in> set ds' \<longleftrightarrow> (dep (view ks))\<^sup>+\<^sup>+ t (pd_record d) \<and> pd_record d \<noteq> t \<and>
       (\<exists>k sc st. obs db (view ks) (pd_record d) = Some (k, sc, st, pd_expected_revision d) \<and> listed False st)"
    using closure_correct [OF ok mem_invD(2) [OF inv]] by blast
  have ds: "ds' = ds" using ds'(1) cl by (simp add: active_dependency_closure_def)
  have mem: "r \<in> pd_record ` set ds \<longleftrightarrow> r \<noteq> t \<and> (dep (view ks))\<^sup>+\<^sup>+ t r \<and> active db (view ks) r" for r
  proof
    assume "r \<noteq> t \<and> (dep (view ks))\<^sup>+\<^sup>+ t r \<and> active db (view ks) r"
    moreover from this obtain k sc v where "obs db (view ks) r = Some (k, sc, Active, v)" by (auto simp: active_def)
    ultimately have "\<lparr>pd_record = r, pd_expected_revision = v\<rparr> \<in> set ds" using ds'(3) ds by (simp add: listed_def)
    then show "r \<in> pd_record ` set ds" by (rule rev_image_eqI) simp
  qed (use ds'(3) ds in \<open>auto simp: listed_def active_def\<close>)
  have T: "taken_down db (view ks) t st = (\<lambda>r. if r \<in> pd_record ` set ds then Some Unsupported else [t \<mapsto> st] r)"
    by (rule ext) (auto simp: taken_down_def mem)
  have rt: "revised db (view ks) [t \<mapsto> st] (apply_ops a (view ks))"
    using revised_step [OF revised_refl _ invalidate_appends(1) [OF ok a]] by simp
  have dist: "distinct (map pd_record ds)" using ds'(2) ds by (simp add: strict_sorted_iff)
  have "[t \<mapsto> st] (pd_record d) = None" if "d \<in> set ds" for d using mem [of "pd_record d"] that by simp
  note all = invalidate_all_revised [OF ok b dist rt this]
  show "revised db (view ks) (taken_down db (view ks) t st) (apply_ops (a @ b) (view ks))"
    unfolding apply_ops_append T using all by blast
  have revs: "map rv_record revs = map pd_record ds" using all by (simp add: o_def)
  show "sorted_wrt (<) (map rv_record revs)" using ds'(2) ds unfolding revs by simp
  show "set (map rv_record revs) = {r. r \<noteq> t \<and> (dep (view ks))\<^sup>+\<^sup>+ t r \<and> active db (view ks) r}"
    unfolding revs set_map using mem by blast
qed

lemma revised_aux:
  assumes "revised db m T m'" "cells_of ops \<subseteq> aux_cells"
  shows "revised db m T (apply_ops ops m')"
proof -
  have a: "agree m' (apply_ops ops m') (rec_cells r)" for r using assms(2) by (rule aux_agree)
  have "obs db (apply_ops ops m') r = obs db m' r" "rec_ok db (apply_ops ops m') r = rec_ok db m' r" for r
    using obs_agree [OF a, of db] rec_ok_agree [OF a, of db] by simp_all
  moreover have "T r = None \<Longrightarrow> agree m (apply_ops ops m') (rec_cells r)" for r
    using assms(1) agree_trans [OF _ a] by (simp add: revised_def)
  moreover have "deps_of (apply_ops ops m') = deps_of m'" using assms(2) by (intro deps_of_frame) blast
  moreover have "payload_at (apply_ops ops m') r = payload_at m' r" for r using agree_payload [OF a] by simp
  ultimately show ?thesis using assms(1) unfolding revised_def by simp
qed

lemma retract_revised:
  assumes inv: "mem_inv db (view ks)" and p: "prepare_retract db env ks operation t e = Inr (Write ops r)"
  shows "revised db (view ks) (taken_down db (view ks) t Retracted) (apply_ops ops (view ks))"
    and "sorted_wrt (<) (map rv_record (tr_invalidated r))"
    and "set (map rv_record (tr_invalidated r)) = {d. d \<noteq> t \<and> (dep (view ks))\<^sup>+\<^sup>+ t d \<and> active db (view ks) d}"
    and "\<exists>sc. record_scope_state_revision db ks t = Inr (sc, Active, e)"
proof -
  obtain sc ds a rv b revs ax where td: "active_dependency_closure db ks t = Inr ds"
    "invalidate db ks Retracted (oc_id operation) (env_now env 0) \<lparr>pd_record = t, pd_expected_revision = e\<rparr> = Inr (a, rv)"
    "invalidate_all db ks (oc_id operation) (env_now env 0) ds = Inr (b, revs)"
    and ax: "cells_of ax \<subseteq> aux_cells" "ops = (a @ b) @ ax" and r: "tr_invalidated r = revs"
    and st: "record_scope_state_revision db ks t = Inr (sc, Active, e)"
    using p by (auto simp: prepare_retract_def bind_res_eq_Inr Let_def split: if_splits dest!: unless_replayed_Write
        elim!: finish_ops)
  note T = takedown [OF inv td]
  show "revised db (view ks) (taken_down db (view ks) t Retracted) (apply_ops ops (view ks))"
    using revised_aux [OF T(1) ax(1)] unfolding ax(2) by (simp add: apply_ops_append)
  show "sorted_wrt (<) (map rv_record (tr_invalidated r))"
    "set (map rv_record (tr_invalidated r)) = {d. d \<noteq> t \<and> (dep (view ks))\<^sup>+\<^sup>+ t d \<and> active db (view ks) d}"
    using T(2,3) unfolding r by simp_all
  show "\<exists>sc. record_scope_state_revision db ks t = Inr (sc, Active, e)" using st by blast
qed

lemma retract_keeps:
  assumes inv: "mem_inv db (view ks)" and p: "prepare_retract db env ks operation t e = Inr (Write ops r)"
  shows "keeps db (view ks) ops"
  using moved_inv [OF inv revised_moved [OF retract_revised(1) [OF inv p]] taken_down_downward] moved_extends [OF revised_moved [OF retract_revised(1) [OF inv p]]]
  by (simp add: keeps_def)

lemma revised_absent: "revised db m T m' \<Longrightarrow> obs db m r = None \<Longrightarrow> obs db m' r = None"
  using moved_obs [OF revised_moved, of db m T m' r] by (cases "T r") auto

lemma inspect_claim_obs:
  assumes "rec_ok db (view ks) (RClaim i)"
  shows "inspect_claim db ks i = Inr (Some c) \<Longrightarrow>
      obs db (view ks) (RClaim i) =
        Some (KClaim (ch_domain (cr_header c)) (ch_temporal (cr_header c)) (ch_evidence_ids (cr_header c)),
          ch_scope (cr_header c), ch_state (cr_header c), ch_revision (cr_header c))"
  using inspect_claim_view [OF assms] by (auto split: option.splits)

text \<open>The records a correction adds, over a store from which the old claim has been taken down.\<close>

lemma correction_adds:
  assumes inv: "mem_inv db m" and new: "obs db m (REvidence e) = None" "obs db m (RClaim c) = None" "obs db m (RSemanticRelation l) = None"
    and target: "endpoint db m sc (RClaim t)" and adm: "source_is_admissible UserCorrection domain"
    and utf8: "utf8_valid (as_bytes et)" "utf8_valid (as_bytes pt)"
    and ev: "insert_evidence_record db (new_evidence_header e UserCorrection User sc tf DirectTruth now op) et = Inr ev"
    and cl: "insert_claim_record db (new_claim_header c domain sc tf [e] now op) pt = Inr cl"
    and rel: "insert_relation_record db (new_relation_header l (RClaim c) (RClaim t) Supersedes sc [e] now op) x = Inr rel"
    and ax: "cells_of ax \<subseteq> aux_cells"
  shows "keeps db m (ev @ cl @ rel @ ax)"
proof -
  let ?h = "new_evidence_header e UserCorrection User sc tf DirectTruth now op"
  let ?N = "[REvidence e \<mapsto> (KEvidence ?h, sc), RClaim c \<mapsto> (KClaim domain tf [e], sc),
    RSemanticRelation l \<mapsto> (KRelation (RClaim c) (RClaim t) Supersedes [e], sc)]"
  let ?D = "{(REvidence e, RClaim c)} \<union> (\<lambda>s. (s, RSemanticRelation l)) ` {RClaim c, RClaim t, REvidence e}"
  let ?m = "apply_ops (ev @ cl @ rel @ ax) m"
  note ok = mem_invD(1) [OF inv]
  note cr1 = evidence_created [OF ev utf8(1) created_refl _ _ ok]
  note cr2 = claim_created [OF cl utf8(2) cr1 _ _ ok]
  have D: "{} \<union> (\<lambda>j. (REvidence j, RClaim c)) ` set [e] \<union> (\<lambda>s. (s, RSemanticRelation l)) ` ({RClaim c, RClaim t} \<union> REvidence ` set [e]) = ?D"
    by auto
  have cr: "created db m ?N ?D ?m"
    using created_aux [OF relation_created [OF rel cr2 _ _ ok] ax] new D by (simp add: apply_ops_append)
  have e: "cited db ?m sc ok e" if "ok UserCorrection" for ok
    using that by (intro created_cited_new [OF cr, where h = ?h]) simp_all
  have act: "active db ?m (REvidence e)" "active db ?m (RClaim c)" "active db ?m (RSemanticRelation l)"
    by (rule created_active_new [OF cr], simp)+
  have t: "endpoint db ?m sc (RClaim t)" using endpoint_extends [OF created_extends [OF cr] target] .
  have c: "endpoint db ?m sc (RClaim c)" using created_obs(2) [OF cr, of "RClaim c"] by (simp add: endpoint_def del: obs.simps)
  have sup: "records_supersession db ?m (RClaim t) (RSemanticRelation l)"
    using created_obs(2) [OF cr, of "RSemanticRelation l"] by (simp add: records_supersession_def del: obs.simps)
  show ?thesis
  proof (rule created_keeps [OF inv cr])
    show "content_ok db ?m r sc' k" if "?N r = Some (k, sc')" for r k sc'
      using that e adm c t created_dep [OF cr] by (auto simp: cites_def joins_def split: if_splits)
    show "?N d \<noteq> None \<and> supports db ?m s d" if "(s, d) \<in> ?D" for s d
    proof -
      have "obs db ?m (RClaim t) \<noteq> None" using t by (auto simp: endpoint_def)
      then show ?thesis using that act(1,2) sup by (auto simp: supports_def simp del: obs.simps)
    qed
  qed
qed

lemma correct_keeps:
  assumes inv: "mem_inv db (view ks)" and fresh: "fresh_env db env ks"
    and utf8: "utf8_valid (as_bytes (cc_evidence_text input))" "utf8_valid (as_bytes (cc_replacement_proposition input))"
    and p: "prepare_correct db env ks operation input = Inr (Write ops r)"
  shows "keeps db (view ks) ops"
proof -
  let ?op = "oc_id operation" and ?now = "env_now env 0" and ?t = "RClaim (cc_target input)"
  obtain et pt g dig where t: "validate_text (cc_evidence_text input) ''evidence text'' = Inr et"
      "validate_text (cc_replacement_proposition input) ''replacement proposition'' = Inr pt"
    and cur: "inspect_claim db ks (cc_target input) = Inr (Some g)" "ch_state (cr_header g) = Active"
    and adm: "source_is_admissible UserCorrection (ch_domain (cr_header g))"
    and batch: "correction_batch db env ks operation (input\<lparr>cc_evidence_text := et, cc_replacement_proposition := pt\<rparr>) dig (cr_header g)
      = Inr (Write ops r)"
    using p by (auto simp: prepare_correct_def bind_res_eq_Inr found_def ok_or_eq_Inr Let_def split: if_splits dest!: unless_replayed_Write)
  let ?sc = "ch_scope (cr_header g)"
  obtain ds a rv b revs ev cl rel ax where td: "active_dependency_closure db ks ?t = Inr ds"
    "invalidate db ks Superseded ?op ?now \<lparr>pd_record = ?t, pd_expected_revision = cc_expected_revision input\<rparr> = Inr (a, rv)"
    "invalidate_all db ks ?op ?now ds = Inr (b, revs)"
    and ev: "insert_evidence_record db (new_evidence_header (env_ids env 0) UserCorrection User ?sc (cc_temporal input) DirectTruth ?now ?op) et = Inr ev"
    and cl: "insert_claim_record db (new_claim_header (env_ids env 1) (ch_domain (cr_header g)) ?sc (cc_temporal input) [env_ids env 0] ?now ?op) pt = Inr cl"
    and rel: "insert_relation_record db (new_relation_header (env_ids env 2) (RClaim (env_ids env 1)) ?t Supersedes ?sc [env_ids env 0] ?now ?op)
      \<lparr>lp_qualifier = None\<rparr> = Inr rel"
    and ax: "cells_of ax \<subseteq> aux_cells" "ops = (a @ b @ ev @ cl @ rel) @ ax"
    using batch by (auto simp: correction_batch_def bind_res_eq_Inr Let_def elim!: finish_ops)
  let ?T = "taken_down db (view ks) ?t Superseded"
  have T: "revised db (view ks) ?T (apply_ops (a @ b) (view ks))" "downward db (view ks) ?T"
    by (rule takedown(1) [OF inv td], rule taken_down_downward) simp
  let ?m = "apply_ops (a @ b) (view ks)"
  note ok = mem_invD(1) [OF inv]
  have new: "obs db ?m (REvidence (env_ids env 0)) = None" "obs db ?m (RClaim (env_ids env 1)) = None"
    "obs db ?m (RSemanticRelation (env_ids env 2)) = None"
    by (rule revised_absent [OF T(1) fresh_obs [OF fresh ok rec_id.simps(1) few_ids(1)]],
      rule revised_absent [OF T(1) fresh_obs [OF fresh ok rec_id.simps(2) few_ids(2)]],
      rule revised_absent [OF T(1) fresh_obs [OF fresh ok rec_id.simps(4) few_ids(3)]])
  have "endpoint db (view ks) ?sc ?t" using inspect_claim_obs [OF ok cur(1)] by (auto simp: endpoint_def simp del: obs.simps)
  then have target: "endpoint db ?m ?sc ?t" by (rule endpoint_extends [OF moved_extends [OF revised_moved [OF T(1)]]])
  have "keeps db ?m (ev @ cl @ rel @ ax)"
    by (rule correction_adds [OF moved_inv [OF inv revised_moved [OF T(1)] T(2)] new target adm validate_text_utf8 [OF t(1) utf8(1)]
          validate_text_utf8 [OF t(2) utf8(2)] ev cl rel ax(1)])
  moreover have "apply_ops (ev @ cl @ rel @ ax) ?m = apply_ops ops (view ks)" by (simp add: ax(2) apply_ops_append)
  ultimately show ?thesis using extends_trans [OF moved_extends [OF revised_moved [OF T(1)]]] by (simp add: keeps_def)
qed

section \<open>Purging\<close>

lemma purge_effect:
  assumes inv: "mem_inv db (view ks)" and p: "prepare_purge db env ks operation preview = Inr (Write ops r)"
  shows "purging db (view ks) (purge_map db (view ks) (pv_target preview) (pv_invalidations preview)) (apply_ops ops (view ks))"
    and "map rv_record (pq_invalidated r) = filter (active db (view ks)) (map pd_record (pv_invalidations preview))"
    and "sorted_wrt (<) (map pd_record (pv_invalidations preview))"
    and "\<And>d. d \<in> set (pv_invalidations preview) \<longleftrightarrow> (dep (view ks))\<^sup>+\<^sup>+ (pv_target preview) (pd_record d) \<and> pd_record d \<noteq> pv_target preview \<and>
       (\<exists>k sc st. obs db (view ks) (pd_record d) = Some (k, sc, st, pd_expected_revision d) \<and> listed True st)"
    and "\<exists>k sc st. obs db (view ks) (pv_target preview) = Some (k, sc, st, pv_expected_revision preview) \<and> st \<noteq> Purged"
proof -
  let ?traces = "map (\<lambda>i. rem P_ACTIVATION_TRACE_PAYLOADS (id_key i)) (pv_activation_trace_invalidations preview)"
  obtain a rv er b revs c pins ax where chk: "check_preview db ks (env_now env 0) preview = Inr ()"
    and a: "append_state_revision db ks (pv_target preview) (pv_expected_revision preview) Purged (oc_id operation) (env_now env 1) = Inr (a, rv)"
    and er: "erase db ks (pv_target preview) = Inr er"
    and b: "purge_dependents db ks (oc_id operation) (env_now env 1) (pv_invalidations preview) = Inr (b, revs)"
    and c: "purge_signals db ks (oc_id operation) (env_now env 1) (pv_relation_signal_invalidations preview) = Inr (c, pins)"
    and ax: "cells_of ax \<subseteq> aux_cells" "ops = (((a @ er) @ b) @ c @ ?traces) @ ax" and r: "pq_invalidated r = revs"
    using p by (auto simp: prepare_purge_def bind_res_eq_Inr Let_def split: if_splits dest!: unless_replayed_Write elim!: finish_ops)
  note P = purge_purging [OF inv chk a er b]
  have "cells_of (c @ ?traces @ ax) \<subseteq> aux_cells"
    using purge_signals_aux [OF c] ax(1) by (auto simp: cells_of_def record_parts_def)
  from purging_aux [OF P(1) this]
  show "purging db (view ks) (purge_map db (view ks) (pv_target preview) (pv_invalidations preview)) (apply_ops ops (view ks))"
    unfolding ax(2) by (simp add: apply_ops_append)
  show "map rv_record (pq_invalidated r) = filter (active db (view ks)) (map pd_record (pv_invalidations preview))"
    unfolding r by (rule P(2))
  show "sorted_wrt (<) (map pd_record (pv_invalidations preview))" by (rule P(3))
  show "d \<in> set (pv_invalidations preview) \<longleftrightarrow> (dep (view ks))\<^sup>+\<^sup>+ (pv_target preview) (pd_record d) \<and> pd_record d \<noteq> pv_target preview \<and>
       (\<exists>k sc st. obs db (view ks) (pd_record d) = Some (k, sc, st, pd_expected_revision d) \<and> listed True st)" for d
    by (rule P(4))
  show "\<exists>k sc st. obs db (view ks) (pv_target preview) = Some (k, sc, st, pv_expected_revision preview) \<and> st \<noteq> Purged"
    using preview_contents(3) [OF check_preview_current [OF chk]] unfolding status_view [OF mem_invD(1) [OF inv]]
    by (auto simp: status_of_def split: option.splits)
qed

lemma purge_taken_down:
  assumes inv: "mem_inv db (view ks)" and p: "prepare_purge db env ks operation preview = Inr (Write ops r)"
  shows "moved db (view ks) (taken_down db (view ks) (pv_target preview) Purged) (apply_ops ops (view ks))"
proof -
  note E = purge_effect [OF assms]
  have "r \<in> pd_record ` set (pv_invalidations preview)"
    if r: "r \<noteq> pv_target preview" "(dep (view ks))\<^sup>+\<^sup>+ (pv_target preview) r" "active db (view ks) r" for r
  proof -
    obtain k sc v where "obs db (view ks) r = Some (k, sc, Active, v)" using r(3) by (auto simp: active_def)
    then have "\<lparr>pd_record = r, pd_expected_revision = v\<rparr> \<in> set (pv_invalidations preview)" using E(4) r by (simp add: listed_def)
    then show ?thesis by (rule rev_image_eqI) simp
  qed
  moreover have "(dep (view ks))\<^sup>+\<^sup>+ (pv_target preview) r" if "r \<in> pd_record ` set (pv_invalidations preview)" for r
    using that E(4) by auto
  ultimately have "(\<lambda>r. Option.bind (purge_map db (view ks) (pv_target preview) (pv_invalidations preview) r) id) =
      taken_down db (view ks) (pv_target preview) Purged"
    by (auto simp: fun_eq_iff purge_map_def taken_down_def)
  then show ?thesis using purging_moved [OF E(1)] by simp
qed

lemma purge_keeps:
  assumes inv: "mem_inv db (view ks)" and p: "prepare_purge db env ks operation preview = Inr (Write ops r)"
  shows "keeps db (view ks) ops"
  using moved_inv [OF inv purge_taken_down [OF assms] taken_down_downward] moved_extends [OF purge_taken_down [OF assms]]
  by (simp add: keeps_def)

section \<open>Artifacts and recall\<close>

lemma collection_keeps:
  assumes inv: "mem_inv db (view ks)" and fresh: "fresh_env db env ks" and utf8: "utf8_valid (as_bytes (nac_label input))"
    and p: "prepare_collection db env ks operation input = Inr (Write ops r)"
  shows "keeps db (view ks) ops"
proof -
  let ?i = "env_ids env 0" and ?now = "env_now env 0" and ?op = "oc_id operation"
  let ?h = "\<lparr>ach_id = ?i, ach_scope = ArtifactScope ?i, ach_created_by = oc_actor operation, ach_recorded_at_ms = ?now, ach_operation_id = ?op\<rparr>"
  obtain ax where ax: "cells_of ax \<subseteq> aux_cells" "ops =
      avail_ops P_ARTIFACT_COLLECTIONS P_ARTIFACT_COLLECTION_AVAILABILITY P_ARTIFACT_COLLECTION_HEADS ?i
        (enc (mc_collection (md_codecs db)) ?h) (enc (mc_artifact_availability (md_codecs db)) (next_availability ?i 1 Active ?op ?now))
        (RArtifactCollection ?i) (as_bytes (nac_label input)) @ ax"
    using p by (auto simp: prepare_collection_def bind_res_eq_Inr encode_enc Let_def dest!: unless_replayed_Write
        validate_exact_text(2) elim!: finish_ops)
  note ok = mem_invD(1) [OF inv]
  have new: "obs db (view ks) (RArtifactCollection ?i) = None" by (rule fresh_obs [OF fresh ok rec_id.simps(7) few_ids(1)])
  have cr: "created db (view ks) [RArtifactCollection ?i \<mapsto> (KOther, ArtifactScope ?i)] {} (apply_ops ops (view ks))"
    using created_step [OF created_refl _ new ok, of KOther "ArtifactScope ?i" ops] unfolding ax(2)
    using creates_aux [OF creates_collection [OF utf8, of ?h ?i] ax(1)] by simp
  show ?thesis by (rule created_keeps [OF inv cr]) (auto split: if_splits)
qed

lemma snapshot_keeps:
  assumes inv: "mem_inv db (view ks)" and fresh: "fresh_env db env ks" and utf8: "utf8_valid (as_bytes (nas_media_type input))"
    and p: "prepare_snapshot db env ks operation input = Inr (Write ops r)"
  shows "keeps db (view ks) ops"
proof -
  let ?i = "env_ids env 0" and ?e = "env_ids env 1" and ?now = "env_now env 0" and ?op = "oc_id operation"
  let ?parent = "RArtifactCollection (nas_collection_id input)"
  note ok = mem_invD(1) [OF inv]
  obtain c batch ax where c: "inspect_artifact_collection db ks (nas_collection_id input) = Inr (Some c)"
      "av_state (acr_availability c) = Active"
    and batch: "snapshot_batch db env operation input (ach_scope (acr_header c)) = Inr batch"
    and ax: "cells_of ax \<subseteq> aux_cells" "ops = batch @ ax"
    using p by (auto simp: prepare_snapshot_def bind_res_eq_Inr found_def ok_or_eq_Inr require_active_revision_def Let_def split: if_splits
        dest!: unless_replayed_Write validate_exact_text(2) elim!: finish_ops)
  let ?sc = "ach_scope (acr_header c)"
  let ?h = "\<lparr>ash_id = ?i, ash_collection_id = nas_collection_id input, ash_evidence_id = ?e, ash_scope = ?sc,
    ash_temporal = nas_temporal input, ash_byte_len = word_of_nat (length (nas_bytes input)), ash_recorded_at_ms = ?now, ash_operation_id = ?op\<rparr>"
  let ?g = "new_evidence_header ?e ArtifactSnapshotEvidence (oc_actor operation) ?sc (nas_temporal input) DirectTruth ?now ?op"
  let ?core = "avail_ops P_ARTIFACT_SNAPSHOTS P_ARTIFACT_SNAPSHOT_AVAILABILITY P_ARTIFACT_SNAPSHOT_HEADS ?i
    (enc (mc_snapshot (md_codecs db)) ?h) (enc (mc_artifact_availability (md_codecs db)) (next_availability ?i 1 Active ?op ?now))
    (RArtifactSnapshot ?i)
    (enc (mc_snapshot_payload (md_codecs db)) \<lparr>asp_media_type = nas_media_type input, asp_content_digest = md_hash db (nas_bytes input)\<rparr>)"
  obtain ev pv where ev: "insert_evidence_record db ?g (nas_media_type input) = Inr ev"
    and b: "batch = (?core @ [put P_ARTIFACT_SNAPSHOT_BLOBS (id_key ?i) (nas_bytes input)]) @ ev @
      dep_ops [(RArtifactSnapshot ?i, REvidence ?e), (REvidence ?e, RArtifactSnapshot ?i)] @
      [put P_ARTIFACT_BY_EVIDENCE (id_key ?e) pv] @ dep_ops [(?parent, RArtifactSnapshot ?i)]"
    using batch by (auto simp: snapshot_batch_def insert_artifact_evidence_def insert_bidirectional_dependency_def bind_res_eq_Inr
        encode_enc Let_def dep_ops_def)
  have parent: "active db (view ks) ?parent"
    using c by (intro status_active [OF ok]) (simp add: found_def)
  have new: "obs db (view ks) (RArtifactSnapshot ?i) = None" "obs db (view ks) (REvidence ?e) = None"
    by (rule fresh_obs [OF fresh ok rec_id.simps(8) few_ids(1)], rule fresh_obs [OF fresh ok rec_id.simps(1) few_ids(2)])
  have blob: "cells_of [put P_ARTIFACT_SNAPSHOT_BLOBS (id_key ?i) (nas_bytes input)] \<subseteq> aux_cells"
    and prov: "cells_of [put P_ARTIFACT_BY_EVIDENCE (id_key ?e) pv] \<subseteq> aux_cells" by simp_all
  have cs: "creates db (RArtifactSnapshot ?i) KOther ?sc (?core @ [put P_ARTIFACT_SNAPSHOT_BLOBS (id_key ?i) (nas_bytes input)])"
    using creates_aux [OF creates_snapshot [of _ ?h ?i] blob] by simp
  note cr1 = created_step [OF created_refl _ new(1) ok cs]
  note cr2 = evidence_created [OF ev utf8 cr1 _ _ ok]
  note cr3 = created_deps [OF created_aux [OF created_deps [OF cr2, of "[(RArtifactSnapshot ?i, REvidence ?e), (REvidence ?e, RArtifactSnapshot ?i)]"] prov],
      of "[(?parent, RArtifactSnapshot ?i)]"]
  let ?N = "[RArtifactSnapshot ?i \<mapsto> (KOther, ?sc), REvidence ?e \<mapsto> (KEvidence ?g, ?sc)]"
  let ?D = "{} \<union> {(RArtifactSnapshot ?i, REvidence ?e), (REvidence ?e, RArtifactSnapshot ?i)} \<union> {(?parent, RArtifactSnapshot ?i)}"
  have cr: "created db (view ks) ?N ?D (apply_ops ops (view ks))"
    using created_aux [OF cr3 ax(1)] new(2) unfolding ax(2) b apply_ops_append by simp
  have "artifact_new ?parent ?N ?D" by (rule artifact_new_step) (simp_all add: artifact_new_def)
  then show ?thesis by (rule artifact_keeps [OF inv cr _ parent])
qed

lemma validate_passages_id: "validate_passages u n prev ps = Inr ps' \<Longrightarrow> ps' = ps"
proof (induction ps arbitrary: n prev ps')
  case (Cons p ps)
  then show ?case
    by (auto simp: bind_res_eq_Inr Let_def simp del: validate_ranges.simps split: if_splits dest!: validate_exact_text(2))
qed simp

lemma passage_created:
  assumes batch: "passage_batch db operation h sid now i e p = Inr ops" and utf8: "utf8_valid (as_bytes (nap_text p))"
    and cr: "created db m N D m'" and N: "N (RArtifactPassage i) = None" "N (REvidence e) = None"
    and new: "obs db m (RArtifactPassage i) = None" "obs db m (REvidence e) = None" and ok: "\<And>r. rec_ok db m r"
  obtains g where "eh_scope g = ash_scope h"
    "created db m (N(RArtifactPassage i \<mapsto> (KOther, ash_scope h), REvidence e \<mapsto> (KEvidence g, ash_scope h)))
      (D \<union> {(RArtifactPassage i, REvidence e), (REvidence e, RArtifactPassage i)} \<union> {(RArtifactSnapshot sid, RArtifactPassage i)})
      (apply_ops ops m')"
proof -
  let ?op = "oc_id operation"
  let ?h = "\<lparr>aph_id = i, aph_collection_id = ash_collection_id h, aph_snapshot_id = sid, aph_evidence_id = e, aph_scope = ash_scope h,
    aph_temporal = ash_temporal h, aph_locator = nap_locator p, aph_recorded_at_ms = now, aph_operation_id = ?op\<rparr>"
  let ?g = "new_evidence_header e ArtifactPassageEvidence (oc_actor operation) (ash_scope h) (ash_temporal h) DirectTruth now ?op"
  let ?core = "avail_ops P_ARTIFACT_PASSAGES P_ARTIFACT_PASSAGE_AVAILABILITY P_ARTIFACT_PASSAGE_HEADS i
    (enc (mc_passage (md_codecs db)) ?h) (enc (mc_artifact_availability (md_codecs db)) (next_availability i 1 Active ?op now))
    (RArtifactPassage i) (as_bytes (nap_text p))"
  let ?ax = "\<lambda>pv. [put P_ARTIFACT_PASSAGE_ORDINALS (artifact_passage_ordinal_key sid (al_ordinal (nap_locator p))) (id_key i),
    put P_ARTIFACT_BY_EVIDENCE (id_key e) pv]"
  obtain ev pv where ev: "insert_evidence_record db ?g (nap_text p) = Inr ev"
    and b: "ops = ?core @ ev @ dep_ops [(RArtifactPassage i, REvidence e), (REvidence e, RArtifactPassage i)] @
      dep_ops [(RArtifactSnapshot sid, RArtifactPassage i)] @ ?ax pv"
    using batch by (auto simp: passage_batch_def insert_artifact_evidence_def insert_bidirectional_dependency_def bind_res_eq_Inr
        encode_enc Let_def dep_ops_def)
  have ax: "cells_of (?ax pv) \<subseteq> aux_cells" by simp
  have cs: "creates db (RArtifactPassage i) KOther (ash_scope h) ?core" using creates_passage [OF utf8, of ?h i] by simp
  note cr1 = created_step [OF cr N(1) new(1) ok cs]
  note cr2 = evidence_created [OF ev utf8 cr1 _ _ ok]
  note cr3 = created_aux [OF created_deps [OF created_deps [OF cr2, of "[(RArtifactPassage i, REvidence e), (REvidence e, RArtifactPassage i)]"],
      of "[(RArtifactSnapshot sid, RArtifactPassage i)]"] ax]
  show ?thesis using that [of ?g] cr3 N(2) new(2) unfolding b apply_ops_append by simp
qed

lemma passages_created:
  assumes ok: "\<And>r. rec_ok db m r" and inj: "inj_on (env_ids env) {..b}"
    and new: "\<And>r n. rec_id r = env_ids env n \<Longrightarrow> n \<le> b \<Longrightarrow> obs db m r = None"
  shows "n + 2 * length ps \<le> Suc b \<Longrightarrow> passages_batch db env operation h sid now n ps = Inr (ops, receipts, subjects) \<Longrightarrow>
    (\<forall>p \<in> set ps. utf8_valid (as_bytes (nap_text p))) \<Longrightarrow> created db m N D m' \<Longrightarrow> artifact_new (RArtifactSnapshot sid) N D \<Longrightarrow>
    (\<And>r j. n \<le> j \<Longrightarrow> j \<le> b \<Longrightarrow> rec_id r = env_ids env j \<Longrightarrow> N r = None) \<Longrightarrow>
    \<exists>N' D'. created db m N' D' (apply_ops ops m') \<and> artifact_new (RArtifactSnapshot sid) N' D'"
proof (induction ps arbitrary: n ops receipts subjects N D m')
  case (Cons p ps)
  let ?i = "env_ids env n" and ?e = "env_ids env (n + 1)"
  have n: "n \<le> b" "n + 1 \<le> b" "(n + 2) + 2 * length ps \<le> Suc b" using Cons.prems(1) by simp_all
  obtain a c receipts' subjects' where ops: "passage_batch db operation h sid now ?i ?e p = Inr a"
    "passages_batch db env operation h sid now (n + 2) ps = Inr (c, receipts', subjects')" "ops = a @ c"
    using Cons.prems(2) by (auto simp: bind_res_eq_Inr Let_def)
  have N: "N (RArtifactPassage ?i) = None" "N (REvidence ?e) = None"
    using Cons.prems(6) [of n "RArtifactPassage ?i"] Cons.prems(6) [of "n + 1" "REvidence ?e"] n by simp_all
  obtain g where g: "eh_scope g = ash_scope h"
    "created db m (N(RArtifactPassage ?i \<mapsto> (KOther, ash_scope h), REvidence ?e \<mapsto> (KEvidence g, ash_scope h)))
      (D \<union> {(RArtifactPassage ?i, REvidence ?e), (REvidence ?e, RArtifactPassage ?i)} \<union> {(RArtifactSnapshot sid, RArtifactPassage ?i)})
      (apply_ops a m')"
    by (rule passage_created [OF ops(1) _ Cons.prems(4) N new [OF rec_id.simps(9) n(1)] new [OF rec_id.simps(1) n(2)] ok])
      (use Cons.prems(3) in simp)
  have later: "(N(RArtifactPassage ?i \<mapsto> (KOther, ash_scope h), REvidence ?e \<mapsto> (KEvidence g, ash_scope h))) r = None"
    if "n + 2 \<le> j" "j \<le> b" "rec_id r = env_ids env j" for r j
    using Cons.prems(6) [of j r] that n inj_on_eq_iff [OF inj, of j n] inj_on_eq_iff [OF inj, of j "n + 1"] by auto
  show ?case
    using Cons.IH [OF n(3) ops(2) _ g(2) artifact_new_step [OF Cons.prems(5) refl g(1)] later] Cons.prems(3) ops(3)
    by (simp add: apply_ops_append)
qed auto

lemma passages_keeps:
  assumes inv: "mem_inv db (view ks)" and fresh: "fresh_env db env ks"
    and utf8: "\<forall>p \<in> set (npb_passages input). utf8_valid (as_bytes (nap_text p))"
    and p: "prepare_passages db env ks operation input = Inr (Write ops r)"
  shows "keeps db (view ks) ops"
proof -
  note ok = mem_invD(1) [OF inv]
  let ?parent = "RArtifactSnapshot (npb_snapshot_id input)"
  obtain c batch receipts subjects ax where c: "inspect_artifact_snapshot db ks (npb_snapshot_id input) = Inr (Some c)"
      "av_state (asr_availability c) = Active"
    and batch: "passages_batch db env operation (asr_header c) (npb_snapshot_id input) (env_now env 0) 0 (npb_passages input)
      = Inr (batch, receipts, subjects)"
    and ax: "cells_of ax \<subseteq> aux_cells" "ops = batch @ ax"
    using p by (auto simp: prepare_passages_def validate_artifact_passage_batch_def bind_res_eq_Inr found_def ok_or_eq_Inr
        require_active_revision_def Let_def split: if_splits dest!: unless_replayed_Write validate_passages_id elim!: finish_ops)
  have parent: "active db (view ks) ?parent" using c by (intro status_active [OF ok]) (simp add: found_def)
  have inj: "inj_on (env_ids env) {..MAX_IDS}" using fresh by (simp add: fresh_env_def)
  have len: "0 + 2 * length (npb_passages input) \<le> Suc MAX_IDS"
    using p by (auto simp: prepare_passages_def validate_artifact_passage_batch_def bind_res_eq_Inr MAX_IDS_def split: if_splits)
  have "artifact_new ?parent Map.empty {}" by (simp add: artifact_new_def)
  moreover have "obs db (view ks) r = None" if "rec_id r = env_ids env n" "n \<le> MAX_IDS" for r n
    by (rule fresh_obs [OF fresh ok that])
  ultimately obtain N D where "created db (view ks) N D (apply_ops batch (view ks))" and new: "artifact_new ?parent N D"
    using passages_created [OF ok inj _ len batch utf8 created_refl] by blast
  then have "created db (view ks) N D (apply_ops ops (view ks))" using created_aux ax by (simp add: apply_ops_append)
  then show ?thesis by (rule artifact_keeps [OF inv _ new parent])
qed

lemma recall_keeps:
  assumes "mem_inv db (view ks)" "prepare_recall db env ks query excluded = Inr (Write ops r)"
  shows "keeps db (view ks) ops"
proof -
  have "cells_of ops \<subseteq> aux_cells" using assms(2) by (auto simp: prepare_recall_def bind_res_eq_Inr Let_def)
  then have "created db (view ks) Map.empty {} (apply_ops ops (view ks))" by (rule created_aux [OF created_refl])
  then show ?thesis by (rule created_keeps [OF assms(1)]) simp_all
qed

end

section \<open>Runs\<close>

text \<open>
  One call of the store, and any sequence of calls. The environment of a call supplies its clock
  readings and its identifiers, which are new; the strings of a call are valid UTF-8. A call that
  fails, or finds its receipt stored, is a step as well.
\<close>

inductive mem_step :: "'ks memory_db \<Rightarrow> 'ks \<Rightarrow> 'ks \<Rightarrow> bool" for db :: "'ks memory_db" where
  step_capture: "mem_step db ks (snd (capture_evidence db env ks operation input))"
    if "fresh_env db env ks" "utf8_valid (as_bytes (ne_text input))"
| step_retract: "mem_step db ks (snd (retract db env ks operation t e))"
| step_remember: "mem_step db ks (snd (remember_user_claim db env ks operation input))"
    if "fresh_env db env ks" "utf8_valid (as_bytes (rm_evidence_text input))" "utf8_valid (as_bytes (rm_proposition input))"
| step_correct: "mem_step db ks (snd (correct_user_claim db env ks operation input))"
    if "fresh_env db env ks" "utf8_valid (as_bytes (cc_evidence_text input))" "utf8_valid (as_bytes (cc_replacement_proposition input))"
| step_claim: "mem_step db ks (snd (create_claim db env ks operation input))"
    if "fresh_env db env ks" "utf8_valid (as_bytes (nc_proposition input))"
| step_relation: "mem_step db ks (snd (create_semantic_relation db env ks operation input))"
    if "fresh_env db env ks"
| step_collection: "mem_step db ks (snd (create_artifact_collection db env ks operation input))"
    if "fresh_env db env ks" "utf8_valid (as_bytes (nac_label input))"
| step_snapshot: "mem_step db ks (snd (import_artifact_snapshot db env ks operation input))"
    if "fresh_env db env ks" "utf8_valid (as_bytes (nas_media_type input))"
| step_passages: "mem_step db ks (snd (create_artifact_passages db env ks operation input))"
    if "fresh_env db env ks" "\<forall>p \<in> set (npb_passages input). utf8_valid (as_bytes (nap_text p))"
| step_recall: "mem_step db ks (snd (recall_locked db env ks query excluded))"
| step_purge: "mem_step db ks (snd (commit_purge db env ks operation preview))"

lemma empty_inv: "(\<And>p k. m p k = None) \<Longrightarrow> mem_inv db m"
  unfolding mem_inv_def
proof (intro conjI allI)
  assume m: "\<And>p k. m p k = None"
  have o: "obs db m r = None" for r
    using m by (cases r) (simp_all add: obs_avail_def current_def head_of_def stored_at_def)
  show "rec_ok db m r" for r
    using m by (cases r) (simp_all add: header_ok_def revs_ok_def text_ok_def payload_ok_def)
  show "deps_ok db m" using m by (simp add: deps_ok_def deps_of_def)
  show "obs db m r = Some (k, sc, st, v) \<longrightarrow> content_ok db m r sc k" for r k sc st v using o [of r] by simp
  show "dep m s d \<longrightarrow> edge_ok db m s d" for s d using m by (simp add: dep_def deps_of_def)
qed

context memory_store
begin

theorem mem_step_keeps:
  assumes "mem_step db ks ks'" "mem_inv db (view ks)"
  shows "mem_inv db (view ks') \<and> extends db (view ks) (view ks')"
  using assms
proof (induction rule: mem_step.induct)
  case (step_capture env ks input operation)
  then show ?case unfolding capture_evidence_def by (metis run_mutation_view capture_keeps)
next
  case (step_retract ks env operation t e)
  then show ?case unfolding retract_def by (metis run_mutation_view retract_keeps)
next
  case (step_remember env ks input operation)
  then show ?case unfolding remember_user_claim_def by (metis run_mutation_view remember_keeps)
next
  case (step_correct env ks input operation)
  then show ?case unfolding correct_user_claim_def by (metis run_mutation_view correct_keeps)
next
  case (step_claim env ks input operation)
  then show ?case unfolding create_claim_def by (metis run_mutation_view claim_keeps)
next
  case (step_relation env ks operation input)
  then show ?case unfolding create_semantic_relation_def by (metis run_mutation_view relation_keeps)
next
  case (step_collection env ks input operation)
  then show ?case unfolding create_artifact_collection_def by (metis run_mutation_view collection_keeps)
next
  case (step_snapshot env ks input operation)
  then show ?case unfolding import_artifact_snapshot_def by (metis run_mutation_view snapshot_keeps)
next
  case (step_passages env ks input operation)
  then show ?case unfolding create_artifact_passages_def by (metis run_mutation_view passages_keeps)
next
  case (step_recall ks env query excluded)
  then show ?case unfolding recall_locked_def by (metis run_mutation_view recall_keeps)
next
  case (step_purge ks env operation preview)
  then show ?case unfolding commit_purge_def by (metis run_mutation_view purge_keeps)
qed

theorem mem_run_keeps:
  assumes "(mem_step db)\<^sup>*\<^sup>* ks ks'" "mem_inv db (view ks)"
  shows "mem_inv db (view ks') \<and> extends db (view ks) (view ks')"
  using assms
proof (induction rule: rtranclp_induct)
  case (step y z)
  then show ?case using mem_step_keeps [of y z] extends_trans by blast
qed simp

end

end
