(* ===== verification/Memory_Replay.thy ===== *)
theory Memory_Replay
  imports Memory_Runs
begin

text \<open>
  Mutations happen once. A mutation that commits stores its receipt under the identifier of its
  operation; no later call overwrites that entry, whatever it does, so repeating the call, at any
  later time and with any clock and identifiers, returns the stored receipt and changes nothing.
\<close>

section \<open>The cell of an operation\<close>

definition no_op :: "batch_op list \<Rightarrow> bool" where
  "no_op ops \<longleftrightarrow> (\<forall>k. (part_name P_OPERATIONS, k) \<notin> cells_of ops)"

lemma no_op_simps [simp]:
  "no_op []" "no_op (as @ bs) \<longleftrightarrow> no_op as \<and> no_op bs"
  "no_op (BInsert (part_name p) k v # bs) \<longleftrightarrow> p \<noteq> P_OPERATIONS \<and> no_op bs"
  "no_op (BRemove (part_name p) k # bs) \<longleftrightarrow> p \<noteq> P_OPERATIONS \<and> no_op bs"
  by (auto simp: no_op_def)

lemma no_op_map [simp]:
  "no_op (map (\<lambda>x. BInsert (part_name p) (f x) (g x)) xs) \<longleftrightarrow> xs = [] \<or> p \<noteq> P_OPERATIONS"
  "no_op (map (\<lambda>x. BRemove (part_name p) (f x)) xs) \<longleftrightarrow> xs = [] \<or> p \<noteq> P_OPERATIONS"
  by (induction xs) auto

lemma no_op_apply: "no_op ops \<Longrightarrow> apply_ops ops m (part_name P_OPERATIONS) = m (part_name P_OPERATIONS)"
  by (rule ext) (simp add: no_op_def apply_ops_frame)

lemma no_op_insert_lexical: "insert_lexical_document db r v sc t text = Inr ops \<Longrightarrow> no_op ops"
  by (auto simp: insert_lexical_document_def bind_res_eq_Inr Let_def)

lemma no_op_remove_lexical: "remove_lexical_document db ks r = Inr ops \<Longrightarrow> no_op ops"
  by (auto simp: remove_lexical_document_def bind_res_eq_Inr split: option.splits)

lemma no_op_evidence: "insert_evidence_record db h text = Inr ops \<Longrightarrow> no_op ops"
  by (auto simp: insert_evidence_record_def bind_res_eq_Inr Let_def dest: no_op_insert_lexical)

lemma no_op_claim: "insert_claim_record db h text = Inr ops \<Longrightarrow> no_op ops"
  by (auto simp: insert_claim_record_def dependency_ops_def o_def bind_res_eq_Inr Let_def dest: no_op_insert_lexical)

lemma no_op_relation: "insert_relation_record db h x = Inr ops \<Longrightarrow> no_op ops"
  by (auto simp: insert_relation_record_def dependency_ops_def o_def bind_res_eq_Inr Let_def)

lemma no_op_append: "append_record db ks r e v st op now = Inr ops \<Longrightarrow> no_op ops"
  by (cases r) (auto simp: append_revision_def bind_res_eq_Inr)

lemma no_op_invalidate: "invalidate db ks st op now d = Inr (ops, rv) \<Longrightarrow> no_op ops"
  by (auto simp: invalidate_def append_state_revision_def bind_res_eq_Inr split: if_splits dest: no_op_append no_op_remove_lexical)

lemma no_op_invalidate_all: "invalidate_all db ks op now ds = Inr (ops, revs) \<Longrightarrow> no_op ops"
  by (induction ds arbitrary: ops revs) (auto simp: bind_res_eq_Inr dest: no_op_invalidate)

lemma no_op_snapshot: "snapshot_batch db env operation input sc = Inr ops \<Longrightarrow> no_op ops"
  by (auto simp: snapshot_batch_def insert_artifact_evidence_def insert_bidirectional_dependency_def bind_res_eq_Inr Let_def
      dest: no_op_evidence)

lemma no_op_passage: "passage_batch db operation h sid now i e p = Inr ops \<Longrightarrow> no_op ops"
  by (auto simp: passage_batch_def insert_artifact_evidence_def insert_bidirectional_dependency_def bind_res_eq_Inr Let_def
      dest: no_op_evidence)

lemma no_op_passages: "passages_batch db env operation h sid now n ps = Inr (ops, rs, ss) \<Longrightarrow> no_op ops"
  by (induction ps arbitrary: n ops rs ss) (auto simp: bind_res_eq_Inr Let_def dest: no_op_passage)

lemma no_op_erase: "erase db ks r = Inr ops \<Longrightarrow> no_op ops"
  by (cases r) (auto simp: erase_def bind_res_eq_Inr dest: no_op_remove_lexical)

lemma no_op_append_state: "append_state_revision db ks r e st op now = Inr (ops, rv) \<Longrightarrow> no_op ops"
  by (auto simp: append_state_revision_def bind_res_eq_Inr split: if_splits dest: no_op_append)

lemma no_op_withdraw: "withdraw db ks op now d = Inr (ops, revs) \<Longrightarrow> no_op ops"
  by (auto simp: withdraw_def bind_res_eq_Inr split: if_splits dest: no_op_append_state)

lemma no_op_purge_dependents: "purge_dependents db ks op now ds = Inr (ops, revs) \<Longrightarrow> no_op ops"
  by (induction ds arbitrary: ops revs) (auto simp: bind_res_eq_Inr dest: no_op_withdraw no_op_erase)

lemma no_op_signal: "append_relation_signal_state_revision db ks p st op now = Inr (ops, pin) \<Longrightarrow> no_op ops"
  by (auto simp: append_relation_signal_state_revision_def bind_res_eq_Inr Let_def split: if_splits)

lemma no_op_purge_signals: "purge_signals db ks op now ps = Inr (ops, pins) \<Longrightarrow> no_op ops"
  by (induction ps arbitrary: ops pins) (auto simp: bind_res_eq_Inr dest: no_op_signal)

lemmas no_op_purge = no_op_append_state no_op_erase no_op_purge_dependents no_op_purge_signals

lemmas no_op_batches = no_op_evidence no_op_claim no_op_relation no_op_invalidate no_op_invalidate_all no_op_snapshot no_op_passages

section \<open>Logged mutations\<close>

text \<open>
  What a prepared batch logs: no receipt was stored before, the receipt it returns is stored with
  the digest of the input, and a call that finds it there returns it.
\<close>

definition logs :: "'ks memory_db \<Rightarrow> 'r value_codec \<Rightarrow> operation_context \<Rightarrow> digest \<Rightarrow> batch_op list \<Rightarrow> 'r \<Rightarrow> bool" where
  "logs db vc operation digest ops r \<longleftrightarrow>
     (\<exists>batch v b. to_value vc r = Inr v \<and> encode (mc_operation (md_codecs db)) \<lparr>so_digest = digest, so_receipt = v\<rparr> = Inr b \<and>
        ops = batch @ [put P_OPERATIONS (id_key (oc_id operation)) b] \<and> no_op batch)"

definition fresh_body :: "'r prepared mres \<Rightarrow> bool" where
  "fresh_body body \<longleftrightarrow> (\<forall>x. body \<noteq> Inr (Replayed x))"

lemmas fresh_body_defs = fresh_body_def bind_res_eq_Inr finish_def Let_def correction_batch_def

definition replayable ::
    "'ks memory_db \<Rightarrow> 'r value_codec \<Rightarrow> operation_context \<Rightarrow> (env \<Rightarrow> 'ks \<Rightarrow> 'r prepared mres) \<Rightarrow> 'r prepared \<Rightarrow> bool" where
  "replayable db vc operation prepare w \<longleftrightarrow>
     (\<exists>digest. (\<forall>ops r. w = Write ops r \<longrightarrow> logs db vc operation digest ops r) \<and>
        (\<forall>env ks. \<exists>body. prepare env ks = unless_replayed db ks vc operation digest body \<and> fresh_body body))"

lemma finish_logs:
  assumes "finish db vc operation digest receipt audit batch = Inr (Write ops r)"
  shows "no_op batch \<longrightarrow> logs db vc operation digest ops r"
proof
  assume n: "no_op batch"
  obtain a b where ab: "insert_audit db audit = Inr a" "insert_operation db vc (oc_id operation) digest receipt = Inr b"
    "ops = batch @ a @ b" "r = receipt"
    using assms by (auto simp: finish_def bind_res_eq_Inr)
  obtain v b' where b: "to_value vc r = Inr v" "encode (mc_operation (md_codecs db)) \<lparr>so_digest = digest, so_receipt = v\<rparr> = Inr b'"
    "ops = (batch @ a) @ [put P_OPERATIONS (id_key (oc_id operation)) b']"
    using ab(2-4) by (auto simp: insert_operation_def bind_res_eq_Inr map_err_def split: sum.splits)
  have "no_op (batch @ a)" using ab(1) n by (auto simp: insert_audit_def bind_res_eq_Inr)
  then show "logs db vc operation digest ops r" unfolding logs_def using b by blast
qed

lemma unless_replayed_cases:
  assumes "unless_replayed db ks vc operation digest body = Inr (Write ops r)"
  shows "replayed_operation db ks vc (oc_id operation) digest = Inr None" "body = Inr (Write ops r)"
  using assms by (auto simp: unless_replayed_def bind_res_eq_Inr split: option.splits)

lemma unless_replayed_found:
  "replayed_operation db ks vc (oc_id operation) digest = Inr (Some x) \<Longrightarrow>
   unless_replayed db ks vc operation digest body = Inr (Replayed x)"
  "replayed_operation db ks vc (oc_id operation) digest = Inl e \<Longrightarrow> unless_replayed db ks vc operation digest body = Inl e"
  by (simp_all add: unless_replayed_def)

text \<open>
  A mutation checks its input without reading the store, then computes the digest, and the replay
  test guards everything else.
\<close>

lemma replayable_retract:
  assumes p: "prepare_retract db env ks operation t e = Inr w"
  shows "replayable db (vc_retraction (md_receipts db)) operation (\<lambda>env ks. prepare_retract db env ks operation t e) w"
proof -
  obtain digest where d: "oc_actor operation \<noteq> Assistant" "mutation_digest db ''retract'' (oc_actor operation) (MuRetract t e) = Inr digest"
    using p by (auto simp: prepare_retract_def bind_res_eq_Inr Let_def split: if_splits)
  have l: "logs db (vc_retraction (md_receipts db)) operation digest ops r" if "w = Write ops r" for ops r
    using p that d by (auto simp: prepare_retract_def bind_res_eq_Inr Let_def split: if_splits
        dest!: unless_replayed_Write no_op_batches finish_logs)
  show ?thesis unfolding replayable_def
  proof (intro exI [of _ digest] conjI allI)
    show "\<exists>body. prepare_retract db env ks operation t e = unless_replayed db ks (vc_retraction (md_receipts db)) operation digest body \<and> fresh_body body"
      for env ks by (intro exI conjI, simp add: prepare_retract_def d) (auto simp: fresh_body_defs split: if_splits)
  qed (use l in blast)
qed

lemma replayable_capture:
  assumes p: "prepare_capture db env ks operation input = Inr w"
  shows "replayable db (vc_evidence (md_receipts db)) operation (\<lambda>env ks. prepare_capture db env ks operation input) w"
proof -
  obtain t digest where d: "validate_temporal (ne_temporal input) = Inr ()"
      "validate_exact_evidence_text (ne_text input) ''evidence text'' = Inr t"
      "validate_evidence_capture (oc_actor operation) (ne_class input) (ne_lifecycle input) = Inr ()"
      "mutation_digest db ''capture_evidence'' (oc_actor operation) (MuCapture (input\<lparr>ne_text := t\<rparr>)) = Inr digest"
    using p by (auto simp: prepare_capture_def bind_res_eq_Inr Let_def split: if_splits)
  have l: "logs db (vc_evidence (md_receipts db)) operation digest ops r" if "w = Write ops r" for ops r
    using p that d by (auto simp: prepare_capture_def bind_res_eq_Inr Let_def split: if_splits
        dest!: unless_replayed_Write no_op_batches finish_logs)
  show ?thesis unfolding replayable_def
  proof (intro exI [of _ digest] conjI allI)
    show "\<exists>body. prepare_capture db env ks operation input = unless_replayed db ks (vc_evidence (md_receipts db)) operation digest body \<and> fresh_body body"
      for env ks by (intro exI conjI, simp add: prepare_capture_def d Let_def) (auto simp: fresh_body_defs split: if_splits)
  qed (use l in blast)
qed

lemma replayable_remember:
  assumes p: "prepare_remember db env ks operation input = Inr w"
  shows "replayable db (vc_remember (md_receipts db)) operation (\<lambda>env ks. prepare_remember db env ks operation input) w"
proof -
  obtain et pt digest where d: "oc_actor operation = User" "validate_temporal (rm_temporal input) = Inr ()"
      "validate_text (rm_evidence_text input) ''evidence text'' = Inr et"
      "validate_text (rm_proposition input) ''claim proposition'' = Inr pt"
      "source_is_admissible UserAssertion (rm_domain input)" "validate_claim_activation User (rm_domain input) [UserAssertion] = Inr ()"
      "mutation_digest db ''remember_user_claim'' User (MuRemember (input\<lparr>rm_evidence_text := et, rm_proposition := pt\<rparr>)) = Inr digest"
    using p by (auto simp: prepare_remember_def bind_res_eq_Inr Let_def split: if_splits)
  have l: "logs db (vc_remember (md_receipts db)) operation digest ops r" if "w = Write ops r" for ops r
    using p that d by (auto simp: prepare_remember_def bind_res_eq_Inr Let_def simp del: source_is_admissible.simps validate_claim_activation.simps split: if_splits
        dest!: unless_replayed_Write no_op_batches finish_logs)
  show ?thesis unfolding replayable_def
  proof (intro exI [of _ digest] conjI allI)
    show "\<exists>body. prepare_remember db env ks operation input = unless_replayed db ks (vc_remember (md_receipts db)) operation digest body \<and> fresh_body body"
      for env ks by (intro exI conjI, simp add: prepare_remember_def d Let_def del: source_is_admissible.simps validate_claim_activation.simps) (auto simp: fresh_body_defs split: if_splits)
  qed (use l in blast)
qed

lemma replayable_correct:
  assumes p: "prepare_correct db env ks operation input = Inr w"
  shows "replayable db (vc_correction (md_receipts db)) operation (\<lambda>env ks. prepare_correct db env ks operation input) w"
proof -
  obtain et pt digest where d: "oc_actor operation = User" "validate_temporal (cc_temporal input) = Inr ()"
      "validate_text (cc_evidence_text input) ''evidence text'' = Inr et"
      "validate_text (cc_replacement_proposition input) ''replacement proposition'' = Inr pt"
      "mutation_digest db ''correct_user_claim'' User (MuCorrect (input\<lparr>cc_evidence_text := et, cc_replacement_proposition := pt\<rparr>)) = Inr digest"
    using p by (auto simp: prepare_correct_def bind_res_eq_Inr Let_def split: if_splits)
  have l: "logs db (vc_correction (md_receipts db)) operation digest ops r" if "w = Write ops r" for ops r
    using p that d by (auto simp: prepare_correct_def correction_batch_def bind_res_eq_Inr Let_def split: if_splits
        dest!: unless_replayed_Write no_op_batches finish_logs)
  show ?thesis unfolding replayable_def
  proof (intro exI [of _ digest] conjI allI)
    show "\<exists>body. prepare_correct db env ks operation input = unless_replayed db ks (vc_correction (md_receipts db)) operation digest body \<and> fresh_body body"
      for env ks by (intro exI conjI, simp add: prepare_correct_def d Let_def) (auto simp: fresh_body_defs split: if_splits)
  qed (use l in blast)
qed

lemma replayable_claim:
  assumes p: "prepare_claim db env ks operation input = Inr w"
  shows "replayable db (vc_record (md_receipts db)) operation (\<lambda>env ks. prepare_claim db env ks operation input) w"
proof -
  obtain pt digest where d: "oc_actor operation \<noteq> Assistant" "validate_temporal (nc_temporal input) = Inr ()"
      "validate_text (nc_proposition input) ''claim proposition'' = Inr pt"
      "check_sources ''a claim'' (sort_dedup (nc_evidence_ids input)) = Inr ()"
      "mutation_digest db ''create_claim'' (oc_actor operation)
        (MuClaim (input\<lparr>nc_proposition := pt, nc_evidence_ids := sort_dedup (nc_evidence_ids input)\<rparr>)) = Inr digest"
    using p by (auto simp: prepare_claim_def bind_res_eq_Inr Let_def split: if_splits)
  have l: "logs db (vc_record (md_receipts db)) operation digest ops r" if "w = Write ops r" for ops r
    using p that d by (auto simp: prepare_claim_def bind_res_eq_Inr Let_def split: if_splits
        dest!: unless_replayed_Write no_op_batches finish_logs)
  show ?thesis unfolding replayable_def
  proof (intro exI [of _ digest] conjI allI)
    show "\<exists>body. prepare_claim db env ks operation input = unless_replayed db ks (vc_record (md_receipts db)) operation digest body \<and> fresh_body body"
      for env ks by (intro exI conjI, simp add: prepare_claim_def d Let_def) (auto simp: fresh_body_defs split: if_splits)
  qed (use l in blast)
qed

lemma replayable_relation:
  assumes p: "prepare_relation db env ks operation input = Inr w"
  shows "replayable db (vc_record (md_receipts db)) operation (\<lambda>env ks. prepare_relation db env ks operation input) w"
proof -
  obtain inp digest where d: "check_relation_input operation input = Inr inp"
      "mutation_digest db ''create_semantic_relation'' (oc_actor operation) (MuRelation inp) = Inr digest"
    using p by (auto simp: prepare_relation_def bind_res_eq_Inr Let_def split: if_splits)
  have l: "logs db (vc_record (md_receipts db)) operation digest ops r" if "w = Write ops r" for ops r
    using p that d by (auto simp: prepare_relation_def bind_res_eq_Inr Let_def split: if_splits
        dest!: unless_replayed_Write no_op_batches finish_logs)
  show ?thesis unfolding replayable_def
  proof (intro exI [of _ digest] conjI allI)
    show "\<exists>body. prepare_relation db env ks operation input = unless_replayed db ks (vc_record (md_receipts db)) operation digest body \<and> fresh_body body"
      for env ks by (intro exI conjI, simp add: prepare_relation_def d) (auto simp: fresh_body_defs split: if_splits)
  qed (use l in blast)
qed

lemma replayable_collection:
  assumes p: "prepare_collection db env ks operation input = Inr w"
  shows "replayable db (vc_collection (md_receipts db)) operation (\<lambda>env ks. prepare_collection db env ks operation input) w"
proof -
  obtain t digest where d: "require_artifact_actor (oc_actor operation) = Inr ()"
      "validate_exact_bounded_text (nac_label input) ''artifact label'' MAX_ARTIFACT_LABEL_BYTES = Inr t"
      "mutation_digest db ''create_artifact_collection'' (oc_actor operation) (MuCollection (input\<lparr>nac_label := t\<rparr>)) = Inr digest"
    using p by (auto simp: prepare_collection_def bind_res_eq_Inr Let_def split: if_splits)
  have l: "logs db (vc_collection (md_receipts db)) operation digest ops r" if "w = Write ops r" for ops r
    using p that d by (auto simp: prepare_collection_def bind_res_eq_Inr Let_def split: if_splits
        dest!: unless_replayed_Write no_op_batches finish_logs)
  show ?thesis unfolding replayable_def
  proof (intro exI [of _ digest] conjI allI)
    show "\<exists>body. prepare_collection db env ks operation input = unless_replayed db ks (vc_collection (md_receipts db)) operation digest body \<and> fresh_body body"
      for env ks by (intro exI conjI, simp add: prepare_collection_def d Let_def) (auto simp: fresh_body_defs split: if_splits)
  qed (use l in blast)
qed

lemma replayable_snapshot:
  assumes p: "prepare_snapshot db env ks operation input = Inr w"
  shows "replayable db (vc_snapshot (md_receipts db)) operation (\<lambda>env ks. prepare_snapshot db env ks operation input) w"
proof -
  obtain t digest where d: "require_artifact_actor (oc_actor operation) = Inr ()" "validate_temporal (nas_temporal input) = Inr ()"
      "validate_exact_bounded_text (nas_media_type input) ''artifact media type'' MAX_ARTIFACT_MEDIA_TYPE_BYTES = Inr t"
      "\<not> (nas_bytes input = [] \<or> MAX_ARTIFACT_SNAPSHOT_BYTES < length (nas_bytes input))"
      "artifact_snapshot_mutation_digest db (oc_actor operation) (input\<lparr>nas_media_type := t\<rparr>) = Inr digest"
    using p by (auto simp: prepare_snapshot_def bind_res_eq_Inr Let_def split: if_splits)
  have l: "logs db (vc_snapshot (md_receipts db)) operation digest ops r" if "w = Write ops r" for ops r
    using p that d by (auto simp: prepare_snapshot_def bind_res_eq_Inr Let_def split: if_splits
        dest!: unless_replayed_Write no_op_batches finish_logs)
  show ?thesis unfolding replayable_def
  proof (intro exI [of _ digest] conjI allI)
    show "\<exists>body. prepare_snapshot db env ks operation input = unless_replayed db ks (vc_snapshot (md_receipts db)) operation digest body \<and> fresh_body body"
      for env ks by (intro exI conjI, use d in \<open>simp add: prepare_snapshot_def Let_def\<close>) (auto simp: fresh_body_defs split: if_splits)
  qed (use l in blast)
qed

lemma replayable_passages:
  assumes p: "prepare_passages db env ks operation input = Inr w"
  shows "replayable db (vc_passages (md_receipts db)) operation (\<lambda>env ks. prepare_passages db env ks operation input) w"
proof -
  obtain inp digest where d: "require_artifact_actor (oc_actor operation) = Inr ()"
      "validate_artifact_passage_batch (md_unicode db) input = Inr inp"
      "mutation_digest db ''create_artifact_passages'' (oc_actor operation) (MuPassages inp) = Inr digest"
    using p by (auto simp: prepare_passages_def bind_res_eq_Inr Let_def split: if_splits)
  have l: "logs db (vc_passages (md_receipts db)) operation digest ops r" if "w = Write ops r" for ops r
    using p that d by (auto simp: prepare_passages_def bind_res_eq_Inr Let_def split: if_splits
        dest!: unless_replayed_Write no_op_batches finish_logs)
  show ?thesis unfolding replayable_def
  proof (intro exI [of _ digest] conjI allI)
    show "\<exists>body. prepare_passages db env ks operation input = unless_replayed db ks (vc_passages (md_receipts db)) operation digest body \<and> fresh_body body"
      for env ks by (intro exI conjI, simp add: prepare_passages_def d) (auto simp: fresh_body_defs split: if_splits)
  qed (use l in blast)
qed

lemma replayable_purge:
  assumes p: "prepare_purge db env ks operation preview = Inr w"
  shows "replayable db (vc_purge (md_receipts db)) operation (\<lambda>env ks. prepare_purge db env ks operation preview) w"
proof -
  obtain digest where d: "oc_actor operation = Operator" "mutation_digest db ''commit_purge'' Operator (MuPurge preview) = Inr digest"
    using p by (auto simp: prepare_purge_def bind_res_eq_Inr Let_def split: if_splits)
  have l: "logs db (vc_purge (md_receipts db)) operation digest ops r" if "w = Write ops r" for ops r
    using p that d by (auto simp: prepare_purge_def bind_res_eq_Inr Let_def split: if_splits
        dest!: unless_replayed_Write no_op_purge finish_logs)
  show ?thesis unfolding replayable_def
  proof (intro exI [of _ digest] conjI allI)
    show "\<exists>body. prepare_purge db env ks operation preview = unless_replayed db ks (vc_purge (md_receipts db)) operation digest body \<and> fresh_body body"
      for env ks by (intro exI conjI, simp add: prepare_purge_def d Let_def) (auto simp: fresh_body_defs split: if_splits)
  qed (use l in blast)
qed

section \<open>Receipts stay\<close>

definition value_codec_ok :: "'r value_codec \<Rightarrow> 'r \<Rightarrow> bool" where
  "value_codec_ok vc r \<longleftrightarrow> (\<forall>v. to_value vc r = Inr v \<longrightarrow> from_value vc v = Inr r)"

definition receipts_stay :: "kv_view \<Rightarrow> kv_view \<Rightarrow> bool" where
  "receipts_stay m m' \<longleftrightarrow>
     (\<forall>i b. m (part_name P_OPERATIONS) (id_key i) = Some b \<longrightarrow> m' (part_name P_OPERATIONS) (id_key i) = Some b)"

lemma receipts_stay_refl [simp]: "receipts_stay m m"
  by (simp add: receipts_stay_def)

lemma receipts_stay_trans: "receipts_stay m m' \<Longrightarrow> receipts_stay m' m'' \<Longrightarrow> receipts_stay m m''"
  by (simp add: receipts_stay_def)

context memory_store
begin

lemma replayed_None:
  assumes "replayed_operation db ks vc i digest = Inr None"
  shows "view ks (part_name P_OPERATIONS) (id_key i) = None"
  using assms by (auto simp: replayed_operation_def get_decoded_def bind_res_eq_Inr split: option.splits if_splits)

text \<open>A logged batch leaves every stored receipt in place and stores its own.\<close>

lemma logged_commit:
  assumes "logs db vc operation digest ops r" "view ks' = apply_ops ops (view ks)"
  shows "view ks (part_name P_OPERATIONS) (id_key (oc_id operation)) = None \<Longrightarrow> receipts_stay (view ks) (view ks')"
    and "value_codec_ok vc r \<Longrightarrow> replayed_operation db ks' vc (oc_id operation) digest = Inr (Some r)"
proof -
  obtain batch v b where b: "to_value vc r = Inr v" "encode (mc_operation (md_codecs db)) \<lparr>so_digest = digest, so_receipt = v\<rparr> = Inr b"
    "ops = batch @ [put P_OPERATIONS (id_key (oc_id operation)) b]" "no_op batch"
    using assms(1) unfolding logs_def by blast
  have v: "view ks' (part_name P_OPERATIONS) = (view ks (part_name P_OPERATIONS))(id_key (oc_id operation) \<mapsto> b)"
    using no_op_apply [OF b(4), of "view ks"] by (simp add: assms(2) b(3) apply_ops_append)
  then show "view ks (part_name P_OPERATIONS) (id_key (oc_id operation)) = None \<Longrightarrow> receipts_stay (view ks) (view ks')"
    by (auto simp: receipts_stay_def)
  have "de (mc_operation (md_codecs db)) b = Inr \<lparr>so_digest = digest, so_receipt = v\<rparr>"
    using b(2) by (simp add: encode_enc) (metis codec(21) de_enc)
  then show "value_codec_ok vc r \<Longrightarrow> replayed_operation db ks' vc (oc_id operation) digest = Inr (Some r)"
    using v b(1) by (simp add: replayed_operation_def get_decoded_def value_codec_ok_def)
qed

lemma replayable_written:
  assumes "replayable db vc operation prepare w" "prepare env ks = Inr w" "w = Write ops r"
  shows "view ks (part_name P_OPERATIONS) (id_key (oc_id operation)) = None"
proof -
  obtain digest body where "prepare env ks = unless_replayed db ks vc operation digest body"
    using assms(1) unfolding replayable_def by blast
  then have "replayed_operation db ks vc (oc_id operation) digest = Inr None"
    using unless_replayed_cases(1) assms(2,3) by metis
  then show ?thesis by (rule replayed_None)
qed

lemma run_view:
  "view (snd (run_mutation db ks (Inr (Write ops r)))) = apply_ops ops (view ks)"
  "fst (run_mutation db ks (Inr (Write ops r))) = Inr r"
  by (simp_all add: run_mutation_def bind_st_def lift_err_def commit_ok commit_view split_def)

lemma run_receipts:
  assumes "\<And>w. prepare env ks = Inr w \<Longrightarrow> replayable db vc operation prepare w"
  shows "receipts_stay (view ks) (view (snd (run_mutation db ks (prepare env ks))))"
proof (cases "\<exists>ops r. prepare env ks = Inr (Write ops r)")
  case True
  then obtain ops r where w: "prepare env ks = Inr (Write ops r)" by blast
  obtain digest where "logs db vc operation digest ops r" using assms [OF w] unfolding replayable_def by blast
  then show ?thesis
    using logged_commit(1) [OF _ run_view(1), of vc operation digest ops r ks r]
      replayable_written [where env = env, OF assms [OF w] w refl] unfolding w by blast
next
  case False
  then have "snd (run_mutation db ks (prepare env ks)) = ks"
    by (auto simp: run_mutation_def split: sum.splits prepared.splits)
  then show ?thesis by simp
qed

theorem mem_step_receipts:
  assumes "mem_step db ks ks'"
  shows "receipts_stay (view ks) (view ks')"
  using assms
proof (induction rule: mem_step.induct)
  case (step_capture env ks input operation)
  show ?case unfolding capture_evidence_def by (rule run_receipts) (rule replayable_capture)
next
  case (step_retract ks env operation t e)
  show ?case unfolding retract_def by (rule run_receipts) (rule replayable_retract)
next
  case (step_remember env ks input operation)
  show ?case unfolding remember_user_claim_def by (rule run_receipts) (rule replayable_remember)
next
  case (step_correct env ks input operation)
  show ?case unfolding correct_user_claim_def by (rule run_receipts) (rule replayable_correct)
next
  case (step_claim env ks input operation)
  show ?case unfolding create_claim_def by (rule run_receipts) (rule replayable_claim)
next
  case (step_relation env ks operation input)
  show ?case unfolding create_semantic_relation_def by (rule run_receipts) (rule replayable_relation)
next
  case (step_collection env ks input operation)
  show ?case unfolding create_artifact_collection_def by (rule run_receipts) (rule replayable_collection)
next
  case (step_snapshot env ks input operation)
  show ?case unfolding import_artifact_snapshot_def by (rule run_receipts) (rule replayable_snapshot)
next
  case (step_passages env ks input operation)
  show ?case unfolding create_artifact_passages_def by (rule run_receipts) (rule replayable_passages)
next
  case (step_recall ks env query excluded)
  have "no_op ops" if "prepare_recall db env ks query excluded = Inr (Write ops r)" for ops r
    using that by (auto simp: prepare_recall_def bind_res_eq_Inr Let_def)
  then show ?case
    unfolding recall_locked_def
    by (auto simp: run_mutation_def bind_st_def lift_err_def commit_ok commit_view split_def receipts_stay_def no_op_apply
        split: sum.splits prepared.splits)
next
  case (step_purge ks env operation preview)
  show ?case unfolding commit_purge_def by (rule run_receipts) (rule replayable_purge)
qed

lemma mem_run_receipts: "(mem_step db)\<^sup>*\<^sup>* ks ks' \<Longrightarrow> receipts_stay (view ks) (view ks')"
proof (induction rule: rtranclp_induct)
  case (step y z)
  then show ?case using mem_step_receipts receipts_stay_trans by blast
qed simp

text \<open>A call whose receipt is stored returns it again.\<close>

lemma receipts_replay:
  assumes "receipts_stay (view ks) (view ks')" "replayed_operation db ks vc i digest = Inr (Some r)"
  shows "replayed_operation db ks' vc i digest = Inr (Some r)"
proof -
  obtain b where b: "view ks (part_name P_OPERATIONS) (id_key i) = Some b"
    using assms(2) by (cases "view ks (part_name P_OPERATIONS) (id_key i)") (auto simp: replayed_operation_def get_decoded_def)
  then have "view ks' (part_name P_OPERATIONS) (id_key i) = Some b" using assms(1) by (simp add: receipts_stay_def)
  then show ?thesis using assms(2) b by (simp add: replayed_operation_def get_decoded_def)
qed

theorem replay_once:
  assumes rep: "\<And>env ks w. prepare env ks = Inr w \<Longrightarrow> replayable db vc operation prepare w"
    and first: "run_mutation db ks (prepare env ks) = (Inr r, ks1)" and vc: "value_codec_ok vc r"
    and later: "(mem_step db)\<^sup>*\<^sup>* ks1 ks2"
  shows "run_mutation db ks2 (prepare env' ks2) = (Inr r, ks2)"
proof -
  obtain w where w: "prepare env ks = Inr w" using first by (cases "prepare env ks") (auto simp: run_mutation_def)
  obtain digest where d: "\<forall>ops r. w = Write ops r \<longrightarrow> logs db vc operation digest ops r"
    "\<forall>env ks. \<exists>body. prepare env ks = unless_replayed db ks vc operation digest body \<and> fresh_body body"
    using rep [OF w] unfolding replayable_def by blast
  have "replayed_operation db ks1 vc (oc_id operation) digest = Inr (Some r)"
  proof (cases w)
    case (Replayed x)
    then have "x = r" "ks1 = ks" using first w by (auto simp: run_mutation_def)
    obtain body where "unless_replayed db ks vc operation digest body = Inr (Replayed r)" "fresh_body body"
      using d(2) w Replayed \<open>x = r\<close> by metis
    then show ?thesis using \<open>ks1 = ks\<close>
      by (auto simp: unless_replayed_def fresh_body_def bind_res_eq_Inr split: option.splits)
  next
    case (Write ops x)
    have run: "run_mutation db ks (Inr (Write ops x)) = (Inr r, ks1)" using first w Write by simp
    have "x = r" "view ks1 = apply_ops ops (view ks)"
      using run_view [of ks ops x] unfolding run by simp_all
    then show ?thesis using logged_commit(2) [OF _ _ vc] d(1) Write by blast
  qed
  then have "replayed_operation db ks2 vc (oc_id operation) digest = Inr (Some r)"
    by (rule receipts_replay [OF mem_run_receipts [OF later]])
  then have "prepare env' ks2 = Inr (Replayed r)" using d(2) unless_replayed_found(1) by metis
  then show ?thesis by (simp add: run_mutation_def)
qed

end

end
