(* ===== verification/Memory_Sample.thy ===== *)
theory Memory_Sample
  imports Memory_Replay "HOL-Library.Countable"
begin

text \<open>
  A concrete memory store: the in-memory key-value engine and codecs that write the index of a
  value in an enumeration of its type, which shows that the hypotheses on the engine and the
  serializer can hold together. The contract of the store is interpreted on it.
\<close>

section \<open>Values that can be enumerated\<close>

instance json_number :: countable
  by countable_datatype

instance json :: countable
  by countable_datatype

instance evidence_class :: countable
  by countable_datatype

instance actor :: countable
  by countable_datatype

instance scope :: countable
  by countable_datatype

instance temporal_facts_ext :: (countable) countable
  by (rule countable_classI [of "\<lambda>r. to_nat (tf_observed_at_ms r, tf_source_at_ms r, tf_valid_from_ms r, tf_valid_to_ms r, temporal_facts.more r)"]) (simp add: temporal_facts.equality)

instance terminal_turn_status :: countable
  by countable_datatype

instance evidence_lifecycle_truth :: countable
  by countable_datatype

instance evidence_header_ext :: (countable) countable
  by (rule countable_classI [of "\<lambda>r. to_nat (eh_id r, eh_class r, eh_captured_by r, eh_scope r, eh_temporal r, eh_lifecycle r, eh_recorded_at_ms r, eh_operation_id r, evidence_header.more r)"]) (simp add: evidence_header.equality)

instance record_state :: countable
  by countable_datatype

instance availability_ext :: (countable) countable
  by (rule countable_classI [of "\<lambda>r. to_nat (av_id r, av_revision r, av_state r, av_recorded_at_ms r, av_operation_id r, availability.more r)"]) (simp add: availability.equality)

instance claim_domain :: countable
  by countable_datatype

instance claim_header_ext :: (countable) countable
  by (rule countable_classI [of "\<lambda>r. to_nat (ch_id r, ch_revision r, ch_previous_revision r, ch_domain r, ch_scope r, ch_temporal r, ch_evidence_ids r, ch_state r, ch_recorded_at_ms r, ch_operation_id r, claim_header.more r)"]) (simp add: claim_header.equality)

instance entity_kind :: countable
  by countable_datatype

instance entity_header_ext :: (countable) countable
  by (rule countable_classI [of "\<lambda>r. to_nat (nh_id r, nh_revision r, nh_previous_revision r, nh_kind r, nh_scope r, nh_temporal r, nh_evidence_ids r, nh_state r, nh_recorded_at_ms r, nh_operation_id r, entity_header.more r)"]) (simp add: entity_header.equality)

instance entity_payload_ext :: (countable) countable
  by (rule countable_classI [of "\<lambda>r. to_nat (np_canonical_name r, np_aliases r, entity_payload.more r)"]) (simp add: entity_payload.equality)

instance record_ref :: countable
  by countable_datatype

instance relation_kind :: countable
  by countable_datatype

instance relation_header_ext :: (countable) countable
  by (rule countable_classI [of "\<lambda>r. to_nat (lh_id r, lh_revision r, lh_previous_revision r, lh_from r, lh_to r, lh_kind r, lh_scope r, lh_evidence_ids r, lh_state r, lh_recorded_at_ms r, lh_operation_id r, relation_header.more r)"]) (simp add: relation_header.equality)

instance relation_payload_ext :: (countable) countable
  by (rule countable_classI [of "\<lambda>r. to_nat (lp_qualifier r, relation_payload.more r)"]) (simp add: relation_payload.equality)

instance proposal_status :: countable
  by countable_datatype

instance proposal_header_ext :: (countable) countable
  by (rule countable_classI [of "\<lambda>r. to_nat (ph_id r, ph_revision r, ph_previous_revision r, ph_source_job_id r, ph_scope r, ph_status r, ph_state r, ph_recorded_at_ms r, ph_operation_id r, proposal_header.more r)"]) (simp add: proposal_header.equality)

instance evidence_pin_ext :: (countable) countable
  by (rule countable_classI [of "\<lambda>r. to_nat (ep_id r, ep_revision r, evidence_pin.more r)"]) (simp add: evidence_pin.equality)

instance record_pin_ext :: (countable) countable
  by (rule countable_classI [of "\<lambda>r. to_nat (rp_record r, rp_revision r, record_pin.more r)"]) (simp add: record_pin.equality)

instance proposal_endpoint :: countable
  by countable_datatype

instance proposal_change :: countable
  by countable_datatype

instance proposal_payload_ext :: (countable) countable
  by (rule countable_classI [of "\<lambda>r. to_nat (pp_source_evidence r, pp_changes r, proposal_payload.more r)"]) (simp add: proposal_payload.equality)

instance review_verdict :: countable
  by countable_datatype

instance review_header_ext :: (countable) countable
  by (rule countable_classI [of "\<lambda>r. to_nat (wh_id r, wh_revision r, wh_previous_revision r, wh_proposal_id r, wh_proposal_revision r, wh_recall_case_id r, wh_recall_case_revision r, wh_verdict r, wh_scope r, wh_state r, wh_recorded_at_ms r, wh_operation_id r, review_header.more r)"]) (simp add: review_header.equality)

instance review_finding_code :: countable
  by countable_datatype

instance review_finding_ext :: (countable) countable
  by (rule countable_classI [of "\<lambda>r. to_nat (rf_code r, rf_change_index r, rf_pins r, review_finding.more r)"]) (simp add: review_finding.equality)

instance review_payload_ext :: (countable) countable
  by (rule countable_classI [of "\<lambda>r. to_nat (wp_findings r, review_payload.more r)"]) (simp add: review_payload.equality)

instance collection_header_ext :: (countable) countable
  by (rule countable_classI [of "\<lambda>r. to_nat (ach_id r, ach_scope r, ach_created_by r, ach_recorded_at_ms r, ach_operation_id r, collection_header.more r)"]) (simp add: collection_header.equality)

instance snapshot_header_ext :: (countable) countable
  by (rule countable_classI [of "\<lambda>r. to_nat (ash_id r, ash_collection_id r, ash_evidence_id r, ash_scope r, ash_temporal r, ash_byte_len r, ash_recorded_at_ms r, ash_operation_id r, snapshot_header.more r)"]) (simp add: snapshot_header.equality)

instance snapshot_payload_ext :: (countable) countable
  by (rule countable_classI [of "\<lambda>r. to_nat (asp_media_type r, asp_content_digest r, snapshot_payload.more r)"]) (simp add: snapshot_payload.equality)

instance artifact_range_ext :: (countable) countable
  by (rule countable_classI [of "\<lambda>r. to_nat (ar_start r, ar_end_exclusive r, artifact_range.more r)"]) (simp add: artifact_range.equality)

instance artifact_locator_ext :: (countable) countable
  by (rule countable_classI [of "\<lambda>r. to_nat (al_ordinal r, al_byte_range r, al_page_range r, al_time_range_ms r, artifact_locator.more r)"]) (simp add: artifact_locator.equality)

instance passage_header_ext :: (countable) countable
  by (rule countable_classI [of "\<lambda>r. to_nat (aph_id r, aph_collection_id r, aph_snapshot_id r, aph_evidence_id r, aph_scope r, aph_temporal r, aph_locator r, aph_recorded_at_ms r, aph_operation_id r, passage_header.more r)"]) (simp add: passage_header.equality)

instance artifact_provenance :: countable
  by countable_datatype

instance lexical_document_ext :: (countable) countable
  by (rule countable_classI [of "\<lambda>r. to_nat (ld_record r, ld_revision r, ld_scope r, ld_temporal r, ld_term_hashes r, ld_exact_hash r, lexical_document.more r)"]) (simp add: lexical_document.equality)

instance case_candidate_ext :: (countable) countable
  by (rule countable_classI [of "\<lambda>r. to_nat (kc_record r, kc_revision r, kc_rank r, kc_exact_match r, kc_matched_term_count r, case_candidate.more r)"]) (simp add: case_candidate.equality)

instance recall_case_ext :: (countable) countable
  by (rule countable_classI [of "\<lambda>r. to_nat (kr_id r, kr_revision r, kr_era_id r, kr_query_digest r, kr_scopes r, kr_candidates r, kr_recorded_at_ms r, recall_case.more r)"]) (simp add: recall_case.equality)

instance audit_action :: countable
  by countable_datatype

instance derived_record_ref :: countable
  by countable_datatype

instance proposal_decision :: countable
  by countable_datatype

instance adjudication_authority :: countable
  by countable_datatype

instance adjudication_audit_ext :: (countable) countable
  by (rule countable_classI [of "\<lambda>r. to_nat (aj_decision r, aj_authority r, adjudication_audit.more r)"]) (simp add: adjudication_audit.equality)

instance audit_outcome :: countable
  by countable_datatype

instance audit_event_ext :: (countable) countable
  by (rule countable_classI [of "\<lambda>r. to_nat (ae_id r, ae_era_id r, ae_operation_id r, ae_actor r, ae_action r, ae_subjects r, ae_derived_subjects r, ae_adjudication r, ae_outcome r, ae_recorded_at_ms r, audit_event.more r)"]) (simp add: audit_event.equality)

instance stored_operation_ext :: (countable) countable
  by (rule countable_classI [of "\<lambda>r. to_nat (so_digest r, so_receipt r, stored_operation.more r)"]) (simp add: stored_operation.equality)

instance evidence_receipt_ext :: (countable) countable
  by (rule countable_classI [of "\<lambda>r. to_nat (vr_id r, vr_availability_revision r, evidence_receipt.more r)"]) (simp add: evidence_receipt.equality)

instance record_revision_ext :: (countable) countable
  by (rule countable_classI [of "\<lambda>r. to_nat (rv_record r, rv_revision r, rv_state r, record_revision.more r)"]) (simp add: record_revision.equality)

instance retraction_receipt_ext :: (countable) countable
  by (rule countable_classI [of "\<lambda>r. to_nat (tr_target r, tr_invalidated r, retraction_receipt.more r)"]) (simp add: retraction_receipt.equality)

instance record_receipt_ext :: (countable) countable
  by (rule countable_classI [of "\<lambda>r. to_nat (rr_id r, rr_revision r, rr_state r, record_receipt.more r)"]) (simp add: record_receipt.equality)

instance remember_receipt_ext :: (countable) countable
  by (rule countable_classI [of "\<lambda>r. to_nat (mr_evidence r, mr_claim r, remember_receipt.more r)"]) (simp add: remember_receipt.equality)

instance correction_receipt_ext :: (countable) countable
  by (rule countable_classI [of "\<lambda>r. to_nat (xr_evidence r, xr_superseded r, xr_replacement r, xr_supersedes_relation r, xr_invalidated r, correction_receipt.more r)"]) (simp add: correction_receipt.equality)

instance collection_receipt_ext :: (countable) countable
  by (rule countable_classI [of "\<lambda>r. to_nat (acp_id r, acp_availability_revision r, collection_receipt.more r)"]) (simp add: collection_receipt.equality)

instance snapshot_receipt_ext :: (countable) countable
  by (rule countable_classI [of "\<lambda>r. to_nat (ast_id r, ast_availability_revision r, ast_evidence r, snapshot_receipt.more r)"]) (simp add: snapshot_receipt.equality)

instance passage_receipt_ext :: (countable) countable
  by (rule countable_classI [of "\<lambda>r. to_nat (app_id r, app_availability_revision r, app_evidence r, passage_receipt.more r)"]) (simp add: passage_receipt.equality)

instance signal_pin_ext :: (countable) countable
  by (rule countable_classI [of "\<lambda>r. to_nat (sp_id r, sp_revision r, signal_pin.more r)"]) (simp add: signal_pin.equality)

instance evaluator_pin_ext :: (countable) countable
  by (rule countable_classI [of "\<lambda>r. to_nat (vp_id r, vp_revision r, evaluator_pin.more r)"]) (simp add: evaluator_pin.equality)

instance profile_pin_ext :: (countable) countable
  by (rule countable_classI [of "\<lambda>r. to_nat (fp_id r, fp_revision r, profile_pin.more r)"]) (simp add: profile_pin.equality)

instance signal_header_ext :: (countable) countable
  by (rule countable_classI [of "\<lambda>r. to_nat (gh_id r, gh_revision r, gh_previous_revision r, gh_evaluator r, gh_profile r, gh_from r, gh_to r, gh_state r, gh_recorded_at_ms r, gh_operation_id r, signal_header.more r)"]) (simp add: signal_header.equality)

instance purge_receipt_ext :: (countable) countable
  by (rule countable_classI [of "\<lambda>r. to_nat (pq_target r, pq_invalidated r, pq_purged_relation_signals r, pq_purged_activation_traces r, pq_payloads_made_unavailable r, purge_receipt.more r)"]) (simp add: purge_receipt.equality)


section \<open>The store\<close>

definition count_codec :: "'a::countable codec" where
  "count_codec = \<lparr>ser = (\<lambda>x. Inr (replicate (to_nat x) 0)), de = (\<lambda>b. Inr (from_nat (length b)))\<rparr>"

definition count_value :: "'a::countable value_codec" where
  "count_value = \<lparr>to_value = (\<lambda>x. Inr (JArray (replicate (to_nat x) JNull))),
     from_value = (\<lambda>v. case v of JArray xs \<Rightarrow> Inr (from_nat (length xs)) | _ \<Rightarrow> Inl ''not an index'')\<rparr>"

lemma count_codec_ok [simp]: "codec_ok count_codec x"
  by (simp add: codec_ok_def count_codec_def)

lemma count_value_ok [simp]: "value_codec_ok count_value x"
  by (simp add: value_codec_ok_def count_value_def)

definition sample_hash :: "bytes \<Rightarrow> digest" where
  "sample_hash b = take 32 (b @ replicate 32 0)"

definition sample_unicode :: unicode where
  "sample_unicode = \<lparr>uc_to_lowercase = (\<lambda>c. [if 65 \<le> c \<and> c \<le> 90 then c + 32 else c]),
     uc_is_alphanumeric = (\<lambda>c. 48 \<le> c \<and> c \<le> 57 \<or> 65 \<le> c \<and> c \<le> 90 \<or> 97 \<le> c \<and> c \<le> 122)\<rparr>"

definition sample_codecs :: memory_codecs where
  "sample_codecs = \<lparr>mc_evidence = count_codec, mc_evidence_availability = count_codec, mc_claim = count_codec,
     mc_entity = count_codec, mc_entity_payload = count_codec, mc_relation = count_codec, mc_relation_payload = count_codec,
     mc_proposal = count_codec, mc_proposal_payload = count_codec, mc_review = count_codec, mc_review_payload = count_codec,
     mc_collection = count_codec, mc_snapshot = count_codec, mc_snapshot_payload = count_codec, mc_passage = count_codec,
     mc_artifact_availability = count_codec, mc_provenance = count_codec, mc_lexical = count_codec, mc_recall_case = count_codec,
     mc_audit = count_codec, mc_operation = count_codec, mc_signal = count_codec\<rparr>"

definition sample_receipts :: memory_receipts where
  "sample_receipts = \<lparr>vc_evidence = count_value, vc_retraction = count_value, vc_remember = count_value,
     vc_correction = count_value, vc_record = count_value, vc_collection = count_value, vc_snapshot = count_value,
     vc_passages = count_value, vc_purge = count_value\<rparr>"

definition sample_memory :: "mem memory_db" where
  "sample_memory = \<lparr>md_kv = mem_kv, md_codecs = sample_codecs, md_receipts = sample_receipts, md_era_id = 1,
     md_digest_key = replicate 32 7, md_keyed_hash = (\<lambda>k b. sample_hash b), md_hash = sample_hash,
     md_digest_input = (\<lambda>n a i. Inr (as_bytes n)), md_snapshot_metadata = (\<lambda>i v t m. Inr (as_bytes m)),
     md_query_bytes = (\<lambda>q. Inr (as_bytes (rq_text q))), md_purge_token = (\<lambda>t. Inr (u64_be (pt_expected_revision t))), md_show_id = (\<lambda>i. ''id''), md_utf8_error = (\<lambda>b. ''invalid utf-8''),
     md_unicode = sample_unicode\<rparr>"

lemma sample_simps [simp]:
  "md_kv sample_memory = mem_kv" "md_codecs sample_memory = sample_codecs" "md_receipts sample_memory = sample_receipts"
  by (simp_all add: sample_memory_def)

lemma sample_codecs_ok [simp]: "codecs_ok sample_codecs"
  by (simp add: codecs_ok_def sample_codecs_def)

interpretation sample_store: memory_store sample_memory mem_view
  by (rule memory_store.intro) (simp_all add: mem.kv_engine_axioms memory_store_axioms_def)

text \<open>An empty store, and the identifiers and the clock of a call.\<close>

definition sample_env :: "nat \<Rightarrow> env" where
  "sample_env n = \<lparr>env_now = (\<lambda>_. 1000), env_ids = (\<lambda>k. word_of_nat (n + k))\<rparr>"

lemma sample_empty_inv: "mem_inv sample_memory (mem_view mem_empty)"
  by (rule empty_inv) (simp add: mem_view_def mem_empty_def)

lemma sample_ids_inj: "n \<le> 1000000 \<Longrightarrow> inj_on (env_ids (sample_env n)) {..MAX_IDS}"
  by (auto simp: inj_on_def sample_env_def MAX_IDS_def MAX_ARTIFACT_PASSAGE_BATCH_def unat_of_nat
      dest!: arg_cong [where f = unat])

lemma sample_fresh: "n \<le> 1000000 \<Longrightarrow> fresh_env sample_memory (sample_env n) mem_empty"
proof -
  assume "n \<le> 1000000"
  moreover have "obs sample_memory (mem_view mem_empty) r = None" for r
    by (cases r) (simp_all add: mem_view_def mem_empty_def obs_avail_def current_def head_of_def stored_at_def)
  ultimately show ?thesis
    using sample_ids_inj sample_store.status_view [OF mem_invD(1) [OF sample_empty_inv]] by (simp add: fresh_env_def status_of_def)
qed

end
