(* ===== verification/Memory_Props.thy ===== *)
theory Memory_Props
  imports Memory_Sample
begin

text \<open>
  The properties of the memory store, stated over its operations. A store starts empty and changes
  only by the modelled calls, any number of them, failed and repeated ones included
  (\<open>mem_step\<close>): capture, retract, remember, correct, creation of claims, relations, artifact
  collections, snapshots and passages, recall, and committing a purge. A store that also adjudicates
  proposals is outside these properties: \<^verbatim>\<open>adjudicate_proposal\<close> applies a bundle of changes whose
  created records are not checked against what the same bundle takes down. The key-value engine
  keeps its contract and the serializer its round trip.
\<close>

section \<open>Stores\<close>

definition reachable_store :: "'ks memory_db \<Rightarrow> ('ks \<Rightarrow> kv_view) \<Rightarrow> 'ks \<Rightarrow> bool" where
  "reachable_store db view ks \<longleftrightarrow>
     kv_engine (md_kv db) view \<and> codecs_ok (md_codecs db) \<and>
     (\<exists>ks0. (\<forall>p k. view ks0 p k = None) \<and> (mem_step db)\<^sup>*\<^sup>* ks0 ks)"

lemma reachable_memory_store: "reachable_store db view ks \<Longrightarrow> memory_store db view"
  by (simp add: reachable_store_def memory_store_def memory_store_axioms_def)

lemma reachable_inv:
  assumes "reachable_store db view ks"
  shows "mem_inv db (view ks)"
proof -
  obtain ks0 where "\<And>p k. view ks0 p k = None" and run: "(mem_step db)\<^sup>*\<^sup>* ks0 ks"
    using assms by (auto simp: reachable_store_def)
  then have "mem_inv db (view ks0)" by (intro empty_inv)
  then show ?thesis using memory_store.mem_run_keeps [OF reachable_memory_store [OF assms] run] by blast
qed

lemma reachable_step: "reachable_store db view ks \<Longrightarrow> (mem_step db)\<^sup>*\<^sup>* ks ks' \<Longrightarrow> reachable_store db view ks'"
  unfolding reachable_store_def using rtranclp_trans by metis

lemma reachable_status:
  assumes "reachable_store db view ks"
  shows "record_scope_state_revision db ks r = status_of r (obs db (view ks) r)"
  by (rule memory_store.status_view [OF reachable_memory_store [OF assms] mem_invD(1) [OF reachable_inv [OF assms]]])

lemma status_active_iff: "(\<exists>sc v. status_of r (obs db m r) = Inr (sc, Active, v)) \<longleftrightarrow> active db m r"
  by (auto simp: status_of_def active_def split: option.splits)

section \<open>A call that succeeds\<close>

context memory_store
begin

lemma insert_evidence_ok: "\<exists>ops. insert_evidence_record db h t = Inr ops"
  by (simp add: insert_evidence_record_def insert_lexical_document_def Let_def encode_enc)

lemma insert_claim_ok: "\<exists>ops. insert_claim_record db h t = Inr ops"
  by (simp add: insert_claim_record_def insert_lexical_document_def Let_def encode_enc)

lemma finish_ok: "to_value vc receipt = Inr v \<Longrightarrow> \<exists>ops. finish db vc operation digest receipt audit batch = Inr (Write ops receipt)"
  by (simp add: finish_def insert_audit_def insert_operation_def encode_enc)

lemma unreplayed:
  "view ks (part_name P_OPERATIONS) (id_key (oc_id operation)) = None \<Longrightarrow> unless_replayed db ks vc operation digest body = body"
  by (simp add: unless_replayed_def replayed_operation_def get_decoded_def)

end

lemma user_domains: "source_is_admissible UserAssertion d \<Longrightarrow> validate_claim_activation User d [UserAssertion] = Inr ()"
  by (cases d) auto

definition remembered :: "env \<Rightarrow> remember_receipt" where
  "remembered env = \<lparr>mr_evidence = \<lparr>vr_id = env_ids env 0, vr_availability_revision = 1\<rparr>,
     mr_claim = new_record_receipt (env_ids env 1)\<rparr>"

text \<open>What a remembered claim asks of its caller.\<close>

definition rememberable ::
    "'ks memory_db \<Rightarrow> ('ks \<Rightarrow> kv_view) \<Rightarrow> 'ks \<Rightarrow> operation_context \<Rightarrow> remember_claim \<Rightarrow> string \<Rightarrow> string \<Rightarrow> bool" where
  "rememberable db view ks operation input et pt \<longleftrightarrow>
     oc_actor operation = User \<and> validate_temporal (rm_temporal input) = Inr () \<and>
     validate_text (rm_evidence_text input) ''evidence text'' = Inr et \<and>
     validate_text (rm_proposition input) ''claim proposition'' = Inr pt \<and>
     source_is_admissible UserAssertion (rm_domain input) \<and>
     (\<exists>d. mutation_digest db ''remember_user_claim'' User (MuRemember (input\<lparr>rm_evidence_text := et, rm_proposition := pt\<rparr>)) = Inr d) \<and>
     view ks (part_name P_OPERATIONS) (id_key (oc_id operation)) = None \<and>
     (\<forall>r. \<exists>v. to_value (vc_remember (md_receipts db)) r = Inr v)"

lemma remember_writes:
  assumes "reachable_store db view ks" "rememberable db view ks operation input et pt"
  obtains ops where "prepare_remember db env ks operation input = Inr (Write ops (remembered env))"
proof -
  note S = reachable_memory_store [OF assms(1)]
  note a = assms(2) [unfolded rememberable_def]
  obtain d where d: "mutation_digest db ''remember_user_claim'' User (MuRemember (input\<lparr>rm_evidence_text := et, rm_proposition := pt\<rparr>)) = Inr d"
    using a by blast
  let ?h = "new_evidence_header (env_ids env 0) UserAssertion User (rm_scope input) (rm_temporal input) DirectTruth (env_now env 0) (oc_id operation)"
  let ?g = "new_claim_header (env_ids env 1) (rm_domain input) (rm_scope input) (rm_temporal input) [env_ids env 0] (env_now env 0) (oc_id operation)"
  obtain ev cl where ev: "insert_evidence_record db ?h et = Inr ev" and cl: "insert_claim_record db ?g pt = Inr cl"
    using memory_store.insert_evidence_ok [OF S] memory_store.insert_claim_ok [OF S] by metis
  obtain v where "to_value (vc_remember (md_receipts db)) (remembered env) = Inr v" using a by blast
  then obtain ops where "finish db (vc_remember (md_receipts db)) operation d (remembered env)
      (new_audit_event db (env_ids env 2) operation UserClaimRemembered [REvidence (env_ids env 0), RClaim (env_ids env 1)] (env_now env 0))
      (ev @ cl) = Inr (Write ops (remembered env))"
    using memory_store.finish_ok [OF S] by metis
  then have "prepare_remember db env ks operation input = Inr (Write ops (remembered env))"
    using a d ev cl user_domains [of "rm_domain input"] memory_store.unreplayed [OF S, of ks operation]
    by (simp add: prepare_remember_def Let_def remembered_def del: source_is_admissible.simps validate_claim_activation.simps)
  then show ?thesis by (rule that)
qed

lemma inspect_claim_read:
  assumes "reachable_store db view ks" "obs db (view ks) (RClaim i) = Some (KClaim d t ids, sc, st, v)"
  obtains c where "inspect_claim db ks i = Inr (Some c)" "ch_domain (cr_header c) = d" "ch_evidence_ids (cr_header c) = ids"
    "ch_scope (cr_header c) = sc" "ch_state (cr_header c) = st" "ch_revision (cr_header c) = v"
    "cr_proposition c = readable st (payload_text (view ks) (RClaim i))"
  using assms(2) memory_store.inspect_claim_view [OF reachable_memory_store [OF assms(1)] mem_invD(1) [OF reachable_inv [OF assms(1)]], of i]
  by (auto intro: that)

lemma inspect_evidence_read:
  assumes "reachable_store db view ks" "obs db (view ks) (REvidence i) = Some (KEvidence h, sc, st, v)"
  obtains e where "inspect_evidence db ks i = Inr (Some e)" "er_header e = h" "av_state (er_availability e) = st"
    "av_revision (er_availability e) = v" "er_text e = readable st (payload_text (view ks) (REvidence i))"
  using assms(2) memory_store.inspect_evidence_view [OF reachable_memory_store [OF assms(1)] mem_invD(1) [OF reachable_inv [OF assms(1)]], of i]
  by (auto simp: obs_avail_def bind_eq_Some_conv intro: that)

text \<open>What a remembered claim adds to the store.\<close>

definition remembered_records :: "env \<Rightarrow> operation_context \<Rightarrow> remember_claim \<Rightarrow> record_ref \<rightharpoonup> rec_content \<times> scope" where
  "remembered_records env operation input =
     [REvidence (env_ids env 0) \<mapsto> (KEvidence (new_evidence_header (env_ids env 0) UserAssertion User (rm_scope input)
        (rm_temporal input) DirectTruth (env_now env 0) (oc_id operation)), rm_scope input),
      RClaim (env_ids env 1) \<mapsto> (KClaim (rm_domain input) (rm_temporal input) [env_ids env 0], rm_scope input)]"

lemma replayable_log:
  assumes "replayable db vc operation prepare (Write ops r)"
  shows "\<exists>b. apply_ops ops m (part_name P_OPERATIONS) = (m (part_name P_OPERATIONS))(id_key (oc_id operation) \<mapsto> b)"
  using assms no_op_apply [of _ m] by (auto simp: replayable_def logs_def apply_ops_append)

lemma remember_view:
  assumes R: "reachable_store db view ks" and ok: "rememberable db view ks operation input et pt" and fresh: "fresh_env db env ks"
    and utf8: "utf8_valid (as_bytes (rm_evidence_text input))" "utf8_valid (as_bytes (rm_proposition input))"
  obtains ks' where "remember_user_claim db env ks operation input = (Inr (remembered env), ks')" "reachable_store db view ks'"
    "created db (view ks) (remembered_records env operation input) {(REvidence (env_ids env 0), RClaim (env_ids env 1))} (view ks')"
    "payload_text (view ks') (REvidence (env_ids env 0)) = Some et" "payload_text (view ks') (RClaim (env_ids env 1)) = Some pt"
    "\<exists>b. view ks' (part_name P_OPERATIONS) = (view ks (part_name P_OPERATIONS))(id_key (oc_id operation) \<mapsto> b)"
proof -
  note S = reachable_memory_store [OF R] and inv = reachable_inv [OF R]
  obtain ops where p: "prepare_remember db env ks operation input = Inr (Write ops (remembered env))" by (rule remember_writes [OF R ok])
  define ks' where "ks' = snd (remember_user_claim db env ks operation input)"
  have run: "remember_user_claim db env ks operation input = (Inr (remembered env), ks')" and v: "view ks' = apply_ops ops (view ks)"
    using memory_store.run_view [OF S, of ks ops "remembered env"] by (simp_all add: ks'_def remember_user_claim_def p prod_eq_iff)
  have R': "reachable_store db view ks'"
    using reachable_step [OF R] step_remember [OF fresh utf8] unfolding ks'_def by blast
  show ?thesis
  proof (rule memory_store.remember_created [OF S inv fresh utf8 p])
    fix et' pt'
    assume t: "validate_text (rm_evidence_text input) ''evidence text'' = Inr et'"
      "validate_text (rm_proposition input) ''claim proposition'' = Inr pt'"
      and cr: "created db (view ks) [REvidence (env_ids env 0) \<mapsto> (KEvidence (new_evidence_header (env_ids env 0) UserAssertion User
          (rm_scope input) (rm_temporal input) DirectTruth (env_now env 0) (oc_id operation)), rm_scope input),
        RClaim (env_ids env 1) \<mapsto> (KClaim (rm_domain input) (rm_temporal input) [env_ids env 0], rm_scope input)]
        {(REvidence (env_ids env 0), RClaim (env_ids env 1))} (apply_ops ops (view ks))"
      and pay: "apply_ops ops (view ks) (part_name P_PAYLOADS) (payload_key (REvidence (env_ids env 0))) = Some (as_bytes et')"
        "apply_ops ops (view ks) (part_name P_PAYLOADS) (payload_key (RClaim (env_ids env 1))) = Some (as_bytes pt')"
    have eq: "et' = et" "pt' = pt" using t ok by (simp_all add: rememberable_def)
    have "payload_text (view ks') (REvidence (env_ids env 0)) = Some et" "payload_text (view ks') (RClaim (env_ids env 1)) = Some pt"
      using pay validate_text_utf8 [OF t(1) utf8(1)] validate_text_utf8 [OF t(2) utf8(2)] eq by (simp_all add: payload_text_def v)
    moreover have "created db (view ks) (remembered_records env operation input)
        {(REvidence (env_ids env 0), RClaim (env_ids env 1))} (view ks')"
      unfolding remembered_records_def v by (rule cr)
    moreover have "\<exists>b. view ks' (part_name P_OPERATIONS) = (view ks (part_name P_OPERATIONS))(id_key (oc_id operation) \<mapsto> b)"
      unfolding v by (rule replayable_log [OF replayable_remember [OF p]])
    ultimately show ?thesis using that run R' by blast
  qed
qed

section \<open>Retraction\<close>

context memory_store
begin

lemma append_record_ok:
  assumes ok: "rec_ok db (view ks) r" and o: "obs db (view ks) r = Some (k, sc, s0, e)"
  shows "\<exists>ops. append_record db ks r e (e + 1) st op now = Inr ops"
proof (cases r)
  case (REvidence i)
  have "head_of (view ks) P_EVIDENCE_HEADS i = Some e"
    using REvidence ok o by (auto elim!: obs_avail_Some intro: current_revs_ok)
  then obtain a where "get_decoded db ks (mc_evidence_availability (md_codecs db)) P_EVIDENCE_AVAILABILITY (revision_key i e) = Inr (Some a)"
    using REvidence ok by (auto elim: current_read)
  then show ?thesis using REvidence by (simp add: append_revision_def encode_enc)
next
  case (RClaim i)
  then show ?thesis using ok o inspect_claim_view [of ks i] by (auto simp: found_def append_revision_def encode_enc)
next
  case (REntity i)
  then show ?thesis using ok o inspect_entity_view [of ks i] by (auto simp: found_def append_revision_def encode_enc)
next
  case (RSemanticRelation i)
  then show ?thesis using ok o inspect_semantic_relation_view [of ks i] by (auto simp: found_def append_revision_def encode_enc)
next
  case (RProposal i)
  then show ?thesis using ok o inspect_proposal_view [of ks i] by (auto simp: found_def append_revision_def encode_enc)
next
  case (RProposalReview i)
  then show ?thesis using ok o inspect_proposal_review_view [of ks i] by (auto simp: found_def append_revision_def encode_enc)
qed (simp_all add: append_revision_def encode_enc)

lemma invalidate_ok:
  assumes ok: "rec_ok db (view ks) (pd_record d)" and o: "obs db (view ks) (pd_record d) = Some (k, sc, s0, pd_expected_revision d)"
    and e: "pd_expected_revision d \<noteq> - 1"
    and lex: "\<exists>x. get_decoded db ks (mc_lexical (md_codecs db)) P_LEXICAL_DOCS (record_key (pd_record d)) = Inr x"
  shows "\<exists>ops rv. invalidate db ks st op now d = Inr (ops, rv)"
proof -
  obtain ops where "append_record db ks (pd_record d) (pd_expected_revision d) (pd_expected_revision d + 1) st op now = Inr ops"
    using append_record_ok [OF ok o] by blast
  moreover have "record_scope_state_revision db ks (pd_record d) = Inr (sc, s0, pd_expected_revision d)"
    unfolding status_view [OF ok] o by (simp add: status_of_def)
  moreover obtain x where "get_decoded db ks (mc_lexical (md_codecs db)) P_LEXICAL_DOCS (record_key (pd_record d)) = Inr x"
    using lex by blast
  ultimately show ?thesis
    using e by (cases x) (simp_all add: invalidate_def append_state_revision_def remove_lexical_document_def)
qed

lemma invalidate_all_ok:
  assumes "\<And>d. d \<in> set ds \<Longrightarrow> \<exists>ops rv. invalidate db ks Unsupported op now d = Inr (ops, rv)"
  shows "\<exists>ops revs. invalidate_all db ks op now ds = Inr (ops, revs)"
  using assms
proof (induction ds)
  case (Cons d ds)
  obtain a rv where "invalidate db ks Unsupported op now d = Inr (a, rv)" using Cons.prems [of d] by auto
  moreover obtain b revs where "invalidate_all db ks op now ds = Inr (b, revs)" using Cons by auto
  ultimately show ?case by simp
qed simp

lemma retract_writes:
  assumes inv: "mem_inv db (view ks)" and actor: "oc_actor operation \<noteq> Assistant"
    and o: "obs db (view ks) t = Some (k, sc, Active, e)"
    and digest: "mutation_digest db ''retract'' (oc_actor operation) (MuRetract t e) = Inr digest"
    and unused: "view ks (part_name P_OPERATIONS) (id_key (oc_id operation)) = None"
    and bound: "\<And>r k sc st v. obs db (view ks) r = Some (k, sc, st, v) \<Longrightarrow> v \<noteq> - 1"
    and lex: "\<And>r. \<exists>x. get_decoded db ks (mc_lexical (md_codecs db)) P_LEXICAL_DOCS (record_key r) = Inr x"
    and vc: "\<And>r. \<exists>v. to_value (vc_retraction (md_receipts db)) r = Inr v"
  shows "\<exists>ops r. prepare_retract db env ks operation t e = Inr (Write ops r)"
proof -
  note ok = mem_invD(1) [OF inv]
  obtain ds where ds: "dependency_closure db ks t False = Inr ds" "sorted_wrt (<) (map pd_record ds)"
    "\<And>d. d \<in> set ds \<longleftrightarrow> (dep (view ks))\<^sup>+\<^sup>+ t (pd_record d) \<and> pd_record d \<noteq> t \<and>
       (\<exists>k sc st. obs db (view ks) (pd_record d) = Some (k, sc, st, pd_expected_revision d) \<and> listed False st)"
    using closure_correct [OF ok mem_invD(2) [OF inv]] by blast
  have one: "\<exists>ops rv. invalidate db ks st (oc_id operation) (env_now env 0) d = Inr (ops, rv)"
    if "obs db (view ks) (pd_record d) = Some (k, sc, s0, pd_expected_revision d)" for d k sc s0 st
    using invalidate_ok [OF ok that bound [OF that] lex] .
  obtain a rv where a: "invalidate db ks Retracted (oc_id operation) (env_now env 0) \<lparr>pd_record = t, pd_expected_revision = e\<rparr> = Inr (a, rv)"
    using one [of "\<lparr>pd_record = t, pd_expected_revision = e\<rparr>" k sc Active Retracted] o by (auto simp del: obs.simps)
  have "\<exists>ops rv. invalidate db ks Unsupported (oc_id operation) (env_now env 0) d = Inr (ops, rv)" if "d \<in> set ds" for d
    using ds(3) [of d] that one [of d] by blast
  then obtain b revs where b: "invalidate_all db ks (oc_id operation) (env_now env 0) ds = Inr (b, revs)"
    using invalidate_all_ok by blast
  have st: "record_scope_state_revision db ks t = Inr (sc, Active, e)" unfolding status_view [OF ok] o by (simp add: status_of_def)
  obtain v where v: "to_value (vc_retraction (md_receipts db)) \<lparr>tr_target = rv, tr_invalidated = revs\<rparr> = Inr v"
    using vc by blast
  show ?thesis
    using st actor digest unused a b ds(1) finish_ok [OF v]
    by (simp add: prepare_retract_def unreplayed active_dependency_closure_def Let_def) blast
qed

end

text \<open>What a retraction asks of its caller and of the store.\<close>

definition retractable :: "'ks memory_db \<Rightarrow> ('ks \<Rightarrow> kv_view) \<Rightarrow> 'ks \<Rightarrow> operation_context \<Rightarrow> record_ref \<Rightarrow> u64 \<Rightarrow> bool" where
  "retractable db view ks operation t e \<longleftrightarrow>
     oc_actor operation \<noteq> Assistant \<and> (\<exists>sc. record_scope_state_revision db ks t = Inr (sc, Active, e)) \<and>
     (\<exists>d. mutation_digest db ''retract'' (oc_actor operation) (MuRetract t e) = Inr d) \<and>
     view ks (part_name P_OPERATIONS) (id_key (oc_id operation)) = None \<and>
     (\<forall>r sc st. record_scope_state_revision db ks r \<noteq> Inr (sc, st, - 1)) \<and>
     (\<forall>r. \<exists>x. get_decoded db ks (mc_lexical (md_codecs db)) P_LEXICAL_DOCS (record_key r) = Inr x) \<and>
     (\<forall>r. \<exists>v. to_value (vc_retraction (md_receipts db)) r = Inr v)"

lemma status_obs:
  assumes "reachable_store db view ks" "record_scope_state_revision db ks r = Inr (sc, st, v)"
  obtains k where "obs db (view ks) r = Some (k, sc, st, v)"
  using assms(2) unfolding reachable_status [OF assms(1)] by (auto simp: status_of_def split: option.splits simp del: obs.simps)

lemma obs_status:
  "reachable_store db view ks \<Longrightarrow> obs db (view ks) r = Some (k, sc, st, v) \<Longrightarrow> record_scope_state_revision db ks r = Inr (sc, st, v)"
  using reachable_status [of db view ks r] by (simp add: status_of_def del: obs.simps)

lemma retract_run: "(mem_step db)\<^sup>*\<^sup>* ks (snd (retract db env ks operation t e))"
  by (blast intro: step_retract)

lemma retract_effect:
  assumes R: "reachable_store db view ks" and ok: "retractable db view ks operation t e"
  obtains receipt ks' where "retract db env ks operation t e = (Inr receipt, ks')" "reachable_store db view ks'"
    "revised db (view ks) (taken_down db (view ks) t Retracted) (view ks')"
    "sorted_wrt (<) (map rv_record (tr_invalidated receipt))"
    "set (map rv_record (tr_invalidated receipt)) = {d. d \<noteq> t \<and> (dep (view ks))\<^sup>+\<^sup>+ t d \<and> active db (view ks) d}"
proof -
  note S = reachable_memory_store [OF R] and inv = reachable_inv [OF R] and a = ok [unfolded retractable_def]
  obtain sc where "record_scope_state_revision db ks t = Inr (sc, Active, e)" using a by blast
  then obtain k where o: "obs db (view ks) t = Some (k, sc, Active, e)" by (rule status_obs [OF R])
  obtain d where d: "mutation_digest db ''retract'' (oc_actor operation) (MuRetract t e) = Inr d" using a by blast
  have "v \<noteq> - 1" if "obs db (view ks) r = Some (k, sc, st, v)" for r k sc st v
    using a obs_status [OF R that] by blast
  then obtain ops r where p: "prepare_retract db env ks operation t e = Inr (Write ops r)"
    using memory_store.retract_writes [OF S inv _ o d] a by blast
  define ks' where "ks' = snd (retract db env ks operation t e)"
  have "retract db env ks operation t e = (Inr r, ks')" and v: "view ks' = apply_ops ops (view ks)"
    using memory_store.run_view [OF S, of ks ops r] by (simp_all add: ks'_def retract_def p prod_eq_iff)
  moreover have "reachable_store db view ks'"
    using reachable_step [OF R] step_retract [of db ks env operation t e] unfolding ks'_def by blast
  ultimately show ?thesis using that memory_store.retract_revised [OF S inv p] by (simp add: v)
qed

section \<open>A sample store\<close>

definition sample_op :: operation_context where
  "sample_op = \<lparr>oc_id = 900, oc_actor = User\<rparr>"

definition sample_claim :: remember_claim where
  "sample_claim = \<lparr>rm_domain = UserPreference, rm_scope = Personal, rm_temporal = observed_at 500,
     rm_evidence_text = ''I like tea'', rm_proposition = ''likes tea''\<rparr>"

definition sample_ks :: mem where
  "sample_ks = snd (remember_user_claim sample_memory (sample_env 10) mem_empty sample_op sample_claim)"

lemma sample_start: "reachable_store sample_memory mem_view mem_empty"
  unfolding reachable_store_def using mem.kv_engine_axioms
  by (auto intro!: exI [of _ mem_empty] simp: mem_view_def mem_empty_def)

lemma sample_trim: "trim ''I like tea'' = ''I like tea''" "trim ''likes tea'' = ''likes tea''"
  by code_simp+

lemma sample_utf8: "utf8_valid (as_bytes ''I like tea'')" "utf8_valid (as_bytes ''likes tea'')"
  by code_simp+

lemma sample_texts:
  "validate_text ''I like tea'' ''evidence text'' = Inr ''I like tea''" "validate_text ''likes tea'' ''claim proposition'' = Inr ''likes tea''"
  by (simp_all add: validate_text_def sample_trim MAX_TEXT_BYTES_def)

lemma sample_rememberable: "rememberable sample_memory mem_view mem_empty sample_op sample_claim ''I like tea'' ''likes tea''"
  using sample_texts
  by (simp add: rememberable_def sample_op_def sample_claim_def validate_temporal_def observed_at_def mutation_digest_def sample_memory_def
      mem_view_def mem_empty_def sample_receipts_def count_value_def)

lemma sample_remembered:
  "remember_user_claim sample_memory (sample_env 10) mem_empty sample_op sample_claim = (Inr (remembered (sample_env 10)), sample_ks)"
  "reachable_store sample_memory mem_view sample_ks"
  "created sample_memory (mem_view mem_empty) (remembered_records (sample_env 10) sample_op sample_claim)
     {(REvidence 10, RClaim 11)} (mem_view sample_ks)"
  "\<exists>b. mem_view sample_ks (part_name P_OPERATIONS) = [id_key 900 \<mapsto> b]"
proof -
  have fresh: "fresh_env sample_memory (sample_env 10) mem_empty" by (rule sample_fresh) simp
  have utf8: "utf8_valid (as_bytes (rm_evidence_text sample_claim))" "utf8_valid (as_bytes (rm_proposition sample_claim))"
    using sample_utf8 by (simp_all add: sample_claim_def)
  have ids: "env_ids (sample_env 10) 0 = 10" "env_ids (sample_env 10) 1 = 11" by (simp_all add: sample_env_def)
  have empty: "mem_view mem_empty (part_name P_OPERATIONS) = Map.empty" by (simp add: mem_view_def mem_empty_def fun_eq_iff)
  obtain ks where ks: "remember_user_claim sample_memory (sample_env 10) mem_empty sample_op sample_claim = (Inr (remembered (sample_env 10)), ks)"
    "reachable_store sample_memory mem_view ks"
    "created sample_memory (mem_view mem_empty) (remembered_records (sample_env 10) sample_op sample_claim) {(REvidence 10, RClaim 11)} (mem_view ks)"
    "\<exists>b. mem_view ks (part_name P_OPERATIONS) = [id_key (oc_id sample_op) \<mapsto> b]"
    using remember_view [OF sample_start sample_rememberable fresh utf8] unfolding ids empty by metis
  moreover have "sample_ks = ks" unfolding sample_ks_def ks(1) by simp
  ultimately show "remember_user_claim sample_memory (sample_env 10) mem_empty sample_op sample_claim = (Inr (remembered (sample_env 10)), sample_ks)"
    "reachable_store sample_memory mem_view sample_ks"
    "created sample_memory (mem_view mem_empty) (remembered_records (sample_env 10) sample_op sample_claim) {(REvidence 10, RClaim 11)} (mem_view sample_ks)"
    "\<exists>b. mem_view sample_ks (part_name P_OPERATIONS) = [id_key 900 \<mapsto> b]"
    by (simp_all add: sample_op_def)
qed

lemma sample_absent: "obs sample_memory (mem_view mem_empty) r = None"
  by (cases r) (simp_all add: obs_avail_def current_def head_of_def stored_at_def mem_view_def mem_empty_def)

lemma sample_records:
  "obs sample_memory (mem_view sample_ks) r =
     (case remembered_records (sample_env 10) sample_op sample_claim r of None \<Rightarrow> None | Some (k, sc) \<Rightarrow> Some (k, sc, Active, 1))"
  using created_obs [OF sample_remembered(3), of r] sample_absent [of r] by (auto split: option.splits simp del: obs.simps)

lemma sample_status:
  "record_scope_state_revision sample_memory sample_ks (REvidence 10) = Inr (Personal, Active, 1)"
  "record_scope_state_revision sample_memory sample_ks (RClaim 11) = Inr (Personal, Active, 1)"
  "dep (mem_view sample_ks) (REvidence 10) (RClaim 11)"
  unfolding reachable_status [OF sample_remembered(2)] sample_records created_dep [OF sample_remembered(3)]
  by (simp_all add: remembered_records_def sample_env_def sample_claim_def status_of_def)

lemma sample_claim_read:
  obtains c where "inspect_claim sample_memory sample_ks 11 = Inr (Some c)" "ch_state (cr_header c) = Active" "ch_evidence_ids (cr_header c) = [10]"
proof -
  have "obs sample_memory (mem_view sample_ks) (RClaim 11) = Some (KClaim UserPreference (observed_at 500) [10], Personal, Active, 1)"
    unfolding sample_records by (simp add: remembered_records_def sample_env_def sample_claim_def)
  then show ?thesis by (rule inspect_claim_read [OF sample_remembered(2)]) (auto intro: that)
qed

lemma sample_retractable: "retractable sample_memory mem_view sample_ks \<lparr>oc_id = 901, oc_actor = User\<rparr> (REvidence 10) 1"
proof -
  have one: "v = 1" if "record_scope_state_revision sample_memory sample_ks r = Inr (sc, st, v)" for r sc st v
    using that unfolding reachable_status [OF sample_remembered(2)] sample_records by (auto simp: status_of_def split: option.splits)
  have "\<exists>d. mutation_digest sample_memory ''retract'' User (MuRetract (REvidence 10) 1) = Inr d"
    by (simp add: mutation_digest_def sample_memory_def)
  moreover have "mem_view sample_ks (part_name P_OPERATIONS) (id_key 901) = None" using sample_remembered(4) by auto
  moreover have "\<exists>x. get_decoded sample_memory sample_ks (mc_lexical sample_codecs) P_LEXICAL_DOCS (record_key r) = Inr x" for r
    by (simp add: get_decoded_def sample_codecs_def count_codec_def split: option.splits)
  moreover have "\<exists>v. to_value (vc_retraction sample_receipts) r = Inr v" for r by (simp add: sample_receipts_def count_value_def)
  moreover have "record_scope_state_revision sample_memory sample_ks r \<noteq> Inr (sc, st, - 1)" for r sc st using one [of r sc st "- 1"] by auto
  ultimately show ?thesis unfolding retractable_def using sample_status(1) by simp
qed

section \<open>Support\<close>

text \<open>
  C1. On a store that has run only the calls of \<open>mem_step\<close> (no proposals) every active claim is
  supported: it cites at least one evidence, and each evidence it cites exists, is active, has the scope of the claim and belongs to a class that is
  admissible for the domain of the claim. In particular no active claim rests on what the
  assistant said.
\<close>

theorem claims_are_supported:
  assumes "reachable_store db view ks" "inspect_claim db ks i = Inr (Some c)" "ch_state (cr_header c) = Active"
  shows "ch_evidence_ids (cr_header c) \<noteq> [] \<and>
    (\<forall>j \<in> set (ch_evidence_ids (cr_header c)). \<exists>e. inspect_evidence db ks j = Inr (Some e) \<and>
       av_state (er_availability e) = Active \<and> eh_scope (er_header e) = ch_scope (cr_header c) \<and>
       source_is_admissible (eh_class (er_header e)) (ch_domain (cr_header c)) \<and> eh_class (er_header e) \<noteq> AssistantUtterance)"
proof -
  note S = reachable_memory_store [OF assms(1)] and inv = reachable_inv [OF assms(1)]
  let ?h = "cr_header c"
  have o: "obs db (view ks) (RClaim i) =
      Some (KClaim (ch_domain ?h) (ch_temporal ?h) (ch_evidence_ids ?h), ch_scope ?h, Active, ch_revision ?h)"
    using memory_store.inspect_claim_obs [OF S mem_invD(1) [OF inv] assms(2)] assms(3) by simp
  then have cites: "cites db (view ks) (RClaim i) (ch_scope ?h) (\<lambda>c. source_is_admissible c (ch_domain ?h)) (ch_evidence_ids ?h)"
    using mem_invD(3) [OF inv o] by simp
  have claim: "active db (view ks) (RClaim i)" using o by (auto simp: active_def)
  have "\<exists>e. inspect_evidence db ks j = Inr (Some e) \<and> av_state (er_availability e) = Active \<and>
      eh_scope (er_header e) = ch_scope ?h \<and> source_is_admissible (eh_class (er_header e)) (ch_domain ?h) \<and>
      eh_class (er_header e) \<noteq> AssistantUtterance"
    if j: "j \<in> set (ch_evidence_ids ?h)" for j
  proof -
    obtain g st v where g: "obs db (view ks) (REvidence j) = Some (KEvidence g, ch_scope ?h, st, v)"
        "source_is_admissible (eh_class g) (ch_domain ?h)" "dep (view ks) (REvidence j) (RClaim i)"
      using cites j by (auto simp: cites_def cited_def)
    have "active db (view ks) (REvidence j)"
      using mem_invD(4) [OF inv g(3)] claim o by (auto simp: edge_ok_def records_supersession_def)
    then have "st = Active" using g(1) by (auto simp: active_def)
    moreover have "eh_scope g = ch_scope ?h" using mem_invD(3) [OF inv g(1)] by simp
    moreover have "eh_class g \<noteq> AssistantUtterance" using g(2) by (cases "ch_domain ?h") auto
    ultimately show ?thesis
      using memory_store.inspect_evidence_obs(2) [OF S mem_invD(1) [OF inv] g(1)] g(2) by auto
  qed
  then show ?thesis using cites by (simp add: cites_def)
qed

theorem claims_are_supported_witness:
  "\<exists>e. inspect_evidence sample_memory sample_ks 10 = Inr (Some e) \<and> av_state (er_availability e) = Active"
proof -
  obtain c where c: "inspect_claim sample_memory sample_ks 11 = Inr (Some c)" "ch_state (cr_header c) = Active"
    "ch_evidence_ids (cr_header c) = [10]" by (rule sample_claim_read)
  show ?thesis using claims_are_supported [OF sample_remembered(2) c(1,2)] c(3) by auto
qed

text \<open>
  C12. On a store that has run only the calls of \<open>mem_step\<close> (no proposals) every active relation
  is supported: it cites at least one evidence, each of them
  active and of its own scope, and joins two records of that scope, of the kinds that its own kind
  allows. Both are active, save that the
  relation that records a supersession outlives the claim it supersedes.
\<close>

theorem relations_are_supported:
  assumes "reachable_store db view ks" "inspect_semantic_relation db ks i = Inr (Some l)" "lh_state (lr_header l) = Active"
  shows "lh_evidence_ids (lr_header l) \<noteq> [] \<and> joins (lh_kind (lr_header l)) (lh_from (lr_header l)) (lh_to (lr_header l)) \<and>
    (\<forall>j \<in> set (lh_evidence_ids (lr_header l)). \<exists>v. record_scope_state_revision db ks (REvidence j) = Inr (lh_scope (lr_header l), Active, v)) \<and>
    (\<forall>r \<in> {lh_from (lr_header l), lh_to (lr_header l)}. \<exists>st v. record_scope_state_revision db ks r = Inr (lh_scope (lr_header l), st, v) \<and>
       (st = Active \<or> lh_kind (lr_header l) = Supersedes \<and> r = lh_to (lr_header l)))"
proof -
  note S = reachable_memory_store [OF assms(1)] and inv = reachable_inv [OF assms(1)]
  let ?h = "lr_header l" and ?r = "RSemanticRelation i"
  have o: "obs db (view ks) ?r = Some (KRelation (lh_from ?h) (lh_to ?h) (lh_kind ?h) (lh_evidence_ids ?h), lh_scope ?h, Active, lh_revision ?h)"
    using memory_store.inspect_semantic_relation_view [OF S mem_invD(1) [OF inv]] assms(2,3)
    by (auto simp: relation_record_of_def split: option.splits)
  have ok: "cites db (view ks) ?r (lh_scope ?h) (\<lambda>_. True) (lh_evidence_ids ?h)"
    "endpoint db (view ks) (lh_scope ?h) (lh_from ?h)" "endpoint db (view ks) (lh_scope ?h) (lh_to ?h)"
    "dep (view ks) (lh_from ?h) ?r" "dep (view ks) (lh_to ?h) ?r"
    "joins (lh_kind ?h) (lh_from ?h) (lh_to ?h)"
    using mem_invD(3) [OF inv o] by simp_all
  have edge: "active db (view ks) s \<or> s = lh_to ?h \<and> lh_kind ?h = Supersedes" if "dep (view ks) s ?r" for s
    using mem_invD(4) [OF inv that] o by (auto simp: edge_ok_def records_supersession_def active_def simp del: obs.simps)
  have "\<exists>st v. record_scope_state_revision db ks s = Inr (lh_scope ?h, st, v) \<and> (st = Active \<or> lh_kind ?h = Supersedes \<and> s = lh_to ?h)"
    if "endpoint db (view ks) (lh_scope ?h) s" "dep (view ks) s ?r" for s
    using that(1) edge [OF that(2)] obs_status [OF assms(1), of s] by (fastforce simp: endpoint_def active_def simp del: obs.simps)
  moreover have "\<exists>v. record_scope_state_revision db ks (REvidence j) = Inr (lh_scope ?h, Active, v)" if j: "j \<in> set (lh_evidence_ids ?h)" for j
  proof -
    obtain g st v where "obs db (view ks) (REvidence j) = Some (KEvidence g, lh_scope ?h, st, v)" "dep (view ks) (REvidence j) ?r"
      using ok(1) j unfolding cites_def cited_def by blast
    moreover have "REvidence j \<noteq> lh_to ?h \<or> lh_kind ?h \<noteq> Supersedes" using ok(6) by (cases "lh_to ?h") (auto simp: joins_def)
    ultimately show ?thesis using edge obs_status [OF assms(1)] by (fastforce simp: active_def simp del: obs.simps)
  qed
  ultimately show ?thesis using ok unfolding cites_def by blast
qed

definition sample_relation :: new_relation where
  "sample_relation = \<lparr>nl_from = REvidence 10, nl_to = RClaim 11, nl_kind = Supports, nl_scope = Personal, nl_evidence_ids = [10], nl_qualifier = None\<rparr>"

definition sample_related :: mem where
  "sample_related = snd (create_semantic_relation sample_memory (sample_env 20) sample_ks \<lparr>oc_id = 903, oc_actor = System\<rparr> sample_relation)"

lemma sample_checked: "check_relation_input \<lparr>oc_id = 903, oc_actor = System\<rparr> sample_relation = Inr sample_relation"
  by (simp add: check_relation_input_def sample_relation_def validate_relation_endpoint_kinds_def validate_qualifier_def sort_dedup_def
      check_sources_def MAX_EVIDENCE_SOURCES_def)

lemma sample_later_fresh: "fresh_env sample_memory (sample_env 20) sample_ks"
proof -
  have small: "unat (word_of_nat m :: ulid) = m" if "m \<le> 2000" for m using that by (simp add: unat_of_nat)
  have "(word_of_nat (20 + n) :: ulid) \<noteq> 10 \<and> (word_of_nat (20 + n) :: ulid) \<noteq> 11" if "n \<le> MAX_IDS" for n
    using small [of "20 + n"] small [of 10] small [of 11] that
    by (auto simp: MAX_IDS_def MAX_ARTIFACT_PASSAGE_BATCH_def simp del: of_nat_add dest!: arg_cong [where f = unat])
  then have "remembered_records (sample_env 10) sample_op sample_claim r = None"
    if "n \<le> MAX_IDS" "rec_id r = env_ids (sample_env 20) n" for r n
    using that by (cases r) (auto simp: remembered_records_def sample_env_def)
  then show ?thesis
    using sample_ids_inj [of 20] by (simp add: fresh_env_def reachable_status [OF sample_remembered(2)] sample_records status_of_def)
qed

lemma sample_relation_writes:
  "\<exists>ops r. prepare_relation sample_memory (sample_env 20) sample_ks \<lparr>oc_id = 903, oc_actor = System\<rparr> sample_relation = Inr (Write ops r)"
proof -
  let ?op = "\<lparr>oc_id = 903, oc_actor = System\<rparr>"
  have "check_endpoint sample_memory sample_ks Personal (REvidence 10) = Inr ()" "check_endpoint sample_memory sample_ks Personal (RClaim 11) = Inr ()"
    unfolding check_endpoint_def sample_status by simp_all
  moreover have "relation_sources sample_memory sample_ks Personal [10] = Inr [UserAssertion]"
  proof -
    obtain h where "obs sample_memory (mem_view sample_ks) (REvidence 10) = Some (KEvidence h, Personal, Active, 1)"
      "eh_class h = UserAssertion" "eh_scope h = Personal"
      unfolding sample_records by (simp add: remembered_records_def sample_env_def sample_claim_def)
    then show ?thesis
      using sample_store.inspect_evidence_obs(2) [OF mem_invD(1) [OF reachable_inv [OF sample_remembered(2)]]] by fastforce
  qed
  moreover obtain d where "mutation_digest sample_memory ''create_semantic_relation'' System (MuRelation sample_relation) = Inr d"
    by (simp add: mutation_digest_def sample_memory_def)
  moreover have "mem_view sample_ks (part_name P_OPERATIONS) (id_key 903) = None" using sample_remembered(4) by auto
  moreover obtain ops where "insert_relation_record sample_memory (new_relation_header 20 (REvidence 10) (RClaim 11) Supports Personal [10] 1000 903)
      \<lparr>lp_qualifier = None\<rparr> = Inr ops"
    by (simp add: insert_relation_record_def Let_def encode_enc sample_codecs_def)
  moreover obtain v where v: "to_value (vc_record (md_receipts sample_memory)) (new_record_receipt 20) = Inr v"
    by (simp add: sample_receipts_def count_value_def)
  ultimately show ?thesis
    using sample_checked sample_store.finish_ok [OF v] sample_store.unreplayed [of sample_ks ?op "vc_record sample_receipts"]
    by (simp add: prepare_relation_def sample_relation_def check_user_endpoint_def Let_def sample_env_def del: relation_sources.simps) blast
qed

lemma sample_related_read:
  "reachable_store sample_memory mem_view sample_related"
  "\<exists>l. inspect_semantic_relation sample_memory sample_related 20 = Inr (Some l) \<and> lh_state (lr_header l) = Active \<and>
     lh_from (lr_header l) = REvidence 10 \<and> lh_to (lr_header l) = RClaim 11 \<and> lh_kind (lr_header l) = Supports \<and> lh_scope (lr_header l) = Personal"
proof -
  let ?op = "\<lparr>oc_id = 903, oc_actor = System\<rparr>"
  obtain ops r where p: "prepare_relation sample_memory (sample_env 20) sample_ks ?op sample_relation = Inr (Write ops r)"
    using sample_relation_writes by blast
  have v: "mem_view sample_related = apply_ops ops (mem_view sample_ks)"
    using sample_store.run_view(1) [of sample_ks ops r] by (simp add: sample_related_def create_semantic_relation_def p)
  show R: "reachable_store sample_memory mem_view sample_related"
    using reachable_step [OF sample_remembered(2)] step_relation [OF sample_later_fresh] unfolding sample_related_def by blast
  have ids: "env_ids (sample_env 20) 0 = 20" by (simp add: sample_env_def)
  have "obs sample_memory (mem_view sample_related) (RSemanticRelation 20) =
      Some (KRelation (REvidence 10) (RClaim 11) Supports [10], Personal, Active, 1)"
  proof (rule sample_store.relation_adds [OF reachable_inv [OF sample_remembered(2)] sample_later_fresh p])
    fix inp D
    assume "check_relation_input ?op sample_relation = Inr inp"
      and cr: "created sample_memory (mem_view sample_ks) (related (env_ids (sample_env 20) 0) inp)
        ((\<lambda>s. (s, RSemanticRelation (env_ids (sample_env 20) 0))) ` ({nl_from inp, nl_to inp} \<union> REvidence ` set (nl_evidence_ids inp)))
        (apply_ops ops (mem_view sample_ks))"
    then have "related 20 inp (RSemanticRelation 20) = Some (KRelation (REvidence 10) (RClaim 11) Supports [10], Personal)"
      using sample_checked by (simp add: related_def sample_relation_def)
    then show ?thesis using created_obs(2) [OF cr] unfolding v ids by blast
  qed
  then show "\<exists>l. inspect_semantic_relation sample_memory sample_related 20 = Inr (Some l) \<and> lh_state (lr_header l) = Active \<and>
     lh_from (lr_header l) = REvidence 10 \<and> lh_to (lr_header l) = RClaim 11 \<and> lh_kind (lr_header l) = Supports \<and> lh_scope (lr_header l) = Personal"
    using sample_store.inspect_semantic_relation_view [OF mem_invD(1) [OF reachable_inv [OF R]]]
    by (auto simp: relation_record_of_def)
qed

theorem relations_are_supported_witness:
  "\<exists>v. record_scope_state_revision sample_memory sample_related (RClaim 11) = Inr (Personal, Active, v)"
proof -
  obtain l where l: "inspect_semantic_relation sample_memory sample_related 20 = Inr (Some l)" "lh_state (lr_header l) = Active"
    "lh_to (lr_header l) = RClaim 11" "lh_kind (lr_header l) = Supports" "lh_scope (lr_header l) = Personal"
    using sample_related_read(2) by blast
  show ?thesis using relations_are_supported [OF sample_related_read(1) l(1,2)] l(3-5) by simp
qed

section \<open>Growth and reads\<close>

text \<open>
  C7. The store is append-only. Whatever calls of \<open>mem_step\<close> follow, a record that exists keeps existing, in
  the same scope; its revision never falls, and a revision, once seen, keeps its state.
\<close>

theorem memory_append_only:
  assumes "reachable_store db view ks" "(mem_step db)\<^sup>*\<^sup>* ks ks'" "record_scope_state_revision db ks r = Inr (sc, st, v)"
  shows "\<exists>st' v'. record_scope_state_revision db ks' r = Inr (sc, st', v') \<and> v \<le> v' \<and> (v = v' \<longrightarrow> st' = st)"
proof -
  have R': "reachable_store db view ks'" by (rule reachable_step [OF assms(1,2)])
  obtain k where "obs db (view ks) r = Some (k, sc, st, v)"
    using assms(3) unfolding reachable_status [OF assms(1)] by (auto simp: status_of_def split: option.splits simp del: obs.simps)
  moreover have "extends db (view ks) (view ks')"
    using memory_store.mem_run_keeps [OF reachable_memory_store [OF assms(1)] assms(2) reachable_inv [OF assms(1)]] by blast
  ultimately obtain st' v' where "obs db (view ks') r = Some (k, sc, st', v')" "v \<le> v'" "v = v' \<Longrightarrow> st' = st"
    using extendsD by blast
  then show ?thesis unfolding reachable_status [OF R'] by (auto simp: status_of_def simp del: obs.simps)
qed

theorem memory_append_only_witness:
  "\<exists>st' v'. record_scope_state_revision sample_memory
     (snd (retract sample_memory (sample_env 20) sample_ks \<lparr>oc_id = 901, oc_actor = User\<rparr> (REvidence 10) 1)) (RClaim 11) =
       Inr (Personal, st', v') \<and> 1 \<le> v' \<and> (1 = v' \<longrightarrow> st' = Active)"
  by (rule memory_append_only [OF sample_remembered(2) retract_run sample_status(2)])

text \<open>
  C13. A store reads back: whatever calls of \<open>mem_step\<close> have run, looking up any record of any kind either
  finds its scope, state and revision or reports that there is no such record. The corruption and
  decoding errors of the readers do not occur.
\<close>

theorem memory_reads_total:
  assumes "reachable_store db view ks"
  shows "(\<exists>sc st v. record_scope_state_revision db ks r = Inr (sc, st, v)) \<or> record_scope_state_revision db ks r = Inl (MNotFound r)"
  unfolding reachable_status [OF assms] by (auto simp: status_of_def split: option.splits)

theorem memory_reads_total_witness:
  "(\<exists>sc st v. record_scope_state_revision sample_memory sample_ks (RClaim 11) = Inr (sc, st, v)) \<or>
     record_scope_state_revision sample_memory sample_ks (RClaim 11) = Inl (MNotFound (RClaim 11))"
  by (rule memory_reads_total [OF sample_remembered(2)])

section \<open>Taking down\<close>

text \<open>
  C2. Retracting an active record takes down exactly what rests on it. The record becomes
  retracted; every active record that depends on it, directly or through others, becomes
  unsupported; each moves on by one revision; all other records stay as they are, and the receipt
  lists the invalidated records in order, each once.
\<close>

theorem retract_takes_down:
  assumes "reachable_store db view ks" "retractable db view ks operation t e"
  shows "\<exists>receipt ks'. retract db env ks operation t e = (Inr receipt, ks') \<and>
    (\<forall>r sc st v. record_scope_state_revision db ks r = Inr (sc, st, v) \<longrightarrow>
       record_scope_state_revision db ks' r =
         Inr (if r = t then (sc, Retracted, v + 1)
              else if (dep (view ks))\<^sup>+\<^sup>+ t r \<and> st = Active then (sc, Unsupported, v + 1) else (sc, st, v))) \<and>
    (\<forall>r. record_scope_state_revision db ks r = Inl (MNotFound r) \<longrightarrow> record_scope_state_revision db ks' r = Inl (MNotFound r)) \<and>
    sorted_wrt (<) (map rv_record (tr_invalidated receipt)) \<and>
    (\<forall>r. r \<in> set (map rv_record (tr_invalidated receipt)) \<longleftrightarrow>
       r \<noteq> t \<and> (dep (view ks))\<^sup>+\<^sup>+ t r \<and> (\<exists>sc v. record_scope_state_revision db ks r = Inr (sc, Active, v)))"
proof -
  note R = assms(1)
  obtain receipt ks' where run: "retract db env ks operation t e = (Inr receipt, ks')" "reachable_store db view ks'"
    and T: "revised db (view ks) (taken_down db (view ks) t Retracted) (view ks')"
    and lst: "sorted_wrt (<) (map rv_record (tr_invalidated receipt))"
      "set (map rv_record (tr_invalidated receipt)) = {d. d \<noteq> t \<and> (dep (view ks))\<^sup>+\<^sup>+ t d \<and> active db (view ks) d}"
    by (rule retract_effect [OF assms])
  have "record_scope_state_revision db ks' r =
      Inr (if r = t then (sc, Retracted, v + 1)
           else if (dep (view ks))\<^sup>+\<^sup>+ t r \<and> st = Active then (sc, Unsupported, v + 1) else (sc, st, v))"
    if status: "record_scope_state_revision db ks r = Inr (sc, st, v)" for r sc st v
  proof -
    obtain k where o: "obs db (view ks) r = Some (k, sc, st, v)" by (rule status_obs [OF R status])
    have "obs db (view ks') r = Some (k, if r = t then (sc, Retracted, v + 1)
           else if (dep (view ks))\<^sup>+\<^sup>+ t r \<and> st = Active then (sc, Unsupported, v + 1) else (sc, st, v))"
      using o moved_obs [OF revised_moved [OF T], of r] by (auto simp: taken_down_def active_def split: if_splits simp del: obs.simps)
    then show ?thesis unfolding reachable_status [OF run(2)] by (simp add: status_of_def split: if_splits del: obs.simps)
  qed
  moreover have "record_scope_state_revision db ks' r = Inl (MNotFound r)" if "record_scope_state_revision db ks r = Inl (MNotFound r)" for r
  proof -
    have "obs db (view ks) r = None" using that unfolding reachable_status [OF R] by (auto simp: status_of_def split: option.splits simp del: obs.simps)
    then have "obs db (view ks') r = None" by (rule memory_store.revised_absent [OF reachable_memory_store [OF R] T])
    then show ?thesis unfolding reachable_status [OF run(2)] by (simp add: status_of_def del: obs.simps)
  qed
  moreover have "active db (view ks) r \<longleftrightarrow> (\<exists>sc v. record_scope_state_revision db ks r = Inr (sc, Active, v))" for r
    unfolding reachable_status [OF R] by (rule status_active_iff [symmetric])
  ultimately show ?thesis using run(1) lst by blast
qed

theorem retract_takes_down_witness:
  "\<exists>receipt ks'. retract sample_memory (sample_env 20) sample_ks \<lparr>oc_id = 901, oc_actor = User\<rparr> (REvidence 10) 1 = (Inr receipt, ks') \<and>
     record_scope_state_revision sample_memory ks' (REvidence 10) = Inr (Personal, Retracted, 2) \<and>
     record_scope_state_revision sample_memory ks' (RClaim 11) = Inr (Personal, Unsupported, 2)"
proof -
  have "(dep (mem_view sample_ks))\<^sup>+\<^sup>+ (REvidence 10) (RClaim 11)" using sample_status(3) by blast
  moreover have "(1 :: u64) + 1 = 2" by simp
  ultimately show ?thesis
    using retract_takes_down [OF sample_remembered(2) sample_retractable, of "sample_env 20"] sample_status(1,2)
    by (auto simp del: record_scope_state_revision.simps)
qed

section \<open>Remembering\<close>

text \<open>
  C9. A claim the user may state is remembered. With a new operation identifier, valid texts and
  a domain that user assertions are admissible for, the call succeeds, and afterwards reading the
  two returned identifiers gives an active claim with the trimmed proposition, domain and scope of
  the input, citing the new evidence alone, and the active user assertion with the trimmed text.
\<close>

theorem remember_succeeds:
  assumes R: "reachable_store db view ks" and ok: "rememberable db view ks operation input et pt" and fresh: "fresh_env db env ks"
    and utf8: "utf8_valid (as_bytes (rm_evidence_text input))" "utf8_valid (as_bytes (rm_proposition input))"
  shows "\<exists>ks' c e. remember_user_claim db env ks operation input = (Inr (remembered env), ks') \<and>
    inspect_claim db ks' (env_ids env 1) = Inr (Some c) \<and> cr_proposition c = Some pt \<and> ch_domain (cr_header c) = rm_domain input \<and>
    ch_scope (cr_header c) = rm_scope input \<and> ch_evidence_ids (cr_header c) = [env_ids env 0] \<and> ch_state (cr_header c) = Active \<and>
    inspect_evidence db ks' (env_ids env 0) = Inr (Some e) \<and> er_text e = Some et \<and> eh_class (er_header e) = UserAssertion \<and>
    av_state (er_availability e) = Active"
proof (rule remember_view [OF assms])
  fix ks'
  let ?h = "new_evidence_header (env_ids env 0) UserAssertion User (rm_scope input) (rm_temporal input) DirectTruth (env_now env 0) (oc_id operation)"
  assume run: "remember_user_claim db env ks operation input = (Inr (remembered env), ks')" and R': "reachable_store db view ks'"
    and cr: "created db (view ks) (remembered_records env operation input) {(REvidence (env_ids env 0), RClaim (env_ids env 1))} (view ks')"
    and tx: "payload_text (view ks') (REvidence (env_ids env 0)) = Some et" "payload_text (view ks') (RClaim (env_ids env 1)) = Some pt"
  have o: "obs db (view ks') (REvidence (env_ids env 0)) = Some (KEvidence ?h, rm_scope input, Active, 1)"
    "obs db (view ks') (RClaim (env_ids env 1)) = Some (KClaim (rm_domain input) (rm_temporal input) [env_ids env 0], rm_scope input, Active, 1)"
    using created_obs(2) [OF cr] by (simp_all add: remembered_records_def del: obs.simps)
  obtain c where "inspect_claim db ks' (env_ids env 1) = Inr (Some c)" "cr_proposition c = Some pt" "ch_domain (cr_header c) = rm_domain input"
    "ch_scope (cr_header c) = rm_scope input" "ch_evidence_ids (cr_header c) = [env_ids env 0]" "ch_state (cr_header c) = Active"
    using inspect_claim_read [OF R' o(2)] tx(2) by (metis readable_def record_state.distinct(7))
  moreover obtain e where "inspect_evidence db ks' (env_ids env 0) = Inr (Some e)" "er_text e = Some et" "er_header e = ?h"
    "av_state (er_availability e) = Active"
    using inspect_evidence_read [OF R' o(1)] tx(1) by (metis readable_def record_state.distinct(7))
  ultimately show ?thesis using run by auto
qed

theorem remember_succeeds_witness:
  "\<exists>ks' c. remember_user_claim sample_memory (sample_env 10) mem_empty sample_op sample_claim = (Inr (remembered (sample_env 10)), ks') \<and>
     inspect_claim sample_memory ks' 11 = Inr (Some c) \<and> cr_proposition c = Some ''likes tea''"
proof -
  have "fresh_env sample_memory (sample_env 10) mem_empty" by (rule sample_fresh) simp
  then show ?thesis
    using remember_succeeds [OF sample_start sample_rememberable] sample_utf8 by (fastforce simp: sample_claim_def sample_env_def)
qed

text \<open>
  C3. Remembering is idempotent. Once a call has returned a receipt, a retry with the same
  operation and the same input returns the same receipt and changes nothing, no matter which calls
  of \<open>mem_step\<close> came in between and whatever identifiers and clock the retry would have used.
\<close>

theorem remember_once:
  assumes "reachable_store db view ks" "remember_user_claim db env ks operation input = (Inr receipt, ks1)"
    and "value_codec_ok (vc_remember (md_receipts db)) receipt" "(mem_step db)\<^sup>*\<^sup>* ks1 ks2"
  shows "remember_user_claim db env' ks2 operation input = (Inr receipt, ks2)"
proof -
  note once = memory_store.replay_once [OF reachable_memory_store [OF assms(1)],
      where prepare = "\<lambda>env ks. prepare_remember db env ks operation input", OF _ _ assms(3,4)]
  show ?thesis
    unfolding remember_user_claim_def by (rule once [OF replayable_remember]) (use assms(2) in \<open>simp_all add: remember_user_claim_def\<close>)
qed

theorem remember_once_witness:
  "remember_user_claim sample_memory (sample_env 77)
     (snd (retract sample_memory (sample_env 20) sample_ks \<lparr>oc_id = 901, oc_actor = User\<rparr> (REvidence 10) 1)) sample_op sample_claim =
   (Inr (remembered (sample_env 10)),
    snd (retract sample_memory (sample_env 20) sample_ks \<lparr>oc_id = 901, oc_actor = User\<rparr> (REvidence 10) 1))"
  by (rule remember_once [OF sample_start sample_remembered(1) _ retract_run]) (simp add: sample_receipts_def)

end
