(* ===== verification/Memory_Search.thy ===== *)
theory Memory_Search
  imports Memory_Props
begin

text \<open>
  What recall returns: citations of active records in the asked scopes and times, backed by active
  evidence other than the assistant's own words, ranked and cut to the limit, and the case that
  records them; and which direct calls are closed to the assistant.
\<close>

section \<open>Citations\<close>

lemma cmp_preorder_then:
  assumes "cmp_preorder A c" "cmp_preorder A d"
  shows "cmp_preorder A (\<lambda>x y. ord_then (c x y) (d x y))"
proof -
  have flip: "c x y = Greater \<longleftrightarrow> c y x = Less" "d x y = Greater \<longleftrightarrow> d y x = Less" if "x \<in> A" "y \<in> A" for x y
    using assms that unfolding cmp_preorder_def by metis+
  have trans: "c x z \<noteq> Greater" if "c x y \<noteq> Greater" "c y z \<noteq> Greater" "x \<in> A" "y \<in> A" "z \<in> A" for x y z
    using assms(1) that unfolding cmp_preorder_def by blast
  have trans': "d x z \<noteq> Greater" if "d x y \<noteq> Greater" "d y z \<noteq> Greater" "x \<in> A" "y \<in> A" "z \<in> A" for x y z
    using assms(2) that unfolding cmp_preorder_def by blast
  have "ord_then (c x z) (d x z) \<noteq> Greater"
    if "ord_then (c x y) (d x y) \<noteq> Greater" "ord_then (c y z) (d y z) \<noteq> Greater" and A: "x \<in> A" "y \<in> A" "z \<in> A" for x y z
  proof (cases "c x z")
    case Equal
    have le: "c x y \<noteq> Greater" "c y z \<noteq> Greater" using that(1,2) by (auto simp: ord_then_def split: if_splits)
    have "c z x \<noteq> Greater" using flip(1) [OF A(3,1)] Equal by simp
    then have "c y x \<noteq> Greater" "c z y \<noteq> Greater"
      using trans [OF le(2) _ A(2,3,1)] trans [OF _ le(1) A(3,1,2)] by blast+
    then have "c x y = Equal" "c y z = Equal"
      using le flip(1) [OF A(2,1)] flip(1) [OF A(3,2)] by (cases "c x y", auto, cases "c y z", auto)
    then show ?thesis using that trans' [of x y z] Equal by (simp add: ord_then_def)
  qed (use that trans [of x y z] in \<open>auto simp: ord_then_def split: if_splits\<close>)
  moreover have "ord_then (c x y) (d x y) = Greater \<longleftrightarrow> ord_then (c y x) (d y x) = Less" if "x \<in> A" "y \<in> A" for x y
    using flip(1) [OF that] flip(1) [OF that(2,1)] flip(2) [OF that]
    by (cases "c x y"; cases "c y x") (simp_all add: ord_then_def)
  ultimately show ?thesis unfolding cmp_preorder_def by blast
qed

lemma citation_cmp_preorder: "cmp_preorder A citation_cmp"
proof -
  have "cmp_preorder A (\<lambda>l r. cmp_of (ci_exact_match r) (ci_exact_match l))"
    by (rule cmp_preorder_key [where k = "\<lambda>c. \<not> ci_exact_match c"]) (auto simp: cmp_of_def)
  moreover have "cmp_preorder A (\<lambda>l r. cmp_of (ci_matched_term_count r) (ci_matched_term_count l))"
    by (rule cmp_preorder_key [where k = "\<lambda>c. - uint (ci_matched_term_count c)"])
      (auto simp: cmp_of_def word_less_def intro: word_uint_eqI)
  moreover have "cmp_preorder A (\<lambda>l r. cmp_of (sint (tf_observed_at_ms (ci_temporal r))) (sint (tf_observed_at_ms (ci_temporal l))))"
    by (rule cmp_preorder_key [where k = "\<lambda>c. - sint (tf_observed_at_ms (ci_temporal c))"]) (auto simp: cmp_of_def)
  moreover have "cmp_preorder A (\<lambda>l r. cmp_of (ci_record l) (ci_record r))"
    by (rule cmp_preorder_key [where k = ci_record]) simp
  ultimately show ?thesis unfolding citation_cmp_def [abs_def] by (intro cmp_preorder_then)
qed

text \<open>A citation that tells the truth about the store.\<close>

definition backed :: "'ks memory_db \<Rightarrow> 'ks \<Rightarrow> citation \<Rightarrow> bool" where
  "backed db ks c \<longleftrightarrow>
     record_scope_state_revision db ks (ci_record c) = Inr (ci_scope c, Active, ci_revision c) \<and>
     map ec_id (ci_evidence c) = ci_evidence_ids c \<and>
     (\<forall>x \<in> set (ci_evidence c). \<exists>e. inspect_evidence db ks (ec_id x) = Inr (Some e) \<and> av_state (er_availability e) = Active \<and>
        ec_revision x = av_revision (er_availability e) \<and> ec_class x = eh_class (er_header e) \<and> ec_class x \<noteq> AssistantUtterance)"

lemma evidence_citation_sel [simp]:
  "ec_id (evidence_citation_of i e a) = i" "ec_revision (evidence_citation_of i e a) = av_revision (er_availability e)"
  "ec_class (evidence_citation_of i e a) = eh_class (er_header e)"
  by (simp_all add: evidence_citation_of_def)

lemma evidence_truth_backed:
  "recall_evidence_truth db ks ids = Inr (Some xs) \<Longrightarrow> map ec_id xs = ids \<and>
     (\<forall>x \<in> set xs. \<exists>e. inspect_evidence db ks (ec_id x) = Inr (Some e) \<and> av_state (er_availability e) = Active \<and>
        ec_revision x = av_revision (er_availability e) \<and> ec_class x = eh_class (er_header e) \<and> ec_class x \<noteq> AssistantUtterance)"
proof (induction ids arbitrary: xs)
  case (Cons i ids)
  obtain e a ys where "inspect_evidence db ks i = Inr (Some e)" "av_state (er_availability e) = Active"
    "eh_class (er_header e) \<noteq> AssistantUtterance" "recall_evidence_truth db ks ids = Inr (Some ys)" "xs = evidence_citation_of i e a # ys"
    using Cons.prems by (auto simp: bind_res_eq_Inr split: option.splits if_splits)
  then show ?case using Cons.IH [of ys] by simp
qed simp

lemma recallable_backed:
  assumes "recallable_record db ks r = Inr (Some c)"
  shows "backed db ks c \<and> ci_record c = r"
proof (cases r)
  case (REvidence i)
  then obtain e where e: "inspect_evidence db ks i = Inr (Some e)"
    using assms by (cases "inspect_evidence db ks i") (auto split: option.split_asm)
  then obtain a t where "av_state (er_availability e) = Active"
    "eh_class (er_header e) \<noteq> AssistantUtterance" "c = new_citation (REvidence i) (av_revision (er_availability e)) (eh_scope (er_header e))
       (eh_temporal (er_header e)) [i] [evidence_citation_of i e a] t"
    using assms REvidence by (auto simp: bind_res_eq_Inr split: option.split_asm if_split_asm)
  then show ?thesis using REvidence e by (simp add: backed_def new_citation_def found_def)
next
  case (RClaim i)
  then obtain h where h: "inspect_claim db ks i = Inr (Some h)"
    using assms by (cases "inspect_claim db ks i") (auto split: option.split_asm)
  moreover obtain v where "recall_evidence_truth db ks (ch_evidence_ids (cr_header h)) = Inr v"
    using assms RClaim h by (auto simp: bind_res_eq_Inr split: option.split_asm if_split_asm)
  ultimately obtain x t where "ch_state (cr_header h) = Active"
    and x: "recall_evidence_truth db ks (ch_evidence_ids (cr_header h)) = Inr (Some x)"
    and "c = new_citation (RClaim i) (ch_revision (cr_header h)) (ch_scope (cr_header h)) (ch_temporal (cr_header h))
      (ch_evidence_ids (cr_header h)) x t"
    using assms RClaim by (auto simp: bind_res_eq_Inr split: option.split_asm if_split_asm)
  then show ?thesis using RClaim h evidence_truth_backed [OF x] by (simp add: backed_def new_citation_def found_def)
next
  case (REntity i)
  then obtain h where h: "inspect_entity db ks i = Inr (Some h)"
    using assms by (cases "inspect_entity db ks i") (auto split: option.split_asm)
  moreover obtain v where "recall_evidence_truth db ks (nh_evidence_ids (nr_header h)) = Inr v"
    using assms REntity h by (auto simp: bind_res_eq_Inr split: option.split_asm if_split_asm)
  ultimately obtain x t where "nh_state (nr_header h) = Active"
    and x: "recall_evidence_truth db ks (nh_evidence_ids (nr_header h)) = Inr (Some x)"
    and "c = new_citation (REntity i) (nh_revision (nr_header h)) (nh_scope (nr_header h)) (nh_temporal (nr_header h))
      (nh_evidence_ids (nr_header h)) x t"
    using assms REntity by (auto simp: bind_res_eq_Inr split: option.split_asm if_split_asm)
  then show ?thesis using REntity h evidence_truth_backed [OF x] by (simp add: backed_def new_citation_def found_def)
qed (use assms in simp_all)

lemma matched_simps [simp]:
  "backed db ks (c\<lparr>ci_exact_match := x, ci_matched_term_count := n\<rparr>) = backed db ks c"
  "citation_admitted query (c\<lparr>ci_exact_match := x, ci_matched_term_count := n\<rparr>) = citation_admitted query c"
  by (simp_all add: backed_def citation_admitted_def split: option.splits)

lemma collect_citations_sound:
  "collect_citations db ks excluded query ms = Inr cs \<Longrightarrow> c \<in> set cs \<Longrightarrow>
     backed db ks c \<and> citation_admitted query c \<and> ci_record c \<notin> excluded"
proof (induction ms arbitrary: cs)
  case (Cons m ms)
  obtain r matched where m: "m = (r, matched)" by force
  show ?case
  proof (cases "r \<in> excluded")
    case False
    obtain v rest where v: "recallable_record db ks r = Inr v" and rest: "collect_citations db ks excluded query ms = Inr rest"
      and cs: "cs = (case v of None \<Rightarrow> rest | Some c \<Rightarrow>
        if citation_admitted query c then c\<lparr>ci_exact_match := cm_exact matched, ci_matched_term_count := cm_matched_terms matched\<rparr> # rest else rest)"
      using Cons.prems(1) False by (auto simp: m bind_res_eq_Inr split: option.splits if_splits)
    show ?thesis
    proof (cases "c \<in> set rest")
      case False
      then obtain d where "v = Some d" "citation_admitted query d"
        "c = d\<lparr>ci_exact_match := cm_exact matched, ci_matched_term_count := cm_matched_terms matched\<rparr>"
        using Cons.prems(2) cs by (auto split: option.splits if_splits)
      moreover have "backed db ks d" "ci_record d \<notin> excluded" using recallable_backed [of db ks r d] v calculation(1) \<open>r \<notin> excluded\<close> by auto
      ultimately show ?thesis by simp
    qed (use Cons.IH rest in blast)
  qed (use Cons m in auto)
qed simp

lemma check_query_keeps:
  assumes "check_query u query = Inr (q, n)"
  shows "rq_limit q = min (rq_limit query) MAX_RECALL_LIMIT" "citation_admitted q = citation_admitted query"
  using assms by (auto simp: check_query_def Let_def citation_admitted_def [abs_def] sort_dedup_def split: if_splits)

section \<open>Recall\<close>

lemma map_enumerate_snd: "map (\<lambda>x. f (snd x)) (List.enumerate n xs) = map f xs"
  by (induction xs arbitrary: n) simp_all

text \<open>
  C8. Recall tells the truth. Every citation it returns is of a record that is active at the
  cited revision and in the cited scope, lies in the asked scopes, observed-time and valid-time
  bounds, is not excluded, and names evidence that is active and is not the assistant's own words.
  Citations are ranked, exact matches first, and at most the limit of the query, never more than
  100; the stored case lists the cited records and revisions in that order.
\<close>

theorem recall_sound:
  assumes R: "reachable_store db view ks" and run: "recall_locked db env ks query excluded = (Inr result, ks')"
  shows "(\<forall>c \<in> set (rs_citations result). backed db ks c \<and> citation_admitted query c \<and> ci_record c \<notin> excluded) \<and>
    sorted_wrt (\<lambda>a b. citation_cmp a b \<noteq> Greater) (rs_citations result) \<and>
    length (rs_citations result) \<le> min (rq_limit query) 100 \<and>
    (\<exists>rc. inspect_recall_case db ks' (rs_case_id result) = Inr (Some rc) \<and>
       map (\<lambda>k. (kc_record k, kc_revision k)) (kr_candidates rc) = map (\<lambda>c. (ci_record c, ci_revision c)) (rs_citations result))"
proof -
  note S = reachable_memory_store [OF R]
  obtain q n ms cs b b' where q: "check_query (md_unicode db) query = Inr (q, n)"
    and cs: "collect_citations db ks excluded q ms = Inr cs" and b: "encode (mc_recall_case (md_codecs db))
      (recall_case_of db (env_ids env 0) q b (take (rq_limit q) (sort_by citation_cmp cs)) (env_now env 0)) = Inr b'"
    and p: "prepare_recall db env ks query excluded = Inr (Write [put P_RECALL_CASES (id_key (env_ids env 0)) b']
      \<lparr>rs_case_id = env_ids env 0, rs_citations = take (rq_limit q) (sort_by citation_cmp cs)\<rparr>)"
    using run by (cases "prepare_recall db env ks query excluded")
      (auto simp: recall_locked_def run_mutation_def prepare_recall_def bind_res_eq_Inr Let_def)
  let ?cs = "take (rq_limit q) (sort_by citation_cmp cs)" and ?i = "env_ids env 0"
  have result: "result = \<lparr>rs_case_id = ?i, rs_citations = ?cs\<rparr>"
    and v: "view ks' = apply_ops [put P_RECALL_CASES (id_key ?i) b'] (view ks)"
    using run memory_store.run_view [OF S, of ks "[put P_RECALL_CASES (id_key ?i) b']" "\<lparr>rs_case_id = ?i, rs_citations = ?cs\<rparr>"]
    by (simp_all add: recall_locked_def p)
  have "\<forall>c \<in> set ?cs. backed db ks c \<and> citation_admitted query c \<and> ci_record c \<notin> excluded"
    using collect_citations_sound [OF cs] in_set_takeD [of _ "rq_limit q" "sort_by citation_cmp cs"] check_query_keeps(2) [OF q] by auto
  moreover have "sorted_wrt (\<lambda>a b. citation_cmp a b \<noteq> Greater) ?cs"
    by (rule sorted_wrt_take, rule sort_by_sorted [OF citation_cmp_preorder [of UNIV]]) simp
  moreover have "length ?cs \<le> min (rq_limit query) 100" unfolding check_query_keeps(1) [OF q] by (auto simp: MAX_RECALL_LIMIT_def)
  moreover have "de (mc_recall_case (md_codecs db)) b' = Inr (recall_case_of db ?i q b ?cs (env_now env 0))"
    using b de_enc [OF memory_store.codec(19) [OF S]] unfolding encode_enc [OF memory_store.codec(19) [OF S]] by fastforce
  then have "inspect_recall_case db ks' ?i = Inr (Some (recall_case_of db ?i q b ?cs (env_now env 0)))"
    by (simp add: inspect_recall_case_def get_decoded_def memory_store.read [OF S] v)
  moreover have "map (\<lambda>k. (kc_record k, kc_revision k)) (kr_candidates (recall_case_of db ?i q b xs now)) = map (\<lambda>c. (ci_record c, ci_revision c)) xs"
    for xs now using map_enumerate_snd [of "\<lambda>c. (ci_record c, ci_revision c)" 0 xs] by (simp add: recall_case_of_def comp_def split_def)
  ultimately show ?thesis unfolding result by simp
qed

definition sample_query :: memory_query where
  "sample_query = \<lparr>rq_text = [], rq_scopes = [Personal], rq_observed_from_ms = Some 0, rq_observed_to_ms = None,
     rq_valid_at_ms = None, rq_limit = 5\<rparr>"

lemma sample_normalized: "normalize_exact sample_unicode [] = []"
  by code_simp

lemma sample_recall: "\<exists>result ks'. recall_locked sample_memory (sample_env 30) mem_empty sample_query {} = (Inr result, ks')"
proof -
  have "check_query (md_unicode sample_memory) sample_query = Inr (sample_query, [])"
    using sample_normalized by (simp add: check_query_def sample_query_def sort_dedup_def sample_memory_def
        MAX_RECALL_SCOPES_def MAX_RECALL_QUERY_BYTES_def MAX_RECALL_LIMIT_def)
  moreover have "recall_candidates sample_memory mem_empty {} sample_query [] = Inr []"
    by (simp add: recall_candidates_def records_in_observed_range_def Let_def mem_kv_def mem_scan_def mem_empty_def)
  moreover have "\<exists>b. md_query_bytes sample_memory sample_query = Inr b" by (simp add: sample_memory_def)
  moreover have "\<exists>b. encode (mc_recall_case sample_codecs) x = Inr b" for x
    using encode_enc [of "mc_recall_case sample_codecs"] by (simp add: sample_codecs_def)
  ultimately have "\<exists>ops r. prepare_recall sample_memory (sample_env 30) mem_empty sample_query {} = Inr (Write ops r)"
    by (fastforce simp: prepare_recall_def Let_def bind_res_eq_Inr)
  then obtain ops r where p: "prepare_recall sample_memory (sample_env 30) mem_empty sample_query {} = Inr (Write ops r)" by blast
  then show ?thesis using sample_store.run_view(2) [of mem_empty ops r] by (simp add: recall_locked_def prod_eq_iff)
qed

theorem recall_sound_witness:
  "\<exists>result ks'. recall_locked sample_memory (sample_env 30) mem_empty sample_query {} = (Inr result, ks') \<and> length (rs_citations result) \<le> 5 \<and>
     (\<exists>rc. inspect_recall_case sample_memory ks' (rs_case_id result) = Inr (Some rc) \<and>
        length (kr_candidates rc) = length (rs_citations result))"
proof -
  obtain result ks' where run: "recall_locked sample_memory (sample_env 30) mem_empty sample_query {} = (Inr result, ks')"
    using sample_recall by blast
  note sound = recall_sound [OF sample_start run]
  then have "length (rs_citations result) \<le> 5" by (simp add: sample_query_def)
  moreover have "\<exists>rc. inspect_recall_case sample_memory ks' (rs_case_id result) = Inr (Some rc) \<and>
      length (kr_candidates rc) = length (rs_citations result)"
    using sound by (elim conjE exE) (drule arg_cong [where f = length], auto)
  ultimately show ?thesis using run by blast
qed

text \<open>
  C14. The direct calls that change what is known are closed to the assistant: retracting,
  remembering, correcting, creating claims, relations, artifact collections, snapshots or passages,
  and committing a purge are each refused without effect, and evidence may be captured by the
  assistant only as its own utterance. Proposals, which the assistant may submit and review, are
  outside this statement.
\<close>

theorem assistant_confined:
  assumes "oc_actor operation = Assistant"
  shows "retract db env ks operation t e = (Inl MUnauthorized, ks) \<and>
    remember_user_claim db env ks operation rm = (Inl MUnauthorized, ks) \<and>
    correct_user_claim db env ks operation cc = (Inl MUnauthorized, ks) \<and>
    create_claim db env ks operation nc = (Inl MUnauthorized, ks) \<and>
    create_semantic_relation db env ks operation nl = (Inl MUnauthorized, ks) \<and>
    create_artifact_collection db env ks operation nac = (Inl MUnauthorized, ks) \<and>
    import_artifact_snapshot db env ks operation nas = (Inl MUnauthorized, ks) \<and>
    create_artifact_passages db env ks operation npb = (Inl MUnauthorized, ks) \<and>
    commit_purge db env ks operation preview = (Inl MUnauthorized, ks) \<and>
    (ne_class ne \<noteq> AssistantUtterance \<longrightarrow> (\<exists>err. capture_evidence db env ks operation ne = (Inl err, ks)))"
proof -
  have "\<exists>err. prepare_capture db env ks operation ne = Inl err" if "ne_class ne \<noteq> AssistantUtterance"
  proof (cases "prepare_capture db env ks operation ne")
    case (Inr w)
    then have "capture_authorized (ne_class ne) Assistant"
      using assms by (auto simp: prepare_capture_def bind_res_eq_Inr validate_evidence_capture_def Let_def split: if_splits)
    then show ?thesis using that by (cases "ne_class ne") auto
  qed simp
  then show ?thesis using assms
    by (auto simp: retract_def prepare_retract_def remember_user_claim_def prepare_remember_def correct_user_claim_def prepare_correct_def
        create_claim_def prepare_claim_def create_semantic_relation_def prepare_relation_def check_relation_input_def
        create_artifact_collection_def prepare_collection_def import_artifact_snapshot_def prepare_snapshot_def
        create_artifact_passages_def prepare_passages_def require_artifact_actor_def capture_evidence_def commit_purge_def prepare_purge_def run_mutation_def)
qed

theorem assistant_confined_witness:
  "retract sample_memory (sample_env 20) sample_ks \<lparr>oc_id = 902, oc_actor = Assistant\<rparr> (RClaim 11) 1 = (Inl MUnauthorized, sample_ks)"
  using assistant_confined [of "\<lparr>oc_id = 902, oc_actor = Assistant\<rparr>" sample_memory "sample_env 20" sample_ks "RClaim 11" 1] by simp

section \<open>Dependencies\<close>

text \<open>
  C10. The search for dependents ends and is exact. Dependencies of artifacts and their evidence
  run in circles; still the search from any record returns, in order and each once with its current
  revision, exactly the records other than the start that depend on it directly or through others
  and are active, or, for a purge, are not purged yet.
\<close>

theorem dependency_closure_exact:
  assumes "reachable_store db view ks"
  shows "\<exists>ds. dependency_closure db ks t incl = Inr ds \<and> sorted_wrt (<) (map pd_record ds) \<and>
    (\<forall>d. d \<in> set ds \<longleftrightarrow> pd_record d \<noteq> t \<and> (dep (view ks))\<^sup>+\<^sup>+ t (pd_record d) \<and>
       (\<exists>sc st. record_scope_state_revision db ks (pd_record d) = Inr (sc, st, pd_expected_revision d) \<and>
          (st = Active \<or> incl \<and> st \<noteq> Purged)))"
proof -
  note inv = reachable_inv [OF assms]
  have status: "(\<exists>k. obs db (view ks) r = Some (k, sc, st, v)) \<longleftrightarrow> record_scope_state_revision db ks r = Inr (sc, st, v)" for r sc st v
    unfolding reachable_status [OF assms] by (auto simp: status_of_def split: option.splits simp del: obs.simps)
  show ?thesis
    by (rule memory_store.closure_correct [OF reachable_memory_store [OF assms] mem_invD(1) [OF inv] mem_invD(2) [OF inv], of t incl])
      (auto simp: listed_def simp flip: status simp del: obs.simps record_scope_state_revision.simps)
qed

theorem dependency_closure_exact_witness:
  "\<exists>ds. dependency_closure sample_memory sample_ks (REvidence 10) False = Inr ds \<and> RClaim 11 \<in> pd_record ` set ds"
proof -
  have "(dep (mem_view sample_ks))\<^sup>+\<^sup>+ (REvidence 10) (RClaim 11)" using sample_status(3) by blast
  then obtain ds where ds: "dependency_closure sample_memory sample_ks (REvidence 10) False = Inr ds"
    "\<lparr>pd_record = RClaim 11, pd_expected_revision = 1\<rparr> \<in> set ds"
    using dependency_closure_exact [OF sample_remembered(2), of "REvidence 10" False] sample_status(2)
    by (auto simp del: record_scope_state_revision.simps)
  then show ?thesis by force
qed

end
