(* ===== verification/Memory_Privacy.thy ===== *)
theory Memory_Privacy
  imports Memory_Search
begin

text \<open>
  What a purge guarantees: the payloads of the purged record and of everything that was derived
  from it are gone for good, and a preview that still describes the store can be committed.
\<close>

section \<open>Erasure\<close>

lemma erased_reads:
  assumes R: "reachable_store db view ks" and gone: "payload_at (view ks) r = None"
  shows "get_payload db ks r = Inr None" "recallable_record db ks r = Inr None"
proof -
  note S = reachable_memory_store [OF R] and ok = mem_invD(1) [OF reachable_inv [OF R]]
  show "get_payload db ks r = Inr None" using gone by (simp add: get_payload_def memory_store.read [OF S])
  have tx: "payload_text (view ks) r = None" using gone by (simp add: payload_text_def)
  show "recallable_record db ks r = Inr None"
  proof (cases r)
    case (REvidence i)
    then show ?thesis using tx memory_store.inspect_evidence_view [OF S ok, of i]
      by (auto simp: readable_def split: option.splits bind_splits)
  next
    case (RClaim i)
    then show ?thesis using tx memory_store.inspect_claim_view [OF S ok, of i]
      by (auto simp: readable_def split: option.splits)
  next
    case (REntity i)
    then show ?thesis using gone memory_store.inspect_entity_view [OF S ok, of i]
      by (auto simp: entity_record_of_def stored_at_def split: option.splits)
  qed simp_all
qed

lemma purge_run:
  assumes R: "reachable_store db view ks" and run: "commit_purge db env ks operation preview = (Inr receipt, ks')"
    and new: "view ks (part_name P_OPERATIONS) (id_key (oc_id operation)) = None"
  obtains ops where "prepare_purge db env ks operation preview = Inr (Write ops receipt)" "view ks' = apply_ops ops (view ks)"
    "reachable_store db view ks'"
proof -
  note S = reachable_memory_store [OF R]
  obtain w where w: "prepare_purge db env ks operation preview = Inr w"
    using run by (cases "prepare_purge db env ks operation preview") (auto simp: commit_purge_def run_mutation_def)
  have "\<exists>ops. w = Write ops receipt"
  proof (cases w)
    case (Replayed x)
    obtain digest body where "prepare_purge db env ks operation preview = unless_replayed db ks (vc_purge (md_receipts db)) operation digest body"
      "fresh_body body"
      using replayable_purge [OF w] unfolding replayable_def by blast
    then show ?thesis using w Replayed memory_store.unreplayed [OF S new, of "vc_purge (md_receipts db)"] by (auto simp: fresh_body_def)
  next
    case (Write ops x)
    then show ?thesis using run w memory_store.run_view [OF S, of ks ops x] by (auto simp: commit_purge_def)
  qed
  then obtain ops where ops: "w = Write ops receipt" by blast
  have "view ks' = apply_ops ops (view ks)"
    using run w ops memory_store.run_view(1) [OF S, of ks ops receipt] by (simp add: commit_purge_def)
  moreover have "reachable_store db view ks'"
    using reachable_step [OF R] step_purge [of db ks env operation preview] unfolding run by auto
  ultimately show ?thesis using that w ops by blast
qed

lemma payload_stays_gone:
  assumes R: "reachable_store db view ks" and later: "(mem_step db)\<^sup>*\<^sup>* ks ks'"
    and "obs db (view ks) r \<noteq> None" "payload_at (view ks) r = None"
  shows "payload_at (view ks') r = None"
  using memory_store.mem_run_keeps [OF reachable_memory_store [OF R] later reachable_inv [OF R]] assms(3,4)
  by (simp add: extends_def del: obs.simps)

text \<open>
  C4. Purged is purged. When a purge is committed, its target becomes purged, and from then on,
  whatever calls of \<open>mem_step\<close> follow, no payload can be read of the target or of any record that depended on
  it, directly or through others, active or not, unless an earlier purge had taken it already; nor
  does recall ever cite one of them. A payload is the entry of the record in the payloads partition.
\<close>

theorem purge_erases:
  assumes R: "reachable_store db view ks" and run: "commit_purge db env ks operation preview = (Inr receipt, ks1)"
    and new: "view ks (part_name P_OPERATIONS) (id_key (oc_id operation)) = None"
    and later: "(mem_step db)\<^sup>*\<^sup>* ks1 ks2"
  shows "(\<exists>sc. record_scope_state_revision db ks1 (pv_target preview) = Inr (sc, Purged, pv_expected_revision preview + 1)) \<and>
    (\<forall>r. r = pv_target preview \<or>
         (dep (view ks))\<^sup>+\<^sup>+ (pv_target preview) r \<and> (\<exists>sc st v. record_scope_state_revision db ks r = Inr (sc, st, v) \<and> st \<noteq> Purged) \<longrightarrow>
       get_payload db ks2 r = Inr None \<and> recallable_record db ks2 r = Inr None)"
proof -
  note S = reachable_memory_store [OF R] and inv = reachable_inv [OF R]
  let ?t = "pv_target preview"
  obtain ops where p: "prepare_purge db env ks operation preview = Inr (Write ops receipt)" and v: "view ks1 = apply_ops ops (view ks)"
    and R1: "reachable_store db view ks1"
    by (rule purge_run [OF R run new])
  note E = memory_store.purge_effect [OF S inv p]
  have pur: "purging db (view ks) (purge_map db (view ks) ?t (pv_invalidations preview)) (view ks1)" using E(1) by (simp add: v)
  have gone: "payload_at (view ks2) r = None" if hit: "purge_map db (view ks) ?t (pv_invalidations preview) r \<noteq> None" for r
  proof (rule payload_stays_gone [OF R1 later])
    obtain x where "purge_map db (view ks) ?t (pv_invalidations preview) r = Some x" using hit by blast
    then have "payload_at (view ks1) r = None \<and> (\<exists>ob. obs db (view ks1) r = Some ob)" using pur unfolding purging_def by blast
    then show "obs db (view ks1) r \<noteq> None" "payload_at (view ks1) r = None" by (simp_all del: obs.simps)
  qed
  have listed: "r \<in> pd_record ` set (pv_invalidations preview)"
    if dp: "r \<noteq> ?t" "(dep (view ks))\<^sup>+\<^sup>+ ?t r" "st \<noteq> Purged" and status: "record_scope_state_revision db ks r = Inr (sc, st, v)" for r sc st v
  proof -
    obtain k where "obs db (view ks) r = Some (k, sc, st, v)" by (rule status_obs [OF R status])
    then have "\<lparr>pd_record = r, pd_expected_revision = v\<rparr> \<in> set (pv_invalidations preview)"
      unfolding E(4) using dp by (simp add: listed_def del: obs.simps)
    then show ?thesis by (rule rev_image_eqI) simp
  qed
  have "get_payload db ks2 r = Inr None \<and> recallable_record db ks2 r = Inr None"
    if "r = ?t \<or> (dep (view ks))\<^sup>+\<^sup>+ ?t r \<and> (\<exists>sc st v. record_scope_state_revision db ks r = Inr (sc, st, v) \<and> st \<noteq> Purged)" for r
  proof -
    have "purge_map db (view ks) ?t (pv_invalidations preview) r \<noteq> None"
      using that listed [of r] unfolding purge_map_def by auto
    then show ?thesis using erased_reads [OF reachable_step [OF R1 later] gone] by simp
  qed
  moreover have "\<exists>sc. record_scope_state_revision db ks1 ?t = Inr (sc, Purged, pv_expected_revision preview + 1)"
  proof -
    obtain k sc st where "obs db (view ks) ?t = Some (k, sc, st, pv_expected_revision preview)" using E(5) by blast
    moreover have "\<exists>ob. obs db (view ks) ?t = Some ob \<and> obs db (view ks1) ?t = Some (revision_after (Some Purged) ob)"
    proof -
      have "purge_map db (view ks) ?t (pv_invalidations preview) ?t = Some (Some Purged)" by (simp add: purge_map_def)
      then show ?thesis using pur unfolding purging_def by blast
    qed
    ultimately have "obs db (view ks1) ?t = Some (k, sc, Purged, pv_expected_revision preview + 1)" by (auto simp: revision_after_def simp del: obs.simps)
    then show ?thesis using obs_status [OF R1] by blast
  qed
  ultimately show ?thesis by blast
qed

section \<open>Committing a preview\<close>

context memory_store
begin

lemma live_signals_current:
  "live_signals db ks is = Inr pins \<Longrightarrow> p \<in> set pins \<Longrightarrow>
     get_head db ks P_RELATION_SIGNAL_HEADS (sp_id p) = Inr (Some (sp_revision p)) \<and>
     (\<exists>g. get_decoded db ks (mc_signal (md_codecs db)) P_RELATION_SIGNALS (revision_key (sp_id p) (sp_revision p)) = Inr (Some g))"
proof (induction "is" arbitrary: pins)
  case (Cons i "is")
  obtain v g rest where v: "get_head db ks P_RELATION_SIGNAL_HEADS i = Inr (Some v)"
    and g: "get_decoded db ks (mc_signal (md_codecs db)) P_RELATION_SIGNALS (revision_key i v) = Inr (Some g)"
    and rest: "live_signals db ks is = Inr rest" and "pins = rest \<or> pins = \<lparr>sp_id = i, sp_revision = v\<rparr> # rest"
  proof -
    obtain h where h: "get_head db ks P_RELATION_SIGNAL_HEADS i = Inr (Some h)"
      using Cons.prems(1) by (cases "get_head db ks P_RELATION_SIGNAL_HEADS i") (auto split: option.split_asm)
    with Cons.prems(1) that [of h] show ?thesis by (auto simp: bind_res_eq_Inr ok_or_eq_Inr split: if_splits)
  qed
  then show ?case using Cons.IH [OF rest] Cons.prems(2) by auto
qed simp

lemma purge_signals_ok:
  assumes "\<And>p. p \<in> set ps \<Longrightarrow> sp_revision p \<noteq> - 1 \<and>
     get_head db ks P_RELATION_SIGNAL_HEADS (sp_id p) = Inr (Some (sp_revision p)) \<and>
     (\<exists>g. get_decoded db ks (mc_signal (md_codecs db)) P_RELATION_SIGNALS (revision_key (sp_id p) (sp_revision p)) = Inr (Some g))"
  shows "\<exists>ops pins. purge_signals db ks op now ps = Inr (ops, pins)"
  using assms
proof (induction ps)
  case (Cons p ps)
  obtain ops pins where "purge_signals db ks op now ps = Inr (ops, pins)" using Cons by auto
  moreover obtain a pin where "append_relation_signal_state_revision db ks p Purged op now = Inr (a, pin)"
    using Cons.prems [of p] by (auto simp: append_relation_signal_state_revision_def Let_def encode_enc)
  ultimately show ?case by simp
qed simp

lemma append_state_ok:
  assumes ok: "rec_ok db (view ks) r" and o: "obs db (view ks) r = Some (k, sc, s0, e)" and e: "e \<noteq> - 1"
  shows "\<exists>ops rv. append_state_revision db ks r e st op now = Inr (ops, rv)"
proof -
  obtain ops where "append_record db ks r e (e + 1) st op now = Inr ops" using append_record_ok [OF ok o] by blast
  moreover have "record_scope_state_revision db ks r = Inr (sc, s0, e)" unfolding status_view [OF ok] o by (simp add: status_of_def)
  ultimately show ?thesis using e by (simp add: append_state_revision_def)
qed

lemma erase_ok:
  assumes "\<exists>x. get_decoded db ks (mc_lexical (md_codecs db)) P_LEXICAL_DOCS (record_key r) = Inr x"
  shows "\<exists>ops. erase db ks r = Inr ops"
proof -
  obtain x where "get_decoded db ks (mc_lexical (md_codecs db)) P_LEXICAL_DOCS (record_key r) = Inr x" using assms by blast
  then show ?thesis by (cases x) (simp_all add: erase_def remove_lexical_document_def)
qed

lemma count_present_ok: "unat n + length cells < 2 ^ 32 \<Longrightarrow> \<exists>v. count_present db ks n cells = Inr v"
proof (induction cells arbitrary: n)
  case (Cons c cells)
  obtain p k where c: "c = (p, k)" by force
  have "unat (- 1 :: u32) = 2 ^ 32 - 1" by (simp add: unsigned_minus_1_eq_mask mask_eq_exp_minus_1)
  then have n: "n \<noteq> - 1" using Cons.prems by auto
  then have "1 + n \<noteq> 0" by (metis add.commute eq_neg_iff_add_eq_0)
  then have "unat (n + 1) = unat n + 1" using unatSuc [of n] by (simp add: add.commute)
  then show ?case using Cons.IH [of "n + 1"] Cons.IH [of n] Cons.prems n c by simp
qed simp

lemma purge_dependents_ok:
  assumes ok: "\<And>r. rec_ok db (view ks) r"
    and ds: "\<And>d. d \<in> set ds \<Longrightarrow> pd_expected_revision d \<noteq> - 1 \<and>
      (\<exists>k sc st. obs db (view ks) (pd_record d) = Some (k, sc, st, pd_expected_revision d))"
    and lex: "\<And>r. \<exists>x. get_decoded db ks (mc_lexical (md_codecs db)) P_LEXICAL_DOCS (record_key r) = Inr x"
  shows "\<exists>ops revs. purge_dependents db ks op now ds = Inr (ops, revs)"
  using ds
proof (induction ds)
  case (Cons d ds)
  obtain k sc st where o: "obs db (view ks) (pd_record d) = Some (k, sc, st, pd_expected_revision d)" using Cons.prems [of d] by auto
  have e: "pd_expected_revision d \<noteq> - 1" using Cons.prems [of d] by simp
  have "record_scope_state_revision db ks (pd_record d) = Inr (sc, st, pd_expected_revision d)"
    unfolding status_view [OF ok] o by (simp add: status_of_def)
  moreover obtain a rv where "append_state_revision db ks (pd_record d) (pd_expected_revision d) Unsupported op now = Inr (a, rv)"
    using append_state_ok [OF ok o e, of Unsupported op now] by blast
  ultimately have "\<exists>w. withdraw db ks op now d = Inr w" by (cases "st = Active") (simp_all add: withdraw_def)
  then obtain w where "withdraw db ks op now d = Inr w" by blast
  moreover obtain er where "erase db ks (pd_record d) = Inr er" using erase_ok [OF lex] by blast
  moreover obtain b revs where "purge_dependents db ks op now ds = Inr (b, revs)" using Cons by auto
  ultimately show ?case by (cases w) simp
qed simp

end

text \<open>What committing a preview asks of its caller and of the store.\<close>

definition committable :: "'ks memory_db \<Rightarrow> ('ks \<Rightarrow> kv_view) \<Rightarrow> 'ks \<Rightarrow> operation_context \<Rightarrow> purge_preview \<Rightarrow> bool" where
  "committable db view ks operation preview \<longleftrightarrow>
     oc_actor operation = Operator \<and>
     (\<exists>d. mutation_digest db ''commit_purge'' Operator (MuPurge preview) = Inr d) \<and>
     view ks (part_name P_OPERATIONS) (id_key (oc_id operation)) = None \<and>
     (\<forall>r sc st. record_scope_state_revision db ks r \<noteq> Inr (sc, st, - 1)) \<and>
     (\<forall>p \<in> set (pv_relation_signal_invalidations preview). sp_revision p \<noteq> - 1) \<and>
     (\<forall>r. \<exists>x. get_decoded db ks (mc_lexical (md_codecs db)) P_LEXICAL_DOCS (record_key r) = Inr x) \<and>
     (\<forall>r. \<exists>v. to_value (vc_purge (md_receipts db)) r = Inr v)"

lemma purge_writes:
  assumes R: "reachable_store db view ks" and pre: "preview_purge db env0 ks Operator t = Inr preview"
    and ok: "committable db view ks operation preview"
    and time: "sint (pv_issued_at_ms preview) \<le> sint (env_now env 0)" "sint (env_now env 0) < sint (pv_expires_at_ms preview)"
  obtains ops receipt where "prepare_purge db env ks operation preview = Inr (Write ops receipt)" "rv_record (pq_target receipt) = t"
proof -
  note S = reachable_memory_store [OF R] and inv = reachable_inv [OF R] and a = ok [unfolded committable_def]
  let ?ds = "pv_invalidations preview" and ?now = "env_now env 1"
  obtain expires where exp: "checked_add_i64 (env_now env0 0) PURGE_PREVIEW_TTL_MS = Some expires"
    and built: "build_purge_preview_at db ks t (env_now env0 0) expires = Inr preview"
    using pre by (auto simp: preview_purge_def bind_res_eq_Inr ok_or_eq_Inr)
  note P = preview_contents [OF built]
  have chk: "check_preview db ks (env_now env 0) preview = Inr ()"
    using P(1) built exp time by (auto simp: check_preview_def)
  have bound: "v \<noteq> - 1" if "obs db (view ks) r = Some (k, sc, st, v)" for r k sc st v
    using a obs_status [OF R that] by blast
  obtain k sc st where o: "obs db (view ks) t = Some (k, sc, st, pv_expected_revision preview)"
    using P(3) status_obs [OF R] by blast
  obtain c rv where c: "append_state_revision db ks t (pv_expected_revision preview) Purged (oc_id operation) ?now = Inr (c, rv)"
    using memory_store.append_state_ok [OF S mem_invD(1) [OF inv] o bound [OF o]] by blast
  have rv: "rv_record rv = t" using memory_store.append_state_revision_appends(2) [OF S mem_invD(1) [OF inv] c] by simp
  obtain er where er: "erase db ks t = Inr er" using memory_store.erase_ok [OF S] a by blast
  have "pd_expected_revision d \<noteq> - 1 \<and> (\<exists>k sc st. obs db (view ks) (pd_record d) = Some (k, sc, st, pd_expected_revision d))"
    if d: "d \<in> set ?ds" for d
  proof -
    have cl: "dependency_closure db ks t True = Inr ?ds" using P(2) by (simp add: purge_dependency_closure_def)
    have "\<exists>k sc st. obs db (view ks) (pd_record d) = Some (k, sc, st, pd_expected_revision d)"
      by (rule memory_store.closure_correct [OF S mem_invD(1) [OF inv] mem_invD(2) [OF inv], of t True]) (use cl d in auto)
    then show ?thesis using bound by blast
  qed
  then obtain b revs where b: "purge_dependents db ks (oc_id operation) ?now ?ds = Inr (b, revs)"
    using memory_store.purge_dependents_ok [OF S mem_invD(1) [OF inv]] a by blast
  obtain sg pins where sg: "purge_signals db ks (oc_id operation) ?now (pv_relation_signal_invalidations preview) = Inr (sg, pins)"
  proof -
    obtain ids ps where "live_signals db ks ids = Inr ps" "sort_by signal_cmp ps = pv_relation_signal_invalidations preview"
      using P(4) by (auto simp: relation_signals_depending_on_records_def bind_res_eq_Inr)
    moreover from this have "set (pv_relation_signal_invalidations preview) = set ps" by (metis set_sort_by)
    ultimately show ?thesis
      using that memory_store.purge_signals_ok [OF S, of "pv_relation_signal_invalidations preview" ks "oc_id operation" ?now]
        memory_store.live_signals_current [OF S] a by blast
  qed
  let ?r = "\<lparr>pq_target = rv, pq_invalidated = revs, pq_purged_relation_signals = pins,
    pq_purged_activation_traces = pv_activation_trace_invalidations preview, pq_payloads_made_unavailable = pv_payloads_to_make_unavailable preview\<rparr>"
  obtain v where v: "to_value (vc_purge (md_receipts db)) ?r = Inr v" using a by blast
  obtain ops where p: "prepare_purge db env ks operation preview = Inr (Write ops ?r)"
    using a chk c er b sg P(1) memory_store.finish_ok [OF S v] memory_store.unreplayed [OF S, of ks operation "vc_purge (md_receipts db)"]
    by (fastforce simp: prepare_purge_def Let_def)
  then show ?thesis using that rv by simp
qed

text \<open>
  C11. A preview can be committed. While the store has not changed since the operator asked for
  the preview, committing it at any time from its issue until, but not including, its expiry ten
  minutes later succeeds, and the receipt lists exactly the active records among the invalidations
  of the preview. The operation identifier must be new, no revision counter at its maximum, and the
  lexical documents and the receipt readable and writable by the serializer (\<open>committable\<close>).
\<close>

theorem preview_commits:
  assumes R: "reachable_store db view ks" and pre: "preview_purge db env0 ks Operator t = Inr preview"
    and ok: "committable db view ks operation preview"
    and time: "sint (pv_issued_at_ms preview) \<le> sint (env_now env 0)" "sint (env_now env 0) < sint (pv_expires_at_ms preview)"
  shows "\<exists>receipt ks'. commit_purge db env ks operation preview = (Inr receipt, ks') \<and>
    rv_record (pq_target receipt) = t \<and> map rv_record (pq_invalidated receipt) =
      filter (\<lambda>r. \<exists>sc v. record_scope_state_revision db ks r = Inr (sc, Active, v)) (map pd_record (pv_invalidations preview))"
proof -
  note S = reachable_memory_store [OF R] and inv = reachable_inv [OF R]
  obtain ops r where p: "prepare_purge db env ks operation preview = Inr (Write ops r)" and rv: "rv_record (pq_target r) = t"
    by (rule purge_writes [OF assms])
  have "commit_purge db env ks operation preview = (Inr r, snd (commit_purge db env ks operation preview))"
    using memory_store.run_view(2) [OF S, of ks ops r] by (simp add: commit_purge_def p prod_eq_iff)
  moreover have "active db (view ks) = (\<lambda>r. \<exists>sc v. record_scope_state_revision db ks r = Inr (sc, Active, v))"
    unfolding reachable_status [OF R] by (rule ext) (rule status_active_iff [symmetric])
  then have "map rv_record (pq_invalidated r) =
      filter (\<lambda>r. \<exists>sc v. record_scope_state_revision db ks r = Inr (sc, Active, v)) (map pd_record (pv_invalidations preview))"
    using memory_store.purge_effect(2) [OF S inv p] by simp
  ultimately show ?thesis using rv by blast
qed

section \<open>A sample purge\<close>

lemma remember_untouched:
  assumes "prepare_remember db env ks operation input = Inr (Write ops r)" "p \<in> {P_RELATION_SIGNALS_BY_RECORD, P_ACTIVATION_TRACES_BY_RECORD}"
  shows "(part_name p, k) \<notin> cells_of ops"
proof -
  obtain h et g pt ev cl vc o' d rc au where "insert_evidence_record db h et = Inr ev" "insert_claim_record db g pt = Inr cl"
    "finish db vc o' d rc au (ev @ cl) = Inr (Write ops r)"
    using assms(1) by (auto simp: prepare_remember_def bind_res_eq_Inr Let_def split: if_splits dest!: unless_replayed_Write)
  then show ?thesis using assms(2)
    by (auto simp: insert_evidence_record_def insert_claim_record_def insert_lexical_document_def dependency_ops_def finish_def
        insert_audit_def insert_operation_def bind_res_eq_Inr Let_def cells_of_def)
qed

lemma sample_no_derived:
  assumes "p \<in> {P_RELATION_SIGNALS_BY_RECORD, P_ACTIVATION_TRACES_BY_RECORD}"
  shows "kv_range mem_kv sample_ks (part_name p) lo hi = []"
proof -
  obtain ops where p: "prepare_remember sample_memory (sample_env 10) mem_empty sample_op sample_claim = Inr (Write ops (remembered (sample_env 10)))"
    by (rule remember_writes [OF sample_start sample_rememberable])
  have "mem_view sample_ks = apply_ops ops (mem_view mem_empty)"
    using sample_store.run_view(1) [of mem_empty ops "remembered (sample_env 10)"] by (simp add: sample_ks_def remember_user_claim_def p)
  then have "mem_view sample_ks (part_name p) k = None" for k
    using apply_ops_frame [OF remember_untouched [OF p assms]] by (simp add: mem_view_def mem_empty_def)
  then have "mem_view sample_ks (part_name p) = Map.empty" by (rule ext)
  then show ?thesis by (simp add: mem_kv_def mem_scan_entries entries_def)
qed

lemma sample_scans:
  "scan_records_derived sample_memory sample_ks P_RELATION_SIGNALS_BY_RECORD c ids rs = Inr ids"
  "scan_records_traces sample_memory sample_ks ids rs = Inr ids"
  by (induction rs arbitrary: ids) (simp_all add: sample_no_derived)

lemma sample_preview: "\<exists>preview. preview_purge sample_memory (sample_env 40) sample_ks Operator (REvidence 10) = Inr preview"
proof -
  note inv = reachable_inv [OF sample_remembered(2)]
  obtain ds where ds: "purge_dependency_closure sample_memory sample_ks (REvidence 10) = Inr ds" and dist: "distinct (map pd_record ds)"
    and mem: "\<And>d. d \<in> set ds \<Longrightarrow> \<exists>k sc st. obs sample_memory (mem_view sample_ks) (pd_record d) = Some (k, sc, st, pd_expected_revision d)"
    by (rule sample_store.closure_correct [OF mem_invD(1) [OF inv] mem_invD(2) [OF inv], of "REvidence 10" True])
      (auto simp: purge_dependency_closure_def strict_sorted_iff)
  have "set (map pd_record ds) \<subseteq> {REvidence 10, RClaim 11}"
    using mem unfolding sample_records by (fastforce simp: remembered_records_def sample_env_def split: if_splits option.splits)
  then have "length ds \<le> 2" using card_mono [of "{REvidence 10, RClaim 11}" "set (map pd_record ds)"] distinct_card [OF dist] by simp
  then obtain n where n: "count_present sample_memory sample_ks 0 (map (\<lambda>r. (P_PAYLOADS, payload_key r)) (REvidence 10 # map pd_record ds)) = Inr n"
    using sample_store.count_present_ok [of 0 "map (\<lambda>r. (P_PAYLOADS, payload_key r)) (REvidence 10 # map pd_record ds)" sample_ks] by auto
  have token: "md_purge_token sample_memory x = Inr (u64_be (pt_expected_revision x))" for x by (simp add: sample_memory_def)
  have "\<exists>preview. build_purge_preview_at sample_memory sample_ks (REvidence 10) 1000 601000 = Inr preview"
    using ds n sample_status(1)
    by (simp add: build_purge_preview_at_def relation_signals_depending_on_records_def activation_traces_depending_on_records_def
        sample_scans sort_dedup_def Let_def token del: record_scope_state_revision.simps count_present.simps scan_records_derived.simps scan_records_traces.simps)
  moreover have "checked_add_i64 (env_now (sample_env 40) 0) PURGE_PREVIEW_TTL_MS = Some 601000" "env_now (sample_env 40) 0 = 1000"
    by (simp_all add: checked_add_i64_def PURGE_PREVIEW_TTL_MS_def sample_env_def)
  ultimately show ?thesis by (simp add: preview_purge_def)
qed

lemma sample_preview_times:
  assumes "preview_purge sample_memory (sample_env 40) sample_ks Operator (REvidence 10) = Inr preview"
  shows "pv_target preview = REvidence 10" "pv_issued_at_ms preview = 1000" "pv_expires_at_ms preview = 601000"
    "pv_relation_signal_invalidations preview = []"
proof -
  have "build_purge_preview_at sample_memory sample_ks (REvidence 10) 1000 601000 = Inr preview"
    using assms by (simp add: preview_purge_def checked_add_i64_def PURGE_PREVIEW_TTL_MS_def sample_env_def)
  note P = preview_contents [OF this]
  show "pv_target preview = REvidence 10" "pv_issued_at_ms preview = 1000" "pv_expires_at_ms preview = 601000" using P(1) by simp_all
  show "pv_relation_signal_invalidations preview = []"
    using P(4) by (simp add: relation_signals_depending_on_records_def sample_scans sort_dedup_def del: scan_records_derived.simps)
qed

lemma sample_committable:
  assumes "preview_purge sample_memory (sample_env 40) sample_ks Operator (REvidence 10) = Inr preview"
  shows "committable sample_memory mem_view sample_ks \<lparr>oc_id = 904, oc_actor = Operator\<rparr> preview"
proof -
  have "\<exists>d. mutation_digest sample_memory ''commit_purge'' Operator (MuPurge preview) = Inr d"
    by (simp add: mutation_digest_def sample_memory_def)
  moreover have "mem_view sample_ks (part_name P_OPERATIONS) (id_key 904) = None" using sample_remembered(4) by auto
  moreover have "\<exists>v. to_value (vc_purge sample_receipts) r = Inr v" for r by (simp add: sample_receipts_def count_value_def)
  ultimately show ?thesis
    using sample_preview_times(4) [OF assms] sample_retractable unfolding retractable_def committable_def by simp
qed

lemma sample_times:
  assumes "preview_purge sample_memory (sample_env 40) sample_ks Operator (REvidence 10) = Inr preview"
  shows "sint (pv_issued_at_ms preview) \<le> sint (env_now (sample_env 40) 0)" "sint (env_now (sample_env 40) 0) < sint (pv_expires_at_ms preview)"
  by (simp_all add: sample_preview_times [OF assms] sample_env_def)

lemma sample_purge:
  "\<exists>preview receipt ks'. pv_target preview = REvidence 10 \<and>
     commit_purge sample_memory (sample_env 40) sample_ks \<lparr>oc_id = 904, oc_actor = Operator\<rparr> preview = (Inr receipt, ks')"
proof -
  obtain preview where p: "preview_purge sample_memory (sample_env 40) sample_ks Operator (REvidence 10) = Inr preview"
    using sample_preview by blast
  obtain ops r where w: "prepare_purge sample_memory (sample_env 40) sample_ks \<lparr>oc_id = 904, oc_actor = Operator\<rparr> preview = Inr (Write ops r)"
    by (rule purge_writes [OF sample_remembered(2) p sample_committable [OF p] sample_times [OF p]])
  have "fst (commit_purge sample_memory (sample_env 40) sample_ks \<lparr>oc_id = 904, oc_actor = Operator\<rparr> preview) = Inr r"
    using sample_store.run_view(2) [of sample_ks ops r] by (simp add: commit_purge_def w)
  then show ?thesis using sample_preview_times(1) [OF p] by (metis prod.collapse)
qed

theorem preview_commits_witness:
  "\<exists>preview receipt ks'. preview_purge sample_memory (sample_env 40) sample_ks Operator (REvidence 10) = Inr preview \<and>
     commit_purge sample_memory (sample_env 40) sample_ks \<lparr>oc_id = 904, oc_actor = Operator\<rparr> preview = (Inr receipt, ks') \<and>
     rv_record (pq_target receipt) = REvidence 10"
proof -
  obtain preview where p: "preview_purge sample_memory (sample_env 40) sample_ks Operator (REvidence 10) = Inr preview"
    using sample_preview by blast
  show ?thesis using preview_commits [OF sample_remembered(2) p sample_committable [OF p] sample_times [OF p]] p by blast
qed

theorem purge_erases_witness:
  "\<exists>preview receipt ks'. commit_purge sample_memory (sample_env 40) sample_ks \<lparr>oc_id = 904, oc_actor = Operator\<rparr> preview = (Inr receipt, ks') \<and>
     get_payload sample_memory ks' (REvidence 10) = Inr None \<and> get_payload sample_memory ks' (RClaim 11) = Inr None"
proof -
  obtain preview receipt ks' where p: "pv_target preview = REvidence 10"
    and run: "commit_purge sample_memory (sample_env 40) sample_ks \<lparr>oc_id = 904, oc_actor = Operator\<rparr> preview = (Inr receipt, ks')"
    using sample_purge by blast
  have new: "mem_view sample_ks (part_name P_OPERATIONS) (id_key (oc_id \<lparr>oc_id = 904, oc_actor = Operator\<rparr>)) = None"
    using sample_remembered(4) by auto
  have "(mem_step sample_memory)\<^sup>*\<^sup>* ks' ks'" by simp
  note E = purge_erases [OF sample_remembered(2) run new this]
  have "(dep (mem_view sample_ks))\<^sup>+\<^sup>+ (REvidence 10) (RClaim 11)" using sample_status(3) by blast
  then have "get_payload sample_memory ks' (REvidence 10) = Inr None \<and> get_payload sample_memory ks' (RClaim 11) = Inr None"
    using E sample_status(2) unfolding p by (auto simp del: record_scope_state_revision.simps)
  then show ?thesis using run by blast
qed

end
