(* ===== verification/Spec2Isabelle.thy ===== *)
theory Spec2Isabelle
  imports Catalog State_Store Blob Query_Physical Query_Optimizer Mmql_Roundtrip Memory_Privacy
begin

text \<open>
  A verification development of mmdb, an embedded multi-modal memory database in Rust.

  \<^bold>\<open>The program.\<close> mmdb stores memory nodes (episodes, facts, entities, artifacts) per tenant,
  edges between them, named JSON state with revisions, and large binary objects; a query layer
  runs plans over nodes and edges. The crates are layered: \<^verbatim>\<open>mmdb-core\<close> has the data types,
  \<^verbatim>\<open>mmdb-storage\<close>, \<^verbatim>\<open>mmdb-graph\<close>, the state store of \<^verbatim>\<open>mmdb\<close> and the metadata of \<^verbatim>\<open>mmdb-blob\<close> each
  keep partitions of one ordered key-value store (the crate \<^verbatim>\<open>fjall\<close>), \<^verbatim>\<open>mmdb-catalog\<close> keeps
  counters in memory, and \<^verbatim>\<open>mmdb-query\<close> plans, optimizes and executes queries. On the same key-value
  store the facade crate \<^verbatim>\<open>mmdb\<close> builds the native memory: evidence, the claims, entities and
  relations that rest on it, artifacts, and recall with citations.

  \<^bold>\<open>Theories and the code they model\<close> (paths under \<^verbatim>\<open>src/crates\<close>).
  \<^item> \<open>Prelude\<close>: machine integers as words, big-endian key encodings with their order, UTF-8
    validity, the error type and results of \<^verbatim>\<open>mmdb-core/src/error.rs\<close>, the stable sort and the
    ordered maps of the standard library, and the lemmas the components share.
  \<^item> \<open>Kv\<close>: the key-value store is not part of the repository. It is a record of operations with
    the contract \<open>kv_engine\<close> as a locale: reads, ordered range scans, atomic batches, persistence.
    The locale is interpreted on an in-memory store. Serializers (\<^verbatim>\<open>postcard\<close>, \<^verbatim>\<open>serde_json\<close>) are
    codec parameters whose round trip is the hypothesis \<open>codec_ok\<close>.
  \<^item> \<open>Core_Types\<close>: \<^verbatim>\<open>mmdb-core/src/types.rs\<close>.
  \<^item> \<open>Storage\<close>: \<^verbatim>\<open>mmdb-storage/src\<close>. The five partitions agree: every stored node has exactly its
    time, kind, metadata and side-table entries (the keyspace invariant), after \<^verbatim>\<open>put_node\<close> and
    \<^verbatim>\<open>delete_node\<close>; time scans and metadata lookups return exactly what the invariant says.
  \<^item> \<open>Graph\<close>: \<^verbatim>\<open>mmdb-graph/src/lib.rs\<close>. Forward and reverse adjacency mirror each other, the label
    dictionary covers all edges; neighbour scans, bounded breadth-first traversal (locale
    \<open>traversal\<close>) and label listing are correct with respect to the stored edges.
  \<^item> \<open>Catalog\<close>: \<^verbatim>\<open>mmdb-catalog/src/lib.rs\<close>. Tenant counters refine exact counts.
  \<^item> \<open>State_Store\<close>: \<^verbatim>\<open>mmdb/src/state.rs\<close>. Compare-and-swap batches are atomic, revisions only grow
    over any run (an inductive step relation), prefix scans and replacement are exact.
  \<^item> \<open>Fs\<close>, \<open>Blob\<close>: \<^verbatim>\<open>mmdb-blob/src\<close> over a model of the \<^verbatim>\<open>std::fs\<close> calls it makes. Content is read back
    as stored, reference counts, garbage collection and repair keep bytes and metadata in step.
  \<^item> \<open>Float32\<close>: IEEE single precision by exact rounding of integer quotients; the total and the
    partial order; products, complements and quotients stay in the unit interval.
  \<^item> \<open>Query_IR\<close>: \<^verbatim>\<open>mmdb-query/src/ir.rs\<close> and \<^verbatim>\<open>builder.rs\<close>: plans, predicates, statistics, recall builders.
  \<^item> \<open>Query_Eval\<close>: \<^verbatim>\<open>mmdb-query/src/eval.rs\<close>: predicates, grouping, sorting. Join values are debug
    texts; the texts of singles and strings are parameters with the hypothesis \<open>debug_ok\<close>.
  \<^item> \<open>Query_Exec\<close>: \<^verbatim>\<open>Executor::execute\<close> of \<^verbatim>\<open>mmdb-query/src/executor.rs\<close>. Graph expansion is an
    interpretation of the locale \<open>traversal\<close> of \<open>Graph\<close>.
  \<^item> \<open>Query_Explain\<close>: row estimates and explain shapes (\<^verbatim>\<open>explain.rs\<close>, part of \<^verbatim>\<open>optimizer.rs\<close>).
  \<^item> \<open>Query_Physical\<close>: the batch operators, both \<^verbatim>\<open>compile\<close> functions, instrumentation and explain.
    The locale \<open>puller\<close> is the contract of \<^verbatim>\<open>next_batch\<close>: one pull splits a batch off the rows to
    come and advances the row counters accordingly. It is interpreted on the model's
    \<open>next_batch\<close>; batch execution then equals direct execution.
  \<^item> \<open>Query_Optimizer\<close>: \<^verbatim>\<open>optimizer.rs\<close>: the rewriter terminates, preserves results where it should, and
    its join order enumeration is exhaustive and sorted by cost.
  \<^item> \<open>Std_Text\<close>, \<open>Mmql_Text\<close>: the string operations of the standard library the parsers call, number
    parsing and the text utilities of \<^verbatim>\<open>mmdb-mmql/src/util.rs\<close>.
  \<^item> \<open>Mmql\<close>: \<^verbatim>\<open>mmdb-mmql/src/ast.rs\<close> and \<^verbatim>\<open>parser.rs\<close>: every statement of the query language, its
    diagnostics, resolver and lowering to plans, with the panics as values. Lowered plans read
    only the tenant and the sources the query names, diagnostics point into the text, and the
    inputs that panic are characterised.
  \<^item> \<open>Mmql_Roundtrip\<close>: a printer for predicates; parsing what it prints gives the predicate back.


  \<^bold>\<open>The native memory\<close> (\<^verbatim>\<open>mmdb/src/native_memory.rs\<close>). A record of any of nine kinds has an
  identifier, a scope and a chain of revisions, the last of which says whether it is active.
  Dependencies lead from what is cited to what cites it.
  \<^item> \<open>Memory_Types\<close>, \<open>Memory_Keys\<close>: records, inputs, receipts, errors; keys of all partitions and
    their injectivity. \<open>Memory_Policy\<close>: validation of texts and times, who may capture or activate
    what, normalization and tokens.
  \<^item> \<open>Memory_Store\<close>: the readers of every kind of record. \<open>Memory_Ops\<close>: digests, replay of
    operations, audit, lexical index, revisions, the dependency search. \<open>Memory_Mutations\<close>: capture,
    retraction, remembering, correction, claims, relations. \<open>Memory_Artifacts\<close>: collections,
    snapshots, passages. \<open>Memory_Recall\<close>: candidates, citations, ranking, the recall case.
    \<open>Memory_Purge\<close>: previewing and committing a purge. Each call prepares a batch or an error from the store and commits the batch.
  \<^item> \<open>Memory_Inv\<close>: what is observed of a record in a store, its well-formedness, and the locale
    \<open>memory_store\<close> (a key-value engine and serializers that round-trip) in which all readers are
    characterised. \<open>Memory_Effects\<close>, \<open>Memory_Create\<close>: what the batches of revisions and of new
    records do to the observations, \<open>Memory_Erase\<close> what a purge does. \<open>Memory_Closure\<close>: the dependency search terminates and is
    exact. \<open>Memory_Support\<close>: the invariant of the store.
  \<^item> \<open>Memory_Runs\<close>: every modelled call keeps the invariant; stores evolve by these calls, the step
    relation \<open>mem_step\<close>.
    \<open>Memory_Replay\<close>: receipts stay, so a repeated call is answered from its receipt.
  \<^item> \<open>Memory_Sample\<close>: the contract interpreted on an in-memory store with codecs from an
    enumeration. \<open>Memory_Props\<close>, \<open>Memory_Search\<close>, \<open>Memory_Privacy\<close>: the properties.
  The JSON serializer, keyed hash, Unicode tables, identifier generator and clock are parameters.
  A call must be given new identifiers (at most \<open>MAX_IDS\<close> of them, the need of the largest batch
  of passages) and texts that are valid UTF-8, as every Rust string is.

  \<^bold>\<open>Conventions.\<close> A result is a sum with the error on the left. Words keep their width; \<^verbatim>\<open>usize\<close>
  is a natural number below \<open>2 ^ 64\<close>. Integer additions that the source leaves unchecked wrap, as
  in a release build. Memory is unlimited: the failure of an allocation, such as the capacity of a
  batch in \<^verbatim>\<open>Vec::with_capacity(batch_size)\<close> for a huge batch size, is not modelled. A sort whose comparison is not a total preorder (scores with NaN) has no
  determined result in the source; properties about score order ask that no score is NaN.

  \<^bold>\<open>Loops and fuel.\<close> Recursions carry termination proofs: breadth-first search by the multiset of
  remaining depths, the optimizer by the number of plan nodes. The loops that pull nested
  operators are partial functions into options, and the theorems state that they return. The
  dispatch of \<open>next_batch\<close> is bounded by the nesting depth of the operator, which always
  suffices. The 254 exponents tried in \<open>f32_ratio\<close> are all exponents of finite singles.

  \<^bold>\<open>Not modelled.\<close> The approximate vector index and its store (\<^verbatim>\<open>mmdb-vector\<close>, a wrapper of a
  third-party index), user-defined functions in a WebAssembly runtime (\<^verbatim>\<open>mmdb-udf\<close>), and of the
  facade crate \<^verbatim>\<open>mmdb\<close> the opening and formatting of stores on disk, the recall ranking and
  consolidation of the node database, runtime, extraction and the context handle. Of the native
  memory, proposals and their review, relation evaluators, profiles, signals and
  activation, and feedback are not modelled; a purge erases signals and traces all the same. So the
  invariants of the memory hold for stores changed by the calls of \<open>mem_step\<close> only. They do not
  extend to \<^verbatim>\<open>adjudicate_proposal\<close>: one accepted bundle may create a claim on evidence taken from an
  artifact snapshot that the same bundle retracts, and the search for dependents, which reads the
  store before the bundle, does not see the new claim. Locks, threads and crashes between
  file system calls are outside the model; a batch of the key-value store is atomic by contract.
\<close>

end
